(* ===== verification/Prelude.thy ===== *)
theory Prelude
  imports Main "HOL-Library.Word"
begin

text \<open>
  Shared vocabulary of the development: the machine-integer types of the C++ sources, the
  error values that stand for exceptions, failed assertions and undefined behaviour, the
  error monad on \<open>cpp_error + 'a\<close>, and the list lemmas on overwriting, slicing and
  chunked concatenation that the components share.
\<close>

unbundle bit_operations_syntax

named_theorems err_simps \<open>unfolding rules for the error monad\<close>
named_theorems slice_simps \<open>rules on slices and overwritten ranges of lists\<close>

type_synonym u8 = "8 word"
type_synonym u16 = "16 word"
type_synonym u32 = "32 word"
type_synonym u64 = "64 word"

section \<open>Errors as values\<close>

text \<open>
  \<open>OutOfRange\<close> and \<open>LogicError\<close> are the C++ exceptions the sources throw, \<open>AssertFail\<close> is
  a failed \<^verbatim>\<open>SATURN_ASSERT\<close> (which ends in \<^verbatim>\<open>assert(0)\<close>); the others stand for undefined
  behaviour: a null pointer dereferenced, an access outside an array, a copy that runs past
  its destination, a value read from uninitialised memory, a division by zero, a shift by the
  width of the type or a signed overflow (\<open>ArithUB\<close>).  \<open>BadAlloc\<close> is the exception of an allocation
  that fails, \<open>Deadlock\<close> a mutex locked again by the thread that holds it, \<open>Terminate\<close> the end of the
  program by an exception that leaves a destructor.
\<close>

datatype cpp_error =
    OutOfRange
  | LogicError
  | AssertFail
  | NullDeref
  | OutOfBounds
  | BufferOverrun
  | Indeterminate
  | DivByZero
  | ArithUB
  | BadAlloc
  | Deadlock
  | Terminate

type_synonym 'a res = "cpp_error + 'a"

fun bindE :: "'a res \<Rightarrow> ('a \<Rightarrow> 'b res) \<Rightarrow> 'b res" where
  "bindE (Inl e) f = Inl e"
| "bindE (Inr x) f = f x"

lemma bindE_Inr_iff [err_simps]: "bindE m f = Inr y \<longleftrightarrow> (\<exists>x. m = Inr x \<and> f x = Inr y)"
  by (cases m) auto

lemma bindE_assoc: "bindE (bindE m f) g = bindE m (\<lambda>x. bindE (f x) g)"
  by (cases m) auto

lemma bindE_cong [fundef_cong]:
  "m = m' \<Longrightarrow> (\<And>x. m' = Inr x \<Longrightarrow> f x = f' x) \<Longrightarrow> bindE m f = bindE m' f'"
  by (cases m') auto

fun assertE :: "bool \<Rightarrow> unit res" where
  "assertE b = (if b then Inr () else Inl AssertFail)"

section \<open>Unsigned subtraction\<close>

text \<open>\<^verbatim>\<open>size_t\<close> values are natural numbers; a subtraction whose result would be negative wraps.\<close>

definition sub64 :: "nat \<Rightarrow> nat \<Rightarrow> nat" where
  "sub64 a b = (if b \<le> a then a - b else 2 ^ 64 + a - b)"

lemma sub64_le [simp]: "b \<le> a \<Longrightarrow> sub64 a b = a - b"
  by (simp add: sub64_def)

lemma sub64_word:
  assumes "a < 2 ^ 64" "b < 2 ^ 64"
  shows "sub64 a b = unat (of_nat a - of_nat b :: u64)"
  using assms
  by (simp add: sub64_def unat_sub_if_size word_size unsigned_of_nat take_bit_nat_eq_self)
    linarith

section \<open>Overwriting a range of a list\<close>

text \<open>\<open>overwrite xs p ys\<close> is \<open>xs\<close> with \<open>ys\<close> stored from index \<open>p\<close> on (\<^verbatim>\<open>memcpy(xs + p, ys, n)\<close>).\<close>

definition overwrite :: "'a list \<Rightarrow> nat \<Rightarrow> 'a list \<Rightarrow> 'a list" where
  "overwrite xs p ys = take p xs @ ys @ drop (p + length ys) xs"

definition slice :: "'a list \<Rightarrow> nat \<Rightarrow> nat \<Rightarrow> 'a list" where
  "slice xs p n = take n (drop p xs)"

lemma length_overwrite [simp, slice_simps]:
  "p + length ys \<le> length xs \<Longrightarrow> length (overwrite xs p ys) = length xs"
  by (simp add: overwrite_def)

lemma overwrite_Nil [simp, slice_simps]: "overwrite xs p [] = xs"
  by (simp add: overwrite_def)

lemma length_slice [simp, slice_simps]: "p + n \<le> length xs \<Longrightarrow> length (slice xs p n) = n"
  by (simp add: slice_def)

lemma slice_0 [simp, slice_simps]: "slice xs p 0 = []"
  by (simp add: slice_def)

lemma slice_append [slice_simps]: "slice xs p m @ slice xs (p + m) n = slice xs p (m + n)"
  by (simp add: slice_def take_add add.commute)

lemma slice_overwrite [slice_simps]:
  "p + length ys \<le> length xs \<Longrightarrow> slice (overwrite xs p ys) p (length ys) = ys"
  by (simp add: slice_def overwrite_def)

lemma nth_overwrite:
  "p + length ys \<le> length xs \<Longrightarrow> i < length xs \<Longrightarrow>
   overwrite xs p ys ! i = (if p \<le> i \<and> i < p + length ys then ys ! (i - p) else xs ! i)"
  by (auto simp: overwrite_def nth_append)

lemma overwrite_overwrite [slice_simps]:
  assumes "p + length ys + length zs \<le> length xs"
  shows "overwrite (overwrite xs p ys) (p + length ys) zs = overwrite xs p (ys @ zs)"
  by (rule nth_equalityI) (use assms in \<open>auto simp: nth_overwrite nth_append\<close>)

lemma take_overwrite [slice_simps]:
  "p + length ys \<le> n \<Longrightarrow> p \<le> length xs \<Longrightarrow>
   take n (overwrite xs p ys) = overwrite (take n xs) p ys"
  by (simp add: overwrite_def min_absorb2 take_drop)

lemma take_overwrite_extend:
  assumes "p \<le> s" "s \<le> length xs"
  shows "take (max s (p + length ys)) (overwrite (xs @ zs) p ys) = overwrite (take s xs) p ys"
proof -
  have "take (max s (p + length ys)) (overwrite (xs @ zs) p ys) =
      take p xs @ ys @ take (s - (p + length ys)) (drop (p + length ys) (xs @ zs))"
    using assms by (auto simp: overwrite_def max_def)
  also have "take (s - (p + length ys)) (drop (p + length ys) (xs @ zs)) = drop (p + length ys) (take s xs)"
    using assms by (simp add: drop_take [symmetric])
  finally show ?thesis using assms by (simp add: overwrite_def min_absorb1)
qed

section \<open>Chunked lists\<close>

text \<open>
  A list of chunks that all have length \<open>b\<close> is one flat list; chunk \<open>c\<close> occupies the flat
  positions \<open>c * b\<close> up to \<open>c * b + b\<close>.
\<close>

lemma length_concat_chunks:
  "\<forall>x\<in>set xs. length x = b \<Longrightarrow> length (concat xs) = length xs * b"
  by (induction xs) auto

lemma take_concat_chunks:
  "\<forall>x\<in>set xs. length x = b \<Longrightarrow> take (c * b) (concat xs) = concat (take c xs)"
proof (induction xs arbitrary: c)
  case (Cons x xs)
  then show ?case by (cases c) auto
qed simp

lemma drop_concat_chunks:
  "\<forall>x\<in>set xs. length x = b \<Longrightarrow> drop (c * b) (concat xs) = concat (drop c xs)"
proof (induction xs arbitrary: c)
  case (Cons x xs)
  then show ?case by (cases c) auto
qed simp

lemma slice_concat_chunks:
  assumes "\<forall>x\<in>set xs. length x = b" "c < length xs" "off + n \<le> b"
  shows "slice (concat xs) (c * b + off) n = slice (xs ! c) off n"
proof -
  have len: "length (xs ! c) = b" using assms by simp
  have "drop (c * b + off) (concat xs) = drop off (concat (drop c xs))"
    using drop_concat_chunks [OF assms(1), of c] by (metis add.commute drop_drop)
  also have "drop c xs = xs ! c # drop (Suc c) xs"
    using assms(2) by (simp add: Cons_nth_drop_Suc)
  finally show ?thesis
    using len assms(3) by (simp add: slice_def)
qed

lemma overwrite_concat_chunks:
  assumes "\<forall>x\<in>set xs. length x = b" "c < length xs" "off + length ys \<le> b"
  shows "concat (xs[c := overwrite (xs ! c) off ys]) = overwrite (concat xs) (c * b + off) ys"
proof -
  have len: "length (xs ! c) = b" using assms by simp
  have xs: "xs = take c xs @ xs ! c # drop (Suc c) xs"
    using assms(2) by (rule id_take_nth_drop)
  have lt: "length (concat (take c xs)) = c * b"
    using assms by (subst length_concat_chunks [where b = b]) (auto dest: in_set_takeD)
  have "concat (xs[c := overwrite (xs ! c) off ys]) =
      concat (take c xs) @ overwrite (xs ! c) off ys @ concat (drop (Suc c) xs)"
    using assms(2) by (simp add: upd_conv_take_nth_drop)
  also have "\<dots> = overwrite (concat (take c xs) @ xs ! c @ concat (drop (Suc c) xs)) (c * b + off) ys"
    using lt len assms(3) by (simp add: overwrite_def)
  also have "concat (take c xs) @ xs ! c @ concat (drop (Suc c) xs) = concat xs"
    by (metis xs concat.simps(2) concat_append)
  finally show ?thesis .
qed

end
