(* ===== verification/Bytes.thy ===== *)
theory Bytes
  imports Prelude
begin

text \<open>
  Machine words as byte sequences: the in-memory representation of an integer under the
  host byte order, the byte swap of \<^verbatim>\<open>util.h\<close>, and the zigzag and base-128 codecs of
  \<^verbatim>\<open>bytearray.cc\<close>.
\<close>

section \<open>Little-endian byte lists\<close>

fun le_bytes :: "nat \<Rightarrow> 'a::len word \<Rightarrow> u8 list" where
  "le_bytes 0 w = []"
| "le_bytes (Suc n) w = ucast w # le_bytes n (drop_bit 8 w)"

fun from_le_bytes :: "u8 list \<Rightarrow> 'a::len word" where
  "from_le_bytes [] = 0"
| "from_le_bytes (b # bs) = ucast b OR push_bit 8 (from_le_bytes bs)"

lemma length_le_bytes [simp]: "length (le_bytes n w) = n"
  by (induction n arbitrary: w) auto

lemma from_le_bytes_le_bytes: "from_le_bytes (le_bytes n w) = take_bit (8 * n) w"
proof (induction n arbitrary: w)
  case (Suc n)
  have "ucast (ucast w :: u8) OR push_bit 8 (take_bit (8 * n) (drop_bit 8 w)) = take_bit (8 + 8 * n) w"
    by (rule bit_word_eqI) (auto simp: bit_simps)
  then show ?case by (simp add: Suc)
qed simp

lemma le_bytes_roundtrip [simp]:
  fixes w :: "'a::len word"
  shows "LENGTH('a) \<le> 8 * n \<Longrightarrow> from_le_bytes (le_bytes n w) = w"
  by (simp add: from_le_bytes_le_bytes take_bit_word_eq_self)

lemma le_bytes_from_le_bytes:
  "8 * length bs \<le> LENGTH('a) \<Longrightarrow> le_bytes (length bs) (from_le_bytes bs :: 'a::len word) = bs"
proof (induction bs)
  case (Cons b bs)
  let ?r = "from_le_bytes bs :: 'a word"
  from Cons.prems have le: "8 + 8 * length bs \<le> LENGTH('a)" by simp
  have 1: "ucast (ucast b OR push_bit 8 ?r) = b"
    by (rule bit_word_eqI) (use le in \<open>auto simp: bit_simps\<close>)
  have 2: "drop_bit 8 (ucast b OR push_bit 8 ?r) = take_bit (LENGTH('a) - 8) ?r"
    by (rule bit_word_eqI) (use le in \<open>auto simp: bit_simps dest: bit_imp_le_length\<close>)
  have 3: "le_bytes n (take_bit m w) = le_bytes n w" if "8 * n \<le> m" for n m and w :: "'a word"
    using that
  proof (induction n arbitrary: m w)
    case (Suc n)
    have "ucast (take_bit m w) = (ucast w :: u8)"
      by (rule bit_word_eqI) (use Suc.prems in \<open>auto simp: bit_simps\<close>)
    moreover have "drop_bit 8 (take_bit m w) = take_bit (m - 8) (drop_bit 8 w)"
      by (simp add: drop_bit_take_bit)
    ultimately show ?case using Suc by simp
  qed simp
  show ?case using Cons le by (simp add: 1 2 3 del: drop_bit_or)
qed simp

section \<open>Byte order\<close>

datatype endian = LITTLE_ENDIAN | BIG_ENDIAN

text \<open>
  \<open>to_mem e n w\<close> is what \<^verbatim>\<open>memcpy\<close> of the \<open>n\<close> bytes of \<open>w\<close> yields on a host of byte order
  \<open>e\<close> (\<^verbatim>\<open>BYTE_ORDER\<close>); \<open>of_mem\<close> is the value such bytes denote there.
\<close>

definition to_mem :: "endian \<Rightarrow> nat \<Rightarrow> 'a::len word \<Rightarrow> u8 list" where
  "to_mem e n w = (case e of LITTLE_ENDIAN \<Rightarrow> le_bytes n w | BIG_ENDIAN \<Rightarrow> rev (le_bytes n w))"

definition of_mem :: "endian \<Rightarrow> u8 list \<Rightarrow> 'a::len word" where
  "of_mem e bs = (case e of LITTLE_ENDIAN \<Rightarrow> from_le_bytes bs | BIG_ENDIAN \<Rightarrow> from_le_bytes (rev bs))"

text \<open>\<^verbatim>\<open>bswap_16\<close>, \<^verbatim>\<open>bswap_32\<close> and \<^verbatim>\<open>bswap_64\<close> reverse the bytes of their argument.\<close>

definition byteswap :: "nat \<Rightarrow> 'a::len word \<Rightarrow> 'a word" where
  "byteswap n w = from_le_bytes (rev (le_bytes n w))"

definition byteswapOnLittleEndian :: "endian \<Rightarrow> nat \<Rightarrow> 'a::len word \<Rightarrow> 'a word" where
  "byteswapOnLittleEndian host n w = (if host = LITTLE_ENDIAN then byteswap n w else w)"

definition byteswapOnBigEndian :: "endian \<Rightarrow> nat \<Rightarrow> 'a::len word \<Rightarrow> 'a word" where
  "byteswapOnBigEndian host n w = (if host = LITTLE_ENDIAN then w else byteswap n w)"

lemma length_to_mem [simp]: "length (to_mem e n w) = n"
  by (simp add: to_mem_def split: endian.split)

lemma of_mem_to_mem [simp]:
  fixes w :: "'a::len word"
  shows "LENGTH('a) \<le> 8 * n \<Longrightarrow> of_mem e (to_mem e n w) = w"
  by (simp add: of_mem_def to_mem_def split: endian.split)

lemma le_bytes_byteswap:
  fixes w :: "'a::len word"
  shows "8 * n \<le> LENGTH('a) \<Longrightarrow> le_bytes n (byteswap n w) = rev (le_bytes n w)"
  using le_bytes_from_le_bytes [of "rev (le_bytes n w)"] by (simp add: byteswap_def)

lemma byteswap_byteswap [simp]:
  fixes w :: "'a::len word"
  shows "LENGTH('a) = 8 * n \<Longrightarrow> byteswap n (byteswap n w) = w"
  by (simp add: byteswap_def [of n "byteswap n w"] le_bytes_byteswap)

lemma to_mem_byteswap:
  fixes w :: "'a::len word"
  assumes "LENGTH('a) = 8 * n" "host \<noteq> e"
  shows "to_mem host n (byteswap n w) = to_mem e n w"
  using assms by (cases host; cases e) (simp_all add: to_mem_def le_bytes_byteswap)

section \<open>Zigzag codes\<close>

text \<open>
  \<^verbatim>\<open>int32_t\<close> and \<^verbatim>\<open>int64_t\<close> values are words read in two's complement, and the arithmetic is
  the wrap-around arithmetic of the machine.
\<close>

definition EncodeZigzag32 :: "u32 \<Rightarrow> u32" where
  "EncodeZigzag32 v = (if sint v < 0 then (- v) * 2 - 1 else v * 2)"

definition EncodeZigzag64 :: "u64 \<Rightarrow> u64" where
  "EncodeZigzag64 v = (if sint v < 0 then (- v) * 2 - 1 else v * 2)"

definition DecodeZigzag32 :: "u32 \<Rightarrow> u32" where
  "DecodeZigzag32 v = drop_bit 1 v XOR - (v AND 1)"

definition DecodeZigzag64 :: "u64 \<Rightarrow> u64" where
  "DecodeZigzag64 v = drop_bit 1 v XOR - (v AND 1)"

lemma zigzag_pos:
  fixes v :: "'a::len word"
  assumes "0 \<le> sint v"
  shows "drop_bit 1 (v * 2) XOR - (v * 2 AND 1) = v"
proof -
  have v2: "v * 2 = push_bit 1 v" by (simp add: push_bit_eq_mult)
  have a: "push_bit 1 v AND 1 = 0"
    by (rule bit_word_eqI) (auto simp: bit_simps bit_double_iff mult.commute [of _ 2])
  have b: "drop_bit 1 (push_bit 1 v) = v"
  proof (rule bit_word_eqI)
    fix n assume n: "n < LENGTH('a)"
    from assms have "\<not> bit v (LENGTH('a) - 1)"
      by (simp add: bit_last_iff)
    moreover have "n = LENGTH('a) - 1" if "\<not> Suc n < LENGTH('a)" using n that by simp
    ultimately show "bit (drop_bit 1 (push_bit 1 v)) n = bit v n"
      by (auto simp: bit_simps bit_double_iff mult.commute [of _ 2])
  qed
  show ?thesis unfolding v2 a using b by simp
qed

lemma zigzag_neg:
  fixes v :: "'a::len word"
  assumes "sint v < 0"
  shows "drop_bit 1 ((- v) * 2 - 1) XOR - (((- v) * 2 - 1) AND 1) = v"
proof -
  have v2: "(- v) * 2 - 1 = NOT (push_bit 1 v)"
    by (simp add: push_bit_eq_mult not_eq_complement)
  have a: "NOT (push_bit 1 v) AND 1 = 1"
    by (rule bit_word_eqI) (auto simp: bit_simps bit_double_iff mult.commute [of _ 2])
  have b: "drop_bit 1 (NOT (push_bit 1 v)) XOR - 1 = v"
  proof (rule bit_word_eqI)
    fix n assume n: "n < LENGTH('a)"
    from assms have "bit v (LENGTH('a) - 1)"
      by (simp add: bit_last_iff)
    moreover have "n = LENGTH('a) - 1" if "\<not> Suc n < LENGTH('a)" using n that by simp
    ultimately show "bit (drop_bit 1 (NOT (push_bit 1 v)) XOR - 1) n = bit v n"
      using n by (auto simp: bit_simps bit_double_iff mult.commute [of _ 2])
  qed
  show ?thesis unfolding v2 a using b by simp
qed

lemma DecodeZigzag32_EncodeZigzag32 [simp]: "DecodeZigzag32 (EncodeZigzag32 v) = v"
  unfolding DecodeZigzag32_def EncodeZigzag32_def
  using zigzag_neg [of v] zigzag_pos [of v]
  by (simp only: not_less split: if_split) auto

lemma DecodeZigzag64_EncodeZigzag64 [simp]: "DecodeZigzag64 (EncodeZigzag64 v) = v"
  unfolding DecodeZigzag64_def EncodeZigzag64_def
  using zigzag_neg [of v] zigzag_pos [of v]
  by (simp only: not_less split: if_split) auto

section \<open>Base-128 variable-length integers\<close>

text \<open>The loops of \<^verbatim>\<open>writeUint32\<close> and \<^verbatim>\<open>writeUint64\<close> that fill the array \<^verbatim>\<open>tmp\<close>.\<close>

lemma unat_drop_bit_7_less:
  fixes v :: "'a::len word"
  shows "0x80 \<le> unat v \<Longrightarrow> unat (drop_bit 7 v) < unat v"
  unfolding unat_drop_bit_eq by (simp add: drop_bit_eq_div)

function varint32 :: "u32 \<Rightarrow> u8 list" where
  "varint32 v = (if 0x80 \<le> v then ucast ((v AND 0x7f) OR 0x80) # varint32 (drop_bit 7 v)
                 else [ucast v])"
  by pat_completeness auto
termination
  by (relation "measure unat") (simp_all add: unat_drop_bit_7_less word_le_nat_alt)

function varint64 :: "u64 \<Rightarrow> u8 list" where
  "varint64 v = (if 0x80 \<le> v then ucast ((v AND 0x7f) OR 0x80) # varint64 (drop_bit 7 v)
                 else [ucast v])"
  by pat_completeness auto
termination
  by (relation "measure unat") (simp_all add: unat_drop_bit_7_less word_le_nat_alt)

declare varint32.simps [simp del] varint64.simps [simp del]

lemma unat_drop_bit_7_bound:
  fixes v :: "'a::len word"
  assumes "unat v < 2 ^ (7 * Suc k)"
  shows "unat (drop_bit 7 v) < 2 ^ (7 * k)"
proof -
  have "unat v < 2 ^ (7 * k) * 2 ^ 7"
    using assms by (simp add: power_add)
  then show ?thesis
    unfolding unat_drop_bit_eq by (simp add: drop_bit_eq_div less_mult_imp_div_less)
qed

lemma length_varint32_le: "unat v < 2 ^ (7 * Suc k) \<Longrightarrow> length (varint32 v) \<le> Suc k"
proof (induction k arbitrary: v)
  case 0
  then have "\<not> 0x80 \<le> v" by (simp add: word_le_nat_alt)
  then show ?case by (simp add: varint32.simps [of v])
next
  case (Suc k)
  then show ?case using unat_drop_bit_7_bound [of v "Suc k"]
    by (simp add: varint32.simps [of v])
qed

lemma length_varint64_le: "unat v < 2 ^ (7 * Suc k) \<Longrightarrow> length (varint64 v) \<le> Suc k"
proof (induction k arbitrary: v)
  case 0
  then have "\<not> 0x80 \<le> v" by (simp add: word_le_nat_alt)
  then show ?case by (simp add: varint64.simps [of v])
next
  case (Suc k)
  then show ?case using unat_drop_bit_7_bound [of v "Suc k"]
    by (simp add: varint64.simps [of v])
qed

lemma varint_nonempty [simp]: "varint32 v \<noteq> []" "varint64 w \<noteq> []"
  by (subst varint32.simps, simp) (subst varint64.simps, simp)

text \<open>One byte of the decoding loops: the 7 payload bits of a byte, shifted into place.\<close>

lemma bit_0x80D: "bit (0x80 :: 'a::semiring_bit_operations) k \<Longrightarrow> k = 7"
  using bit_exp_iff [of 7 k, where ?'a = 'a] by simp

lemma varint_step_bits:
  fixes v :: "'a::len word"
  assumes "8 \<le> LENGTH('a)"
  shows "take_bit i v OR push_bit i (ucast ((ucast ((drop_bit i v AND 0x7f) OR 0x80) :: u8) AND 0x7f))
       = take_bit (i + 7) v"
proof -
  have m: "0x7f = (mask 7 :: 'a word)" "0x7f = (mask 7 :: u8)"
    by (simp_all add: mask_eq_exp_minus_1)
  show ?thesis unfolding m
    by (rule bit_word_eqI) (use assms in \<open>auto simp: bit_simps dest: bit_0x80D\<close>)
qed

lemma varint_last_bits:
  fixes v :: "'a::len word"
  assumes "8 \<le> LENGTH('a)" "unat (drop_bit i v) < 0x80"
  shows "take_bit i v OR push_bit i (ucast (ucast (drop_bit i v) :: u8)) = v"
proof -
  have "ucast (ucast (drop_bit i v) :: u8) = drop_bit i v"
    using assms(2) by (simp add: word_unat_eq_iff unsigned_ucast_eq unsigned_take_bit_eq take_bit_nat_eq_self)
  moreover have "take_bit i v OR push_bit i (drop_bit i v) = v"
  proof (rule bit_word_eqI)
    fix n
    show "bit (take_bit i v OR push_bit i (drop_bit i v)) n = bit v n"
      by (cases "n < i") (auto simp: bit_simps dest: bit_imp_le_length)
  qed
  ultimately show ?thesis by simp
qed

end
