(* ===== verification/ByteArray.thy ===== *)
theory ByteArray
  imports Bytes
begin

text \<open>
  The class \<^verbatim>\<open>ByteArray\<close> of \<^verbatim>\<open>saturn/bytearray.cc\<close>: a byte buffer kept as a chain of nodes of
  one base size, with a position that reads and writes share.  The chain from \<^verbatim>\<open>m_root\<close> is
  a list of nodes, \<^verbatim>\<open>m_cur\<close> is an index into it (\<open>None\<close> is the null pointer), and the bytes
  of a fresh \<^verbatim>\<open>new char[s]\<close> are indeterminate (\<open>None\<close>).  The first half has the operations,
  the second the invariant and the refinement to a flat buffer.
\<close>

section \<open>Nodes and the buffer\<close>

type_synonym cell = "u8 option"
type_synonym node = "cell list"

definition newNode :: "nat \<Rightarrow> node" where
  "newNode s = replicate s None"

record bytearray =
  m_baseSize :: nat
  m_position :: nat
  m_capacity :: nat
  m_size :: nat
  m_endian :: endian
  m_nodes :: "node list"
  m_cur :: "nat option"

definition newByteArray :: "nat \<Rightarrow> bytearray" where
  "newByteArray base_size =
     \<lparr>m_baseSize = base_size, m_position = 0, m_capacity = base_size, m_size = 0,
      m_endian = BIG_ENDIAN, m_nodes = [newNode base_size], m_cur = Some 0\<rparr>"

definition isLittleEndian :: "bytearray \<Rightarrow> bool" where
  "isLittleEndian ba \<longleftrightarrow> m_endian ba = LITTLE_ENDIAN"

definition setIsLittleEndian :: "bool \<Rightarrow> bytearray \<Rightarrow> bytearray" where
  "setIsLittleEndian val ba = ba\<lparr>m_endian := (if val then LITTLE_ENDIAN else BIG_ENDIAN)\<rparr>"

text \<open>Pointers into the chain: the size of a node, its successor, and copies in and out of it.\<close>

definition node_size :: "bytearray \<Rightarrow> nat \<Rightarrow> nat" where
  "node_size ba c = length (m_nodes ba ! c)"

definition node_next :: "bytearray \<Rightarrow> nat \<Rightarrow> nat option" where
  "node_next ba c = (if Suc c < length (m_nodes ba) then Some (Suc c) else None)"

definition node_write :: "nat \<Rightarrow> nat \<Rightarrow> cell list \<Rightarrow> bytearray \<Rightarrow> bytearray res" where
  "node_write c off bs ba =
     (if c < length (m_nodes ba) \<and> off + length bs \<le> node_size ba c
      then Inr (ba\<lparr>m_nodes := (m_nodes ba)[c := overwrite (m_nodes ba ! c) off bs]\<rparr>)
      else Inl OutOfBounds)"

definition node_read :: "nat \<Rightarrow> nat \<Rightarrow> nat \<Rightarrow> bytearray \<Rightarrow> cell list res" where
  "node_read c off n ba =
     (if c < length (m_nodes ba) \<and> off + n \<le> node_size ba c
      then Inr (slice (m_nodes ba ! c) off n) else Inl OutOfBounds)"

definition getReadSize :: "bytearray \<Rightarrow> nat" where
  "getReadSize ba = sub64 (m_size ba) (m_position ba)"

definition getCapacity :: "bytearray \<Rightarrow> nat" where
  "getCapacity ba = sub64 (m_capacity ba) (m_position ba)"

section \<open>Growing\<close>

text \<open>The loop of \<^verbatim>\<open>addCapacity\<close> that links \<open>count\<close> fresh nodes after the last one.\<close>

fun addNodes :: "nat \<Rightarrow> bytearray \<Rightarrow> bytearray" where
  "addNodes 0 ba = ba"
| "addNodes (Suc n) ba =
     addNodes n (ba\<lparr>m_nodes := m_nodes ba @ [newNode (m_baseSize ba)],
                    m_capacity := m_capacity ba + m_baseSize ba\<rparr>)"

text \<open>
  \<^verbatim>\<open>ceil(1.0 * size / m_baseSize)\<close> is computed in double precision, which is exact for every
  \<open>size\<close> below \<open>2^53\<close>; the model divides exactly.
\<close>

definition addCapacity :: "nat \<Rightarrow> bytearray \<Rightarrow> bytearray" where
  "addCapacity sz ba =
     (if sz = 0 then ba
      else let old_cap = getCapacity ba in
        if old_cap \<ge> sz then ba
        else let sz' = sz - old_cap;
                 count = (sz' + m_baseSize ba - 1) div m_baseSize ba;
                 first = (if count = 0 then None else Some (length (m_nodes ba)));
                 ba' = addNodes count ba
             in if old_cap = 0 then ba'\<lparr>m_cur := first\<rparr> else ba')"

section \<open>Writing\<close>

function write_loop :: "cell list \<Rightarrow> nat \<Rightarrow> nat \<Rightarrow> bytearray \<Rightarrow> bytearray res" where
  "write_loop buf npos ncap ba =
     (if buf = [] then Inr ba
      else case m_cur ba of
        None \<Rightarrow> Inl NullDeref
      | Some c \<Rightarrow>
          let sz = length buf in
          if ncap \<ge> sz then
            bindE (node_write c npos buf ba) (\<lambda>ba1.
              Inr (ba1\<lparr>m_cur := (if node_size ba1 c = npos + sz then node_next ba1 c else Some c),
                       m_position := m_position ba1 + sz\<rparr>))
          else
            bindE (node_write c npos (take ncap buf) ba) (\<lambda>ba1.
              case node_next ba1 c of
                None \<Rightarrow> Inl NullDeref
              | Some c' \<Rightarrow>
                  write_loop (drop ncap buf) 0 (node_size ba1 c')
                    (ba1\<lparr>m_position := m_position ba1 + ncap, m_cur := Some c'\<rparr>)))"
  by pat_completeness auto
termination
  by (relation "measure (\<lambda>(buf, npos, ncap, ba). length (m_nodes ba) - the (m_cur ba))")
    (auto simp: node_next_def node_write_def split: if_splits)

declare write_loop.simps [simp del]

definition ba_write :: "u8 list \<Rightarrow> bytearray \<Rightarrow> bytearray res" where
  "ba_write buf ba =
     (if buf = [] then Inr ba
      else if m_baseSize ba = 0 then Inl DivByZero
      else let ba1 = addCapacity (length buf) ba;
               npos = m_position ba1 mod m_baseSize ba1
           in case m_cur ba1 of
                None \<Rightarrow> Inl NullDeref
              | Some c \<Rightarrow>
                  bindE (write_loop (map Some buf) npos (sub64 (node_size ba1 c) npos) ba1) (\<lambda>ba2.
                    Inr (if m_position ba2 > m_size ba2 then ba2\<lparr>m_size := m_position ba2\<rparr>
                         else ba2)))"

section \<open>Reading\<close>

text \<open>
  Both branches of the loop of \<^verbatim>\<open>read(buf, size)\<close> copy \<^verbatim>\<open>ncap\<close> bytes: \<open>out\<close> collects
  everything that is stored from \<^verbatim>\<open>buf\<close> on, which can be more than \<open>size\<close> bytes.
\<close>

function read_loop :: "nat \<Rightarrow> nat \<Rightarrow> nat \<Rightarrow> cell list \<Rightarrow> bytearray \<Rightarrow> (cell list \<times> bytearray) res" where
  "read_loop sz npos ncap out ba =
     (if sz = 0 then Inr (out, ba)
      else case m_cur ba of
        None \<Rightarrow> Inl NullDeref
      | Some c \<Rightarrow>
          if ncap \<ge> sz then
            bindE (node_read c npos ncap ba) (\<lambda>bs.
              Inr (out @ bs,
                   ba\<lparr>m_cur := (if node_size ba c = npos + sz then node_next ba c else Some c),
                      m_position := m_position ba + sz\<rparr>))
          else
            bindE (node_read c npos ncap ba) (\<lambda>bs.
              case node_next ba c of
                None \<Rightarrow> Inl NullDeref
              | Some c' \<Rightarrow>
                  read_loop (sz - ncap) 0 (node_size ba c') (out @ bs)
                    (ba\<lparr>m_position := m_position ba + ncap, m_cur := Some c'\<rparr>)))"
  by pat_completeness auto
termination
  by (relation "measure (\<lambda>(sz, npos, ncap, out, ba). length (m_nodes ba) - the (m_cur ba))")
    (auto simp: node_next_def split: if_splits)

declare read_loop.simps [simp del]

definition ba_read :: "nat \<Rightarrow> bytearray \<Rightarrow> (cell list \<times> bytearray) res" where
  "ba_read sz ba =
     (if sz > getReadSize ba then Inl OutOfRange
      else if m_baseSize ba = 0 then Inl DivByZero
      else let npos = m_position ba mod m_baseSize ba
           in case m_cur ba of
                None \<Rightarrow> Inl NullDeref
              | Some c \<Rightarrow> read_loop sz npos (sub64 (node_size ba c) npos) [] ba)"

text \<open>
  \<^verbatim>\<open>read(buf, size, position) const\<close>: the walk starts at \<^verbatim>\<open>m_cur\<close>, whatever \<open>position\<close> is, and
  the last branch copies \<^verbatim>\<open>size\<close> bytes.
\<close>

function readAt_loop :: "nat \<Rightarrow> nat \<Rightarrow> nat \<Rightarrow> nat \<Rightarrow> bytearray \<Rightarrow> cell list res" where
  "readAt_loop sz npos ncap cur ba =
     (if sz = 0 then Inr []
      else if ncap \<ge> sz then node_read cur npos sz ba
      else bindE (node_read cur npos ncap ba) (\<lambda>bs.
             case node_next ba cur of
               None \<Rightarrow> Inl NullDeref
             | Some cur' \<Rightarrow>
                 bindE (readAt_loop (sz - ncap) 0 (node_size ba cur') cur' ba) (\<lambda>rest.
                   Inr (bs @ rest))))"
  by pat_completeness auto
termination
  by (relation "measure (\<lambda>(sz, npos, ncap, cur, ba). length (m_nodes ba) - cur)")
    (auto simp: node_next_def split: if_splits)

declare readAt_loop.simps [simp del]

definition ba_readAt :: "nat \<Rightarrow> nat \<Rightarrow> bytearray \<Rightarrow> cell list res" where
  "ba_readAt sz position ba =
     (if sz > sub64 (m_size ba) position then Inl OutOfRange
      else if m_baseSize ba = 0 then Inl DivByZero
      else let npos = position mod m_baseSize ba
           in case m_cur ba of
                None \<Rightarrow> Inl NullDeref
              | Some c \<Rightarrow> readAt_loop sz npos (sub64 (node_size ba c) npos) c ba)"

section \<open>Moving and clearing\<close>

function setPosition_loop :: "nat \<Rightarrow> nat \<Rightarrow> bytearray \<Rightarrow> (nat option) res" where
  "setPosition_loop v cur ba =
     (if v > node_size ba cur then
        case node_next ba cur of
          None \<Rightarrow> Inl NullDeref
        | Some cur' \<Rightarrow> setPosition_loop (v - node_size ba cur) cur' ba
      else Inr (if v = node_size ba cur then node_next ba cur else Some cur))"
  by pat_completeness auto
termination
  by (relation "measure (\<lambda>(v, cur, ba). length (m_nodes ba) - cur)")
    (auto simp: node_next_def split: if_splits)

declare setPosition_loop.simps [simp del]

definition setPosition :: "nat \<Rightarrow> bytearray \<Rightarrow> bytearray res" where
  "setPosition v ba =
     (if v > m_capacity ba then Inl OutOfRange
      else let ba1 = ba\<lparr>m_position := v\<rparr>;
               ba2 = (if m_position ba1 > m_size ba1 then ba1\<lparr>m_size := m_position ba1\<rparr> else ba1)
           in bindE (setPosition_loop v 0 ba2) (\<lambda>cur. Inr (ba2\<lparr>m_cur := cur\<rparr>)))"

definition ba_clear :: "bytearray \<Rightarrow> bytearray" where
  "ba_clear ba = ba\<lparr>m_position := 0, m_size := 0, m_capacity := m_baseSize ba,
                    m_nodes := take 1 (m_nodes ba), m_cur := Some 0\<rparr>"

section \<open>The representation invariant\<close>

definition flat :: "bytearray \<Rightarrow> cell list" where
  "flat ba = concat (m_nodes ba)"

definition cur_at :: "bytearray \<Rightarrow> nat \<Rightarrow> nat option" where
  "cur_at ba p = (if p < m_capacity ba then Some (p div m_baseSize ba) else None)"

definition ba_shape :: "bytearray \<Rightarrow> bool" where
  "ba_shape ba \<longleftrightarrow>
     0 < m_baseSize ba \<and> m_nodes ba \<noteq> [] \<and> (\<forall>n\<in>set (m_nodes ba). length n = m_baseSize ba) \<and>
     m_capacity ba = length (m_nodes ba) * m_baseSize ba"

definition ba_inv :: "bytearray \<Rightarrow> bool" where
  "ba_inv ba \<longleftrightarrow>
     ba_shape ba \<and> m_position ba \<le> m_size ba \<and> m_size ba \<le> m_capacity ba \<and>
     m_cur ba = cur_at ba (m_position ba)"

lemma length_flat: "ba_shape ba \<Longrightarrow> length (flat ba) = m_capacity ba"
  by (simp add: ba_shape_def flat_def length_concat_chunks [where b = "m_baseSize ba"])

lemma node_size_shape [simp]:
  "ba_shape ba \<Longrightarrow> c < length (m_nodes ba) \<Longrightarrow> node_size ba c = m_baseSize ba"
  by (simp add: ba_shape_def node_size_def)

lemma div_less_nodes:
  "ba_shape ba \<Longrightarrow> p < m_capacity ba \<Longrightarrow> p div m_baseSize ba < length (m_nodes ba)"
  by (simp add: ba_shape_def less_mult_imp_div_less)

lemma cur_at_Some [simp]:
  "ba_shape ba \<Longrightarrow> cur_at ba p = Some c \<longleftrightarrow> p < m_capacity ba \<and> c = p div m_baseSize ba"
  by (auto simp: cur_at_def)

lemma cur_at_step:
  assumes "ba_shape ba" "c < length (m_nodes ba)" "off \<le> m_baseSize ba"
  shows "cur_at ba (c * m_baseSize ba + off) =
    (if m_baseSize ba = off then node_next ba c else Some c)"
proof -
  have b: "0 < m_baseSize ba" and cap: "m_capacity ba = length (m_nodes ba) * m_baseSize ba"
    using assms(1) by (auto simp: ba_shape_def)
  have lt: "c * m_baseSize ba + m_baseSize ba < m_capacity ba \<longleftrightarrow> Suc c < length (m_nodes ba)"
    using b mult_less_cancel2 [of "Suc c" "m_baseSize ba" "length (m_nodes ba)"]
    by (simp add: cap add.commute)
  have le: "Suc c * m_baseSize ba \<le> m_capacity ba"
    using assms(2) unfolding cap by (intro mult_le_mono1) simp
  show ?thesis
  proof (cases "off = m_baseSize ba")
    case True
    then show ?thesis using lt b by (simp add: cur_at_def node_next_def)
  next
    case False
    then have "off < m_baseSize ba" using assms(3) by simp
    moreover from this le have "c * m_baseSize ba + off < m_capacity ba" by simp
    ultimately show ?thesis by (simp add: cur_at_def)
  qed
qed

lemma newByteArray_simps [simp]:
  "m_position (newByteArray b) = 0" "m_baseSize (newByteArray b) = b" "m_size (newByteArray b) = 0"
  "m_endian (newByteArray b) = BIG_ENDIAN"
  by (simp_all add: newByteArray_def)

lemma newByteArray_inv: "0 < b \<Longrightarrow> ba_inv (newByteArray b)"
  by (simp add: ba_inv_def ba_shape_def newByteArray_def newNode_def cur_at_def)

section \<open>Growing keeps the invariant\<close>

lemma addNodes_eq:
  "addNodes n ba = ba\<lparr>m_nodes := m_nodes ba @ replicate n (newNode (m_baseSize ba)),
                      m_capacity := m_capacity ba + n * m_baseSize ba\<rparr>"
  by (induction n arbitrary: ba) (simp_all add: replicate_append_same flip: append.assoc)

lemma ceil_div_ge: "0 < (b::nat) \<Longrightarrow> s \<le> ((s + b - 1) div b) * b"
proof -
  assume b: "0 < b"
  have "s + b - 1 = ((s + b - 1) div b) * b + (s + b - 1) mod b" by simp
  moreover have "(s + b - 1) mod b < b" using b by simp
  ultimately show ?thesis by linarith
qed

lemma addCapacity_spec:
  assumes "ba_inv ba"
  shows "ba_inv (addCapacity n ba)"
    and "m_position ba + n \<le> m_capacity (addCapacity n ba)"
    and "\<exists>k. flat (addCapacity n ba) = flat ba @ replicate k None"
    and "m_position (addCapacity n ba) = m_position ba"
    and "m_size (addCapacity n ba) = m_size ba"
    and "m_baseSize (addCapacity n ba) = m_baseSize ba"
    and "m_endian (addCapacity n ba) = m_endian ba"
proof -
  let ?b = "m_baseSize ba" and ?p = "m_position ba"
  let ?ba = "addCapacity n ba"
  from assms have b: "0 < ?b" and pc: "?p \<le> m_capacity ba" and ne: "m_nodes ba \<noteq> []"
    and cap: "m_capacity ba = length (m_nodes ba) * ?b"
    by (auto simp: ba_inv_def ba_shape_def)
  have cur: "m_cur ba = cur_at ba ?p" using assms by (simp add: ba_inv_def)
  define d where "d = m_capacity ba - ?p"
  define k where "k = (n - d + ?b - 1) div ?b"
  have grow: "?ba = (if d = 0 then (addNodes k ba)\<lparr>m_cur := Some (length (m_nodes ba))\<rparr>
                     else addNodes k ba)" if "d < n"
  proof -
    have "k \<noteq> 0" using that b by (simp add: k_def div_eq_0_iff)
    moreover have "getCapacity ba = d" using pc by (simp add: getCapacity_def d_def)
    ultimately show ?thesis using that
      unfolding addCapacity_def Let_def by (simp only: k_def [symmetric]) simp
  qed
  have same: "?ba = ba" if "n \<le> d"
    using that pc by (simp add: addCapacity_def getCapacity_def flip: d_def)
  have k_ge: "n - d \<le> k * ?b" unfolding k_def using b by (rule ceil_div_ge)
  show "?p + n \<le> m_capacity ?ba"
    using k_ge pc by (cases "d < n") (auto simp: grow same addNodes_eq d_def)
  show "\<exists>k. flat ?ba = flat ba @ replicate k None"
  proof (cases "d < n")
    case True
    have "concat (replicate k (newNode ?b)) = replicate (k * ?b) None"
      by (induction k) (auto simp: newNode_def replicate_add)
    then have "flat ?ba = flat ba @ replicate (k * ?b) None"
      using True by (simp add: grow addNodes_eq flat_def)
    then show ?thesis ..
  next
    case False
    then have "flat ?ba = flat ba @ replicate 0 None" by (simp add: same)
    then show ?thesis ..
  qed
  show pos: "m_position ?ba = ?p" and siz: "m_size ?ba = m_size ba"
    and "m_baseSize ?ba = ?b" "m_endian ?ba = m_endian ba"
    by (cases "d < n"; simp add: grow same addNodes_eq)+
  show "ba_inv ?ba"
  proof (cases "d < n")
    case True
    have "k \<noteq> 0" using True b by (simp add: k_def div_eq_0_iff)
    then have kb: "0 < k * ?b" using b by simp
    have sh: "ba_shape ?ba"
      using assms True by (auto simp: grow addNodes_eq ba_inv_def ba_shape_def newNode_def add_mult_distrib)
    have "m_cur ?ba = cur_at ?ba ?p"
    proof (cases "d = 0")
      case d0: True
      then have "?p = length (m_nodes ba) * ?b" using pc cap by (simp add: d_def)
      then show ?thesis using True d0 b kb cap by (simp add: grow addNodes_eq cur_at_def)
    next
      case False
      then have "?p < m_capacity ba" by (simp add: d_def)
      then show ?thesis using True False cur by (simp add: grow addNodes_eq cur_at_def)
    qed
    moreover have "m_size ba \<le> m_capacity ?ba" "?p \<le> m_size ba"
      using assms True by (auto simp: grow addNodes_eq ba_inv_def)
    ultimately show ?thesis using sh by (simp add: ba_inv_def pos siz)
  next
    case False
    then show ?thesis using assms by (simp add: same)
  qed
qed


section \<open>The write loop stores a flat range\<close>

lemma node_write_shape:
  assumes "ba_shape ba" "c < length (m_nodes ba)" "off + length bs \<le> m_baseSize ba"
  shows "node_write c off bs ba =
    Inr (ba\<lparr>m_nodes := (m_nodes ba)[c := overwrite (m_nodes ba ! c) off bs]\<rparr>)"
  using assms by (simp add: node_write_def)

lemma shape_update:
  assumes "ba_shape ba" "c < length (m_nodes ba)" "off + length bs \<le> m_baseSize ba"
  shows "ba_shape (ba\<lparr>m_nodes := (m_nodes ba)[c := overwrite (m_nodes ba ! c) off bs]\<rparr>)"
    and "concat ((m_nodes ba)[c := overwrite (m_nodes ba ! c) off bs]) =
      overwrite (flat ba) (c * m_baseSize ba + off) bs"
  using assms overwrite_concat_chunks [of "m_nodes ba" "m_baseSize ba" c off bs]
  by (auto simp: ba_shape_def flat_def dest!: set_update_subset_insert [THEN subsetD])

lemma shape_cong:
  "m_nodes ba' = m_nodes ba \<Longrightarrow> m_baseSize ba' = m_baseSize ba \<Longrightarrow> m_capacity ba' = m_capacity ba \<Longrightarrow>
   ba_shape ba' = ba_shape ba"
  by (simp add: ba_shape_def)

lemma write_loop_spec:
  assumes "ba_shape ba" "buf \<noteq> []" "m_cur ba = Some c" "c < length (m_nodes ba)"
    "npos < m_baseSize ba" "ncap = m_baseSize ba - npos"
    "m_position ba = c * m_baseSize ba + npos" "m_position ba + length buf \<le> m_capacity ba"
  shows "\<exists>ns. write_loop buf npos ncap ba =
      Inr (ba\<lparr>m_nodes := ns, m_position := m_position ba + length buf,
              m_cur := cur_at ba (m_position ba + length buf)\<rparr>) \<and>
      concat ns = overwrite (flat ba) (m_position ba) buf \<and> length ns = length (m_nodes ba) \<and>
      (\<forall>n\<in>set ns. length n = m_baseSize ba)"
  using assms
proof (induction "length buf" arbitrary: buf npos ncap ba c rule: less_induct)
  case less
  let ?b = "m_baseSize ba"
  note prems = less.prems
  show ?case
  proof (cases "length buf \<le> ncap")
    case True
    let ?ns = "(m_nodes ba)[c := overwrite (m_nodes ba ! c) npos buf]"
    have fit: "npos + length buf \<le> ?b" using True prems by simp
    have next_eq: "node_next (ba\<lparr>m_nodes := ?ns\<rparr>) c = node_next ba c"
      by (simp add: node_next_def)
    have sz: "node_size (ba\<lparr>m_nodes := ?ns\<rparr>) c = ?b"
      using node_size_shape [OF shape_update(1) [OF prems(1,4) fit]] prems(4) by simp
    have "write_loop buf npos ncap ba = Inr (ba\<lparr>m_nodes := ?ns,
        m_position := m_position ba + length buf, m_cur := cur_at ba (m_position ba + length buf)\<rparr>)"
      using prems True fit cur_at_step [OF prems(1,4) fit]
      by (simp add: write_loop.simps [of buf] node_write_shape next_eq sz add.assoc Let_def)
    moreover have "\<forall>n\<in>set ?ns. length n = ?b"
      using shape_update(1) [OF prems(1,4) fit] by (simp add: ba_shape_def)
    ultimately show ?thesis
      using shape_update(2) [OF prems(1,4) fit] prems(7) by auto
  next
    case False
    let ?ns = "(m_nodes ba)[c := overwrite (m_nodes ba ! c) npos (take ncap buf)]"
    let ?ba1 = "ba\<lparr>m_nodes := ?ns\<rparr>"
    have lt: "length (take ncap buf) = ncap" using False by simp
    have fit: "npos + length (take ncap buf) \<le> ?b" using lt prems by simp
    have sh1: "ba_shape ?ba1" by (rule shape_update(1) [OF prems(1,4) fit])
    have nx: "c * ?b + ?b < m_capacity ba" using False prems by simp
    have "cur_at ba (c * ?b + ?b) = node_next ba c"
      using cur_at_step [OF prems(1,4), of ?b] by simp
    then have sc: "Suc c < length (m_nodes ba)"
      using nx by (auto simp: cur_at_def node_next_def split: if_splits)
    let ?ba2 = "?ba1\<lparr>m_position := m_position ba + ncap, m_cur := Some (Suc c)\<rparr>"
    have sh2: "ba_shape ?ba2" using sh1 by (simp add: ba_shape_def)
    have step: "write_loop buf npos ncap ba = write_loop (drop ncap buf) 0 ?b ?ba2"
      using prems False fit sc node_size_shape [OF sh1, of "Suc c"]
      by (simp add: write_loop.simps [of buf] node_write_shape node_next_def)
    have "\<exists>ns. write_loop (drop ncap buf) 0 ?b ?ba2 =
      Inr (?ba2\<lparr>m_nodes := ns, m_position := m_position ?ba2 + length (drop ncap buf),
              m_cur := cur_at ?ba2 (m_position ?ba2 + length (drop ncap buf))\<rparr>) \<and>
      concat ns = overwrite (flat ?ba2) (m_position ?ba2) (drop ncap buf) \<and>
      length ns = length (m_nodes ?ba2) \<and> (\<forall>n\<in>set ns. length n = m_baseSize ?ba2)"
      using prems False sc sh2 by (intro less.hyps [where c = "Suc c"]) auto
    then obtain ns where ns: "write_loop (drop ncap buf) 0 ?b ?ba2 =
      Inr (?ba2\<lparr>m_nodes := ns, m_position := m_position ?ba2 + length (drop ncap buf),
              m_cur := cur_at ?ba2 (m_position ?ba2 + length (drop ncap buf))\<rparr>)"
      "concat ns = overwrite (flat ?ba2) (m_position ?ba2) (drop ncap buf)"
      "length ns = length (m_nodes ba)" "\<forall>n\<in>set ns. length n = ?b"
      by auto
    have "flat ?ba2 = overwrite (flat ba) (m_position ba) (take ncap buf)"
      using shape_update(2) [OF prems(1,4) fit] prems(7) by (simp add: flat_def)
    then have "concat ns = overwrite (flat ba) (m_position ba) (take ncap buf @ drop ncap buf)"
      using ns(2) lt prems False length_flat [OF prems(1)]
      by (subst overwrite_overwrite [symmetric]) simp_all
    moreover have "write_loop buf npos ncap ba = Inr (ba\<lparr>m_nodes := ns,
        m_position := m_position ba + length buf, m_cur := cur_at ba (m_position ba + length buf)\<rparr>)"
      using step ns(1) False by (simp add: cur_at_def)
    ultimately show ?thesis using ns(3,4) by auto
  qed
qed

section \<open>Refinement of a flat buffer\<close>

text \<open>
  What the buffer means to its users: the \<open>m_size\<close> bytes written so far, and a position in
  them.
\<close>

definition contents :: "bytearray \<Rightarrow> cell list" where
  "contents ba = take (m_size ba) (flat ba)"

lemma length_contents: "ba_inv ba \<Longrightarrow> length (contents ba) = m_size ba"
  by (simp add: ba_inv_def contents_def length_flat)

lemma ba_inv_cur:
  assumes "ba_inv ba" "m_position ba < m_capacity ba"
  shows "m_cur ba = Some (m_position ba div m_baseSize ba)"
    and "m_position ba div m_baseSize ba < length (m_nodes ba)"
    and "m_position ba = m_position ba div m_baseSize ba * m_baseSize ba + m_position ba mod m_baseSize ba"
    and "m_position ba mod m_baseSize ba < m_baseSize ba"
  using assms by (auto simp: ba_inv_def cur_at_def div_less_nodes) (simp add: ba_shape_def)

lemma ba_inv_base: "ba_inv ba \<Longrightarrow> 0 < m_baseSize ba"
  by (simp add: ba_inv_def ba_shape_def)

lemma ba_write_spec:
  assumes "ba_inv ba"
  shows "\<exists>ba'. ba_write buf ba = Inr ba' \<and> ba_inv ba' \<and>
    contents ba' = overwrite (contents ba) (m_position ba) (map Some buf) \<and>
    m_position ba' = m_position ba + length buf \<and> m_size ba' = max (m_size ba) (m_position ba + length buf) \<and>
    m_endian ba' = m_endian ba \<and> m_baseSize ba' = m_baseSize ba"
proof (cases "buf = []")
  case True
  then show ?thesis using assms by (simp add: ba_write_def ba_inv_def max_def)
next
  case False
  let ?p = "m_position ba" and ?bs = "map Some buf"
  define ba1 where "ba1 = addCapacity (length buf) ba"
  note grow = addCapacity_spec [OF assms, of "length buf", folded ba1_def]
  obtain k where k: "flat ba1 = flat ba @ replicate k None" using grow(3) by blast
  have lt: "m_position ba1 < m_capacity ba1" using grow(2,4) False by (cases buf) auto
  note cur = ba_inv_cur [OF grow(1) lt]
  have sh: "ba_shape ba1" using grow(1) by (simp add: ba_inv_def)
  have ncap: "sub64 (node_size ba1 (?p div m_baseSize ba1)) (?p mod m_baseSize ba1) =
      m_baseSize ba1 - ?p mod m_baseSize ba1"
    using sh cur grow(4) by simp
  obtain ns where ns: "write_loop ?bs (?p mod m_baseSize ba1) (m_baseSize ba1 - ?p mod m_baseSize ba1) ba1 =
      Inr (ba1\<lparr>m_nodes := ns, m_position := ?p + length buf, m_cur := cur_at ba1 (?p + length buf)\<rparr>)"
    "concat ns = overwrite (flat ba1) ?p ?bs" "length ns = length (m_nodes ba1)"
    "\<forall>n\<in>set ns. length n = m_baseSize ba1"
    using write_loop_spec [OF sh _ cur(1,2,4) refl cur(3), of ?bs] False grow(2,4) by auto
  let ?ba2 = "ba1\<lparr>m_nodes := ns, m_position := ?p + length buf, m_cur := cur_at ba1 (?p + length buf)\<rparr>"
  let ?ba3 = "if ?p + length buf > m_size ba then ?ba2\<lparr>m_size := ?p + length buf\<rparr> else ?ba2"
  have res: "ba_write buf ba = Inr ?ba3"
    using False ns(1) cur(1) ncap ba_inv_base [OF assms] grow
    by (simp add: ba_write_def Let_def flip: ba1_def)
  have sz: "m_size ?ba3 = max (m_size ba) (?p + length buf)" using grow(5) by simp
  have "ns \<noteq> []" using ns(3) sh by (auto simp: ba_shape_def)
  then have inv3: "ba_inv ?ba3"
    using sh ns(3,4) grow(1,2,4,5) by (auto simp: ba_inv_def ba_shape_def cur_at_def)
  have "contents ?ba3 = take (max (m_size ba) (?p + length ?bs)) (overwrite (flat ba @ replicate k None) ?p ?bs)"
    using ns(2) k grow(5) by (simp add: contents_def flat_def max_def)
  also have "\<dots> = overwrite (take (m_size ba) (flat ba)) ?p ?bs"
    using assms by (intro take_overwrite_extend) (auto simp: ba_inv_def length_flat)
  finally have con: "contents ?ba3 = overwrite (contents ba) ?p ?bs" by (simp add: contents_def)
  show ?thesis
    by (intro exI [of _ ?ba3] conjI res inv3 con sz) (simp_all add: grow(6,7))
qed

section \<open>Reading refines taking from the flat buffer\<close>

text \<open>
  \<open>copied ba p n\<close> is the number of bytes \<^verbatim>\<open>read(buf, n)\<close> stores: everything up to the end of
  the node that holds the last byte asked for.
\<close>

definition copied :: "bytearray \<Rightarrow> nat \<Rightarrow> nat \<Rightarrow> nat" where
  "copied ba p n = (if n = 0 then 0 else Suc ((p + n - 1) div m_baseSize ba) * m_baseSize ba - p)"

lemma node_read_shape:
  assumes "ba_shape ba" "c < length (m_nodes ba)" "off + n \<le> m_baseSize ba"
  shows "node_read c off n ba = Inr (slice (flat ba) (c * m_baseSize ba + off) n)"
  using assms slice_concat_chunks [of "m_nodes ba" "m_baseSize ba" c off n]
  by (simp add: node_read_def) (simp add: ba_shape_def flat_def)

lemma next_node:
  assumes "ba_shape ba" "c < length (m_nodes ba)" "c * m_baseSize ba + m_baseSize ba < m_capacity ba"
  shows "node_next ba c = Some (Suc c)" "Suc c < length (m_nodes ba)"
  using assms cur_at_step [OF assms(1,2), of "m_baseSize ba"]
  by (auto simp: cur_at_def node_next_def split: if_splits)

lemma read_loop_spec:
  assumes "ba_shape ba" "0 < n" "m_cur ba = Some c" "c < length (m_nodes ba)"
    "npos < m_baseSize ba" "ncap = m_baseSize ba - npos"
    "m_position ba = c * m_baseSize ba + npos" "m_position ba + n \<le> m_capacity ba"
  shows "read_loop n npos ncap out ba =
      Inr (out @ slice (flat ba) (m_position ba) (copied ba (m_position ba) n),
           ba\<lparr>m_position := m_position ba + n, m_cur := cur_at ba (m_position ba + n)\<rparr>)"
  using assms
proof (induction n arbitrary: npos ncap out ba c rule: less_induct)
  case (less n)
  let ?b = "m_baseSize ba"
  note prems = less.prems
  have b: "0 < ?b" using prems by simp
  show ?case
  proof (cases "n \<le> ncap")
    case True
    have "c * ?b + npos + n - 1 = (npos + n - 1) + c * ?b" using prems(2) by simp
    also have "\<dots> div ?b = c + (npos + n - 1) div ?b" using b by simp
    also have "(npos + n - 1) div ?b = 0" using True prems by (intro div_less) auto
    finally have "copied ba (m_position ba) n = ncap"
      using prems by (simp add: copied_def)
    then show ?thesis
      using prems True cur_at_step [OF prems(1,4), of "npos + n"]
      by (simp add: read_loop.simps [of n] node_read_shape add.assoc)
  next
    case False
    have lt: "c * ?b + ?b < m_capacity ba" using False prems by simp
    note nx = next_node [OF prems(1,4) lt]
    let ?ba2 = "ba\<lparr>m_position := m_position ba + ncap, m_cur := Some (Suc c)\<rparr>"
    have sh2: "ba_shape ?ba2" using prems(1) by (simp add: ba_shape_def)
    have "read_loop n npos ncap out ba =
        read_loop (n - ncap) 0 ?b (out @ slice (flat ba) (m_position ba) ncap) ?ba2"
      using prems False nx by (simp add: read_loop.simps [of n] node_read_shape)
    also have "\<dots> = Inr ((out @ slice (flat ba) (m_position ba) ncap) @
          slice (flat ?ba2) (m_position ?ba2) (copied ?ba2 (m_position ?ba2) (n - ncap)),
        ?ba2\<lparr>m_position := m_position ?ba2 + (n - ncap), m_cur := cur_at ?ba2 (m_position ?ba2 + (n - ncap))\<rparr>)"
      using prems False nx sh2 by (intro less.IH [where c = "Suc c"]) auto
    also have "m_position ?ba2 + (n - ncap) = m_position ba + n" using False by simp
    also have "copied ?ba2 (m_position ?ba2) (n - ncap) = copied ba (m_position ba) n - ncap"
      using False by (simp add: copied_def)
    finally have res: "read_loop n npos ncap out ba = Inr (out @ slice (flat ba) (m_position ba)
          (ncap + (copied ba (m_position ba) n - ncap)),
        ba\<lparr>m_position := m_position ba + n, m_cur := cur_at ba (m_position ba + n)\<rparr>)"
      using slice_append [of "flat ba" "m_position ba" ncap] by (simp add: cur_at_def flat_def)
    have "c * ?b + ?b \<le> m_position ba + n - 1" using False prems by simp
    then have "Suc c \<le> (m_position ba + n - 1) div ?b"
      using b by (simp add: less_eq_div_iff_mult_less_eq add.commute)
    then have "Suc (Suc c) * ?b \<le> Suc ((m_position ba + n - 1) div ?b) * ?b"
      by (intro mult_le_mono1) simp
    then have "ncap \<le> copied ba (m_position ba) n"
      using prems by (simp add: copied_def)
    then show ?thesis using res by simp
  qed
qed

lemma ba_read_eq:
  assumes "ba_inv ba"
  shows "ba_read n ba =
    (if n > m_size ba - m_position ba then Inl OutOfRange
     else if m_position ba = m_capacity ba then Inl NullDeref
     else Inr (slice (flat ba) (m_position ba) (copied ba (m_position ba) n),
               ba\<lparr>m_position := m_position ba + n, m_cur := cur_at ba (m_position ba + n)\<rparr>))"
proof (cases "n > m_size ba - m_position ba \<or> m_position ba = m_capacity ba")
  case True
  then show ?thesis
    using assms by (auto simp: ba_read_def getReadSize_def ba_inv_def ba_shape_def cur_at_def)
next
  case False
  then have lt: "m_position ba < m_capacity ba" and le: "m_position ba + n \<le> m_capacity ba"
    and rs: "\<not> n > getReadSize ba"
    using assms by (auto simp: ba_inv_def getReadSize_def)
  note cur = ba_inv_cur [OF assms lt]
  have sh: "ba_shape ba" using assms by (simp add: ba_inv_def)
  show ?thesis
  proof (cases "n = 0")
    case True
    have "cur_at ba (m_position ba) = m_cur ba" using assms by (simp add: ba_inv_def)
    moreover have "ba_read 0 ba = Inr ([], ba)"
      using cur(1) ba_inv_base [OF assms] by (simp add: ba_read_def read_loop.simps)
    ultimately show ?thesis using False True by (simp add: copied_def)
  next
    case n: False
    then show ?thesis
      using False rs cur ba_inv_base [OF assms] sh
        read_loop_spec [OF sh _ cur(1,2,4) refl cur(3) le, of "[]"]
      by (simp add: ba_read_def)
  qed
qed

lemma copied_ge: "ba_inv ba \<Longrightarrow> n \<le> copied ba p n"
proof (cases "n = 0")
  case False
  assume inv: "ba_inv ba"
  have "p + n - 1 < m_baseSize ba + (p + n - 1) div m_baseSize ba * m_baseSize ba"
    using ba_inv_base [OF inv] by (rule dividend_less_div_times)
  then show ?thesis using False by (simp add: copied_def)
qed simp

lemma copied_exact:
  assumes "ba_inv ba" "0 < n"
  shows "copied ba p n = n \<longleftrightarrow> (p + n) mod m_baseSize ba = 0"
proof -
  let ?b = "m_baseSize ba" and ?q = "(p + n - 1) div m_baseSize ba"
  have b: "0 < ?b" by (rule ba_inv_base [OF assms(1)])
  have "n \<le> copied ba p n" by (rule copied_ge [OF assms(1)])
  then have "copied ba p n = n \<longleftrightarrow> Suc ?q * ?b = p + n"
    using assms(2) by (auto simp: copied_def)
  also have "\<dots> \<longleftrightarrow> ?b dvd p + n"
  proof
    assume "?b dvd p + n"
    then obtain k where k: "p + n = ?b * k" by blast
    with assms(2) obtain j where j: "k = Suc j" by (cases k) auto
    have "p + n - 1 = (?b - 1) + j * ?b" using k j b by (simp add: algebra_simps)
    then have "?q = ((?b - 1) + j * ?b) div ?b" by (simp only:)
    also have "\<dots> = j + (?b - 1) div ?b" using b by (intro div_mult_self1) simp
    also have "(?b - 1) div ?b = 0" using b by simp
    finally have "?q = j" by simp
    then show "Suc ?q * ?b = p + n" using k j by simp
  qed (metis dvd_triv_right)
  finally show ?thesis by (simp add: dvd_eq_mod_eq_0)
qed

lemma copied_le_capacity:
  assumes "ba_inv ba" "p + n \<le> m_capacity ba"
  shows "p + copied ba p n \<le> m_capacity ba"
proof (cases "n = 0")
  case False
  have sh: "ba_shape ba" using assms(1) by (simp add: ba_inv_def)
  have "p + n - 1 < m_capacity ba" using assms False by simp
  then have "(p + n - 1) div m_baseSize ba < length (m_nodes ba)" by (rule div_less_nodes [OF sh])
  then have "Suc ((p + n - 1) div m_baseSize ba) * m_baseSize ba \<le> length (m_nodes ba) * m_baseSize ba"
    by (intro mult_le_mono1) simp
  then show ?thesis using False sh assms(2) by (simp add: copied_def ba_shape_def)
qed (use assms in \<open>simp add: copied_def\<close>)

lemma take_slice_copied:
  assumes "ba_inv ba" "m_position ba + n \<le> m_size ba"
  shows "take n (slice (flat ba) (m_position ba) (copied ba (m_position ba) n)) =
    slice (contents ba) (m_position ba) n"
  using copied_ge [OF assms(1), of n "m_position ba"] assms(2)
  by (simp add: slice_def contents_def min_absorb1 drop_take)

lemma ba_inv_move:
  "ba_inv ba \<Longrightarrow> v \<le> m_size ba \<Longrightarrow> ba_inv (ba\<lparr>m_position := v, m_cur := cur_at ba v\<rparr>)"
  by (auto simp: ba_inv_def ba_shape_def cur_at_def)

lemma setPosition_loop_spec:
  assumes "ba_shape ba" "c < length (m_nodes ba)" "c * m_baseSize ba + v \<le> m_capacity ba"
  shows "setPosition_loop v c ba = Inr (cur_at ba (c * m_baseSize ba + v))"
  using assms
proof (induction v arbitrary: c rule: less_induct)
  case (less v)
  let ?b = "m_baseSize ba"
  note prems = less.prems
  have b: "0 < ?b" using prems(1) by (simp add: ba_shape_def)
  show ?case
  proof (cases "v > ?b")
    case True
    then have lt: "c * ?b + ?b < m_capacity ba" using prems(3) by simp
    note nx = next_node [OF prems(1,2) lt]
    have "setPosition_loop (v - ?b) (Suc c) ba = Inr (cur_at ba (Suc c * ?b + (v - ?b)))"
      using True b prems nx by (intro less.IH) auto
    then show ?thesis using True prems nx
      by (simp add: setPosition_loop.simps [of v] add.commute add.left_commute)
  next
    case False
    then show ?thesis using prems cur_at_step [OF prems(1,2), of v]
      by (auto simp: setPosition_loop.simps [of v])
  qed
qed

lemma setPosition_eq:
  assumes "ba_inv ba"
  shows "setPosition v ba =
    (if v > m_capacity ba then Inl OutOfRange
     else Inr (ba\<lparr>m_position := v, m_size := max (m_size ba) v, m_cur := cur_at ba v\<rparr>))"
proof (cases "v > m_capacity ba")
  case False
  have sh: "ba_shape ba" using assms by (simp add: ba_inv_def)
  then have "0 < length (m_nodes ba)" by (simp add: ba_shape_def)
  then have "setPosition_loop v 0 ba' = Inr (cur_at ba v)"
    if "m_nodes ba' = m_nodes ba" "m_baseSize ba' = m_baseSize ba" "m_capacity ba' = m_capacity ba" for ba'
    using setPosition_loop_spec [of ba' 0 v] that sh False by (simp add: ba_shape_def cur_at_def)
  then show ?thesis using False by (simp add: setPosition_def Let_def max_def)
qed (simp add: setPosition_def)

lemma setPosition_inv: "ba_inv ba \<Longrightarrow> setPosition v ba = Inr ba' \<Longrightarrow> ba_inv ba'"
  by (auto simp: setPosition_eq ba_inv_def ba_shape_def cur_at_def split: if_splits)

lemma ba_clear_inv: "ba_inv ba \<Longrightarrow> ba_inv (ba_clear ba) \<and> contents (ba_clear ba) = []"
  by (auto simp: ba_inv_def ba_shape_def ba_clear_def cur_at_def contents_def dest: in_set_takeD)
    (cases "m_nodes ba"; simp)+

lemma readAt_loop_spec:
  assumes "ba_shape ba" "c < length (m_nodes ba)" "npos < m_baseSize ba" "ncap = m_baseSize ba - npos"
    "c * m_baseSize ba + npos + n \<le> m_capacity ba"
  shows "readAt_loop n npos ncap c ba = Inr (slice (flat ba) (c * m_baseSize ba + npos) n)"
  using assms
proof (induction n arbitrary: npos ncap c rule: less_induct)
  case (less n)
  let ?b = "m_baseSize ba"
  note prems = less.prems
  show ?case
  proof (cases "n \<le> ncap")
    case True
    then show ?thesis using prems by (simp add: readAt_loop.simps [of n] node_read_shape)
  next
    case False
    have lt: "c * ?b + ?b < m_capacity ba" using False prems by simp
    note nx = next_node [OF prems(1,2) lt]
    have "readAt_loop (n - ncap) 0 ?b (Suc c) ba = Inr (slice (flat ba) (Suc c * ?b + 0) (n - ncap))"
      using prems False nx by (intro less.IH) auto
    then have "readAt_loop n npos ncap c ba =
        Inr (slice (flat ba) (c * ?b + npos) ncap @ slice (flat ba) (c * ?b + npos + ncap) (n - ncap))"
      using prems False nx
      by (simp add: readAt_loop.simps [of n] node_read_shape add.commute)
    then show ?thesis using False by (simp add: slice_append)
  qed
qed

lemma ba_readAt_position:
  assumes "ba_inv ba" "m_position ba < m_capacity ba" "m_position ba + n \<le> m_size ba"
  shows "ba_readAt n (m_position ba) ba = Inr (slice (contents ba) (m_position ba) n)"
proof -
  note cur = ba_inv_cur [OF assms(1,2)]
  have sh: "ba_shape ba" and "m_size ba \<le> m_capacity ba" using assms(1) by (auto simp: ba_inv_def)
  then have "readAt_loop n (m_position ba mod m_baseSize ba)
      (m_baseSize ba - m_position ba mod m_baseSize ba) (m_position ba div m_baseSize ba) ba =
      Inr (slice (flat ba) (m_position ba) n)"
    using readAt_loop_spec [OF sh cur(2,4) refl, of n] assms(3) by simp
  moreover have "slice (flat ba) (m_position ba) n = slice (contents ba) (m_position ba) n"
    using assms(3) by (simp add: slice_def contents_def min_absorb1 drop_take)
  ultimately show ?thesis
    using sh cur assms(3) ba_inv_base [OF assms(1)] by (simp add: ba_readAt_def)
qed


section \<open>Properties\<close>

text \<open>
  C1: on a well-formed buffer, \<^verbatim>\<open>write\<close> always succeeds, whatever the length and
  however many nodes it has to add; it replaces exactly the range of the flat contents that
  starts at the position (extending them when it reaches past the end), moves the position to the
  end of that range, and keeps the buffer well-formed.
\<close>

theorem write_refines_overwrite:
  assumes "ba_inv ba"
  shows "\<exists>ba'. ba_write buf ba = Inr ba' \<and> ba_inv ba' \<and>
    contents ba' = overwrite (contents ba) (m_position ba) (map Some buf) \<and>
    m_position ba' = m_position ba + length buf \<and>
    m_size ba' = max (m_size ba) (m_position ba + length buf) \<and>
    m_endian ba' = m_endian ba \<and> m_baseSize ba' = m_baseSize ba"
  by (rule ba_write_spec [OF assms])

theorem write_refines_overwrite_witness:
  "ba_inv (newByteArray 2) \<and>
   (\<exists>ba'. ba_write [1, 2, 3, 4, 5] (newByteArray 2) = Inr ba' \<and> ba_inv ba' \<and>
     contents ba' = map Some [1, 2, 3, 4, 5] \<and> m_position ba' = 5)"
  using write_refines_overwrite [OF newByteArray_inv, of 2 "[1, 2, 3, 4, 5]"] newByteArray_inv [of 2]
  by (auto simp: contents_def newByteArray_def flat_def overwrite_def)

text \<open>
  C15: what \<^verbatim>\<open>read(buf, n)\<close> does, on every branch.  Asking for more than is left raises
  \<^verbatim>\<open>std::out_of_range\<close>.  Asking for nothing changes nothing, except that a position at the very end
  of the capacity dereferences the null \<^verbatim>\<open>m_cur\<close>.  Otherwise the first \<open>n\<close> bytes stored are the
  next \<open>n\<close> bytes of the contents and the position moves by \<open>n\<close>, but the bytes stored go on to the
  end of the last node touched: the destination of \<open>n\<close> bytes is exactly filled only when
  \<open>position + n\<close> is a node boundary.
\<close>

theorem read_every_branch:
  assumes "ba_inv ba"
  shows "if m_size ba < m_position ba + n then ba_read n ba = Inl OutOfRange
    else if n = 0 then ba_read n ba = (if m_position ba = m_capacity ba then Inl NullDeref else Inr ([], ba))
    else \<exists>out ba'. ba_read n ba = Inr (out, ba') \<and> ba_inv ba' \<and>
        take n out = slice (contents ba) (m_position ba) n \<and> n \<le> length out \<and>
        (length out = n \<longleftrightarrow> (m_position ba + n) mod m_baseSize ba = 0) \<and>
        m_position ba' = m_position ba + n \<and> contents ba' = contents ba \<and> m_size ba' = m_size ba"
proof (cases "m_size ba < m_position ba + n \<or> n = 0")
  case True
  then show ?thesis using assms
    by (auto simp: ba_read_eq copied_def ba_inv_def simp flip: cur_at_def)
next
  case False
  let ?p = "m_position ba" and ?out = "slice (flat ba) (m_position ba) (copied ba (m_position ba) n)"
  have le: "?p + n \<le> m_size ba" and n: "0 < n" using False by auto
  have cap: "?p + n \<le> m_capacity ba" using le assms(1) by (simp add: ba_inv_def)
  have len: "length ?out = copied ba ?p n"
    using copied_le_capacity [OF assms(1) cap] assms(1) by (simp add: ba_inv_def length_flat)
  have "\<not> n > m_size ba - ?p" "?p \<noteq> m_capacity ba" using n le cap by linarith+
  then have "ba_read n ba = Inr (?out, ba\<lparr>m_position := ?p + n, m_cur := cur_at ba (?p + n)\<rparr>)"
    by (simp add: ba_read_eq [OF assms])
  then show ?thesis
    using False len copied_exact [OF assms n, of ?p] ba_inv_move [OF assms(1) le]
      take_slice_copied [OF assms(1) le] copied_ge [OF assms(1), of n ?p]
    by (simp add: contents_def flat_def)
qed

definition sampleArray :: bytearray where
  "sampleArray = newByteArray 4\<lparr>m_size := 8, m_capacity := 8,
     m_nodes := [map Some [10, 11, 12, 13], map Some [14, 15, 16, 17]]\<rparr>"

lemma sampleArray_inv: "ba_inv sampleArray"
  by (auto simp: sampleArray_def ba_inv_def ba_shape_def newByteArray_def cur_at_def)

theorem read_every_branch_witness:
  "ba_inv sampleArray \<and>
   (\<exists>out ba'. ba_read 8 sampleArray = Inr (out, ba') \<and> length out = 8 \<and> m_position ba' = 8 \<and>
      take 8 out = map Some [10, 11, 12, 13, 14, 15, 16, 17])"
  using read_every_branch [OF sampleArray_inv, of 8] sampleArray_inv
  by (auto simp: sampleArray_def newByteArray_def contents_def flat_def slice_def)

text \<open>
  \<^verbatim>\<open>setPosition\<close> fails exactly beyond the capacity; otherwise it moves the position
  there, extends the size when it lies beyond it, and makes \<^verbatim>\<open>m_cur\<close> the node that holds the
  position, so that the buffer stays well-formed.
\<close>

theorem setPosition_total:
  assumes "ba_inv ba"
  shows "if m_capacity ba < v then setPosition v ba = Inl OutOfRange
    else \<exists>ba'. setPosition v ba = Inr ba' \<and> ba_inv ba' \<and> m_position ba' = v \<and>
      m_size ba' = max (m_size ba) v \<and> flat ba' = flat ba \<and> m_cur ba' = cur_at ba v"
  using assms setPosition_inv [OF assms, of v]
  by (auto simp: setPosition_eq flat_def)

theorem setPosition_total_witness:
  "ba_inv sampleArray \<and> (\<exists>ba'. setPosition 6 sampleArray = Inr ba' \<and> m_position ba' = 6 \<and> m_cur ba' = Some 1)"
  using setPosition_total [OF sampleArray_inv, of 6] sampleArray_inv
  by (auto simp: sampleArray_def newByteArray_def cur_at_def)

end
