(* ===== verification/ByteArrayCodec.thy ===== *)
theory ByteArrayCodec
  imports ByteArray
begin

text \<open>
  The typed readers and writers of \<^verbatim>\<open>ByteArray\<close>: fixed-width integers in the byte order of the
  array, base-128 and zigzag integers, floating-point values (as their object
  representation), length-prefixed strings, and the textual dumps.  \<open>host\<close> is \<^verbatim>\<open>BYTE_ORDER\<close>.
  The locale \<open>codec\<close> is the contract a reader and a writer of one type promise each other.
\<close>

section \<open>Fixed-width values\<close>

definition writeFixed :: "nat \<Rightarrow> endian \<Rightarrow> 'a::len word \<Rightarrow> bytearray \<Rightarrow> bytearray res" where
  "writeFixed n host value ba =
     (let value' = (if m_endian ba \<noteq> host then byteswap n value else value)
      in ba_write (to_mem host n value') ba)"

text \<open>
  \<open>readInto n\<close> is \<^verbatim>\<open>read(&v, sizeof(v))\<close> for a destination of exactly \<open>n\<close> bytes: storing more
  runs past the destination.
\<close>

definition readInto :: "nat \<Rightarrow> bytearray \<Rightarrow> (u8 list \<times> bytearray) res" where
  "readInto n ba =
     bindE (ba_read n ba) (\<lambda>(out, ba').
       if length out > n then Inl BufferOverrun
       else if None \<in> set out then Inl Indeterminate
       else Inr (map the out, ba'))"

definition readFixed :: "nat \<Rightarrow> endian \<Rightarrow> bytearray \<Rightarrow> ('a::len word \<times> bytearray) res" where
  "readFixed n host ba =
     bindE (readInto n ba) (\<lambda>(bs, ba').
       let v = of_mem host bs
       in Inr (if m_endian ba' = host then v else byteswap n v, ba'))"

definition writeFint8 :: "endian \<Rightarrow> u8 \<Rightarrow> bytearray \<Rightarrow> bytearray res" where
  "writeFint8 host value ba = ba_write (to_mem host 1 value) ba"

definition writeFuint8 :: "endian \<Rightarrow> u8 \<Rightarrow> bytearray \<Rightarrow> bytearray res" where
  "writeFuint8 host value ba = ba_write (to_mem host 1 value) ba"

definition writeFint16 :: "endian \<Rightarrow> u16 \<Rightarrow> bytearray \<Rightarrow> bytearray res" where
  "writeFint16 = writeFixed 2"

definition writeFuint16 :: "endian \<Rightarrow> u16 \<Rightarrow> bytearray \<Rightarrow> bytearray res" where
  "writeFuint16 = writeFixed 2"

definition writeFint32 :: "endian \<Rightarrow> u32 \<Rightarrow> bytearray \<Rightarrow> bytearray res" where
  "writeFint32 = writeFixed 4"

definition writeFuint32 :: "endian \<Rightarrow> u32 \<Rightarrow> bytearray \<Rightarrow> bytearray res" where
  "writeFuint32 = writeFixed 4"

definition writeFint64 :: "endian \<Rightarrow> u64 \<Rightarrow> bytearray \<Rightarrow> bytearray res" where
  "writeFint64 = writeFixed 8"

definition writeFuint64 :: "endian \<Rightarrow> u64 \<Rightarrow> bytearray \<Rightarrow> bytearray res" where
  "writeFuint64 = writeFixed 8"

definition readFint8 :: "endian \<Rightarrow> bytearray \<Rightarrow> (u8 \<times> bytearray) res" where
  "readFint8 host ba = bindE (readInto 1 ba) (\<lambda>(bs, ba'). Inr (of_mem host bs, ba'))"

definition readFuint8 :: "endian \<Rightarrow> bytearray \<Rightarrow> (u8 \<times> bytearray) res" where
  "readFuint8 host ba = bindE (readInto 1 ba) (\<lambda>(bs, ba'). Inr (of_mem host bs, ba'))"

definition readFint16 :: "endian \<Rightarrow> bytearray \<Rightarrow> (u16 \<times> bytearray) res" where
  "readFint16 = readFixed 2"

definition readFuint16 :: "endian \<Rightarrow> bytearray \<Rightarrow> (u16 \<times> bytearray) res" where
  "readFuint16 = readFixed 2"

definition readFint32 :: "endian \<Rightarrow> bytearray \<Rightarrow> (u32 \<times> bytearray) res" where
  "readFint32 = readFixed 4"

definition readFuint32 :: "endian \<Rightarrow> bytearray \<Rightarrow> (u32 \<times> bytearray) res" where
  "readFuint32 = readFixed 4"

definition readFint64 :: "endian \<Rightarrow> bytearray \<Rightarrow> (u64 \<times> bytearray) res" where
  "readFint64 = readFixed 8"

definition readFuint64 :: "endian \<Rightarrow> bytearray \<Rightarrow> (u64 \<times> bytearray) res" where
  "readFuint64 = readFixed 8"

section \<open>Variable-length values\<close>

definition writeUint32 :: "u32 \<Rightarrow> bytearray \<Rightarrow> bytearray res" where
  "writeUint32 value ba = ba_write (varint32 value) ba"

definition writeInt32 :: "u32 \<Rightarrow> bytearray \<Rightarrow> bytearray res" where
  "writeInt32 value ba = writeUint32 (EncodeZigzag32 value) ba"

definition writeUint64 :: "u64 \<Rightarrow> bytearray \<Rightarrow> bytearray res" where
  "writeUint64 value ba = ba_write (varint64 value) ba"

definition writeInt64 :: "u64 \<Rightarrow> bytearray \<Rightarrow> bytearray res" where
  "writeInt64 value ba = writeUint64 (EncodeZigzag64 value) ba"

function readUint32_loop :: "endian \<Rightarrow> nat \<Rightarrow> u32 \<Rightarrow> bytearray \<Rightarrow> (u32 \<times> bytearray) res" where
  "readUint32_loop host i result ba =
     (if i < 32 then
        bindE (readFuint8 host ba) (\<lambda>(b, ba1).
          if b < 0x80 then Inr (result OR push_bit i (ucast b), ba1)
          else readUint32_loop host (i + 7) (result OR push_bit i (ucast (b AND 0x7f))) ba1)
      else Inr (result, ba))"
  by pat_completeness auto
termination
  by (relation "measure (\<lambda>(host, i, result, ba). 32 - i)") auto

function readUint64_loop :: "endian \<Rightarrow> nat \<Rightarrow> u64 \<Rightarrow> bytearray \<Rightarrow> (u64 \<times> bytearray) res" where
  "readUint64_loop host i result ba =
     (if i < 64 then
        bindE (readFuint8 host ba) (\<lambda>(b, ba1).
          if b < 0x80 then Inr (result OR push_bit i (ucast b), ba1)
          else readUint64_loop host (i + 7) (result OR push_bit i (ucast (b AND 0x7f))) ba1)
      else Inr (result, ba))"
  by pat_completeness auto
termination
  by (relation "measure (\<lambda>(host, i, result, ba). 64 - i)") auto

declare readUint32_loop.simps [simp del] readUint64_loop.simps [simp del]

definition readUint32 :: "endian \<Rightarrow> bytearray \<Rightarrow> (u32 \<times> bytearray) res" where
  "readUint32 host ba = readUint32_loop host 0 0 ba"

definition readInt32 :: "endian \<Rightarrow> bytearray \<Rightarrow> (u32 \<times> bytearray) res" where
  "readInt32 host ba = bindE (readUint32 host ba) (\<lambda>(v, ba'). Inr (DecodeZigzag32 v, ba'))"

definition readUint64 :: "endian \<Rightarrow> bytearray \<Rightarrow> (u64 \<times> bytearray) res" where
  "readUint64 host ba = readUint64_loop host 0 0 ba"

text \<open>\<^verbatim>\<open>readInt64\<close> decodes what \<^verbatim>\<open>readUint32\<close> returns, widened to 64 bits.\<close>

definition readInt64 :: "endian \<Rightarrow> bytearray \<Rightarrow> (u64 \<times> bytearray) res" where
  "readInt64 host ba = bindE (readUint32 host ba) (\<lambda>(v, ba'). Inr (DecodeZigzag64 (ucast v), ba'))"

text \<open>A \<^verbatim>\<open>float\<close> or \<^verbatim>\<open>double\<close> is given by its object representation.\<close>

definition writeFloat :: "endian \<Rightarrow> u32 \<Rightarrow> bytearray \<Rightarrow> bytearray res" where
  "writeFloat host value ba = writeFuint32 host value ba"

definition writeDouble :: "endian \<Rightarrow> u64 \<Rightarrow> bytearray \<Rightarrow> bytearray res" where
  "writeDouble host value ba = writeFuint64 host value ba"

definition readFloat :: "endian \<Rightarrow> bytearray \<Rightarrow> (u32 \<times> bytearray) res" where
  "readFloat host ba = readFuint32 host ba"

definition readDouble :: "endian \<Rightarrow> bytearray \<Rightarrow> (u64 \<times> bytearray) res" where
  "readDouble host ba = readFuint64 host ba"

section \<open>Strings\<close>

definition writeStringF16 :: "endian \<Rightarrow> u8 list \<Rightarrow> bytearray \<Rightarrow> bytearray res" where
  "writeStringF16 host str ba = bindE (writeFuint16 host (of_nat (length str)) ba) (ba_write str)"

definition writeStringF32 :: "endian \<Rightarrow> u8 list \<Rightarrow> bytearray \<Rightarrow> bytearray res" where
  "writeStringF32 host str ba = bindE (writeFuint32 host (of_nat (length str)) ba) (ba_write str)"

definition writeStringF64 :: "endian \<Rightarrow> u8 list \<Rightarrow> bytearray \<Rightarrow> bytearray res" where
  "writeStringF64 host str ba = bindE (writeFuint64 host (of_nat (length str)) ba) (ba_write str)"

definition writeStringVint :: "u8 list \<Rightarrow> bytearray \<Rightarrow> bytearray res" where
  "writeStringVint str ba = bindE (writeUint64 (of_nat (length str)) ba) (ba_write str)"

definition writeStringNoLen :: "u8 list \<Rightarrow> bytearray \<Rightarrow> bytearray res" where
  "writeStringNoLen str ba = ba_write str ba"

definition readStringF16 :: "endian \<Rightarrow> bytearray \<Rightarrow> (u8 list \<times> bytearray) res" where
  "readStringF16 host ba = bindE (readFuint16 host ba) (\<lambda>(len, ba'). readInto (unat len) ba')"

definition readStringF32 :: "endian \<Rightarrow> bytearray \<Rightarrow> (u8 list \<times> bytearray) res" where
  "readStringF32 host ba = bindE (readFuint32 host ba) (\<lambda>(len, ba'). readInto (unat len) ba')"

definition readStringF64 :: "endian \<Rightarrow> bytearray \<Rightarrow> (u8 list \<times> bytearray) res" where
  "readStringF64 host ba = bindE (readFuint64 host ba) (\<lambda>(len, ba'). readInto (unat len) ba')"

definition readStringVint :: "endian \<Rightarrow> bytearray \<Rightarrow> (u8 list \<times> bytearray) res" where
  "readStringVint host ba = bindE (readUint64 host ba) (\<lambda>(len, ba'). readInto (unat len) ba')"

definition ba_toString :: "bytearray \<Rightarrow> cell list res" where
  "ba_toString ba =
     (if getReadSize ba = 0 then Inr [] else ba_readAt (getReadSize ba) (m_position ba) ba)"

definition hex_digit :: "nat \<Rightarrow> char" where
  "hex_digit n = ''0123456789abcdef'' ! n"

definition hex_byte :: "u8 \<Rightarrow> string" where
  "hex_byte b = [hex_digit (unat b div 16), hex_digit (unat b mod 16), CHR '' '']"

text \<open>The loop of \<^verbatim>\<open>toHexString\<close>; \<^verbatim>\<open>std::endl\<close> is a newline.\<close>

fun toHexString_loop :: "nat \<Rightarrow> u8 list \<Rightarrow> string" where
  "toHexString_loop i [] = []"
| "toHexString_loop i (b # bs) =
     (if i > 0 \<and> i mod 32 = 0 then [CHR 0x0A] else []) @ hex_byte b @ toHexString_loop (Suc i) bs"

definition toHexString :: "bytearray \<Rightarrow> string res" where
  "toHexString ba = bindE (ba_toString ba) (\<lambda>str.
     if None \<in> set str then Inl Indeterminate else Inr (toHexString_loop 0 (map the str)))"

section \<open>Reading back a written range\<close>

definition advance :: "nat \<Rightarrow> bytearray \<Rightarrow> bytearray" where
  "advance n ba = ba\<lparr>m_position := m_position ba + n, m_cur := cur_at ba (m_position ba + n)\<rparr>"

text \<open>The bytes at the position of \<open>ba\<close> are \<open>bs\<close>.\<close>

definition at_pos :: "bytearray \<Rightarrow> u8 list \<Rightarrow> bool" where
  "at_pos ba bs \<longleftrightarrow> m_position ba + length bs \<le> m_size ba \<and>
     slice (contents ba) (m_position ba) (length bs) = map Some bs"

lemma advance_simps [simp]:
  "m_position (advance n ba) = m_position ba + n" "m_size (advance n ba) = m_size ba"
  "m_endian (advance n ba) = m_endian ba" "m_baseSize (advance n ba) = m_baseSize ba"
  "m_capacity (advance n ba) = m_capacity ba" "contents (advance n ba) = contents ba"
  "advance m (advance n ba) = advance (n + m) ba"
  by (simp_all add: advance_def contents_def flat_def cur_at_def add.assoc)

lemma advance_0 [simp]: "ba_inv ba \<Longrightarrow> advance 0 ba = ba"
  by (simp add: advance_def ba_inv_def flip: cur_at_def)

lemma advance_inv [simp]: "ba_inv ba \<Longrightarrow> m_position ba + n \<le> m_size ba \<Longrightarrow> ba_inv (advance n ba)"
  by (simp add: advance_def ba_inv_move)

lemma at_pos_append:
  assumes "ba_inv ba"
  shows "at_pos ba (xs @ ys) \<longleftrightarrow> at_pos ba xs \<and> at_pos (advance (length xs) ba) ys"
proof -
  let ?c = "contents ba" and ?p = "m_position ba"
  have "slice ?c ?p (length xs) @ slice ?c (?p + length xs) (length ys) = map Some xs @ map Some ys \<longleftrightarrow>
      slice ?c ?p (length xs) = map Some xs \<and> slice ?c (?p + length xs) (length ys) = map Some ys"
    if "?p + length xs \<le> m_size ba"
    using that length_contents [OF assms] by (intro append_eq_append_conv) simp
  then show ?thesis
    by (auto simp: at_pos_def add.assoc simp flip: slice_append)
qed

lemma at_pos_Cons:
  "ba_inv ba \<Longrightarrow> at_pos ba (b # bs) \<longleftrightarrow> at_pos ba [b] \<and> at_pos (advance (Suc 0) ba) bs"
  using at_pos_append [of ba "[b]" bs] by simp

lemma readInto_at_pos:
  assumes "ba_inv ba" "at_pos ba bs" "bs \<noteq> []"
  shows "readInto (length bs) ba =
    (if (m_position ba + length bs) mod m_baseSize ba = 0 then Inr (bs, advance (length bs) ba)
     else Inl BufferOverrun)"
proof -
  let ?n = "length bs" and ?p = "m_position ba"
  have n: "0 < ?n" using assms(3) by simp
  have le: "?p + ?n \<le> m_size ba" and sl: "slice (contents ba) ?p ?n = map Some bs"
    using assms(2) by (auto simp: at_pos_def)
  have cap: "?p + ?n \<le> m_capacity ba" using le assms(1) by (simp add: ba_inv_def)
  let ?out = "slice (flat ba) ?p (copied ba ?p ?n)"
  have len: "length ?out = copied ba ?p ?n"
    using copied_le_capacity [OF assms(1) cap] assms(1) by (simp add: ba_inv_def length_flat)
  have "\<not> ?n > m_size ba - ?p" "?p \<noteq> m_capacity ba" using le cap n by linarith+
  then have rd: "ba_read ?n ba = Inr (?out, advance ?n ba)"
    using ba_read_eq [OF assms(1), of ?n] by (simp add: advance_def)
  have tk: "take ?n ?out = map Some bs"
    using take_slice_copied [OF assms(1) le] sl by simp
  have ge: "?n \<le> copied ba ?p ?n" by (rule copied_ge [OF assms(1)])
  show ?thesis
  proof (cases "(?p + ?n) mod m_baseSize ba = 0")
    case True
    then have "?out = map Some bs"
      using copied_exact [OF assms(1) n, of ?p] tk len by simp
    then show ?thesis using True by (simp add: readInto_def rd comp_def)
  next
    case False
    then have "?n < length ?out"
      using copied_exact [OF assms(1) n, of ?p] ge len by simp
    then show ?thesis using False by (simp add: readInto_def rd)
  qed
qed


text \<open>\<open>wrote ba bs ba'\<close>: the effect a write of the bytes \<open>bs\<close> has on the flat buffer.\<close>

definition wrote :: "bytearray \<Rightarrow> u8 list \<Rightarrow> bytearray \<Rightarrow> bool" where
  "wrote ba bs ba' \<longleftrightarrow> ba_inv ba' \<and>
     contents ba' = overwrite (contents ba) (m_position ba) (map Some bs) \<and>
     m_position ba' = m_position ba + length bs \<and>
     m_size ba' = max (m_size ba) (m_position ba + length bs) \<and>
     m_endian ba' = m_endian ba \<and> m_baseSize ba' = m_baseSize ba"

lemma ba_write_wrote: "ba_inv ba \<Longrightarrow> \<exists>ba'. ba_write bs ba = Inr ba' \<and> wrote ba bs ba'"
  using ba_write_spec [of ba bs] by (auto simp: wrote_def)

lemma wroteD:
  assumes "wrote ba bs ba'"
  shows "ba_inv ba'" "m_position ba' = m_position ba + length bs" "m_endian ba' = m_endian ba"
    "m_baseSize ba' = m_baseSize ba" "m_size ba' = max (m_size ba) (m_position ba + length bs)"
    "contents ba' = overwrite (contents ba) (m_position ba) (map Some bs)"
  using assms by (auto simp: wrote_def)

lemma wrote_append:
  assumes "ba_inv ba" "wrote ba xs ba0" "wrote ba0 ys ba1"
  shows "wrote ba (xs @ ys) ba1"
proof -
  have le: "m_position ba \<le> length (contents ba)"
    using assms(1) by (simp add: length_contents) (simp add: ba_inv_def)
  then have "overwrite (overwrite (contents ba) (m_position ba) (map Some xs))
      (m_position ba + length xs) (map Some ys) = overwrite (contents ba) (m_position ba) (map Some (xs @ ys))"
    by (simp add: overwrite_def ac_simps)
  then show ?thesis using assms(2,3) by (auto simp: wrote_def max_def)
qed

text \<open>
  Rewinding \<open>ba1\<close> to \<open>p\<close>: what \<^verbatim>\<open>setPosition(p)\<close> gives when \<open>p\<close> is within the written bytes.
\<close>

definition rewind :: "nat \<Rightarrow> bytearray \<Rightarrow> bytearray" where
  "rewind p ba = ba\<lparr>m_position := p, m_cur := cur_at ba p\<rparr>"

lemma setPosition_rewind: "ba_inv ba \<Longrightarrow> p \<le> m_size ba \<Longrightarrow> setPosition p ba = Inr (rewind p ba)"
  by (auto simp: setPosition_eq rewind_def ba_inv_def max_def)

lemma rewind_simps [simp]:
  "m_position (rewind p ba) = p" "m_size (rewind p ba) = m_size ba"
  "m_endian (rewind p ba) = m_endian ba" "m_baseSize (rewind p ba) = m_baseSize ba"
  "contents (rewind p ba) = contents ba" "advance n (rewind p ba) = rewind (p + n) ba"
  by (simp_all add: rewind_def advance_def contents_def flat_def cur_at_def)

lemma rewind_inv [simp]: "ba_inv ba \<Longrightarrow> p \<le> m_size ba \<Longrightarrow> ba_inv (rewind p ba)"
  by (simp add: rewind_def ba_inv_move)

lemma rewind_position [simp]: "ba_inv ba \<Longrightarrow> rewind (m_position ba) ba = ba"
  by (simp add: rewind_def ba_inv_def flip: cur_at_def)

lemma write_at_pos:
  assumes "ba_inv ba" "wrote ba bs ba1"
  shows "at_pos (rewind (m_position ba) ba1) bs"
proof -
  have le: "m_position ba \<le> length (contents ba)"
    using assms(1) by (simp add: length_contents) (simp add: ba_inv_def)
  show ?thesis
    using wroteD [OF assms(2)] le
    by (simp add: at_pos_def slice_def overwrite_def)
qed

text \<open>Later writes leave earlier bytes alone.\<close>

lemma write_keeps:
  assumes "ba_inv ba" "wrote ba bs ba1" "p + length xs \<le> m_position ba"
  shows "at_pos (rewind p ba1) xs \<longleftrightarrow> at_pos (rewind p ba) xs"
proof -
  have le: "m_position ba \<le> m_size ba" using assms(1) by (simp add: ba_inv_def)
  then have "slice (contents ba1) p (length xs) = slice (contents ba) p (length xs)"
    using wroteD(6) [OF assms(2)] assms(3) length_contents [OF assms(1)]
    by (simp add: slice_def overwrite_def drop_take min_absorb1)
  then show ?thesis
    using wroteD(5) [OF assms(2)] assms(3) le by (auto simp: at_pos_def)
qed

section \<open>The contract of a reader and a writer\<close>

text \<open>
  \<open>writeAll\<close> and \<open>readAll\<close> are the loops a client runs: every value of a list written in
  order, and as many values read in order.
\<close>

fun writeAll :: "('v \<Rightarrow> bytearray \<Rightarrow> bytearray res) \<Rightarrow> 'v list \<Rightarrow> bytearray \<Rightarrow> bytearray res" where
  "writeAll wr [] ba = Inr ba"
| "writeAll wr (v # vs) ba = bindE (wr v ba) (writeAll wr vs)"

fun readAll :: "(bytearray \<Rightarrow> ('v \<times> bytearray) res) \<Rightarrow> nat \<Rightarrow> bytearray \<Rightarrow> ('v list \<times> bytearray) res" where
  "readAll rd 0 ba = Inr ([], ba)"
| "readAll rd (Suc n) ba =
     bindE (rd ba) (\<lambda>(v, ba'). bindE (readAll rd n ba') (\<lambda>(vs, ba''). Inr (v # vs, ba'')))"

text \<open>
  \<open>enc e v\<close> are the bytes of \<open>v\<close> in an array of byte order \<open>e\<close>.  The writer appends them; the
  reader, on an array of base size 1 whose next bytes they are, returns \<open>v\<close> and moves past
  them.  (With another base size \<^verbatim>\<open>read\<close> may run past its destination, see
  \<open>readInto_at_pos\<close>.)
\<close>

locale codec =
  fixes valid :: "'v \<Rightarrow> bool"
    and enc :: "endian \<Rightarrow> 'v \<Rightarrow> u8 list"
    and wr :: "'v \<Rightarrow> bytearray \<Rightarrow> bytearray res"
    and rd :: "bytearray \<Rightarrow> ('v \<times> bytearray) res"
  assumes wr_enc: "ba_inv ba \<Longrightarrow> \<exists>ba'. wr v ba = Inr ba' \<and> wrote ba (enc (m_endian ba) v) ba'"
    and rd_enc: "valid v \<Longrightarrow> ba_inv ba \<Longrightarrow> m_baseSize ba = 1 \<Longrightarrow> at_pos ba (enc (m_endian ba) v) \<Longrightarrow>
      rd ba = Inr (v, advance (length (enc (m_endian ba) v)) ba)"
begin

lemma writeAll_eq:
  assumes "ba_inv ba"
  shows "\<exists>ba1. writeAll wr vs ba = Inr ba1 \<and> ba_inv ba1 \<and>
    m_position ba1 = m_position ba + length (concat (map (enc (m_endian ba)) vs)) \<and>
    m_endian ba1 = m_endian ba \<and> m_baseSize ba1 = m_baseSize ba \<and>
    at_pos (rewind (m_position ba) ba1) (concat (map (enc (m_endian ba)) vs)) \<and>
    (\<forall>p xs. p + length xs \<le> m_position ba \<longrightarrow>
       at_pos (rewind p ba1) xs = at_pos (rewind p ba) xs)"
  using assms
proof (induction vs arbitrary: ba)
  case Nil
  then show ?case by (auto simp: at_pos_def ba_inv_def)
next
  case (Cons v vs)
  let ?e = "m_endian ba" and ?p = "m_position ba"
  obtain ba0 where wr0: "wr v ba = Inr ba0" and w: "wrote ba (enc ?e v) ba0"
    using wr_enc [OF Cons.prems] by blast
  note w0 = wroteD [OF w]
  obtain ba1 where ba1: "writeAll wr vs ba0 = Inr ba1" "ba_inv ba1"
    "m_position ba1 = m_position ba0 + length (concat (map (enc ?e) vs))"
    "m_endian ba1 = ?e" "m_baseSize ba1 = m_baseSize ba"
    "at_pos (rewind (m_position ba0) ba1) (concat (map (enc ?e) vs))"
    "\<forall>p xs. p + length xs \<le> m_position ba0 \<longrightarrow> at_pos (rewind p ba1) xs = at_pos (rewind p ba0) xs"
    using Cons.IH [OF w0(1)] w0(3,4) by auto
  have le: "?p \<le> m_size ba1" using ba1(2,3) w0(2) by (simp add: ba_inv_def)
  have "at_pos (rewind ?p ba1) (enc ?e v)"
    using ba1(7) write_at_pos [OF Cons.prems w] w0(2) by auto
  then have "at_pos (rewind ?p ba1) (enc ?e v @ concat (map (enc ?e) vs))"
    using ba1(2,6) w0(2) le by (subst at_pos_append) auto
  moreover have "\<forall>p xs. p + length xs \<le> ?p \<longrightarrow> at_pos (rewind p ba1) xs = at_pos (rewind p ba) xs"
    using ba1(7) write_keeps [OF Cons.prems w] w0(2) by auto
  ultimately show ?case
    using ba1 wr0 w0 by auto
qed

lemma readAll_eq:
  assumes "\<forall>v\<in>set vs. valid v" "ba_inv ba" "m_baseSize ba = 1"
    "at_pos ba (concat (map (enc (m_endian ba)) vs))"
  shows "readAll rd (length vs) ba = Inr (vs, advance (length (concat (map (enc (m_endian ba)) vs))) ba)"
  using assms
proof (induction vs arbitrary: ba)
  case (Cons v vs)
  let ?e = "m_endian ba"
  have ap: "at_pos ba (enc ?e v)" "at_pos (advance (length (enc ?e v)) ba) (concat (map (enc ?e) vs))"
    using Cons.prems(2,4) by (auto simp: at_pos_append)
  have inv: "ba_inv (advance (length (enc ?e v)) ba)"
    using Cons.prems(2) ap(1) by (simp add: at_pos_def)
  then show ?case
    using Cons.IH [OF _ inv] Cons.prems ap rd_enc [of v ba] by simp
qed simp

text \<open>A list of values written from the current position is read back by rewinding to it.\<close>

lemma roundtrip:
  assumes "ba_inv ba" "m_baseSize ba = 1" "\<forall>v\<in>set vs. valid v"
  shows "\<exists>ba1. writeAll wr vs ba = Inr ba1 \<and>
    bindE (setPosition (m_position ba) ba1) (readAll rd (length vs)) = Inr (vs, ba1)"
proof -
  obtain ba1 where w: "writeAll wr vs ba = Inr ba1" "ba_inv ba1"
    "m_position ba1 = m_position ba + length (concat (map (enc (m_endian ba)) vs))"
    "m_endian ba1 = m_endian ba" "m_baseSize ba1 = m_baseSize ba"
    "at_pos (rewind (m_position ba) ba1) (concat (map (enc (m_endian ba)) vs))"
    using writeAll_eq [OF assms(1), of vs] by auto
  have le: "m_position ba \<le> m_size ba1" using w(2,3) by (simp add: ba_inv_def)
  then have "readAll rd (length vs) (rewind (m_position ba) ba1) = Inr (vs, rewind (m_position ba1) ba1)"
    using readAll_eq [of vs "rewind (m_position ba) ba1"] assms w by simp
  then show ?thesis using w(1,2) le by (simp add: setPosition_rewind)
qed

end

section \<open>Every typed pair keeps the contract\<close>

lemma readInto_base1:
  "ba_inv ba \<Longrightarrow> m_baseSize ba = 1 \<Longrightarrow> at_pos ba bs \<Longrightarrow> bs \<noteq> [] \<Longrightarrow>
   readInto (length bs) ba = Inr (bs, advance (length bs) ba)"
  by (simp add: readInto_at_pos)

lemma writeFixed_wrote:
  fixes v :: "'a::len word"
  assumes "LENGTH('a) = 8 * n" "ba_inv ba"
  shows "\<exists>ba'. writeFixed n host v ba = Inr ba' \<and> wrote ba (to_mem (m_endian ba) n v) ba'"
  using ba_write_wrote [OF assms(2)] to_mem_byteswap [OF assms(1), of host "m_endian ba" v]
  by (cases "m_endian ba = host") (auto simp: writeFixed_def)

lemma readFixed_enc:
  fixes v :: "'a::len word"
  assumes "LENGTH('a) = 8 * n" "ba_inv ba" "m_baseSize ba = 1" "at_pos ba (to_mem (m_endian ba) n v)"
  shows "readFixed n host ba = Inr (v, advance n ba)"
proof -
  have "n \<noteq> 0" using assms(1) len_gt_0 [where 'a = 'a] by (cases n) auto
  then have "to_mem (m_endian ba) n v \<noteq> []" by (metis length_0_conv length_to_mem)
  then have rd: "readInto n ba = Inr (to_mem (m_endian ba) n v, advance n ba)"
    using readInto_base1 [OF assms(2,3,4)] by simp
  show ?thesis
  proof (cases "m_endian ba = host")
    case True
    then show ?thesis using rd assms(1) by (simp add: readFixed_def)
  next
    case False
    then have "to_mem (m_endian ba) n v = to_mem host n (byteswap n v)"
      using to_mem_byteswap [OF assms(1), of host "m_endian ba" v] by simp
    then show ?thesis using rd False assms(1) by (simp add: readFixed_def)
  qed
qed

lemma codec_fixed:
  assumes "LENGTH('a::len) = 8 * n"
  shows "codec (\<lambda>_. True) (\<lambda>e. to_mem e n) (writeFixed n host) (readFixed n host :: _ \<Rightarrow> ('a word \<times> _) res)"
  using writeFixed_wrote [OF assms] readFixed_enc [OF assms] by unfold_locales auto

lemma to_mem_1 [simp]: "to_mem e 1 (v :: u8) = [v]" "to_mem e (Suc 0) (v :: u8) = [v]"
  by (simp_all add: to_mem_def split: endian.split)

lemma of_mem_1 [simp]: "of_mem e [v] = (v :: u8)"
  by (simp add: of_mem_def split: endian.split)

lemma readFuint8_at_pos:
  "ba_inv ba \<Longrightarrow> m_baseSize ba = 1 \<Longrightarrow> at_pos ba [b] \<Longrightarrow> readFuint8 host ba = Inr (b, advance 1 ba)"
  using readInto_base1 [of ba "[b]"] by (simp add: readFuint8_def)

lemma readFint8_at_pos:
  "ba_inv ba \<Longrightarrow> m_baseSize ba = 1 \<Longrightarrow> at_pos ba [b] \<Longrightarrow> readFint8 host ba = Inr (b, advance 1 ba)"
  using readInto_base1 [of ba "[b]"] by (simp add: readFint8_def)

interpretation fint8: codec "\<lambda>_. True" "\<lambda>e v. [v]" "writeFint8 host" "readFint8 host" for host
  using readFint8_at_pos ba_write_wrote
  by unfold_locales (auto simp: writeFint8_def)

interpretation fuint8: codec "\<lambda>_. True" "\<lambda>e v. [v]" "writeFuint8 host" "readFuint8 host" for host
  using readFuint8_at_pos ba_write_wrote
  by unfold_locales (auto simp: writeFuint8_def)

interpretation fint16: codec "\<lambda>_. True" "\<lambda>e. to_mem e 2" "writeFint16 host" "readFint16 host" for host
  unfolding writeFint16_def readFint16_def by (rule codec_fixed) simp

interpretation fuint16: codec "\<lambda>_. True" "\<lambda>e. to_mem e 2" "writeFuint16 host" "readFuint16 host" for host
  unfolding writeFuint16_def readFuint16_def by (rule codec_fixed) simp

interpretation fint32: codec "\<lambda>_. True" "\<lambda>e. to_mem e 4" "writeFint32 host" "readFint32 host" for host
  unfolding writeFint32_def readFint32_def by (rule codec_fixed) simp

interpretation fuint32: codec "\<lambda>_. True" "\<lambda>e. to_mem e 4" "writeFuint32 host" "readFuint32 host" for host
  unfolding writeFuint32_def readFuint32_def by (rule codec_fixed) simp

interpretation fint64: codec "\<lambda>_. True" "\<lambda>e. to_mem e 8" "writeFint64 host" "readFint64 host" for host
  unfolding writeFint64_def readFint64_def by (rule codec_fixed) simp

interpretation fuint64: codec "\<lambda>_. True" "\<lambda>e. to_mem e 8" "writeFuint64 host" "readFuint64 host" for host
  unfolding writeFuint64_def readFuint64_def by (rule codec_fixed) simp

interpretation float: codec "\<lambda>_. True" "\<lambda>e. to_mem e 4" "writeFloat host" "readFloat host" for host
  using fuint32.wr_enc fuint32.rd_enc by unfold_locales (auto simp: writeFloat_def readFloat_def)

interpretation double: codec "\<lambda>_. True" "\<lambda>e. to_mem e 8" "writeDouble host" "readDouble host" for host
  using fuint64.wr_enc fuint64.rd_enc by unfold_locales (auto simp: writeDouble_def readDouble_def)

subsection \<open>Variable-length integers\<close>

lemma ucast_lt_0x80:
  fixes v :: "'a::len word"
  assumes "\<not> 0x80 \<le> unat v"
  shows "(ucast v :: u8) < 0x80"
  using assms by (simp add: word_less_nat_alt unsigned_ucast_eq unsigned_take_bit_eq take_bit_nat_eq_self)

lemma ucast_ge_0x80:
  fixes v :: "'a::len word"
  assumes "8 \<le> LENGTH('a)"
  shows "\<not> (ucast ((v AND 0x7f) OR 0x80) :: u8) < 0x80"
proof
  let ?w = "ucast ((v AND 0x7f) OR 0x80) :: u8"
  assume "?w < 0x80"
  then have "unat ?w < 2 ^ 7" by (simp add: word_less_nat_alt)
  then have "take_bit 7 ?w = ?w"
    by (simp add: word_unat_eq_iff unsigned_take_bit_eq take_bit_nat_eq_self)
  moreover have "bit ?w 7"
    using assms bit_exp_iff [of 7 7, where ?'a = "'a word"] by (simp add: bit_simps possible_bit_word)
  ultimately show False by (metis bit_take_bit_iff less_irrefl)
qed

lemma drop_bit_small:
  fixes v :: "'a::len word"
  assumes "LENGTH('a) \<le> i + 7"
  shows "unat (drop_bit i v) < 0x80"
proof -
  have "drop_bit i v = take_bit 7 (drop_bit i v)"
    by (rule bit_word_eqI) (use assms in \<open>auto simp: bit_simps dest: bit_imp_le_length\<close>)
  then have "unat (drop_bit i v) = take_bit 7 (unat (drop_bit i v))"
    by (metis unsigned_take_bit_eq)
  also have "\<dots> < 2 ^ 7" by (rule take_bit_nat_less_exp)
  finally show ?thesis by simp
qed

lemma readUint32_loop_spec:
  assumes "i < 32" "ba_inv ba" "m_baseSize ba = 1" "at_pos ba (varint32 (drop_bit i v))"
  shows "readUint32_loop host i (take_bit i v) ba = Inr (v, advance (length (varint32 (drop_bit i v))) ba)"
  using assms
proof (induction "32 - i" arbitrary: i ba rule: less_induct)
  case less
  let ?d = "drop_bit i v"
  note prems = less.prems
  show ?case
  proof (cases "0x80 \<le> ?d")
    case False
    then have lt: "\<not> 0x80 \<le> unat ?d" by (simp add: word_le_nat_alt)
    have vi: "varint32 ?d = [ucast ?d]" using False by (simp add: varint32.simps [of ?d])
    then show ?thesis
      using prems ucast_lt_0x80 [OF lt] readFuint8_at_pos [of ba "ucast ?d" host]
        varint_last_bits [of i v] lt
      by (simp add: readUint32_loop.simps [of host i])
  next
    case True
    let ?b = "ucast ((?d AND 0x7f) OR 0x80) :: u8"
    have vi: "varint32 ?d = [?b] @ varint32 (drop_bit (i + 7) v)"
      using True by (simp add: varint32.simps [of ?d] add.commute)
    have ap: "at_pos ba [?b]" "at_pos (advance 1 ba) (varint32 (drop_bit (i + 7) v))"
      using prems(4) at_pos_Cons [OF prems(2), of ?b "varint32 (drop_bit (i + 7) v)"] unfolding vi
      by simp_all
    have inv: "ba_inv (advance 1 ba)" using prems(2) ap(1) by (simp add: at_pos_def)
    have i: "i + 7 < 32"
      using True drop_bit_small [of i v] by (fastforce simp: word_le_nat_alt)
    have "readUint32_loop host i (take_bit i v) ba = readUint32_loop host (i + 7) (take_bit (i + 7) v) (advance 1 ba)"
      using prems i ap ucast_ge_0x80 [of ?d] readFuint8_at_pos [of ba ?b host] varint_step_bits [of i v]
      by (simp add: readUint32_loop.simps [of host i])
    also have "\<dots> = Inr (v, advance (length (varint32 (drop_bit (i + 7) v))) (advance 1 ba))"
      using i inv ap prems by (intro less.hyps) auto
    finally show ?thesis by (simp add: vi)
  qed
qed

lemma readUint64_loop_spec:
  assumes "i < 64" "ba_inv ba" "m_baseSize ba = 1" "at_pos ba (varint64 (drop_bit i v))"
  shows "readUint64_loop host i (take_bit i v) ba = Inr (v, advance (length (varint64 (drop_bit i v))) ba)"
  using assms
proof (induction "64 - i" arbitrary: i ba rule: less_induct)
  case less
  let ?d = "drop_bit i v"
  note prems = less.prems
  show ?case
  proof (cases "0x80 \<le> ?d")
    case False
    then have lt: "\<not> 0x80 \<le> unat ?d" by (simp add: word_le_nat_alt)
    have vi: "varint64 ?d = [ucast ?d]" using False by (simp add: varint64.simps [of ?d])
    then show ?thesis
      using prems ucast_lt_0x80 [OF lt] readFuint8_at_pos [of ba "ucast ?d" host]
        varint_last_bits [of i v] lt
      by (simp add: readUint64_loop.simps [of host i])
  next
    case True
    let ?b = "ucast ((?d AND 0x7f) OR 0x80) :: u8"
    have vi: "varint64 ?d = [?b] @ varint64 (drop_bit (i + 7) v)"
      using True by (simp add: varint64.simps [of ?d] add.commute)
    have ap: "at_pos ba [?b]" "at_pos (advance 1 ba) (varint64 (drop_bit (i + 7) v))"
      using prems(4) at_pos_Cons [OF prems(2), of ?b "varint64 (drop_bit (i + 7) v)"] unfolding vi
      by simp_all
    have inv: "ba_inv (advance 1 ba)" using prems(2) ap(1) by (simp add: at_pos_def)
    have i: "i + 7 < 64"
      using True drop_bit_small [of i v] by (fastforce simp: word_le_nat_alt)
    have "readUint64_loop host i (take_bit i v) ba = readUint64_loop host (i + 7) (take_bit (i + 7) v) (advance 1 ba)"
      using prems i ap ucast_ge_0x80 [of ?d] readFuint8_at_pos [of ba ?b host] varint_step_bits [of i v]
      by (simp add: readUint64_loop.simps [of host i])
    also have "\<dots> = Inr (v, advance (length (varint64 (drop_bit (i + 7) v))) (advance 1 ba))"
      using i inv ap prems by (intro less.hyps) auto
    finally show ?thesis by (simp add: vi)
  qed
qed

interpretation uint32: codec "\<lambda>_. True" "\<lambda>e. varint32" writeUint32 "readUint32 host" for host
  using readUint32_loop_spec [of 0] ba_write_wrote
  by unfold_locales (auto simp: writeUint32_def readUint32_def)

interpretation uint64: codec "\<lambda>_. True" "\<lambda>e. varint64" writeUint64 "readUint64 host" for host
  using readUint64_loop_spec [of 0] ba_write_wrote
  by unfold_locales (auto simp: writeUint64_def readUint64_def)

interpretation int32: codec "\<lambda>_. True" "\<lambda>e v. varint32 (EncodeZigzag32 v)" writeInt32 "readInt32 host" for host
  using uint32.wr_enc uint32.rd_enc by unfold_locales (auto simp: writeInt32_def readInt32_def)

subsection \<open>Signed 64-bit values\<close>

lemma varint64_ucast: "unat v < 2 ^ 32 \<Longrightarrow> varint64 v = varint32 (ucast v)"
proof (induction v rule: varint64.induct)
  case (1 v)
  have uc: "unat (ucast v :: u32) = unat v"
    using "1.prems" by (simp add: unsigned_ucast_eq unsigned_take_bit_eq take_bit_nat_eq_self)
  have le: "0x80 \<le> v \<longleftrightarrow> 0x80 \<le> (ucast v :: u32)"
    using uc by (simp add: word_le_nat_alt)
  show ?case
  proof (cases "0x80 \<le> v")
    case True
    have "unat (drop_bit 7 v) < 2 ^ 32"
      using "1.prems" unat_drop_bit_7_less [of v] True by (simp add: word_le_nat_alt)
    then have "varint64 (drop_bit 7 v) = varint32 (ucast (drop_bit 7 v))"
      using "1.IH" True by simp
    moreover have "ucast (drop_bit 7 v) = drop_bit 7 (ucast v :: u32)"
      using "1.prems" uc
      by (simp only: word_unat_eq_iff unsigned_ucast_eq unsigned_take_bit_eq unat_drop_bit_eq)
        (simp add: drop_bit_eq_div take_bit_nat_eq_self)
    moreover have "ucast ((v AND 0x7f) OR 0x80) = (ucast (((ucast v :: u32) AND 0x7f) OR 0x80) :: u8)"
      by (rule bit_word_eqI) (auto simp: bit_simps dest: bit_0x80D)
    ultimately show ?thesis
      using True le by (simp add: varint64.simps [of v] varint32.simps [of "ucast v"])
  next
    case False
    moreover have "(ucast v :: u8) = ucast (ucast v :: u32)"
      by (rule bit_word_eqI) (auto simp: bit_simps)
    ultimately show ?thesis
      using le by (simp add: varint64.simps [of v] varint32.simps [of "ucast v"])
  qed
qed

interpretation int64: codec "\<lambda>v. unat (EncodeZigzag64 v) < 2 ^ 32" "\<lambda>e v. varint64 (EncodeZigzag64 v)"
  writeInt64 "readInt64 host" for host
proof
  fix v ba assume "ba_inv ba"
  then show "\<exists>ba'. writeInt64 v ba = Inr ba' \<and> wrote ba (varint64 (EncodeZigzag64 v)) ba'"
    using uint64.wr_enc by (simp add: writeInt64_def)
next
  fix v ba
  let ?z = "EncodeZigzag64 v"
  assume z: "unat ?z < 2 ^ 32" and rest: "ba_inv ba" "m_baseSize ba = 1" "at_pos ba (varint64 ?z)"
  have eq: "varint64 ?z = varint32 (ucast ?z)" by (rule varint64_ucast [OF z])
  have "readUint32 host ba = Inr (ucast ?z, advance (length (varint32 (ucast ?z))) ba)"
    using rest uint32.rd_enc [where v = "ucast ?z" and ba = ba] eq by simp
  moreover have "ucast (ucast ?z :: u32) = ?z"
    using z by (simp add: word_unat_eq_iff unsigned_ucast_eq unsigned_take_bit_eq take_bit_nat_eq_self)
  ultimately show "readInt64 host ba = Inr (v, advance (length (varint64 ?z)) ba)"
    by (simp add: readInt64_def eq)
qed

text \<open>What \<^verbatim>\<open>readInt64\<close> can return at all.\<close>

lemma DecodeZigzag64_small:
  assumes "unat x < 2 ^ 32"
  shows "- (2 ^ 31) \<le> sint (DecodeZigzag64 x) \<and> sint (DecodeZigzag64 x) < 2 ^ 31"
proof -
  let ?y = "drop_bit 1 x"
  have y: "unat ?y < 2 ^ 31"
    using assms unfolding unat_drop_bit_eq by (simp add: drop_bit_eq_div)
  have "uint ?y < 2 ^ 31" using y of_nat_less_iff [of "unat ?y" "2 ^ 31", where ?'a = int] by simp
  moreover have "- (2 ^ 63) \<le> uint ?y" by (rule order.trans [OF _ uint_ge_0]) simp
  moreover have "sint ?y = signed_take_bit 63 (uint ?y)" by (simp add: sint_uint)
  ultimately have sy: "sint ?y = uint ?y"
    by (simp add: signed_take_bit_int_eq_self)
  show ?thesis
  proof (cases "bit x 0")
    case True
    then have "x AND 1 = 1" by (intro bit_word_eqI) (auto simp: bit_simps)
    then have "DecodeZigzag64 x = NOT ?y" by (simp add: DecodeZigzag64_def)
    moreover have "signed_take_bit 64 (- u - 1) = - u - 1" if "u < 2 ^ 31" "0 \<le> u" for u :: int
      using that by (simp add: signed_take_bit_int_eq_self)
    from this [OF \<open>uint ?y < 2 ^ 31\<close> uint_ge_0]
     have "sint (NOT ?y) = - sint ?y - 1"
      using sy by (simp add: signed_not_eq not_int_def)
    moreover have "- (2 ^ 31) \<le> - u - 1 \<and> - u - 1 < 2 ^ 31" if "u < 2 ^ 31" "0 \<le> u" for u :: int
      using that by simp
    from this [OF \<open>uint ?y < 2 ^ 31\<close> uint_ge_0]
    have "- (2 ^ 31) \<le> - uint ?y - 1 \<and> - uint ?y - 1 < 2 ^ 31" .
    ultimately show ?thesis using sy by (simp only:)
  next
    case False
    then have "x AND 1 = 0" by (intro bit_word_eqI) (auto simp: bit_simps intro: gr0I)
    then have "DecodeZigzag64 x = ?y" by (simp add: DecodeZigzag64_def)
    moreover have "- (2 ^ 31) \<le> uint ?y" by (rule order.trans [OF _ uint_ge_0]) simp
    ultimately show ?thesis using sy \<open>uint ?y < 2 ^ 31\<close> by simp
  qed
qed

subsection \<open>Strings\<close>

text \<open>
  A length prefix and the bytes: the writer casts the length to the width of its prefix, and
  the reader calls \<^verbatim>\<open>read\<close> even for an empty string.
\<close>

lemma string_wr:
  assumes "codec valid enc wr rd" "ba_inv ba"
  shows "\<exists>ba'. bindE (wr len ba) (ba_write str) = Inr ba' \<and> wrote ba (enc (m_endian ba) len @ str) ba'"
proof -
  obtain ba0 where ba0: "wr len ba = Inr ba0" "wrote ba (enc (m_endian ba) len) ba0"
    using codec.wr_enc [OF assms] by blast
  moreover obtain ba1 where "ba_write str ba0 = Inr ba1" "wrote ba0 str ba1"
    using ba_write_wrote [OF wroteD(1) [OF ba0(2)]] by blast
  ultimately show ?thesis using wrote_append [OF assms(2)] by auto
qed

lemma string_rd:
  fixes len :: "'a::len word"
  assumes "codec valid enc wr rd" "valid len" "ba_inv ba" "m_baseSize ba = 1"
    and "at_pos ba (enc (m_endian ba) len @ str)" "unat len = length str" "str \<noteq> []"
  shows "bindE (rd ba) (\<lambda>(len, ba'). readInto (unat len) ba') =
    Inr (str, advance (length (enc (m_endian ba) len @ str)) ba)"
proof -
  let ?n = "length (enc (m_endian ba) len)"
  have ap: "at_pos ba (enc (m_endian ba) len)" "at_pos (advance ?n ba) str"
    using assms(3,5) by (simp_all add: at_pos_append)
  have "ba_inv (advance ?n ba)" using assms(3) ap(1) by (simp add: at_pos_def)
  then have "readInto (length str) (advance ?n ba) = Inr (str, advance (length str) (advance ?n ba))"
    using ap(2) assms(4,7) by (intro readInto_base1) simp_all
  then show ?thesis
    using codec.rd_enc [OF assms(1,2,3,4) ap(1)] assms(6) by simp
qed

lemma unat_of_nat_length:
  "length str < 2 ^ LENGTH('a) \<Longrightarrow> unat (of_nat (length str) :: 'a::len word) = length str"
  by (simp add: unsigned_of_nat take_bit_nat_eq_self)

interpretation stringF16: codec "\<lambda>s. s \<noteq> [] \<and> length s < 2 ^ 16"
  "\<lambda>e s. to_mem e 2 (of_nat (length s) :: u16) @ s" "writeStringF16 host" "readStringF16 host" for host
  unfolding writeStringF16_def readStringF16_def
  using string_wr [OF fuint16.codec_axioms] string_rd [OF fuint16.codec_axioms]
  by unfold_locales (auto simp: unat_of_nat_length)

interpretation stringF32: codec "\<lambda>s. s \<noteq> [] \<and> length s < 2 ^ 32"
  "\<lambda>e s. to_mem e 4 (of_nat (length s) :: u32) @ s" "writeStringF32 host" "readStringF32 host" for host
  unfolding writeStringF32_def readStringF32_def
  using string_wr [OF fuint32.codec_axioms] string_rd [OF fuint32.codec_axioms]
  by unfold_locales (auto simp: unat_of_nat_length)

interpretation stringF64: codec "\<lambda>s. s \<noteq> [] \<and> length s < 2 ^ 64"
  "\<lambda>e s. to_mem e 8 (of_nat (length s) :: u64) @ s" "writeStringF64 host" "readStringF64 host" for host
  unfolding writeStringF64_def readStringF64_def
  using string_wr [OF fuint64.codec_axioms] string_rd [OF fuint64.codec_axioms]
  by unfold_locales (auto simp: unat_of_nat_length)

interpretation stringVint: codec "\<lambda>s. s \<noteq> [] \<and> length s < 2 ^ 64"
  "\<lambda>e s. varint64 (of_nat (length s)) @ s" writeStringVint "readStringVint host" for host
  unfolding writeStringVint_def readStringVint_def
  using string_wr [OF uint64.codec_axioms] string_rd [OF uint64.codec_axioms]
  by unfold_locales (auto simp: unat_of_nat_length)

section \<open>Reads that run past their destination\<close>

lemma readInto_overrun:
  assumes "ba_inv ba" "0 < n" "m_position ba + n \<le> m_size ba"
    and "(m_position ba + n) mod m_baseSize ba \<noteq> 0"
  shows "readInto n ba = Inl BufferOverrun"
proof -
  let ?p = "m_position ba"
  have cap: "?p + n \<le> m_capacity ba" using assms(1,3) by (simp add: ba_inv_def)
  have "n < copied ba ?p n"
    using copied_exact [OF assms(1,2), of ?p] copied_ge [OF assms(1), of n ?p] assms(4) by simp
  moreover have "length (slice (flat ba) ?p (copied ba ?p n)) = copied ba ?p n"
    using copied_le_capacity [OF assms(1) cap] assms(1) by (simp add: ba_inv_def length_flat)
  moreover have "\<not> n > m_size ba - ?p" "?p \<noteq> m_capacity ba" using assms(2,3) cap by linarith+
  ultimately show ?thesis by (simp add: readInto_def ba_read_eq [OF assms(1)])
qed


section \<open>Properties\<close>

text \<open>
  C16: every fixed-width and floating-point type round-trips.  On a well-formed array of base
  size 1, in either byte order and on a host of either byte order, a list of values written one
  after the other is read back, after setting the position to where the writing began, as the same
  list, and the array is left as the writes left it.
\<close>

theorem fixed_roundtrip:
  assumes "ba_inv ba" "m_baseSize ba = 1"
  shows "(\<exists>ba1. writeAll (writeFint8 host) a ba = Inr ba1 \<and>
      bindE (setPosition (m_position ba) ba1) (readAll (readFint8 host) (length a)) = Inr (a, ba1)) \<and>
    (\<exists>ba1. writeAll (writeFuint8 host) a ba = Inr ba1 \<and>
      bindE (setPosition (m_position ba) ba1) (readAll (readFuint8 host) (length a)) = Inr (a, ba1)) \<and>
    (\<exists>ba1. writeAll (writeFint16 host) b ba = Inr ba1 \<and>
      bindE (setPosition (m_position ba) ba1) (readAll (readFint16 host) (length b)) = Inr (b, ba1)) \<and>
    (\<exists>ba1. writeAll (writeFuint16 host) b ba = Inr ba1 \<and>
      bindE (setPosition (m_position ba) ba1) (readAll (readFuint16 host) (length b)) = Inr (b, ba1)) \<and>
    (\<exists>ba1. writeAll (writeFint32 host) c ba = Inr ba1 \<and>
      bindE (setPosition (m_position ba) ba1) (readAll (readFint32 host) (length c)) = Inr (c, ba1)) \<and>
    (\<exists>ba1. writeAll (writeFuint32 host) c ba = Inr ba1 \<and>
      bindE (setPosition (m_position ba) ba1) (readAll (readFuint32 host) (length c)) = Inr (c, ba1)) \<and>
    (\<exists>ba1. writeAll (writeFloat host) c ba = Inr ba1 \<and>
      bindE (setPosition (m_position ba) ba1) (readAll (readFloat host) (length c)) = Inr (c, ba1)) \<and>
    (\<exists>ba1. writeAll (writeFint64 host) d ba = Inr ba1 \<and>
      bindE (setPosition (m_position ba) ba1) (readAll (readFint64 host) (length d)) = Inr (d, ba1)) \<and>
    (\<exists>ba1. writeAll (writeFuint64 host) d ba = Inr ba1 \<and>
      bindE (setPosition (m_position ba) ba1) (readAll (readFuint64 host) (length d)) = Inr (d, ba1)) \<and>
    (\<exists>ba1. writeAll (writeDouble host) d ba = Inr ba1 \<and>
      bindE (setPosition (m_position ba) ba1) (readAll (readDouble host) (length d)) = Inr (d, ba1))"
  by (intro conjI fint8.roundtrip fuint8.roundtrip fint16.roundtrip fuint16.roundtrip fint32.roundtrip
      fuint32.roundtrip float.roundtrip fint64.roundtrip fuint64.roundtrip double.roundtrip assms) simp_all

theorem fixed_roundtrip_witness:
  "\<exists>ba1. writeAll (writeFint32 LITTLE_ENDIAN) [1, 0xdeadbeef] (newByteArray 1) = Inr ba1 \<and>
     bindE (setPosition 0 ba1) (readAll (readFint32 LITTLE_ENDIAN) 2) = Inr ([1, 0xdeadbeef], ba1)"
  using fixed_roundtrip [where ba = "newByteArray 1" and a = "[]" and b = "[]" and c = "[1, 0xdeadbeef]" and d = "[]"
      and host = LITTLE_ENDIAN]
  by (simp add: newByteArray_inv numeral_2_eq_2)



text \<open>
  The bytes of a value in the array depend on the array's byte order and not on the
  host's: whatever the host, \<^verbatim>\<open>writeFint32\<close> on a well-formed array stores the four bytes of the
  value, most significant first when the array is big-endian.
\<close>

theorem write_order_host_independent:
  assumes "ba_inv ba"
  shows "\<exists>ba'. writeFint32 host v ba = Inr ba' \<and>
    contents ba' = overwrite (contents ba) (m_position ba) (map Some
      (if isLittleEndian ba then [ucast v, ucast (drop_bit 8 v), ucast (drop_bit 16 v), ucast (drop_bit 24 v)]
       else [ucast (drop_bit 24 v), ucast (drop_bit 16 v), ucast (drop_bit 8 v), ucast v]))"
proof -
  have "to_mem (m_endian ba) 4 v =
    (if isLittleEndian ba then [ucast v, ucast (drop_bit 8 v), ucast (drop_bit 16 v), ucast (drop_bit 24 v)]
     else [ucast (drop_bit 24 v), ucast (drop_bit 16 v), ucast (drop_bit 8 v), ucast v])"
    by (cases "m_endian ba") (simp_all add: to_mem_def isLittleEndian_def numeral_eq_Suc)
  then show ?thesis
    using fint32.wr_enc [OF assms, of host v] by (auto dest: wroteD(6))
qed

theorem write_order_host_independent_witness:
  "\<exists>ba'. writeFint32 LITTLE_ENDIAN 0x01020304 (newByteArray 8) = Inr ba' \<and>
     contents ba' = map Some [1, 2, 3, 4]"
proof -
  have bytes: "(258::u8) = 2" "(66051::u8) = 3" "(16909060::u8) = 4" by simp_all
  show ?thesis
    using write_order_host_independent [where ba = "newByteArray 8" and host = LITTLE_ENDIAN and v = "0x01020304"]
    by (simp add: newByteArray_inv isLittleEndian_def contents_def overwrite_def bytes)
qed

text \<open>
  A typed read whose last byte is not the last of its node stores past the end of its
  destination, so only base sizes that divide every field end are safe to read from.
\<close>

theorem readFixed_overruns:
  assumes "ba_inv ba" "0 < n" "m_position ba + n \<le> m_size ba"
    and "(m_position ba + n) mod m_baseSize ba \<noteq> 0"
  shows "(readFixed n host ba :: ('a::len word \<times> bytearray) res) = Inl BufferOverrun"
  by (simp add: readFixed_def readInto_overrun [OF assms])

theorem readFixed_overruns_witness:
  "(readFixed 2 LITTLE_ENDIAN sampleArray :: (16 word \<times> bytearray) res) = Inl BufferOverrun"
  by (rule readFixed_overruns [OF sampleArray_inv]) (simp_all add: sampleArray_def newByteArray_def)

text \<open>
  \<^verbatim>\<open>readInt64\<close> keeps only 32 bits of the code it reads: whatever the array holds, a value
  it returns lies between \<open>-2^31\<close> and \<open>2^31 - 1\<close>, so it does not read back a larger 64-bit value
  that \<^verbatim>\<open>writeInt64\<close> wrote.
\<close>

theorem readInt64_range:
  assumes "readInt64 host ba = Inr (v, ba')"
  shows "- (2 ^ 31) \<le> sint v \<and> sint v < 2 ^ 31"
proof -
  obtain x :: u32 where v: "v = DecodeZigzag64 (ucast x)"
    using assms by (auto simp: readInt64_def err_simps)
  have "unat (ucast x :: u64) < 2 ^ 32"
    by transfer (use take_bit_int_less_exp [of 32] in \<open>simp add: nat_less_iff take_bit_take_bit\<close>)
  then show ?thesis unfolding v by (rule DecodeZigzag64_small)
qed


theorem readInt64_range_witness:
  "\<exists>v ba'. readInt64 LITTLE_ENDIAN (newByteArray 1\<lparr>m_size := 1, m_nodes := [[Some 5]]\<rparr>) = Inr (v, ba') \<and>
     v = - 3 \<and> - (2 ^ 31) \<le> sint v"
proof -
  have *: "readInt64 LITTLE_ENDIAN (newByteArray 1\<lparr>m_size := 1, m_nodes := [[Some 5]]\<rparr>) =
      Inr (- 3, newByteArray 1\<lparr>m_size := 1, m_nodes := [[Some 5]], m_position := 1, m_cur := None\<rparr>)"
    by code_simp
  show ?thesis using * readInt64_range [OF *] by blast
qed

end
