(* ===== verification/ByteArrayIo.thy ===== *)
theory ByteArrayIo
  imports ByteArrayCodec
begin

text \<open>
  The scatter/gather views and the file operations of \<^verbatim>\<open>ByteArray\<close>: \<^verbatim>\<open>getReadBuffers\<close>,
  \<^verbatim>\<open>getWriteBuffers\<close>, \<^verbatim>\<open>writeToFile\<close> and \<^verbatim>\<open>readFromFile\<close>.  An \<^verbatim>\<open>iovec\<close> is a range of one node.
\<close>

section \<open>I/O vectors\<close>

record iovec =
  iov_node :: nat
  iov_off :: nat
  iov_len :: nat

text \<open>The loop the three functions share, from node \<open>cur\<close> with \<open>ncap\<close> bytes left in it.\<close>

function iov_loop :: "nat \<Rightarrow> nat \<Rightarrow> nat \<Rightarrow> nat \<Rightarrow> bytearray \<Rightarrow> iovec list res" where
  "iov_loop len npos ncap cur ba =
     (if len = 0 then Inr []
      else if ncap \<ge> len then Inr [\<lparr>iov_node = cur, iov_off = npos, iov_len = len\<rparr>]
      else case node_next ba cur of
        None \<Rightarrow> Inl NullDeref
      | Some cur' \<Rightarrow>
          bindE (iov_loop (len - ncap) 0 (node_size ba cur') cur' ba) (\<lambda>iovs.
            Inr (\<lparr>iov_node = cur, iov_off = npos, iov_len = ncap\<rparr> # iovs)))"
  by pat_completeness auto
termination
  by (relation "measure (\<lambda>(len, npos, ncap, cur, ba). length (m_nodes ba) - cur)")
    (auto simp: node_next_def split: if_splits)

declare iov_loop.simps [simp del]

definition getReadBuffers :: "iovec list \<Rightarrow> nat \<Rightarrow> bytearray \<Rightarrow> (nat \<times> iovec list) res" where
  "getReadBuffers buffers len ba =
     (let len' = (if len > getReadSize ba then getReadSize ba else len)
      in if len' = 0 then Inr (0, buffers)
         else if m_baseSize ba = 0 then Inl DivByZero
         else let npos = m_position ba mod m_baseSize ba
              in case m_cur ba of
                   None \<Rightarrow> Inl NullDeref
                 | Some c \<Rightarrow> bindE (iov_loop len' npos (sub64 (node_size ba c) npos) c ba) (\<lambda>iovs.
                     Inr (len', buffers @ iovs)))"

text \<open>With an explicit position; the length is still limited by what is left after \<^verbatim>\<open>m_position\<close>.\<close>

fun seekNode :: "nat \<Rightarrow> nat option \<Rightarrow> bytearray \<Rightarrow> (nat option) res" where
  "seekNode 0 cur ba = Inr cur"
| "seekNode (Suc count) None ba = Inl NullDeref"
| "seekNode (Suc count) (Some c) ba = seekNode count (node_next ba c) ba"

definition getReadBuffersAt :: "iovec list \<Rightarrow> nat \<Rightarrow> nat \<Rightarrow> bytearray \<Rightarrow> (nat \<times> iovec list) res" where
  "getReadBuffersAt buffers len position ba =
     (let len' = (if len > getReadSize ba then getReadSize ba else len)
      in if len' = 0 then Inr (0, buffers)
         else if m_baseSize ba = 0 then Inl DivByZero
         else let npos = position mod m_baseSize ba
              in bindE (seekNode (position div m_baseSize ba) (Some 0) ba) (\<lambda>cur.
                   case cur of
                     None \<Rightarrow> Inl NullDeref
                   | Some c \<Rightarrow> bindE (iov_loop len' npos (sub64 (node_size ba c) npos) c ba) (\<lambda>iovs.
                       Inr (len', buffers @ iovs))))"

definition getWriteBuffers :: "iovec list \<Rightarrow> nat \<Rightarrow> bytearray \<Rightarrow> (nat \<times> iovec list \<times> bytearray) res" where
  "getWriteBuffers buffers len ba =
     (if len = 0 then Inr (0, buffers, ba)
      else if m_baseSize ba = 0 then Inl DivByZero
      else let ba1 = addCapacity len ba;
               npos = m_position ba1 mod m_baseSize ba1
           in case m_cur ba1 of
                None \<Rightarrow> Inl NullDeref
              | Some c \<Rightarrow> bindE (iov_loop len npos (sub64 (node_size ba1 c) npos) c ba1) (\<lambda>iovs.
                  Inr (len, buffers @ iovs, ba1)))"

section \<open>Files\<close>

text \<open>
  \<^verbatim>\<open>writeToFile\<close>: \<open>pos\<close> and \<open>read_size\<close> are the local variables of the loop.  A negative length
  for \<^verbatim>\<open>ofs.write\<close> is an access outside the node.
\<close>

function writeToFile_loop :: "nat \<Rightarrow> nat \<Rightarrow> nat option \<Rightarrow> bytearray \<Rightarrow> cell list res" where
  "writeToFile_loop read_size pos cur ba =
     (if read_size = 0 then Inr []
      else case cur of
        None \<Rightarrow> Inl NullDeref
      | Some c \<Rightarrow>
          let diff = pos mod m_baseSize ba;
              m = (if read_size > m_baseSize ba then m_baseSize ba else read_size)
          in if m < diff then Inl OutOfBounds
             else bindE (node_read c diff (m - diff) ba) (\<lambda>bs.
                    bindE (writeToFile_loop (read_size - (m - diff)) (pos + (m - diff)) (node_next ba c) ba)
                      (\<lambda>rest. Inr (bs @ rest))))"
  by pat_completeness auto
termination
  by (relation "measure (\<lambda>(read_size, pos, cur, ba). case cur of None \<Rightarrow> 0 | Some c \<Rightarrow> Suc (length (m_nodes ba) - c))")
    (auto simp: node_next_def node_read_def split: if_splits)

declare writeToFile_loop.simps [simp del]

text \<open>\<open>can_open\<close> tells whether the file could be opened; the result is what is written to it.\<close>

definition writeToFile :: "bool \<Rightarrow> bytearray \<Rightarrow> (bool \<times> cell list) res" where
  "writeToFile can_open ba =
     (if \<not> can_open then Inr (False, [])
      else if m_baseSize ba = 0 \<and> getReadSize ba > 0 then Inl DivByZero
      else bindE (writeToFile_loop (getReadSize ba) (m_position ba) (m_cur ba) ba) (\<lambda>out. Inr (True, out)))"

text \<open>
  \<^verbatim>\<open>readFromFile\<close>: \<open>base\<close> is \<^verbatim>\<open>m_baseSize\<close>, the size of the staging buffer; a read that comes
  short sets the end-of-file flag.  (With a base size of 0 the loop of the source never ends;
  the model reports \<open>DivByZero\<close> there.)
\<close>

function readFromFile_loop :: "nat \<Rightarrow> u8 list \<Rightarrow> bytearray \<Rightarrow> bytearray res" where
  "readFromFile_loop base content ba =
     (if base = 0 then Inl DivByZero
      else bindE (ba_write (take base content) ba) (\<lambda>ba'.
             if length content < base then Inr ba'
             else readFromFile_loop base (drop base content) ba'))"
  by pat_completeness auto
termination
  by (relation "measure (\<lambda>(base, content, ba). length content)") auto

declare readFromFile_loop.simps [simp del]

definition readFromFile :: "u8 list option \<Rightarrow> bytearray \<Rightarrow> (bool \<times> bytearray) res" where
  "readFromFile file ba =
     (case file of
        None \<Rightarrow> Inr (False, ba)
      | Some content \<Rightarrow> bindE (readFromFile_loop (m_baseSize ba) content ba) (\<lambda>ba'. Inr (True, ba')))"

section \<open>What the vectors cover\<close>

definition iov_addrs :: "nat \<Rightarrow> iovec \<Rightarrow> nat list" where
  "iov_addrs b v = [iov_node v * b + iov_off v ..< iov_node v * b + iov_off v + iov_len v]"

definition iov_ok :: "bytearray \<Rightarrow> iovec \<Rightarrow> bool" where
  "iov_ok ba v \<longleftrightarrow> iov_node v < length (m_nodes ba) \<and> 0 < iov_len v \<and>
     iov_off v + iov_len v \<le> node_size ba (iov_node v)"

lemma iov_loop_spec:
  assumes "ba_shape ba" "c < length (m_nodes ba)" "npos < m_baseSize ba" "ncap = m_baseSize ba - npos"
    "c * m_baseSize ba + npos + n \<le> m_capacity ba"
  shows "\<exists>iovs. iov_loop n npos ncap c ba = Inr iovs \<and> (\<forall>v\<in>set iovs. iov_ok ba v) \<and>
    concat (map (iov_addrs (m_baseSize ba)) iovs) = [c * m_baseSize ba + npos ..< c * m_baseSize ba + npos + n]"
  using assms
proof (induction n arbitrary: npos ncap c rule: less_induct)
  case (less n)
  let ?b = "m_baseSize ba"
  note prems = less.prems
  show ?case
  proof (cases "n \<le> ncap")
    case True
    then show ?thesis using prems by (auto simp: iov_loop.simps [of n] iov_addrs_def iov_ok_def)
  next
    case False
    have lt: "c * ?b + ?b < m_capacity ba" using False prems by simp
    note nx = next_node [OF prems(1,2) lt]
    obtain iovs where iovs: "iov_loop (n - ncap) 0 ?b (Suc c) ba = Inr iovs" "\<forall>v\<in>set iovs. iov_ok ba v"
      "concat (map (iov_addrs ?b) iovs) = [Suc c * ?b + 0 ..< Suc c * ?b + 0 + (n - ncap)]"
    proof -
      have "n - ncap < n" using prems(3,4) False by linarith
      moreover have "(0::nat) < ?b" "?b = ?b - 0" "Suc c * ?b + 0 + (n - ncap) \<le> m_capacity ba"
        using prems False by auto
      ultimately show ?thesis using less.IH [OF _ prems(1) nx(2), of "n - ncap" 0 ?b] that by blast
    qed
    have split: "[a ..< a + n] = [a ..< a + ncap] @ [a + ncap ..< a + n]" for a
      using False upt_add_eq_append [of a "a + ncap" "n - ncap"] by (simp add: add.assoc)
    have "Suc c * ?b + 0 = c * ?b + npos + ncap" "Suc c * ?b + 0 + (n - ncap) = c * ?b + npos + n"
      using prems False by auto
    then have "concat (map (iov_addrs ?b) iovs) = [c * ?b + npos + ncap ..< c * ?b + npos + n]"
      using iovs(3) by (simp only:)
    then have whole: "[c * ?b + npos ..< c * ?b + npos + n] =
        iov_addrs ?b \<lparr>iov_node = c, iov_off = npos, iov_len = ncap\<rparr> @ concat (map (iov_addrs ?b) iovs)"
      using split [of "c * ?b + npos"] by (simp add: iov_addrs_def)
    have "iov_loop n npos ncap c ba = Inr (\<lparr>iov_node = c, iov_off = npos, iov_len = ncap\<rparr> # iovs)"
      using iovs(1) nx False prems(1) by (simp add: iov_loop.simps [of n])
    then show ?thesis using iovs(2) prems whole by (auto simp: iov_ok_def)
  qed
qed


section \<open>Moving bytes through the vectors\<close>

text \<open>
  What \<^verbatim>\<open>sendmsg\<close> and \<^verbatim>\<open>recvmsg\<close> do with a list of vectors: the bytes they cover in order, and
  the store of a byte string into them, as far as it reaches.
\<close>

definition gather :: "bytearray \<Rightarrow> iovec list \<Rightarrow> cell list" where
  "gather ba iovs = concat (map (\<lambda>v. slice (m_nodes ba ! iov_node v) (iov_off v) (iov_len v)) iovs)"

fun scatter :: "iovec list \<Rightarrow> cell list \<Rightarrow> bytearray \<Rightarrow> bytearray" where
  "scatter [] bs ba = ba"
| "scatter (v # iovs) bs ba = scatter iovs (drop (iov_len v) bs)
     (ba\<lparr>m_nodes := (m_nodes ba)[iov_node v :=
        overwrite (m_nodes ba ! iov_node v) (iov_off v) (take (iov_len v) bs)]\<rparr>)"

lemma iov_addrs_split:
  assumes "0 < iov_len v" "iov_addrs b v @ rest = [p ..< p + n]"
  shows "iov_node v * b + iov_off v = p" "iov_len v \<le> n" "rest = [p + iov_len v ..< p + iov_len v + (n - iov_len v)]"
proof -
  let ?a = "iov_node v * b + iov_off v" and ?l = "iov_len v"
  have len: "?l + length rest = n"
    using arg_cong [OF assms(2), of length] by (simp add: iov_addrs_def)
  then show le: "?l \<le> n" by simp
  have "[p ..< p + n] = [p ..< p + ?l] @ [p + ?l ..< p + n]"
    using le upt_add_eq_append [of p "p + ?l" "n - ?l"] by (simp add: add.assoc)
  then have "iov_addrs b v = [p ..< p + ?l] \<and> rest = [p + ?l ..< p + n]"
    using assms(2) by (simp add: iov_addrs_def)
  then have eq: "[?a ..< ?a + ?l] = [p ..< p + ?l]" and rest: "rest = [p + ?l ..< p + n]"
    by (simp_all add: iov_addrs_def)
  show "rest = [p + ?l ..< p + ?l + (n - ?l)]" using rest le by simp
  show "?a = p"
    using arg_cong [OF eq, of hd] assms(1) by (simp add: hd_upt)
qed

lemma gather_flat:
  assumes "ba_shape ba" "\<forall>v\<in>set iovs. iov_ok ba v"
    "concat (map (iov_addrs (m_baseSize ba)) iovs) = [p ..< p + n]"
  shows "gather ba iovs = slice (flat ba) p n"
  using assms(2,3)
proof (induction iovs arbitrary: p n)
  case Nil
  then have "[p ..< p + n] = []" by simp
  then show ?case by (auto simp: gather_def)
next
  case (Cons v iovs)
  have ok: "iov_ok ba v" using Cons.prems(1) by simp
  have "0 < iov_len v" using ok by (simp add: iov_ok_def)
  note sp = iov_addrs_split [OF this, of "m_baseSize ba", OF Cons.prems(2) [simplified]]
  have "gather ba iovs = slice (flat ba) (p + iov_len v) (n - iov_len v)"
    using Cons.prems(1) sp(3) by (intro Cons.IH) auto
  moreover have "slice (m_nodes ba ! iov_node v) (iov_off v) (iov_len v) = slice (flat ba) p (iov_len v)"
    using node_read_shape [OF assms(1), of "iov_node v" "iov_off v" "iov_len v"] ok assms(1) sp(1)
    by (auto simp: iov_ok_def node_read_def)
  ultimately show ?case using sp(2) by (simp add: gather_def slice_append)
qed

lemma scatter_flat:
  assumes "ba_shape ba" "\<forall>v\<in>set iovs. iov_ok ba v"
    "concat (map (iov_addrs (m_baseSize ba)) iovs) = [p ..< p + n]" "length bs \<le> n" "p + n \<le> m_capacity ba"
  shows "\<exists>ns. scatter iovs bs ba = ba\<lparr>m_nodes := ns\<rparr> \<and> ba_shape (ba\<lparr>m_nodes := ns\<rparr>) \<and>
    concat ns = overwrite (flat ba) p bs"
  using assms
proof (induction iovs arbitrary: p n bs ba)
  case Nil
  then have "[p ..< p + n] = []" by simp
  then show ?case using Nil by (auto simp: flat_def intro!: exI [of _ "m_nodes ba"])
next
  case (Cons v iovs)
  let ?l = "iov_len v"
  let ?ns = "(m_nodes ba)[iov_node v := overwrite (m_nodes ba ! iov_node v) (iov_off v) (take ?l bs)]"
  let ?ba = "ba\<lparr>m_nodes := ?ns\<rparr>"
  have ok: "iov_ok ba v" using Cons.prems(2) by simp
  have "0 < iov_len v" using ok by (simp add: iov_ok_def)
  note sp = iov_addrs_split [OF this, of "m_baseSize ba", OF Cons.prems(3) [simplified]]
  have fit: "iov_node v < length (m_nodes ba)" "iov_off v + length (take ?l bs) \<le> m_baseSize ba"
    using ok Cons.prems(1) by (auto simp: iov_ok_def)
  have sh: "ba_shape ?ba" and fl: "flat ?ba = overwrite (flat ba) p (take ?l bs)"
    using shape_update [OF Cons.prems(1) fit] sp(1) by (simp_all add: flat_def)
  have ok': "\<forall>w\<in>set iovs. iov_ok ?ba w"
    using Cons.prems(1,2) sh by (auto simp: iov_ok_def)
  obtain ns where ns: "scatter iovs (drop ?l bs) ?ba = ?ba\<lparr>m_nodes := ns\<rparr>"
    "ba_shape (?ba\<lparr>m_nodes := ns\<rparr>)" "concat ns = overwrite (flat ?ba) (p + ?l) (drop ?l bs)"
  proof -
    have "length (drop ?l bs) \<le> n - ?l" "p + ?l + (n - ?l) \<le> m_capacity ?ba"
      using sp(2) Cons.prems(4,5) by auto
    moreover have "concat (map (iov_addrs (m_baseSize ?ba)) iovs) = [p + ?l ..< p + ?l + (n - ?l)]"
      using sp(3) by simp
    ultimately show ?thesis using Cons.IH [OF sh] ok' that by blast
  qed
  have "concat ns = overwrite (flat ba) p bs"
  proof (cases "length bs \<le> ?l")
    case True
    then show ?thesis using ns(3) fl by simp
  next
    case False
    then show ?thesis
      using ns(3) fl overwrite_overwrite [of p "take ?l bs" "drop ?l bs" "flat ba"]
        Cons.prems(4,5) length_flat [OF Cons.prems(1)] by (simp add: min_absorb2)
  qed
  then show ?case using ns(1,2) by auto
qed


lemma getReadBuffers_spec:
  assumes "ba_inv ba" and k_def: "k = min n (m_size ba - m_position ba)"
  shows "\<exists>iovs. getReadBuffers buffers n ba = Inr (k, buffers @ iovs) \<and> (\<forall>v\<in>set iovs. iov_ok ba v) \<and>
    concat (map (iov_addrs (m_baseSize ba)) iovs) = [m_position ba ..< m_position ba + k]"
proof -
  have rs: "getReadSize ba = m_size ba - m_position ba" and b: "0 < m_baseSize ba" and sh: "ba_shape ba"
    using assms(1) ba_inv_base [OF assms(1)] by (simp_all add: getReadSize_def ba_inv_def)
  show ?thesis
  proof (cases "k = 0")
    case True
    then show ?thesis using rs by (auto simp: getReadBuffers_def k_def min_def Let_def)
  next
    case False
    have lt: "m_position ba < m_capacity ba" and le: "m_position ba + k \<le> m_capacity ba"
      using False assms(1) by (auto simp: k_def ba_inv_def)
    note cur = ba_inv_cur [OF assms(1) lt]
    have kk: "(if n > getReadSize ba then getReadSize ba else n) = k" by (simp add: rs k_def min_def)
    show ?thesis
      using iov_loop_spec [OF sh cur(2,4) refl, of k] le cur b sh False
      unfolding getReadBuffers_def Let_def kk by auto
  qed
qed

lemma getWriteBuffers_spec:
  assumes "ba_inv ba"
  shows "\<exists>iovs ba1. getWriteBuffers buffers n ba = Inr (n, buffers @ iovs, ba1) \<and> ba_inv ba1 \<and>
    contents ba1 = contents ba \<and> m_position ba1 = m_position ba \<and> m_size ba1 = m_size ba \<and>
    m_endian ba1 = m_endian ba \<and> m_baseSize ba1 = m_baseSize ba \<and>
    m_position ba + n \<le> m_capacity ba1 \<and> (\<forall>v\<in>set iovs. iov_ok ba1 v) \<and>
    concat (map (iov_addrs (m_baseSize ba)) iovs) = [m_position ba ..< m_position ba + n]"
proof (cases "n = 0")
  case True
  then show ?thesis using assms by (auto simp: getWriteBuffers_def ba_inv_def)
next
  case False
  define ba1 where "ba1 = addCapacity n ba"
  note grow = addCapacity_spec [OF assms, of n, folded ba1_def]
  obtain k where k: "flat ba1 = flat ba @ replicate k None" using grow(3) by blast
  have lt: "m_position ba1 < m_capacity ba1" using grow(2,4) False by simp
  note cur = ba_inv_cur [OF grow(1) lt]
  have sh: "ba_shape ba1" using grow(1) by (simp add: ba_inv_def)
  have "contents ba1 = contents ba"
    using k grow(5) assms by (simp add: contents_def ba_inv_def length_flat)
  moreover obtain iovs where "iov_loop n (m_position ba1 mod m_baseSize ba1)
      (m_baseSize ba1 - m_position ba1 mod m_baseSize ba1) (m_position ba1 div m_baseSize ba1) ba1 = Inr iovs"
    "\<forall>v\<in>set iovs. iov_ok ba1 v"
    "concat (map (iov_addrs (m_baseSize ba1)) iovs) = [m_position ba1 ..< m_position ba1 + n]"
    using iov_loop_spec [OF sh cur(2,4) refl, of n] grow(2,4) cur(3) by auto
  ultimately show ?thesis
    using grow False cur sh ba_inv_base [OF assms]
    by (auto simp: getWriteBuffers_def Let_def simp flip: ba1_def)
qed

text \<open>
  Storing \<open>bs\<close> into the vectors \<open>getWriteBuffers\<close> hands out and moving the position past them is
  a write of \<open>bs\<close>, and the vectors \<open>getReadBuffers\<close> hands out hold the readable bytes.
\<close>

lemma scatter_wrote:
  assumes "ba_inv ba" "getWriteBuffers [] n ba = Inr (n', iovs, ba1)" "length bs \<le> n"
  shows "\<exists>ba2. setPosition (m_position ba1 + length bs) (scatter iovs (map Some bs) ba1) = Inr ba2 \<and>
    wrote ba bs ba2"
proof -
  let ?p = "m_position ba" and ?bs = "map Some bs"
  from getWriteBuffers_spec [OF assms(1), of "[]" n] assms(2)
  have ba1: "ba_inv ba1" "contents ba1 = contents ba" "m_position ba1 = ?p" "m_size ba1 = m_size ba"
    "m_endian ba1 = m_endian ba" "m_baseSize ba1 = m_baseSize ba" "?p + n \<le> m_capacity ba1"
    and iovs: "\<forall>v\<in>set iovs. iov_ok ba1 v" "concat (map (iov_addrs (m_baseSize ba1)) iovs) = [?p ..< ?p + n]"
    by auto
  have sh: "ba_shape ba1" using ba1(1) by (simp add: ba_inv_def)
  obtain ns where ns: "scatter iovs ?bs ba1 = ba1\<lparr>m_nodes := ns\<rparr>" "ba_shape (ba1\<lparr>m_nodes := ns\<rparr>)"
    "concat ns = overwrite (flat ba1) ?p ?bs"
    using scatter_flat [OF sh iovs, of ?bs] assms(3) ba1(7) by auto
  have inv: "ba_inv (ba1\<lparr>m_nodes := ns\<rparr>)" using ba1(1) ns(2) by (simp add: ba_inv_def cur_at_def)
  define ba2 where "ba2 = ba1\<lparr>m_nodes := ns, m_position := ?p + length bs,
    m_size := max (m_size ba) (?p + length bs), m_cur := cur_at ba1 (?p + length bs)\<rparr>"
  have res: "setPosition (m_position ba1 + length bs) (scatter iovs ?bs ba1) = Inr ba2"
    using ns(1) setPosition_eq [OF inv, of "?p + length bs"] ba1(3,4,7) assms(3)
    by (simp add: ba2_def cur_at_def)
  have "contents ba2 = overwrite (contents ba1) ?p ?bs"
    using take_overwrite_extend [of ?p "m_size ba1" "flat ba1" ?bs "[]"] ns(3) ba1(1,3,4)
    by (simp add: contents_def ba2_def flat_def ba_inv_def) (simp add: length_flat flip: flat_def)
  moreover have "ba_inv ba2" by (rule setPosition_inv [OF inv]) (use res ns(1) in simp)
  ultimately have "wrote ba bs ba2" using ba1 by (simp add: wrote_def ba2_def)
  then show ?thesis using res by blast
qed

lemma gather_contents:
  assumes "ba_inv ba" "getReadBuffers [] n ba = Inr (k, iovs)"
  shows "gather ba iovs = slice (contents ba) (m_position ba) k \<and> k = min n (m_size ba - m_position ba)"
proof -
  have sh: "ba_shape ba" using assms(1) by (simp add: ba_inv_def)
  from getReadBuffers_spec [OF assms(1) refl, of "[]" n] assms(2)
  have k: "k = min n (m_size ba - m_position ba)" and iovs: "\<forall>v\<in>set iovs. iov_ok ba v"
    "concat (map (iov_addrs (m_baseSize ba)) iovs) = [m_position ba ..< m_position ba + k]"
    by auto
  have "slice (flat ba) (m_position ba) k = slice (contents ba) (m_position ba) k"
    using k by (simp add: slice_def contents_def drop_take min_def)
  then show ?thesis using gather_flat [OF sh iovs] k by simp
qed


section \<open>File contents\<close>

lemma readFromFile_loop_wrote:
  assumes "ba_inv ba" "0 < b"
  shows "\<exists>ba'. readFromFile_loop b content ba = Inr ba' \<and> wrote ba content ba'"
  using assms
proof (induction "length content" arbitrary: content ba rule: less_induct)
  case less
  obtain ba1 where ba1: "ba_write (take b content) ba = Inr ba1" "wrote ba (take b content) ba1"
    using ba_write_wrote [OF less.prems(1)] by blast
  show ?case
  proof (cases "length content < b")
    case True
    then show ?thesis using ba1 less.prems(2) by (simp add: readFromFile_loop.simps)
  next
    case False
    then have "length (drop b content) < length content" using less.prems(2) by simp
    then obtain ba2 where "readFromFile_loop b (drop b content) ba1 = Inr ba2" "wrote ba1 (drop b content) ba2"
      using less.hyps less.prems(2) wroteD(1) [OF ba1(2)] by blast
    then show ?thesis
      using ba1 False less.prems wrote_append [OF less.prems(1) ba1(2), of "drop b content"]
      by (simp add: readFromFile_loop.simps [of b content])
  qed
qed

lemma writeToFile_loop_aligned:
  assumes "ba_shape ba" "c * m_baseSize ba + n \<le> m_capacity ba"
    "cur = cur_at ba (c * m_baseSize ba)"
  shows "writeToFile_loop n (c * m_baseSize ba) cur ba = Inr (slice (flat ba) (c * m_baseSize ba) n)"
  using assms(2,3)
proof (induction n arbitrary: c cur rule: less_induct)
  case (less n)
  let ?b = "m_baseSize ba"
  have b: "0 < ?b" using assms(1) by (simp add: ba_shape_def)
  show ?case
  proof (cases "n = 0")
    case True
    then show ?thesis by (simp add: writeToFile_loop.simps)
  next
    case False
    then have lt: "c * ?b < m_capacity ba" using less.prems(1) by simp
    then have cur: "cur = Some c" and c: "c < length (m_nodes ba)"
      using less.prems(2) b div_less_nodes [OF assms(1) lt] by (simp_all add: cur_at_def)
    define m where "m = min n ?b"
    have mm: "(if n > ?b then ?b else n) = m" by (simp add: m_def min_def)
    have rd: "node_read c 0 m ba = Inr (slice (flat ba) (c * ?b) m)"
      using node_read_shape [OF assms(1) c, of 0 m] by (simp add: m_def)
    have step: "writeToFile_loop n (c * ?b) cur ba =
        bindE (writeToFile_loop (n - m) (c * ?b + m) (node_next ba c) ba)
          (\<lambda>rest. Inr (slice (flat ba) (c * ?b) m @ rest))"
      using False rd cur unfolding writeToFile_loop.simps [of n] Let_def mm by simp
    show ?thesis
    proof (cases "n \<le> ?b")
      case True
      then show ?thesis using step by (simp add: m_def min_absorb1 writeToFile_loop.simps)
    next
      case n: False
      have "writeToFile_loop (n - ?b) (Suc c * ?b) (node_next ba c) ba =
          Inr (slice (flat ba) (Suc c * ?b) (n - ?b))"
        using n b False less.prems(1) cur_at_step [OF assms(1) c, of ?b]
        by (intro less.IH) (auto simp: add.commute)
      then show ?thesis
        using step n slice_append [of "flat ba" "c * ?b" ?b "n - ?b"]
        by (simp add: m_def min_absorb2 add.commute)
    qed
  qed
qed

lemma writeToFile_aligned:
  assumes "ba_inv ba" "m_position ba mod m_baseSize ba = 0"
  shows "writeToFile True ba = Inr (True, drop (m_position ba) (contents ba))"
proof -
  let ?c = "m_position ba div m_baseSize ba" and ?n = "m_size ba - m_position ba"
  have p: "?c * m_baseSize ba = m_position ba" using assms(2) by auto
  have inv: "ba_shape ba" "m_position ba \<le> m_size ba" "m_size ba \<le> m_capacity ba"
    "m_cur ba = cur_at ba (m_position ba)" "0 < m_baseSize ba"
    using assms(1) ba_inv_base by (auto simp: ba_inv_def)
  have "writeToFile_loop ?n (m_position ba) (m_cur ba) ba = Inr (slice (flat ba) (m_position ba) ?n)"
    using writeToFile_loop_aligned [OF inv(1), of ?c ?n "m_cur ba"] inv p by simp
  moreover have "slice (flat ba) (m_position ba) ?n = drop (m_position ba) (contents ba)"
    by (simp add: slice_def contents_def drop_take)
  ultimately show ?thesis using inv by (simp add: writeToFile_def getReadSize_def)
qed

lemma file_roundtrip:
  assumes "ba_inv ba" "m_position ba mod m_baseSize ba = 0" "readFromFile (Some content) ba = Inr (True, ba1)"
  shows "wrote ba content ba1"
    and "setPosition (m_position ba) ba1 = Inr (rewind (m_position ba) ba1)"
    and "\<exists>rest. writeToFile True (rewind (m_position ba) ba1) = Inr (True, map Some content @ rest)"
proof -
  have b: "0 < m_baseSize ba" by (rule ba_inv_base [OF assms(1)])
  show w: "wrote ba content ba1"
    using readFromFile_loop_wrote [OF assms(1) b, of content] assms(3) by (auto simp: readFromFile_def)
  note wd = wroteD [OF w]
  have le: "m_position ba \<le> m_size ba1" using wd(5) by simp
  then show "setPosition (m_position ba) ba1 = Inr (rewind (m_position ba) ba1)"
    by (rule setPosition_rewind [OF wd(1)])
  have "m_position ba \<le> length (contents ba)"
    using assms(1) by (simp add: length_contents) (simp add: ba_inv_def)
  then have "drop (m_position ba) (contents ba1) =
      map Some content @ drop (m_position ba + length content) (contents ba)"
    using wd(6) by (simp add: overwrite_def)
  then show "\<exists>rest. writeToFile True (rewind (m_position ba) ba1) = Inr (True, map Some content @ rest)"
    using writeToFile_aligned [of "rewind (m_position ba) ba1"] wd(1,4) le assms(2) by simp
qed


section \<open>Properties\<close>

text \<open>
  C17: \<^verbatim>\<open>getWriteBuffers\<close> on a well-formed array always hands out vectors, all within
  their nodes; when a system call then stores up to \<open>n\<close> bytes through them and the position is
  moved past those bytes, the array is the one a \<^verbatim>\<open>write\<close> of the bytes gives: same contents, position,
  size and byte order.
\<close>

theorem write_buffers_are_a_write:
  assumes "ba_inv ba" "length bs \<le> n"
  shows "\<exists>iovs ba1 ba2 ba3. getWriteBuffers [] n ba = Inr (n, iovs, ba1) \<and> (\<forall>v\<in>set iovs. iov_ok ba1 v) \<and>
    setPosition (m_position ba1 + length bs) (scatter iovs (map Some bs) ba1) = Inr ba2 \<and>
    ba_write bs ba = Inr ba3 \<and> ba_inv ba2 \<and> contents ba2 = contents ba3 \<and>
    m_position ba2 = m_position ba3 \<and> m_size ba2 = m_size ba3 \<and> m_endian ba2 = m_endian ba3"
proof -
  obtain iovs ba1 where g: "getWriteBuffers [] n ba = Inr (n, iovs, ba1)" "\<forall>v\<in>set iovs. iov_ok ba1 v"
    using getWriteBuffers_spec [OF assms(1), of "[]" n] by auto
  then show ?thesis
    using scatter_wrote [OF assms(1) g(1) assms(2)] ba_write_wrote [OF assms(1), of bs]
    by (auto simp: wrote_def)
qed

theorem write_buffers_are_a_write_witness:
  "\<exists>iovs ba1. getWriteBuffers [] 6 sampleArray = Inr (6, iovs, ba1) \<and> (\<forall>v\<in>set iovs. iov_ok ba1 v)"
  using write_buffers_are_a_write [OF sampleArray_inv, of "[1, 2, 3]" 6] by auto

text \<open>
  \<^verbatim>\<open>getReadBuffers\<close> never fails on a well-formed array and never changes it: it limits
  the length to what is readable, and the bytes its vectors cover are, in order, the next bytes of the
  contents.
\<close>

theorem read_buffers_cover:
  assumes "ba_inv ba"
  shows "\<exists>iovs. getReadBuffers [] n ba = Inr (min n (m_size ba - m_position ba), iovs) \<and>
    (\<forall>v\<in>set iovs. iov_ok ba v) \<and>
    gather ba iovs = slice (contents ba) (m_position ba) (min n (m_size ba - m_position ba))"
proof -
  obtain iovs where g: "getReadBuffers [] n ba = Inr (min n (m_size ba - m_position ba), iovs)"
    "\<forall>v\<in>set iovs. iov_ok ba v"
    using getReadBuffers_spec [OF assms refl, of "[]" n] by auto
  then show ?thesis using gather_contents [OF assms g(1)] by blast
qed

theorem read_buffers_cover_witness:
  "\<exists>iovs. getReadBuffers [] 100 sampleArray = Inr (8, iovs) \<and>
     gather sampleArray iovs = map Some [10, 11, 12, 13, 14, 15, 16, 17]"
  using read_buffers_cover [OF sampleArray_inv, of 100]
  by (auto simp: sampleArray_def contents_def slice_def flat_def)

text \<open>
  Loading a file into a well-formed array writes its bytes at the position, whatever
  their number; setting the position back to where they start and saving writes a file that begins
  with the same bytes, provided that position is a node boundary.
\<close>

theorem load_save_roundtrip:
  assumes "ba_inv ba" "m_position ba mod m_baseSize ba = 0"
  shows "\<exists>ba1 ba2 rest. readFromFile (Some content) ba = Inr (True, ba1) \<and>
    contents ba1 = overwrite (contents ba) (m_position ba) (map Some content) \<and>
    setPosition (m_position ba) ba1 = Inr ba2 \<and>
    writeToFile True ba2 = Inr (True, map Some content @ rest)"
proof -
  obtain ba1 where ba1: "readFromFile (Some content) ba = Inr (True, ba1)"
    using readFromFile_loop_wrote [OF assms(1) ba_inv_base [OF assms(1)], of content]
    by (auto simp: readFromFile_def)
  then show ?thesis using file_roundtrip [OF assms ba1] wroteD(6) by blast
qed

theorem load_save_roundtrip_witness:
  "\<exists>ba1 ba2 rest. readFromFile (Some [7, 8, 9]) (newByteArray 2) = Inr (True, ba1) \<and>
     setPosition 0 ba1 = Inr ba2 \<and> writeToFile True ba2 = Inr (True, map Some [7, 8, 9] @ rest)"
  using load_save_roundtrip [of "newByteArray 2" "[7, 8, 9]"] by (auto simp: newByteArray_inv)

end
