(* ===== verification/Stream.thy ===== *)
theory Stream
  imports ByteArrayIo
begin

text \<open>
  Streams (\<^verbatim>\<open>saturn/stream.cc\<close>): reading and writing a fixed number of bytes with a \<^verbatim>\<open>read\<close> and a \<^verbatim>\<open>write\<close> that
  may do less than asked.  A reader gives the value returned, the bytes stored and the next state; a
  writer is given the bytes.  The locales \<open>byte_source\<close> and \<open>byte_sink\<close> are the contract of the virtual
  functions; their lemmas are what the fixed-size operations make of it.
\<close>

type_synonym ('b, 's) reader = "nat \<Rightarrow> 's \<Rightarrow> int \<times> 'b list \<times> 's"
type_synonym ('b, 's) writer = "'b list \<Rightarrow> 's \<Rightarrow> int \<times> 's"
type_synonym 's ba_reader = "nat \<Rightarrow> bytearray \<times> 's \<Rightarrow> (int \<times> bytearray \<times> 's) res"

section \<open>The fixed-size operations\<close>

definition to_s32 :: "nat \<Rightarrow> int" where
  "to_s32 n = sint (of_nat n :: u32)"

definition to_s64 :: "nat \<Rightarrow> int" where
  "to_s64 n = sint (of_nat n :: u64)"

text \<open>The loops; \<open>Some\<close> is the value with which a failing call ends them.\<close>

function readFix :: "('b, 's) reader \<Rightarrow> int \<Rightarrow> 's \<Rightarrow> int option \<times> 'b list \<times> 's" where
  "readFix rd left s =
     (if left > 0 then
        (case rd (nat left) s of
           (len, bs, s1) \<Rightarrow>
             if len \<le> 0 then (Some len, [], s1)
             else case readFix rd (left - len) s1 of (r, bs', s2) \<Rightarrow> (r, bs @ bs', s2))
      else (None, [], s))"
  by pat_completeness auto
termination by (relation "measure (\<lambda>(rd, left, s). nat left)") auto

function writeFix :: "('b, 's) writer \<Rightarrow> 'b list \<Rightarrow> nat \<Rightarrow> int \<Rightarrow> 's \<Rightarrow> int option \<times> 's" where
  "writeFix wr buffer off left s =
     (if left > 0 then
        (case wr (take (nat left) (drop off buffer)) s of
           (len, s1) \<Rightarrow> if len \<le> 0 then (Some len, s1) else writeFix wr buffer (off + nat len) (left - len) s1)
      else (None, s))"
  by pat_completeness auto
termination by (relation "measure (\<lambda>(wr, buffer, off, left, s). nat left)") auto

function baFix :: "'s ba_reader \<Rightarrow> int \<Rightarrow> bytearray \<times> 's \<Rightarrow> (int option \<times> bytearray \<times> 's) res" where
  "baFix rd left st =
     (if left > 0 then
        bindE (rd (nat left) st) (\<lambda>(len, st1).
          if len \<le> 0 then Inr (Some len, st1) else baFix rd (left - len) st1)
      else Inr (None, st))"
  by pat_completeness auto
termination by (relation "measure (\<lambda>(rd, left, st). nat left)") auto

declare readFix.simps [simp del] writeFix.simps [simp del] baFix.simps [simp del]

definition readFixSize :: "('b, 's) reader \<Rightarrow> nat \<Rightarrow> 's \<Rightarrow> int \<times> 'b list \<times> 's" where
  "readFixSize rd n s =
     (case readFix rd (to_s64 n) s of
        (Some len, bs, s') \<Rightarrow> (len, bs, s') | (None, bs, s') \<Rightarrow> (to_s32 n, bs, s'))"

definition writeFixSize :: "('b, 's) writer \<Rightarrow> 'b list \<Rightarrow> 's \<Rightarrow> int \<times> 's" where
  "writeFixSize wr buffer s =
     (case writeFix wr buffer 0 (to_s64 (length buffer)) s of
        (Some len, s') \<Rightarrow> (len, s') | (None, s') \<Rightarrow> (to_s32 (length buffer), s'))"

text \<open>The two operations on a \<^verbatim>\<open>ByteArray\<close>, which differ in the virtual function they call.\<close>

definition baFixSize :: "'s ba_reader \<Rightarrow> nat \<Rightarrow> bytearray \<times> 's \<Rightarrow> (int \<times> bytearray \<times> 's) res" where
  "baFixSize rd n st =
     bindE (baFix rd (to_s64 n) st) (\<lambda>(r, st').
       Inr (case r of Some len \<Rightarrow> len | None \<Rightarrow> to_s32 n, st'))"

section \<open>The contract of \<open>read\<close>\<close>

text \<open>\<open>input s\<close> are the bytes the stream is going to deliver, in order.\<close>

locale byte_source =
  fixes rd :: "('b, 's) reader" and input :: "'s \<Rightarrow> 'b list"
  assumes rd_some: "rd n s = (len, bs, s') \<Longrightarrow> 0 < len \<Longrightarrow> length bs = nat len \<and> length bs \<le> n \<and> input s = bs @ input s'"
    and rd_none: "rd n s = (len, bs, s') \<Longrightarrow> len \<le> 0 \<Longrightarrow> input s' = input s"
begin

lemma readFix_spec:
  "readFix rd left s = (r, bs, s') \<Longrightarrow> input s = bs @ input s' \<and>
     (case r of None \<Rightarrow> length bs = nat left | Some len \<Rightarrow> len \<le> 0 \<and> length bs < nat left)"
proof (induction "nat left" arbitrary: left s r bs s' rule: less_induct)
  case less
  show ?case
  proof (cases "left > 0")
    case False
    then show ?thesis using less.prems by (auto simp: readFix.simps [of rd left])
  next
    case True
    obtain len b1 s1 where rd1: "rd (nat left) s = (len, b1, s1)" by (metis prod_cases3)
    show ?thesis
    proof (cases "len \<le> 0")
      case nonpos: True
      then have "r = Some len" "bs = []" "s' = s1"
        using less.prems True rd1 by (auto simp: readFix.simps [of rd left])
      then show ?thesis using rd_none [OF rd1 nonpos] nonpos True by simp
    next
      case False
      obtain b2 where b2: "readFix rd (left - len) s1 = (r, b2, s')" "bs = b1 @ b2"
        using less.prems True rd1 False by (auto simp: readFix.simps [of rd left] split: prod.splits)
      have "nat (left - len) < nat left" using False True by simp
      from less.hyps [OF this b2(1)] rd_some [OF rd1] False b2(2) True
      show ?thesis by (auto split: option.splits)
    qed
  qed
qed

end

section \<open>The contract of \<open>write\<close>\<close>

text \<open>\<open>sent s\<close> are the bytes the stream has taken so far.\<close>

locale byte_sink =
  fixes wr :: "('b, 's) writer" and sent :: "'s \<Rightarrow> 'b list"
  assumes wr_some: "wr bs s = (len, s') \<Longrightarrow> 0 < len \<Longrightarrow> nat len \<le> length bs \<and> sent s' = sent s @ take (nat len) bs"
    and wr_none: "wr bs s = (len, s') \<Longrightarrow> len \<le> 0 \<Longrightarrow> sent s' = sent s"
begin

lemma writeFix_spec:
  assumes "writeFix wr buffer off left s = (r, s')" "off + nat left = length buffer"
  shows "\<exists>k. k \<le> nat left \<and> sent s' = sent s @ take k (drop off buffer) \<and>
     (case r of None \<Rightarrow> k = nat left | Some len \<Rightarrow> len \<le> 0 \<and> k < nat left)"
  using assms
proof (induction "nat left" arbitrary: left off s r s' rule: less_induct)
  case less
  show ?case
  proof (cases "left > 0")
    case False
    then show ?thesis using less.prems by (auto simp: writeFix.simps [of wr buffer off left])
  next
    case True
    let ?b = "take (nat left) (drop off buffer)"
    have lb: "length ?b = nat left" using less.prems(2) by simp
    obtain len s1 where w: "wr ?b s = (len, s1)" by fastforce
    show ?thesis
    proof (cases "len \<le> 0")
      case nonpos: True
      then have "r = Some len" "s' = s1" using less.prems True w by (auto simp: writeFix.simps [of wr buffer off left])
      then show ?thesis using wr_none [OF w nonpos] nonpos True by (intro exI [of _ 0]) simp
    next
      case False
      have rest: "writeFix wr buffer (off + nat len) (left - len) s1 = (r, s')"
        using less.prems(1) True w False by (simp add: writeFix.simps [of wr buffer off left])
      have len: "nat len \<le> nat left" "sent s1 = sent s @ take (nat len) (drop off buffer)"
        using wr_some [OF w] False lb by (auto simp: min_absorb1)
      have "nat (left - len) < nat left" "off + nat len + nat (left - len) = length buffer"
        using False True less.prems(2) len(1) by auto
      from less.hyps [OF this(1) rest this(2)] obtain k where k: "k \<le> nat (left - len)"
        "sent s' = sent s1 @ take k (drop (off + nat len) buffer)"
        "case r of None \<Rightarrow> k = nat (left - len) | Some e \<Rightarrow> e \<le> 0 \<and> k < nat (left - len)" by blast
      have "sent s' = sent s @ take (nat len + k) (drop off buffer)"
        using k(2) len(2) by (simp add: take_add add.commute [of off])
      then show ?thesis using k(1,3) len(1) False
        by (intro exI [of _ "nat len + k"]) (auto split: option.splits)
    qed
  qed
qed

end

lemma to_s64_small: "n < 2 ^ 63 \<Longrightarrow> to_s64 n = int n"
  by (simp add: to_s64_def signed_of_nat signed_take_bit_int_eq_self)

lemma to_s32_small: "n < 2 ^ 31 \<Longrightarrow> to_s32 n = int n"
  by (simp add: to_s32_def signed_of_nat signed_take_bit_int_eq_self)

section \<open>The contracts on byte arrays\<close>

text \<open>Reading into an array writes the bytes delivered at its position.\<close>

locale ba_source =
  fixes rd :: "'s ba_reader" and input :: "'s \<Rightarrow> u8 list"
  assumes rd_ba: "ba_inv ba \<Longrightarrow> \<exists>len ba' s' bs. rd n (ba, s) = Inr (len, ba', s') \<and> wrote ba bs ba' \<and>
    input s = bs @ input s' \<and> length bs = nat len \<and> length bs \<le> n"
begin

lemma baFix_reads:
  assumes "ba_inv ba"
  shows "\<exists>r ba' s' bs. baFix rd left (ba, s) = Inr (r, ba', s') \<and> wrote ba bs ba' \<and> input s = bs @ input s' \<and>
    (case r of None \<Rightarrow> length bs = nat left | Some len \<Rightarrow> len \<le> 0 \<and> length bs < nat left)"
  using assms
proof (induction "nat left" arbitrary: left ba s rule: less_induct)
  case less
  have nil: "wrote ba [] ba" using less.prems by (simp add: wrote_def ba_inv_def)
  show ?case
  proof (cases "left > 0")
    case False
    then show ?thesis using nil by (auto simp: baFix.simps [of rd left])
  next
    case True
    obtain len ba1 s1 b1 where rd: "rd (nat left) (ba, s) = Inr (len, ba1, s1)" "wrote ba b1 ba1"
      "input s = b1 @ input s1" "length b1 = nat len" "length b1 \<le> nat left"
      using rd_ba [OF less.prems] by blast
    show ?thesis
    proof (cases "len \<le> 0")
      case True
      then show ?thesis using rd \<open>left > 0\<close>
        by (intro exI [of _ "Some len"] exI [of _ ba1] exI [of _ s1] exI [of _ "[]"]) (simp add: baFix.simps [of rd left])
    next
      case False
      have lt: "nat (left - len) < nat left" using False True by simp
      obtain r ba2 s2 b2 where fix2: "baFix rd (left - len) (ba1, s1) = Inr (r, ba2, s2)" "wrote ba1 b2 ba2"
        "input s1 = b2 @ input s2"
        "case r of None \<Rightarrow> length b2 = nat (left - len) | Some e \<Rightarrow> e \<le> 0 \<and> length b2 < nat (left - len)"
        using less.hyps [OF lt wroteD(1) [OF rd(2)], of s1] by blast
      have "baFix rd left (ba, s) = Inr (r, ba2, s2)" using rd(1) fix2(1) True False by (simp add: baFix.simps [of rd left])
      moreover have "wrote ba (b1 @ b2) ba2" by (rule wrote_append [OF less.prems rd(2) fix2(2)])
      ultimately show ?thesis using rd fix2 False
        by (intro exI [of _ r] exI [of _ ba2] exI [of _ s2] exI [of _ "b1 @ b2"]) (auto split: option.splits)
    qed
  qed
qed

end

text \<open>Writing from an array takes its readable bytes and moves its position past them.\<close>

definition took :: "bytearray \<Rightarrow> nat \<Rightarrow> bytearray \<Rightarrow> bool" where
  "took ba k ba' \<longleftrightarrow> ba_inv ba' \<and> contents ba' = contents ba \<and> m_size ba' = m_size ba \<and> m_position ba' = m_position ba + k"

lemma took_add: "took ba j ba1 \<Longrightarrow> took ba1 k ba2 \<Longrightarrow> took ba (j + k) ba2"
  by (simp add: took_def)

lemma slice_add: "slice xs p j @ slice xs (p + j) k = slice xs p (j + k)"
  by (simp add: slice_def take_add add.commute [of p])

locale ba_sink =
  fixes wr :: "'s ba_reader" and sent :: "'s \<Rightarrow> cell list"
  assumes wr_ba: "ba_inv ba \<Longrightarrow> \<exists>len ba' s'. wr n (ba, s) = Inr (len, ba', s') \<and> took ba (nat len) ba' \<and>
    sent s' = sent s @ slice (contents ba) (m_position ba) (nat len) \<and> nat len \<le> n"
begin

lemma baFix_writes:
  assumes "ba_inv ba"
  shows "\<exists>r ba' s' k. baFix wr left (ba, s) = Inr (r, ba', s') \<and> took ba k ba' \<and>
    sent s' = sent s @ slice (contents ba) (m_position ba) k \<and>
    (case r of None \<Rightarrow> k = nat left | Some len \<Rightarrow> len \<le> 0 \<and> k < nat left)"
  using assms
proof (induction "nat left" arbitrary: left ba s rule: less_induct)
  case less
  have nil: "took ba 0 ba" using less.prems by (simp add: took_def)
  show ?case
  proof (cases "left > 0")
    case False
    then show ?thesis using nil by (auto simp: baFix.simps [of wr left] slice_def)
  next
    case True
    obtain len ba1 s1 where wr: "wr (nat left) (ba, s) = Inr (len, ba1, s1)" "took ba (nat len) ba1"
      "sent s1 = sent s @ slice (contents ba) (m_position ba) (nat len)" "nat len \<le> nat left"
      using wr_ba [OF less.prems] by blast
    show ?thesis
    proof (cases "len \<le> 0")
      case True
      then show ?thesis using wr \<open>left > 0\<close>
        by (intro exI [of _ "Some len"] exI [of _ ba1] exI [of _ s1] exI [of _ 0]) (simp add: baFix.simps [of wr left])
    next
      case False
      have lt: "nat (left - len) < nat left" using False True by simp
      have "ba_inv ba1" using wr(2) by (simp add: took_def)
      then obtain r ba2 s2 k where fix2: "baFix wr (left - len) (ba1, s1) = Inr (r, ba2, s2)" "took ba1 k ba2"
        "sent s2 = sent s1 @ slice (contents ba1) (m_position ba1) k"
        "case r of None \<Rightarrow> k = nat (left - len) | Some e \<Rightarrow> e \<le> 0 \<and> k < nat (left - len)"
        using less.hyps [OF lt, of ba1 s1] by blast
      have "sent s2 = sent s @ slice (contents ba) (m_position ba) (nat len + k)"
        using fix2(3) wr(2,3) slice_add [of "contents ba" "m_position ba" "nat len" k] by (simp add: took_def)
      moreover have "baFix wr left (ba, s) = Inr (r, ba2, s2)" using wr(1) fix2(1) True False by (simp add: baFix.simps [of wr left])
      ultimately show ?thesis using took_add [OF wr(2) fix2(2)] fix2(4) wr(4) False
        by (intro exI [of _ r] exI [of _ ba2] exI [of _ s2] exI [of _ "nat len + k"]) (auto split: option.splits)
    qed
  qed
qed

end

end
