(* ===== verification/Fiber.thy ===== *)
theory Fiber
  imports Prelude
begin

text \<open>
  Fibers (\<^verbatim>\<open>saturn/fiber.cc\<close>): the objects, the thread-local pointers \<^verbatim>\<open>t_fiber\<close>, \<^verbatim>\<open>t_threadFiber\<close> and
  \<^verbatim>\<open>t_scheduler_fiber\<close> (the latter is declared in \<^verbatim>\<open>scheduler.cc\<close>), and the state changes of every
  operation.  A \<^verbatim>\<open>swapcontext\<close> is the point where an operation ends and the fiber it switches to goes on:
  the fiber that runs on a thread is the one \<^verbatim>\<open>t_fiber\<close> points to.  What a callback does between
  two switches is given by its outcome.  \<open>tid\<close> is a thread, \<open>fid\<close> the address of a fiber.
\<close>

section \<open>State\<close>

type_synonym tid = nat
type_synonym fid = nat

text \<open>\<open>TERMD\<close> is the state \<^verbatim>\<open>TERM\<close>.\<close>

datatype fstate = INIT | HOLD | EXEC | TERMD | READY | EXCEPT

text \<open>The function a context starts in: none for a thread's own context.\<close>

datatype entry = NoEntry | MainFunc | CallerMainFunc

record 'cb fiber =
  fb_id :: u32
  fb_state :: fstate
  fb_stacksize :: u64
  fb_stack :: bool
  fb_cb :: "'cb option"
  fb_entry :: entry

record 'cb fworld =
  fibers :: "fid \<rightharpoonup> 'cb fiber"
  s_fiber_id :: u64
  s_fiber_count :: u64
  t_fiber :: "tid \<Rightarrow> fid option"
  t_threadFiber :: "tid \<Rightarrow> fid option"
  t_scheduler_fiber :: "tid \<Rightarrow> fid option"

definition newWorld :: "'cb fworld" where
  "newWorld = \<lparr>fibers = Map.empty, s_fiber_id = 1, s_fiber_count = 0, t_fiber = (\<lambda>_. None),
     t_threadFiber = (\<lambda>_. None), t_scheduler_fiber = (\<lambda>_. None)\<rparr>"

text \<open>A dereference: of a null pointer, or of a fiber that does not exist.\<close>

definition deref :: "fid option \<Rightarrow> 'cb fworld \<Rightarrow> (fid \<times> 'cb fiber) res" where
  "deref p w = (case p of None \<Rightarrow> Inl NullDeref
     | Some f \<Rightarrow> (case fibers w f of None \<Rightarrow> Inl NullDeref | Some fb \<Rightarrow> Inr (f, fb)))"

definition set_fiber :: "fid \<Rightarrow> 'cb fiber \<Rightarrow> 'cb fworld \<Rightarrow> 'cb fworld" where
  "set_fiber f fb w = w\<lparr>fibers := (fibers w)(f \<mapsto> fb)\<rparr>"

section \<open>Operations\<close>

definition SetThis :: "tid \<Rightarrow> fid option \<Rightarrow> 'cb fworld \<Rightarrow> 'cb fworld" where
  "SetThis t f w = w\<lparr>t_fiber := (t_fiber w)(t := f)\<rparr>"

definition GetMainFiber :: "tid \<Rightarrow> 'cb fworld \<Rightarrow> fid option" where
  "GetMainFiber t w = t_scheduler_fiber w t"

text \<open>The constructor of a thread's main fiber, at address \<open>a\<close>.\<close>

definition newMainFiber :: "tid \<Rightarrow> fid \<Rightarrow> 'cb fworld \<Rightarrow> 'cb fworld" where
  "newMainFiber t a w =
     (SetThis t (Some a) (set_fiber a \<lparr>fb_id = 0, fb_state = EXEC, fb_stacksize = 0, fb_stack = False,
        fb_cb = None, fb_entry = NoEntry\<rparr> w))\<lparr>s_fiber_count := s_fiber_count w + 1\<rparr>"

text \<open>
  The constructor with a callback.  It does not initialise \<^verbatim>\<open>m_state\<close>: \<open>junk\<close> is what the memory holds.
  \<open>dflt\<close> is the value of the configuration variable \<^verbatim>\<open>fiber.stack_size\<close>.
\<close>

definition newFiber :: "u32 \<Rightarrow> fid \<Rightarrow> fstate \<Rightarrow> 'cb option \<Rightarrow> u64 \<Rightarrow> bool \<Rightarrow> 'cb fworld \<Rightarrow> 'cb fworld" where
  "newFiber dflt a junk cb stacksize use_caller w =
     (set_fiber a \<lparr>fb_id = ucast (s_fiber_id w), fb_state = junk,
        fb_stacksize = (if stacksize \<noteq> 0 then stacksize else ucast dflt), fb_stack = True, fb_cb = cb,
        fb_entry = (if \<not> use_caller then MainFunc else CallerMainFunc)\<rparr> w)
     \<lparr>s_fiber_id := s_fiber_id w + 1, s_fiber_count := s_fiber_count w + 1\<rparr>"

definition ended :: "fstate \<Rightarrow> bool" where
  "ended s \<longleftrightarrow> s = TERMD \<or> s = EXCEPT \<or> s = INIT"

definition deleteFiber :: "tid \<Rightarrow> fid \<Rightarrow> 'cb fworld \<Rightarrow> 'cb fworld res" where
  "deleteFiber t a w =
     bindE (deref (Some a) w) (\<lambda>(_, fb).
       let w1 = w\<lparr>s_fiber_count := s_fiber_count w - 1\<rparr> in
       if fb_stack fb then
         bindE (assertE (ended (fb_state fb))) (\<lambda>_. Inr (w1\<lparr>fibers := (fibers w1)(a := None)\<rparr>))
       else
         bindE (assertE (fb_cb fb = None)) (\<lambda>_.
         bindE (assertE (fb_state fb = EXEC)) (\<lambda>_.
           let w2 = (if t_fiber w1 t = Some a then SetThis t None w1 else w1)
           in Inr (w2\<lparr>fibers := (fibers w2)(a := None)\<rparr>))))"

definition fiber_reset :: "fid \<Rightarrow> 'cb option \<Rightarrow> 'cb fworld \<Rightarrow> 'cb fworld res" where
  "fiber_reset a cb w =
     bindE (deref (Some a) w) (\<lambda>(_, fb).
     bindE (assertE (fb_stack fb)) (\<lambda>_.
     bindE (assertE (ended (fb_state fb))) (\<lambda>_.
       Inr (set_fiber a (fb\<lparr>fb_cb := cb, fb_entry := MainFunc, fb_state := INIT\<rparr>) w))))"

definition swapIn :: "tid \<Rightarrow> fid \<Rightarrow> 'cb fworld \<Rightarrow> 'cb fworld res" where
  "swapIn t a w =
     (let w1 = SetThis t (Some a) w in
      bindE (deref (Some a) w1) (\<lambda>(_, fb).
      bindE (assertE (fb_state fb \<noteq> EXEC)) (\<lambda>_.
        let w2 = set_fiber a (fb\<lparr>fb_state := EXEC\<rparr>) w1
        in bindE (deref (GetMainFiber t w2) w2) (\<lambda>_. Inr w2))))"

definition swapOut :: "tid \<Rightarrow> fid \<Rightarrow> 'cb fworld \<Rightarrow> 'cb fworld res" where
  "swapOut t a w =
     (let w1 = SetThis t (GetMainFiber t w) w
      in bindE (deref (GetMainFiber t w1) w1) (\<lambda>_. Inr w1))"

definition fiber_call :: "tid \<Rightarrow> fid \<Rightarrow> 'cb fworld \<Rightarrow> 'cb fworld res" where
  "fiber_call t a w =
     (let w1 = SetThis t (Some a) w in
      bindE (deref (Some a) w1) (\<lambda>(_, fb).
        let w2 = set_fiber a (fb\<lparr>fb_state := EXEC\<rparr>) w1
        in bindE (deref (t_threadFiber w2 t) w2) (\<lambda>_. Inr w2)))"

definition fiber_back :: "tid \<Rightarrow> fid \<Rightarrow> 'cb fworld \<Rightarrow> 'cb fworld res" where
  "fiber_back t a w =
     (let w1 = SetThis t (t_threadFiber w t) w
      in bindE (deref (t_threadFiber w1 t) w1) (\<lambda>_. Inr w1))"

text \<open>\<open>a\<close> is the address of the main fiber that is made when the thread has no fiber yet.\<close>

definition fiber_GetThis :: "tid \<Rightarrow> fid \<Rightarrow> 'cb fworld \<Rightarrow> (fid \<times> 'cb fworld) res" where
  "fiber_GetThis t a w =
     (case t_fiber w t of
        Some f \<Rightarrow> Inr (f, w)
      | None \<Rightarrow>
          let w1 = newMainFiber t a w
          in bindE (assertE (t_fiber w1 t = Some a)) (\<lambda>_.
               let w2 = w1\<lparr>t_threadFiber := (t_threadFiber w1)(t := Some a)\<rparr> in Inr (a, w2)))"

definition YieldTo :: "fstate \<Rightarrow> tid \<Rightarrow> fid \<Rightarrow> 'cb fworld \<Rightarrow> 'cb fworld res" where
  "YieldTo s t a w =
     bindE (fiber_GetThis t a w) (\<lambda>(cur, w1).
     bindE (deref (Some cur) w1) (\<lambda>(_, fb).
       swapOut t cur (set_fiber cur (fb\<lparr>fb_state := s\<rparr>) w1)))"

definition YieldToReady :: "tid \<Rightarrow> fid \<Rightarrow> 'cb fworld \<Rightarrow> 'cb fworld res" where
  "YieldToReady = YieldTo READY"

definition YieldToHold :: "tid \<Rightarrow> fid \<Rightarrow> 'cb fworld \<Rightarrow> 'cb fworld res" where
  "YieldToHold = YieldTo HOLD"

text \<open>
  The end of a callback: what \<^verbatim>\<open>MainFunc\<close> and \<^verbatim>\<open>CallerMainFunc\<close> do once it returned (\<open>threw\<close> is false) or
  threw.  Calling an empty function object throws \<^verbatim>\<open>std::bad_function_call\<close>.  A fiber that came back
  after that would run into the assertion after the last switch.
\<close>

definition fiber_done :: "bool \<Rightarrow> 'cb fiber \<Rightarrow> 'cb fiber" where
  "fiber_done threw fb =
     (if threw \<or> fb_cb fb = None then fb\<lparr>fb_state := EXCEPT\<rparr> else fb\<lparr>fb_cb := None, fb_state := TERMD\<rparr>)"

definition runMainFunc :: "tid \<Rightarrow> fid \<Rightarrow> bool \<Rightarrow> 'cb fworld \<Rightarrow> 'cb fworld res" where
  "runMainFunc t a threw w =
     bindE (fiber_GetThis t a w) (\<lambda>(cur, w1).
     bindE (deref (Some cur) w1) (\<lambda>(_, fb).
       swapOut t cur (set_fiber cur (fiber_done threw fb) w1)))"

definition runCallerMainFunc :: "tid \<Rightarrow> fid \<Rightarrow> bool \<Rightarrow> 'cb fworld \<Rightarrow> 'cb fworld res" where
  "runCallerMainFunc t a threw w =
     bindE (fiber_GetThis t a w) (\<lambda>(cur, w1).
     bindE (deref (Some cur) w1) (\<lambda>(_, fb).
       fiber_back t cur (set_fiber cur (fiber_done threw fb) w1)))"

definition GetFiberId :: "tid \<Rightarrow> 'cb fworld \<Rightarrow> u32 res" where
  "GetFiberId t w =
     (case t_fiber w t of
        Some f \<Rightarrow> bindE (deref (Some f) w) (\<lambda>(_, fb). Inr (fb_id fb))
      | None \<Rightarrow> Inr 0)"

section \<open>Facts about the operations\<close>

lemma deref_Some [simp]: "fibers w f = Some fb \<Longrightarrow> deref (Some f) w = Inr (f, fb)"
  by (simp add: deref_def)

lemma deref_None [simp]: "deref None w = Inl NullDeref"
  by (simp add: deref_def)

lemma set_fiber_simps [simp]:
  "fibers (set_fiber f fb w) = (fibers w)(f \<mapsto> fb)" "t_fiber (set_fiber f fb w) = t_fiber w"
  "t_scheduler_fiber (set_fiber f fb w) = t_scheduler_fiber w" "t_threadFiber (set_fiber f fb w) = t_threadFiber w"
  "s_fiber_count (set_fiber f fb w) = s_fiber_count w" "s_fiber_id (set_fiber f fb w) = s_fiber_id w"
  by (simp_all add: set_fiber_def)

lemma SetThis_simps [simp]:
  "fibers (SetThis t f w) = fibers w" "t_fiber (SetThis t f w) = (t_fiber w)(t := f)"
  "t_scheduler_fiber (SetThis t f w) = t_scheduler_fiber w" "t_threadFiber (SetThis t f w) = t_threadFiber w"
  "s_fiber_count (SetThis t f w) = s_fiber_count w" "s_fiber_id (SetThis t f w) = s_fiber_id w"
  by (simp_all add: SetThis_def)

lemma deref_Inr [err_simps]: "deref p w = Inr x \<longleftrightarrow> (\<exists>f fb. p = Some f \<and> fibers w f = Some fb \<and> x = (f, fb))"
  by (auto simp: deref_def split: option.splits)

lemma swapIn_eq:
  assumes "fibers w a = Some fb" "GetMainFiber t w = Some g" "g \<in> dom (fibers w)"
  shows "swapIn t a w =
    (if fb_state fb = EXEC then Inl AssertFail
     else Inr (set_fiber a (fb\<lparr>fb_state := EXEC\<rparr>) (SetThis t (Some a) w)))"
  using assms by (auto simp: swapIn_def Let_def GetMainFiber_def deref_def)

lemma swapOut_eq:
  assumes "GetMainFiber t w = Some g" "g \<in> dom (fibers w)"
  shows "swapOut t a w = Inr (SetThis t (Some g) w)"
  using assms by (auto simp: swapOut_def Let_def GetMainFiber_def deref_def)

end
