(* ===== verification/Scheduler.thy ===== *)
theory Scheduler
  imports Fiber "HOL-Library.Multiset"
begin

text \<open>
  The scheduler (\<^verbatim>\<open>saturn/scheduler.cc\<close>): the task list that worker threads share and the loop each of
  them runs.  The loop is cut where another thread can see a difference: taking a task
  (under the lock), switching to it, coming back from it, the decrement of the active count, and
  what is done with the fiber after that.  A task is a fiber or a callback, for one thread or for any.
\<close>

section \<open>State\<close>

record 'cb ftask =
  ft_fiber :: "fid option"
  ft_cb :: "'cb option"
  ft_thread :: int

record 'cb sched =
  m_fibers :: "'cb ftask list"
  m_name :: string
  m_threadIds :: "int list"
  m_threads :: "tid list"
  m_threadCount :: u64
  m_activeThreadCount :: u64
  m_idleThreadCount :: u64
  m_stopping :: bool
  m_autoStop :: bool
  m_rootThread :: int
  m_rootFiber :: "fid option"

text \<open>Where a thread is in \<^verbatim>\<open>Scheduler::run\<close>.\<close>

datatype 'cb pc =
    PTop
  | PGot "'cb ftask"
  | PFiber fid | PBackF fid | PPostF fid
  | PCb | PBackCb | PPostCb
  | PIdle | PBackIdle
  | PDone

record 'cb tstate =
  pc :: "'cb pc"
  cb_fiber :: "fid option"
  idle_fiber :: fid

record 'cb ssys =
  sch :: "'cb sched"
  wrld :: "'cb fworld"
  thr :: "tid \<rightharpoonup> 'cb tstate"

section \<open>The shared list\<close>

text \<open>\<^verbatim>\<open>scheduleNoLock\<close>: the Boolean is \<^verbatim>\<open>need_tickle\<close>.\<close>

definition scheduleNoLock :: "fid option \<Rightarrow> 'cb option \<Rightarrow> int \<Rightarrow> 'cb sched \<Rightarrow> bool \<times> 'cb sched" where
  "scheduleNoLock f cb thread s =
     (let need_tickle = (m_fibers s = []);
          ft = \<lparr>ft_fiber = f, ft_cb = cb, ft_thread = thread\<rparr>
      in (need_tickle, if ft_fiber ft \<noteq> None \<or> ft_cb ft \<noteq> None then s\<lparr>m_fibers := m_fibers s @ [ft]\<rparr> else s))"

text \<open>\<^verbatim>\<open>schedule(fc, thread)\<close>: the Boolean tells whether \<^verbatim>\<open>tickle\<close> is called.\<close>

definition schedule :: "fid option \<Rightarrow> 'cb option \<Rightarrow> int \<Rightarrow> 'cb sched \<Rightarrow> bool \<times> 'cb sched" where
  "schedule f cb thread s = scheduleNoLock f cb thread s"

text \<open>\<^verbatim>\<open>schedule(begin, end)\<close> for callbacks, as \<^verbatim>\<open>IOManager\<close> uses it: every entry is swapped out of the range.\<close>

fun scheduleRange :: "'cb option list \<Rightarrow> 'cb sched \<Rightarrow> bool \<times> 'cb sched" where
  "scheduleRange [] s = (False, s)"
| "scheduleRange (cb # cbs) s =
     (let (t1, s1) = scheduleNoLock None cb (- 1) s; (t2, s2) = scheduleRange cbs s1 in (t1 \<or> t2, s2))"

definition fiber_is :: "'cb fworld \<Rightarrow> fid \<Rightarrow> fstate \<Rightarrow> bool" where
  "fiber_is w f st \<longleftrightarrow> map_option fb_state (fibers w f) = Some st"

text \<open>
  The search of \<^verbatim>\<open>run\<close> for a task of thread \<open>t\<close>: \<^verbatim>\<open>tickle_me\<close>, the task found and the list without it.
\<close>

fun pick :: "int \<Rightarrow> 'cb fworld \<Rightarrow> 'cb ftask list \<Rightarrow> (bool \<times> 'cb ftask option \<times> 'cb ftask list) res" where
  "pick t w [] = Inr (False, None, [])"
| "pick t w (it # rest) =
     (if ft_thread it \<noteq> - 1 \<and> ft_thread it \<noteq> t then
        bindE (pick t w rest) (\<lambda>(_, p, q). Inr (True, p, it # q))
      else if ft_fiber it = None \<and> ft_cb it = None then Inl AssertFail
      else if (case ft_fiber it of None \<Rightarrow> False | Some f \<Rightarrow> fiber_is w f EXEC) then
        bindE (pick t w rest) (\<lambda>(tk, p, q). Inr (tk, p, it # q))
      else Inr (rest \<noteq> [], Some it, rest))"

definition stopping :: "'cb sched \<Rightarrow> bool" where
  "stopping s \<longleftrightarrow> m_autoStop s \<and> m_stopping s \<and> m_fibers s = [] \<and> m_activeThreadCount s = 0"

section \<open>The steps of the worker loop\<close>

definition set_pc :: "tid \<Rightarrow> 'cb pc \<Rightarrow> 'cb ssys \<Rightarrow> 'cb ssys" where
  "set_pc t p s = (case thr s t of None \<Rightarrow> s | Some ts \<Rightarrow> s\<lparr>thr := (thr s)(t \<mapsto> ts\<lparr>pc := p\<rparr>)\<rparr>)"

definition dead :: "'cb fworld \<Rightarrow> fid \<Rightarrow> bool" where
  "dead w f \<longleftrightarrow> fiber_is w f TERMD \<or> fiber_is w f EXCEPT"

text \<open>
  The beginning of \<^verbatim>\<open>run\<close>: \<open>main\<close> is the address of a main fiber made for the thread, \<open>idle\<close> the
  address of the idle fiber, \<open>junk\<close> its uninitialised state, \<open>cbi\<close> the bound \<^verbatim>\<open>idle\<close> function.
\<close>

definition run_begin :: "u32 \<Rightarrow> tid \<Rightarrow> fid \<Rightarrow> fid \<Rightarrow> fstate \<Rightarrow> 'cb \<Rightarrow> 'cb ssys \<Rightarrow> 'cb ssys res" where
  "run_begin dflt t main idle junk cbi s =
     bindE (if int t \<noteq> m_rootThread (sch s) then
              bindE (fiber_GetThis t main (wrld s)) (\<lambda>(f, w).
                Inr (w\<lparr>t_scheduler_fiber := (t_scheduler_fiber w)(t := Some f)\<rparr>))
            else Inr (wrld s)) (\<lambda>w1.
       Inr (s\<lparr>wrld := newFiber dflt idle junk (Some cbi) 0 False w1,
              thr := (thr s)(t \<mapsto> \<lparr>pc = PTop, cb_fiber = None, idle_fiber = idle\<rparr>)\<rparr>))"

text \<open>The locked part of one round, and the idle branch when no task was found.\<close>

definition run_pick :: "tid \<Rightarrow> 'cb ssys \<Rightarrow> 'cb ssys res" where
  "run_pick t s =
     (case thr s t of None \<Rightarrow> Inl NullDeref | Some ts \<Rightarrow>
      bindE (pick (int t) (wrld s) (m_fibers (sch s))) (\<lambda>(tickle_me, p, q).
        case p of
          Some ft \<Rightarrow> Inr (set_pc t (PGot ft) (s\<lparr>sch := (sch s)\<lparr>m_fibers := q,
                       m_activeThreadCount := m_activeThreadCount (sch s) + 1\<rparr>\<rparr>))
        | None \<Rightarrow>
            if fiber_is (wrld s) (idle_fiber ts) TERMD then Inr (set_pc t PDone s)
            else bindE (swapIn t (idle_fiber ts) (wrld s)) (\<lambda>w.
                   Inr (set_pc t PIdle (s\<lparr>wrld := w, sch := (sch s)\<lparr>m_idleThreadCount := m_idleThreadCount (sch s) + 1\<rparr>\<rparr>)))))"

text \<open>What is done with a task; \<open>a\<close> and \<open>junk\<close> are the address and state of a new callback fiber.\<close>

definition run_dispatch :: "u32 \<Rightarrow> tid \<Rightarrow> fid \<Rightarrow> fstate \<Rightarrow> 'cb ftask \<Rightarrow> 'cb ssys \<Rightarrow> 'cb ssys res" where
  "run_dispatch dflt t a junk ft s =
     (case thr s t of None \<Rightarrow> Inl NullDeref | Some ts \<Rightarrow>
      case (case ft_fiber ft of None \<Rightarrow> None | Some f \<Rightarrow> if dead (wrld s) f then None else Some f) of
        Some f \<Rightarrow> bindE (swapIn t f (wrld s)) (\<lambda>w. Inr (set_pc t (PFiber f) (s\<lparr>wrld := w\<rparr>)))
      | None \<Rightarrow>
          if ft_cb ft \<noteq> None then
            (case cb_fiber ts of
               Some c \<Rightarrow>
                 bindE (fiber_reset c (ft_cb ft) (wrld s)) (\<lambda>w.
                 bindE (swapIn t c w) (\<lambda>w'. Inr (set_pc t PCb (s\<lparr>wrld := w'\<rparr>))))
             | None \<Rightarrow>
                 bindE (swapIn t a (newFiber dflt a junk (ft_cb ft) 0 False (wrld s))) (\<lambda>w.
                   Inr (s\<lparr>wrld := w, thr := (thr s)(t \<mapsto> ts\<lparr>cb_fiber := Some a, pc := PCb\<rparr>)\<rparr>)))
          else Inr (set_pc t PTop (s\<lparr>sch := (sch s)\<lparr>m_activeThreadCount := m_activeThreadCount (sch s) - 1\<rparr>\<rparr>)))"

text \<open>A fiber that runs on \<open>t\<close> switches back to the loop, by yielding or by ending.\<close>

datatype leave = LReady | LHold | LDone | LThrow

definition leave_fiber :: "leave \<Rightarrow> tid \<Rightarrow> fid \<Rightarrow> 'cb fworld \<Rightarrow> 'cb fworld res" where
  "leave_fiber l t a w =
     (case l of LReady \<Rightarrow> YieldToReady t a w | LHold \<Rightarrow> YieldToHold t a w
      | LDone \<Rightarrow> runMainFunc t a False w | LThrow \<Rightarrow> runMainFunc t a True w)"

definition run_leave :: "leave \<Rightarrow> tid \<Rightarrow> 'cb ssys \<Rightarrow> 'cb ssys res" where
  "run_leave l t s =
     (case thr s t of None \<Rightarrow> Inl NullDeref | Some ts \<Rightarrow>
      bindE (leave_fiber l t 0 (wrld s)) (\<lambda>w.
        case pc ts of
          PFiber f \<Rightarrow> Inr (set_pc t (PBackF f) (s\<lparr>wrld := w\<rparr>))
        | PCb \<Rightarrow> Inr (set_pc t PBackCb (s\<lparr>wrld := w\<rparr>))
        | PIdle \<Rightarrow> Inr (set_pc t PBackIdle (s\<lparr>wrld := w\<rparr>))
        | _ \<Rightarrow> Inl NullDeref))"

text \<open>\<^verbatim>\<open>--m_activeThreadCount\<close> or \<^verbatim>\<open>--m_idleThreadCount\<close>, and for the idle fiber the state change after it.\<close>

definition hold_unless_dead :: "fid \<Rightarrow> 'cb fworld \<Rightarrow> 'cb fworld" where
  "hold_unless_dead f w = (case fibers w f of None \<Rightarrow> w
     | Some fb \<Rightarrow> if dead w f then w else set_fiber f (fb\<lparr>fb_state := HOLD\<rparr>) w)"

definition run_count :: "tid \<Rightarrow> 'cb ssys \<Rightarrow> 'cb ssys res" where
  "run_count t s =
     (case thr s t of None \<Rightarrow> Inl NullDeref | Some ts \<Rightarrow>
      let dec = s\<lparr>sch := (sch s)\<lparr>m_activeThreadCount := m_activeThreadCount (sch s) - 1\<rparr>\<rparr> in
      case pc ts of
        PBackF f \<Rightarrow> Inr (set_pc t (PPostF f) dec)
      | PBackCb \<Rightarrow> Inr (set_pc t PPostCb dec)
      | PBackIdle \<Rightarrow> Inr (set_pc t PTop (s\<lparr>sch := (sch s)\<lparr>m_idleThreadCount := m_idleThreadCount (sch s) - 1\<rparr>,
                                wrld := hold_unless_dead (idle_fiber ts) (wrld s)\<rparr>))
      | _ \<Rightarrow> Inl NullDeref)"

text \<open>What becomes of the fiber: rescheduled when it is ready, otherwise put on hold unless it ended.\<close>

definition run_post :: "tid \<Rightarrow> 'cb ssys \<Rightarrow> 'cb ssys res" where
  "run_post t s =
     (case thr s t of None \<Rightarrow> Inl NullDeref | Some ts \<Rightarrow>
      case pc ts of
        PPostF f \<Rightarrow>
          if fiber_is (wrld s) f READY
          then Inr (set_pc t PTop (s\<lparr>sch := snd (schedule (Some f) None (- 1) (sch s))\<rparr>))
          else Inr (set_pc t PTop (s\<lparr>wrld := hold_unless_dead f (wrld s)\<rparr>))
      | PPostCb \<Rightarrow>
          (case cb_fiber ts of None \<Rightarrow> Inl NullDeref | Some c \<Rightarrow>
            if fiber_is (wrld s) c READY
            then Inr (s\<lparr>sch := snd (schedule (Some c) None (- 1) (sch s)),
                        thr := (thr s)(t \<mapsto> ts\<lparr>pc := PTop, cb_fiber := None\<rparr>)\<rparr>)
            else if dead (wrld s) c
            then bindE (fiber_reset c None (wrld s)) (\<lambda>w. Inr (set_pc t PTop (s\<lparr>wrld := w\<rparr>)))
            else Inr (s\<lparr>wrld := hold_unless_dead c (wrld s),
                        thr := (thr s)(t \<mapsto> ts\<lparr>pc := PTop, cb_fiber := None\<rparr>)\<rparr>))
      | _ \<Rightarrow> Inl NullDeref)"


section \<open>Construction, start, stop and migration\<close>

text \<open>
  The constructor on thread \<open>t\<close>: \<open>busy\<close> tells whether the thread has a scheduler already; \<open>main\<close> and
  \<open>root\<close> are the addresses of the fibers it may make, \<open>cbr\<close> is the bound \<^verbatim>\<open>run\<close>.
\<close>

definition newScheduler :: "u32 \<Rightarrow> tid \<Rightarrow> fid \<Rightarrow> fid \<Rightarrow> fstate \<Rightarrow> 'cb \<Rightarrow> bool \<Rightarrow> u64 \<Rightarrow> bool \<Rightarrow> string \<Rightarrow>
    'cb fworld \<Rightarrow> 'cb ssys res" where
  "newScheduler dflt t main root junk cbr busy threads use_caller name w =
     (let base = \<lparr>m_fibers = [], m_name = name, m_threadIds = [], m_threads = [], m_threadCount = threads,
        m_activeThreadCount = 0, m_idleThreadCount = 0, m_stopping = True, m_autoStop = False,
        m_rootThread = - 1, m_rootFiber = None\<rparr>
      in if use_caller then
           bindE (fiber_GetThis t main w) (\<lambda>(_, w1).
           bindE (assertE (\<not> busy)) (\<lambda>_.
             let w2 = newFiber dflt root junk (Some cbr) 0 True w1
             in Inr \<lparr>sch = base\<lparr>m_threadCount := threads - 1, m_rootFiber := Some root, m_rootThread := int t,
                       m_threadIds := [int t]\<rparr>,
                     wrld = w2\<lparr>t_scheduler_fiber := (t_scheduler_fiber w2)(t := Some root)\<rparr>, thr = Map.empty\<rparr>))
         else Inr \<lparr>sch = base, wrld = w, thr = Map.empty\<rparr>)"

text \<open>\<^verbatim>\<open>start\<close>: \<open>tids\<close> are the threads that are created, \<^verbatim>\<open>m_threadCount\<close> of them.\<close>

definition sched_start :: "tid list \<Rightarrow> 'cb sched \<Rightarrow> 'cb sched res" where
  "sched_start tids s =
     (if \<not> m_stopping s then Inr s
      else let s1 = s\<lparr>m_stopping := False\<rparr>
           in bindE (assertE (m_threads s1 = [])) (\<lambda>_.
                Inr (s1\<lparr>m_threads := tids, m_threadIds := m_threadIds s1 @ map int tids\<rparr>)))"

text \<open>
  \<^verbatim>\<open>stop\<close>: the number of \<^verbatim>\<open>tickle\<close> calls, whether the root fiber is called, and the threads joined.
  \<open>stp\<close> is the virtual function \<^verbatim>\<open>stopping\<close>, \<open>mine\<close> whether \<^verbatim>\<open>GetThis() == this\<close>.
\<close>

definition sched_stop :: "('cb sched \<Rightarrow> bool) \<Rightarrow> bool \<Rightarrow> 'cb fworld \<Rightarrow> 'cb sched \<Rightarrow>
    (nat \<times> bool \<times> tid list \<times> 'cb sched) res" where
  "sched_stop stp mine w s =
     (let s1 = s\<lparr>m_autoStop := True\<rparr>;
          root_idle = (case m_rootFiber s1 of None \<Rightarrow> False
            | Some r \<Rightarrow> m_threadCount s1 = 0 \<and> (fiber_is w r TERMD \<or> fiber_is w r INIT));
          s2 = (if root_idle then s1\<lparr>m_stopping := True\<rparr> else s1)
      in if root_idle \<and> stp s2 then Inr (0, False, [], s2)
         else bindE (assertE (if m_rootThread s2 \<noteq> - 1 then mine else \<not> mine)) (\<lambda>_.
           let s3 = s2\<lparr>m_stopping := True\<rparr>;
               tickles = unat (m_threadCount s3) + (if m_rootFiber s3 \<noteq> None then 1 else 0);
               call = (m_rootFiber s3 \<noteq> None \<and> \<not> stp s3)
           in Inr (tickles, call, m_threads s3, s3\<lparr>m_threads := []\<rparr>)))"

text \<open>
  \<^verbatim>\<open>switchTo\<close> on thread \<open>t\<close>: \<open>cur\<close> is \<^verbatim>\<open>Scheduler::GetThis()\<close> compared with this scheduler, \<open>None\<close> when null.
  The Boolean of the result tells whether the fiber was handed over.
\<close>

definition switchTo :: "tid \<Rightarrow> fid \<Rightarrow> int \<Rightarrow> bool option \<Rightarrow> 'cb ssys \<Rightarrow> (bool \<times> 'cb ssys) res" where
  "switchTo t a thread cur s =
     bindE (assertE (cur \<noteq> None)) (\<lambda>_.
       if cur = Some True \<and> (thread = - 1 \<or> thread = int t) then Inr (False, s)
       else bindE (fiber_GetThis t a (wrld s)) (\<lambda>(f, w1).
         let s1 = s\<lparr>wrld := w1, sch := snd (schedule (Some f) None thread (sch s))\<rparr>
         in bindE (YieldToHold t a (wrld s1)) (\<lambda>w2. Inr (True, s1\<lparr>wrld := w2\<rparr>))))"

section \<open>The invariant\<close>

text \<open>The fibers a thread holds in its local variables, and the fibers in the list.\<close>

definition hand :: "'cb pc \<Rightarrow> fid list" where
  "hand p = (case p of PGot ft \<Rightarrow> (case ft_fiber ft of None \<Rightarrow> [] | Some f \<Rightarrow> [f])
     | PFiber f \<Rightarrow> [f] | PBackF f \<Rightarrow> [f] | PPostF f \<Rightarrow> [f] | _ \<Rightarrow> [])"

definition own :: "'cb tstate \<Rightarrow> fid list" where
  "own ts = hand (pc ts) @ (case cb_fiber ts of None \<Rightarrow> [] | Some c \<Rightarrow> [c]) @ [idle_fiber ts]"

definition queued :: "'cb ftask list \<Rightarrow> fid list" where
  "queued q = List.map_filter ft_fiber q"

definition active :: "'cb tstate \<Rightarrow> bool" where
  "active ts = (case pc ts of PGot _ \<Rightarrow> True | PFiber _ \<Rightarrow> True | PBackF _ \<Rightarrow> True | PCb \<Rightarrow> True | PBackCb \<Rightarrow> True | _ \<Rightarrow> False)"

definition idling :: "'cb tstate \<Rightarrow> bool" where
  "idling ts = (case pc ts of PIdle \<Rightarrow> True | PBackIdle \<Rightarrow> True | _ \<Rightarrow> False)"

text \<open>What a thread relies on for the fibers it holds.\<close>

definition runnable :: "'cb fworld \<Rightarrow> fid \<Rightarrow> bool" where
  "runnable w f \<longleftrightarrow> (\<exists>fb. fibers w f = Some fb \<and> fb_state fb \<noteq> EXEC)"

definition running :: "'cb fworld \<Rightarrow> fid \<Rightarrow> bool" where
  "running w f \<longleftrightarrow> (\<exists>fb. fibers w f = Some fb \<and> fb_state fb = EXEC)"

definition reusable :: "'cb fworld \<Rightarrow> fid \<Rightarrow> bool" where
  "reusable w f \<longleftrightarrow> (\<exists>fb. fibers w f = Some fb \<and> fb_stack fb \<and> ended (fb_state fb))"

definition task_ok :: "'cb fworld \<Rightarrow> 'cb ftask \<Rightarrow> bool" where
  "task_ok w ft \<longleftrightarrow> (case ft_fiber ft of None \<Rightarrow> ft_cb ft \<noteq> None | Some f \<Rightarrow> ft_cb ft = None \<and> runnable w f)"

definition stacked :: "'cb fworld \<Rightarrow> fid \<Rightarrow> bool" where
  "stacked w f \<longleftrightarrow> (\<exists>fb. fibers w f = Some fb \<and> fb_stack fb)"

definition thread_ok :: "'cb fworld \<Rightarrow> tid \<Rightarrow> 'cb tstate \<Rightarrow> bool" where
  "thread_ok w t ts \<longleftrightarrow>
     (case pc ts of
        PGot ft \<Rightarrow> task_ok w ft \<and> (\<forall>c. cb_fiber ts = Some c \<longrightarrow> reusable w c) \<and> runnable w (idle_fiber ts)
      | PFiber f \<Rightarrow> running w f \<and> t_fiber w t = Some f \<and> (\<forall>c. cb_fiber ts = Some c \<longrightarrow> reusable w c) \<and> runnable w (idle_fiber ts)
      | PBackF f \<Rightarrow> runnable w f \<and> (\<forall>c. cb_fiber ts = Some c \<longrightarrow> reusable w c) \<and> runnable w (idle_fiber ts)
      | PPostF f \<Rightarrow> runnable w f \<and> (\<forall>c. cb_fiber ts = Some c \<longrightarrow> reusable w c) \<and> runnable w (idle_fiber ts)
      | PCb \<Rightarrow> (\<exists>c. cb_fiber ts = Some c \<and> running w c \<and> stacked w c \<and> t_fiber w t = Some c) \<and> runnable w (idle_fiber ts)
      | PBackCb \<Rightarrow> (\<exists>c. cb_fiber ts = Some c \<and> runnable w c \<and> stacked w c) \<and> runnable w (idle_fiber ts)
      | PPostCb \<Rightarrow> (\<exists>c. cb_fiber ts = Some c \<and> runnable w c \<and> stacked w c) \<and> runnable w (idle_fiber ts)
      | PIdle \<Rightarrow> running w (idle_fiber ts) \<and> t_fiber w t = Some (idle_fiber ts) \<and> (\<forall>c. cb_fiber ts = Some c \<longrightarrow> reusable w c)
      | _ \<Rightarrow> (\<forall>c. cb_fiber ts = Some c \<longrightarrow> reusable w c) \<and> runnable w (idle_fiber ts))"

definition has_main :: "'cb fworld \<Rightarrow> tid \<Rightarrow> bool" where
  "has_main w t \<longleftrightarrow> (\<exists>g fb. t_scheduler_fiber w t = Some g \<and> fibers w g = Some fb)"

text \<open>How many threads satisfy \<open>P\<close>, as the counters count.\<close>

definition tcount :: "('ts \<Rightarrow> bool) \<Rightarrow> (tid \<rightharpoonup> 'ts) \<Rightarrow> u64" where
  "tcount P T = of_nat (card {t. \<exists>ts. T t = Some ts \<and> P ts})"

definition sched_inv :: "'cb ssys \<Rightarrow> bool" where
  "sched_inv s \<longleftrightarrow>
     finite (dom (thr s)) \<and>
     m_activeThreadCount (sch s) = tcount active (thr s) \<and>
     m_idleThreadCount (sch s) = tcount idling (thr s) \<and>
     distinct (queued (m_fibers (sch s))) \<and> (\<forall>ft\<in>set (m_fibers (sch s)). task_ok (wrld s) ft) \<and>
     (\<forall>t ts. thr s t = Some ts \<longrightarrow>
        thread_ok (wrld s) t ts \<and> has_main (wrld s) t \<and> distinct (own ts) \<and>
        set (own ts) \<inter> set (queued (m_fibers (sch s))) = {} \<and>
        (\<forall>t' ts'. thr s t' = Some ts' \<longrightarrow> t' \<noteq> t \<longrightarrow> set (own ts) \<inter> set (own ts') = {}))"

section \<open>One thread's step leaves the others alone\<close>

lemma own_idle [simp]: "idle_fiber ts \<in> set (own ts)"
  by (simp add: own_def)

lemma own_cb [simp]: "cb_fiber ts = Some c \<Longrightarrow> c \<in> set (own ts)"
  by (simp add: own_def)

lemma thread_ok_frame:
  assumes "\<forall>f\<in>set (own ts). fibers w' f = fibers w f" "t_fiber w' t = t_fiber w t"
  shows "thread_ok w' t ts = thread_ok w t ts"
proof -
  have idle: "runnable w' (idle_fiber ts) = runnable w (idle_fiber ts)" "running w' (idle_fiber ts) = running w (idle_fiber ts)"
    using assms(1) by (simp_all add: runnable_def running_def)
  have cb: "runnable w' c = runnable w c" "running w' c = running w c" "reusable w' c = reusable w c"
    "stacked w' c = stacked w c" if "cb_fiber ts = Some c" for c
    using assms(1) that by (simp_all add: runnable_def running_def reusable_def stacked_def)
  have hd: "runnable w' f = runnable w f" "running w' f = running w f" if "f \<in> set (hand (pc ts))" for f
    using assms(1) that by (simp_all add: own_def runnable_def running_def)
  show ?thesis
    using idle cb hd assms(2)
    by (cases "cb_fiber ts"; cases "pc ts"; simp add: thread_ok_def hand_def task_ok_def split: option.split)
qed

lemma runnable_frame: "fibers w' f = fibers w f \<Longrightarrow> runnable w' f = runnable w f"
  by (simp add: runnable_def)

lemma queued_mem: "f \<in> set (queued q) \<longleftrightarrow> (\<exists>ft\<in>set q. ft_fiber ft = Some f)"
  by (induction q) (auto simp: queued_def List.map_filter_simps split: option.splits)

lemma tcount_update:
  assumes "finite (dom T)" "T t = Some ts"
  shows "tcount P (T(t \<mapsto> ts')) + (if P ts then 1 else 0) = tcount P T + (if P ts' then 1 else 0)"
proof -
  let ?A = "{u. u \<noteq> t \<and> (\<exists>us. T u = Some us \<and> P us)}"
  have fin: "finite ?A" by (rule finite_subset [OF _ assms(1)]) auto
  have "{u. \<exists>us. (T(t \<mapsto> ts')) u = Some us \<and> P us} = (if P ts' then insert t ?A else ?A)"
    "{u. \<exists>us. T u = Some us \<and> P us} = (if P ts then insert t ?A else ?A)"
    using assms(2) by (auto split: if_splits)
  then show ?thesis using fin by (simp add: tcount_def)
qed


lemma queued_simps [simp]:
  "queued [] = []" "queued (ft # q) = (case ft_fiber ft of None \<Rightarrow> queued q | Some f \<Rightarrow> f # queued q)"
  "queued (q @ r) = queued q @ queued r"
  by (auto simp: queued_def List.map_filter_simps List.map_filter_def)

text \<open>
  What a step of thread \<open>t\<close> has to show: it changes no fiber but its own (and unused addresses), hands
  over only fibers it or the list had, and its counters agree with where it stands.
\<close>

lemma sched_inv_step:
  assumes inv: "sched_inv s" and t: "thr s t = Some ts"
    and w: "\<forall>f. f \<notin> set (own ts) \<longrightarrow> f \<in> dom (fibers (wrld s)) \<longrightarrow> fibers w f = fibers (wrld s) f"
      "dom (fibers (wrld s)) \<subseteq> dom (fibers w)"
      "\<forall>u. u \<noteq> t \<longrightarrow> t_fiber w u = t_fiber (wrld s) u" "t_scheduler_fiber w = t_scheduler_fiber (wrld s)"
    and q: "distinct (queued q)" "\<forall>ft\<in>set q. task_ok w ft"
      "set (queued q) \<union> set (own ts') \<subseteq> set (queued (m_fibers (sch s))) \<union> set (own ts) \<union> (- dom (fibers (wrld s)))"
      "set (own ts') \<inter> set (queued q) = {}"
    and ts': "thread_ok w t ts'" "distinct (own ts')"
    and cnt: "a + (if active ts then 1 else 0) = m_activeThreadCount (sch s) + (if active ts' then 1 else 0)"
      "i + (if idling ts then 1 else 0) = m_idleThreadCount (sch s) + (if idling ts' then 1 else 0)"
  shows "sched_inv (s\<lparr>wrld := w, thr := (thr s)(t \<mapsto> ts'),
    sch := (sch s)\<lparr>m_fibers := q, m_activeThreadCount := a, m_idleThreadCount := i\<rparr>\<rparr>)"
proof -
  have fin: "finite (dom (thr s))" using inv by (simp add: sched_inv_def)
  have ac: "a = tcount active ((thr s)(t \<mapsto> ts'))"
    using tcount_update [OF fin t, of active ts'] cnt(1) inv
    by (intro add_right_imp_eq [of a "if active ts then 1 else 0"]) (simp add: sched_inv_def)
  have ic: "i = tcount idling ((thr s)(t \<mapsto> ts'))"
    using tcount_update [OF fin t, of idling ts'] cnt(2) inv
    by (intro add_right_imp_eq [of i "if idling ts then 1 else 0"]) (simp add: sched_inv_def)
  have old: "thread_ok (wrld s) u us" "has_main (wrld s) u" "distinct (own us)"
    "set (own us) \<inter> set (queued (m_fibers (sch s))) = {}" "u \<noteq> t \<Longrightarrow> set (own us) \<inter> set (own ts) = {}"
    if "thr s u = Some us" for u us
    using inv t that unfolding sched_inv_def by blast+
  have dom: "set (own us) \<subseteq> dom (fibers (wrld s))" if "thr s u = Some us" for u us
    using old(1) [OF that]
    by (cases "cb_fiber us"; cases "pc us") (auto simp: thread_ok_def own_def hand_def task_ok_def runnable_def
        running_def reusable_def split: option.splits)
  have main: "has_main w u" if "thr s u = Some us" for u us
    using old(2) [OF that] w(2,4) by (auto simp: has_main_def)
  have other: "thread_ok w u us" "set (own us) \<inter> set (own ts') = {}" "set (own us) \<inter> set (queued q) = {}"
    if "thr s u = Some us" "u \<noteq> t" for u us
  proof -
    have "\<forall>f\<in>set (own us). fibers w f = fibers (wrld s) f"
      using w(1) old(5) [OF that] dom [OF that(1)] by blast
    then show "thread_ok w u us" using thread_ok_frame [of us w "wrld s" u] old(1) [OF that(1)] w(3) that(2) by simp
    show "set (own us) \<inter> set (own ts') = {}" "set (own us) \<inter> set (queued q) = {}"
      using q(3) old(4) [OF that(1)] old(5) [OF that] dom [OF that(1)] by blast+
  qed
  have same: "set (own us) \<inter> set (own us') = {}" if "thr s u = Some us" "thr s u' = Some us'" "u' \<noteq> u" for u us u' us'
    using inv that unfolding sched_inv_def by blast
  have all: "thread_ok w u us \<and> has_main w u \<and> distinct (own us) \<and> set (own us) \<inter> set (queued q) = {} \<and>
     (\<forall>u' us'. ((thr s)(t \<mapsto> ts')) u' = Some us' \<longrightarrow> u' \<noteq> u \<longrightarrow> set (own us) \<inter> set (own us') = {})"
    if "((thr s)(t \<mapsto> ts')) u = Some us" for u us
  proof (cases "u = t")
    case True
    then show ?thesis using that ts' main [OF t] q(4) other(2) by (auto simp: Int_commute)
  next
    case False
    then have u: "thr s u = Some us" using that by simp
    show ?thesis using other [OF u False] main [OF u] old(3) [OF u] same [OF u] by auto
  qed
  show ?thesis
    unfolding sched_inv_def using fin ac ic q(1,2) all by simp
qed


section \<open>Every step of the loop keeps the invariant\<close>

definition eligible :: "int \<Rightarrow> 'cb fworld \<Rightarrow> 'cb ftask \<Rightarrow> bool" where
  "eligible t w ft \<longleftrightarrow> (ft_thread ft = - 1 \<or> ft_thread ft = t) \<and>
     (case ft_fiber ft of None \<Rightarrow> True | Some f \<Rightarrow> \<not> fiber_is w f EXEC)"

lemma pick_spec:
  assumes "\<forall>ft\<in>set q. ft_fiber ft \<noteq> None \<or> ft_cb ft \<noteq> None"
  shows "\<exists>tk p q'. pick t w q = Inr (tk, p, q') \<and>
    (case p of
       None \<Rightarrow> q' = q \<and> (\<forall>ft\<in>set q. \<not> eligible t w ft)
     | Some ft \<Rightarrow> \<exists>xs ys. q = xs @ ft # ys \<and> q' = xs @ ys \<and> eligible t w ft \<and> (\<forall>x\<in>set xs. \<not> eligible t w x))"
  using assms
proof (induction q)
  case (Cons it q)
  then obtain tk p q' where IH: "pick t w q = Inr (tk, p, q')"
    "case p of None \<Rightarrow> q' = q \<and> (\<forall>ft\<in>set q. \<not> eligible t w ft)
     | Some ft \<Rightarrow> \<exists>xs ys. q = xs @ ft # ys \<and> q' = xs @ ys \<and> eligible t w ft \<and> (\<forall>x\<in>set xs. \<not> eligible t w x)"
    by auto
  show ?case
  proof (cases "eligible t w it")
    case True
    then have "pick t w (it # q) = Inr (q \<noteq> [], Some it, q)"
      using Cons.prems by (auto simp: eligible_def split: option.splits)
    then show ?thesis using True by (auto intro: exI [of _ "[]"])
  next
    case False
    then have "\<exists>tk'. pick t w (it # q) = Inr (tk', p, it # q')"
      using IH(1) Cons.prems by (cases "ft_fiber it") (auto simp: eligible_def)
    then obtain tk' where "pick t w (it # q) = Inr (tk', p, it # q')" ..
    moreover have "case p of None \<Rightarrow> it # q' = it # q \<and> (\<forall>ft\<in>set (it # q). \<not> eligible t w ft)
     | Some ft \<Rightarrow> \<exists>xs ys. it # q = xs @ ft # ys \<and> it # q' = xs @ ys \<and> eligible t w ft \<and> (\<forall>x\<in>set xs. \<not> eligible t w x)"
    proof (cases p)
      case (Some ft)
      then obtain xs ys where "q = xs @ ft # ys" "q' = xs @ ys" "eligible t w ft" "\<forall>x\<in>set xs. \<not> eligible t w x"
        using IH(2) by auto
      then have "it # q = (it # xs) @ ft # ys \<and> it # q' = (it # xs) @ ys \<and> eligible t w ft \<and> (\<forall>x\<in>set (it # xs). \<not> eligible t w x)"
        using False by simp
      then show ?thesis unfolding Some option.case by blast
    qed (use IH(2) False in auto)
    ultimately show ?thesis by blast
  qed
qed auto

lemma inv_thread:
  assumes "sched_inv s" "thr s t = Some ts"
  shows "thread_ok (wrld s) t ts" "has_main (wrld s) t" "distinct (own ts)"
    "set (own ts) \<inter> set (queued (m_fibers (sch s))) = {}"
    "distinct (queued (m_fibers (sch s)))" "\<forall>ft\<in>set (m_fibers (sch s)). task_ok (wrld s) ft"
  using assms unfolding sched_inv_def by blast+

lemma task_ok_nonempty: "task_ok w ft \<Longrightarrow> ft_fiber ft \<noteq> None \<or> ft_cb ft \<noteq> None"
  by (auto simp: task_ok_def split: option.splits)

lemma task_ok_frame:
  "(\<And>f. ft_fiber ft = Some f \<Longrightarrow> fibers w' f = fibers w f) \<Longrightarrow> task_ok w' ft = task_ok w ft"
  by (auto simp: task_ok_def runnable_def split: option.splits)

lemma tasks_frame:
  assumes "sched_inv s" "thr s t = Some ts" "\<forall>f. f \<notin> set (own ts) \<longrightarrow> f \<in> dom (fibers (wrld s)) \<longrightarrow> fibers w f = fibers (wrld s) f"
  shows "\<forall>ft\<in>set (m_fibers (sch s)). task_ok w ft"
proof
  fix ft assume ft: "ft \<in> set (m_fibers (sch s))"
  note inv = inv_thread [OF assms(1,2)]
  have ok: "task_ok (wrld s) ft" using inv(6) ft by blast
  have "fibers w f = fibers (wrld s) f" if "ft_fiber ft = Some f" for f
  proof -
    have "f \<in> set (queued (m_fibers (sch s)))" using ft that by (auto simp: queued_mem)
    moreover have "f \<in> dom (fibers (wrld s))" using ok that by (auto simp: task_ok_def runnable_def)
    ultimately show ?thesis using assms(3) inv(4) by blast
  qed
  then show "task_ok w ft" using ok task_ok_frame by blast
qed

lemma set_pc_eq: "thr s t = Some ts \<Longrightarrow> set_pc t p s = s\<lparr>thr := (thr s)(t \<mapsto> ts\<lparr>pc := p\<rparr>)\<rparr>"
  by (simp add: set_pc_def)

lemma swapIn_runnable:
  assumes "runnable w f" "has_main w t"
  shows "\<exists>fb. fibers w f = Some fb \<and>
    swapIn t f w = Inr (set_fiber f (fb\<lparr>fb_state := EXEC\<rparr>) (SetThis t (Some f) w))"
proof -
  obtain fb g gb where "fibers w f = Some fb" "fb_state fb \<noteq> EXEC" "t_scheduler_fiber w t = Some g" "fibers w g = Some gb"
    using assms by (auto simp: runnable_def has_main_def)
  then show ?thesis using swapIn_eq [of w f fb t g] by (auto simp: GetMainFiber_def)
qed

text \<open>The state a step of thread \<open>t\<close> leaves that does not touch the list.\<close>

definition moved :: "'cb ssys \<Rightarrow> tid \<Rightarrow> 'cb fworld \<Rightarrow> 'cb tstate \<Rightarrow> u64 \<Rightarrow> u64 \<Rightarrow> 'cb ssys" where
  "moved s t w ts a i = s\<lparr>wrld := w, thr := (thr s)(t \<mapsto> ts),
     sch := (sch s)\<lparr>m_activeThreadCount := a, m_idleThreadCount := i\<rparr>\<rparr>"

lemma sched_inv_step':
  assumes "sched_inv s" "thr s t = Some ts"
    "\<forall>f. f \<notin> set (own ts) \<longrightarrow> f \<in> dom (fibers (wrld s)) \<longrightarrow> fibers w f = fibers (wrld s) f"
    "dom (fibers (wrld s)) \<subseteq> dom (fibers w)"
    "\<forall>u. u \<noteq> t \<longrightarrow> t_fiber w u = t_fiber (wrld s) u" "t_scheduler_fiber w = t_scheduler_fiber (wrld s)"
    "set (own ts') \<subseteq> set (own ts) \<union> (- dom (fibers (wrld s)))" "thread_ok w t ts'" "distinct (own ts')"
    "a + (if active ts then 1 else 0) = m_activeThreadCount (sch s) + (if active ts' then 1 else 0)"
    "i + (if idling ts then 1 else 0) = m_idleThreadCount (sch s) + (if idling ts' then 1 else 0)"
  shows "sched_inv (moved s t w ts' a i)"
proof -
  note inv = inv_thread [OF assms(1,2)]
  have "set (queued (m_fibers (sch s))) \<subseteq> dom (fibers (wrld s))"
    using inv(6) by (fastforce simp: queued_mem task_ok_def runnable_def)
  then have "set (own ts') \<inter> set (queued (m_fibers (sch s))) = {}"
    using assms(7) inv(4) by blast
  then have "sched_inv (s\<lparr>wrld := w, thr := (thr s)(t \<mapsto> ts'),
    sch := (sch s)\<lparr>m_fibers := m_fibers (sch s), m_activeThreadCount := a, m_idleThreadCount := i\<rparr>\<rparr>)"
    using assms tasks_frame [OF assms(1,2,3)] inv(5) by (intro sched_inv_step) auto
  then show ?thesis by (simp add: moved_def)
qed


lemma run_pick_ok:
  assumes "sched_inv s" "thr s t = Some ts" "pc ts = PTop"
  shows "\<exists>s'. run_pick t s = Inr s' \<and> sched_inv s'"
proof -
  note inv = inv_thread [OF assms(1,2)]
  let ?q = "m_fibers (sch s)"
  have "\<forall>ft\<in>set ?q. ft_fiber ft \<noteq> None \<or> ft_cb ft \<noteq> None" using inv(6) task_ok_nonempty by blast
  from pick_spec [OF this, of "int t" "wrld s"] obtain tk p q where p: "pick (int t) (wrld s) ?q = Inr (tk, p, q)"
    "case p of None \<Rightarrow> q = ?q \<and> (\<forall>ft\<in>set ?q. \<not> eligible (int t) (wrld s) ft)
     | Some ft \<Rightarrow> \<exists>xs ys. ?q = xs @ ft # ys \<and> q = xs @ ys \<and> eligible (int t) (wrld s) ft \<and>
         (\<forall>x\<in>set xs. \<not> eligible (int t) (wrld s) x)"
    by blast
  have top: "runnable (wrld s) (idle_fiber ts)" "\<And>c. cb_fiber ts = Some c \<Longrightarrow> reusable (wrld s) c"
    using inv(1) assms(3) by (auto simp: thread_ok_def)
  show ?thesis
  proof (cases p)
    case (Some ft)
    then obtain xs ys where q: "?q = xs @ ft # ys" "q = xs @ ys" using p(2) by auto
    have ok: "task_ok (wrld s) ft" using inv(6) q by simp
    have res: "run_pick t s = Inr (s\<lparr>wrld := wrld s, thr := (thr s)(t \<mapsto> ts\<lparr>pc := PGot ft\<rparr>),
        sch := (sch s)\<lparr>m_fibers := q, m_activeThreadCount := m_activeThreadCount (sch s) + 1,
          m_idleThreadCount := m_idleThreadCount (sch s)\<rparr>\<rparr>)"
      using assms(2) p(1) Some by (simp add: run_pick_def set_pc_eq)
    have own: "set (own (ts\<lparr>pc := PGot ft\<rparr>)) = set (own ts) \<union> (case ft_fiber ft of None \<Rightarrow> {} | Some f \<Rightarrow> {f})"
      "distinct (own (ts\<lparr>pc := PGot ft\<rparr>)) \<longleftrightarrow> (case ft_fiber ft of None \<Rightarrow> True | Some f \<Rightarrow> f \<notin> set (own ts)) \<and> distinct (own ts)"
      using assms(3) by (auto simp: own_def hand_def split: option.splits)
    have "sched_inv (s\<lparr>wrld := wrld s, thr := (thr s)(t \<mapsto> ts\<lparr>pc := PGot ft\<rparr>),
        sch := (sch s)\<lparr>m_fibers := q, m_activeThreadCount := m_activeThreadCount (sch s) + 1,
          m_idleThreadCount := m_idleThreadCount (sch s)\<rparr>\<rparr>)"
    proof (rule sched_inv_step [OF assms(1,2)])
      show "distinct (queued q)" "set (own (ts\<lparr>pc := PGot ft\<rparr>)) \<inter> set (queued q) = {}"
        "set (queued q) \<union> set (own (ts\<lparr>pc := PGot ft\<rparr>)) \<subseteq> set (queued ?q) \<union> set (own ts) \<union> - dom (fibers (wrld s))"
        "distinct (own (ts\<lparr>pc := PGot ft\<rparr>))"
        using inv(3,4,5) q own by (auto split: option.splits)
      show "\<forall>ft\<in>set q. task_ok (wrld s) ft" using inv(6) q by simp
      show "thread_ok (wrld s) t (ts\<lparr>pc := PGot ft\<rparr>)" using ok top by (simp add: thread_ok_def)
    qed (use assms(3) in \<open>auto simp: active_def idling_def\<close>)
    then show ?thesis using res by blast
  next
    case None
    show ?thesis
    proof (cases "fiber_is (wrld s) (idle_fiber ts) TERMD")
      case True
      have "run_pick t s = Inr (moved s t (wrld s) (ts\<lparr>pc := PDone\<rparr>) (m_activeThreadCount (sch s)) (m_idleThreadCount (sch s)))"
        using assms(2) p(1) None True by (simp add: run_pick_def set_pc_eq moved_def)
      moreover have "sched_inv (moved s t (wrld s) (ts\<lparr>pc := PDone\<rparr>) (m_activeThreadCount (sch s)) (m_idleThreadCount (sch s)))"
        using assms inv top
        by (intro sched_inv_step') (auto simp: own_def hand_def thread_ok_def active_def idling_def)
      ultimately show ?thesis by auto
    next
      case False
      obtain fb where fb: "fibers (wrld s) (idle_fiber ts) = Some fb"
        "swapIn t (idle_fiber ts) (wrld s) =
          Inr (set_fiber (idle_fiber ts) (fb\<lparr>fb_state := EXEC\<rparr>) (SetThis t (Some (idle_fiber ts)) (wrld s)))"
        using swapIn_runnable [OF top(1) inv(2)] by auto
      let ?w = "set_fiber (idle_fiber ts) (fb\<lparr>fb_state := EXEC\<rparr>) (SetThis t (Some (idle_fiber ts)) (wrld s))"
      have "run_pick t s = Inr (moved s t ?w (ts\<lparr>pc := PIdle\<rparr>) (m_activeThreadCount (sch s)) (m_idleThreadCount (sch s) + 1))"
        using assms(2) p(1) None False fb(2) by (simp add: run_pick_def set_pc_eq moved_def)
      moreover have "reusable ?w c" if "cb_fiber ts = Some c" for c
        using top(2) [OF that] inv(3) that by (auto simp: reusable_def own_def)
      then have "sched_inv (moved s t ?w (ts\<lparr>pc := PIdle\<rparr>) (m_activeThreadCount (sch s)) (m_idleThreadCount (sch s) + 1))"
        using assms inv top fb(1)
        by (intro sched_inv_step') (auto simp: own_def hand_def thread_ok_def active_def idling_def running_def)
      ultimately show ?thesis by auto
    qed
  qed
qed

lemma reusable_runnable: "reusable w f \<Longrightarrow> runnable w f"
  by (auto simp: reusable_def runnable_def ended_def)

lemma run_dispatch_ok:
  assumes "sched_inv s" "thr s t = Some ts" "pc ts = PGot ft" "a \<notin> dom (fibers (wrld s))" "junk \<noteq> EXEC"
  shows "\<exists>s'. run_dispatch dflt t a junk ft s = Inr s' \<and> sched_inv s'"
proof -
  note inv = inv_thread [OF assms(1,2)]
  have ok: "task_ok (wrld s) ft" "runnable (wrld s) (idle_fiber ts)" "\<And>c. cb_fiber ts = Some c \<Longrightarrow> reusable (wrld s) c"
    using inv(1) assms(3) by (auto simp: thread_ok_def)
  let ?ac = "m_activeThreadCount (sch s)" and ?ic = "m_idleThreadCount (sch s)"
  show ?thesis
  proof (cases "ft_fiber ft")
    case f: (Some f)
    then have run: "runnable (wrld s) f" "ft_cb ft = None" using ok(1) by (auto simp: task_ok_def)
    have own: "own ts = f # own (ts\<lparr>pc := PTop\<rparr>)" using assms(3) f by (simp add: own_def hand_def)
    show ?thesis
    proof (cases "dead (wrld s) f")
      case True
      have "run_dispatch dflt t a junk ft s = Inr (moved s t (wrld s) (ts\<lparr>pc := PTop\<rparr>) (?ac - 1) ?ic)"
        using assms(2) f True run(2) by (simp add: run_dispatch_def set_pc_eq moved_def)
      moreover have "sched_inv (moved s t (wrld s) (ts\<lparr>pc := PTop\<rparr>) (?ac - 1) ?ic)"
        using assms inv ok own by (intro sched_inv_step') (auto simp: thread_ok_def active_def idling_def)
      ultimately show ?thesis by blast
    next
      case False
      obtain fb where fb: "fibers (wrld s) f = Some fb"
        "swapIn t f (wrld s) = Inr (set_fiber f (fb\<lparr>fb_state := EXEC\<rparr>) (SetThis t (Some f) (wrld s)))"
        using swapIn_runnable [OF run(1) inv(2)] by auto
      let ?w = "set_fiber f (fb\<lparr>fb_state := EXEC\<rparr>) (SetThis t (Some f) (wrld s))"
      have "run_dispatch dflt t a junk ft s = Inr (moved s t ?w (ts\<lparr>pc := PFiber f\<rparr>) ?ac ?ic)"
        using assms(2) f False fb(2) by (simp add: run_dispatch_def set_pc_eq moved_def)
      moreover have "reusable ?w c" if "cb_fiber ts = Some c" for c
        using ok(3) [OF that] inv(3) that own by (auto simp: reusable_def own_def)
      moreover have "runnable ?w (idle_fiber ts)" using ok(2) inv(3) own by (auto simp: runnable_def own_def)
      moreover have "own (ts\<lparr>pc := PFiber f\<rparr>) = own ts" using assms(3) f by (simp add: own_def hand_def)
      ultimately have "sched_inv (moved s t ?w (ts\<lparr>pc := PFiber f\<rparr>) ?ac ?ic)"
        using assms inv fb(1) own
        by (intro sched_inv_step') (auto simp: thread_ok_def active_def idling_def running_def)
      then show ?thesis using \<open>run_dispatch dflt t a junk ft s = _\<close> by blast
    qed
  next
    case f: None
    then have cb: "ft_cb ft \<noteq> None" using ok(1) by (auto simp: task_ok_def)
    have own: "own ts = own (ts\<lparr>pc := PTop\<rparr>)" using assms(3) f by (simp add: own_def hand_def)
    show ?thesis
    proof (cases "cb_fiber ts")
      case c: (Some c)
      then obtain fb where fb: "fibers (wrld s) c = Some fb" "fb_stack fb" "ended (fb_state fb)"
        using ok(3) by (auto simp: reusable_def)
      let ?fb = "fb\<lparr>fb_cb := ft_cb ft, fb_entry := MainFunc, fb_state := INIT\<rparr>"
      let ?w1 = "set_fiber c ?fb (wrld s)"
      let ?w = "set_fiber c (?fb\<lparr>fb_state := EXEC\<rparr>) (SetThis t (Some c) ?w1)"
      have "runnable ?w1 c" "has_main ?w1 t" using inv(2) by (auto simp: runnable_def has_main_def)
      then have sw: "swapIn t c ?w1 = Inr ?w" using swapIn_runnable by fastforce
      have "run_dispatch dflt t a junk ft s = Inr (moved s t ?w (ts\<lparr>pc := PCb\<rparr>) ?ac ?ic)"
        using assms(2) f c cb fb sw by (simp add: run_dispatch_def set_pc_eq moved_def fiber_reset_def)
      moreover have "runnable ?w (idle_fiber ts)" using ok(2) inv(3) c by (auto simp: runnable_def own_def)
      moreover have "own (ts\<lparr>pc := PCb\<rparr>) = own ts" using assms(3) f by (simp add: own_def hand_def)
      ultimately have "sched_inv (moved s t ?w (ts\<lparr>pc := PCb\<rparr>) ?ac ?ic)"
        using assms inv fb c
        by (intro sched_inv_step') (auto simp: thread_ok_def active_def idling_def running_def stacked_def)
      then show ?thesis using \<open>run_dispatch dflt t a junk ft s = _\<close> by blast
    next
      case c: None
      let ?w1 = "newFiber dflt a junk (ft_cb ft) 0 False (wrld s)"
      have w1: "fibers ?w1 = (fibers (wrld s))(a := fibers ?w1 a)" "t_fiber ?w1 = t_fiber (wrld s)"
        "t_scheduler_fiber ?w1 = t_scheduler_fiber (wrld s)" "runnable ?w1 a" "stacked ?w1 a"
        using assms(5) by (auto simp: newFiber_def runnable_def stacked_def)
      have "has_main ?w1 t" using inv(2) w1(1,3) assms(4) by (auto simp: has_main_def newFiber_def)
      then obtain fb where fb: "fibers ?w1 a = Some fb"
        "swapIn t a ?w1 = Inr (set_fiber a (fb\<lparr>fb_state := EXEC\<rparr>) (SetThis t (Some a) ?w1))"
        using swapIn_runnable [OF w1(4)] by blast
      let ?w = "set_fiber a (fb\<lparr>fb_state := EXEC\<rparr>) (SetThis t (Some a) ?w1)"
      let ?ts = "ts\<lparr>cb_fiber := Some a, pc := PCb\<rparr>"
      have "run_dispatch dflt t a junk ft s = Inr (moved s t ?w ?ts ?ac ?ic)"
        using assms(2) f c cb fb(2) by (simp add: run_dispatch_def moved_def)
      moreover have "a \<notin> set (own ts)"
        using ok assms(3,4) f c by (auto simp: own_def hand_def runnable_def)
      moreover have "set (own ?ts) = insert a (set (own ts))" "distinct (own ?ts) \<longleftrightarrow> a \<notin> set (own ts) \<and> distinct (own ts)"
        using assms(3) f c by (auto simp: own_def hand_def)
      moreover have "runnable ?w (idle_fiber ts)"
        using ok(2) assms(4) w1(1) by (auto simp: runnable_def newFiber_def)
      moreover have "fibers ?w g = fibers (wrld s) g" if "g \<noteq> a" for g using that by (simp add: newFiber_def)
      ultimately have "sched_inv (moved s t ?w ?ts ?ac ?ic)"
        using assms inv w1 fb(1)
        by (intro sched_inv_step') (auto simp: thread_ok_def active_def idling_def running_def stacked_def newFiber_def)
      then show ?thesis using \<open>run_dispatch dflt t a junk ft s = _\<close> by blast
    qed
  qed
qed


lemma leave_fiber_eq:
  assumes "t_fiber w t = Some x" "fibers w x = Some fb" "has_main w t"
  shows "\<exists>fb' g. leave_fiber l t a w = Inr (SetThis t (Some g) (set_fiber x fb' w)) \<and>
    fb_state fb' \<noteq> EXEC \<and> fb_stack fb' = fb_stack fb"
proof -
  obtain g gb where g: "t_scheduler_fiber w t = Some g" "fibers w g = Some gb"
    using assms(3) by (auto simp: has_main_def)
  have out: "swapOut t x (set_fiber x fb' w) = Inr (SetThis t (Some g) (set_fiber x fb' w))" for fb'
    using g by (intro swapOut_eq) (auto simp: GetMainFiber_def)
  have cur: "fiber_GetThis t a w = Inr (x, w)" using assms(1) by (simp add: fiber_GetThis_def)
  have yield: "YieldTo st t a w = Inr (SetThis t (Some g) (set_fiber x (fb\<lparr>fb_state := st\<rparr>) w))" for st
    using assms(2) cur out by (simp add: YieldTo_def)
  have fin: "runMainFunc t a threw w = Inr (SetThis t (Some g) (set_fiber x (fiber_done threw fb) w))" for threw
    using assms(2) cur out by (simp add: runMainFunc_def)
  show ?thesis
    using yield fin by (cases l) (auto simp: leave_fiber_def YieldToReady_def YieldToHold_def fiber_done_def)
qed

lemma leave_inv:
  assumes "sched_inv s" "thr s t = Some ts" "t_fiber (wrld s) t = Some x" "running (wrld s) x" "x \<in> set (own ts)"
    and "set (own (ts\<lparr>pc := p\<rparr>)) = set (own ts)" "distinct (own (ts\<lparr>pc := p\<rparr>))"
    and "active (ts\<lparr>pc := p\<rparr>) = active ts" "idling (ts\<lparr>pc := p\<rparr>) = idling ts"
    and ok: "\<And>w. \<forall>f. f \<noteq> x \<longrightarrow> fibers w f = fibers (wrld s) f \<Longrightarrow> runnable w x \<Longrightarrow>
      (stacked (wrld s) x \<Longrightarrow> stacked w x) \<Longrightarrow> thread_ok w t (ts\<lparr>pc := p\<rparr>)"
  shows "\<exists>w. leave_fiber l t 0 (wrld s) = Inr w \<and>
    sched_inv (moved s t w (ts\<lparr>pc := p\<rparr>) (m_activeThreadCount (sch s)) (m_idleThreadCount (sch s)))"
proof -
  note inv = inv_thread [OF assms(1,2)]
  obtain fb where fb: "fibers (wrld s) x = Some fb" using assms(4) by (auto simp: running_def)
  obtain fb' g where l: "leave_fiber l t 0 (wrld s) = Inr (SetThis t (Some g) (set_fiber x fb' (wrld s)))"
    "fb_state fb' \<noteq> EXEC" "fb_stack fb' = fb_stack fb"
    using leave_fiber_eq [OF assms(3) fb inv(2)] by blast
  let ?w = "SetThis t (Some g) (set_fiber x fb' (wrld s))"
  have "thread_ok ?w t (ts\<lparr>pc := p\<rparr>)"
    by (rule ok) (use l(2,3) fb in \<open>auto simp: runnable_def stacked_def\<close>)
  then have "sched_inv (moved s t ?w (ts\<lparr>pc := p\<rparr>) (m_activeThreadCount (sch s)) (m_idleThreadCount (sch s)))"
    using assms(1,2,5-9) by (intro sched_inv_step') auto
  then show ?thesis using l(1) by blast
qed

lemma run_leave_ok:
  assumes "sched_inv s" "thr s t = Some ts" "pc ts = PCb \<or> pc ts = PIdle \<or> (\<exists>f. pc ts = PFiber f)"
  shows "\<exists>s'. run_leave l t s = Inr s' \<and> sched_inv s'"
proof -
  note inv = inv_thread [OF assms(1,2)]
  have fr: "reusable w c = reusable (wrld s) c" "runnable w c = runnable (wrld s) c"
    if "fibers w c = fibers (wrld s) c" for w c
    using that by (simp_all add: reusable_def runnable_def)
  consider f where "pc ts = PFiber f" | "pc ts = PCb" | "pc ts = PIdle" using assms(3) by blast
  then show ?thesis
  proof cases
    case (1 f)
    have ok: "running (wrld s) f" "t_fiber (wrld s) t = Some f" "runnable (wrld s) (idle_fiber ts)"
      "\<And>c. cb_fiber ts = Some c \<Longrightarrow> reusable (wrld s) c"
      using inv(1) 1 by (auto simp: thread_ok_def)
    have ne: "idle_fiber ts \<noteq> f" "\<And>c. cb_fiber ts = Some c \<Longrightarrow> c \<noteq> f"
      using inv(3) 1 by (auto simp: own_def hand_def)
    have tk: "thread_ok w t (ts\<lparr>pc := PBackF f\<rparr>)" if "\<forall>g. g \<noteq> f \<longrightarrow> fibers w g = fibers (wrld s) g" "runnable w f" for w
      using that ok ne fr [of w "idle_fiber ts"] fr [of w "the (cb_fiber ts)"]
      by (cases "cb_fiber ts") (simp_all add: thread_ok_def)
    have "\<exists>w. leave_fiber l t 0 (wrld s) = Inr w \<and>
      sched_inv (moved s t w (ts\<lparr>pc := PBackF f\<rparr>) (m_activeThreadCount (sch s)) (m_idleThreadCount (sch s)))"
      by (rule leave_inv [OF assms(1,2) ok(2,1)])
        (use 1 inv(3) in \<open>auto simp: own_def hand_def active_def idling_def intro!: tk\<close>)
    then show ?thesis using assms(2) 1 by (auto simp: run_leave_def set_pc_eq moved_def)
  next
    case 2
    then obtain c where c: "cb_fiber ts = Some c" "running (wrld s) c" "stacked (wrld s) c"
      "t_fiber (wrld s) t = Some c" "runnable (wrld s) (idle_fiber ts)"
      using inv(1) by (auto simp: thread_ok_def)
    have ne: "idle_fiber ts \<noteq> c" using inv(3) c(1) by (auto simp: own_def)
    have tk: "thread_ok w t (ts\<lparr>pc := PBackCb\<rparr>)" if "\<forall>g. g \<noteq> c \<longrightarrow> fibers w g = fibers (wrld s) g" "runnable w c" "stacked w c" for w
      using that c ne fr [of w "idle_fiber ts"] by (simp add: thread_ok_def)
    have "\<exists>w. leave_fiber l t 0 (wrld s) = Inr w \<and>
      sched_inv (moved s t w (ts\<lparr>pc := PBackCb\<rparr>) (m_activeThreadCount (sch s)) (m_idleThreadCount (sch s)))"
      by (rule leave_inv [OF assms(1,2) c(4,2)])
        (use 2 inv(3) c(1,3) in \<open>auto simp: own_def hand_def active_def idling_def intro!: tk\<close>)
    then show ?thesis using assms(2) 2 by (auto simp: run_leave_def set_pc_eq moved_def)
  next
    case 3
    have ok: "running (wrld s) (idle_fiber ts)" "t_fiber (wrld s) t = Some (idle_fiber ts)"
      "\<And>c. cb_fiber ts = Some c \<Longrightarrow> reusable (wrld s) c"
      using inv(1) 3 by (auto simp: thread_ok_def)
    have ne: "\<And>c. cb_fiber ts = Some c \<Longrightarrow> c \<noteq> idle_fiber ts" using inv(3) by (auto simp: own_def)
    have tk: "thread_ok w t (ts\<lparr>pc := PBackIdle\<rparr>)"
      if "\<forall>g. g \<noteq> idle_fiber ts \<longrightarrow> fibers w g = fibers (wrld s) g" "runnable w (idle_fiber ts)" for w
      using that ok ne fr [of w "idle_fiber ts"] fr [of w "the (cb_fiber ts)"]
      by (cases "cb_fiber ts") (simp_all add: thread_ok_def)
    have "\<exists>w. leave_fiber l t 0 (wrld s) = Inr w \<and>
      sched_inv (moved s t w (ts\<lparr>pc := PBackIdle\<rparr>) (m_activeThreadCount (sch s)) (m_idleThreadCount (sch s)))"
      by (rule leave_inv [OF assms(1,2) ok(2,1)])
        (use 3 inv(3) in \<open>auto simp: own_def hand_def active_def idling_def intro!: tk\<close>)
    then show ?thesis using assms(2) 3 by (auto simp: run_leave_def set_pc_eq moved_def)
  qed
qed


lemma sys_update_order:
  "s\<lparr>sch := x, thr := y\<rparr> = (s :: 'cb ssys)\<lparr>thr := y, sch := x\<rparr>"
  "s\<lparr>sch := x, wrld := v, thr := y\<rparr> = s\<lparr>wrld := v, thr := y, sch := x\<rparr>"
  by simp_all

lemma hold_unless_dead_simps [simp]:
  "f \<noteq> g \<Longrightarrow> fibers (hold_unless_dead g w) f = fibers w f" "dom (fibers (hold_unless_dead g w)) = dom (fibers w)"
  "t_fiber (hold_unless_dead g w) = t_fiber w" "t_scheduler_fiber (hold_unless_dead g w) = t_scheduler_fiber w"
  by (auto simp: hold_unless_dead_def split: option.splits)

lemma hold_unless_dead_runnable [simp]:
  "runnable w f \<Longrightarrow> runnable (hold_unless_dead g w) f"
  by (auto simp: hold_unless_dead_def runnable_def split: option.splits)

lemma hold_unless_dead_reusable [simp]:
  "c \<noteq> g \<Longrightarrow> reusable (hold_unless_dead g w) c = reusable w c"
  by (auto simp: hold_unless_dead_def reusable_def split: option.splits)

lemma run_count_ok:
  assumes "sched_inv s" "thr s t = Some ts" "pc ts = PBackCb \<or> pc ts = PBackIdle \<or> (\<exists>f. pc ts = PBackF f)"
  shows "\<exists>s'. run_count t s = Inr s' \<and> sched_inv s'"
proof -
  note inv = inv_thread [OF assms(1,2)]
  let ?ac = "m_activeThreadCount (sch s)" and ?ic = "m_idleThreadCount (sch s)"
  consider f where "pc ts = PBackF f" | "pc ts = PBackCb" | "pc ts = PBackIdle" using assms(3) by blast
  then show ?thesis
  proof cases
    case (1 f)
    then have "sched_inv (moved s t (wrld s) (ts\<lparr>pc := PPostF f\<rparr>) (?ac - 1) ?ic)"
      using assms(1,2) inv
      by (intro sched_inv_step') (auto simp: own_def hand_def thread_ok_def active_def idling_def)
    then show ?thesis using assms(2) 1 by (auto simp: run_count_def set_pc_eq moved_def Let_def sys_update_order)
  next
    case 2
    then have "sched_inv (moved s t (wrld s) (ts\<lparr>pc := PPostCb\<rparr>) (?ac - 1) ?ic)"
      using assms(1,2) inv
      by (intro sched_inv_step') (auto simp: own_def hand_def thread_ok_def active_def idling_def)
    then show ?thesis using assms(2) 2 by (auto simp: run_count_def set_pc_eq moved_def Let_def sys_update_order)
  next
    case 3
    let ?w = "hold_unless_dead (idle_fiber ts) (wrld s)"
    have ok: "runnable (wrld s) (idle_fiber ts)" "\<And>c. cb_fiber ts = Some c \<Longrightarrow> reusable (wrld s) c"
      using inv(1) 3 by (auto simp: thread_ok_def)
    have ne: "\<And>c. cb_fiber ts = Some c \<Longrightarrow> c \<noteq> idle_fiber ts" using inv(3) by (auto simp: own_def)
    have "sched_inv (moved s t ?w (ts\<lparr>pc := PTop\<rparr>) ?ac (?ic - 1))"
    proof (rule sched_inv_step' [OF assms(1,2)])
      show "thread_ok ?w t (ts\<lparr>pc := PTop\<rparr>)" using ok ne by (simp add: thread_ok_def)
      show "\<forall>f. f \<notin> set (own ts) \<longrightarrow> f \<in> dom (fibers (wrld s)) \<longrightarrow> fibers ?w f = fibers (wrld s) f"
        using own_idle [of ts] by (metis hold_unless_dead_simps(1))
    qed (use inv(3) 3 in \<open>auto simp: own_def hand_def active_def idling_def\<close>)
    then show ?thesis using assms(2) 3 by (auto simp: run_count_def set_pc_eq moved_def Let_def sys_update_order)
  qed
qed

lemma run_post_ok:
  assumes "sched_inv s" "thr s t = Some ts" "pc ts = PPostCb \<or> (\<exists>f. pc ts = PPostF f)"
  shows "\<exists>s'. run_post t s = Inr s' \<and> sched_inv s'"
proof -
  note inv = inv_thread [OF assms(1,2)]
  let ?ac = "m_activeThreadCount (sch s)" and ?ic = "m_idleThreadCount (sch s)" and ?q = "m_fibers (sch s)"
  have tasks: "\<forall>ft\<in>set ?q. task_ok (wrld s) ft" using inv(6) .
  have resched: "sched_inv (s\<lparr>wrld := wrld s, thr := (thr s)(t \<mapsto> ts'),
      sch := (sch s)\<lparr>m_fibers := ?q @ [\<lparr>ft_fiber = Some f, ft_cb = None, ft_thread = - 1\<rparr>],
        m_activeThreadCount := ?ac, m_idleThreadCount := ?ic\<rparr>\<rparr>)"
    if "f \<in> set (own ts)" "runnable (wrld s) f" "set (own ts') = set (own ts) - {f}" "distinct (own ts')"
      "thread_ok (wrld s) t ts'" "active ts' = active ts" "idling ts' = idling ts" for f ts'
    using that inv(4,5) tasks assms(1,2)
    by (intro sched_inv_step) (auto simp: task_ok_def)
  consider f where "pc ts = PPostF f" | "pc ts = PPostCb" using assms(3) by blast
  then show ?thesis
  proof cases
    case (1 f)
    have ok: "runnable (wrld s) f" "runnable (wrld s) (idle_fiber ts)" "\<And>c. cb_fiber ts = Some c \<Longrightarrow> reusable (wrld s) c"
      using inv(1) 1 by (auto simp: thread_ok_def)
    have ne: "\<And>c. cb_fiber ts = Some c \<Longrightarrow> c \<noteq> f" "f \<in> set (own ts)" using inv(3) 1 by (auto simp: own_def hand_def)
    have own: "set (own (ts\<lparr>pc := PTop\<rparr>)) = set (own ts) - {f}" "distinct (own (ts\<lparr>pc := PTop\<rparr>))"
      using inv(3) 1 by (auto simp: own_def hand_def)
    have flags: "active (ts\<lparr>pc := PTop\<rparr>) = active ts" "idling (ts\<lparr>pc := PTop\<rparr>) = idling ts"
      using 1 by (simp_all add: active_def idling_def)
    show ?thesis
    proof (cases "fiber_is (wrld s) f READY")
      case True
      have "thread_ok (wrld s) t (ts\<lparr>pc := PTop\<rparr>)" using ok by (simp add: thread_ok_def)
      from resched [OF ne(2) ok(1) own this flags] show ?thesis
        using assms(2) 1 True by (auto simp: run_post_def set_pc_eq schedule_def scheduleNoLock_def sys_update_order)
    next
      case False
      let ?w = "hold_unless_dead f (wrld s)"
      have "sched_inv (moved s t ?w (ts\<lparr>pc := PTop\<rparr>) ?ac ?ic)"
      proof (rule sched_inv_step' [OF assms(1,2)])
        show "thread_ok ?w t (ts\<lparr>pc := PTop\<rparr>)" using ok ne by (simp add: thread_ok_def)
        show "\<forall>g. g \<notin> set (own ts) \<longrightarrow> g \<in> dom (fibers (wrld s)) \<longrightarrow> fibers ?w g = fibers (wrld s) g"
          using ne(2) by (metis hold_unless_dead_simps(1))
      qed (use own flags in auto)
      then show ?thesis using assms(2) 1 False by (auto simp: run_post_def set_pc_eq moved_def)
    qed
  next
    case 2
    obtain c where c: "cb_fiber ts = Some c" "runnable (wrld s) c" "stacked (wrld s) c" "runnable (wrld s) (idle_fiber ts)"
      using inv(1) 2 by (auto simp: thread_ok_def)
    let ?ts = "ts\<lparr>pc := PTop, cb_fiber := None\<rparr>"
    have own: "set (own ?ts) = set (own ts) - {c}" "distinct (own ?ts)" and ne: "idle_fiber ts \<noteq> c" "c \<in> set (own ts)"
      using inv(3) 2 c(1) by (auto simp: own_def hand_def)
    have flags: "active ?ts = active ts" "idling ?ts = idling ts" "active (ts\<lparr>pc := PTop\<rparr>) = active ts"
      "idling (ts\<lparr>pc := PTop\<rparr>) = idling ts"
      using 2 by (simp_all add: active_def idling_def)
    have tok: "thread_ok w t ?ts" if "runnable w (idle_fiber ts)" for w using that by (simp add: thread_ok_def)
    consider "fiber_is (wrld s) c READY" | "\<not> fiber_is (wrld s) c READY" "dead (wrld s) c"
      | "\<not> fiber_is (wrld s) c READY" "\<not> dead (wrld s) c" by blast
    then show ?thesis
    proof cases
      case ready: 1
      from resched [OF ne(2) c(2) own tok [OF c(4)] flags(1,2)] show ?thesis
        using assms(2) 2 ready c(1) by (auto simp: run_post_def schedule_def scheduleNoLock_def sys_update_order)
    next
      case dd: 2
      obtain fb where fb: "fibers (wrld s) c = Some fb" "fb_stack fb" "ended (fb_state fb)"
        using c(3) dd(2) by (auto simp: stacked_def dead_def fiber_is_def ended_def)
      let ?w = "set_fiber c (fb\<lparr>fb_cb := None, fb_entry := MainFunc, fb_state := INIT\<rparr>) (wrld s)"
      have "thread_ok ?w t (ts\<lparr>pc := PTop\<rparr>)"
        using c ne fb by (auto simp: thread_ok_def reusable_def runnable_def ended_def)
      then have "sched_inv (moved s t ?w (ts\<lparr>pc := PTop\<rparr>) ?ac ?ic)"
        using assms(1,2) 2 ne(2) inv(3) flags
        by (intro sched_inv_step') (auto simp: own_def hand_def)
      then show ?thesis
        using assms(2) 2 dd c(1) fb by (auto simp: run_post_def set_pc_eq moved_def fiber_reset_def)
    next
      case hd: 3
      let ?w = "hold_unless_dead c (wrld s)"
      have "sched_inv (moved s t ?w ?ts ?ac ?ic)"
      proof (rule sched_inv_step' [OF assms(1,2)])
        show "thread_ok ?w t ?ts" using c(4) by (intro tok) simp
        show "\<forall>g. g \<notin> set (own ts) \<longrightarrow> g \<in> dom (fibers (wrld s)) \<longrightarrow> fibers ?w g = fibers (wrld s) g"
          using ne(2) by (metis hold_unless_dead_simps(1))
      qed (use own flags in auto)
      then show ?thesis using assms(2) 2 hd c(1) by (auto simp: run_post_def moved_def)
    qed
  qed
qed


section \<open>Starting threads and scheduling work\<close>

lemma tcount_new:
  assumes "T t = None" "\<not> P ts"
  shows "tcount P (T(t \<mapsto> ts)) = tcount P T"
proof -
  have "{u. \<exists>us. (T(t \<mapsto> ts)) u = Some us \<and> P us} = {u. \<exists>us. T u = Some us \<and> P us}"
    using assms by auto
  then show ?thesis by (simp add: tcount_def)
qed

lemma inv_own_dom:
  assumes "sched_inv s" "thr s u = Some us"
  shows "set (own us) \<subseteq> dom (fibers (wrld s))"
  using inv_thread(1) [OF assms]
  by (cases "cb_fiber us"; cases "pc us") (auto simp: thread_ok_def own_def hand_def task_ok_def runnable_def
        running_def reusable_def split: option.splits)

lemma inv_queue_dom: "sched_inv s \<Longrightarrow> set (queued (m_fibers (sch s))) \<subseteq> dom (fibers (wrld s))"
  by (fastforce simp: sched_inv_def queued_mem task_ok_def runnable_def)

lemma run_begin_ok:
  fixes s :: "'cb ssys"
  assumes "sched_inv s" "thr s t = None" "idle \<notin> dom (fibers (wrld s))" "main \<notin> dom (fibers (wrld s))" "main \<noteq> idle" "junk \<noteq> EXEC"
    and "int t = m_rootThread (sch s) \<longrightarrow> has_main (wrld s) t"
    and "\<forall>f. t_fiber (wrld s) t = Some f \<longrightarrow> f \<in> dom (fibers (wrld s))"
  shows "\<exists>s'. run_begin dflt t main idle junk cbi s = Inr s' \<and> sched_inv s'"
proof -
  let ?ts = "\<lparr>pc = PTop, cb_fiber = None, idle_fiber = idle\<rparr> :: 'cb tstate"
  obtain w1 where w1: "(if int t \<noteq> m_rootThread (sch s) then
      bindE (fiber_GetThis t main (wrld s)) (\<lambda>(f, w). Inr (w\<lparr>t_scheduler_fiber := (t_scheduler_fiber w)(t := Some f)\<rparr>))
      else Inr (wrld s)) = Inr w1"
    "\<forall>f\<in>dom (fibers (wrld s)). fibers w1 f = fibers (wrld s) f" "has_main w1 t" "idle \<notin> dom (fibers w1)"
    "\<forall>u. u \<noteq> t \<longrightarrow> t_fiber w1 u = t_fiber (wrld s) u \<and> t_scheduler_fiber w1 u = t_scheduler_fiber (wrld s) u"
  proof (cases "int t = m_rootThread (sch s)")
    case True
    then show ?thesis using that [of "wrld s"] assms(3,7) by simp
  next
    case False
    show ?thesis
    proof (cases "t_fiber (wrld s) t")
      case None
      let ?w = "newMainFiber t main (wrld s)"
      show ?thesis
        using that [of "?w\<lparr>t_threadFiber := (t_threadFiber ?w)(t := Some main), t_scheduler_fiber := (t_scheduler_fiber ?w)(t := Some main)\<rparr>"]
          None False assms(3-5) by (auto simp: fiber_GetThis_def newMainFiber_def has_main_def Let_def)
    next
      case (Some f)
      then show ?thesis
        using that [of "wrld s\<lparr>t_scheduler_fiber := (t_scheduler_fiber (wrld s))(t := Some f)\<rparr>"] False assms(3,8)
        by (auto simp: fiber_GetThis_def has_main_def)
    qed
  qed
  define w where "w = newFiber dflt idle junk (Some cbi) 0 False w1"
  have w: "run_begin dflt t main idle junk cbi s = Inr (s\<lparr>wrld := w, thr := (thr s)(t \<mapsto> ?ts)\<rparr>)"
    "\<forall>f\<in>dom (fibers (wrld s)). fibers w f = fibers (wrld s) f" "has_main w t" "runnable w idle"
    "\<forall>u. u \<noteq> t \<longrightarrow> t_fiber w u = t_fiber (wrld s) u \<and> t_scheduler_fiber w u = t_scheduler_fiber (wrld s) u"
    using w1 assms(3,6) by (auto simp: run_begin_def w_def newFiber_def has_main_def runnable_def)
  have own: "own ?ts = [idle]" by (simp add: own_def hand_def)
  have old: "thread_ok w u us \<and> has_main w u \<and> distinct (own us) \<and> set (own us) \<inter> set (queued (m_fibers (sch s))) = {} \<and>
      idle \<notin> set (own us)" if u: "thr s u = Some us" for u us
  proof -
    note i = inv_thread [OF assms(1) u] and d = inv_own_dom [OF assms(1) u]
    have ut: "u \<noteq> t" using u assms(2) by auto
    have "thread_ok w u us" using thread_ok_frame [of us w "wrld s" u] i(1) d w(2,5) ut by blast
    moreover obtain g gb where "t_scheduler_fiber (wrld s) u = Some g" "fibers (wrld s) g = Some gb"
      using i(2) by (auto simp: has_main_def)
    then have "has_main w u" using w(2,5) ut unfolding has_main_def by (metis domI)
    ultimately show ?thesis using i(3,4) d assms(3) by blast
  qed
  have "\<forall>ft\<in>set (m_fibers (sch s)). task_ok w ft"
  proof
    fix ft assume "ft \<in> set (m_fibers (sch s))"
    moreover have "task_ok (wrld s) ft" using assms(1) calculation by (simp add: sched_inv_def)
    moreover have "f \<in> dom (fibers (wrld s))" if "ft_fiber ft = Some f" for f
      using calculation that by (auto simp: task_ok_def runnable_def)
    ultimately show "task_ok w ft" using task_ok_frame [of ft w "wrld s"] w(2) by blast
  qed
  moreover have "thread_ok w t ?ts" using w(4) by (simp add: thread_ok_def)
  moreover have "idle \<notin> set (queued (m_fibers (sch s)))" using inv_queue_dom [OF assms(1)] assms(3) by blast
  moreover have "tcount active ((thr s)(t \<mapsto> ?ts)) = tcount active (thr s)"
    "tcount idling ((thr s)(t \<mapsto> ?ts)) = tcount idling (thr s)"
    using assms(2) by (simp_all add: tcount_new active_def idling_def)
  moreover have same: "set (own us) \<inter> set (own us') = {}" if "thr s u = Some us" "thr s u' = Some us'" "u' \<noteq> u" for u us u' us'
    using assms(1) that unfolding sched_inv_def by blast
  moreover have "thread_ok w u us \<and> has_main w u \<and> distinct (own us) \<and> set (own us) \<inter> set (queued (m_fibers (sch s))) = {} \<and>
     (\<forall>u' us'. ((thr s)(t \<mapsto> ?ts)) u' = Some us' \<longrightarrow> u' \<noteq> u \<longrightarrow> set (own us) \<inter> set (own us') = {})"
    if "((thr s)(t \<mapsto> ?ts)) u = Some us" for u us
  proof (cases "u = t")
    case True
    then show ?thesis using that own calculation w(3) old by (auto split: if_splits)
  next
    case False
    then have u: "thr s u = Some us" using that by simp
    show ?thesis using old [OF u] same [OF u] own by (auto split: if_splits)
  qed
  ultimately have "sched_inv (s\<lparr>wrld := w, thr := (thr s)(t \<mapsto> ?ts)\<rparr>)"
    using assms(1) unfolding sched_inv_def by simp
  then show ?thesis using w(1) by blast
qed

text \<open>
  A client may schedule a callback at any time, and a fiber that is not running, not already in
  the list, and not held by a worker.
\<close>

definition free_fiber :: "'cb ssys \<Rightarrow> fid \<Rightarrow> bool" where
  "free_fiber s f \<longleftrightarrow> runnable (wrld s) f \<and> f \<notin> set (queued (m_fibers (sch s))) \<and>
     (\<forall>t ts. thr s t = Some ts \<longrightarrow> f \<notin> set (own ts))"

lemma schedule_ok:
  fixes s :: "'cb ssys" and cb :: "'cb option"
  assumes "sched_inv s" "case f of None \<Rightarrow> True | Some g \<Rightarrow> cb = None \<and> free_fiber s g"
  shows "sched_inv (s\<lparr>sch := snd (schedule f cb thread (sch s))\<rparr>)"
  using assms
  by (auto simp: sched_inv_def schedule_def scheduleNoLock_def free_fiber_def task_ok_def split: option.splits)

lemma scheduleRange_ok: "sched_inv s \<Longrightarrow> sched_inv (s\<lparr>sch := snd (scheduleRange cbs (sch s))\<rparr>)"
proof (induction cbs arbitrary: s)
  case (Cons cb cbs)
  let ?s = "s\<lparr>sch := snd (schedule None cb (- 1) (sch s))\<rparr>"
  have "sched_inv (?s\<lparr>sch := snd (scheduleRange cbs (sch ?s))\<rparr>)"
    using Cons.prems schedule_ok [where s = s and f = None and cb = cb and thread = "- 1"]
    by (intro Cons.IH) simp
  then show ?case by (cases "scheduleNoLock None cb (- 1) (sch s)") (auto simp: schedule_def split: prod.splits)
qed simp


section \<open>The reachable states\<close>

text \<open>
  The steps of the workers and of their clients.  A client starts workers, makes fibers, schedules
  callbacks and free fibers, and asks to stop.  An idle fiber ends only when \<^verbatim>\<open>stopping()\<close> holds.
\<close>

inductive sched_step :: "'cb ssys \<Rightarrow> 'cb ssys \<Rightarrow> bool" where
  w_begin: "thr s t = None \<Longrightarrow> idle \<notin> dom (fibers (wrld s)) \<Longrightarrow> main \<notin> dom (fibers (wrld s)) \<Longrightarrow> main \<noteq> idle \<Longrightarrow>
    junk \<noteq> EXEC \<Longrightarrow> (int t = m_rootThread (sch s) \<longrightarrow> has_main (wrld s) t) \<Longrightarrow>
    (\<forall>f. t_fiber (wrld s) t = Some f \<longrightarrow> f \<in> dom (fibers (wrld s))) \<Longrightarrow>
    run_begin dflt t main idle junk cbi s = Inr s' \<Longrightarrow> sched_step s s'"
| w_pick: "thr s t = Some ts \<Longrightarrow> pc ts = PTop \<Longrightarrow> run_pick t s = Inr s' \<Longrightarrow> sched_step s s'"
| w_dispatch: "thr s t = Some ts \<Longrightarrow> pc ts = PGot ft \<Longrightarrow> a \<notin> dom (fibers (wrld s)) \<Longrightarrow> junk \<noteq> EXEC \<Longrightarrow>
    run_dispatch dflt t a junk ft s = Inr s' \<Longrightarrow> sched_step s s'"
| w_leave: "thr s t = Some ts \<Longrightarrow> pc ts = PCb \<or> (\<exists>f. pc ts = PFiber f) \<Longrightarrow> run_leave l t s = Inr s' \<Longrightarrow> sched_step s s'"
| w_idle: "thr s t = Some ts \<Longrightarrow> pc ts = PIdle \<Longrightarrow> l = LHold \<or> l = LDone \<and> stopping (sch s) \<Longrightarrow>
    run_leave l t s = Inr s' \<Longrightarrow> sched_step s s'"
| w_count: "thr s t = Some ts \<Longrightarrow> pc ts = PBackCb \<or> pc ts = PBackIdle \<or> (\<exists>f. pc ts = PBackF f) \<Longrightarrow>
    run_count t s = Inr s' \<Longrightarrow> sched_step s s'"
| w_post: "thr s t = Some ts \<Longrightarrow> pc ts = PPostCb \<or> (\<exists>f. pc ts = PPostF f) \<Longrightarrow> run_post t s = Inr s' \<Longrightarrow> sched_step s s'"
| c_fiber: "free_fiber s f \<Longrightarrow> sched_step s (s\<lparr>sch := snd (schedule (Some f) None thread (sch s))\<rparr>)"
| c_cb: "sched_step s (s\<lparr>sch := snd (schedule None (Some cb) thread (sch s))\<rparr>)"
| c_range: "sched_step s (s\<lparr>sch := snd (scheduleRange cbs (sch s))\<rparr>)"
| c_new: "a \<notin> dom (fibers (wrld s)) \<Longrightarrow> sched_step s (s\<lparr>wrld := newFiber dflt a junk cb stacksize use_caller (wrld s)\<rparr>)"
| c_stop: "sched_step s (s\<lparr>sch := (sch s)\<lparr>m_autoStop := True, m_stopping := b\<rparr>\<rparr>)"

inductive sched_reachable :: "'cb ssys \<Rightarrow> bool" where
  init: "newScheduler dflt t main root junk cbr busy threads use_caller name w = Inr s \<Longrightarrow> sched_reachable s"
| step: "sched_reachable s \<Longrightarrow> sched_step s s' \<Longrightarrow> sched_reachable s'"

lemma newFiber_frame:
  assumes "sched_inv s" "a \<notin> dom (fibers (wrld s))"
  shows "sched_inv (s\<lparr>wrld := newFiber dflt a junk cb stacksize use_caller (wrld s)\<rparr>)"
proof -
  let ?w = "newFiber dflt a junk cb stacksize use_caller (wrld s)"
  have fr: "\<forall>f\<in>dom (fibers (wrld s)). fibers ?w f = fibers (wrld s) f" "t_fiber ?w = t_fiber (wrld s)"
    "t_scheduler_fiber ?w = t_scheduler_fiber (wrld s)"
    using assms(2) by (auto simp: newFiber_def)
  have th: "thread_ok ?w u us \<and> has_main ?w u" if u: "thr s u = Some us" for u us
  proof -
    obtain g gb where "t_scheduler_fiber (wrld s) u = Some g" "fibers (wrld s) g = Some gb"
      using inv_thread(2) [OF assms(1) u] by (auto simp: has_main_def)
    then have "has_main ?w u" unfolding has_main_def using fr by (metis domI)
    moreover have "thread_ok ?w u us"
      using thread_ok_frame [of us ?w "wrld s" u] inv_thread(1) [OF assms(1) u] inv_own_dom [OF assms(1) u] fr by auto
    ultimately show ?thesis by blast
  qed
  have "task_ok ?w ft" if "ft \<in> set (m_fibers (sch s))" for ft
  proof -
    have ok: "task_ok (wrld s) ft" using assms(1) that by (simp add: sched_inv_def)
    then have "f \<in> dom (fibers (wrld s))" if "ft_fiber ft = Some f" for f
      using that by (auto simp: task_ok_def runnable_def)
    then show ?thesis using ok task_ok_frame [of ft ?w "wrld s"] fr(1) by blast
  qed
  then show ?thesis using assms(1) th unfolding sched_inv_def by simp
qed

lemma sched_step_inv: "sched_step s s' \<Longrightarrow> sched_inv s \<Longrightarrow> sched_inv s'"
proof (induction rule: sched_step.induct)
  case (w_begin s t idle main junk dflt cbi s')
  then show ?case using run_begin_ok [of s t idle main junk dflt cbi] by auto
next
  case (w_pick s t ts s')
  then show ?case using run_pick_ok [of s t ts] by auto
next
  case (w_dispatch s t ts ft a junk dflt s')
  then show ?case using run_dispatch_ok [of s t ts ft a junk dflt] by auto
next
  case (w_leave s t ts l s')
  then show ?case using run_leave_ok [of s t ts l] by auto
next
  case (w_idle s t ts l s')
  then show ?case using run_leave_ok [of s t ts l] by auto
next
  case (w_count s t ts s')
  then show ?case using run_count_ok [of s t ts] by auto
next
  case (w_post s t ts s')
  then show ?case using run_post_ok [of s t ts] by auto
next
  case (c_fiber s f thread)
  then show ?case by (intro schedule_ok) auto
next
  case (c_cb s cb thread)
  then show ?case by (intro schedule_ok) auto
next
  case (c_range s cbs)
  then show ?case by (rule scheduleRange_ok)
next
  case (c_new a s dflt junk cb stacksize use_caller)
  then show ?case by (intro newFiber_frame)
next
  case (c_stop s b)
  then show ?case by (simp add: sched_inv_def)
qed

lemma sched_reachable_inv: "sched_reachable s \<Longrightarrow> sched_inv s"
proof (induction rule: sched_reachable.induct)
  case (init dflt t main root junk cbr busy threads use_caller name w s)
  then show ?case
    by (auto simp: newScheduler_def sched_inv_def tcount_def err_simps Let_def split: if_splits)
next
  case (step s s')
  show ?case by (rule sched_step_inv [OF step(2) step.IH])
qed


section \<open>Properties\<close>

text \<open>A scheduler with one worker (thread 1) and one callback to run; its second state has taken it.\<close>

definition demoInit :: "nat ssys" where
  "demoInit = \<lparr>sch = \<lparr>m_fibers = [], m_name = ''s'', m_threadIds = [], m_threads = [], m_threadCount = 1,
     m_activeThreadCount = 0, m_idleThreadCount = 0, m_stopping = True, m_autoStop = False, m_rootThread = - 1,
     m_rootFiber = None\<rparr>, wrld = newWorld, thr = Map.empty\<rparr>"

lemma demoInit_reachable: "sched_reachable demoInit"
  using sched_reachable.init [of 0 0 0 0 INIT 0 False 1 False "''s''" newWorld demoInit]
  by (simp add: newScheduler_def demoInit_def)

lemma demo_worker: "\<exists>s. sched_reachable s \<and> thr s 1 = Some \<lparr>pc = PTop, cb_fiber = None, idle_fiber = 7\<rparr> \<and>
    m_fibers (sch s) = [\<lparr>ft_fiber = None, ft_cb = Some (5 :: nat), ft_thread = - 1\<rparr>] \<and> 8 \<notin> dom (fibers (wrld s))"
proof -
  have inv: "sched_inv demoInit" by (rule sched_reachable_inv [OF demoInit_reachable])
  obtain s1 where s1: "run_begin 0 1 6 7 INIT 9 demoInit = Inr s1"
    using run_begin_ok [OF inv, of 1 7 6 INIT 0 9] by (auto simp: demoInit_def newWorld_def)
  then have th: "thr s1 1 = Some \<lparr>pc = PTop, cb_fiber = None, idle_fiber = 7\<rparr>" "m_fibers (sch s1) = []" "8 \<notin> dom (fibers (wrld s1))"
    by (auto simp: newFiber_def run_begin_def demoInit_def newWorld_def fiber_GetThis_def newMainFiber_def)
  have "sched_step demoInit s1"
    by (rule w_begin [OF _ _ _ _ _ _ _ s1]) (auto simp: demoInit_def newWorld_def)
  then have r1: "sched_reachable s1" using sched_reachable.step [OF demoInit_reachable] by blast
  let ?s2 = "s1\<lparr>sch := snd (schedule None (Some 5) (- 1) (sch s1))\<rparr>"
  have "sched_reachable ?s2" by (rule sched_reachable.step [OF r1 c_cb])
  then show ?thesis using th by (intro exI [of _ ?s2]) (simp add: schedule_def scheduleNoLock_def)
qed






text \<open>
  \<^verbatim>\<open>stopping()\<close> is exact.  In every reachable state \<^verbatim>\<open>m_activeThreadCount\<close> is the number
  of workers that have taken a task and not come back from it, so with fewer than \<open>2^64\<close> threads
  \<^verbatim>\<open>stopping()\<close> holds exactly when a stop was asked for, the list is empty and no worker is busy.
\<close>

theorem stopping_exact:
  assumes "sched_reachable s" "card (dom (thr s)) < 2 ^ 64"
  shows "stopping (sch s) \<longleftrightarrow> m_autoStop (sch s) \<and> m_stopping (sch s) \<and> m_fibers (sch s) = [] \<and>
    (\<forall>t ts. thr s t = Some ts \<longrightarrow> \<not> active ts)"
proof -
  let ?A = "{t. \<exists>ts. thr s t = Some ts \<and> active ts}"
  have inv: "finite (dom (thr s))" "m_activeThreadCount (sch s) = tcount active (thr s)"
    using sched_reachable_inv [OF assms(1)] by (simp_all add: sched_inv_def)
  have sub: "?A \<subseteq> dom (thr s)" by auto
  have "card ?A \<le> card (dom (thr s))" using inv(1) sub by (rule card_mono)
  then have lt: "card ?A < 2 ^ 64" using assms(2) by simp
  then have "m_activeThreadCount (sch s) = 0 \<longleftrightarrow> card ?A = 0"
    unfolding inv(2) tcount_def by (simp add: of_nat_eq_0_iff unat_eq_zero [symmetric] unat_of_nat take_bit_nat_eq_self)
  also have "\<dots> \<longleftrightarrow> ?A = {}" using finite_subset [OF sub inv(1)] by simp
  finally show ?thesis by (auto simp: stopping_def)
qed

theorem stopping_exact_witness:
  "\<not> stopping (sch demoInit) \<and> card (dom (thr demoInit)) < 2 ^ 64"
  using stopping_exact [OF demoInit_reachable] by (simp add: demoInit_def)

text \<open>
  A worker takes the first task of the list that is meant for it or for anybody and whose
  fiber is not running, leaves the others in their order, and takes nothing only when there is no such
  task.
\<close>

theorem pick_first_eligible:
  assumes "\<forall>ft\<in>set q. ft_fiber ft \<noteq> None \<or> ft_cb ft \<noteq> None"
  shows "\<exists>tk p q'. pick t w q = Inr (tk, p, q') \<and>
    (case p of
       None \<Rightarrow> q' = q \<and> (\<forall>ft\<in>set q. \<not> eligible t w ft)
     | Some ft \<Rightarrow> \<exists>xs ys. q = xs @ ft # ys \<and> q' = xs @ ys \<and> eligible t w ft \<and> (\<forall>x\<in>set xs. \<not> eligible t w x))"
  by (rule pick_spec [OF assms])

theorem pick_first_eligible_witness:
  "\<exists>tk p q'. pick 1 (newWorld :: nat fworld)
     [\<lparr>ft_fiber = None, ft_cb = Some 5, ft_thread = 2\<rparr>, \<lparr>ft_fiber = None, ft_cb = Some 6, ft_thread = - 1\<rparr>] = Inr (tk, p, q')"
  using pick_first_eligible [of "[\<lparr>ft_fiber = None, ft_cb = Some 5, ft_thread = 2\<rparr>, \<lparr>ft_fiber = None, ft_cb = Some 6, ft_thread = - 1\<rparr>]"
      1 "newWorld :: nat fworld"] by simp

text \<open>
  The locked part of a round loses no task.  It takes at most one task out of the list,
  and then exactly the worker that took it has it in hand; every other task stays in the list.
\<close>

theorem task_leaves_list_once:
  assumes "sched_inv s" "run_pick t s = Inr s'" "thr s t = Some ts" "pc ts = PTop"
  shows "m_fibers (sch s') = m_fibers (sch s) \<or>
    (\<exists>ft ts'. thr s' t = Some ts' \<and> pc ts' = PGot ft \<and> eligible (int t) (wrld s) ft \<and>
      mset (m_fibers (sch s)) = add_mset ft (mset (m_fibers (sch s'))) \<and> (\<forall>u. u \<noteq> t \<longrightarrow> thr s' u = thr s u))"
proof -
  let ?q = "m_fibers (sch s)"
  have "\<forall>ft\<in>set ?q. ft_fiber ft \<noteq> None \<or> ft_cb ft \<noteq> None"
    using inv_thread(6) [OF assms(1,3)] task_ok_nonempty by blast
  from pick_spec [OF this, of "int t" "wrld s"] obtain tk p q where p: "pick (int t) (wrld s) ?q = Inr (tk, p, q)"
    "case p of None \<Rightarrow> q = ?q \<and> (\<forall>ft\<in>set ?q. \<not> eligible (int t) (wrld s) ft)
     | Some ft \<Rightarrow> \<exists>xs ys. ?q = xs @ ft # ys \<and> q = xs @ ys \<and> eligible (int t) (wrld s) ft \<and>
         (\<forall>x\<in>set xs. \<not> eligible (int t) (wrld s) x)"
    by blast
  show ?thesis
  proof (cases p)
    case None
    then have "m_fibers (sch s') = ?q"
      using assms(2,3) p(1) by (auto simp: run_pick_def set_pc_eq err_simps split: if_splits)
    then show ?thesis ..
  next
    case (Some ft)
    then have s': "s' = s\<lparr>thr := (thr s)(t \<mapsto> ts\<lparr>pc := PGot ft\<rparr>),
        sch := (sch s)\<lparr>m_fibers := q, m_activeThreadCount := m_activeThreadCount (sch s) + 1\<rparr>\<rparr>"
      using assms(2,3) p(1) by (auto simp: run_pick_def set_pc_eq)
    obtain xs ys where "?q = xs @ ft # ys" "q = xs @ ys" "eligible (int t) (wrld s) ft" using p(2) Some by auto
    then show ?thesis unfolding s' by (intro disjI2 exI [of _ ft]) simp
  qed
qed

theorem task_leaves_list_once_witness:
  "\<exists>(s :: nat ssys) s'. run_pick 1 s = Inr s' \<and> m_fibers (sch s) \<noteq> []"
proof -
  obtain s :: "nat ssys" where s: "sched_reachable s" "thr s 1 = Some \<lparr>pc = PTop, cb_fiber = None, idle_fiber = 7\<rparr>"
    "m_fibers (sch s) = [\<lparr>ft_fiber = None, ft_cb = Some 5, ft_thread = - 1\<rparr>]"
    using demo_worker by blast
  note inv = sched_reachable_inv [OF s(1)]
  obtain s' where s': "run_pick 1 s = Inr s'" using run_pick_ok [OF inv s(2)] by auto
  have "m_fibers (sch s') = m_fibers (sch s) \<or> (\<exists>ft ts'. thr s' 1 = Some ts' \<and> pc ts' = PGot ft)"
    using task_leaves_list_once [OF inv s' s(2)] by auto
  then show ?thesis using s(3) s' by auto
qed

text \<open>
  The constructor of a fiber does not set its state.  When the memory it gets happens to
  hold \<^verbatim>\<open>EXEC\<close>, the first switch to the new fiber fails its assertion.
\<close>

theorem fresh_fiber_may_fail:
  assumes "GetMainFiber t w = Some g" "g \<in> dom (fibers w)"
  shows "swapIn t a (newFiber dflt a EXEC cb 0 False w) = Inl AssertFail"
  using assms by (auto simp: swapIn_def newFiber_def Let_def)

theorem fresh_fiber_may_fail_witness:
  "swapIn 1 3 (newFiber 0 3 EXEC (Some (0 :: nat)) 0 False
     ((newMainFiber 1 2 newWorld)\<lparr>t_scheduler_fiber := (\<lambda>_. Some 2)\<rparr>)) = Inl AssertFail"
  by (rule fresh_fiber_may_fail) (auto simp: GetMainFiber_def newMainFiber_def)

end
