(* ===== verification/StdContainers.thy ===== *)
theory StdContainers
  imports Prelude
begin

text \<open>
  The ordered containers of the standard library the program uses, \<^verbatim>\<open>std::set\<close> and \<^verbatim>\<open>std::map\<close> with
  a comparator, as lists in the order the iterators visit them.  The search of the tree is the
  walk to the first element that is not less than the key (the lower bound), which is what the
  tree search finds in a container sorted by its comparator.  The locale \<open>comparator\<close> is the
  contract the standard asks of a comparator (a strict weak order); its lemmas are the behaviour the
  standard promises for the operations.
\<close>

section \<open>Operations\<close>

fun set_insert :: "('a \<Rightarrow> 'a \<Rightarrow> bool) \<Rightarrow> 'a \<Rightarrow> 'a list \<Rightarrow> 'a list" where
  "set_insert lt x [] = [x]"
| "set_insert lt x (y # ys) =
     (if lt y x then y # set_insert lt x ys else if lt x y then x # y # ys else y # ys)"

fun set_find :: "('a \<Rightarrow> 'a \<Rightarrow> bool) \<Rightarrow> 'a \<Rightarrow> 'a list \<Rightarrow> 'a option" where
  "set_find lt x [] = None"
| "set_find lt x (y # ys) =
     (if lt y x then set_find lt x ys else if lt x y then None else Some y)"

fun set_erase :: "('a \<Rightarrow> 'a \<Rightarrow> bool) \<Rightarrow> 'a \<Rightarrow> 'a list \<Rightarrow> 'a list" where
  "set_erase lt x [] = []"
| "set_erase lt x (y # ys) =
     (if lt y x then y # set_erase lt x ys else if lt x y then y # ys else ys)"

text \<open>The elements before and from \<^verbatim>\<open>upper_bound(x)\<close>.\<close>

definition before_upper :: "('a \<Rightarrow> 'a \<Rightarrow> bool) \<Rightarrow> 'a \<Rightarrow> 'a list \<Rightarrow> 'a list" where
  "before_upper lt x xs = takeWhile (\<lambda>y. \<not> lt x y) xs"

definition from_upper :: "('a \<Rightarrow> 'a \<Rightarrow> bool) \<Rightarrow> 'a \<Rightarrow> 'a list \<Rightarrow> 'a list" where
  "from_upper lt x xs = dropWhile (\<lambda>y. \<not> lt x y) xs"

text \<open>A map as its list of pairs: \<^verbatim>\<open>m[k] = v\<close>, \<^verbatim>\<open>m.find(k)\<close>, \<^verbatim>\<open>m.erase(k)\<close> and \<^verbatim>\<open>m.insert\<close>.\<close>

fun map_assign :: "('k \<Rightarrow> 'k \<Rightarrow> bool) \<Rightarrow> 'k \<Rightarrow> 'v \<Rightarrow> ('k \<times> 'v) list \<Rightarrow> ('k \<times> 'v) list" where
  "map_assign lt k v [] = [(k, v)]"
| "map_assign lt k v ((k', v') # m) =
     (if lt k' k then (k', v') # map_assign lt k v m
      else if lt k k' then (k, v) # (k', v') # m else (k', v) # m)"

fun map_find :: "('k \<Rightarrow> 'k \<Rightarrow> bool) \<Rightarrow> 'k \<Rightarrow> ('k \<times> 'v) list \<Rightarrow> 'v option" where
  "map_find lt k [] = None"
| "map_find lt k ((k', v') # m) =
     (if lt k' k then map_find lt k m else if lt k k' then None else Some v')"

fun map_erase :: "('k \<Rightarrow> 'k \<Rightarrow> bool) \<Rightarrow> 'k \<Rightarrow> ('k \<times> 'v) list \<Rightarrow> ('k \<times> 'v) list" where
  "map_erase lt k [] = []"
| "map_erase lt k ((k', v') # m) =
     (if lt k' k then (k', v') # map_erase lt k m else if lt k k' then (k', v') # m else m)"

definition map_insert :: "('k \<Rightarrow> 'k \<Rightarrow> bool) \<Rightarrow> 'k \<Rightarrow> 'v \<Rightarrow> ('k \<times> 'v) list \<Rightarrow> ('k \<times> 'v) list" where
  "map_insert lt k v m = (case map_find lt k m of None \<Rightarrow> map_assign lt k v m | Some _ \<Rightarrow> m)"

section \<open>The contract of a comparator\<close>

text \<open>
  \<open>on\<close> restricts the order to the keys the container can hold (for a comparator that reads
  objects through pointers, the pointers that are alive).
\<close>

locale comparator =
  fixes lt :: "'k \<Rightarrow> 'k \<Rightarrow> bool" and on :: "'k \<Rightarrow> bool"
  assumes lt_irrefl: "on x \<Longrightarrow> \<not> lt x x"
    and lt_trans: "on x \<Longrightarrow> on y \<Longrightarrow> on z \<Longrightarrow> lt x y \<Longrightarrow> lt y z \<Longrightarrow> lt x z"
    and equiv_trans: "on x \<Longrightarrow> on y \<Longrightarrow> on z \<Longrightarrow> \<not> lt x y \<Longrightarrow> \<not> lt y z \<Longrightarrow> \<not> lt x z"
begin

lemma lt_asym: "on x \<Longrightarrow> on y \<Longrightarrow> lt x y \<Longrightarrow> \<not> lt y x"
  using lt_irrefl lt_trans by blast

lemma insert_set: "set (set_insert lt x xs) \<subseteq> insert x (set xs)"
  by (induction xs) auto

lemma erase_set: "set (set_erase lt x xs) \<subseteq> set xs"
  by (induction xs) auto

lemma insert_sorted:
  assumes "sorted_wrt lt xs" "on x" "\<forall>y\<in>set xs. on y"
  shows "sorted_wrt lt (set_insert lt x xs)"
  using assms
proof (induction xs)
  case (Cons y ys)
  have "\<forall>z\<in>set (set_insert lt x ys). lt y z" if "lt y x"
    using Cons.prems(1) that insert_set [of x ys] by auto
  moreover have "\<forall>z\<in>set ys. lt x z" if "lt x y"
  proof
    fix z assume z: "z \<in> set ys"
    have "lt y z" using Cons.prems(1) z by simp
    then show "lt x z" using that Cons.prems(2,3) z lt_trans [of x y z] by simp
  qed
  ultimately show ?case using Cons by auto
qed simp

lemma erase_sorted: "sorted_wrt lt xs \<Longrightarrow> sorted_wrt lt (set_erase lt x xs)"
  by (induction xs) (use erase_set in auto)

text \<open>A find returns an element equivalent to the key whenever there is one.\<close>

lemma find_iff:
  assumes "sorted_wrt lt xs" "on x" "\<forall>y\<in>set xs. on y"
  shows "set_find lt x xs = Some y \<longleftrightarrow> y \<in> set xs \<and> \<not> lt x y \<and> \<not> lt y x"
  using assms
proof (induction xs)
  case (Cons z zs)
  have z: "on z" "\<forall>w\<in>set zs. lt z w" using Cons.prems by auto
  show ?case
  proof (cases "lt z x")
    case True
    then show ?thesis using Cons by auto
  next
    case False
    have "lt x w" if "lt x z" "w \<in> set zs" for w
      using that z Cons.prems(2,3) lt_trans [of x z w] by auto
    moreover have "lt x w" if "\<not> lt x z" "w \<in> set zs" for w
    proof (rule ccontr)
      assume "\<not> lt x w"
      moreover have "\<not> lt z x" by (rule False)
      ultimately have "\<not> lt z w" using that z Cons.prems(2,3) equiv_trans [of z x w] by auto
      then show False using that z by auto
    qed
    ultimately have "\<forall>w\<in>set zs. lt x w" by blast
    then show ?thesis using False by auto
  qed
qed simp

lemma find_None:
  assumes "sorted_wrt lt xs" "on x" "\<forall>y\<in>set xs. on y"
  shows "set_find lt x xs = None \<longleftrightarrow> (\<forall>y\<in>set xs. lt x y \<or> lt y x)"
  using find_iff [OF assms] by (metis not_None_eq)

lemma before_upper_eq:
  assumes "sorted_wrt lt xs" "on x" "\<forall>y\<in>set xs. on y"
  shows "before_upper lt x xs = filter (\<lambda>y. \<not> lt x y) xs"
    and "from_upper lt x xs = filter (lt x) xs"
proof -
  have mono: "lt x w" if "lt x z" "lt z w" "on z" "on w" for z w
    using that assms(2) lt_trans by blast
  show "before_upper lt x xs = filter (\<lambda>y. \<not> lt x y) xs"
    using assms(1,3) mono by (induction xs) (auto simp: before_upper_def filter_empty_conv)
  show "from_upper lt x xs = filter (lt x) xs"
    using assms(1,3) mono by (induction xs) (auto simp: from_upper_def intro!: filter_True [symmetric])
qed

text \<open>The same for maps, whose keys are sorted.\<close>

lemma assign_keys: "p \<in> set (map_assign lt k v m) \<Longrightarrow> fst p = k \<or> fst p \<in> fst ` set m"
  by (induction m) (auto split: if_splits)

lemma map_erase_keys: "set (map_erase lt k m) \<subseteq> set m"
  by (induction m) (auto split: if_splits)

lemma assign_sorted:
  assumes "sorted_wrt lt (map fst m)" "on k" "\<forall>y\<in>set (map fst m). on y"
  shows "sorted_wrt lt (map fst (map_assign lt k v m))"
  using assms
proof (induction m)
  case (Cons p m)
  obtain k' v' where p: "p = (k', v')" by (cases p)
  have "\<forall>z\<in>set (map fst (map_assign lt k v m)). lt k' z" if "lt k' k"
    using Cons.prems(1) that p by (auto dest!: assign_keys)
  moreover have "lt k z" if "lt k k'" "z \<in> set (map fst m)" for z
    using that Cons.prems lt_trans [of k k' z] p by auto
  ultimately show ?case using Cons p by auto
qed simp

lemma map_erase_sorted: "sorted_wrt lt (map fst m) \<Longrightarrow> sorted_wrt lt (map fst (map_erase lt k m))"
proof (induction m)
  case (Cons p m)
  then show ?case using map_erase_keys [of k m] by (cases p) (auto dest!: subsetD)
qed simp

lemma lt_cong:
  assumes "on a" "on b" "on c" "\<not> lt a b" "\<not> lt b a"
  shows "lt a c = lt b c" "lt c a = lt c b"
  using assms equiv_trans by blast+

lemma find_assign:
  assumes "on k" "on q" "\<forall>y\<in>set (map fst m). on y" "sorted_wrt lt (map fst m)"
  shows "map_find lt q (map_assign lt k v m) =
    (if \<not> lt k q \<and> \<not> lt q k then Some v else map_find lt q m)"
  using assms
proof (induction m)
  case (Cons p m)
  obtain k' v' where p: "p = (k', v')" by (cases p)
  have on: "on k'" "on k" "on q" using Cons.prems p by auto
  have IH: "map_find lt q (map_assign lt k v m) = (if \<not> lt k q \<and> \<not> lt q k then Some v else map_find lt q m)"
    using Cons by simp
  consider "lt k' k" | "\<not> lt k' k" "lt k k'" | "\<not> lt k' k" "\<not> lt k k'" by blast
  then show ?case
  proof cases
    case 1
    then have "\<not> lt k' q \<Longrightarrow> lt k q \<or> lt q k" using on equiv_trans [of k' q k] by blast
    then show ?thesis using 1 p IH by auto
  next
    case 2
    then have "lt q k \<Longrightarrow> lt q k'" "lt q k \<Longrightarrow> \<not> lt k' q"
      using on lt_trans [of q k k'] lt_asym [of q k'] by blast+
    then show ?thesis using 2 p by auto
  next
    case 3
    then have "lt k' q = lt k q" "lt q k' = lt q k" using on lt_cong [of k' k q] by blast+
    then show ?thesis using 3 p by auto
  qed
qed simp

lemma find_erase:
  assumes "on k" "on q" "\<forall>y\<in>set (map fst m). on y" "sorted_wrt lt (map fst m)"
  shows "map_find lt q (map_erase lt k m) =
    (if \<not> lt k q \<and> \<not> lt q k then None else map_find lt q m)"
  using assms
proof (induction m)
  case (Cons p m)
  obtain k' v' where p: "p = (k', v')" by (cases p)
  have on: "on k'" "on k" "on q" using Cons.prems p by auto
  have gt: "\<forall>y\<in>set (map fst m). lt k' y" using Cons.prems p by auto
  have IH: "map_find lt q (map_erase lt k m) = (if \<not> lt k q \<and> \<not> lt q k then None else map_find lt q m)"
    using Cons by simp
  have rest: "map_find lt q m = None" if "\<not> lt k' q"
  proof (cases m)
    case (Cons r m')
    have r: "lt k' (fst r)" "on (fst r)" using gt Cons.prems(3) Cons p by auto
    have "\<not> lt (fst r) q" using that r on lt_trans [of k' "fst r" q] by blast
    moreover have "lt q (fst r)" using that r on equiv_trans [of k' q "fst r"] by blast
    ultimately show ?thesis using Cons by (cases r) auto
  qed simp
  consider "lt k' k" | "\<not> lt k' k" "lt k k'" | "\<not> lt k' k" "\<not> lt k k'" by blast
  then show ?case
  proof cases
    case 1
    then have "\<not> lt k' q \<Longrightarrow> lt k q \<or> lt q k" using on equiv_trans [of k' q k] by blast
    then show ?thesis using 1 p IH by auto
  next
    case 2
    then have "lt q k \<Longrightarrow> lt q k'" "lt q k \<Longrightarrow> \<not> lt k' q"
      using on lt_trans [of q k k'] lt_asym [of q k'] by blast+
    moreover have "\<not> lt k q \<Longrightarrow> lt q k' \<and> \<not> lt k' q"
      using 2 on equiv_trans [of k q k'] lt_trans [of k k' q] by blast
    ultimately show ?thesis using 2 p by auto
  next
    case 3
    then have "lt k' q = lt k q" "lt q k' = lt q k" using on lt_cong [of k' k q] by blast+
    then show ?thesis using 3 p rest by auto
  qed
qed simp

end

text \<open>A comparator that tells every two different keys apart: the container is a set in the usual sense.\<close>

locale total_comparator = comparator +
  assumes lt_total: "on x \<Longrightarrow> on y \<Longrightarrow> x \<noteq> y \<Longrightarrow> lt x y \<or> lt y x"
begin

lemma set_insert_total:
  assumes "on x" "\<forall>y\<in>set xs. on y"
  shows "set (set_insert lt x xs) = insert x (set xs)"
  using assms lt_total by (induction xs) auto

lemma find_total:
  assumes "sorted_wrt lt xs" "on x" "\<forall>y\<in>set xs. on y"
  shows "set_find lt x xs = (if x \<in> set xs then Some x else None)"
proof (cases "x \<in> set xs")
  case True
  then show ?thesis using find_iff [OF assms, of x] assms(2) lt_irrefl by simp
next
  case False
  then show ?thesis using find_None [OF assms] assms(2,3) lt_total by auto
qed

lemma erase_total:
  assumes "sorted_wrt lt xs" "on x" "\<forall>y\<in>set xs. on y"
  shows "set_erase lt x xs = filter (\<lambda>y. y \<noteq> x) xs"
  using assms
proof (induction xs)
  case (Cons y ys)
  have gt: "\<forall>w\<in>set ys. lt y w" "on y" using Cons.prems by auto
  have "x \<notin> set ys" if "\<not> lt y x"
    using that gt Cons.prems(2,3) by auto
  moreover have "x \<noteq> y" if "lt x y \<or> lt y x" using that Cons.prems(2) lt_irrefl by auto
  moreover have "lt x y \<or> lt y x" if "x \<noteq> y" using that lt_total gt(2) Cons.prems(2) by blast
  moreover have "filter (\<lambda>z. z \<noteq> x) ys = ys" if "x \<notin> set ys" using that by (auto intro: filter_True)
  ultimately show ?case using Cons by auto
qed simp

lemma sorted_distinct: "sorted_wrt lt xs \<Longrightarrow> \<forall>y\<in>set xs. on y \<Longrightarrow> distinct xs"
  using lt_irrefl by (induction xs) auto

end

end
