(* ===== verification/TimerManager.thy ===== *)
theory TimerManager
  imports StdContainers
begin

text \<open>
  Timers (\<^verbatim>\<open>saturn/timer.cc\<close>): the ordered set of timers of a \<^verbatim>\<open>TimerManager\<close>, and the operations
  of a \<^verbatim>\<open>Timer\<close> on it.  Timers are objects in a store, addressed by the pointers the set holds,
  because \<^verbatim>\<open>refresh\<close>, \<^verbatim>\<open>reset\<close> and \<^verbatim>\<open>listExpiredCb\<close> change a timer that others hold a pointer to.
  Every critical section of the code is one definition; \<open>now\<close> is the result of
  \<^verbatim>\<open>getCurrentTime<milliseconds>()\<close> there.  A timer's \<^verbatim>\<open>m_manager\<close> is the one manager of the model.
\<close>

section \<open>State\<close>

type_synonym address = nat

text \<open>
  A callback: a plain function object, or what \<^verbatim>\<open>addConditionTimer\<close> binds, which runs the function
  only while the weak pointer can be locked.
\<close>

datatype ('w, 'cb) timer_cb = PlainCb 'cb | OnTimer 'w 'cb

fun run_cb :: "('w \<Rightarrow> bool) \<Rightarrow> ('w, 'cb) timer_cb \<Rightarrow> 'cb list" where
  "run_cb alive (PlainCb cb) = [cb]"
| "run_cb alive (OnTimer weak_cond cb) = (if alive weak_cond then [cb] else [])"

record ('w, 'cb) timer =
  m_recurring :: bool
  m_ms :: u64
  m_next :: u64
  m_cb :: "('w, 'cb) timer_cb option"

record ('w, 'cb) timermanager =
  tm_store :: "address \<rightharpoonup> ('w, 'cb) timer"
  m_timers :: "address list"
  m_tickled :: bool
  m_previousTime :: u64

definition newTimerManager :: "u64 \<Rightarrow> ('w, 'cb) timermanager" where
  "newTimerManager now = \<lparr>tm_store = Map.empty, m_timers = [], m_tickled = False, m_previousTime = now\<rparr>"

definition newTimer :: "u64 \<Rightarrow> u64 \<Rightarrow> ('w, 'cb) timer_cb option \<Rightarrow> bool \<Rightarrow> ('w, 'cb) timer" where
  "newTimer now ms cb recurring = \<lparr>m_recurring = recurring, m_ms = ms, m_next = now + ms, m_cb = cb\<rparr>"

definition newTimerAt :: "u64 \<Rightarrow> ('w, 'cb) timer" where
  "newTimerAt next = \<lparr>m_recurring = False, m_ms = 0, m_next = next, m_cb = None\<rparr>"

definition timer_at :: "(address \<rightharpoonup> ('w, 'cb) timer) \<Rightarrow> address \<Rightarrow> ('w, 'cb) timer" where
  "timer_at st a = (case st a of Some t \<Rightarrow> t | None \<Rightarrow> newTimerAt 0)"

text \<open>\<open>None\<close> is the null pointer; the model never stores it in the set.\<close>

definition Comparator :: "(address \<rightharpoonup> ('w, 'cb) timer) \<Rightarrow> address option \<Rightarrow> address option \<Rightarrow> bool" where
  "Comparator st lhs rhs =
     (case (lhs, rhs) of
        (None, None) \<Rightarrow> False
      | (None, Some _) \<Rightarrow> True
      | (Some _, None) \<Rightarrow> False
      | (Some l, Some r) \<Rightarrow>
          if m_next (timer_at st l) < m_next (timer_at st r) then True
          else if m_next (timer_at st r) < m_next (timer_at st l) then False
          else l < r)"

definition tless :: "(address \<rightharpoonup> ('w, 'cb) timer) \<Rightarrow> address \<Rightarrow> address \<Rightarrow> bool" where
  "tless st l r = Comparator st (Some l) (Some r)"

section \<open>Operations\<close>

definition cancel :: "address \<Rightarrow> ('w, 'cb) timermanager \<Rightarrow> bool \<times> ('w, 'cb) timermanager" where
  "cancel a tm =
     (let t = timer_at (tm_store tm) a in
      if m_cb t \<noteq> None then
        let tm1 = tm\<lparr>tm_store := (tm_store tm)(a \<mapsto> t\<lparr>m_cb := None\<rparr>)\<rparr>
        in case set_find (tless (tm_store tm1)) a (m_timers tm1) of
             None \<Rightarrow> (False, tm1)
           | Some _ \<Rightarrow> (True, tm1\<lparr>m_timers := set_erase (tless (tm_store tm1)) a (m_timers tm1)\<rparr>)
      else (False, tm))"

definition refresh :: "u64 \<Rightarrow> address \<Rightarrow> ('w, 'cb) timermanager \<Rightarrow> bool \<times> ('w, 'cb) timermanager" where
  "refresh now a tm =
     (let t = timer_at (tm_store tm) a in
      if m_cb t = None then (False, tm)
      else case set_find (tless (tm_store tm)) a (m_timers tm) of
             None \<Rightarrow> (False, tm)
           | Some _ \<Rightarrow>
               let timers = set_erase (tless (tm_store tm)) a (m_timers tm);
                   st = (tm_store tm)(a \<mapsto> t\<lparr>m_next := now + m_ms t\<rparr>)
               in (True, tm\<lparr>tm_store := st, m_timers := set_insert (tless st) a timers\<rparr>))"

text \<open>
  \<^verbatim>\<open>addTimer(Timer::ptr)\<close>; the Boolean tells whether \<^verbatim>\<open>onTimerInsertedAtFront\<close> is called.
\<close>

definition addTimerPtr :: "address \<Rightarrow> ('w, 'cb) timermanager \<Rightarrow> bool \<times> ('w, 'cb) timermanager" where
  "addTimerPtr a tm =
     (let timers = set_insert (tless (tm_store tm)) a (m_timers tm);
          it = set_find (tless (tm_store tm)) a timers;
          is_front = (it = Some (hd timers) \<and> \<not> m_tickled tm)
      in (is_front, tm\<lparr>m_timers := timers, m_tickled := (if is_front then True else m_tickled tm)\<rparr>))"

text \<open>\<^verbatim>\<open>reset\<close>: its own critical section, and the whole, which goes on with \<^verbatim>\<open>addTimer\<close>.\<close>

definition reset_locked :: "u64 \<Rightarrow> address \<Rightarrow> u64 \<Rightarrow> bool \<Rightarrow> ('w, 'cb) timermanager \<Rightarrow>
    bool \<times> ('w, 'cb) timermanager" where
  "reset_locked now a ms from_now tm =
     (let t = timer_at (tm_store tm) a in
      if m_cb t = None then (False, tm)
      else case set_find (tless (tm_store tm)) a (m_timers tm) of
             None \<Rightarrow> (False, tm)
           | Some _ \<Rightarrow>
               let timers = set_erase (tless (tm_store tm)) a (m_timers tm);
                   next = (if from_now then now + m_ms t else m_next t - m_ms t + ms)
               in (True, tm\<lparr>tm_store := (tm_store tm)(a \<mapsto> t\<lparr>m_next := next, m_ms := ms\<rparr>),
                            m_timers := timers\<rparr>))"

definition reset :: "u64 \<Rightarrow> address \<Rightarrow> u64 \<Rightarrow> bool \<Rightarrow> ('w, 'cb) timermanager \<Rightarrow>
    bool \<times> bool \<times> ('w, 'cb) timermanager" where
  "reset now a ms from_now tm =
     (case reset_locked now a ms from_now tm of
        (False, tm1) \<Rightarrow> (False, False, tm1)
      | (True, tm1) \<Rightarrow> let (front, tm2) = addTimerPtr a tm1 in (True, front, tm2))"

text \<open>\<^verbatim>\<open>addTimer(ms, cb, recurring)\<close>; \<open>a\<close> is the address of the new timer.\<close>

definition addTimer :: "u64 \<Rightarrow> address \<Rightarrow> u64 \<Rightarrow> ('w, 'cb) timer_cb option \<Rightarrow> bool \<Rightarrow>
    ('w, 'cb) timermanager \<Rightarrow> bool \<times> ('w, 'cb) timermanager" where
  "addTimer now a ms cb recurring tm =
     addTimerPtr a (tm\<lparr>tm_store := (tm_store tm)(a \<mapsto> newTimer now ms cb recurring)\<rparr>)"

definition addConditionTimer :: "u64 \<Rightarrow> address \<Rightarrow> u64 \<Rightarrow> 'cb \<Rightarrow> 'w \<Rightarrow> bool \<Rightarrow>
    ('w, 'cb) timermanager \<Rightarrow> bool \<times> ('w, 'cb) timermanager" where
  "addConditionTimer now a ms cb weak_cond recurring tm =
     addTimer now a ms (Some (OnTimer weak_cond cb)) recurring tm"

definition getNextTimer :: "u64 \<Rightarrow> ('w, 'cb) timermanager \<Rightarrow> u64 \<times> ('w, 'cb) timermanager" where
  "getNextTimer cur tm =
     (let tm1 = tm\<lparr>m_tickled := False\<rparr>
      in case m_timers tm1 of
           [] \<Rightarrow> (NOT 0, tm1)
         | a # _ \<Rightarrow>
             let next = m_next (timer_at (tm_store tm1) a)
             in if cur < next then (next - cur, tm1) else (0, tm1))"

definition hasTimer :: "('w, 'cb) timermanager \<Rightarrow> bool" where
  "hasTimer tm \<longleftrightarrow> m_timers tm \<noteq> []"

text \<open>
  \<^verbatim>\<open>listExpiredCb\<close> releases the lock between taking the expired timers out of the set and
  collecting their callbacks: \<open>expire_take\<close> and \<open>expire_push\<close> are the two critical sections.  \<open>c\<close> is
  the address of the timer \<^verbatim>\<open>cur\<close> that is made for the search.
\<close>

definition expire_take :: "u64 \<Rightarrow> address \<Rightarrow> ('w, 'cb) timermanager \<Rightarrow> address list \<times> ('w, 'cb) timermanager" where
  "expire_take now c tm =
     (if m_timers tm = [] then ([], tm)
      else let st = (tm_store tm)(c \<mapsto> newTimerAt now)
           in (before_upper (tless st) c (m_timers tm), tm\<lparr>m_timers := from_upper (tless st) c (m_timers tm)\<rparr>))"

fun expire_push :: "u64 \<Rightarrow> address list \<Rightarrow> ('w, 'cb) timermanager \<Rightarrow>
    ('w, 'cb) timer_cb option list \<times> ('w, 'cb) timermanager" where
  "expire_push now [] tm = ([], tm)"
| "expire_push now (ex # expired) tm =
     (let t = timer_at (tm_store tm) ex;
          tm1 = (if m_recurring t
                 then let st = (tm_store tm)(ex \<mapsto> t\<lparr>m_next := now + m_ms t\<rparr>)
                      in tm\<lparr>tm_store := st, m_timers := set_insert (tless st) ex (m_timers tm)\<rparr>
                 else tm);
          (cbs, tm2) = expire_push now expired tm1
      in (m_cb t # cbs, tm2))"

definition listExpiredCb :: "u64 \<Rightarrow> address \<Rightarrow> ('w, 'cb) timermanager \<Rightarrow>
    ('w, 'cb) timer_cb option list \<times> ('w, 'cb) timermanager" where
  "listExpiredCb now c tm = (let (expired, tm1) = expire_take now c tm in expire_push now expired tm1)"


section \<open>The set of timers is ordered\<close>

lemma tless_iff:
  "tless st l r \<longleftrightarrow> m_next (timer_at st l) < m_next (timer_at st r) \<or>
     m_next (timer_at st l) = m_next (timer_at st r) \<and> l < r"
  by (auto simp: tless_def Comparator_def)

interpretation tset: total_comparator "tless st" "\<lambda>_. True" for st
  by unfold_locales (auto simp: tless_iff)

lemmas timer_set = tset.insert_sorted tset.erase_sorted tset.set_insert_total tset.find_total tset.erase_total

definition same_next :: "(address \<rightharpoonup> ('w, 'cb) timer) \<Rightarrow> (address \<rightharpoonup> ('w, 'cb) timer) \<Rightarrow> address set \<Rightarrow> bool" where
  "same_next st st' A \<longleftrightarrow> (\<forall>a\<in>A. m_next (timer_at st a) = m_next (timer_at st' a))"

lemma sorted_same_next:
  assumes "same_next st st' (set xs)"
  shows "sorted_wrt (tless st) xs = sorted_wrt (tless st') xs"
  using assms by (induction xs) (auto simp: same_next_def tless_iff)

lemma timer_at_upd [simp]: "timer_at (st(a \<mapsto> t)) b = (if b = a then t else timer_at st b)"
  by (simp add: timer_at_def)

lemma same_next_upd [simp]:
  "same_next st (st(a \<mapsto> t)) A \<longleftrightarrow> same_next st st A \<and> (a \<in> A \<longrightarrow> m_next (timer_at st a) = m_next t)"
  by (auto simp: same_next_def)

lemma same_next_refl [simp]: "same_next st st A"
  by (simp add: same_next_def)

definition tm_inv :: "('w, 'cb) timermanager \<Rightarrow> bool" where
  "tm_inv tm \<longleftrightarrow> sorted_wrt (tless (tm_store tm)) (m_timers tm) \<and> set (m_timers tm) \<subseteq> dom (tm_store tm)"

lemma tm_invD:
  assumes "tm_inv tm"
  shows "sorted_wrt (tless (tm_store tm)) (m_timers tm)" "set (m_timers tm) \<subseteq> dom (tm_store tm)"
    "distinct (m_timers tm)"
  using assms tset.sorted_distinct [of "tm_store tm" "m_timers tm"] by (auto simp: tm_inv_def)

section \<open>What each operation does to an ordered manager\<close>

lemma cancel_eq:
  assumes "tm_inv tm"
  shows "cancel a tm =
    (if m_cb (timer_at (tm_store tm) a) = None then (False, tm)
     else (a \<in> set (m_timers tm),
           tm\<lparr>tm_store := (tm_store tm)(a \<mapsto> (timer_at (tm_store tm) a)\<lparr>m_cb := None\<rparr>),
              m_timers := filter (\<lambda>b. b \<noteq> a) (m_timers tm)\<rparr>))"
proof -
  let ?st = "(tm_store tm)(a \<mapsto> (timer_at (tm_store tm) a)\<lparr>m_cb := None\<rparr>)"
  have "same_next (tm_store tm) ?st (set (m_timers tm))" by simp
  then have "sorted_wrt (tless ?st) (m_timers tm)"
    using sorted_same_next tm_invD(1) [OF assms] by blast
  moreover have "filter (\<lambda>b. b \<noteq> a) (m_timers tm) = m_timers tm" if "a \<notin> set (m_timers tm)"
    using that by (auto intro: filter_True)
  ultimately show ?thesis by (simp add: cancel_def Let_def timer_set)
qed

lemma refresh_eq:
  assumes "tm_inv tm"
  shows "refresh now a tm =
    (let t = timer_at (tm_store tm) a; st = (tm_store tm)(a \<mapsto> t\<lparr>m_next := now + m_ms t\<rparr>)
     in if m_cb t = None \<or> a \<notin> set (m_timers tm) then (False, tm)
        else (True, tm\<lparr>tm_store := st, m_timers := set_insert (tless st) a (filter (\<lambda>b. b \<noteq> a) (m_timers tm))\<rparr>))"
  using tm_invD(1) [OF assms] by (simp add: refresh_def Let_def timer_set)

lemma reset_locked_eq:
  assumes "tm_inv tm"
  shows "reset_locked now a ms from_now tm =
    (let t = timer_at (tm_store tm) a;
         next = (if from_now then now + m_ms t else m_next t - m_ms t + ms)
     in if m_cb t = None \<or> a \<notin> set (m_timers tm) then (False, tm)
        else (True, tm\<lparr>tm_store := (tm_store tm)(a \<mapsto> t\<lparr>m_next := next, m_ms := ms\<rparr>),
                       m_timers := filter (\<lambda>b. b \<noteq> a) (m_timers tm)\<rparr>))"
  using tm_invD(1) [OF assms] by (simp add: reset_locked_def Let_def timer_set)

lemma addTimerPtr_eq:
  assumes "tm_inv tm" "a \<in> dom (tm_store tm)"
  defines "timers \<equiv> set_insert (tless (tm_store tm)) a (m_timers tm)"
  shows "addTimerPtr a tm =
    (let front = (a = hd timers \<and> \<not> m_tickled tm)
     in (front, tm\<lparr>m_timers := timers, m_tickled := (if front then True else m_tickled tm)\<rparr>))"
    and "tm_inv (tm\<lparr>m_timers := timers\<rparr>)" and "set timers = insert a (set (m_timers tm))"
proof -
  show set: "set timers = insert a (set (m_timers tm))" by (simp add: timers_def timer_set)
  have so: "sorted_wrt (tless (tm_store tm)) timers"
    unfolding timers_def using tm_invD(1) [OF assms(1)] by (simp add: timer_set)
  then show "tm_inv (tm\<lparr>m_timers := timers\<rparr>)"
    using set tm_invD(2) [OF assms(1)] assms(2) by (simp add: tm_inv_def)
  have "set_find (tless (tm_store tm)) a timers = Some a"
    using so set by (simp add: timer_set)
  then show "addTimerPtr a tm =
    (let front = (a = hd timers \<and> \<not> m_tickled tm)
     in (front, tm\<lparr>m_timers := timers, m_tickled := (if front then True else m_tickled tm)\<rparr>))"
    by (simp add: addTimerPtr_def Let_def flip: timers_def)
qed

text \<open>The timers \<open>expire_take\<close> takes at \<open>now\<close>, with the search timer at address \<open>c\<close>.\<close>

definition due :: "u64 \<Rightarrow> address \<Rightarrow> (address \<rightharpoonup> ('w, 'cb) timer) \<Rightarrow> address \<Rightarrow> bool" where
  "due now c st a \<longleftrightarrow> m_next (timer_at st a) < now \<or> m_next (timer_at st a) = now \<and> a \<le> c"

lemma expire_take_eq:
  assumes "tm_inv tm" "c \<notin> dom (tm_store tm)"
  shows "expire_take now c tm =
    (filter (due now c (tm_store tm)) (m_timers tm),
     tm\<lparr>m_timers := filter (\<lambda>a. \<not> due now c (tm_store tm) a) (m_timers tm)\<rparr>)"
proof -
  let ?st = "(tm_store tm)(c \<mapsto> newTimerAt now)"
  have c: "c \<notin> set (m_timers tm)" using assms tm_invD(2) by blast
  then have "sorted_wrt (tless ?st) (m_timers tm)"
    using sorted_same_next [of "tm_store tm" ?st "m_timers tm"] tm_invD(1) [OF assms(1)] by simp
  moreover have "tless ?st c a \<longleftrightarrow> \<not> due now c (tm_store tm) a" if "a \<in> set (m_timers tm)" for a
    using that c by (auto simp: tless_iff due_def newTimerAt_def)
  ultimately show ?thesis
    by (auto simp: expire_take_def Let_def tset.before_upper_eq cong: filter_cong)
qed

definition rearm :: "u64 \<Rightarrow> ('w, 'cb) timer \<Rightarrow> ('w, 'cb) timer" where
  "rearm now t = (if m_recurring t then t\<lparr>m_next := now + m_ms t\<rparr> else t)"

lemma expire_push_spec:
  assumes "tm_inv tm" "distinct ex" "set ex \<inter> set (m_timers tm) = {}" "set ex \<subseteq> dom (tm_store tm)"
  shows "\<exists>tm'. expire_push now ex tm = (map (\<lambda>a. m_cb (timer_at (tm_store tm) a)) ex, tm') \<and> tm_inv tm' \<and>
    set (m_timers tm') = set (m_timers tm) \<union> {a \<in> set ex. m_recurring (timer_at (tm_store tm) a)} \<and>
    dom (tm_store tm') = dom (tm_store tm) \<and> m_tickled tm' = m_tickled tm \<and>
    (\<forall>a. timer_at (tm_store tm') a =
      (if a \<in> set ex then rearm now (timer_at (tm_store tm) a) else timer_at (tm_store tm) a))"
  using assms
proof (induction ex arbitrary: tm)
  case (Cons x ex)
  let ?t = "timer_at (tm_store tm) x"
  let ?st = "(tm_store tm)(x \<mapsto> ?t\<lparr>m_next := now + m_ms ?t\<rparr>)"
  define tm1 where "tm1 = (if m_recurring ?t
    then tm\<lparr>tm_store := ?st, m_timers := set_insert (tless ?st) x (m_timers tm)\<rparr> else tm)"
  have x: "x \<notin> set (m_timers tm)" "x \<notin> set ex" "x \<in> dom (tm_store tm)" using Cons.prems by auto
  have "sorted_wrt (tless ?st) (m_timers tm)"
    using sorted_same_next [of "tm_store tm" ?st "m_timers tm"] tm_invD(1) [OF Cons.prems(1)] x by simp
  then have inv1: "tm_inv tm1"
    using Cons.prems(1) x by (auto simp: tm_inv_def tm1_def timer_set)
  have tm1: "dom (tm_store tm1) = dom (tm_store tm)" "m_tickled tm1 = m_tickled tm"
    "set (m_timers tm1) = set (m_timers tm) \<union> (if m_recurring ?t then {x} else {})"
    "timer_at (tm_store tm1) a = (if a = x then rearm now ?t else timer_at (tm_store tm) a)" for a
    using x by (auto simp: tm1_def timer_set rearm_def)
  have "set ex \<inter> set (m_timers tm1) = {}" "set ex \<subseteq> dom (tm_store tm1)"
    using Cons.prems x tm1(1,3) by auto
  then obtain tm' where tm': "expire_push now ex tm1 = (map (\<lambda>a. m_cb (timer_at (tm_store tm1) a)) ex, tm')"
    "tm_inv tm'" "set (m_timers tm') = set (m_timers tm1) \<union> {a \<in> set ex. m_recurring (timer_at (tm_store tm1) a)}"
    "dom (tm_store tm') = dom (tm_store tm1)" "m_tickled tm' = m_tickled tm1"
    "\<forall>a. timer_at (tm_store tm') a =
      (if a \<in> set ex then rearm now (timer_at (tm_store tm1) a) else timer_at (tm_store tm1) a)"
    using Cons.IH [OF inv1] Cons.prems(2) by auto
  have "expire_push now (x # ex) tm = (m_cb ?t # map (\<lambda>a. m_cb (timer_at (tm_store tm1) a)) ex, tm')"
    unfolding expire_push.simps Let_def tm1_def [symmetric] using tm'(1) by simp
  moreover have "map (\<lambda>a. m_cb (timer_at (tm_store tm1) a)) ex = map (\<lambda>a. m_cb (timer_at (tm_store tm) a)) ex"
    using x(2) tm1(4) by auto
  moreover have "{a \<in> set ex. m_recurring (timer_at (tm_store tm1) a)} = {a \<in> set ex. m_recurring (timer_at (tm_store tm) a)}"
    using x(2) tm1(4) by auto
  ultimately show ?case
    using tm' tm1 x(2) by (auto simp: rearm_def)
qed auto


section \<open>Threads interleaved on one manager\<close>

text \<open>
  The critical sections run in any order.  Between sections a thread holds pointers of its own:
  \<open>expiring\<close> has, for every thread between the two halves of \<^verbatim>\<open>listExpiredCb\<close>, the time it read and
  the timers it took; \<open>resetting\<close> the timers of the threads between the two halves of \<^verbatim>\<open>reset\<close>.
  \<open>FreeL\<close> is the last reference to a timer going away.
\<close>

record ('w, 'cb) tmsys =
  mgr :: "('w, 'cb) timermanager"
  expiring :: "(u64 \<times> address list) list"
  resetting :: "address list"

datatype tm_label = AddL address | CancelL address | RefreshL address | ResetL address | ReaddL address
  | TakeL u64 | PushL | NextL | FreeL address

definition others :: "('w, 'cb) tmsys \<Rightarrow> address list" where
  "others s = concat (map snd (expiring s)) @ resetting s"

definition held :: "('w, 'cb) tmsys \<Rightarrow> address list" where
  "held s = m_timers (mgr s) @ others s"

inductive tm_step :: "('w, 'cb) tmsys \<Rightarrow> tm_label \<Rightarrow> ('w, 'cb) tmsys \<Rightarrow> bool" where
  s_add: "a \<notin> dom (tm_store (mgr s)) \<Longrightarrow>
    tm_step s (AddL a) (s\<lparr>mgr := snd (addTimer now a ms cb recurring (mgr s))\<rparr>)"
| s_cancel: "a \<in> dom (tm_store (mgr s)) \<Longrightarrow> tm_step s (CancelL a) (s\<lparr>mgr := snd (cancel a (mgr s))\<rparr>)"
| s_refresh: "a \<in> dom (tm_store (mgr s)) \<Longrightarrow>
    tm_step s (RefreshL a) (s\<lparr>mgr := snd (refresh now a (mgr s))\<rparr>)"
| s_reset: "a \<in> dom (tm_store (mgr s)) \<Longrightarrow> reset_locked now a ms from_now (mgr s) = (ok, m) \<Longrightarrow>
    tm_step s (ResetL a) (s\<lparr>mgr := m, resetting := (if ok then a # resetting s else resetting s)\<rparr>)"
| s_readd: "a \<in> set (resetting s) \<Longrightarrow>
    tm_step s (ReaddL a) (s\<lparr>mgr := snd (addTimerPtr a (mgr s)), resetting := remove1 a (resetting s)\<rparr>)"
| s_take: "c \<notin> dom (tm_store (mgr s)) \<Longrightarrow> expire_take now c (mgr s) = (ex, m) \<Longrightarrow>
    tm_step s (TakeL now) (s\<lparr>mgr := m, expiring := (now, ex) # expiring s\<rparr>)"
| s_push: "(now, ex) \<in> set (expiring s) \<Longrightarrow> expire_push now ex (mgr s) = (cbs, m) \<Longrightarrow>
    tm_step s PushL (s\<lparr>mgr := m, expiring := remove1 (now, ex) (expiring s)\<rparr>)"
| s_next: "tm_step s NextL (s\<lparr>mgr := snd (getNextTimer now (mgr s))\<rparr>)"
| s_free: "a \<notin> set (held s) \<Longrightarrow>
    tm_step s (FreeL a) (s\<lparr>mgr := (mgr s)\<lparr>tm_store := (tm_store (mgr s))(a := None)\<rparr>\<rparr>)"

inductive_cases tm_stepE: "tm_step s l s'"

definition sys_inv :: "('w, 'cb) tmsys \<Rightarrow> bool" where
  "sys_inv s \<longleftrightarrow> tm_inv (mgr s) \<and> distinct (held s) \<and> set (held s) \<subseteq> dom (tm_store (mgr s))"

inductive tm_reachable :: "('w, 'cb) tmsys \<Rightarrow> bool" where
  start: "tm_reachable \<lparr>mgr = newTimerManager now, expiring = [], resetting = []\<rparr>"
| step: "tm_reachable s \<Longrightarrow> tm_step s l s' \<Longrightarrow> tm_reachable s'"

lemma sys_inv_iff:
  "sys_inv s \<longleftrightarrow> tm_inv (mgr s) \<and> distinct (others s) \<and> set (m_timers (mgr s)) \<inter> set (others s) = {} \<and>
    set (others s) \<subseteq> dom (tm_store (mgr s))"
  using tm_invD(2,3) [of "mgr s"] by (auto simp: sys_inv_def held_def)

lemma others_mgr [simp]: "others (s\<lparr>mgr := m\<rparr>) = others s"
  by (simp add: others_def)

lemma addTimer_inv:
  assumes "tm_inv tm" "a \<notin> dom (tm_store tm)"
  shows "tm_inv (snd (addTimer now a ms cb recurring tm))"
    and "set (m_timers (snd (addTimer now a ms cb recurring tm))) = insert a (set (m_timers tm))"
    and "tm_store (snd (addTimer now a ms cb recurring tm)) = (tm_store tm)(a \<mapsto> newTimer now ms cb recurring)"
proof -
  let ?tm = "tm\<lparr>tm_store := (tm_store tm)(a \<mapsto> newTimer now ms cb recurring)\<rparr>"
  have "a \<notin> set (m_timers tm)" using assms tm_invD(2) by blast
  then have inv: "tm_inv ?tm"
    using assms(1) sorted_same_next [of "tm_store tm" "tm_store ?tm" "m_timers tm"] by (auto simp: tm_inv_def)
  note add = addTimerPtr_eq [OF inv, of a, simplified]
  show "tm_inv (snd (addTimer now a ms cb recurring tm))"
    "set (m_timers (snd (addTimer now a ms cb recurring tm))) = insert a (set (m_timers tm))"
    "tm_store (snd (addTimer now a ms cb recurring tm)) = (tm_store tm)(a \<mapsto> newTimer now ms cb recurring)"
    using add by (auto simp: addTimer_def Let_def tm_inv_def)
qed

lemma cancel_inv:
  assumes "tm_inv tm" "a \<in> dom (tm_store tm)"
  shows "tm_inv (snd (cancel a tm))" "set (m_timers (snd (cancel a tm))) \<subseteq> set (m_timers tm)"
    "dom (tm_store (snd (cancel a tm))) = dom (tm_store tm)"
    "b \<noteq> a \<Longrightarrow> b \<in> set (m_timers tm) \<Longrightarrow> b \<in> set (m_timers (snd (cancel a tm)))"
proof -
  let ?st = "(tm_store tm)(a \<mapsto> (timer_at (tm_store tm) a)\<lparr>m_cb := None\<rparr>)"
  have "sorted_wrt (tless ?st) (filter (\<lambda>b. b \<noteq> a) (m_timers tm))"
    using sorted_same_next [of "tm_store tm" ?st "filter (\<lambda>b. b \<noteq> a) (m_timers tm)"] tm_invD(1) [OF assms(1)]
    by (simp add: sorted_wrt_filter)
  then show "tm_inv (snd (cancel a tm))" "set (m_timers (snd (cancel a tm))) \<subseteq> set (m_timers tm)"
    "dom (tm_store (snd (cancel a tm))) = dom (tm_store tm)"
    "b \<noteq> a \<Longrightarrow> b \<in> set (m_timers tm) \<Longrightarrow> b \<in> set (m_timers (snd (cancel a tm)))"
    using assms by (auto simp: cancel_eq tm_inv_def)
qed

lemma refresh_inv:
  assumes "tm_inv tm" "a \<in> dom (tm_store tm)"
  shows "tm_inv (snd (refresh now a tm))" "set (m_timers (snd (refresh now a tm))) = set (m_timers tm)"
    "dom (tm_store (snd (refresh now a tm))) = dom (tm_store tm)"
proof -
  let ?t = "timer_at (tm_store tm) a"
  let ?st = "(tm_store tm)(a \<mapsto> ?t\<lparr>m_next := now + m_ms ?t\<rparr>)"
  have "sorted_wrt (tless ?st) (filter (\<lambda>b. b \<noteq> a) (m_timers tm))"
    using sorted_same_next [of "tm_store tm" ?st "filter (\<lambda>b. b \<noteq> a) (m_timers tm)"] tm_invD(1) [OF assms(1)]
    by (simp add: sorted_wrt_filter)
  then show "tm_inv (snd (refresh now a tm))" "set (m_timers (snd (refresh now a tm))) = set (m_timers tm)"
    "dom (tm_store (snd (refresh now a tm))) = dom (tm_store tm)"
    using assms by (auto simp: refresh_eq tm_inv_def Let_def timer_set)
qed

lemma reset_locked_inv:
  assumes "tm_inv tm" "a \<in> dom (tm_store tm)" "reset_locked now a ms from_now tm = (ok, tm')"
  shows "tm_inv tm'" "ok \<longrightarrow> a \<in> set (m_timers tm)"
    "set (m_timers tm') = (if ok then set (m_timers tm) - {a} else set (m_timers tm))"
    "dom (tm_store tm') = dom (tm_store tm)"
proof -
  let ?t = "timer_at (tm_store tm) a"
  let ?next = "if from_now then now + m_ms ?t else m_next ?t - m_ms ?t + ms"
  let ?st = "(tm_store tm)(a \<mapsto> ?t\<lparr>m_next := ?next, m_ms := ms\<rparr>)"
  have so: "sorted_wrt (tless ?st) (filter (\<lambda>b. b \<noteq> a) (m_timers tm))"
    using sorted_same_next [of "tm_store tm" ?st "filter (\<lambda>b. b \<noteq> a) (m_timers tm)"] tm_invD(1) [OF assms(1)]
    by (simp add: sorted_wrt_filter)
  have "(ok, tm') = (if m_cb ?t = None \<or> a \<notin> set (m_timers tm) then (False, tm)
        else (True, tm\<lparr>tm_store := ?st, m_timers := filter (\<lambda>b. b \<noteq> a) (m_timers tm)\<rparr>))"
    using assms(3) unfolding reset_locked_eq [OF assms(1)] Let_def by simp
  then show "tm_inv tm'" "ok \<longrightarrow> a \<in> set (m_timers tm)"
    "set (m_timers tm') = (if ok then set (m_timers tm) - {a} else set (m_timers tm))"
    "dom (tm_store tm') = dom (tm_store tm)"
    using so assms(1,2) by (auto simp: tm_inv_def split: if_splits)
qed


lemma expire_take_inv:
  assumes "tm_inv tm" "c \<notin> dom (tm_store tm)" "expire_take now c tm = (ex, tm')"
  shows "tm_inv tm'" "distinct ex" "set ex \<inter> set (m_timers tm') = {}" "set ex \<union> set (m_timers tm') = set (m_timers tm)"
    "tm_store tm' = tm_store tm" "\<forall>a\<in>set ex. m_next (timer_at (tm_store tm) a) \<le> now"
  using assms(3) tm_invD [OF assms(1)] unfolding expire_take_eq [OF assms(1,2)]
  by (auto simp: tm_inv_def sorted_wrt_filter due_def)

lemma sys_inv_mgr:
  assumes "sys_inv s" "tm_inv m" "set (m_timers m) \<subseteq> set (m_timers (mgr s)) \<union> (- dom (tm_store (mgr s)))"
    "dom (tm_store (mgr s)) \<subseteq> dom (tm_store m)"
  shows "sys_inv (s\<lparr>mgr := m\<rparr>)"
  using assms unfolding sys_inv_iff others_mgr by (simp, blast)

lemma sys_inv_push:
  assumes "sys_inv s" "(now, ex) \<in> set (expiring s)" "expire_push now ex (mgr s) = (cbs, m)"
  shows "sys_inv (s\<lparr>mgr := m, expiring := remove1 (now, ex) (expiring s)\<rparr>)"
proof -
  let ?s = "s\<lparr>mgr := m, expiring := remove1 (now, ex) (expiring s)\<rparr>"
  obtain ls rs where sp: "expiring s = ls @ (now, ex) # rs" "remove1 (now, ex) (expiring s) = ls @ rs"
    using assms(2) by (metis remove1_split)
  have inv: "tm_inv (mgr s)" "distinct (others s)" "set (m_timers (mgr s)) \<inter> set (others s) = {}"
    "set (others s) \<subseteq> dom (tm_store (mgr s))"
    using assms(1) by (simp_all add: sys_inv_iff)
  have eq: "set (others s) = set ex \<union> set (others ?s)" "distinct (others ?s)" "set ex \<inter> set (others ?s) = {}" "distinct ex"
    using inv(2) sp by (auto simp: others_def)
  have ex: "set ex \<inter> set (m_timers (mgr s)) = {}" "set ex \<subseteq> dom (tm_store (mgr s))"
    using inv(3,4) eq(1) by auto
  have "tm_inv m \<and> dom (tm_store m) = dom (tm_store (mgr s)) \<and> set (m_timers m) \<subseteq> set (m_timers (mgr s)) \<union> set ex"
    using expire_push_spec [OF inv(1) eq(4) ex, of now] assms(3) by auto
  then show ?thesis
    using inv(3,4) eq unfolding sys_inv_iff by auto
qed

lemma expiring_others:
  assumes "(now, ex) \<in> set (expiring s)"
  shows "set ex \<subseteq> set (others s)" "distinct (others s) \<Longrightarrow> distinct ex"
  using split_list [OF assms] by (auto simp: others_def)

lemma sys_inv_step: "tm_step s l s' \<Longrightarrow> sys_inv s \<Longrightarrow> sys_inv s'"
proof (induction rule: tm_step.induct)
  case (s_add a s now ms cb recurring)
  then have "tm_inv (mgr s)" by (simp add: sys_inv_iff)
  then show ?case using addTimer_inv [OF _ s_add(1)] s_add by (intro sys_inv_mgr) auto
next
  case (s_cancel a s)
  then have "tm_inv (mgr s)" by (simp add: sys_inv_iff)
  note c = cancel_inv [OF this s_cancel(1)]
  show ?case using s_cancel(2) c(1) by (rule sys_inv_mgr) (use c(2,3) in auto)
next
  case (s_refresh a s now)
  then have "tm_inv (mgr s)" by (simp add: sys_inv_iff)
  note c = refresh_inv [OF this s_refresh(1)]
  show ?case using s_refresh(2) c(1) by (rule sys_inv_mgr) (use c(2,3) in auto)
next
  case (s_reset a s now ms from_now ok m)
  then have "tm_inv (mgr s)" by (simp add: sys_inv_iff)
  note c = reset_locked_inv [OF this s_reset(1,2)]
  show ?case
  proof (cases ok)
    case True
    then have "set (others (s\<lparr>mgr := m, resetting := a # resetting s\<rparr>)) = insert a (set (others s))"
      "distinct (others (s\<lparr>mgr := m, resetting := a # resetting s\<rparr>)) \<longleftrightarrow> a \<notin> set (others s) \<and> distinct (others s)"
      by (auto simp: others_def)
    then show ?thesis using True c s_reset(1,3) unfolding sys_inv_iff by auto
  next
    case False
    have "sys_inv (s\<lparr>mgr := m\<rparr>)"
      using s_reset(3) c(1) by (rule sys_inv_mgr) (use c(3,4) False in auto)
    then show ?thesis using False by simp
  qed
next
  case (s_readd a s)
  let ?s = "s\<lparr>mgr := snd (addTimerPtr a (mgr s)), resetting := remove1 a (resetting s)\<rparr>"
  have inv: "tm_inv (mgr s)" "distinct (others s)" "set (others s) \<subseteq> dom (tm_store (mgr s))"
    "set (m_timers (mgr s)) \<inter> set (others s) = {}"
    using s_readd(2) by (simp_all add: sys_inv_iff)
  have a: "a \<in> dom (tm_store (mgr s))" using inv(3) s_readd(1) by (auto simp: others_def)
  have m: "tm_inv (mgr ?s)" "tm_store (mgr ?s) = tm_store (mgr s)"
    "set (m_timers (mgr ?s)) = insert a (set (m_timers (mgr s)))"
    using addTimerPtr_eq [OF inv(1) a] by (auto simp: Let_def tm_inv_def)
  have "set (others ?s) = set (others s) - {a}" "distinct (others ?s)"
    using inv(2) s_readd(1) by (auto simp: others_def)
  then show ?case using inv m unfolding sys_inv_iff by auto
next
  case (s_take c s now ex m)
  have inv: "tm_inv (mgr s)" using s_take(3) by (simp add: sys_inv_iff)
  have "others (s\<lparr>mgr := m, expiring := (now, ex) # expiring s\<rparr>) = ex @ others s" by (simp add: others_def)
  then show ?case
    using s_take(3) expire_take_inv [OF inv s_take(1,2)] tm_invD(2) [OF inv] unfolding sys_inv_iff by auto
next
  case (s_push now ex s cbs m)
  then show ?case by (intro sys_inv_push)
next
  case (s_next s now)
  have "snd (getNextTimer now (mgr s)) = (mgr s)\<lparr>m_tickled := False\<rparr>"
    by (auto simp: getNextTimer_def Let_def split: list.split)
  then show ?case using s_next by (simp add: sys_inv_iff tm_inv_def)
next
  case (s_free a s)
  have "same_next (tm_store (mgr s)) ((tm_store (mgr s))(a := None)) (set (m_timers (mgr s)))"
    using s_free(1) by (auto simp: same_next_def held_def timer_at_def)
  then have "sorted_wrt (tless ((tm_store (mgr s))(a := None))) (m_timers (mgr s))"
    using sorted_same_next [of "tm_store (mgr s)" _ "m_timers (mgr s)"] s_free(2)
    by (simp add: sys_inv_iff tm_inv_def)
  moreover have "set (m_timers (mgr s)) \<subseteq> dom (tm_store (mgr s)) - {a}" "set (others s) \<subseteq> dom (tm_store (mgr s)) - {a}"
    using s_free tm_invD(2) [of "mgr s"] unfolding sys_inv_iff held_def by auto
  ultimately show ?case using s_free(2) by (simp add: sys_inv_iff tm_inv_def)
qed

lemma reachable_inv: "tm_reachable s \<Longrightarrow> sys_inv s"
proof (induction rule: tm_reachable.induct)
  case (start now)
  show ?case by (simp add: sys_inv_iff others_def tm_inv_def newTimerManager_def)
next
  case (step s l s')
  show ?case by (rule sys_inv_step [OF step(2) step.IH])
qed


section \<open>Properties\<close>

definition sampleTimers :: "(unit, nat) timermanager" where
  "sampleTimers = \<lparr>tm_store = [1 \<mapsto> \<lparr>m_recurring = True, m_ms = 10, m_next = 100, m_cb = Some (PlainCb 7)\<rparr>,
      2 \<mapsto> \<lparr>m_recurring = False, m_ms = 50, m_next = 150, m_cb = Some (PlainCb 8)\<rparr>],
     m_timers = [1, 2], m_tickled = False, m_previousTime = 0\<rparr>"

lemma sampleTimers_inv: "tm_inv sampleTimers"
  by (auto simp: sampleTimers_def tm_inv_def tless_iff timer_at_def)

text \<open>
  C13: whatever order the threads' critical sections run in, the set of timers stays strictly
  ordered by expiry time and address, and every timer is in exactly one place: the set, the hands
  of one thread inside \<^verbatim>\<open>listExpiredCb\<close>, or the hands of one thread inside \<^verbatim>\<open>reset\<close>.
\<close>

theorem timers_ordered_and_unique:
  assumes "tm_reachable s"
  shows "sorted_wrt (tless (tm_store (mgr s))) (m_timers (mgr s)) \<and>
    distinct (m_timers (mgr s) @ concat (map snd (expiring s)) @ resetting s) \<and>
    set (m_timers (mgr s)) \<subseteq> dom (tm_store (mgr s))"
  using reachable_inv [OF assms] by (auto simp: sys_inv_def held_def others_def tm_inv_def)

theorem timers_ordered_and_unique_witness:
  "\<exists>s :: (unit, nat) tmsys. tm_reachable s \<and> m_timers (mgr s) = [4] \<and> distinct (m_timers (mgr s))"
proof -
  let ?init = "\<lparr>mgr = newTimerManager 5 :: (unit, nat) timermanager, expiring = [], resetting = []\<rparr>"
  let ?s = "?init\<lparr>mgr := snd (addTimer 5 4 20 None True (mgr ?init))\<rparr>"
  have "tm_step ?init (AddL 4) ?s" by (rule s_add) (simp add: newTimerManager_def)
  then have r: "tm_reachable ?s" using tm_reachable.start tm_reachable.step by blast
  then show ?thesis using timers_ordered_and_unique [OF r]
    by (auto intro!: exI [of _ ?s] simp: addTimer_def addTimerPtr_def newTimerManager_def Let_def)
qed

text \<open>
  No timer is lost.  A timer leaves the set only by being cancelled, by being reset (which
  puts it back in its second half) or by being taken as expired, and then its time had come.
\<close>

theorem timer_leaves_only_when_due:
  assumes "sys_inv s" "tm_step s l s'" "a \<in> set (m_timers (mgr s))" "a \<notin> set (m_timers (mgr s'))"
  shows "l = CancelL a \<or> l = ResetL a \<and> a \<in> set (resetting s') \<or>
    (\<exists>now ex. l = TakeL now \<and> m_next (timer_at (tm_store (mgr s)) a) \<le> now \<and> (now, ex) \<in> set (expiring s') \<and> a \<in> set ex)"
proof -
  have inv: "tm_inv (mgr s)" using assms(1) by (simp add: sys_inv_iff)
  from assms(2) show ?thesis
  proof cases
    case (s_add b now ms cb recurring)
    then show ?thesis using assms(3,4) addTimer_inv(2) [OF inv s_add(3)] by simp
  next
    case (s_cancel b)
    then show ?thesis using assms(3,4) cancel_inv(4) [OF inv s_cancel(3), of a] by auto
  next
    case (s_refresh b now)
    then show ?thesis using assms(3,4) refresh_inv(2) [OF inv s_refresh(3)] by simp
  next
    case (s_reset b now ms from_now ok m)
    then show ?thesis using assms(3,4) reset_locked_inv(3) [OF inv s_reset(3,4)] by (auto split: if_splits)
  next
    case (s_readd b)
    have "b \<in> dom (tm_store (mgr s))" using assms(1) s_readd(3) by (auto simp: sys_inv_iff others_def)
    then show ?thesis using s_readd assms(3,4) addTimerPtr_eq [OF inv, of b] by (simp add: Let_def)
  next
    case (s_take c now ex m)
    then show ?thesis using assms(3,4) expire_take_inv(4,6) [OF inv s_take(3,4)] by auto
  next
    case (s_push now ex cbs m)
    have "set ex \<inter> set (m_timers (mgr s)) = {}" "distinct ex" "set ex \<subseteq> dom (tm_store (mgr s))"
      using assms(1) expiring_others [OF s_push(3)] unfolding sys_inv_iff by auto
    then show ?thesis using expire_push_spec [OF inv, of ex now] s_push assms(3,4) by auto
  next
    case (s_next now)
    then show ?thesis using assms(3,4) by (auto simp: getNextTimer_def Let_def split: list.splits if_splits)
  next
    case (s_free b)
    then show ?thesis using assms(3,4) by simp
  qed
qed

theorem timer_leaves_only_when_due_witness:
  "\<exists>s'. tm_step \<lparr>mgr = sampleTimers, expiring = [], resetting = []\<rparr> (TakeL 120) s' \<and>
     m_next (timer_at (tm_store sampleTimers) 1) \<le> 120 \<and> 1 \<notin> set (m_timers (mgr s'))"
proof -
  let ?s = "\<lparr>mgr = sampleTimers, expiring = [], resetting = []\<rparr>"
  have c: "3 \<notin> dom (tm_store sampleTimers)" by (simp add: sampleTimers_def)
  let ?s' = "?s\<lparr>mgr := snd (expire_take 120 3 sampleTimers), expiring := [(120, fst (expire_take 120 3 sampleTimers))]\<rparr>"
  have st: "tm_step ?s (TakeL 120) ?s'" using s_take [of 3 ?s 120] c by simp
  have inv: "sys_inv ?s" using sampleTimers_inv by (simp add: sys_inv_iff others_def)
  have gone: "1 \<notin> set (m_timers (mgr ?s'))"
    using expire_take_eq [OF sampleTimers_inv c, of 120] by (simp add: sampleTimers_def due_def timer_at_def)
  show ?thesis
    using timer_leaves_only_when_due [OF inv st, of 1] st gone by (auto simp: sampleTimers_def)
qed


text \<open>
  C5: undisturbed, \<^verbatim>\<open>listExpiredCb\<close> returns the callbacks of exactly the due timers, in the
  order of the set; one-shot timers leave the set, recurring ones stay in it, due again one period
  from now; every other timer is untouched and the set stays ordered.
\<close>

theorem listExpiredCb_exact:
  assumes "tm_inv tm" "c \<notin> dom (tm_store tm)"
  shows "\<exists>tm'. listExpiredCb now c tm =
      (map (\<lambda>a. m_cb (timer_at (tm_store tm) a)) (filter (due now c (tm_store tm)) (m_timers tm)), tm') \<and>
    tm_inv tm' \<and>
    set (m_timers tm') = {a \<in> set (m_timers tm). due now c (tm_store tm) a \<longrightarrow> m_recurring (timer_at (tm_store tm) a)} \<and>
    (\<forall>a. timer_at (tm_store tm') a =
      (if a \<in> set (m_timers tm) \<and> due now c (tm_store tm) a then rearm now (timer_at (tm_store tm) a)
       else timer_at (tm_store tm) a))"
proof -
  let ?ex = "filter (due now c (tm_store tm)) (m_timers tm)"
  let ?tm = "tm\<lparr>m_timers := filter (\<lambda>a. \<not> due now c (tm_store tm) a) (m_timers tm)\<rparr>"
  have take: "expire_take now c tm = (?ex, ?tm)" by (rule expire_take_eq [OF assms])
  note t = expire_take_inv [OF assms take]
  have "set ?ex \<subseteq> dom (tm_store ?tm)" using tm_invD(2) [OF assms(1)] by auto
  then obtain tm' where tm': "expire_push now ?ex ?tm = (map (\<lambda>a. m_cb (timer_at (tm_store ?tm) a)) ?ex, tm')"
    "tm_inv tm'" "set (m_timers tm') = set (m_timers ?tm) \<union> {a \<in> set ?ex. m_recurring (timer_at (tm_store ?tm) a)}"
    "\<forall>a. timer_at (tm_store tm') a =
      (if a \<in> set ?ex then rearm now (timer_at (tm_store ?tm) a) else timer_at (tm_store ?tm) a)"
    using expire_push_spec [OF t(1,2,3), of now] by auto
  have "listExpiredCb now c tm = (map (\<lambda>a. m_cb (timer_at (tm_store tm) a)) ?ex, tm')"
    using tm'(1) by (simp add: listExpiredCb_def take)
  moreover have "set (m_timers tm') = {a \<in> set (m_timers tm). due now c (tm_store tm) a \<longrightarrow> m_recurring (timer_at (tm_store tm) a)}"
    using tm'(3) by auto
  ultimately show ?thesis using tm'(2,4) by auto
qed

theorem listExpiredCb_exact_witness:
  "\<exists>tm'. listExpiredCb 120 3 sampleTimers = ([Some (PlainCb 7)], tm') \<and> set (m_timers tm') = {1, 2}"
  using listExpiredCb_exact [OF sampleTimers_inv, of 3 120]
  by (auto simp: sampleTimers_def due_def timer_at_def)

text \<open>
  \<^verbatim>\<open>getNextTimer\<close> answers the time until the earliest timer: all ones when there is no
  timer, 0 when some timer's time has come, and otherwise a number \<open>d\<close> such that some timer expires at
  \<open>now + d\<close> and none before.
\<close>

theorem getNextTimer_earliest:
  assumes "tm_inv tm" and d_def: "d = fst (getNextTimer now tm)"
  shows "if m_timers tm = [] then d = NOT 0
    else if \<exists>a\<in>set (m_timers tm). m_next (timer_at (tm_store tm) a) \<le> now then d = 0
    else 0 < d \<and> (\<exists>a\<in>set (m_timers tm). m_next (timer_at (tm_store tm) a) = now + d) \<and>
      (\<forall>a\<in>set (m_timers tm). now + d \<le> m_next (timer_at (tm_store tm) a))"
proof (cases "m_timers tm")
  case Nil
  then show ?thesis by (simp add: d_def getNextTimer_def)
next
  case (Cons x xs)
  let ?n = "\<lambda>a. m_next (timer_at (tm_store tm) a)"
  have le: "?n x \<le> ?n a" if "a \<in> set (m_timers tm)" for a
    using that tm_invD(1) [OF assms(1)] Cons by (auto simp: tless_iff)
  have d: "d = (if now < ?n x then ?n x - now else 0)"
    by (simp add: d_def getNextTimer_def Let_def Cons)
  show ?thesis
  proof (cases "?n x \<le> now")
    case True
    then show ?thesis using Cons d by (auto simp: not_less)
  next
    case False
    then have lt: "now < ?n x" by simp
    then have "\<not> (\<exists>a\<in>set (m_timers tm). ?n a \<le> now)" using le by fastforce
    moreover have "0 < d" "now + d = ?n x" using lt d by (auto simp: word_neq_0_conv [symmetric])
    ultimately show ?thesis using Cons le by auto
  qed
qed

theorem getNextTimer_earliest_witness:
  "fst (getNextTimer 40 sampleTimers) = 60 \<and> fst (getNextTimer 100 sampleTimers) = 0"
proof -
  have "\<not> (\<exists>a\<in>set (m_timers sampleTimers). m_next (timer_at (tm_store sampleTimers) a) \<le> 40)" "m_timers sampleTimers \<noteq> []"
    "\<exists>a\<in>set (m_timers sampleTimers). m_next (timer_at (tm_store sampleTimers) a) \<le> 100"
    by (simp_all add: sampleTimers_def timer_at_def)
  then show ?thesis
    using getNextTimer_earliest [OF sampleTimers_inv refl, of 100]
    by (simp add: getNextTimer_def sampleTimers_def timer_at_def Let_def)
qed

text \<open>
  \<^verbatim>\<open>cancel\<close> tells whether it stopped the timer.  It returns true exactly when the timer
  had a callback and was in the set; the timer is then out of the set without a callback, every other
  timer stays as it was, and a second \<^verbatim>\<open>cancel\<close>, \<^verbatim>\<open>refresh\<close> or \<^verbatim>\<open>reset\<close> returns false and changes
  nothing.
\<close>

theorem cancel_stops:
  assumes "tm_inv tm" "cancel a tm = (ok, tm')" "a \<in> dom (tm_store tm)"
  shows "(ok \<longleftrightarrow> m_cb (timer_at (tm_store tm) a) \<noteq> None \<and> a \<in> set (m_timers tm)) \<and> tm_inv tm' \<and>
    m_cb (timer_at (tm_store tm') a) = None \<and>
    (ok \<longrightarrow> set (m_timers tm') = set (m_timers tm) - {a}) \<and>
    (\<forall>b. b \<noteq> a \<longrightarrow> tm_store tm' b = tm_store tm b \<and> (b \<in> set (m_timers tm') \<longleftrightarrow> b \<in> set (m_timers tm))) \<and>
    cancel a tm' = (False, tm') \<and> refresh now a tm' = (False, tm') \<and> reset now a ms from_now tm' = (False, False, tm')"
proof -
  have "tm_inv tm'" using cancel_inv(1) [OF assms(1,3)] assms(2) by simp
  moreover have "m_cb (timer_at (tm_store tm') a) = None"
    using assms(2) unfolding cancel_eq [OF assms(1)] by (auto split: if_splits)
  ultimately show ?thesis
    using assms(2) unfolding cancel_eq [OF assms(1)]
    by (auto simp: cancel_def refresh_def reset_def reset_locked_def split: if_splits)
qed

theorem cancel_stops_witness:
  "\<exists>tm'. cancel 1 sampleTimers = (True, tm') \<and> cancel 1 tm' = (False, tm') \<and> set (m_timers tm') = {2}"
proof -
  obtain ok tm' where c: "cancel 1 sampleTimers = (ok, tm')" by fastforce
  show ?thesis
    using cancel_stops [OF sampleTimers_inv c] c by (auto simp: sampleTimers_def timer_at_def)
qed

text \<open>
  A new timer wakes the poller exactly when it becomes the earliest one and no wake-up
  is already pending; it is in the set afterwards, due \<open>ms\<close> from now.
\<close>

theorem addTimer_wakes_front:
  assumes "tm_inv tm" "a \<notin> dom (tm_store tm)" "addTimer now a ms cb recurring tm = (front, tm')"
  shows "tm_inv tm' \<and> set (m_timers tm') = insert a (set (m_timers tm)) \<and>
    m_next (timer_at (tm_store tm') a) = now + ms \<and>
    (front \<longleftrightarrow> \<not> m_tickled tm \<and> (\<forall>b\<in>set (m_timers tm). tless (tm_store tm') a b)) \<and>
    (m_tickled tm' \<longleftrightarrow> front \<or> m_tickled tm)"
proof -
  let ?st = "(tm_store tm)(a \<mapsto> newTimer now ms cb recurring)"
  have na: "a \<notin> set (m_timers tm)" using assms tm_invD(2) by blast
  have inv: "tm_inv (tm\<lparr>tm_store := ?st\<rparr>)"
    using na assms(1) sorted_same_next [of "tm_store tm" ?st "m_timers tm"] by (auto simp: tm_inv_def)
  define timers where "timers = set_insert (tless ?st) a (m_timers tm)"
  have tm': "front = (a = hd timers \<and> \<not> m_tickled tm)"
    "tm' = tm\<lparr>tm_store := ?st, m_timers := timers, m_tickled := (if front then True else m_tickled tm)\<rparr>"
    using assms(3) addTimerPtr_eq(1) [OF inv, of a] by (auto simp: addTimer_def Let_def timers_def)
  note ti = addTimer_inv [OF assms(1,2), of now ms cb recurring, unfolded assms(3), simplified]
  have so: "sorted_wrt (tless ?st) timers" "timers \<noteq> []" "set timers = insert a (set (m_timers tm))"
    using tm_invD(1) [OF inv] by (auto simp: timers_def timer_set simp flip: set_empty)
  have "a = hd timers \<longleftrightarrow> (\<forall>b\<in>set (m_timers tm). tless ?st a b)"
  proof
    assume "a = hd timers"
    then show "\<forall>b\<in>set (m_timers tm). tless ?st a b" using so na by (cases timers) auto
  next
    assume min: "\<forall>b\<in>set (m_timers tm). tless ?st a b"
    show "a = hd timers"
    proof (rule ccontr)
      assume ne: "a \<noteq> hd timers"
      obtain h t where h: "timers = h # t" using so(2) by (cases timers) auto
      then have "h \<in> set (m_timers tm)" "a \<in> set t" using ne so(3) by auto
      then have "tless ?st h a" "tless ?st a h" using h so(1) min by auto
      then show False using tset.lt_asym [of ?st h a] by simp
    qed
  qed
  then show ?thesis using ti tm' by (auto simp: newTimer_def)
qed

theorem addTimer_wakes_front_witness:
  "\<exists>tm'. addTimer 20 3 10 (Some (PlainCb 9)) False sampleTimers = (True, tm') \<and>
     m_next (timer_at (tm_store tm') 3) = 30 \<and> set (m_timers tm') = {1, 2, 3}"
proof -
  obtain front tm' where a: "addTimer 20 3 10 (Some (PlainCb 9)) False sampleTimers = (front, tm')" by fastforce
  have f: "3 \<notin> dom (tm_store sampleTimers)" by (simp add: sampleTimers_def)
  have st: "tm_store tm' = (tm_store sampleTimers)(3 \<mapsto> newTimer 20 10 (Some (PlainCb 9)) False)"
    using addTimer_inv(3) [OF sampleTimers_inv f, of 20 10 "Some (PlainCb 9)" False] a by simp
  have "tless (tm_store tm') 3 1" "tless (tm_store tm') 3 2"
    by (simp_all add: st tless_iff newTimer_def timer_at_def sampleTimers_def)
  then have "front"
    using addTimer_wakes_front [OF sampleTimers_inv f a] by (auto simp: sampleTimers_def)
  then show ?thesis
    using addTimer_wakes_front [OF sampleTimers_inv f a] a by (auto simp: sampleTimers_def intro!: exI [of _ tm'])
qed

text \<open>
  \<^verbatim>\<open>reset(ms, true)\<close> sets the timer to expire one \<^emph>\<open>old\<close> period from now: the new
  period \<open>ms\<close> is only used when the timer is next re-armed.
\<close>

theorem reset_from_now_uses_old_period:
  assumes "tm_inv tm" "m_cb (timer_at (tm_store tm) a) \<noteq> None" "a \<in> set (m_timers tm)"
  shows "\<exists>front tm'. reset now a ms True tm = (True, front, tm') \<and>
    m_next (timer_at (tm_store tm') a) = now + m_ms (timer_at (tm_store tm) a) \<and>
    m_ms (timer_at (tm_store tm') a) = ms"
  using assms(2,3)
  by (auto simp: reset_def reset_locked_eq [OF assms(1)] addTimerPtr_def Let_def split: prod.splits)

theorem reset_from_now_uses_old_period_witness:
  "\<exists>front tm'. reset 90 1 500 True sampleTimers = (True, front, tm') \<and> m_next (timer_at (tm_store tm') 1) = 100"
  using reset_from_now_uses_old_period [OF sampleTimers_inv, of 1 90 500]
  by (auto simp: sampleTimers_def timer_at_def)


text \<open>
  A recurring timer that is cancelled while a thread is between the two halves of
  \<^verbatim>\<open>listExpiredCb\<close> is not stopped: \<^verbatim>\<open>cancel\<close> returns false, the second half hands out an empty
  function object for it and puts it back into the set, where it stays without a callback.
\<close>

theorem cancel_between_halves:
  assumes "tm_inv tm" "c \<notin> dom (tm_store tm)" "a \<in> set (m_timers tm)" "due now c (tm_store tm) a"
    and "m_recurring (timer_at (tm_store tm) a)"
    and "expire_take now c tm = (ex, tm1)" "cancel a tm1 = (ok, tm2)" "expire_push now ex tm2 = (cbs, tm3)"
  shows "\<not> ok \<and> None \<in> set cbs \<and> a \<in> set (m_timers tm3) \<and> m_cb (timer_at (tm_store tm3) a) = None"
proof -
  note t = expire_take_inv [OF assms(1,2,6)]
  have ex: "a \<in> set ex" using assms(3,4,6) unfolding expire_take_eq [OF assms(1,2)] by auto
  then have a1: "a \<notin> set (m_timers tm1)" "a \<in> dom (tm_store tm1)"
    using t assms(3) tm_invD(2) [OF assms(1)] by auto
  note c = cancel_inv [OF t(1) a1(2), unfolded assms(7), simplified]
  have cb: "\<not> ok" "m_cb (timer_at (tm_store tm2) a) = None" "m_recurring (timer_at (tm_store tm2) a)"
    using assms(7) a1(1) assms(5) t(5) unfolding cancel_eq [OF t(1)] by (auto split: if_splits)
  have "set ex \<inter> set (m_timers tm2) = {}" "set ex \<subseteq> dom (tm_store tm2)"
    using t(3,4,5) c(2,3) tm_invD(2) [OF assms(1)] by auto
  from expire_push_spec [OF c(1) t(2) this, of now] show ?thesis
    using assms(8) ex cb by (auto simp: rearm_def intro!: image_eqI [of _ _ a])
qed

theorem cancel_between_halves_witness:
  "\<exists>ex tm1 ok tm2 cbs tm3. expire_take 120 3 sampleTimers = (ex, tm1) \<and> cancel 1 tm1 = (ok, tm2) \<and>
     expire_push 120 ex tm2 = (cbs, tm3) \<and> \<not> ok \<and> 1 \<in> set (m_timers tm3)"
proof -
  obtain ex tm1 where 1: "expire_take 120 3 sampleTimers = (ex, tm1)" by fastforce
  obtain ok tm2 where 2: "cancel 1 tm1 = (ok, tm2)" by fastforce
  obtain cbs tm3 where 3: "expire_push 120 ex tm2 = (cbs, tm3)" by fastforce
  have "\<not> ok \<and> 1 \<in> set (m_timers tm3)"
    using cancel_between_halves [OF sampleTimers_inv _ _ _ _ 1 2 3]
    by (simp add: sampleTimers_def due_def timer_at_def)
  then show ?thesis using 1 2 3 by blast
qed

end
