(* ===== verification/IOManager.thy ===== *)
theory IOManager
  imports Scheduler TimerManager
begin

unbundle bit_operations_syntax

text \<open>
  The I/O manager (\<^verbatim>\<open>saturn/iomanager.cc\<close>): a scheduler whose idle fiber waits in \<^verbatim>\<open>epoll_wait\<close> and hands
  the fibers and callbacks registered for the ready descriptors, and the callbacks of the expired
  timers, to the task list.  \<open>epoll\<close> is the kernel's interest list of \<^verbatim>\<open>m_epfd\<close>, \<open>tickles\<close> the bytes in the
  wake-up pipe.  The result of an \<^verbatim>\<open>epoll_ctl\<close> is given by \<open>ok\<close>, what \<^verbatim>\<open>epoll_wait\<close> reports by a list.
\<close>

section \<open>State\<close>

definition NONE :: u32 where "NONE = 0x0"
definition READ :: u32 where "READ = 0x1"
definition WRITE :: u32 where "WRITE = 0x4"

definition EPOLLIN :: u32 where "EPOLLIN = 0x1"
definition EPOLLOUT :: u32 where "EPOLLOUT = 0x4"
definition EPOLLERR :: u32 where "EPOLLERR = 0x8"
definition EPOLLHUP :: u32 where "EPOLLHUP = 0x10"
definition EPOLLET :: u32 where "EPOLLET = 0x80000000"

text \<open>\<open>ec_scheduler\<close> tells whether the pointer \<^verbatim>\<open>scheduler\<close> is set; it then is this scheduler.\<close>

record 'cb event_ctx =
  ec_scheduler :: bool
  ec_fiber :: "fid option"
  ec_cb :: "'cb option"

record 'cb fd_ctx =
  fc_read :: "'cb event_ctx"
  fc_write :: "'cb event_ctx"
  fc_fd :: nat
  fc_events :: u32

definition empty_ctx :: "'cb event_ctx" where
  "empty_ctx = \<lparr>ec_scheduler = False, ec_fiber = None, ec_cb = None\<rparr>"

record ('w, 'cb) iomanager =
  iom_sch :: "'cb sched"
  iom_tm :: "('w, 'cb) timermanager"
  m_pendingEventCount :: u64
  m_fdContexts :: "'cb fd_ctx list"
  epoll :: "nat \<rightharpoonup> u32"
  tickles :: nat

section \<open>Contexts of a descriptor\<close>

definition getContext :: "u32 \<Rightarrow> 'cb fd_ctx \<Rightarrow> 'cb event_ctx res" where
  "getContext event fc =
     (if event = READ then Inr (fc_read fc) else if event = WRITE then Inr (fc_write fc) else Inl AssertFail)"

definition putContext :: "u32 \<Rightarrow> 'cb event_ctx \<Rightarrow> 'cb fd_ctx \<Rightarrow> 'cb fd_ctx" where
  "putContext event ctx fc = (if event = READ then fc\<lparr>fc_read := ctx\<rparr> else fc\<lparr>fc_write := ctx\<rparr>)"

definition resetContext :: "'cb event_ctx \<Rightarrow> 'cb event_ctx" where
  "resetContext ctx = ctx\<lparr>ec_cb := None, ec_fiber := None, ec_scheduler := False\<rparr>"

text \<open>\<^verbatim>\<open>tickle\<close> writes a byte to the pipe when a worker idles.\<close>

definition iom_tickle :: "('w, 'cb) iomanager \<Rightarrow> ('w, 'cb) iomanager" where
  "iom_tickle m = (if m_idleThreadCount (iom_sch m) > 0 then m\<lparr>tickles := tickles m + 1\<rparr> else m)"

definition iom_schedule :: "fid option \<Rightarrow> 'cb option \<Rightarrow> ('w, 'cb) iomanager \<Rightarrow> ('w, 'cb) iomanager" where
  "iom_schedule f cb m =
     (let (need_tickle, s) = schedule f cb (- 1) (iom_sch m); m1 = m\<lparr>iom_sch := s\<rparr>
      in if need_tickle then iom_tickle m1 else m1)"

definition set_fc :: "nat \<Rightarrow> 'cb fd_ctx \<Rightarrow> ('w, 'cb) iomanager \<Rightarrow> ('w, 'cb) iomanager" where
  "set_fc fd fc m = m\<lparr>m_fdContexts := (m_fdContexts m)[fd := fc]\<rparr>"

text \<open>\<^verbatim>\<open>triggerEvent\<close> of the context of \<open>fd\<close>; scheduling swaps the callback or the fiber out of it.\<close>

definition triggerEvent :: "nat \<Rightarrow> u32 \<Rightarrow> ('w, 'cb) iomanager \<Rightarrow> ('w, 'cb) iomanager res" where
  "triggerEvent fd event m =
     (let fc = m_fdContexts m ! fd in
      bindE (assertE (fc_events fc AND event \<noteq> 0)) (\<lambda>_.
        let fc1 = fc\<lparr>fc_events := fc_events fc AND NOT event\<rparr>
        in bindE (getContext event fc1) (\<lambda>ctx.
           if \<not> ec_scheduler ctx then Inl NullDeref
           else if ec_cb ctx \<noteq> None then
             Inr (iom_schedule None (ec_cb ctx)
                    (set_fc fd (putContext event (ctx\<lparr>ec_cb := None, ec_scheduler := False\<rparr>) fc1) m))
           else
             Inr (iom_schedule (ec_fiber ctx) None
                    (set_fc fd (putContext event (ctx\<lparr>ec_fiber := None, ec_scheduler := False\<rparr>) fc1) m)))))"

text \<open>\<^verbatim>\<open>contextResize\<close>: \<^verbatim>\<open>resize\<close> cuts the vector when it is longer.\<close>

definition new_fc :: "nat \<Rightarrow> 'cb fd_ctx" where
  "new_fc i = \<lparr>fc_read = empty_ctx, fc_write = empty_ctx, fc_fd = i, fc_events = NONE\<rparr>"

definition contextResize :: "nat \<Rightarrow> ('w, 'cb) iomanager \<Rightarrow> ('w, 'cb) iomanager" where
  "contextResize sz m =
     m\<lparr>m_fdContexts := take sz (m_fdContexts m) @ map new_fc [length (m_fdContexts m) ..< sz]\<rparr>"

section \<open>The kernel's interest list\<close>

datatype epoll_op = EPOLL_CTL_ADD | EPOLL_CTL_MOD | EPOLL_CTL_DEL

text \<open>
  \<^verbatim>\<open>epoll_ctl\<close>: adding a descriptor that is in the list, or changing or removing one that is not, fails; so
  does any call for which \<open>ok\<close> is false.  The Boolean tells success.
\<close>

definition epoll_ctl :: "bool \<Rightarrow> epoll_op \<Rightarrow> nat \<Rightarrow> u32 \<Rightarrow> (nat \<rightharpoonup> u32) \<Rightarrow> bool \<times> (nat \<rightharpoonup> u32)" where
  "epoll_ctl ok op fd ev ep =
     (case op of
        EPOLL_CTL_ADD \<Rightarrow> if ok \<and> ep fd = None then (True, ep(fd \<mapsto> ev)) else (False, ep)
      | EPOLL_CTL_MOD \<Rightarrow> if ok \<and> ep fd \<noteq> None then (True, ep(fd \<mapsto> ev)) else (False, ep)
      | EPOLL_CTL_DEL \<Rightarrow> if ok \<and> ep fd \<noteq> None then (True, ep(fd := None)) else (False, ep))"

section \<open>Operations\<close>

definition newIOManager :: "'cb sched \<Rightarrow> u64 \<Rightarrow> ('w, 'cb) iomanager" where
  "newIOManager s now = contextResize 32
     \<lparr>iom_sch = s, iom_tm = newTimerManager now, m_pendingEventCount = 0, m_fdContexts = [], epoll = Map.empty,
      tickles = 0\<rparr>"

text \<open>
  \<^verbatim>\<open>addEvent\<close>: \<open>sched\<close> tells whether the thread has a scheduler, \<open>cur\<close> is the running fiber with its state.
  The vector grows under its own lock; \<open>fd\<close> is a descriptor, so not negative.
\<close>

definition growFor :: "nat \<Rightarrow> ('w, 'cb) iomanager \<Rightarrow> ('w, 'cb) iomanager" where
  "growFor fd m = (if length (m_fdContexts m) > fd then m else contextResize (fd * 2) m)"

definition addEvent :: "bool \<Rightarrow> bool \<Rightarrow> fid \<times> fstate \<Rightarrow> nat \<Rightarrow> u32 \<Rightarrow> 'cb option \<Rightarrow> ('w, 'cb) iomanager \<Rightarrow>
    (int \<times> ('w, 'cb) iomanager) res" where
  "addEvent ok sched cur fd event cb m0 =
     (let m = growFor fd m0 in
      if fd \<ge> length (m_fdContexts m) then Inl OutOfBounds
      else
        let fc = m_fdContexts m ! fd in
        if fc_events fc AND event \<noteq> 0 then Inl AssertFail
        else
          let op = (if fc_events fc \<noteq> 0 then EPOLL_CTL_MOD else EPOLL_CTL_ADD);
              (success, ep) = epoll_ctl ok op fd (EPOLLET OR fc_events fc OR event) (epoll m)
          in if \<not> success then Inr (- 1, m)
             else
               let m1 = m\<lparr>epoll := ep, m_pendingEventCount := m_pendingEventCount m + 1\<rparr>;
                   fc1 = fc\<lparr>fc_events := fc_events fc OR event\<rparr>
               in bindE (getContext event fc1) (\<lambda>ctx.
                  bindE (assertE (\<not> ec_scheduler ctx \<and> ec_fiber ctx = None \<and> ec_cb ctx = None)) (\<lambda>_.
                    if cb \<noteq> None then
                      Inr (0, set_fc fd (putContext event (ctx\<lparr>ec_scheduler := sched, ec_cb := cb\<rparr>) fc1) m1)
                    else
                      bindE (assertE (snd cur = EXEC)) (\<lambda>_.
                        Inr (0, set_fc fd (putContext event (ctx\<lparr>ec_scheduler := sched, ec_fiber := Some (fst cur)\<rparr>) fc1) m1)))))"

definition delEvent :: "bool \<Rightarrow> nat \<Rightarrow> u32 \<Rightarrow> ('w, 'cb) iomanager \<Rightarrow> (bool \<times> ('w, 'cb) iomanager) res" where
  "delEvent ok fd event m =
     (if fd \<ge> length (m_fdContexts m) then Inr (False, m)
      else
        let fc = m_fdContexts m ! fd in
        if fc_events fc AND event = 0 then Inr (False, m)
        else
          let new_event = fc_events fc AND NOT event;
              op = (if new_event \<noteq> 0 then EPOLL_CTL_MOD else EPOLL_CTL_DEL);
              (success, ep) = epoll_ctl ok op fd (EPOLLIN OR new_event) (epoll m)
          in if \<not> success then Inr (False, m)
             else
               let m1 = m\<lparr>epoll := ep, m_pendingEventCount := m_pendingEventCount m - 1\<rparr>;
                   fc1 = fc\<lparr>fc_events := new_event\<rparr>
               in bindE (getContext event fc1) (\<lambda>ctx.
                    Inr (True, set_fc fd (putContext event (resetContext ctx) fc1) m1)))"

definition cancelEvent :: "bool \<Rightarrow> nat \<Rightarrow> u32 \<Rightarrow> ('w, 'cb) iomanager \<Rightarrow> (bool \<times> ('w, 'cb) iomanager) res" where
  "cancelEvent ok fd event m =
     (if fd \<ge> length (m_fdContexts m) then Inr (False, m)
      else
        let fc = m_fdContexts m ! fd in
        if fc_events fc AND event = 0 then Inr (False, m)
        else
          let new_event = fc_events fc AND NOT event;
              op = (if new_event \<noteq> 0 then EPOLL_CTL_MOD else EPOLL_CTL_DEL);
              (success, ep) = epoll_ctl ok op fd (EPOLLIN OR new_event) (epoll m)
          in if \<not> success then Inr (False, m)
             else
               let m1 = m\<lparr>epoll := ep, m_pendingEventCount := m_pendingEventCount m - 1\<rparr>
               in bindE (triggerEvent fd event m1) (\<lambda>m2. Inr (True, m2)))"

text \<open>\<^verbatim>\<open>if(fc->events & event) { fc->triggerEvent(event); --m_pendingEventCount; }\<close>\<close>

definition triggerPending :: "nat \<Rightarrow> u32 \<Rightarrow> ('w, 'cb) iomanager \<Rightarrow> ('w, 'cb) iomanager res" where
  "triggerPending fd event m =
     bindE (triggerEvent fd event m) (\<lambda>m1. Inr (m1\<lparr>m_pendingEventCount := m_pendingEventCount m1 - 1\<rparr>))"

definition cancelAll :: "bool \<Rightarrow> nat \<Rightarrow> ('w, 'cb) iomanager \<Rightarrow> (bool \<times> ('w, 'cb) iomanager) res" where
  "cancelAll ok fd m =
     (if fd \<ge> length (m_fdContexts m) then Inr (False, m)
      else if fc_events (m_fdContexts m ! fd) = 0 then Inr (False, m)
      else
        let (success, ep) = epoll_ctl ok EPOLL_CTL_DEL fd 0 (epoll m) in
        if \<not> success then Inr (False, m)
        else
          let m1 = m\<lparr>epoll := ep\<rparr> in
          bindE (if fc_events (m_fdContexts m1 ! fd) AND READ \<noteq> 0 then triggerPending fd READ m1 else Inr m1) (\<lambda>m2.
          bindE (if fc_events (m_fdContexts m2 ! fd) AND WRITE \<noteq> 0 then triggerPending fd WRITE m2 else Inr m2) (\<lambda>m3.
          bindE (assertE (fc_events (m_fdContexts m3 ! fd) = 0)) (\<lambda>_. Inr (True, m3)))))"

definition iom_stopping :: "u64 \<Rightarrow> ('w, 'cb) iomanager \<Rightarrow> bool \<times> u64 \<times> ('w, 'cb) iomanager" where
  "iom_stopping now m =
     (let (time_out, tm) = getNextTimer now (iom_tm m)
      in (time_out = NOT 0 \<and> m_pendingEventCount m = 0 \<and> stopping (iom_sch m), time_out, m\<lparr>iom_tm := tm\<rparr>))"

section \<open>The idle fiber\<close>

text \<open>
  The timeout passed to \<^verbatim>\<open>epoll_wait\<close>: the conversions to \<^verbatim>\<open>int\<close> are the ones of the source, the argument
  itself being an \<^verbatim>\<open>int\<close>.
\<close>

definition MAX_TIMEOUT :: u64 where "MAX_TIMEOUT = 3000"

definition to_int :: "u64 \<Rightarrow> int" where
  "to_int v = sint (ucast v :: u32)"

definition clamp_timeout :: "u64 \<Rightarrow> u64" where
  "clamp_timeout next_timeout =
     (if next_timeout \<noteq> NOT 0 then (if to_int next_timeout > to_int MAX_TIMEOUT then MAX_TIMEOUT else next_timeout)
      else MAX_TIMEOUT)"

definition epoll_timeout :: "u64 \<Rightarrow> int" where
  "epoll_timeout next_timeout = to_int (clamp_timeout next_timeout)"

text \<open>One entry of the result of \<^verbatim>\<open>epoll_wait\<close>: the pipe, or a descriptor with its events.\<close>

datatype epoll_entry = TickleEntry | FdEntry nat u32

definition handle_entry :: "bool \<Rightarrow> epoll_entry \<Rightarrow> ('w, 'cb) iomanager \<Rightarrow> ('w, 'cb) iomanager res" where
  "handle_entry ok e m =
     (case e of
        TickleEntry \<Rightarrow> Inr (m\<lparr>tickles := 0\<rparr>)
      | FdEntry fd ev \<Rightarrow>
          if fd \<ge> length (m_fdContexts m) then Inl OutOfBounds
          else
            let fc = m_fdContexts m ! fd;
                ev1 = (if ev AND (EPOLLERR OR EPOLLHUP) \<noteq> 0 then ev OR ((EPOLLIN OR EPOLLOUT) AND fc_events fc) else ev);
                real = (if ev1 AND EPOLLIN \<noteq> 0 then READ else NONE) OR (if ev1 AND EPOLLOUT \<noteq> 0 then WRITE else NONE)
            in if fc_events fc AND real = NONE then Inr m
               else
                 let left = fc_events fc AND NOT real;
                     op = (if left \<noteq> 0 then EPOLL_CTL_MOD else EPOLL_CTL_DEL);
                     (success, ep) = epoll_ctl ok op (fc_fd fc) (EPOLLET OR left) (epoll m)
                 in if \<not> success then Inr m
                    else
                      bindE (if real AND READ \<noteq> 0 then triggerPending fd READ (m\<lparr>epoll := ep\<rparr>) else Inr (m\<lparr>epoll := ep\<rparr>)) (\<lambda>m2.
                        if real AND WRITE \<noteq> 0 then triggerPending fd WRITE m2 else Inr m2))"

fun handle_entries :: "(bool \<times> epoll_entry) list \<Rightarrow> ('w, 'cb) iomanager \<Rightarrow> ('w, 'cb) iomanager res" where
  "handle_entries [] m = Inr m"
| "handle_entries ((ok, e) # es) m = bindE (handle_entry ok e m) (handle_entries es)"

text \<open>
  One round of \<^verbatim>\<open>idle\<close>, up to the switch back to the scheduler: \<open>None\<close> when the loop ends.  \<open>run\<close> turns a
  timer callback into a task.
\<close>

definition idle_round :: "(('w, 'cb) timer_cb \<Rightarrow> 'cb) \<Rightarrow> u64 \<Rightarrow> u64 \<Rightarrow> address \<Rightarrow> (bool \<times> epoll_entry) list \<Rightarrow>
    ('w, 'cb) iomanager \<Rightarrow> ('w, 'cb) iomanager option res" where
  "idle_round run now now' c es m =
     (let (stop, time_out, m1) = iom_stopping now m in
      if stop then Inr None
      else
        let (cbs, tm) = listExpiredCb now' c (iom_tm m1);
            (need_tickle, s) = scheduleRange (map (map_option run) cbs) (iom_sch m1);
            m2 = m1\<lparr>iom_tm := tm, iom_sch := s\<rparr>;
            m3 = (if need_tickle then iom_tickle m2 else m2)
        in bindE (handle_entries es m3) (\<lambda>m4. Inr (Some m4)))"

definition iom_onTimerInsertedAtFront :: "('w, 'cb) iomanager \<Rightarrow> ('w, 'cb) iomanager" where
  "iom_onTimerInsertedAtFront m = iom_tickle m"


section \<open>The invariant\<close>

text \<open>An event that is registered has a scheduler and either a callback or a fiber to hand over.\<close>

definition armed :: "'cb event_ctx \<Rightarrow> bool" where
  "armed ctx \<longleftrightarrow> ec_scheduler ctx \<and> (ec_cb ctx = None \<longleftrightarrow> ec_fiber ctx \<noteq> None)"

definition ctx_ok :: "u32 \<Rightarrow> u32 \<Rightarrow> 'cb event_ctx \<Rightarrow> bool" where
  "ctx_ok events event ctx \<longleftrightarrow> (if events AND event = 0 then ctx = empty_ctx else armed ctx)"

definition fc_ok :: "nat \<Rightarrow> 'cb fd_ctx \<Rightarrow> bool" where
  "fc_ok i fc \<longleftrightarrow> fc_fd fc = i \<and> fc_events fc \<in> {NONE, READ, WRITE, READ OR WRITE} \<and>
     ctx_ok (fc_events fc) READ (fc_read fc) \<and> ctx_ok (fc_events fc) WRITE (fc_write fc)"

definition nev :: "'cb fd_ctx \<Rightarrow> nat" where
  "nev fc = (if fc_events fc AND READ \<noteq> 0 then 1 else 0) + (if fc_events fc AND WRITE \<noteq> 0 then 1 else 0)"

definition iom_inv :: "('w, 'cb) iomanager \<Rightarrow> bool" where
  "iom_inv m \<longleftrightarrow> m_fdContexts m \<noteq> [] \<and>
     (\<forall>i<length (m_fdContexts m). fc_ok i (m_fdContexts m ! i)) \<and>
     m_pendingEventCount m = of_nat (sum_list (map nev (m_fdContexts m))) \<and>
     (\<forall>fd. epoll m fd \<noteq> None \<longleftrightarrow> fd < length (m_fdContexts m) \<and> fc_events (m_fdContexts m ! fd) \<noteq> 0)"

lemmas event_bits = NONE_def READ_def WRITE_def EPOLLIN_def EPOLLOUT_def EPOLLERR_def EPOLLHUP_def EPOLLET_def

lemma iom_invD:
  assumes "iom_inv m" "fd < length (m_fdContexts m)"
  shows "fc_ok fd (m_fdContexts m ! fd)" "epoll m fd \<noteq> None \<longleftrightarrow> fc_events (m_fdContexts m ! fd) \<noteq> 0"
    "m_pendingEventCount m = of_nat (sum_list (map nev (m_fdContexts m)))"
  using assms by (auto simp: iom_inv_def)

lemma nev_update:
  assumes "fd < length xs"
  shows "of_nat (sum_list (map nev (xs[fd := fc]))) + (of_nat (nev (xs ! fd)) :: u64) =
    of_nat (sum_list (map nev xs)) + of_nat (nev fc)"
proof -
  have "sum_list (map nev (xs[fd := fc])) + nev (xs ! fd) = sum_list (map nev xs) + nev fc"
    using assms by (induction xs arbitrary: fd) (auto split: nat.split simp: less_Suc_eq_0_disj)
  then show ?thesis by (metis of_nat_add)
qed

text \<open>Changing one descriptor keeps the invariant when its context, the count and the interest list agree.\<close>

lemma iom_inv_update:
  assumes "iom_inv m" "fd < length (m_fdContexts m)" "fc_ok fd fc"
    "m_fdContexts m' = (m_fdContexts m)[fd := fc]"
    "m_pendingEventCount m' + of_nat (nev (m_fdContexts m ! fd)) = m_pendingEventCount m + of_nat (nev fc)"
    "\<forall>g. g \<noteq> fd \<longrightarrow> epoll m' g = epoll m g" "epoll m' fd \<noteq> None \<longleftrightarrow> fc_events fc \<noteq> 0"
  shows "iom_inv m'"
proof -
  have "m_pendingEventCount m' = of_nat (sum_list (map nev (m_fdContexts m')))"
    using nev_update [OF assms(2), of fc] assms(4,5) iom_invD(3) [OF assms(1,2)] by (metis add_right_imp_eq)
  moreover have "\<forall>i<length (m_fdContexts m'). fc_ok i (m_fdContexts m' ! i)"
    using assms(1,2,3,4) by (auto simp: iom_inv_def nth_list_update)
  moreover have "epoll m' g \<noteq> None \<longleftrightarrow> g < length (m_fdContexts m') \<and> fc_events (m_fdContexts m' ! g) \<noteq> 0" for g
    using assms(1,2,4,6,7) by (cases "g = fd") (auto simp: iom_inv_def nth_list_update)
  ultimately show ?thesis using assms(1,4) by (auto simp: iom_inv_def)
qed

lemma iom_schedule_simps [simp]:
  "m_fdContexts (iom_schedule f cb m) = m_fdContexts m" "epoll (iom_schedule f cb m) = epoll m"
  "m_pendingEventCount (iom_schedule f cb m) = m_pendingEventCount m" "iom_tm (iom_schedule f cb m) = iom_tm m"
  by (auto simp: iom_schedule_def iom_tickle_def Let_def split: prod.split)

lemma iom_schedule_tasks:
  "m_fibers (iom_sch (iom_schedule f cb m)) =
    m_fibers (iom_sch m) @ (if f \<noteq> None \<or> cb \<noteq> None then [\<lparr>ft_fiber = f, ft_cb = cb, ft_thread = - 1\<rparr>] else [])"
  by (auto simp: iom_schedule_def iom_tickle_def schedule_def scheduleNoLock_def Let_def split: prod.split)

lemma set_fc_simps [simp]:
  "m_fdContexts (set_fc fd fc m) = (m_fdContexts m)[fd := fc]" "epoll (set_fc fd fc m) = epoll m"
  "m_pendingEventCount (set_fc fd fc m) = m_pendingEventCount m" "iom_sch (set_fc fd fc m) = iom_sch m"
  "iom_tm (set_fc fd fc m) = iom_tm m"
  by (simp_all add: set_fc_def)

text \<open>The task a context hands over.\<close>

definition ctx_task :: "'cb event_ctx \<Rightarrow> 'cb ftask" where
  "ctx_task ctx = \<lparr>ft_fiber = (if ec_cb ctx \<noteq> None then None else ec_fiber ctx), ft_cb = ec_cb ctx, ft_thread = - 1\<rparr>"

definition cleared :: "u32 \<Rightarrow> 'cb fd_ctx \<Rightarrow> 'cb fd_ctx" where
  "cleared event fc = putContext event empty_ctx (fc\<lparr>fc_events := fc_events fc AND NOT event\<rparr>)"

definition the_ctx :: "u32 \<Rightarrow> 'cb fd_ctx \<Rightarrow> 'cb event_ctx" where
  "the_ctx event fc = (if event = READ then fc_read fc else fc_write fc)"

lemma triggerEvent_eq:
  assumes "fc_ok fd fc" "m_fdContexts m ! fd = fc" "event = READ \<or> event = WRITE" "fc_events fc AND event \<noteq> 0"
  shows "triggerEvent fd event m =
    Inr (iom_schedule (ft_fiber (ctx_task (the_ctx event fc))) (ec_cb (the_ctx event fc)) (set_fc fd (cleared event fc) m))"
proof -
  have ar: "armed (the_ctx event fc)"
    using assms(1,3,4) by (auto simp: fc_ok_def ctx_ok_def the_ctx_def)
  then have emp: "the_ctx event fc\<lparr>ec_cb := None, ec_scheduler := False\<rparr> = empty_ctx" if "ec_cb (the_ctx event fc) \<noteq> None"
    using that by (cases "the_ctx event fc") (auto simp: armed_def empty_ctx_def)
  have emp': "the_ctx event fc\<lparr>ec_fiber := None, ec_scheduler := False\<rparr> = empty_ctx" if "ec_cb (the_ctx event fc) = None"
    using that ar by (cases "the_ctx event fc") (auto simp: armed_def empty_ctx_def)
  have "getContext event (fc\<lparr>fc_events := fc_events fc AND NOT event\<rparr>) = Inr (the_ctx event fc)"
    using assms(3) by (auto simp: getContext_def the_ctx_def READ_def WRITE_def)
  then show ?thesis
    using assms(2,4) ar emp emp'
    by (cases "ec_cb (the_ctx event fc)") (auto simp: triggerEvent_def Let_def armed_def cleared_def ctx_task_def)
qed


lemma fc_ok_events: "fc_ok fd fc \<Longrightarrow> fc_events fc = 0 \<or> fc_events fc = 1 \<or> fc_events fc = 4 \<or> fc_events fc = 5"
  by (auto simp: fc_ok_def event_bits)

lemma cleared_ok:
  assumes "fc_ok fd fc" "event = READ \<or> event = WRITE" "fc_events fc AND event \<noteq> 0"
  shows "fc_ok fd (cleared event fc)" "nev fc = Suc (nev (cleared event fc))"
    "fc_events (cleared event fc) = fc_events fc AND NOT event"
proof -
  show ev: "fc_events (cleared event fc) = fc_events fc AND NOT event"
    by (simp add: cleared_def putContext_def)
  show "fc_ok fd (cleared event fc)"
    using fc_ok_events [OF assms(1)] assms by (auto simp: fc_ok_def ctx_ok_def cleared_def putContext_def event_bits)
  show "nev fc = Suc (nev (cleared event fc))"
    using fc_ok_events [OF assms(1)] assms by (auto simp: nev_def ev event_bits)
qed

lemma epoll_ctl_True:
  assumes "epoll_ctl ok op fd ev ep = (True, ep')"
  shows "\<forall>g. g \<noteq> fd \<longrightarrow> ep' g = ep g" "ep' fd \<noteq> None \<longleftrightarrow> op \<noteq> EPOLL_CTL_DEL"
  using assms by (auto simp: epoll_ctl_def split: epoll_op.splits if_splits)

lemma cancelEvent_ok:
  assumes "iom_inv m" "event = READ \<or> event = WRITE"
  shows "\<exists>b m'. cancelEvent ok fd event m = Inr (b, m') \<and> iom_inv m' \<and>
    (b \<longleftrightarrow> ok \<and> fd < length (m_fdContexts m) \<and> fc_events (m_fdContexts m ! fd) AND event \<noteq> 0) \<and> (\<not> b \<longrightarrow> m' = m) \<and>
    (b \<longrightarrow> m_pendingEventCount m' = m_pendingEventCount m - 1 \<and>
      m_fdContexts m' = (m_fdContexts m)[fd := cleared event (m_fdContexts m ! fd)] \<and>
      m_fibers (iom_sch m') = m_fibers (iom_sch m) @ [ctx_task (the_ctx event (m_fdContexts m ! fd))])"
proof -
  let ?fc = "m_fdContexts m ! fd"
  let ?new = "fc_events ?fc AND NOT event"
  let ?op = "if ?new \<noteq> 0 then EPOLL_CTL_MOD else EPOLL_CTL_DEL"
  obtain success ep where ep: "epoll_ctl ok ?op fd (EPOLLIN OR ?new) (epoll m) = (success, ep)" by fastforce
  have suc: "success \<longleftrightarrow> ok" if "fd < length (m_fdContexts m)" "fc_events ?fc AND event \<noteq> 0"
  proof -
    have "epoll m fd \<noteq> None" using iom_invD(2) [OF assms(1) that(1)] that(2) by auto
    then show ?thesis using ep by (auto simp: epoll_ctl_def split: if_splits)
  qed
  show ?thesis
  proof (cases "fd < length (m_fdContexts m) \<and> fc_events ?fc AND event \<noteq> 0 \<and> success")
    case False
    then have "cancelEvent ok fd event m = Inr (False, m)" using ep by (auto simp: cancelEvent_def Let_def)
    then show ?thesis using assms(1) suc False by auto
  next
    case True
    then have fd: "fd < length (m_fdContexts m)" "fc_events ?fc AND event \<noteq> 0" success by auto
    note ok = iom_invD [OF assms(1) fd(1)]
    note cl = cleared_ok [OF ok(1) assms(2) fd(2)]
    define m1 where "m1 = m\<lparr>epoll := ep, m_pendingEventCount := m_pendingEventCount m - 1\<rparr>"
    define ctx where "ctx = the_ctx event ?fc"
    define m2 where "m2 = iom_schedule (ft_fiber (ctx_task ctx)) (ec_cb ctx) (set_fc fd (cleared event ?fc) m1)"
    have "armed ctx" using ok(1) assms(2) fd(2) by (auto simp: ctx_def the_ctx_def fc_ok_def ctx_ok_def)
    then have task: "m_fibers (iom_sch m2) = m_fibers (iom_sch m) @ [ctx_task ctx]"
      by (auto simp: m2_def m1_def iom_schedule_tasks ctx_task_def armed_def)
    have "triggerEvent fd event m1 = Inr m2"
      using triggerEvent_eq [OF ok(1) _ assms(2) fd(2), of m1] by (simp add: m1_def m2_def ctx_def)
    then have res: "cancelEvent ok fd event m = Inr (True, m2)"
      using fd ep by (auto simp: cancelEvent_def Let_def m1_def)
    have ept: "\<forall>g. g \<noteq> fd \<longrightarrow> ep g = epoll m g" "ep fd \<noteq> None \<longleftrightarrow> ?new \<noteq> 0"
      using epoll_ctl_True [of ok ?op fd "EPOLLIN OR ?new" "epoll m" ep] ep fd(3) by (auto split: if_splits)
    have "iom_inv m2"
      by (rule iom_inv_update [OF assms(1) fd(1) cl(1)])
        (use ept cl(2,3) in \<open>simp_all add: m2_def m1_def\<close>)
    then show ?thesis using res task fd suc by (auto simp: m2_def m1_def ctx_def)
  qed
qed


lemma resetContext_empty [simp]: "resetContext ctx = empty_ctx"
  by (cases ctx) (simp add: resetContext_def empty_ctx_def)

lemma delEvent_ok:
  assumes "iom_inv m" "event = READ \<or> event = WRITE"
  shows "\<exists>b m'. delEvent ok fd event m = Inr (b, m') \<and> iom_inv m' \<and> iom_sch m' = iom_sch m \<and>
    (\<not> b \<longrightarrow> m' = m) \<and>
    (b \<longrightarrow> fd < length (m_fdContexts m) \<and> fc_events (m_fdContexts m ! fd) AND event \<noteq> 0 \<and>
      m_fdContexts m' = (m_fdContexts m)[fd := cleared event (m_fdContexts m ! fd)])"
proof -
  let ?fc = "m_fdContexts m ! fd"
  let ?new = "fc_events ?fc AND NOT event"
  let ?op = "if ?new \<noteq> 0 then EPOLL_CTL_MOD else EPOLL_CTL_DEL"
  obtain success ep where ep: "epoll_ctl ok ?op fd (EPOLLIN OR ?new) (epoll m) = (success, ep)" by fastforce
  show ?thesis
  proof (cases "fd < length (m_fdContexts m) \<and> fc_events ?fc AND event \<noteq> 0 \<and> success")
    case False
    then have "delEvent ok fd event m = Inr (False, m)" using ep by (auto simp: delEvent_def Let_def)
    then show ?thesis using assms(1) by blast
  next
    case True
    then have fd: "fd < length (m_fdContexts m)" "fc_events ?fc AND event \<noteq> 0" success by auto
    note ok = iom_invD [OF assms(1) fd(1)]
    note cl = cleared_ok [OF ok(1) assms(2) fd(2)]
    define m2 where "m2 = set_fc fd (cleared event ?fc) (m\<lparr>epoll := ep, m_pendingEventCount := m_pendingEventCount m - 1\<rparr>)"
    have res: "delEvent ok fd event m = Inr (True, m2)"
      using fd ep assms(2) by (auto simp: delEvent_def Let_def m2_def getContext_def cleared_def READ_def WRITE_def)
    have ept: "\<forall>g. g \<noteq> fd \<longrightarrow> ep g = epoll m g" "ep fd \<noteq> None \<longleftrightarrow> ?new \<noteq> 0"
      using epoll_ctl_True [of ok ?op fd "EPOLLIN OR ?new" "epoll m" ep] ep fd(3) by (auto split: if_splits)
    have "iom_inv m2"
      by (rule iom_inv_update [OF assms(1) fd(1) cl(1)])
        (use ept cl(2,3) in \<open>simp_all add: m2_def\<close>)
    then show ?thesis using res fd by (auto simp: m2_def)
  qed
qed

lemma nev_new_fc [simp]: "nev (new_fc i) = 0" "fc_ok i (new_fc i)" "fc_events (new_fc i) = 0"
  by (simp_all add: nev_def new_fc_def fc_ok_def ctx_ok_def event_bits)

lemma contextResize_grow:
  assumes "iom_inv m" "length (m_fdContexts m) \<le> sz"
  shows "iom_inv (contextResize sz m)" "length (m_fdContexts (contextResize sz m)) = sz"
    "\<forall>i<length (m_fdContexts m). m_fdContexts (contextResize sz m) ! i = m_fdContexts m ! i"
proof -
  let ?n = "length (m_fdContexts m)" and ?xs = "m_fdContexts (contextResize sz m)"
  have xs: "?xs = m_fdContexts m @ map new_fc [?n..<sz]" using assms(2) by (simp add: contextResize_def)
  then show len: "length ?xs = sz" and keep: "\<forall>i<?n. ?xs ! i = m_fdContexts m ! i"
    using assms(2) by (auto simp: nth_append)
  have new: "?xs ! i = new_fc i" if "?n \<le> i" "i < sz" for i using that xs by (simp add: nth_append)
  have "sum_list (map nev ?xs) = sum_list (map nev (m_fdContexts m))" unfolding xs by (simp add: comp_def)
  moreover have "fc_ok i (?xs ! i)" if "i < sz" for i
    using that assms(1) keep new by (cases "i < ?n") (auto simp: iom_inv_def)
  moreover have "epoll m i \<noteq> None \<longleftrightarrow> i < sz \<and> fc_events (?xs ! i) \<noteq> 0" for i
    using assms keep new [of i] by (cases "i < ?n") (auto simp: iom_inv_def)
  moreover have "epoll (contextResize sz m) = epoll m" "m_pendingEventCount (contextResize sz m) = m_pendingEventCount m"
    by (simp_all add: contextResize_def)
  moreover have "?xs \<noteq> []" "m_pendingEventCount m = of_nat (sum_list (map nev (m_fdContexts m)))"
    using assms(1) xs by (simp_all add: iom_inv_def)
  ultimately show "iom_inv (contextResize sz m)" unfolding iom_inv_def len by presburger
qed

lemma growFor_ok:
  assumes "iom_inv m"
  shows "iom_inv (growFor fd m)" "fd < length (m_fdContexts (growFor fd m))"
    "\<forall>i<length (m_fdContexts m). m_fdContexts (growFor fd m) ! i = m_fdContexts m ! i"
    "iom_sch (growFor fd m) = iom_sch m" "length (m_fdContexts m) \<le> length (m_fdContexts (growFor fd m))"
    "\<not> fd < length (m_fdContexts m) \<Longrightarrow> m_fdContexts (growFor fd m) ! fd = new_fc fd"
proof -
  have "0 < length (m_fdContexts m)" using assms by (simp add: iom_inv_def)
  then have pos: "0 < fd" if "\<not> fd < length (m_fdContexts m)" using that by linarith
  show "iom_inv (growFor fd m)" "fd < length (m_fdContexts (growFor fd m))"
    "\<forall>i<length (m_fdContexts m). m_fdContexts (growFor fd m) ! i = m_fdContexts m ! i"
    "iom_sch (growFor fd m) = iom_sch m" "length (m_fdContexts m) \<le> length (m_fdContexts (growFor fd m))"
    using assms pos contextResize_grow [OF assms, of "fd * 2"] by (auto simp: growFor_def) (simp add: contextResize_def)
  show "m_fdContexts (growFor fd m) ! fd = new_fc fd" if "\<not> fd < length (m_fdContexts m)"
    using that pos [OF that] by (simp add: growFor_def contextResize_def nth_append)
qed

lemma addEvent_ok:
  assumes "iom_inv m" "event = READ \<or> event = WRITE" "cb \<noteq> None \<or> snd cur = EXEC"
    and free: "fd < length (m_fdContexts m) \<longrightarrow> fc_events (m_fdContexts m ! fd) AND event = 0"
  shows "\<exists>r m'. addEvent ok True cur fd event cb m = Inr (r, m') \<and> iom_inv m' \<and> iom_sch m' = iom_sch m \<and>
    (r = 0 \<or> r = - 1 \<and> m' = growFor fd m) \<and>
    (r = 0 \<longrightarrow> fd < length (m_fdContexts m') \<and> fc_events (m_fdContexts m' ! fd) AND event \<noteq> 0 \<and>
      the_ctx event (m_fdContexts m' ! fd) =
        \<lparr>ec_scheduler = True, ec_fiber = (if cb \<noteq> None then None else Some (fst cur)), ec_cb = cb\<rparr> \<and>
      m_pendingEventCount m' = m_pendingEventCount m + 1 \<and>
      cleared event (m_fdContexts m' ! fd) = m_fdContexts (growFor fd m) ! fd)"
proof -
  define m1 where "m1 = growFor fd m"
  define fc where "fc = m_fdContexts m1 ! fd"
  note gr = growFor_ok [OF assms(1), of fd, folded m1_def]
  note ok = iom_invD [OF gr(1,2), folded fc_def]
  have ev0: "fc_events fc AND event = 0"
    using free gr(3,6) by (cases "fd < length (m_fdContexts m)") (auto simp: fc_def)
  have emp: "the_ctx event fc = empty_ctx" using ok(1) ev0 assms(2) by (auto simp: fc_ok_def ctx_ok_def the_ctx_def)
  let ?op = "if fc_events fc \<noteq> 0 then EPOLL_CTL_MOD else EPOLL_CTL_ADD"
  let ?ev = "EPOLLET OR fc_events fc OR event"
  obtain success ep where ep: "epoll_ctl ok ?op fd ?ev (epoll m1) = (success, ep)" by fastforce
  have pend: "m_pendingEventCount m1 = m_pendingEventCount m" by (simp add: m1_def growFor_def contextResize_def)
  show ?thesis
  proof (cases success)
    case False
    then have "addEvent ok True cur fd event cb m = Inr (- 1, m1)"
      using gr(2) ev0 ep by (simp add: addEvent_def Let_def flip: m1_def fc_def)
    then show ?thesis using gr(1,4) by (auto simp: m1_def)
  next
    case True
    let ?ctx = "\<lparr>ec_scheduler = True, ec_fiber = (if cb \<noteq> None then None else Some (fst cur)), ec_cb = cb\<rparr>"
    define fc' where "fc' = putContext event ?ctx (fc\<lparr>fc_events := fc_events fc OR event\<rparr>)"
    define m2 where "m2 = set_fc fd fc' (m1\<lparr>epoll := ep, m_pendingEventCount := m_pendingEventCount m1 + 1\<rparr>)"
    have get: "getContext event (fc\<lparr>fc_events := fc_events fc OR event\<rparr>) = Inr empty_ctx"
      using assms(2) emp by (auto simp: getContext_def the_ctx_def READ_def WRITE_def split: if_splits)
    have res: "addEvent ok True cur fd event cb m = Inr (0, m2)"
      using gr(2) ev0 ep True get assms(3)
      by (cases cb) (auto simp: addEvent_def Let_def empty_ctx_def m2_def fc'_def simp flip: m1_def fc_def)
    have fc': "fc_ok fd fc'" "nev fc' = Suc (nev fc)" "fc_events fc' = fc_events fc OR event" "fc_events fc' \<noteq> 0"
      "fc_events fc' AND event \<noteq> 0" "the_ctx event fc' = ?ctx" "cleared event fc' = fc"
      using fc_ok_events [OF ok(1)] ok(1) ev0 assms(2) emp
      by (auto simp: fc_ok_def ctx_ok_def fc'_def putContext_def nev_def armed_def event_bits the_ctx_def cleared_def)
    have ept: "\<forall>g. g \<noteq> fd \<longrightarrow> ep g = epoll m1 g" "ep fd \<noteq> None"
      using epoll_ctl_True [of ok ?op fd ?ev "epoll m1" ep] ep True by (auto split: if_splits)
    have "iom_inv m2"
      by (rule iom_inv_update [OF gr(1,2) fc'(1)]) (use ept fc'(2,4) in \<open>simp_all add: m2_def flip: fc_def\<close>)
    then show ?thesis using res gr(2,4) fc' pend by (auto simp: m2_def fc_def m1_def)
  qed
qed


definition trig :: "nat \<Rightarrow> u32 \<Rightarrow> ('w, 'cb) iomanager \<Rightarrow> ('w, 'cb) iomanager" where
  "trig fd event m =
     (let fc = m_fdContexts m ! fd; ctx = the_ctx event fc;
          m1 = iom_schedule (ft_fiber (ctx_task ctx)) (ec_cb ctx) (set_fc fd (cleared event fc) m)
      in m1\<lparr>m_pendingEventCount := m_pendingEventCount m1 - 1\<rparr>)"

lemma triggerPending_eq:
  assumes "fc_ok fd (m_fdContexts m ! fd)" "event = READ \<or> event = WRITE" "fc_events (m_fdContexts m ! fd) AND event \<noteq> 0"
  shows "triggerPending fd event m = Inr (trig fd event m)"
  using triggerEvent_eq [OF assms(1) refl assms(2,3)] by (simp add: triggerPending_def trig_def Let_def)

lemma trig_simps [simp]:
  "m_fdContexts (trig fd event m) = (m_fdContexts m)[fd := cleared event (m_fdContexts m ! fd)]"
  "epoll (trig fd event m) = epoll m" "m_pendingEventCount (trig fd event m) = m_pendingEventCount m - 1"
  "iom_tm (trig fd event m) = iom_tm m"
  by (simp_all add: trig_def Let_def)

lemma trig_tasks:
  assumes "fc_ok fd (m_fdContexts m ! fd)" "event = READ \<or> event = WRITE" "fc_events (m_fdContexts m ! fd) AND event \<noteq> 0"
  shows "m_fibers (iom_sch (trig fd event m)) = m_fibers (iom_sch m) @ [ctx_task (the_ctx event (m_fdContexts m ! fd))]"
proof -
  have "armed (the_ctx event (m_fdContexts m ! fd))" using assms by (auto simp: the_ctx_def fc_ok_def ctx_ok_def)
  then show ?thesis by (auto simp: trig_def Let_def iom_schedule_tasks ctx_task_def armed_def)
qed

text \<open>The tasks a set of events hands over, reading first.\<close>

definition fc_tasks :: "u32 \<Rightarrow> 'cb fd_ctx \<Rightarrow> 'cb ftask list" where
  "fc_tasks real fc = (if real AND READ \<noteq> 0 then [ctx_task (fc_read fc)] else []) @
     (if real AND WRITE \<noteq> 0 then [ctx_task (fc_write fc)] else [])"

definition fc_without :: "u32 \<Rightarrow> 'cb fd_ctx \<Rightarrow> 'cb fd_ctx" where
  "fc_without real fc = (let fc1 = (if real AND READ \<noteq> 0 then cleared READ fc else fc)
     in if real AND WRITE \<noteq> 0 then cleared WRITE fc1 else fc1)"

lemma trigger_both:
  assumes "fd < length (m_fdContexts m)" "fc_ok fd fc" "fc = m_fdContexts m ! fd"
    "real = 0 \<or> real = 1 \<or> real = 4 \<or> real = 5" "real AND (NOT (fc_events fc)) = 0"
  shows "\<exists>m'. bindE (if real AND READ \<noteq> 0 then triggerPending fd READ m else Inr m) (\<lambda>m2.
        if real AND WRITE \<noteq> 0 then triggerPending fd WRITE m2 else Inr m2) = Inr m' \<and>
      m_fdContexts m' = (m_fdContexts m)[fd := fc_without real fc] \<and> epoll m' = epoll m \<and>
      fc_ok fd (fc_without real fc) \<and> fc_events (fc_without real fc) = fc_events fc AND NOT real \<and>
      m_pendingEventCount m' + of_nat (nev fc) = m_pendingEventCount m + of_nat (nev (fc_without real fc)) \<and>
      m_fibers (iom_sch m') = m_fibers (iom_sch m) @ fc_tasks real fc \<and> iom_tm m' = iom_tm m"
proof -
  have R: "READ = READ \<or> READ = WRITE" and W: "WRITE = READ \<or> WRITE = WRITE" by simp_all
  have one: "triggerPending fd e m = Inr (trig fd e m)" "fc_ok fd (cleared e fc)" "nev fc = Suc (nev (cleared e fc))"
    "m_fibers (iom_sch (trig fd e m)) = m_fibers (iom_sch m) @ [ctx_task (the_ctx e fc)]"
    if "e = READ \<or> e = WRITE" "fc_events fc AND e \<noteq> 0" for e
    using triggerPending_eq [of fd m e] trig_tasks [of fd m e] cleared_ok [OF assms(2) that] that assms(2,3) by auto
  let ?m = "trig fd READ m"
  have two: "triggerPending fd WRITE ?m = Inr (trig fd WRITE ?m)" "fc_ok fd (cleared WRITE (cleared READ fc))"
    "nev (cleared READ fc) = Suc (nev (cleared WRITE (cleared READ fc)))"
    "m_fibers (iom_sch (trig fd WRITE ?m)) = m_fibers (iom_sch ?m) @ [ctx_task (the_ctx WRITE (cleared READ fc))]"
    if "fc_events fc = 5"
  proof -
    have ev: "fc_events fc AND READ \<noteq> 0" "fc_events (cleared READ fc) AND WRITE \<noteq> 0"
      using that cleared_ok(3) [OF assms(2) R] by (auto simp: event_bits)
    have ctx: "m_fdContexts ?m ! fd = cleared READ fc" using assms(1,3) by simp
    note ok = cleared_ok [OF one(2) [OF R ev(1)] W ev(2)]
    show "triggerPending fd WRITE ?m = Inr (trig fd WRITE ?m)" "fc_ok fd (cleared WRITE (cleared READ fc))"
      "nev (cleared READ fc) = Suc (nev (cleared WRITE (cleared READ fc)))"
      "m_fibers (iom_sch (trig fd WRITE ?m)) = m_fibers (iom_sch ?m) @ [ctx_task (the_ctx WRITE (cleared READ fc))]"
      using triggerPending_eq [of fd ?m WRITE] trig_tasks [of fd ?m WRITE] ok one(2) [OF R ev(1)] ev ctx by auto
  qed
  have wr: "the_ctx WRITE (cleared READ fc) = fc_write fc" "the_ctx READ fc = fc_read fc" "the_ctx WRITE fc = fc_write fc"
    "fc_events (cleared e fc) = fc_events fc AND NOT e" "fc_events (cleared e' (cleared e fc)) = (fc_events fc AND NOT e) AND NOT e'" for e e'
    by (simp_all add: the_ctx_def cleared_def putContext_def event_bits)
  from assms(4) consider "real = 0" | "real = 1" "fc_events fc AND READ \<noteq> 0" | "real = 4" "fc_events fc AND WRITE \<noteq> 0" | "real = 5" "fc_events fc = 5"
    using fc_ok_events [OF assms(2)] assms(5) by (auto simp: event_bits)
  then show ?thesis
  proof cases
    case 1
    then show ?thesis using assms(2,3) by (simp add: fc_without_def fc_tasks_def)
  next
    case 2
    then show ?thesis using one [OF R 2(2)] wr assms(3) by (simp add: fc_without_def fc_tasks_def event_bits)
  next
    case 3
    then show ?thesis using one [OF W 3(2)] wr assms(3) by (simp add: fc_without_def fc_tasks_def event_bits)
  next
    case 4
    have r: "fc_events fc AND READ \<noteq> 0" using 4 by (simp add: event_bits)
    show ?thesis
      using one [OF R r] two [OF 4(2)] wr assms(1,3) 4
      by (simp add: fc_without_def fc_tasks_def event_bits)
  qed
qed


lemma cancelAll_ok:
  assumes "iom_inv m"
  shows "\<exists>b m'. cancelAll ok fd m = Inr (b, m') \<and> iom_inv m' \<and> (\<not> b \<longrightarrow> m' = m) \<and>
    (b \<longrightarrow> fd < length (m_fdContexts m) \<and> m_fdContexts m' = (m_fdContexts m)[fd := new_fc fd] \<and>
      m_fibers (iom_sch m') = m_fibers (iom_sch m) @ fc_tasks (fc_events (m_fdContexts m ! fd)) (m_fdContexts m ! fd))"
proof -
  define fc where "fc = m_fdContexts m ! fd"
  obtain success ep where ep: "epoll_ctl ok EPOLL_CTL_DEL fd 0 (epoll m) = (success, ep)" by fastforce
  show ?thesis
  proof (cases "fd < length (m_fdContexts m) \<and> fc_events fc \<noteq> 0 \<and> success")
    case False
    then have "cancelAll ok fd m = Inr (False, m)" using ep by (auto simp: cancelAll_def Let_def fc_def)
    then show ?thesis using assms by blast
  next
    case True
    then have fd: "fd < length (m_fdContexts m)" "fc_events fc \<noteq> 0" success by auto
    note ok = iom_invD [OF assms fd(1), folded fc_def]
    let ?real = "fc_events fc" and ?m1 = "m\<lparr>epoll := ep\<rparr>"
    have real: "?real = 0 \<or> ?real = 1 \<or> ?real = 4 \<or> ?real = 5" "?real AND (NOT ?real) = 0"
      using fc_ok_events [OF ok(1)] by auto
    have len: "fd < length (m_fdContexts ?m1)" and fc1: "fc = m_fdContexts ?m1 ! fd" using fd by (simp_all add: fc_def)
    obtain m' where m': "bindE (if ?real AND READ \<noteq> 0 then triggerPending fd READ ?m1 else Inr ?m1) (\<lambda>m2.
        if ?real AND WRITE \<noteq> 0 then triggerPending fd WRITE m2 else Inr m2) = Inr m'"
      "m_fdContexts m' = (m_fdContexts m)[fd := fc_without ?real fc]" "epoll m' = ep" "fc_ok fd (fc_without ?real fc)"
      "fc_events (fc_without ?real fc) = ?real AND NOT ?real"
      "m_pendingEventCount m' + of_nat (nev fc) = m_pendingEventCount m + of_nat (nev (fc_without ?real fc))"
      "m_fibers (iom_sch m') = m_fibers (iom_sch m) @ fc_tasks ?real fc"
      using trigger_both [OF len ok(1) fc1 real] by auto
    have blank: "fc_without ?real fc = new_fc fd"
    proof -
      have "fc_events (fc_without ?real fc) = 0" using m'(5) by simp
      then show ?thesis using m'(4) by (cases "fc_without ?real fc") (auto simp: fc_ok_def ctx_ok_def new_fc_def NONE_def)
    qed
    have mid: "fc_events (m_fdContexts m2 ! fd) AND WRITE = ?real AND WRITE"
      if "(if ?real AND READ \<noteq> 0 then triggerPending fd READ ?m1 else Inr ?m1) = Inr m2" for m2
      using that triggerPending_eq [of fd ?m1 READ] ok(1) fc1 fd(1) real(1)
      by (auto simp: event_bits cleared_def putContext_def split: if_splits)
    have "cancelAll ok fd m = bindE (bindE (if ?real AND READ \<noteq> 0 then triggerPending fd READ ?m1 else Inr ?m1) (\<lambda>m2.
        if ?real AND WRITE \<noteq> 0 then triggerPending fd WRITE m2 else Inr m2))
        (\<lambda>m3. bindE (assertE (fc_events (m_fdContexts m3 ! fd) = 0)) (\<lambda>_. Inr (True, m3)))"
      using fd ep mid unfolding cancelAll_def Let_def fc_def [symmetric] bindE_assoc
      by (auto simp: fc_def intro!: bindE_cong)
    also have "\<dots> = Inr (True, m')" using m'(1,2) blank fd(1) by simp
    finally have res: "cancelAll ok fd m = Inr (True, m')" .
    have "iom_inv m'"
      by (rule iom_inv_update [OF assms fd(1) m'(4) m'(2)])
        (use m' epoll_ctl_True [of ok EPOLL_CTL_DEL fd 0 "epoll m" ep] ep fd(3) in \<open>simp_all add: fc_def\<close>)
    then show ?thesis using res m'(2,7) blank fd(1) by (auto simp: fc_def)
  qed
qed

lemma and_bits: "v AND 1 = 0 \<longleftrightarrow> \<not> bit v 0" "v AND 4 = 0 \<longleftrightarrow> \<not> bit v 2" for v :: u32
  using and_exp_eq_0_iff_not_bit [of v 0] and_exp_eq_0_iff_not_bit [of v 2] by simp_all

text \<open>What the idle fiber makes of a report stays within the registered events when the report does.\<close>

lemma real_within:
  fixes ev e ev1 real :: u32
  assumes "e = 0 \<or> e = 1 \<or> e = 4 \<or> e = 5" "ev AND 5 AND (NOT e) = 0"
    and "ev1 = (if ev AND (EPOLLERR OR EPOLLHUP) \<noteq> 0 then ev OR ((EPOLLIN OR EPOLLOUT) AND e) else ev)"
    and "real = (if ev1 AND EPOLLIN \<noteq> 0 then READ else NONE) OR (if ev1 AND EPOLLOUT \<noteq> 0 then WRITE else NONE)"
  shows "real AND (NOT e) = 0"
proof -
  have b5: "v AND 5 = 0 \<longleftrightarrow> \<not> bit v 0 \<and> \<not> bit v 2" for v :: u32
  proof -
    have "v AND 5 = (v AND 1) OR (v AND 4)" by (simp flip: bit.conj_disj_distrib)
    then show ?thesis using and_bits [of v] by (auto simp: or_eq_0_iff)
  qed
  have "bit (1::u32) 0" "\<not> bit (1::u32) 2" "\<not> bit (4::u32) 0" "bit (4::u32) 2" by (simp_all add: bit_numeral_rec)
  then show ?thesis
    using assms by (auto simp: event_bits and_bits b5 bit_or_iff split: if_splits)
qed

lemma handle_entry_ok:
  assumes "iom_inv m" "case e of TickleEntry \<Rightarrow> True
    | FdEntry fd ev \<Rightarrow> fd < length (m_fdContexts m) \<and> ev AND 5 AND (NOT (fc_events (m_fdContexts m ! fd))) = 0"
  shows "\<exists>m'. handle_entry ok e m = Inr m' \<and> iom_inv m' \<and> length (m_fdContexts m') = length (m_fdContexts m)"
proof (cases e)
  case TickleEntry
  then show ?thesis using assms(1) by (simp add: handle_entry_def iom_inv_def)
next
  case (FdEntry fd ev)
  define fc where "fc = m_fdContexts m ! fd"
  have fd: "fd < length (m_fdContexts m)" and sub: "ev AND 5 AND (NOT (fc_events fc)) = 0"
    using assms(2) FdEntry by (simp_all add: fc_def)
  note ok = iom_invD [OF assms(1) fd, folded fc_def]
  define ev1 where "ev1 = (if ev AND (EPOLLERR OR EPOLLHUP) \<noteq> 0 then ev OR ((EPOLLIN OR EPOLLOUT) AND fc_events fc) else ev)"
  define real where "real = (if ev1 AND EPOLLIN \<noteq> 0 then READ else NONE) OR (if ev1 AND EPOLLOUT \<noteq> 0 then WRITE else NONE)"
  have real: "real = 0 \<or> real = 1 \<or> real = 4 \<or> real = 5" by (auto simp: real_def event_bits)
  have within: "real AND (NOT (fc_events fc)) = 0"
    by (rule real_within [OF fc_ok_events [OF ok(1)] sub ev1_def real_def])
  let ?left = "fc_events fc AND NOT real"
  let ?op = "if ?left \<noteq> 0 then EPOLL_CTL_MOD else EPOLL_CTL_DEL"
  have fcfd: "fc_fd fc = fd" using ok(1) by (simp add: fc_ok_def)
  obtain success ep where ep: "epoll_ctl ok ?op fd (EPOLLET OR ?left) (epoll m) = (success, ep)" by fastforce
  have unf: "handle_entry ok e m =
    (if fc_events fc AND real = NONE \<or> \<not> success then Inr m
     else bindE (if real AND READ \<noteq> 0 then triggerPending fd READ (m\<lparr>epoll := ep\<rparr>) else Inr (m\<lparr>epoll := ep\<rparr>)) (\<lambda>m2.
            if real AND WRITE \<noteq> 0 then triggerPending fd WRITE m2 else Inr m2))"
    using fd ep unfolding handle_entry_def FdEntry epoll_entry.case Let_def fc_def [symmetric] ev1_def [symmetric]
      real_def [symmetric] fcfd by simp
  show ?thesis
  proof (cases "fc_events fc AND real = NONE \<or> \<not> success")
    case True
    then show ?thesis using unf assms(1) by auto
  next
    case False
    have len: "fd < length (m_fdContexts (m\<lparr>epoll := ep\<rparr>))" and fc1: "fc = m_fdContexts (m\<lparr>epoll := ep\<rparr>) ! fd"
      using fd by (simp_all add: fc_def)
    obtain m' where m': "handle_entry ok e m = Inr m'"
      "m_fdContexts m' = (m_fdContexts m)[fd := fc_without real fc]" "epoll m' = ep" "fc_ok fd (fc_without real fc)"
      "fc_events (fc_without real fc) = ?left"
      "m_pendingEventCount m' + of_nat (nev fc) = m_pendingEventCount m + of_nat (nev (fc_without real fc))"
      using trigger_both [OF len ok(1) fc1 real within] unf False by auto
    have "\<forall>g. g \<noteq> fd \<longrightarrow> ep g = epoll m g" "ep fd \<noteq> None \<longleftrightarrow> ?left \<noteq> 0"
      using epoll_ctl_True [of ok ?op fd "EPOLLET OR ?left" "epoll m" ep] ep False by (auto split: if_splits)
    then have "iom_inv m'"
      by (intro iom_inv_update [OF assms(1) fd m'(4) m'(2)]) (use m' in \<open>simp_all add: fc_def\<close>)
    then show ?thesis using m'(1,2) by auto
  qed
qed


section \<open>Reachable states\<close>

text \<open>
  The operations in any order: events are registered when they are not yet (by a running fiber or
  with a callback), and the kernel reports only events that are registered.  \<open>i_other\<close> is whatever the
  scheduler and the timers do in between.
\<close>

inductive iom_step :: "('w, 'cb) iomanager \<Rightarrow> ('w, 'cb) iomanager \<Rightarrow> bool" where
  i_add: "event = READ \<or> event = WRITE \<Longrightarrow> cb \<noteq> None \<or> snd cur = EXEC \<Longrightarrow>
    (fd < length (m_fdContexts m) \<longrightarrow> fc_events (m_fdContexts m ! fd) AND event = 0) \<Longrightarrow>
    addEvent ok True cur fd event cb m = Inr (r, m') \<Longrightarrow> iom_step m m'"
| i_del: "event = READ \<or> event = WRITE \<Longrightarrow> delEvent ok fd event m = Inr (b, m') \<Longrightarrow> iom_step m m'"
| i_cancel: "event = READ \<or> event = WRITE \<Longrightarrow> cancelEvent ok fd event m = Inr (b, m') \<Longrightarrow> iom_step m m'"
| i_all: "cancelAll ok fd m = Inr (b, m') \<Longrightarrow> iom_step m m'"
| i_entry: "case e of TickleEntry \<Rightarrow> True
    | FdEntry fd ev \<Rightarrow> fd < length (m_fdContexts m) \<and> ev AND 5 AND (NOT (fc_events (m_fdContexts m ! fd))) = 0 \<Longrightarrow>
    handle_entry ok e m = Inr m' \<Longrightarrow> iom_step m m'"
| i_other: "iom_step m (m\<lparr>iom_sch := s, iom_tm := tm, tickles := n\<rparr>)"

inductive iom_reachable :: "('w, 'cb) iomanager \<Rightarrow> bool" where
  start: "iom_reachable (newIOManager s now)"
| step: "iom_reachable m \<Longrightarrow> iom_step m m' \<Longrightarrow> iom_reachable m'"

lemma newIOManager_inv: "iom_inv (newIOManager s now)"
  by (simp add: iom_inv_def newIOManager_def contextResize_def comp_def)

lemma iom_step_inv: "iom_step m m' \<Longrightarrow> iom_inv m \<Longrightarrow> iom_inv m'"
proof (induction rule: iom_step.induct)
  case (i_add event cb cur fd m ok r m')
  then show ?case using addEvent_ok [of m event cb cur fd ok] by auto
next
  case (i_del event ok fd m b m')
  then show ?case using delEvent_ok [of m event ok fd] by auto
next
  case (i_cancel event ok fd m b m')
  then show ?case using cancelEvent_ok [of m event ok fd] by auto
next
  case (i_all ok fd m b m')
  then show ?case using cancelAll_ok [of m ok fd] by auto
next
  case (i_entry e m ok m')
  then show ?case using handle_entry_ok [of m e ok] by auto
next
  case (i_other m s tm n)
  then show ?case by (simp add: iom_inv_def)
qed

lemma iom_reachable_inv: "iom_reachable m \<Longrightarrow> iom_inv m"
proof (induction rule: iom_reachable.induct)
  case (start s now)
  show ?case by (rule newIOManager_inv)
next
  case (step m m')
  show ?case by (rule iom_step_inv [OF step(2) step.IH])
qed

section \<open>Properties\<close>

definition demoSched :: "nat sched" where
  "demoSched = \<lparr>m_fibers = [], m_name = ''io'', m_threadIds = [], m_threads = [], m_threadCount = 1,
     m_activeThreadCount = 0, m_idleThreadCount = 0, m_stopping = False, m_autoStop = False, m_rootThread = - 1,
     m_rootFiber = None\<rparr>"

definition demoIom :: "(unit, nat) iomanager" where
  "demoIom = newIOManager demoSched 0"

lemma demoIom_inv: "iom_inv demoIom"
  by (simp add: demoIom_def newIOManager_inv)

lemma demoIom_ctxs: "length (m_fdContexts demoIom) = 32" "i < 32 \<Longrightarrow> m_fdContexts demoIom ! i = new_fc i"
  by (simp_all add: demoIom_def newIOManager_def contextResize_def)



text \<open>
  C20: registering an event and cancelling it hands over exactly what was registered.  After a
  successful \<^verbatim>\<open>addEvent\<close>, a \<^verbatim>\<open>cancelEvent\<close> whose \<^verbatim>\<open>epoll_ctl\<close> works returns true, appends one task (the callback,
  or else the calling fiber) to the task list, and leaves the descriptor's context and the pending count
  as they were before.
\<close>

theorem add_then_cancel:
  assumes "iom_inv m" "event = READ \<or> event = WRITE" "cb \<noteq> None \<or> snd cur = EXEC"
    and "fd < length (m_fdContexts m) \<longrightarrow> fc_events (m_fdContexts m ! fd) AND event = 0"
    and "addEvent ok True cur fd event cb m = Inr (0, m1)"
  shows "\<exists>m2. cancelEvent True fd event m1 = Inr (True, m2) \<and> iom_inv m2 \<and>
    m_fibers (iom_sch m2) = m_fibers (iom_sch m) @
      [\<lparr>ft_fiber = (if cb \<noteq> None then None else Some (fst cur)), ft_cb = cb, ft_thread = - 1\<rparr>] \<and>
    m_fdContexts m2 ! fd = m_fdContexts (growFor fd m) ! fd \<and>
    m_pendingEventCount m2 = m_pendingEventCount m"
proof -
  obtain m1: "iom_inv m1" "iom_sch m1 = iom_sch m" "fd < length (m_fdContexts m1)" "fc_events (m_fdContexts m1 ! fd) AND event \<noteq> 0"
    "the_ctx event (m_fdContexts m1 ! fd) = \<lparr>ec_scheduler = True, ec_fiber = (if cb \<noteq> None then None else Some (fst cur)), ec_cb = cb\<rparr>"
    "cleared event (m_fdContexts m1 ! fd) = m_fdContexts (growFor fd m) ! fd"
    "m_pendingEventCount m1 = m_pendingEventCount m + 1"
    using addEvent_ok [OF assms(1-4), of ok] assms(5) by auto
  obtain m2 where m2: "cancelEvent True fd event m1 = Inr (True, m2)" "iom_inv m2" "m_pendingEventCount m2 = m_pendingEventCount m1 - 1"
    "m_fdContexts m2 = (m_fdContexts m1)[fd := cleared event (m_fdContexts m1 ! fd)]"
    "m_fibers (iom_sch m2) = m_fibers (iom_sch m1) @ [ctx_task (the_ctx event (m_fdContexts m1 ! fd))]"
    using cancelEvent_ok [OF m1(1) assms(2), of True fd] m1(3,4) by auto
  then show ?thesis using m1 m2 by (auto simp: ctx_task_def)
qed

theorem add_then_cancel_witness:
  "\<exists>m1 m2. addEvent True True (7, EXEC) 5 READ None demoIom = Inr (0, m1) \<and> cancelEvent True 5 READ m1 = Inr (True, m2) \<and>
     m_fibers (iom_sch m2) = [\<lparr>ft_fiber = Some 7, ft_cb = None, ft_thread = - 1\<rparr>]"
proof -
  have fr: "5 < length (m_fdContexts demoIom) \<longrightarrow> fc_events (m_fdContexts demoIom ! 5) AND READ = 0"
    by (simp add: demoIom_ctxs)
  have "epoll demoIom 5 = None" by (simp add: demoIom_def newIOManager_def contextResize_def)
  then obtain m1 where m1: "addEvent True True (7, EXEC) 5 READ None demoIom = Inr (0, m1)"
    by (simp add: addEvent_def growFor_def Let_def demoIom_ctxs epoll_ctl_def getContext_def) (simp add: new_fc_def empty_ctx_def)
  have "m_fibers (iom_sch demoIom) = []" by (simp add: demoIom_def newIOManager_def contextResize_def demoSched_def)
  then show ?thesis using add_then_cancel [OF demoIom_inv _ _ fr m1] m1 by auto
qed


text \<open>
  \<^verbatim>\<open>cancelAll\<close> hands over everything registered for the descriptor, the read event before the
  write event, and leaves a blank context; it never fails its assertions, and when it returns false
  nothing has changed.
\<close>

theorem cancelAll_hands_over:
  assumes "iom_inv m"
  shows "\<exists>b m'. cancelAll ok fd m = Inr (b, m') \<and> iom_inv m' \<and> (\<not> b \<longrightarrow> m' = m) \<and>
    (b \<longrightarrow> m_fdContexts m' = (m_fdContexts m)[fd := new_fc fd] \<and>
      m_fibers (iom_sch m') = m_fibers (iom_sch m) @ fc_tasks (fc_events (m_fdContexts m ! fd)) (m_fdContexts m ! fd))"
  using cancelAll_ok [OF assms, of ok fd] by blast

theorem cancelAll_hands_over_witness:
  "\<exists>b m'. cancelAll True 3 demoIom = Inr (b, m') \<and> iom_inv m'"
  using cancelAll_hands_over [OF demoIom_inv, of True 3] by blast

text \<open>
  The idle fiber ends only when there is nothing left to wait for: no timer, no registered
  event, and the scheduler's own condition.
\<close>

theorem iom_stopping_exact:
  assumes "iom_inv m" "sum_list (map nev (m_fdContexts m)) < 2 ^ 64" "tm_inv (iom_tm m)"
    and "\<forall>a\<in>set (m_timers (iom_tm m)). m_next (timer_at (tm_store (iom_tm m)) a) - now \<noteq> NOT 0"
  shows "fst (iom_stopping now m) \<longleftrightarrow>
    m_timers (iom_tm m) = [] \<and> (\<forall>fc\<in>set (m_fdContexts m). nev fc = 0) \<and> stopping (iom_sch m)"
proof -
  have "m_pendingEventCount m = of_nat (sum_list (map nev (m_fdContexts m)))"
    using assms(1) by (simp add: iom_inv_def)
  then have pend: "m_pendingEventCount m = 0 \<longleftrightarrow> (\<forall>fc\<in>set (m_fdContexts m). nev fc = 0)"
    using assms(2) by (simp add: unat_eq_zero [symmetric] unat_of_nat take_bit_nat_eq_self)
  have "fst (getNextTimer now (iom_tm m)) = NOT 0 \<longleftrightarrow> m_timers (iom_tm m) = []"
    using assms(4) by (cases "m_timers (iom_tm m)") (auto simp: getNextTimer_def Let_def)
  then show ?thesis using pend by (auto simp: iom_stopping_def Let_def split: prod.splits)
qed

theorem iom_stopping_exact_witness:
  "iom_inv demoIom \<and> \<not> fst (iom_stopping 5 demoIom)"
proof -
  have t: "m_timers (iom_tm demoIom) = []" "tm_inv (iom_tm demoIom)" "\<not> stopping (iom_sch demoIom)"
    by (simp_all add: demoIom_def newIOManager_def contextResize_def newTimerManager_def tm_inv_def stopping_def demoSched_def)
  have "m_fdContexts demoIom = map new_fc [0..<32]"
    by (simp add: demoIom_def newIOManager_def contextResize_def)
  then have "sum_list (map nev (m_fdContexts demoIom)) < 2 ^ 64" by (simp add: comp_def)
  then show ?thesis using iom_stopping_exact [OF demoIom_inv _ t(2), of 5] t demoIom_inv by simp
qed

text \<open>
  The timeout given to \<^verbatim>\<open>epoll_wait\<close> is at most three seconds and never negative, for a timer
  that is due within \<open>2^31\<close> milliseconds and when there is no timer.  A timer whose distance has bit 31
  set (about 25 to 50 days) gives a negative timeout: the wait then has no limit.
\<close>

theorem epoll_timeout_bounds:
  "(next_timeout < 2 ^ 31 \<or> next_timeout = NOT 0 \<longrightarrow> 0 \<le> epoll_timeout next_timeout \<and> epoll_timeout next_timeout \<le> 3000) \<and>
   (next_timeout < 3000 \<longrightarrow> epoll_timeout next_timeout = uint next_timeout) \<and>
   (2 ^ 31 \<le> next_timeout \<and> next_timeout < 2 ^ 32 \<longrightarrow> epoll_timeout next_timeout < 0)"
proof -
  have max: "to_int MAX_TIMEOUT = 3000" by (simp add: to_int_def MAX_TIMEOUT_def)
  have small: "to_int v = uint v" if "v < 2 ^ 31" for v :: u64
  proof -
    have "uint v < 2 ^ 31" "- (2 ^ 31) \<le> uint v" using that by (simp_all add: word_less_def order_trans [of _ 0])
    then have "signed_take_bit 31 (uint v) = uint v" by (intro signed_take_bit_int_eq_self)
    then show ?thesis using \<open>uint v < 2 ^ 31\<close>
      by (simp add: to_int_def sint_uint unsigned_ucast_eq take_bit_int_eq_self)
  qed
  have neg: "to_int v < 0" if "2 ^ 31 \<le> v" "v < 2 ^ 32" for v :: u64
  proof -
    have b: "2 ^ 31 \<le> uint v" "uint v < 2 ^ 32" using that by (simp_all add: word_less_def word_le_def)
    then have "uint v div 2 ^ 31 = 1"
      using int_div_pos_eq [of "uint v" "2 ^ 31" 1 "uint v - 2 ^ 31"] by simp
    then have "bit (uint v) 31" by (simp add: bit_iff_odd)
    then show ?thesis using b
      by (simp add: to_int_def sint_uint unsigned_ucast_eq signed_take_bit_negative_iff take_bit_int_eq_self)
  qed
  have ones: "uint (- 1 :: u64) = 2 ^ 64 - 1" by (simp add: unsigned_minus_1_eq_mask mask_eq_exp_minus_1)
  show ?thesis
    using small [of next_timeout] neg [of next_timeout] max ones
    by (auto simp: epoll_timeout_def clamp_timeout_def word_less_def)
qed


theorem epoll_timeout_bounds_witness:
  "epoll_timeout 250 = 250 \<and> epoll_timeout (2 ^ 31 + 5) < 0"
proof -
  have "(250 :: u64) < 3000" "(2 :: u64) ^ 31 \<le> 2 ^ 31 + 5" "(2 :: u64) ^ 31 + 5 < 2 ^ 32" by simp_all
  then show ?thesis
    using epoll_timeout_bounds [of 250] epoll_timeout_bounds [of "2 ^ 31 + 5"] by simp
qed

text \<open>
  C35: \<^verbatim>\<open>delEvent\<close> re-registers the remaining events with \<^verbatim>\<open>EPOLLIN\<close> added (where \<^verbatim>\<open>addEvent\<close>
  adds \<^verbatim>\<open>EPOLLET\<close>), so the kernel may go on reporting input for a descriptor with only its write event left;
  and a report of input together with output then makes the idle fiber trigger the read event that is
  not registered, which fails its assertion.
\<close>

theorem idle_trips_on_stale_read:
  assumes "iom_inv m" "fd < length (m_fdContexts m)" "fc_events (m_fdContexts m ! fd) = READ OR WRITE"
  shows "\<exists>m1. delEvent True fd READ m = Inr (True, m1) \<and> epoll m1 fd = Some (EPOLLIN OR WRITE) \<and>
    handle_entry True (FdEntry fd (EPOLLIN OR EPOLLOUT)) m1 = Inl AssertFail"
proof -
  let ?fc = "m_fdContexts m ! fd"
  have ep: "epoll m fd \<noteq> None" using iom_invD(2) [OF assms(1,2)] assms(3) by (auto simp: event_bits)
  then obtain y where y: "epoll m fd = Some y" by blast
  have fcfd: "fc_fd ?fc = fd" using iom_invD(1) [OF assms(1,2)] by (simp add: fc_ok_def)
  define m1 where "m1 = set_fc fd (cleared READ ?fc) (m\<lparr>epoll := (epoll m)(fd \<mapsto> EPOLLIN OR WRITE), m_pendingEventCount := m_pendingEventCount m - 1\<rparr>)"
  have del: "delEvent True fd READ m = Inr (True, m1)"
    using assms(2,3) y
    by (auto simp: delEvent_def Let_def epoll_ctl_def getContext_def cleared_def m1_def event_bits)
  have ctx: "m_fdContexts m1 ! fd = cleared READ ?fc" "epoll m1 fd = Some (EPOLLIN OR WRITE)"
    using assms(2) by (simp_all add: m1_def)
  have ev: "fc_events (cleared READ ?fc) = WRITE" "fc_fd (cleared READ ?fc) = fd"
    using assms(3) fcfd by (simp_all add: cleared_def putContext_def event_bits)
  have "handle_entry True (FdEntry fd (EPOLLIN OR EPOLLOUT)) m1 = Inl AssertFail"
    using assms(2) ctx ev
    by (simp add: handle_entry_def Let_def epoll_ctl_def triggerPending_def triggerEvent_def event_bits) (simp add: m1_def)
  then show ?thesis using del ctx(2) by blast
qed


theorem idle_trips_on_stale_read_witness:
  "\<exists>m m1 :: (unit, nat) iomanager. iom_inv m \<and> delEvent True 5 READ m = Inr (True, m1) \<and>
     handle_entry True (FdEntry 5 (EPOLLIN OR EPOLLOUT)) m1 = Inl AssertFail"
proof -
  let ?ctx = "\<lparr>ec_scheduler = True, ec_fiber = None, ec_cb = Some 1\<rparr> :: nat event_ctx"
  let ?fc = "\<lparr>fc_read = ?ctx, fc_write = ?ctx, fc_fd = 5, fc_events = READ OR WRITE\<rparr>"
  let ?m = "demoIom\<lparr>m_fdContexts := (m_fdContexts demoIom)[5 := ?fc], epoll := (epoll demoIom)(5 \<mapsto> EPOLLET OR READ OR WRITE),
    m_pendingEventCount := 2\<rparr>"
  have len: "5 < length (m_fdContexts demoIom)" by (simp add: demoIom_ctxs)
  have "iom_inv ?m"
    by (rule iom_inv_update [OF demoIom_inv len, of ?fc])
      (simp_all add: fc_ok_def ctx_ok_def armed_def event_bits nev_def demoIom_ctxs new_fc_def,
       simp add: demoIom_def newIOManager_def contextResize_def)
  then show ?thesis using idle_trips_on_stale_read [of ?m 5] len by auto
qed

end
