(* ===== verification/FdManager.thy ===== *)
theory FdManager
  imports Prelude
begin

text \<open>
  The table of descriptor contexts (\<^verbatim>\<open>saturn/fdmanager.cc\<close>): what the hooks know of a descriptor (whether it
  is a socket, the non-blocking flag the user asked for and the one the kernel has, its two timeouts).  The
  part of the kernel it reads and writes is \<open>os\<close>: which descriptors are open and are sockets (\<^verbatim>\<open>fstat\<close>), and
  the file status flags (\<^verbatim>\<open>fcntl\<close>).  The locale \<open>fd_table\<close> is what the hooks rely on of the table.
\<close>

unbundle bit_operations_syntax

section \<open>The kernel's view\<close>

definition O_NONBLOCK :: u32 where
  "O_NONBLOCK = 0x800"

definition SO_RCVTIMEO :: int where "SO_RCVTIMEO = 20"
definition SO_SNDTIMEO :: int where "SO_SNDTIMEO = 21"

record os =
  os_socket :: "nat \<rightharpoonup> bool"
  os_flags :: "nat \<Rightarrow> u32"

section \<open>Contexts\<close>

record fdcontext =
  m_isInit :: bool
  m_isSocket :: bool
  m_sysNonblock :: bool
  m_userNonblock :: bool
  m_isClosed :: bool
  m_fd :: nat
  m_recvTimeout :: u64
  m_sendTimeout :: u64

definition fdc_init :: "os \<Rightarrow> fdcontext \<Rightarrow> bool \<times> os \<times> fdcontext" where
  "fdc_init k c =
     (if m_isInit c then (True, k, c)
      else case os_socket k (m_fd c) of
             None \<Rightarrow> (False, k, c)
           | Some sock \<Rightarrow>
               let c1 = c\<lparr>m_isInit := True, m_isSocket := sock\<rparr>;
                   k1 = (if sock then
                           (let flags = os_flags k (m_fd c)
                            in if flags AND O_NONBLOCK = 0
                               then k\<lparr>os_flags := (os_flags k)(m_fd c := flags OR O_NONBLOCK)\<rparr> else k)
                         else k);
                   c2 = c1\<lparr>m_sysNonblock := sock\<rparr>
               in (True, k1, c2\<lparr>m_userNonblock := False, m_isClosed := False\<rparr>))"

definition newFdContext :: "os \<Rightarrow> nat \<Rightarrow> os \<times> fdcontext" where
  "newFdContext k fd =
     (let (_, k1, c) = fdc_init k
        \<lparr>m_isInit = False, m_isSocket = False, m_sysNonblock = False, m_userNonblock = False, m_isClosed = False,
         m_fd = fd, m_recvTimeout = - 1, m_sendTimeout = - 1\<rparr>
      in (k1, c))"

definition setTimeout :: "int \<Rightarrow> u64 \<Rightarrow> fdcontext \<Rightarrow> fdcontext" where
  "setTimeout type v c = (if type = SO_RCVTIMEO then c\<lparr>m_recvTimeout := v\<rparr> else c\<lparr>m_sendTimeout := v\<rparr>)"

definition getTimeout :: "int \<Rightarrow> fdcontext \<Rightarrow> u64" where
  "getTimeout type c = (if type = SO_RCVTIMEO then m_recvTimeout c else m_sendTimeout c)"

definition setUserNonblock :: "bool \<Rightarrow> fdcontext \<Rightarrow> fdcontext" where
  "setUserNonblock v c = c\<lparr>m_userNonblock := v\<rparr>"

definition setSysNonblock :: "bool \<Rightarrow> fdcontext \<Rightarrow> fdcontext" where
  "setSysNonblock v c = c\<lparr>m_sysNonblock := v\<rparr>"

section \<open>The table\<close>

type_synonym fdmanager = "fdcontext option list"

definition newFdManager :: fdmanager where
  "newFdManager = replicate 64 None"

text \<open>\<^verbatim>\<open>while (m_datas.size() <= fd) m_datas.resize(m_datas.size() * 2)\<close>; \<open>None\<close> is a loop that does not end.\<close>

partial_function (option) grow_size :: "nat \<Rightarrow> nat \<Rightarrow> nat option" where
  "grow_size n fd = (if n \<le> fd then grow_size (n * 2) fd else Some n)"

definition resize :: "nat \<Rightarrow> fdmanager \<Rightarrow> fdmanager" where
  "resize n d = take n d @ replicate (n - length d) None"

definition fdm_get :: "int \<Rightarrow> bool \<Rightarrow> os \<times> fdmanager \<Rightarrow> (fdcontext option \<times> os \<times> fdmanager) option" where
  "fdm_get fd auto_create s =
     (let (k, d) = s in
      if fd < 0 then Some (None, k, d)
      else if int (length d) \<le> fd \<and> \<not> auto_create then Some (None, k, d)
      else if fd < int (length d) \<and> (d ! nat fd \<noteq> None \<or> \<not> auto_create) then Some (d ! nat fd, k, d)
      else
        let (k1, new_fd) = newFdContext k (nat fd)
        in map_option (\<lambda>n. (Some new_fd, k1, (resize n d)[nat fd := Some new_fd])) (grow_size (length d) (nat fd)))"

definition fdm_del :: "int \<Rightarrow> fdmanager \<Rightarrow> fdmanager" where
  "fdm_del fd d = (if fd < 0 \<or> int (length d) \<le> fd then d else d[nat fd := None])"

text \<open>A change made through the pointer that a lookup returned.\<close>

definition fdm_set :: "nat \<Rightarrow> fdcontext \<Rightarrow> fdmanager \<Rightarrow> fdmanager" where
  "fdm_set fd c d = (if fd < length d then d[fd := Some c] else d)"

section \<open>The table as a map\<close>

definition fdm_find :: "fdmanager \<Rightarrow> nat \<Rightarrow> fdcontext option" where
  "fdm_find d fd = (if fd < length d then d ! fd else None)"

definition fdc_ok :: "nat \<Rightarrow> fdcontext \<Rightarrow> bool" where
  "fdc_ok fd c \<longleftrightarrow> m_fd c = fd \<and> (m_isSocket c \<longrightarrow> m_isInit c \<and> m_sysNonblock c)"

definition fdm_inv :: "fdmanager \<Rightarrow> bool" where
  "fdm_inv d \<longleftrightarrow> d \<noteq> [] \<and> (\<forall>fd c. fdm_find d fd = Some c \<longrightarrow> fdc_ok fd c)"

lemma grow_size_Some: "0 < n \<Longrightarrow> \<exists>m. grow_size n fd = Some m \<and> n \<le> m \<and> fd < m"
proof (induction "Suc fd - n" arbitrary: n rule: less_induct)
  case less
  show ?case
  proof (cases "n \<le> fd")
    case True
    then have "Suc fd - n * 2 < Suc fd - n" using less.prems by linarith
    then obtain m where "grow_size (n * 2) fd = Some m \<and> n * 2 \<le> m \<and> fd < m"
      using less.hyps [of "n * 2"] less.prems by auto
    then show ?thesis using True by (auto simp: grow_size.simps [of n])
  qed (simp add: grow_size.simps)
qed

lemma newFdContext_ok:
  "newFdContext k fd = (k1, c) \<Longrightarrow> fdc_ok fd c \<and> os_socket k1 = os_socket k \<and> m_isSocket c = (os_socket k fd = Some True) \<and>
     \<not> m_userNonblock c \<and> \<not> m_isClosed c \<and> m_recvTimeout c = - 1 \<and> m_sendTimeout c = - 1 \<and>
     (m_isSocket c \<longrightarrow> os_flags k1 fd AND O_NONBLOCK \<noteq> 0) \<and> (\<forall>g. g \<noteq> fd \<longrightarrow> os_flags k1 g = os_flags k g)"
  by (auto simp: newFdContext_def fdc_init_def fdc_ok_def Let_def O_NONBLOCK_def bit.conj_disj_distrib2
      split: option.splits if_splits)

lemma find_resize [simp]: "length d \<le> n \<Longrightarrow> fdm_find (resize n d) fd = fdm_find d fd"
  by (auto simp: fdm_find_def resize_def nth_append)

lemma fdm_get_find: "fdm_get (int fd) False (k, d) = Some (fdm_find d fd, k, d)"
  by (auto simp: fdm_get_def fdm_find_def)

lemma fdm_get_new:
  assumes "fdm_inv d" "fdm_find d fd = None"
  shows "\<exists>c k' d'. fdm_get (int fd) True (k, d) = Some (Some c, k', d') \<and> fdm_inv d' \<and> fdc_ok fd c \<and>
    fdm_find d' = (fdm_find d)(fd \<mapsto> c) \<and> m_isSocket c = (os_socket k fd = Some True) \<and>
    (m_isSocket c \<longrightarrow> os_flags k' fd AND O_NONBLOCK \<noteq> 0)"
proof -
  obtain k1 c where c: "newFdContext k fd = (k1, c)" by fastforce
  note new = newFdContext_ok [OF c]
  obtain n where n: "grow_size (length d) fd = Some n" "length d \<le> n" "fd < n"
    using grow_size_Some [of "length d" fd] assms(1) by (auto simp: fdm_inv_def)
  let ?d = "(resize n d)[fd := Some c]"
  have get: "fdm_get (int fd) True (k, d) = Some (Some c, k1, ?d)"
    using assms(2) c n by (auto simp: fdm_get_def fdm_find_def split: if_splits)
  have len: "fd < length (resize n d)" using n by (simp add: resize_def)
  have find: "fdm_find ?d = (fdm_find d)(fd \<mapsto> c)"
  proof
    fix g show "fdm_find ?d g = ((fdm_find d)(fd \<mapsto> c)) g"
      using find_resize [OF n(2), of g] len by (cases "g = fd") (auto simp: fdm_find_def)
  qed
  have "fdm_inv ?d" using assms(1) new len unfolding fdm_inv_def find by auto
  then show ?thesis using get find new by auto
qed

text \<open>
  Looking a descriptor up with \<^verbatim>\<open>auto_create\<close> always returns: it gives the context that is there, or makes a
  new one for it, changes no other entry, and leaves the kernel's flag of a new socket non-blocking.
\<close>

theorem fdm_get_creates:
  assumes "fdm_inv d"
  shows "\<exists>c k' d'. fdm_get (int fd) True (k, d) = Some (Some c, k', d') \<and> fdm_inv d' \<and> fdc_ok fd c \<and>
    fdm_find d' = (fdm_find d)(fd \<mapsto> c) \<and>
    (case fdm_find d fd of
       Some c0 \<Rightarrow> c = c0 \<and> d' = d \<and> k' = k
     | None \<Rightarrow> m_isSocket c = (os_socket k fd = Some True) \<and> (m_isSocket c \<longrightarrow> os_flags k' fd AND O_NONBLOCK \<noteq> 0))"
proof (cases "fdm_find d fd")
  case (Some c)
  then have "fdm_get (int fd) True (k, d) = Some (Some c, k, d)"
    by (auto simp: fdm_get_def fdm_find_def split: if_splits)
  moreover have "fdc_ok fd c" using assms Some by (simp add: fdm_inv_def)
  ultimately show ?thesis using assms Some by (auto simp: fun_eq_iff)
next
  case None
  then show ?thesis using fdm_get_new [OF assms None, of k] by auto
qed

theorem fdm_get_creates_witness:
  "\<exists>c k' d'. fdm_get 100 True (\<lparr>os_socket = [100 \<mapsto> True], os_flags = \<lambda>_. 0\<rparr>, newFdManager) = Some (Some c, k', d') \<and>
     m_isSocket c \<and> os_flags k' 100 AND O_NONBLOCK \<noteq> 0"
proof -
  have inv: "fdm_inv newFdManager" by (auto simp: fdm_inv_def newFdManager_def fdm_find_def)
  have "fdm_find newFdManager 100 = None" by (simp add: newFdManager_def fdm_find_def)
  then show ?thesis
    using fdm_get_creates [OF inv, of 100 "\<lparr>os_socket = [100 \<mapsto> True], os_flags = \<lambda>_. 0\<rparr>"] by auto
qed

section \<open>What the hooks rely on\<close>

locale fd_table =
  fixes find :: "'d \<Rightarrow> nat \<Rightarrow> 'c option"
    and set :: "nat \<Rightarrow> 'c \<Rightarrow> 'd \<Rightarrow> 'd"
    and del :: "int \<Rightarrow> 'd \<Rightarrow> 'd"
    and ok :: "nat \<Rightarrow> 'c \<Rightarrow> bool"
    and inv :: "'d \<Rightarrow> bool"
  assumes find_set: "find d fd = Some c0 \<Longrightarrow> find (set fd c d) g = (if g = fd then Some c else find d g)"
    and find_del: "find (del (int fd) d) g = (if g = fd then None else find d g)"
    and inv_set: "inv d \<Longrightarrow> find d fd = Some c0 \<Longrightarrow> ok fd c \<Longrightarrow> inv (set fd c d)"
    and inv_del: "inv d \<Longrightarrow> inv (del x d)"
    and inv_ok: "inv d \<Longrightarrow> find d fd = Some c \<Longrightarrow> ok fd c"
begin

lemma update_ok:
  assumes "inv d" "find d fd = Some c" "ok fd (f c)"
  shows "find (set fd (f c) d) fd = Some (f c)" "inv (set fd (f c) d)"
  using assms find_set inv_set by auto

lemma del_twice: "find (del (int fd) (del (int fd) d)) g = find (del (int fd) d) g"
  by (simp add: find_del)

end

interpretation fdt: fd_table fdm_find fdm_set fdm_del fdc_ok fdm_inv
proof unfold_locales
  fix d :: fdmanager and fd g c c0
  assume "fdm_find d fd = Some c0"
  then show "fdm_find (fdm_set fd c d) g = (if g = fd then Some c else fdm_find d g)"
    by (auto simp: fdm_find_def fdm_set_def)
next
  fix d :: fdmanager and fd g
  show "fdm_find (fdm_del (int fd) d) g = (if g = fd then None else fdm_find d g)"
    by (auto simp: fdm_find_def fdm_del_def)
next
  fix d :: fdmanager and fd c c0
  assume "fdm_inv d" "fdm_find d fd = Some c0" "fdc_ok fd c"
  then show "fdm_inv (fdm_set fd c d)" by (auto simp: fdm_inv_def fdm_find_def fdm_set_def nth_list_update split: if_splits)
next
  fix d :: fdmanager and x
  assume "fdm_inv d"
  then show "fdm_inv (fdm_del x d)" by (auto simp: fdm_inv_def fdm_find_def fdm_del_def nth_list_update split: if_splits)
qed (simp add: fdm_inv_def)

end
