(* ===== verification/Hook.thy ===== *)
theory Hook
  imports IOManager FdManager "HOL-Library.Signed_Division"
begin

text \<open>
  The system-call hooks (\<^verbatim>\<open>saturn/hook.cc\<close>): a call on a socket that would block registers the running fiber
  with the I/O manager, gives the thread away and tries again when the fiber is resumed, a timer ending the
  wait.  A hooked call is cut at the points where the fiber gives control away; \<open>io_call\<close> is its frame there.
  The original functions of the C library are given by their results: a pair of the value returned and
  \<^verbatim>\<open>errno\<close>.  \<open>h_tinfo\<close> holds the \<^verbatim>\<open>timer_info\<close> objects that are alive, with their field \<^verbatim>\<open>cancelled\<close>;
  \<open>h_iom\<close> is the I/O manager of the thread.
\<close>

unbundle bit_operations_syntax

section \<open>State\<close>

definition EINTR :: int where "EINTR = 4"
definition EBADF :: int where "EBADF = 9"
definition EAGAIN :: int where "EAGAIN = 11"
definition ETIMEDOUT :: int where "ETIMEDOUT = 110"
definition EINPROGRESS :: int where "EINPROGRESS = 115"

text \<open>The callbacks the hooks give to timers: the end of a wait, and the wake-up of a sleeping fiber.\<close>

datatype hcb = TimeoutCb nat nat u32 | WakeFiber fid | UserCb nat

record hooksys =
  h_iom :: "(nat, hcb) iomanager"
  h_os :: os
  h_fdm :: fdmanager
  h_tinfo :: "nat \<rightharpoonup> int"

record io_call =
  io_fd :: nat
  io_event :: u32
  io_to :: u64
  io_tinfo :: nat
  io_timer :: "address option"

text \<open>
  How a hooked call goes on: by the original function alone, with a result, with another attempt
  (\<^verbatim>\<open>goto retry\<close>), or waiting in \<^verbatim>\<open>YieldToHold\<close>, for an event or in a sleep that returns 0 when resumed.
  \<^verbatim>\<open>errno\<close> is that of the last call of the original function, unless the hook sets it.
\<close>

datatype io_next = Direct | Return int int | Retry io_call | Blocked io_call | Asleep

definition lookup :: "int \<Rightarrow> hooksys \<Rightarrow> fdcontext option" where
  "lookup fd s = (case fdm_get fd False (h_os s, h_fdm s) of Some (c, _) \<Rightarrow> c | None \<Rightarrow> None)"

lemma lookup_find [simp]: "lookup (int fd) s = fdm_find (h_fdm s) fd"
  by (simp add: lookup_def fdm_get_find)

section \<open>Timers of the I/O manager\<close>

definition iom_addTimer :: "u64 \<Rightarrow> address \<Rightarrow> u64 \<Rightarrow> ('w, 'cb) timer_cb option \<Rightarrow> ('w, 'cb) iomanager \<Rightarrow> ('w, 'cb) iomanager" where
  "iom_addTimer now a ms cb m =
     (let (front, tm) = addTimer now a ms cb False (iom_tm m); m1 = m\<lparr>iom_tm := tm\<rparr>
      in if front then iom_onTimerInsertedAtFront m1 else m1)"

definition iom_addConditionTimer :: "u64 \<Rightarrow> address \<Rightarrow> u64 \<Rightarrow> 'cb \<Rightarrow> 'w \<Rightarrow> ('w, 'cb) iomanager \<Rightarrow> ('w, 'cb) iomanager" where
  "iom_addConditionTimer now a ms cb w m =
     (let (front, tm) = addConditionTimer now a ms cb w False (iom_tm m); m1 = m\<lparr>iom_tm := tm\<rparr>
      in if front then iom_onTimerInsertedAtFront m1 else m1)"

text \<open>\<^verbatim>\<open>if(timer) timer->cancel()\<close>\<close>

definition cancel_timer :: "address option \<Rightarrow> ('w, 'cb) iomanager \<Rightarrow> ('w, 'cb) iomanager" where
  "cancel_timer t m = (case t of None \<Rightarrow> m | Some a \<Rightarrow> m\<lparr>iom_tm := snd (cancel a (iom_tm m))\<rparr>)"

section \<open>\<open>io\<close>\<close>

text \<open>\<^verbatim>\<open>t\<close> is the address of the new \<^verbatim>\<open>timer_info\<close>.\<close>

definition io_enter :: "bool \<Rightarrow> int \<Rightarrow> u32 \<Rightarrow> int \<Rightarrow> nat \<Rightarrow> hooksys \<Rightarrow> io_next \<times> hooksys" where
  "io_enter hook_enable fd event timeout_so t s =
     (if \<not> hook_enable then (Direct, s)
      else case lookup fd s of
             None \<Rightarrow> (Direct, s)
           | Some ctx \<Rightarrow>
               if m_isClosed ctx then (Return (- 1) EBADF, s)
               else if \<not> m_isSocket ctx \<or> m_userNonblock ctx then (Direct, s)
               else (Retry \<lparr>io_fd = nat fd, io_event = event, io_to = getTimeout timeout_so ctx, io_tinfo = t,
                            io_timer = None\<rparr>,
                     s\<lparr>h_tinfo := (h_tinfo s)(t \<mapsto> 0)\<rparr>))"

text \<open>The functions that go through \<open>io\<close>, with the event each waits for and the timeout that bounds the wait.\<close>

datatype io_fun = accept_f | read_f | readv_f | recv_f | recvfrom_f | recvmsg_f | write_f | writev_f | send_f | sendto_f | sendmsg_f

definition io_args :: "io_fun \<Rightarrow> u32 \<times> int" where
  "io_args f = (case f of
       accept_f \<Rightarrow> (READ, SO_RCVTIMEO) | read_f \<Rightarrow> (READ, SO_RCVTIMEO) | readv_f \<Rightarrow> (READ, SO_RCVTIMEO)
     | recv_f \<Rightarrow> (READ, SO_RCVTIMEO) | recvfrom_f \<Rightarrow> (READ, SO_RCVTIMEO) | recvmsg_f \<Rightarrow> (READ, SO_RCVTIMEO)
     | write_f \<Rightarrow> (WRITE, SO_SNDTIMEO) | writev_f \<Rightarrow> (WRITE, SO_SNDTIMEO) | send_f \<Rightarrow> (WRITE, SO_SNDTIMEO)
     | sendto_f \<Rightarrow> (WRITE, SO_SNDTIMEO) | sendmsg_f \<Rightarrow> (WRITE, SO_SNDTIMEO))"

definition hook_io :: "bool \<Rightarrow> io_fun \<Rightarrow> int \<Rightarrow> nat \<Rightarrow> hooksys \<Rightarrow> io_next \<times> hooksys" where
  "hook_io hook_enable f fd t s = io_enter hook_enable fd (fst (io_args f)) (snd (io_args f)) t s"

text \<open>\<^verbatim>\<open>while ((rt = fun(fd, ...)) == -1 && errno == EINTR);\<close> on the results of the calls; \<open>None\<close>: it still loops.\<close>

fun call_loop :: "(int \<times> int) list \<Rightarrow> (int \<times> int) option" where
  "call_loop [] = None"
| "call_loop ((rt, errno) # rs) = (if rt = - 1 \<and> errno = EINTR then call_loop rs else Some (rt, errno))"

text \<open>The end of the function destroys the \<^verbatim>\<open>timer_info\<close>.\<close>

definition io_return :: "io_call \<Rightarrow> int \<Rightarrow> int \<Rightarrow> hooksys \<Rightarrow> io_next \<times> hooksys" where
  "io_return c rt errno s = (Return rt errno, s\<lparr>h_tinfo := (h_tinfo s)(io_tinfo c := None)\<rparr>)"

definition io_wait :: "u64 \<Rightarrow> address \<Rightarrow> bool \<Rightarrow> fid \<times> fstate \<Rightarrow> int \<Rightarrow> io_call \<Rightarrow> hooksys \<Rightarrow> (io_next \<times> hooksys) res" where
  "io_wait now a ok cur errno c s =
     (let timed = (io_to c \<noteq> - 1);
          m = (if timed then iom_addConditionTimer now a (io_to c) (TimeoutCb (io_tinfo c) (io_fd c) (io_event c)) (io_tinfo c) (h_iom s)
               else h_iom s);
          timer = (if timed then Some a else None)
      in bindE (addEvent ok True cur (io_fd c) (io_event c) None m) (\<lambda>(rt, m1).
           if rt \<noteq> 0 then Inr (io_return c (- 1) errno (s\<lparr>h_iom := cancel_timer timer m1\<rparr>))
           else Inr (Blocked (c\<lparr>io_timer := timer\<rparr>), s\<lparr>h_iom := m1\<rparr>)))"

definition io_retry :: "u64 \<Rightarrow> address \<Rightarrow> bool \<Rightarrow> fid \<times> fstate \<Rightarrow> (int \<times> int) list \<Rightarrow> io_call \<Rightarrow> hooksys \<Rightarrow>
    (io_next \<times> hooksys) res option" where
  "io_retry now a ok cur results c s =
     map_option (\<lambda>(rt, errno). if rt = - 1 \<and> errno = EAGAIN then io_wait now a ok cur errno c s else Inr (io_return c rt errno s))
       (call_loop results)"

text \<open>After \<^verbatim>\<open>YieldToHold\<close>.\<close>

definition io_resume :: "io_call \<Rightarrow> hooksys \<Rightarrow> (io_next \<times> hooksys) res" where
  "io_resume c s =
     (let s1 = s\<lparr>h_iom := cancel_timer (io_timer c) (h_iom s)\<rparr>
      in case h_tinfo s1 (io_tinfo c) of
           None \<Rightarrow> Inl NullDeref
         | Some cancelled \<Rightarrow> if cancelled \<noteq> 0 then Inr (io_return c (- 1) cancelled s1)
                            else Inr (Retry (c\<lparr>io_timer := None\<rparr>), s1))"

text \<open>The callback of the timer; the condition of the timer is the same \<^verbatim>\<open>timer_info\<close>.\<close>

definition fire_timeout :: "bool \<Rightarrow> nat \<Rightarrow> nat \<Rightarrow> u32 \<Rightarrow> hooksys \<Rightarrow> hooksys res" where
  "fire_timeout ok winfo fd event s =
     (case h_tinfo s winfo of
        None \<Rightarrow> Inr s
      | Some cancelled \<Rightarrow>
          if cancelled \<noteq> 0 then Inr s
          else bindE (cancelEvent ok fd event (h_iom s)) (\<lambda>(_, m).
                 Inr (s\<lparr>h_iom := m, h_tinfo := (h_tinfo s)(winfo \<mapsto> ETIMEDOUT)\<rparr>)))"

section \<open>Sleeping\<close>

text \<open>\<^verbatim>\<open>unsigned\<close> products wrap at 32 bits before the conversion to \<^verbatim>\<open>uint64_t\<close>; \<^verbatim>\<open>nanosleep\<close> goes through an \<^verbatim>\<open>int\<close>.\<close>

definition sleep_ms :: "u32 \<Rightarrow> u64" where
  "sleep_ms seconds = ucast (seconds * 1000)"

definition usleep_ms :: "u32 \<Rightarrow> u64" where
  "usleep_ms usec = ucast (usec * 1000)"

definition nanosleep_ms :: "64 word \<Rightarrow> 64 word \<Rightarrow> u64" where
  "nanosleep_ms tv_sec tv_nsec =
     scast (ucast (tv_sec * 1000 + word_of_int (sint tv_nsec sdiv 1000 sdiv 1000)) :: u32)"

definition hook_sleep :: "bool \<Rightarrow> u64 \<Rightarrow> address \<Rightarrow> fid \<Rightarrow> u64 \<Rightarrow> hooksys \<Rightarrow> io_next \<times> hooksys" where
  "hook_sleep hook_enable now a fiber ms s =
     (if \<not> hook_enable then (Direct, s)
      else (Asleep, s\<lparr>h_iom := iom_addTimer now a ms (Some (PlainCb (WakeFiber fiber))) (h_iom s)\<rparr>))"

definition wake_fiber :: "fid \<Rightarrow> hooksys \<Rightarrow> hooksys" where
  "wake_fiber f s = s\<lparr>h_iom := iom_schedule (Some f) None (h_iom s)\<rparr>"

section \<open>Descriptors\<close>

text \<open>\<^verbatim>\<open>socket\<close> and \<^verbatim>\<open>accept\<close> register the descriptor the kernel returned.\<close>

definition register_fd :: "int \<Rightarrow> hooksys \<Rightarrow> hooksys option" where
  "register_fd fd s =
     map_option (\<lambda>(_, k, d). s\<lparr>h_os := k, h_fdm := d\<rparr>) (fdm_get fd True (h_os s, h_fdm s))"

definition hook_socket :: "bool \<Rightarrow> int \<Rightarrow> hooksys \<Rightarrow> (int \<times> hooksys) option" where
  "hook_socket hook_enable fd s =
     (if \<not> hook_enable \<or> fd = - 1 then Some (fd, s) else map_option (\<lambda>s1. (fd, s1)) (register_fd fd s))"

definition accept_finish :: "int \<Rightarrow> hooksys \<Rightarrow> (int \<times> hooksys) option" where
  "accept_finish fd s = (if fd \<ge> 0 then map_option (\<lambda>s1. (fd, s1)) (register_fd fd s) else Some (fd, s))"

definition k_close :: "nat \<Rightarrow> os \<Rightarrow> os" where
  "k_close fd k = k\<lparr>os_socket := (os_socket k)(fd := None)\<rparr>"

definition hook_close :: "bool \<Rightarrow> bool \<Rightarrow> nat \<Rightarrow> hooksys \<Rightarrow> hooksys res" where
  "hook_close hook_enable ok fd s =
     (if \<not> hook_enable then Inr (s\<lparr>h_os := k_close fd (h_os s)\<rparr>)
      else case lookup (int fd) s of
             None \<Rightarrow> Inr (s\<lparr>h_os := k_close fd (h_os s)\<rparr>)
           | Some _ \<Rightarrow>
               bindE (cancelAll ok fd (h_iom s)) (\<lambda>(_, m).
                 Inr (s\<lparr>h_iom := m, h_fdm := fdm_del (int fd) (h_fdm s), h_os := k_close fd (h_os s)\<rparr>)))"

section \<open>\<open>connect_with_timeout\<close>\<close>

text \<open>\<open>None\<close>: the hook goes on to call \<^verbatim>\<open>connect\<close> itself.\<close>

definition connect_enter :: "bool \<Rightarrow> int \<Rightarrow> hooksys \<Rightarrow> io_next option" where
  "connect_enter hook_enable fd s =
     (if \<not> hook_enable then Some Direct
      else case lookup fd s of
             None \<Rightarrow> Some (Return (- 1) EBADF)
           | Some ctx \<Rightarrow>
               if m_isClosed ctx then Some (Return (- 1) EBADF)
               else if \<not> m_isSocket ctx then Some Direct
               else if m_userNonblock ctx then Some Direct
               else None)"

text \<open>The question for \<^verbatim>\<open>SO_ERROR\<close> at the end: the result of \<^verbatim>\<open>getsockopt\<close> and the error it stored.\<close>

definition connect_finish :: "int \<times> int \<Rightarrow> int \<Rightarrow> int \<times> int" where
  "connect_finish opt errno =
     (if fst opt = - 1 then (- 1, errno) else if snd opt = 0 then (0, errno) else (- 1, snd opt))"

definition connect_call :: "u64 \<Rightarrow> address \<Rightarrow> bool \<Rightarrow> fid \<times> fstate \<Rightarrow> nat \<Rightarrow> u64 \<Rightarrow> nat \<Rightarrow> int \<times> int \<Rightarrow> int \<times> int \<Rightarrow> hooksys \<Rightarrow>
    (io_next \<times> hooksys) res" where
  "connect_call now a ok cur fd timeout_ms t res opt s =
     (let (n, errno) = res in
      if n = 0 then Inr (Return 0 errno, s)
      else if n \<noteq> - 1 \<or> errno \<noteq> EINPROGRESS then Inr (Return n errno, s)
      else
        let c = \<lparr>io_fd = fd, io_event = WRITE, io_to = timeout_ms, io_tinfo = t, io_timer = None\<rparr>;
            s0 = s\<lparr>h_tinfo := (h_tinfo s)(t \<mapsto> 0)\<rparr>
        in bindE (io_wait now a ok cur errno c s0) (\<lambda>(nx, s1).
             case nx of
               Return _ e \<Rightarrow> (let (rt, e1) = connect_finish opt e in Inr (Return rt e1, s1))
             | _ \<Rightarrow> Inr (nx, s1)))"

definition connect_resume :: "io_call \<Rightarrow> int \<times> int \<Rightarrow> int \<Rightarrow> hooksys \<Rightarrow> (io_next \<times> hooksys) res" where
  "connect_resume c opt errno s =
     bindE (io_resume c s) (\<lambda>(nx, s1).
       case nx of
         Retry _ \<Rightarrow> (let (rt, e) = connect_finish opt errno in Inr (io_return c rt e s1))
       | _ \<Rightarrow> Inr (nx, s1))"

section \<open>Flags and options\<close>

text \<open>\<^verbatim>\<open>F_SETFL\<close> changes only these flags (\<^verbatim>\<open>O_APPEND\<close>, \<^verbatim>\<open>O_NONBLOCK\<close>, \<^verbatim>\<open>O_ASYNC\<close>, \<^verbatim>\<open>O_DIRECT\<close>, \<^verbatim>\<open>O_NOATIME\<close>).\<close>

definition SETFL_MASK :: u32 where
  "SETFL_MASK = 0x46C00"

definition k_setfl :: "nat \<Rightarrow> u32 \<Rightarrow> os \<Rightarrow> os" where
  "k_setfl fd arg k = k\<lparr>os_flags := (os_flags k)(fd := (os_flags k fd AND NOT SETFL_MASK) OR (arg AND SETFL_MASK))\<rparr>"

definition fcntl_setfl :: "nat \<Rightarrow> u32 \<Rightarrow> hooksys \<Rightarrow> hooksys" where
  "fcntl_setfl fd arg s =
     (case lookup (int fd) s of
        None \<Rightarrow> s\<lparr>h_os := k_setfl fd arg (h_os s)\<rparr>
      | Some ctx \<Rightarrow>
          if m_isClosed ctx \<or> \<not> m_isSocket ctx then s\<lparr>h_os := k_setfl fd arg (h_os s)\<rparr>
          else
            let d = fdm_set fd (setUserNonblock (arg AND O_NONBLOCK \<noteq> 0) ctx) (h_fdm s);
                arg1 = (if m_sysNonblock ctx then arg OR O_NONBLOCK else arg AND NOT O_NONBLOCK)
            in s\<lparr>h_fdm := d, h_os := k_setfl fd arg1 (h_os s)\<rparr>)"

definition fcntl_getfl :: "nat \<Rightarrow> hooksys \<Rightarrow> u32" where
  "fcntl_getfl fd s =
     (let arg = os_flags (h_os s) fd in
      case lookup (int fd) s of
        None \<Rightarrow> arg
      | Some ctx \<Rightarrow>
          if m_isClosed ctx \<or> \<not> m_isSocket ctx then arg
          else if m_userNonblock ctx then arg OR O_NONBLOCK else arg AND NOT O_NONBLOCK)"

text \<open>
  The other commands of \<^verbatim>\<open>fcntl\<close> go to the original function; the argument it gets, of those the caller gave.
  A command the switch does not name goes without its argument.
\<close>

datatype fcntl_cmd = F_DUPFD | F_DUPFD_CLOEXEC | F_SETFD | F_SETOWN | F_SETSIG | F_SETLEASE | F_NOTIFY | F_SETPIPE_SZ
  | F_GETFD | F_GETOWN | F_GETSIG | F_GETLEASE | F_GETPIPE_SZ | F_SETLK | F_SETLKW | F_GETLK | F_GETOWN_EX | F_SETOWN_EX
  | F_UNLISTED int

definition fcntl_other :: "fcntl_cmd \<Rightarrow> 'a \<Rightarrow> 'a option" where
  "fcntl_other cmd arg =
     (case cmd of
        F_DUPFD \<Rightarrow> Some arg | F_DUPFD_CLOEXEC \<Rightarrow> Some arg | F_SETFD \<Rightarrow> Some arg | F_SETOWN \<Rightarrow> Some arg
      | F_SETSIG \<Rightarrow> Some arg | F_SETLEASE \<Rightarrow> Some arg | F_NOTIFY \<Rightarrow> Some arg | F_SETPIPE_SZ \<Rightarrow> Some arg
      | F_GETFD \<Rightarrow> None | F_GETOWN \<Rightarrow> None | F_GETSIG \<Rightarrow> None | F_GETLEASE \<Rightarrow> None | F_GETPIPE_SZ \<Rightarrow> None
      | F_SETLK \<Rightarrow> Some arg | F_SETLKW \<Rightarrow> Some arg | F_GETLK \<Rightarrow> Some arg
      | F_GETOWN_EX \<Rightarrow> Some arg | F_SETOWN_EX \<Rightarrow> Some arg | F_UNLISTED _ \<Rightarrow> None)"

text \<open>\<^verbatim>\<open>ioctl(FIONBIO)\<close>; the kernel sets or clears its flag.\<close>

definition k_fionbio :: "nat \<Rightarrow> bool \<Rightarrow> os \<Rightarrow> os" where
  "k_fionbio fd on k =
     k\<lparr>os_flags := (os_flags k)(fd := (if on then os_flags k fd OR O_NONBLOCK else os_flags k fd AND NOT O_NONBLOCK))\<rparr>"

definition ioctl_fionbio :: "nat \<Rightarrow> bool \<Rightarrow> hooksys \<Rightarrow> hooksys" where
  "ioctl_fionbio fd user_nonblock s =
     (case lookup (int fd) s of
        None \<Rightarrow> s\<lparr>h_os := k_fionbio fd user_nonblock (h_os s)\<rparr>
      | Some ctx \<Rightarrow>
          if m_isClosed ctx \<or> \<not> m_isSocket ctx then s\<lparr>h_os := k_fionbio fd user_nonblock (h_os s)\<rparr>
          else s\<lparr>h_fdm := fdm_set fd (setUserNonblock user_nonblock ctx) (h_fdm s),
                 h_os := k_fionbio fd user_nonblock (h_os s)\<rparr>)"

text \<open>\<^verbatim>\<open>setsockopt\<close> of a timeout, a \<^verbatim>\<open>timeval\<close> of seconds and microseconds.\<close>

definition setsockopt_timeo :: "bool \<Rightarrow> int \<Rightarrow> int \<Rightarrow> int \<times> int \<Rightarrow> hooksys \<Rightarrow> hooksys" where
  "setsockopt_timeo hook_enable fd optname tv s =
     (if \<not> hook_enable then s
      else if optname = SO_RCVTIMEO \<or> optname = SO_SNDTIMEO then
        (case lookup fd s of
           None \<Rightarrow> s
         | Some ctx \<Rightarrow>
             s\<lparr>h_fdm := fdm_set (nat fd) (setTimeout optname (word_of_int (fst tv * 1000 + snd tv sdiv 1000)) ctx) (h_fdm s)\<rparr>)
      else s)"

section \<open>Waiting and timing out\<close>

lemma iom_tickle_simps [simp]:
  "m_fdContexts (iom_tickle m) = m_fdContexts m" "epoll (iom_tickle m) = epoll m" "iom_sch (iom_tickle m) = iom_sch m"
  "m_pendingEventCount (iom_tickle m) = m_pendingEventCount m" "iom_tm (iom_tickle m) = iom_tm m"
  by (simp_all add: iom_tickle_def)

lemma iom_addConditionTimer_simps [simp]:
  "m_fdContexts (iom_addConditionTimer now a ms cb w m) = m_fdContexts m"
  "epoll (iom_addConditionTimer now a ms cb w m) = epoll m"
  "iom_sch (iom_addConditionTimer now a ms cb w m) = iom_sch m"
  "m_pendingEventCount (iom_addConditionTimer now a ms cb w m) = m_pendingEventCount m"
  "iom_tm (iom_addConditionTimer now a ms cb w m) = snd (addConditionTimer now a ms cb w False (iom_tm m))"
  by (auto simp: iom_addConditionTimer_def iom_onTimerInsertedAtFront_def Let_def split: prod.split)

lemma iom_inv_cong:
  assumes "m_fdContexts m' = m_fdContexts m" "epoll m' = epoll m" "m_pendingEventCount m' = m_pendingEventCount m"
  shows "iom_inv m' = iom_inv m"
  using assms by (simp add: iom_inv_def)

lemma cancel_timer_simps [simp]:
  "m_fdContexts (cancel_timer t m) = m_fdContexts m" "epoll (cancel_timer t m) = epoll m"
  "iom_sch (cancel_timer t m) = iom_sch m" "m_pendingEventCount (cancel_timer t m) = m_pendingEventCount m"
  by (simp_all add: cancel_timer_def split: option.split)

lemma bindE_Inr_pair: "bindE m (\<lambda>_. Inr (b, x)) = Inr y \<longleftrightarrow> (\<exists>z. m = Inr z) \<and> y = (b, x)"
  by (cases m) auto

lemma triggerEvent_tm: "triggerEvent fd event m = Inr m' \<Longrightarrow> iom_tm m' = iom_tm m"
  by (auto simp: triggerEvent_def getContext_def Let_def err_simps split: if_splits)

lemma cancelEvent_tm: "cancelEvent ok fd event m = Inr (b, m') \<Longrightarrow> iom_tm m' = iom_tm m"
  by (auto simp: cancelEvent_def Let_def err_simps split: if_splits prod.splits dest!: triggerEvent_tm)

lemma addEvent_tm: "addEvent ok sched cur fd event cb m = Inr (r, m') \<Longrightarrow> iom_tm m' = iom_tm m"
  by (auto simp: addEvent_def growFor_def contextResize_def getContext_def Let_def err_simps split: if_splits prod.splits)

lemma addEvent_free:
  assumes "addEvent ok sched cur fd event cb m = Inr x" "fd < length (m_fdContexts m)"
  shows "fc_events (m_fdContexts m ! fd) AND event = 0"
  using assms by (auto simp: addEvent_def growFor_def Let_def split: if_splits)

text \<open>What holds of a call that waits: its fiber is registered for its event, and its timer is set.\<close>

definition waiting :: "fid \<Rightarrow> io_call \<Rightarrow> hooksys \<Rightarrow> bool" where
  "waiting f c s \<longleftrightarrow> iom_inv (h_iom s) \<and> tm_inv (iom_tm (h_iom s)) \<and> (io_event c = READ \<or> io_event c = WRITE) \<and>
     h_tinfo s (io_tinfo c) = Some 0 \<and>
     (let fcs = m_fdContexts (h_iom s) in
        io_fd c < length fcs \<and> fc_events (fcs ! io_fd c) AND io_event c \<noteq> 0 \<and>
        the_ctx (io_event c) (fcs ! io_fd c) = \<lparr>ec_scheduler = True, ec_fiber = Some f, ec_cb = None\<rparr>) \<and>
     (case io_timer c of
        None \<Rightarrow> io_to c = - 1
      | Some a \<Rightarrow> a \<in> dom (tm_store (iom_tm (h_iom s))))"

lemma io_wait_blocks:
  assumes "iom_inv (h_iom s)" "tm_inv (iom_tm (h_iom s))" "a \<notin> dom (tm_store (iom_tm (h_iom s)))"
    "io_event c = READ \<or> io_event c = WRITE" "snd cur = EXEC" "h_tinfo s (io_tinfo c) = Some 0"
    "io_wait now a ok cur errno c s = Inr (Blocked c', s')"
  shows "waiting (fst cur) c' s' \<and> c' = c\<lparr>io_timer := (if io_to c \<noteq> - 1 then Some a else None)\<rparr> \<and>
    m_pendingEventCount (h_iom s') = m_pendingEventCount (h_iom s) + 1 \<and> iom_sch (h_iom s') = iom_sch (h_iom s) \<and>
    (io_to c \<noteq> - 1 \<longrightarrow> a \<in> set (m_timers (iom_tm (h_iom s'))) \<and>
      tm_store (iom_tm (h_iom s')) a =
        Some (newTimer now (io_to c) (Some (OnTimer (io_tinfo c) (TimeoutCb (io_tinfo c) (io_fd c) (io_event c)))) False))"
proof -
  let ?cb = "TimeoutCb (io_tinfo c) (io_fd c) (io_event c)"
  define m where "m = (if io_to c \<noteq> - 1 then iom_addConditionTimer now a (io_to c) ?cb (io_tinfo c) (h_iom s) else h_iom s)"
  have inv: "iom_inv m" using assms(1) iom_inv_cong [of m "h_iom s"] by (simp add: m_def)
  note add = addTimer_inv [OF assms(2,3)]
  have tm: "tm_inv (iom_tm m)" using assms(2) add(1) by (simp add: m_def addConditionTimer_def)
  have c': "c' = c\<lparr>io_timer := (if io_to c \<noteq> - 1 then Some a else None)\<rparr>"
    and ae: "\<exists>m1. addEvent ok True cur (io_fd c) (io_event c) None m = Inr (0, m1) \<and> s' = s\<lparr>h_iom := m1\<rparr>"
    using assms(7) by (auto simp: io_wait_def Let_def m_def io_return_def err_simps split: prod.splits if_splits)
  then obtain m1 where m1: "addEvent ok True cur (io_fd c) (io_event c) None m = Inr (0, m1)" "s' = s\<lparr>h_iom := m1\<rparr>"
    by blast
  have "io_fd c < length (m_fdContexts m) \<longrightarrow> fc_events (m_fdContexts m ! io_fd c) AND io_event c = 0"
    using addEvent_free [OF m1(1)] by blast
  from addEvent_ok [OF inv assms(4) _ this, of None cur ok] assms(5) m1(1)
  have ok: "iom_inv m1" "iom_sch m1 = iom_sch m" "io_fd c < length (m_fdContexts m1)"
    "fc_events (m_fdContexts m1 ! io_fd c) AND io_event c \<noteq> 0"
    "the_ctx (io_event c) (m_fdContexts m1 ! io_fd c) = \<lparr>ec_scheduler = True, ec_fiber = Some (fst cur), ec_cb = None\<rparr>"
    "m_pendingEventCount m1 = m_pendingEventCount m + 1"
    by auto
  have tm1: "iom_tm m1 = iom_tm m" by (rule addEvent_tm [OF m1(1)])
  have sch: "iom_sch m = iom_sch (h_iom s)" "m_pendingEventCount m = m_pendingEventCount (h_iom s)" by (simp_all add: m_def)
  have timer: "a \<in> set (m_timers (iom_tm m1))" "tm_store (iom_tm m1) a = Some (newTimer now (io_to c) (Some (OnTimer (io_tinfo c) ?cb)) False)"
    if "io_to c \<noteq> - 1"
    using that add(2,3) tm1 by (simp_all add: m_def addConditionTimer_def)
  show ?thesis
    using ok tm tm1 c' m1(2) assms(4,6) timer sch by (auto simp: waiting_def Let_def)
qed

text \<open>
  C21: a hooked call whose wait times out: the callback of its timer hands the waiting fiber to the scheduler
  exactly once and takes the event back; the resumed call returns -1 with \<^verbatim>\<open>ETIMEDOUT\<close>, its timer has no
  callback left, and a callback that comes late finds the \<^verbatim>\<open>timer_info\<close> gone and does nothing.
\<close>

theorem io_times_out:
  assumes "waiting f c s"
  shows "\<exists>s1 s2. fire_timeout True (io_tinfo c) (io_fd c) (io_event c) s = Inr s1 \<and>
    m_fibers (iom_sch (h_iom s1)) = m_fibers (iom_sch (h_iom s)) @ [\<lparr>ft_fiber = Some f, ft_cb = None, ft_thread = - 1\<rparr>] \<and>
    m_pendingEventCount (h_iom s1) = m_pendingEventCount (h_iom s) - 1 \<and>
    io_resume c s1 = Inr (Return (- 1) ETIMEDOUT, s2) \<and>
    (\<forall>a. io_timer c = Some a \<longrightarrow> m_cb (timer_at (tm_store (iom_tm (h_iom s2))) a) = None) \<and>
    fire_timeout ok (io_tinfo c) (io_fd c) (io_event c) s2 = Inr s2"
proof -
  have w: "iom_inv (h_iom s)" "tm_inv (iom_tm (h_iom s))" "io_event c = READ \<or> io_event c = WRITE"
    "h_tinfo s (io_tinfo c) = Some 0" "io_fd c < length (m_fdContexts (h_iom s))"
    "fc_events (m_fdContexts (h_iom s) ! io_fd c) AND io_event c \<noteq> 0"
    "the_ctx (io_event c) (m_fdContexts (h_iom s) ! io_fd c) = \<lparr>ec_scheduler = True, ec_fiber = Some f, ec_cb = None\<rparr>"
    using assms by (auto simp: waiting_def Let_def)
  obtain m where m: "cancelEvent True (io_fd c) (io_event c) (h_iom s) = Inr (True, m)" "iom_inv m"
    "m_pendingEventCount m = m_pendingEventCount (h_iom s) - 1"
    "m_fibers (iom_sch m) = m_fibers (iom_sch (h_iom s)) @ [\<lparr>ft_fiber = Some f, ft_cb = None, ft_thread = - 1\<rparr>]"
    using cancelEvent_ok [OF w(1,3), of True "io_fd c"] w(5,6,7) by (auto simp: ctx_task_def)
  have tm: "tm_inv (iom_tm m)" using cancelEvent_tm [OF m(1)] w(2) by simp
  define s1 where "s1 = s\<lparr>h_iom := m, h_tinfo := (h_tinfo s)(io_tinfo c \<mapsto> ETIMEDOUT)\<rparr>"
  have fire: "fire_timeout True (io_tinfo c) (io_fd c) (io_event c) s = Inr s1"
    using w(4) m(1) by (simp add: fire_timeout_def s1_def)
  define s2 where "s2 = s1\<lparr>h_iom := cancel_timer (io_timer c) m, h_tinfo := (h_tinfo s1)(io_tinfo c := None)\<rparr>"
  have "io_resume c s1 = Inr (Return (- 1) ETIMEDOUT, s2)"
    by (simp add: io_resume_def io_return_def s1_def s2_def ETIMEDOUT_def Let_def)
  moreover have "m_cb (timer_at (tm_store (iom_tm (h_iom s2))) a) = None" if "io_timer c = Some a" for a
    using that cancel_eq [OF tm, of a] by (simp add: s2_def cancel_timer_def)
  moreover have "fire_timeout ok (io_tinfo c) (io_fd c) (io_event c) s2 = Inr s2"
    by (simp add: fire_timeout_def s2_def)
  ultimately show ?thesis using fire m by (intro exI [of _ s1] exI [of _ s2]) (auto simp: s1_def)
qed

text \<open>A first wait on a new manager, for the examples.\<close>

definition hookSched :: "hcb sched" where
  "hookSched = \<lparr>m_fibers = [], m_name = ''io'', m_threadIds = [], m_threads = [], m_threadCount = 1,
     m_activeThreadCount = 0, m_idleThreadCount = 0, m_stopping = False, m_autoStop = False, m_rootThread = - 1,
     m_rootFiber = None\<rparr>"

definition demoHook :: hooksys where
  "demoHook = \<lparr>h_iom = newIOManager hookSched 0, h_os = \<lparr>os_socket = [5 \<mapsto> True], os_flags = \<lambda>_. 0x802\<rparr>,
     h_fdm = newFdManager, h_tinfo = [1 \<mapsto> 0]\<rparr>"

definition demoCall :: io_call where
  "demoCall = \<lparr>io_fd = 5, io_event = READ, io_to = 100, io_tinfo = 1, io_timer = None\<rparr>"

lemma demo_waits: "\<exists>c s. io_wait 0 9 True (7, EXEC) EAGAIN demoCall demoHook = Inr (Blocked c, s)"
proof -
  have "case io_wait 0 9 True (7, EXEC) EAGAIN demoCall demoHook of Inr (Blocked c, s) \<Rightarrow> True | _ \<Rightarrow> False"
    by code_simp
  then show ?thesis by (auto split: sum.splits prod.splits io_next.splits)
qed

theorem io_times_out_witness:
  "\<exists>c s s1 s2. waiting 7 c s \<and> fire_timeout True (io_tinfo c) (io_fd c) (io_event c) s = Inr s1 \<and>
     io_resume c s1 = Inr (Return (- 1) ETIMEDOUT, s2)"
proof -
  obtain c s where w: "io_wait 0 9 True (7, EXEC) EAGAIN demoCall demoHook = Inr (Blocked c, s)"
    using demo_waits by blast
  have m: "iom_inv (h_iom demoHook)" by (simp add: demoHook_def newIOManager_inv)
  have "iom_tm (h_iom demoHook) = newTimerManager 0" by (simp add: demoHook_def newIOManager_def contextResize_def)
  then have tm: "tm_inv (iom_tm (h_iom demoHook))" "9 \<notin> dom (tm_store (iom_tm (h_iom demoHook)))"
    by (simp_all add: newTimerManager_def tm_inv_def)
  have c: "io_event demoCall = READ \<or> io_event demoCall = WRITE" "snd (7 :: nat, EXEC) = EXEC"
    "h_tinfo demoHook (io_tinfo demoCall) = Some 0"
    by (simp_all add: demoCall_def demoHook_def)
  have "waiting 7 c s" using io_wait_blocks [OF m tm c w, THEN conjunct1] by simp
  from this io_times_out [OF this] show ?thesis by blast
qed

section \<open>The non-blocking flag\<close>

text \<open>Every socket with a context has the kernel's flag set, so that its calls never block the thread.\<close>

definition nonblocking :: "hooksys \<Rightarrow> bool" where
  "nonblocking s \<longleftrightarrow> fdm_inv (h_fdm s) \<and>
     (\<forall>fd c. fdm_find (h_fdm s) fd = Some c \<and> m_isSocket c \<and> \<not> m_isClosed c \<longrightarrow> os_flags (h_os s) fd AND O_NONBLOCK \<noteq> 0)"

lemma fdc_ok_ops [simp]:
  "fdc_ok fd (setUserNonblock b c) = fdc_ok fd c" "fdc_ok fd (setTimeout ty v c) = fdc_ok fd c"
  by (auto simp: fdc_ok_def setUserNonblock_def setTimeout_def)

lemma bit_O_NONBLOCK: "bit O_NONBLOCK n \<longleftrightarrow> n = 11"
proof -
  have "O_NONBLOCK = 2 ^ 11" by (simp add: O_NONBLOCK_def)
  then show ?thesis unfolding \<open>O_NONBLOCK = 2 ^ 11\<close> by (simp only: bit_2_iff bit_exp_iff) auto
qed

lemma bit_SETFL_MASK: "bit SETFL_MASK 11"
  by (simp add: SETFL_MASK_def)

lemma has_O_NONBLOCK: "v AND O_NONBLOCK \<noteq> 0 \<longleftrightarrow> bit v 11" for v :: u32
proof
  assume "v AND O_NONBLOCK \<noteq> 0"
  then obtain n where "bit (v AND O_NONBLOCK) n" by (metis bit_0_eq bot_apply bot_bool_def bit_eqI)
  then show "bit v 11" by (auto simp: bit_and_iff bit_O_NONBLOCK)
next
  assume "bit v 11"
  then have "bit (v AND O_NONBLOCK) 11" by (simp add: bit_and_iff bit_O_NONBLOCK)
  then show "v AND O_NONBLOCK \<noteq> 0" by auto
qed

lemma setfl_bits:
  fixes old arg :: u32
  defines "v \<equiv> (old AND NOT SETFL_MASK) OR ((arg OR O_NONBLOCK) AND SETFL_MASK)"
  shows "v AND O_NONBLOCK = O_NONBLOCK" "v AND SETFL_MASK AND NOT O_NONBLOCK = arg AND SETFL_MASK AND NOT O_NONBLOCK"
  unfolding v_def
  by (rule bit_word_eqI; auto simp: bit_simps bit_O_NONBLOCK bit_SETFL_MASK)
    (rule bit_word_eqI; auto simp: bit_simps bit_O_NONBLOCK bit_SETFL_MASK)

lemma mask_flag:
  fixes v arg :: u32
  assumes "v AND SETFL_MASK AND NOT O_NONBLOCK = arg AND SETFL_MASK AND NOT O_NONBLOCK"
  shows "(if arg AND O_NONBLOCK \<noteq> 0 then v OR O_NONBLOCK else v AND NOT O_NONBLOCK) AND SETFL_MASK = arg AND SETFL_MASK"
proof (rule bit_word_eqI)
  fix n assume n: "n < LENGTH(32)"
  have "bit (v AND SETFL_MASK AND NOT O_NONBLOCK) n = bit (arg AND SETFL_MASK AND NOT O_NONBLOCK) n" using assms by simp
  then show "bit ((if arg AND O_NONBLOCK \<noteq> 0 then v OR O_NONBLOCK else v AND NOT O_NONBLOCK) AND SETFL_MASK) n =
      bit (arg AND SETFL_MASK) n"
    using n unfolding has_O_NONBLOCK by (auto simp: bit_simps bit_O_NONBLOCK)
qed

text \<open>
  \<^verbatim>\<open>fcntl(F_SETFL)\<close> on a hooked socket shows the user exactly the flags he asked for, the
  non-blocking flag included, while the flag of the kernel stays set: no call of the thread blocks.
\<close>

theorem fcntl_transparent:
  assumes "nonblocking s" "fdm_find (h_fdm s) fd = Some c" "m_isSocket c" "\<not> m_isClosed c"
  shows "nonblocking (fcntl_setfl fd arg s) \<and>
    fcntl_getfl fd (fcntl_setfl fd arg s) AND SETFL_MASK = arg AND SETFL_MASK \<and>
    os_flags (h_os (fcntl_setfl fd arg s)) fd AND O_NONBLOCK = O_NONBLOCK"
proof -
  have ok: "fdc_ok fd c" using assms fdt.inv_ok by (auto simp: nonblocking_def)
  then have sys: "m_sysNonblock c" using assms(3) by (simp add: fdc_ok_def)
  define c' where "c' = setUserNonblock (arg AND O_NONBLOCK \<noteq> 0) c"
  define k where "k = k_setfl fd (arg OR O_NONBLOCK) (h_os s)"
  have s': "fcntl_setfl fd arg s = s\<lparr>h_fdm := fdm_set fd c' (h_fdm s), h_os := k\<rparr>"
    using assms(2-4) sys by (simp add: fcntl_setfl_def c'_def k_def)
  have find: "fdm_find (fdm_set fd c' (h_fdm s)) g = (if g = fd then Some c' else fdm_find (h_fdm s) g)" for g
    by (rule fdt.find_set [OF assms(2)])
  have c'_simps: "m_isSocket c'" "\<not> m_isClosed c'" "m_userNonblock c' = (arg AND O_NONBLOCK \<noteq> 0)"
    using assms(3,4) by (simp_all add: c'_def setUserNonblock_def)
  note bits = setfl_bits [of "os_flags (h_os s) fd" arg]
  have flag: "os_flags k fd AND O_NONBLOCK = O_NONBLOCK" using bits(1) by (simp add: k_def k_setfl_def)
  have other: "os_flags k g = os_flags (h_os s) g" if "g \<noteq> fd" for g using that by (simp add: k_def k_setfl_def)
  have "fdc_ok fd c'" using ok by (simp add: c'_def)
  then have "fdm_inv (fdm_set fd c' (h_fdm s))" using assms(1) fdt.inv_set [OF _ assms(2)] by (simp add: nonblocking_def)
  then have "nonblocking (fcntl_setfl fd arg s)"
    using assms(1) flag other by (auto simp: nonblocking_def s' find O_NONBLOCK_def)
  moreover have "fcntl_getfl fd (fcntl_setfl fd arg s) AND SETFL_MASK = arg AND SETFL_MASK"
  proof -
    let ?v = "os_flags k fd"
    have v: "?v AND SETFL_MASK AND NOT O_NONBLOCK = arg AND SETFL_MASK AND NOT O_NONBLOCK"
      using bits(2) by (simp add: k_def k_setfl_def)
    have r: "fcntl_getfl fd (fcntl_setfl fd arg s) =
        (if arg AND O_NONBLOCK \<noteq> 0 then ?v OR O_NONBLOCK else ?v AND NOT O_NONBLOCK)"
      by (simp add: fcntl_getfl_def s' find c'_simps)
    show ?thesis unfolding r using v by (rule mask_flag)
  qed
  ultimately show ?thesis using flag by (simp add: s')
qed

lemma demo_registered:
  "\<exists>s c. register_fd 5 demoHook = Some s \<and> nonblocking s \<and> fdm_find (h_fdm s) 5 = Some c \<and> m_isSocket c \<and> \<not> m_isClosed c"
proof -
  have inv: "fdm_inv newFdManager" by (auto simp: fdm_inv_def newFdManager_def fdm_find_def)
  have none: "fdm_find newFdManager g = None" for g by (simp add: newFdManager_def fdm_find_def)
  obtain k1 c where c: "newFdContext (h_os demoHook) 5 = (k1, c)" by fastforce
  note new = newFdContext_ok [OF c]
  obtain c' k' d' where g: "fdm_get 5 True (h_os demoHook, newFdManager) = Some (Some c', k', d')" "fdm_inv d'"
    "fdm_find d' = (fdm_find newFdManager)(5 \<mapsto> c')" "m_isSocket c' = (os_socket (h_os demoHook) 5 = Some True)"
    "m_isSocket c' \<longrightarrow> os_flags k' 5 AND O_NONBLOCK \<noteq> 0"
    using fdm_get_new [OF inv none, of 5 "h_os demoHook"] by auto
  have "c' = c" using g(1) c none [of 5] by (auto simp: fdm_get_def newFdManager_def Let_def split: if_splits)
  then have "nonblocking (demoHook\<lparr>h_os := k', h_fdm := d'\<rparr>)" "\<not> m_isClosed c'" using g new none by (auto simp: nonblocking_def split: if_splits)
  then show ?thesis using g none by (auto simp: register_fd_def demoHook_def)
qed

theorem fcntl_transparent_witness:
  "\<exists>s. nonblocking s \<and> fcntl_getfl 5 (fcntl_setfl 5 0 s) AND SETFL_MASK = 0 \<and>
     os_flags (h_os (fcntl_setfl 5 0 s)) 5 AND O_NONBLOCK = O_NONBLOCK"
proof -
  obtain s c where s: "nonblocking s" "fdm_find (h_fdm s) 5 = Some c" "m_isSocket c" "\<not> m_isClosed c"
    using demo_registered by blast
  then show ?thesis using fcntl_transparent [OF s, of 0] by auto
qed

text \<open>
  \<^verbatim>\<open>ioctl(FIONBIO)\<close> does not keep the two flags apart: switching the flag off on a hooked socket also
  clears that of the kernel, so the next call on it may block the thread; switching it on only makes the
  hooks stand aside.
\<close>

theorem ioctl_clears_kernel_flag:
  assumes "nonblocking s" "fdm_find (h_fdm s) fd = Some c" "m_isSocket c" "\<not> m_isClosed c"
  shows "nonblocking (ioctl_fionbio fd on s) = on \<and>
    fst (io_enter True (int fd) event so t (ioctl_fionbio fd on s)) =
      (if on then Direct
       else Retry \<lparr>io_fd = fd, io_event = event, io_to = getTimeout so c, io_tinfo = t, io_timer = None\<rparr>)"
proof -
  have ok: "fdc_ok fd c" using assms fdt.inv_ok by (auto simp: nonblocking_def)
  define c' where "c' = setUserNonblock on c"
  have s': "ioctl_fionbio fd on s = s\<lparr>h_fdm := fdm_set fd c' (h_fdm s), h_os := k_fionbio fd on (h_os s)\<rparr>"
    using assms(2-4) by (simp add: ioctl_fionbio_def c'_def)
  have find: "fdm_find (fdm_set fd c' (h_fdm s)) g = (if g = fd then Some c' else fdm_find (h_fdm s) g)" for g
    by (rule fdt.find_set [OF assms(2)])
  have c'_simps: "m_isSocket c'" "\<not> m_isClosed c'" "m_userNonblock c' = on" "getTimeout so c' = getTimeout so c"
    using assms(3,4) by (simp_all add: c'_def setUserNonblock_def getTimeout_def)
  have inv: "fdm_inv (fdm_set fd c' (h_fdm s))"
    using assms(1) ok fdt.inv_set [OF _ assms(2), of c'] by (simp add: nonblocking_def c'_def)
  have flag: "os_flags (k_fionbio fd on (h_os s)) fd AND O_NONBLOCK \<noteq> 0 \<longleftrightarrow> on"
    "g \<noteq> fd \<Longrightarrow> os_flags (k_fionbio fd on (h_os s)) g = os_flags (h_os s) g" for g
    unfolding has_O_NONBLOCK by (auto simp: k_fionbio_def bit_simps bit_O_NONBLOCK)
  have "nonblocking (ioctl_fionbio fd on s) = on"
    using assms(1) inv flag c'_simps by (auto simp: nonblocking_def s' find)
  then show ?thesis by (simp add: io_enter_def s' find c'_simps)
qed

theorem ioctl_clears_kernel_flag_witness:
  "\<exists>s. nonblocking s \<and> \<not> nonblocking (ioctl_fionbio 5 False s)"
proof -
  obtain s c where s: "nonblocking s" "fdm_find (h_fdm s) 5 = Some c" "m_isSocket c" "\<not> m_isClosed c"
    using demo_registered by blast
  then show ?thesis using ioctl_clears_kernel_flag [OF s, of False] by auto
qed

end
