(* ===== verification/StringUtil.thy ===== *)
theory StringUtil
  imports Prelude
begin

text \<open>
  The string helpers of \<^verbatim>\<open>saturn/util.cc\<close>: percent-encoding and decoding of URLs, with the tables of the
  source, and trimming.  A string is a list of bytes (\<^verbatim>\<open>char\<close>).  The result string \<^verbatim>\<open>ss\<close> of the two codecs is
  only made at the first byte that has to change, from the bytes before it.
\<close>

section \<open>Tables\<close>

definition uri_chars :: "nat list" where
  "uri_chars =
    [0, 0, 0, 0, 0, 0, 0, 0, 0, 0, 0, 0, 0, 0, 0, 0, 0, 0, 0, 0, 0, 0, 0, 0, 0, 0, 0, 0, 0, 0, 0, 0,
     0, 0, 0, 0, 0, 0, 0, 0, 0, 0, 0, 0, 0, 1, 1, 0, 1, 1, 1, 1, 1, 1, 1, 1, 1, 1, 0, 0, 0, 1, 0, 0,
     0, 1, 1, 1, 1, 1, 1, 1, 1, 1, 1, 1, 1, 1, 1, 1, 1, 1, 1, 1, 1, 1, 1, 1, 1, 1, 1, 0, 0, 0, 0, 1,
     0, 1, 1, 1, 1, 1, 1, 1, 1, 1, 1, 1, 1, 1, 1, 1, 1, 1, 1, 1, 1, 1, 1, 1, 1, 1, 1, 0, 0, 0, 1, 0,
     0, 0, 0, 0, 0, 0, 0, 0, 0, 0, 0, 0, 0, 0, 0, 0, 0, 0, 0, 0, 0, 0, 0, 0, 0, 0, 0, 0, 0, 0, 0, 0,
     0, 0, 0, 0, 0, 0, 0, 0, 0, 0, 0, 0, 0, 0, 0, 0, 0, 0, 0, 0, 0, 0, 0, 0, 0, 0, 0, 0, 0, 0, 0, 0,
     0, 0, 0, 0, 0, 0, 0, 0, 0, 0, 0, 0, 0, 0, 0, 0, 0, 0, 0, 0, 0, 0, 0, 0, 0, 0, 0, 0, 0, 0, 0, 0,
     0, 0, 0, 0, 0, 0, 0, 0, 0, 0, 0, 0, 0, 0, 0, 0, 0, 0, 0, 0, 0, 0, 0, 0, 0, 0, 0, 0, 0, 0, 0, 0]"

definition xdigit_chars :: "nat list" where
  "xdigit_chars =
    [0, 0, 0, 0, 0, 0, 0, 0, 0, 0, 0, 0, 0, 0, 0, 0, 0, 0, 0, 0, 0, 0, 0, 0, 0, 0, 0, 0, 0, 0, 0, 0,
     0, 0, 0, 0, 0, 0, 0, 0, 0, 0, 0, 0, 0, 0, 0, 0, 0, 1, 2, 3, 4, 5, 6, 7, 8, 9, 0, 0, 0, 0, 0, 0,
     0, 10, 11, 12, 13, 14, 15, 0, 0, 0, 0, 0, 0, 0, 0, 0, 0, 0, 0, 0, 0, 0, 0, 0, 0, 0, 0, 0, 0, 0, 0, 0,
     0, 10, 11, 12, 13, 14, 15, 0, 0, 0, 0, 0, 0, 0, 0, 0, 0, 0, 0, 0, 0, 0, 0, 0, 0, 0, 0, 0, 0, 0, 0, 0,
     0, 0, 0, 0, 0, 0, 0, 0, 0, 0, 0, 0, 0, 0, 0, 0, 0, 0, 0, 0, 0, 0, 0, 0, 0, 0, 0, 0, 0, 0, 0, 0,
     0, 0, 0, 0, 0, 0, 0, 0, 0, 0, 0, 0, 0, 0, 0, 0, 0, 0, 0, 0, 0, 0, 0, 0, 0, 0, 0, 0, 0, 0, 0, 0,
     0, 0, 0, 0, 0, 0, 0, 0, 0, 0, 0, 0, 0, 0, 0, 0, 0, 0, 0, 0, 0, 0, 0, 0, 0, 0, 0, 0, 0, 0, 0, 0,
     0, 0, 0, 0, 0, 0, 0, 0, 0, 0, 0, 0, 0, 0, 0, 0, 0, 0, 0, 0, 0, 0, 0, 0, 0, 0, 0, 0, 0, 0, 0, 0]"

definition hexdigits :: string where
  "hexdigits = ''0123456789ABCDEF''"

definition byte_of :: "char \<Rightarrow> nat" where
  "byte_of c = of_char c"

definition CHAR_IS_UNRESERVED :: "char \<Rightarrow> bool" where
  "CHAR_IS_UNRESERVED c \<longleftrightarrow> uri_chars ! byte_of c \<noteq> 0"

text \<open>\<^verbatim>\<open>isxdigit\<close> of the C locale.\<close>

definition isxdigit :: "char \<Rightarrow> bool" where
  "isxdigit c \<longleftrightarrow> (48 \<le> byte_of c \<and> byte_of c \<le> 57) \<or> (65 \<le> byte_of c \<and> byte_of c \<le> 70) \<or>
     (97 \<le> byte_of c \<and> byte_of c \<le> 102)"

section \<open>Encoding and decoding\<close>

text \<open>\<open>pre\<close> are the bytes of \<^verbatim>\<open>str\<close> already passed; \<open>None\<close> is the null pointer \<^verbatim>\<open>ss\<close>.\<close>

fun UrlEncode_loop :: "bool \<Rightarrow> string \<Rightarrow> string option \<Rightarrow> string \<Rightarrow> string option" where
  "UrlEncode_loop space_as_plus pre ss [] = ss"
| "UrlEncode_loop space_as_plus pre ss (c # cs) =
     (if \<not> CHAR_IS_UNRESERVED c then
        let s = (case ss of None \<Rightarrow> pre | Some s \<Rightarrow> s)
        in UrlEncode_loop space_as_plus (pre @ [c])
             (Some (if c = CHR '' '' \<and> space_as_plus then s @ ''+''
                    else s @ [CHR ''%'', hexdigits ! (byte_of c div 16), hexdigits ! (byte_of c mod 16)])) cs
      else UrlEncode_loop space_as_plus (pre @ [c]) (case ss of None \<Rightarrow> None | Some s \<Rightarrow> Some (s @ [c])) cs)"

definition UrlEncode :: "string \<Rightarrow> bool \<Rightarrow> string" where
  "UrlEncode str space_as_plus = (case UrlEncode_loop space_as_plus [] None str of None \<Rightarrow> str | Some rt \<Rightarrow> rt)"

definition hex_value :: "char \<Rightarrow> char \<Rightarrow> char" where
  "hex_value a b = char_of ((xdigit_chars ! byte_of a) * 16 + xdigit_chars ! byte_of b)"

fun UrlDecode_loop :: "bool \<Rightarrow> string \<Rightarrow> string option \<Rightarrow> string \<Rightarrow> string option" where
  "UrlDecode_loop space_as_plus pre ss [] = ss"
| "UrlDecode_loop space_as_plus pre ss (c # cs) =
     (let s = (case ss of None \<Rightarrow> pre | Some s \<Rightarrow> s);
          keep = (case ss of None \<Rightarrow> None | Some s \<Rightarrow> Some (s @ [c]))
      in if c = CHR ''+'' \<and> space_as_plus then
           UrlDecode_loop space_as_plus (pre @ [c]) (Some (s @ '' '')) cs
         else if c = CHR ''%'' then
           (case cs of
              a # b # rest \<Rightarrow>
                if isxdigit a \<and> isxdigit b then
                  UrlDecode_loop space_as_plus (pre @ [c, a, b]) (Some (s @ [hex_value a b])) rest
                else UrlDecode_loop space_as_plus (pre @ [c]) keep cs
            | _ \<Rightarrow> UrlDecode_loop space_as_plus (pre @ [c]) keep cs)
         else UrlDecode_loop space_as_plus (pre @ [c]) keep cs)"

definition UrlDecode :: "string \<Rightarrow> bool \<Rightarrow> string" where
  "UrlDecode str space_as_plus = (case UrlDecode_loop space_as_plus [] None str of None \<Rightarrow> str | Some rt \<Rightarrow> rt)"

section \<open>Trimming\<close>

text \<open>\<^verbatim>\<open>find_first_not_of\<close> and \<^verbatim>\<open>find_last_not_of\<close>; \<open>None\<close> is \<^verbatim>\<open>npos\<close>.\<close>

fun find_first_not_of :: "string \<Rightarrow> string \<Rightarrow> nat option" where
  "find_first_not_of delimit [] = None"
| "find_first_not_of delimit (c # cs) =
     (if c \<notin> set delimit then Some 0 else map_option Suc (find_first_not_of delimit cs))"

fun find_last_not_of :: "string \<Rightarrow> string \<Rightarrow> nat option" where
  "find_last_not_of delimit [] = None"
| "find_last_not_of delimit (c # cs) =
     (case find_last_not_of delimit cs of
        Some n \<Rightarrow> Some (Suc n)
      | None \<Rightarrow> if c \<notin> set delimit then Some 0 else None)"

definition Trim :: "string \<Rightarrow> string \<Rightarrow> string" where
  "Trim str delimit =
     (case find_first_not_of delimit str of
        None \<Rightarrow> []
      | Some start \<Rightarrow>
          (case find_last_not_of delimit str of
             None \<Rightarrow> []
           | Some fin \<Rightarrow> take (fin - start + 1) (drop start str)))"

definition TrimLeft :: "string \<Rightarrow> string \<Rightarrow> string" where
  "TrimLeft str delimit = (case find_first_not_of delimit str of None \<Rightarrow> [] | Some start \<Rightarrow> drop start str)"

definition TrimRight :: "string \<Rightarrow> string \<Rightarrow> string" where
  "TrimRight str delimit = (case find_last_not_of delimit str of None \<Rightarrow> [] | Some fin \<Rightarrow> take (fin + 1) str)"

section \<open>The codecs against a reference\<close>

definition enc_char :: "bool \<Rightarrow> char \<Rightarrow> string" where
  "enc_char sp c =
     (if CHAR_IS_UNRESERVED c then [c] else if c = CHR '' '' \<and> sp then ''+''
      else [CHR ''%'', hexdigits ! (byte_of c div 16), hexdigits ! (byte_of c mod 16)])"

lemma UrlEncode_loop_Some: "UrlEncode_loop sp pre (Some s) cs = Some (s @ concat (map (enc_char sp) cs))"
  by (induction cs arbitrary: pre s) (auto simp: enc_char_def Let_def)

lemma UrlEncode_loop_None:
  "(case UrlEncode_loop sp pre None cs of None \<Rightarrow> pre @ cs | Some r \<Rightarrow> r) = pre @ concat (map (enc_char sp) cs)"
proof (induction cs arbitrary: pre)
  case (Cons c cs)
  show ?case
  proof (cases "CHAR_IS_UNRESERVED c")
    case True
    then have "enc_char sp c = [c]" by (simp add: enc_char_def)
    then show ?thesis using True Cons.IH [of "pre @ [c]"] by (simp split: option.splits)
  next
    case False
    then have "UrlEncode_loop sp pre None (c # cs) = Some ((pre @ enc_char sp c) @ concat (map (enc_char sp) cs))"
      by (simp only: UrlEncode_loop.simps if_True option.case Let_def UrlEncode_loop_Some)
        (simp add: enc_char_def)
    then show ?thesis by simp
  qed
qed simp

lemma UrlEncode_eq: "UrlEncode s sp = concat (map (enc_char sp) s)"
  using UrlEncode_loop_None [where pre = "[]" and cs = s and sp = sp] by (simp add: UrlEncode_def split: option.splits)

fun decode :: "bool \<Rightarrow> string \<Rightarrow> string" where
  "decode sp [] = []"
| "decode sp (c # cs) =
     (if c = CHR ''+'' \<and> sp then CHR '' '' # decode sp cs
      else if c = CHR ''%'' then
        (case cs of
           a # b # rest \<Rightarrow> if isxdigit a \<and> isxdigit b then hex_value a b # decode sp rest else c # decode sp cs
         | _ \<Rightarrow> c # decode sp cs)
      else c # decode sp cs)"

lemma no_escape:
  assumes "\<not> (c = CHR ''%'' \<and> (\<exists>a b rest. cs = a # b # rest \<and> isxdigit a \<and> isxdigit b))" "c = CHR ''%''"
  shows "(case cs of a # b # rest \<Rightarrow> if isxdigit a \<and> isxdigit b then X a b rest else Y | _ \<Rightarrow> Y) = Y"
  using assms by (auto split: list.splits)

lemma decode_cases [consumes 0, case_names empty space escape other]:
  fixes str :: string
  obtains "str = []"
  | cs where "str = CHR ''+'' # cs" "sp"
  | a b rest where "str = CHR ''%'' # a # b # rest" "isxdigit a" "isxdigit b"
  | c cs where "str = c # cs" "decode sp str = c # decode sp cs"
    "\<And>pre ss. UrlDecode_loop sp pre ss str =
       UrlDecode_loop sp (pre @ [c]) (case ss of None \<Rightarrow> None | Some s \<Rightarrow> Some (s @ [c])) cs"
proof (cases str)
  case (Cons c cs)
  show ?thesis
  proof (cases "c = CHR ''+'' \<and> sp")
    case True
    then show ?thesis using Cons that(2) by blast
  next
    case F1: False
    show ?thesis
    proof (cases "c = CHR ''%'' \<and> (\<exists>a b rest. cs = a # b # rest \<and> isxdigit a \<and> isxdigit b)")
      case True
      then show ?thesis using Cons that(3) by blast
    next
      case False
      note esc = no_escape [OF False]
      have "decode sp str = c # decode sp cs"
        unfolding Cons decode.simps(2) by (cases "c = CHR ''%''") (simp_all only: F1 if_False if_True esc, simp_all)
      moreover have "UrlDecode_loop sp pre ss str =
          UrlDecode_loop sp (pre @ [c]) (case ss of None \<Rightarrow> None | Some s \<Rightarrow> Some (s @ [c])) cs" for pre ss
        unfolding Cons UrlDecode_loop.simps(2) Let_def
        by (cases "c = CHR ''%''") (simp_all only: F1 if_False if_True esc, simp_all)
      ultimately show ?thesis using that(4) [OF Cons] by blast
    qed
  qed
qed (rule that(1))

lemma UrlDecode_loop_Some: "UrlDecode_loop sp pre (Some s) cs = Some (s @ decode sp cs)"
proof (induction cs arbitrary: pre s rule: length_induct)
  case (1 str)
  show ?case
  proof (cases str rule: decode_cases [where sp = sp])
    case (escape a b rest)
    then show ?thesis using 1 by (simp add: Let_def)
  qed (use 1 in \<open>auto simp del: UrlDecode_loop.simps(2) decode.simps(2)
    simp: UrlDecode_loop.simps(2) [of True] decode.simps(2) [of True]\<close>)
qed

lemma UrlDecode_loop_None:
  "(case UrlDecode_loop sp pre None cs of None \<Rightarrow> pre @ cs | Some r \<Rightarrow> r) = pre @ decode sp cs"
proof (induction cs arbitrary: pre rule: length_induct)
  case (1 str)
  show ?case
  proof (cases str rule: decode_cases [where sp = sp])
    case (space cs)
    then show ?thesis by (simp add: UrlDecode_loop_Some Let_def)
  next
    case (escape a b rest)
    then show ?thesis by (simp add: UrlDecode_loop_Some Let_def)
  next
    case (other c cs)
    have "(case UrlDecode_loop sp (pre @ [c]) None cs of None \<Rightarrow> (pre @ [c]) @ cs | Some r \<Rightarrow> r) =
        (pre @ [c]) @ decode sp cs"
      using 1 other(1) by simp
    then show ?thesis unfolding other(2,3) using other(1) by (simp split: option.splits)
  qed simp
qed

lemma UrlDecode_eq: "UrlDecode s sp = decode sp s"
  using UrlDecode_loop_None [where pre = "[]" and cs = s and sp = sp] by (simp add: UrlDecode_def split: option.splits)

text \<open>The two tables agree: what \<open>hexdigits\<close> writes, \<open>xdigit_chars\<close> reads back.\<close>

lemma hexdigits_read_back:
  assumes "i < 16"
  shows "isxdigit (hexdigits ! i)" "xdigit_chars ! byte_of (hexdigits ! i) = i"
proof -
  have "i \<in> {0, 1, 2, 3, 4, 5, 6, 7, 8, 9, 10, 11, 12, 13, 14, 15}"
    using assms by (simp, presburger)
  then show "isxdigit (hexdigits ! i)" "xdigit_chars ! byte_of (hexdigits ! i) = i"
    by (auto simp: hexdigits_def isxdigit_def byte_of_def xdigit_chars_def)
qed

lemma byte_of_less: "byte_of c < 256"
  by (simp add: byte_of_def)

lemma hex_value_hexdigits:
  "hex_value (hexdigits ! (byte_of c div 16)) (hexdigits ! (byte_of c mod 16)) = c"
  using byte_of_less [of c] hexdigits_read_back(2) [of "byte_of c div 16"] hexdigits_read_back(2) [of "byte_of c mod 16"]
  by (simp add: hex_value_def) (simp add: byte_of_def)

lemma escape_not_unreserved: "\<not> CHAR_IS_UNRESERVED CHR ''%''" "\<not> CHAR_IS_UNRESERVED CHR ''+''"
  by (simp_all add: CHAR_IS_UNRESERVED_def uri_chars_def byte_of_def)

lemma decode_enc_char:
  assumes "e \<longrightarrow> d"
  shows "decode d (enc_char e c @ cs) = c # decode d cs"
proof (cases "CHAR_IS_UNRESERVED c")
  case True
  then have "c \<noteq> CHR ''%''" "c \<noteq> CHR ''+''" using escape_not_unreserved by auto
  then show ?thesis using True by (simp add: enc_char_def)
next
  case False
  have lt: "byte_of c div 16 < 16" "byte_of c mod 16 < 16" using byte_of_less [of c] by auto
  show ?thesis
    using False assms hexdigits_read_back(1) [OF lt(1)] hexdigits_read_back(1) [OF lt(2)]
    by (simp add: enc_char_def hex_value_hexdigits)
qed

lemma decode_encode: "e \<longrightarrow> d \<Longrightarrow> decode d (concat (map (enc_char e) s)) = s"
  by (induction s) (simp_all add: decode_enc_char)

text \<open>
  C32: decoding what \<^verbatim>\<open>StringUtil::UrlEncode\<close> wrote gives the string back, for every string of bytes,
  provided a space written as \<^verbatim>\<open>+\<close> is read as one.
\<close>

theorem url_roundtrip:
  assumes "space_as_plus \<longrightarrow> plus_as_space"
  shows "UrlDecode (UrlEncode str space_as_plus) plus_as_space = str"
  using assms by (simp add: UrlEncode_eq UrlDecode_eq decode_encode)

theorem url_roundtrip_witness:
  "UrlDecode (UrlEncode ''a b+%'' True) True = ''a b+%'' \<and> UrlDecode (UrlEncode ''a b'' False) True = ''a b''"
  using url_roundtrip [of True True "''a b+%''"] url_roundtrip [of False True "''a b''"] by simp

text \<open>
  C33: the two loops, which copy the text only when they meet a character to change, equal the codes that treat every
  character alone.
\<close>

theorem url_loops_equal_codes:
  "UrlEncode s sp = concat (map (enc_char sp) s) \<and> UrlDecode s sp = decode sp s"
  by (simp add: UrlEncode_eq UrlDecode_eq)

section \<open>What trimming removes\<close>

lemma find_first_drop:
  "(case find_first_not_of d s of None \<Rightarrow> [] | Some n \<Rightarrow> drop n s) = dropWhile (\<lambda>c. c \<in> set d) s"
  by (induction s) (auto split: option.splits)

lemma TrimLeft_eq: "TrimLeft s d = dropWhile (\<lambda>c. c \<in> set d) s"
  unfolding TrimLeft_def by (rule find_first_drop)

lemma find_last_None: "find_last_not_of d s = None \<longleftrightarrow> set s \<subseteq> set d"
  by (induction s) (auto split: option.splits)

lemma find_first_None: "find_first_not_of d s = None \<longleftrightarrow> set s \<subseteq> set d"
  by (induction s) (auto split: option.splits)

lemma find_last_Some:
  "find_last_not_of d s = Some n \<Longrightarrow> n < length s \<and> s ! n \<notin> set d \<and> set (drop (Suc n) s) \<subseteq> set d"
proof (induction s arbitrary: n)
  case (Cons c s)
  then show ?case by (auto split: option.splits if_splits simp: find_last_None)
qed simp

lemma find_first_Some:
  "find_first_not_of d s = Some n \<Longrightarrow> n < length s \<and> s ! n \<notin> set d \<and> set (take n s) \<subseteq> set d"
proof (induction s arbitrary: n)
  case (Cons c s)
  then show ?case by (cases n) (auto split: if_splits)
qed simp

text \<open>
  \<^verbatim>\<open>StringUtil::Trim\<close> cuts the string into three parts, of which only the middle one is kept: the
  parts removed hold delimiters only, and the part kept is empty or begins and ends with another character.
\<close>

theorem Trim_exact:
  "\<exists>l r. str = l @ Trim str delimit @ r \<and> set l \<subseteq> set delimit \<and> set r \<subseteq> set delimit \<and>
     (Trim str delimit = [] \<or> hd (Trim str delimit) \<notin> set delimit \<and> List.last (Trim str delimit) \<notin> set delimit)"
proof (cases "find_first_not_of delimit str")
  case None
  then have "Trim str delimit = []" "set str \<subseteq> set delimit"
    using find_first_None [of delimit str] by (simp_all add: Trim_def)
  then show ?thesis by (metis append.right_neutral append_Nil empty_subsetI list.set(1))
next
  case (Some a)
  note a = find_first_Some [OF Some]
  then obtain b where b': "find_last_not_of delimit str = Some b"
    using find_last_None [of delimit str] by (metis nth_mem option.exhaust subsetD)
  note b = find_last_Some [OF b']
  have ab: "a \<le> b"
  proof (rule ccontr)
    assume "\<not> a \<le> b"
    then have "str ! a \<in> set (drop (Suc b) str)"
      using a by (metis Cons_nth_drop_Suc drop_drop in_set_dropD le_add_diff_inverse2 list.set_intros(1) not_less_eq_eq set_drop_subset_set_drop subsetD)
    then show False using a b by blast
  qed
  have t: "Trim str delimit = take (Suc b - a) (drop a str)"
    using Some b' ab by (simp add: Trim_def Suc_diff_le)
  have "str = take a str @ Trim str delimit @ drop (Suc b) str"
    using ab by (simp add: t) (metis append_take_drop_id drop_drop le_SucI le_add_diff_inverse2)
  moreover have "hd (Trim str delimit) = str ! a" "List.last (Trim str delimit) = str ! b"
    using a b ab diff_le_mono [of "Suc b" "length str" a] by (simp_all add: t hd_drop_conv_nth last_conv_nth min_absorb2)
  ultimately show ?thesis using a b by metis
qed

end
