(* ===== verification/CStrings.thy ===== *)
theory CStrings
  imports StringUtil StdContainers "HOL-Library.List_Lexorder"
begin

text \<open>
  What the program uses of \<^verbatim>\<open><string.h>\<close> and of stream output: C strings end at the first zero byte, the
  comparison functions work on that prefix, \<^verbatim>\<open>strcasecmp\<close> on its lower-case form in the C locale.
  \<^verbatim>\<open>std::string::find\<close> and the decimal output of a number are here too.
\<close>

section \<open>C strings\<close>

definition c_str :: "string \<Rightarrow> string" where
  "c_str s = takeWhile (\<lambda>c. c \<noteq> CHR 0x00) s"

definition strcmp_eq :: "string \<Rightarrow> string \<Rightarrow> bool" where
  "strcmp_eq a b \<longleftrightarrow> c_str a = c_str b"

text \<open>\<^verbatim>\<open>strncmp(a, b, n) == 0\<close>; the end of a list is the terminating zero.\<close>

fun strncmp_eq :: "nat \<Rightarrow> string \<Rightarrow> string \<Rightarrow> bool" where
  "strncmp_eq 0 a b = True"
| "strncmp_eq (Suc n) a b =
     (case (c_str a, c_str b) of
        ([], []) \<Rightarrow> True
      | (x # _, y # _) \<Rightarrow> x = y \<and> strncmp_eq n (tl a) (tl b)
      | _ \<Rightarrow> False)"

definition tolower :: "char \<Rightarrow> char" where
  "tolower c = (if 65 \<le> byte_of c \<and> byte_of c \<le> 90 then char_of (byte_of c + 32) else c)"

fun casecmp :: "string \<Rightarrow> string \<Rightarrow> int" where
  "casecmp [] [] = 0"
| "casecmp (a # as) [] = int (byte_of (tolower a))"
| "casecmp [] (b # bs) = - int (byte_of (tolower b))"
| "casecmp (a # as) (b # bs) =
     (if tolower a = tolower b then casecmp as bs else int (byte_of (tolower a)) - int (byte_of (tolower b)))"

definition strcasecmp :: "string \<Rightarrow> string \<Rightarrow> int" where
  "strcasecmp a b = casecmp (c_str a) (c_str b)"

fun case_prefix :: "string \<Rightarrow> string \<Rightarrow> bool" where
  "case_prefix [] s = True"
| "case_prefix (n # ns) [] = False"
| "case_prefix (n # ns) (c # cs) \<longleftrightarrow> tolower n = tolower c \<and> case_prefix ns cs"

text \<open>\<^verbatim>\<open>strcasestr(s, needle) != nullptr\<close>.\<close>

fun casestr :: "string \<Rightarrow> string \<Rightarrow> bool" where
  "casestr [] needle = (needle = [])"
| "casestr (c # cs) needle \<longleftrightarrow> case_prefix needle (c # cs) \<or> casestr cs needle"

definition strcasestr :: "string \<Rightarrow> string \<Rightarrow> bool" where
  "strcasestr s needle = casestr (c_str s) (c_str needle)"

section \<open>Searching and decimal output\<close>

text \<open>\<^verbatim>\<open>s.find(c, pos)\<close>; \<open>None\<close> is \<^verbatim>\<open>npos\<close>.\<close>

fun find_char :: "string \<Rightarrow> char \<Rightarrow> nat \<Rightarrow> nat option" where
  "find_char [] c pos = None"
| "find_char (x # xs) c 0 = (if x = c then Some 0 else map_option Suc (find_char xs c 0))"
| "find_char (x # xs) c (Suc pos) = map_option Suc (find_char xs c pos)"

text \<open>\<^verbatim>\<open>s.substr(pos, n)\<close>; \<open>None\<close> is a count that runs past the end.\<close>

definition substr :: "string \<Rightarrow> nat \<Rightarrow> nat option \<Rightarrow> string" where
  "substr s pos n = (case n of None \<Rightarrow> drop pos s | Some k \<Rightarrow> take k (drop pos s))"

fun dec :: "nat \<Rightarrow> string" where
  "dec n = (if n < 10 then [char_of (48 + n)] else dec (n div 10) @ [char_of (48 + n mod 10)])"

declare dec.simps [simp del]

definition dec_int :: "int \<Rightarrow> string" where
  "dec_int i = (if i < 0 then CHR ''-'' # dec (nat (- i)) else dec (nat i))"

lemma find_char_Some:
  "find_char s c pos = Some i \<Longrightarrow> pos \<le> i \<and> i < length s \<and> s ! i = c \<and> (\<forall>j. pos \<le> j \<and> j < i \<longrightarrow> s ! j \<noteq> c)"
proof (induction s c pos arbitrary: i rule: find_char.induct)
  case (2 x xs c)
  then show ?case by (auto split: if_splits simp: nth_Cons less_Suc_eq_0_disj split: nat.splits)
next
  case (3 x xs c pos)
  then show ?case by (auto simp: nth_Cons split: nat.splits)
qed simp

lemma find_char_append:
  assumes "c \<notin> set b"
  shows "find_char (a @ b @ c # d) c (length a) = Some (length a + length b)"
proof -
  have "find_char (b @ c # d) c 0 = Some (length b)" using assms by (induction b) auto
  then show ?thesis by (induction a) auto
qed

lemma find_char_absent:
  assumes "c \<notin> set b"
  shows "find_char (a @ b) c (length a) = None"
proof -
  have "find_char b c 0 = None" using assms by (induction b) auto
  then show ?thesis by (induction a) auto
qed

section \<open>The order of \<open>strcasecmp\<close>\<close>

definition case_key :: "string \<Rightarrow> nat list" where
  "case_key s = map (\<lambda>c. byte_of (tolower c)) (c_str s)"

lemma byte_of_inj: "byte_of a = byte_of b \<longleftrightarrow> a = b"
  by (simp add: byte_of_def)

lemma tolower_nonzero [simp]: "c \<noteq> CHR 0x00 \<Longrightarrow> 0 < byte_of (tolower c)"
proof -
  assume "c \<noteq> CHR 0x00"
  then have "byte_of c \<noteq> byte_of (CHR 0x00)" using byte_of_inj by blast
  then have "0 < byte_of c" by (simp add: byte_of_def)
  then show ?thesis by (auto simp: tolower_def) (simp add: byte_of_def)
qed

lemma c_str_nonzero: "\<forall>c\<in>set (c_str s). c \<noteq> CHR 0x00"
  by (auto simp: c_str_def dest: set_takeWhileD)

lemma casecmp_less:
  assumes "\<forall>c\<in>set a. c \<noteq> CHR 0x00" "\<forall>c\<in>set b. c \<noteq> CHR 0x00"
  shows "casecmp a b < 0 \<longleftrightarrow> map (\<lambda>c. byte_of (tolower c)) a < map (\<lambda>c. byte_of (tolower c)) b"
  using assms by (induction a b rule: casecmp.induct) (auto simp: tolower_nonzero byte_of_inj)

lemma casecmp_eq:
  assumes "\<forall>c\<in>set a. c \<noteq> CHR 0x00" "\<forall>c\<in>set b. c \<noteq> CHR 0x00"
  shows "casecmp a b = 0 \<longleftrightarrow> map (\<lambda>c. byte_of (tolower c)) a = map (\<lambda>c. byte_of (tolower c)) b"
  using assms by (induction a b rule: casecmp.induct) (auto simp: tolower_nonzero byte_of_inj)

lemma strcasecmp_less: "strcasecmp a b < 0 \<longleftrightarrow> case_key a < case_key b"
  unfolding strcasecmp_def case_key_def by (rule casecmp_less) (rule c_str_nonzero)+

lemma strcasecmp_eq: "strcasecmp a b = 0 \<longleftrightarrow> case_key a = case_key b"
  unfolding strcasecmp_def case_key_def by (rule casecmp_eq) (rule c_str_nonzero)+

end
