(* ===== verification/Address.thy ===== *)
theory Address
  imports Bytes CStrings
begin

text \<open>
  Socket addresses (\<^verbatim>\<open>saturn/address.cc\<close>): the four kinds of address with the fields of their
  \<^verbatim>\<open>sockaddr\<close> structures, their order and equality as memory, the subnet operations, the printed form, and
  the splitting of a host name into node and service.  \<open>host\<close> is the byte order of the machine.  What
  \<^verbatim>\<open>getaddrinfo\<close>, \<^verbatim>\<open>getifaddrs\<close> and \<^verbatim>\<open>inet_pton\<close> answer is an argument.
\<close>

unbundle bit_operations_syntax

section \<open>Structures\<close>

definition AF_UNSPEC :: u16 where "AF_UNSPEC = 0"
definition AF_UNIX :: u16 where "AF_UNIX = 1"
definition AF_INET :: u16 where "AF_INET = 2"
definition AF_INET6 :: u16 where "AF_INET6 = 10"

record sockaddr_in =
  sin_port :: u16
  sin_addr :: u32
  sin_zero :: "u8 list"

record sockaddr_in6 =
  sin6_port :: u16
  sin6_flowinfo :: u32
  sin6_addr :: "u8 list"
  sin6_scope_id :: u32

record sockaddr_un =
  sun_path :: string
  m_length :: nat

datatype sockaddr = SaIn sockaddr_in | SaIn6 sockaddr_in6 | SaOther u16 "u8 list"

datatype Address = IPv4Address sockaddr_in | IPv6Address sockaddr_in6 | UnixAddress sockaddr_un | UnknownAddress u16 "u8 list"

definition Address_Create :: "sockaddr option \<Rightarrow> Address option" where
  "Address_Create addr =
     (case addr of
        None \<Rightarrow> None
      | Some (SaIn a) \<Rightarrow> Some (IPv4Address a)
      | Some (SaIn6 a) \<Rightarrow> Some (IPv6Address a)
      | Some (SaOther f d) \<Rightarrow> Some (UnknownAddress f d))"

definition getFamily :: "Address \<Rightarrow> u16" where
  "getFamily a = (case a of IPv4Address _ \<Rightarrow> AF_INET | IPv6Address _ \<Rightarrow> AF_INET6 | UnixAddress _ \<Rightarrow> AF_UNIX | UnknownAddress f _ \<Rightarrow> f)"

section \<open>Addresses as memory\<close>

definition sun_path_offset :: nat where "sun_path_offset = 2"
definition sun_path_size :: nat where "sun_path_size = 108"

definition char_byte :: "char \<Rightarrow> u8" where
  "char_byte c = of_nat (byte_of c)"

definition getAddr :: "endian \<Rightarrow> Address \<Rightarrow> u8 list" where
  "getAddr host a = to_mem host 2 (getFamily a) @
     (case a of
        IPv4Address s \<Rightarrow> to_mem host 2 (sin_port s) @ to_mem host 4 (sin_addr s) @ sin_zero s
      | IPv6Address s \<Rightarrow> to_mem host 2 (sin6_port s) @ to_mem host 4 (sin6_flowinfo s) @ sin6_addr s @ to_mem host 4 (sin6_scope_id s)
      | UnixAddress s \<Rightarrow> map char_byte (sun_path s)
      | UnknownAddress f d \<Rightarrow> d)"

definition getAddrLen :: "Address \<Rightarrow> nat" where
  "getAddrLen a = (case a of IPv4Address _ \<Rightarrow> 16 | IPv6Address _ \<Rightarrow> 28 | UnixAddress s \<Rightarrow> m_length s | UnknownAddress _ _ \<Rightarrow> 16)"

text \<open>The structures have their sizes, and a Unix address does not claim more than its structure holds.\<close>

definition addr_ok :: "Address \<Rightarrow> bool" where
  "addr_ok a = (case a of
       IPv4Address s \<Rightarrow> length (sin_zero s) = 8
     | IPv6Address s \<Rightarrow> length (sin6_addr s) = 16
     | UnixAddress s \<Rightarrow> length (sun_path s) = sun_path_size \<and> m_length s \<le> sun_path_offset + sun_path_size
     | UnknownAddress f d \<Rightarrow> length d = 14)"

fun memcmp :: "u8 list \<Rightarrow> u8 list \<Rightarrow> int" where
  "memcmp (a # as) (b # bs) = (if a = b then memcmp as bs else uint a - uint b)"
| "memcmp _ _ = 0"

definition addr_less :: "endian \<Rightarrow> Address \<Rightarrow> Address \<Rightarrow> bool" where
  "addr_less host lhs rhs =
     (let min_len = min (getAddrLen lhs) (getAddrLen rhs);
          rt = memcmp (take min_len (getAddr host lhs)) (take min_len (getAddr host rhs))
      in if rt < 0 then True else if rt > 0 then False else getAddrLen lhs < getAddrLen rhs)"

definition addr_eq :: "endian \<Rightarrow> Address \<Rightarrow> Address \<Rightarrow> bool" where
  "addr_eq host lhs rhs \<longleftrightarrow> getAddrLen lhs = getAddrLen rhs \<and>
     memcmp (take (getAddrLen lhs) (getAddr host lhs)) (take (getAddrLen lhs) (getAddr host rhs)) = 0"

definition addr_neq :: "endian \<Rightarrow> Address \<Rightarrow> Address \<Rightarrow> bool" where
  "addr_neq host lhs rhs \<longleftrightarrow> \<not> addr_eq host lhs rhs"

section \<open>Masks\<close>

text \<open>
  \<^verbatim>\<open>(1 << (sizeof(T) * 8 - bits)) - 1\<close> is computed in \<^verbatim>\<open>int\<close>: for a 32-bit type, no prefix bit means a shift by
  the width, and one prefix bit a subtraction from the least integer.
\<close>

definition CreateMask32 :: "nat \<Rightarrow> u32 res" where
  "CreateMask32 bits = (if bits < 2 then Inl ArithUB else Inr (2 ^ (32 - bits) - 1))"

definition CreateMask8 :: "nat \<Rightarrow> u8" where
  "CreateMask8 bits = word_of_int (2 ^ (8 - bits) - 1)"

function CountBytes :: "'a::len word \<Rightarrow> nat" where
  "CountBytes v = (if v \<noteq> 0 then Suc (CountBytes (v AND (v - 1))) else 0)"
  by pat_completeness auto
termination
proof (relation "measure unat")
  fix v :: "'a word" assume v: "v \<noteq> 0"
  have "v AND (v - 1) \<le> v - 1" by (rule word_and_le1)
  also have "v - 1 < v" using v by (simp add: word_less_nat_alt unat_minus_one unat_gt_0)
  finally show "(v AND (v - 1), v) \<in> measure unat" by (simp add: word_less_nat_alt)
qed simp

declare CountBytes.simps [simp del]

section \<open>IPv4\<close>

definition newIPv4 :: "endian \<Rightarrow> u32 \<Rightarrow> u16 \<Rightarrow> sockaddr_in" where
  "newIPv4 host address port =
     \<lparr>sin_port = byteswapOnLittleEndian host 2 port, sin_addr = byteswapOnLittleEndian host 4 address,
      sin_zero = replicate 8 0\<rparr>"

text \<open>\<open>pton\<close> is the result of \<^verbatim>\<open>inet_pton\<close>: the number it returned and the four bytes it stored.\<close>

definition IPv4_Create :: "endian \<Rightarrow> int \<times> u8 list \<Rightarrow> u16 \<Rightarrow> Address option" where
  "IPv4_Create host pton port =
     (if fst pton \<le> 0 then None
      else Some (IPv4Address ((newIPv4 host 0 port)\<lparr>sin_addr := of_mem host (snd pton)\<rparr>)))"

definition host_addr :: "endian \<Rightarrow> sockaddr_in \<Rightarrow> u32" where
  "host_addr host a = byteswapOnLittleEndian host 4 (sin_addr a)"

definition getPort4 :: "endian \<Rightarrow> sockaddr_in \<Rightarrow> u16" where
  "getPort4 host a = byteswapOnLittleEndian host 2 (sin_port a)"

definition setPort4 :: "endian \<Rightarrow> u16 \<Rightarrow> sockaddr_in \<Rightarrow> sockaddr_in" where
  "setPort4 host v a = a\<lparr>sin_port := byteswapOnLittleEndian host 2 v\<rparr>"

definition insert4 :: "endian \<Rightarrow> sockaddr_in \<Rightarrow> string" where
  "insert4 host a =
     (let addr = host_addr host a
      in dec (unat (drop_bit 24 addr AND 0xff)) @ ''.'' @ dec (unat (drop_bit 16 addr AND 0xff)) @ ''.'' @
         dec (unat (drop_bit 8 addr AND 0xff)) @ ''.'' @ dec (unat (addr AND 0xff)) @ '':'' @ dec (unat (getPort4 host a)))"

definition broadcast4 :: "endian \<Rightarrow> nat \<Rightarrow> sockaddr_in \<Rightarrow> sockaddr_in option res" where
  "broadcast4 host prefix_len a =
     (if prefix_len > 32 then Inr None
      else bindE (CreateMask32 prefix_len) (\<lambda>m.
             Inr (Some (a\<lparr>sin_addr := sin_addr a OR byteswapOnLittleEndian host 4 m\<rparr>))))"

definition networdAddress4 :: "endian \<Rightarrow> nat \<Rightarrow> sockaddr_in \<Rightarrow> sockaddr_in option res" where
  "networdAddress4 host prefix_len a =
     (if prefix_len > 32 then Inr None
      else bindE (CreateMask32 prefix_len) (\<lambda>m.
             Inr (Some (a\<lparr>sin_addr := sin_addr a AND byteswapOnLittleEndian host 4 m\<rparr>))))"

text \<open>There is no check of the length here; a longer one makes the shift count negative.\<close>

definition subnetMask4 :: "endian \<Rightarrow> nat \<Rightarrow> sockaddr_in res" where
  "subnetMask4 host prefix_len =
     (if prefix_len > 32 then Inl ArithUB
      else bindE (CreateMask32 prefix_len) (\<lambda>m.
             Inr \<lparr>sin_port = 0, sin_addr = NOT (byteswapOnLittleEndian host 4 m), sin_zero = replicate 8 0\<rparr>))"

section \<open>IPv6\<close>

definition newIPv6 :: sockaddr_in6 where
  "newIPv6 = \<lparr>sin6_port = 0, sin6_flowinfo = 0, sin6_addr = replicate 16 0, sin6_scope_id = 0\<rparr>"

definition newIPv6Bytes :: "endian \<Rightarrow> u8 list \<Rightarrow> u16 \<Rightarrow> sockaddr_in6" where
  "newIPv6Bytes host address port = newIPv6\<lparr>sin6_addr := address, sin6_port := byteswapOnLittleEndian host 2 port\<rparr>"

definition IPv6_Create :: "endian \<Rightarrow> int \<times> u8 list \<Rightarrow> u16 \<Rightarrow> Address option" where
  "IPv6_Create host pton port =
     (if fst pton \<le> 0 then None else Some (IPv6Address (newIPv6Bytes host (snd pton) port)))"

definition getPort6 :: "endian \<Rightarrow> sockaddr_in6 \<Rightarrow> u16" where
  "getPort6 host a = byteswapOnLittleEndian host 2 (sin6_port a)"

definition setPort6 :: "endian \<Rightarrow> u16 \<Rightarrow> sockaddr_in6 \<Rightarrow> sockaddr_in6" where
  "setPort6 host v a = a\<lparr>sin6_port := byteswapOnLittleEndian host 2 v\<rparr>"

text \<open>\<open>edit6\<close>: the byte that holds the end of the prefix is changed by \<open>f\<close>, the bytes after it are filled.\<close>

definition edit6 :: "(u8 \<Rightarrow> u8) \<Rightarrow> u8 \<Rightarrow> nat \<Rightarrow> u8 list \<Rightarrow> u8 list res" where
  "edit6 f fill prefix_len bs =
     (let k = prefix_len div 8
      in if k \<ge> 16 then Inl OutOfBounds else Inr (take k bs @ [f (bs ! k)] @ replicate (16 - (k + 1)) fill))"

definition broadcast6 :: "nat \<Rightarrow> sockaddr_in6 \<Rightarrow> sockaddr_in6 res" where
  "broadcast6 prefix_len a =
     bindE (edit6 (\<lambda>b. b OR CreateMask8 (prefix_len mod 8)) 0xff prefix_len (sin6_addr a)) (\<lambda>bs. Inr (a\<lparr>sin6_addr := bs\<rparr>))"

definition networdAddress6 :: "nat \<Rightarrow> sockaddr_in6 \<Rightarrow> sockaddr_in6 res" where
  "networdAddress6 prefix_len a =
     bindE (edit6 (\<lambda>b. b AND CreateMask8 (prefix_len mod 8)) 0 prefix_len (sin6_addr a)) (\<lambda>bs. Inr (a\<lparr>sin6_addr := bs\<rparr>))"

definition subnetMask6 :: "nat \<Rightarrow> sockaddr_in6 res" where
  "subnetMask6 prefix_len =
     (let k = prefix_len div 8
      in if k \<ge> 16 then Inl OutOfBounds
         else Inr (newIPv6\<lparr>sin6_addr := replicate k 0xff @ [NOT (CreateMask8 (prefix_len mod 8))] @ replicate (16 - (k + 1)) 0\<rparr>))"

text \<open>The eight groups of an address, each two bytes in network order.\<close>

definition group6 :: "u8 list \<Rightarrow> nat \<Rightarrow> nat" where
  "group6 bs i = unat (bs ! (2 * i)) * 256 + unat (bs ! (2 * i + 1))"

fun hex :: "nat \<Rightarrow> string" where
  "hex n = (if n < 16 then [''0123456789abcdef'' ! n] else hex (n div 16) @ [''0123456789abcdef'' ! (n mod 16)])"

declare hex.simps [simp del]

fun insert6_loop :: "nat list \<Rightarrow> nat \<Rightarrow> nat \<Rightarrow> bool \<Rightarrow> string \<Rightarrow> bool \<times> string" where
  "insert6_loop gs 0 i used_zeros out = (used_zeros, out)"
| "insert6_loop gs (Suc n) i used_zeros out =
     (if gs ! i = 0 \<and> \<not> used_zeros then insert6_loop gs n (i + 1) used_zeros out
      else
        let compress = (i \<noteq> 0 \<and> gs ! (i - 1) = 0 \<and> \<not> used_zeros);
            out1 = (if compress then out @ '':'' else out);
            out2 = (if i \<noteq> 0 then out1 @ '':'' else out1)
        in insert6_loop gs n (i + 1) (used_zeros \<or> compress) (out2 @ hex (gs ! i)))"

definition insert6 :: "endian \<Rightarrow> sockaddr_in6 \<Rightarrow> string" where
  "insert6 host a =
     (let gs = map (group6 (sin6_addr a)) [0..<8];
          (used_zeros, out) = insert6_loop gs 8 0 False ''[''
      in (if \<not> used_zeros \<and> gs ! 7 = 0 then out @ ''::'' else out) @ '']:'' @ dec (unat (getPort6 host a)))"

section \<open>Unix and unknown addresses\<close>

definition newUnix :: sockaddr_un where
  "newUnix = \<lparr>sun_path = replicate sun_path_size (CHR 0x00), m_length = sun_path_offset + sun_path_size - 1\<rparr>"

definition newUnixPath :: "string \<Rightarrow> sockaddr_un res" where
  "newUnixPath path =
     (let len = (if path \<noteq> [] \<and> hd path = CHR 0x00 then length path else length path + 1)
      in if len > sun_path_size then Inl LogicError
         else Inr \<lparr>sun_path = take len (path @ [CHR 0x00]) @ replicate (sun_path_size - len) (CHR 0x00),
                   m_length = len + sun_path_offset\<rparr>)"

definition setAddrLen :: "nat \<Rightarrow> sockaddr_un \<Rightarrow> sockaddr_un" where
  "setAddrLen v a = a\<lparr>m_length := v\<rparr>"

definition getPath :: "sockaddr_un \<Rightarrow> string" where
  "getPath a =
     (if m_length a > sun_path_offset \<and> sun_path a ! 0 = CHR 0x00
      then [CHR 0x5C, CHR ''0''] @ take (m_length a - sun_path_offset - 1) (drop 1 (sun_path a))
      else c_str (sun_path a))"

definition insertUnknown :: "u16 \<Rightarrow> string" where
  "insertUnknown family = ''[UnknownAddress family='' @ dec (unat family) @ '']''"

definition addr_toString :: "endian \<Rightarrow> Address \<Rightarrow> string" where
  "addr_toString host a = (case a of
       IPv4Address s \<Rightarrow> insert4 host s
     | IPv6Address s \<Rightarrow> insert6 host s
     | UnixAddress s \<Rightarrow> getPath s
     | UnknownAddress f d \<Rightarrow> insertUnknown f)"

section \<open>Looking addresses up\<close>

text \<open>
  The splitting of \<^verbatim>\<open>host\<close> into node and service.  A service is the C string from the given place of \<^verbatim>\<open>host\<close>
  on; \<open>drop\<close> past the end gives the terminating zero, that is the empty string.
\<close>

definition split_bracket :: "string \<Rightarrow> string \<times> string option" where
  "split_bracket host =
     (if host \<noteq> [] \<and> hd host = CHR ''['' then
        (case find_char host (CHR '']'') 1 of
           None \<Rightarrow> ([], None)
         | Some e \<Rightarrow>
             (substr host 1 (Some (e - 1)),
              if e + 1 < length host \<and> host ! (e + 1) = CHR '':'' then Some (c_str (drop (e + 2) host)) else None))
      else ([], None))"

definition split_colon :: "string \<Rightarrow> string \<times> string option" where
  "split_colon host =
     (case find_char host (CHR '':'') 0 of
        None \<Rightarrow> ([], None)
      | Some i \<Rightarrow>
          if find_char host (CHR '':'') (i + 1) = None
          then (substr host 0 (Some i), Some (c_str (drop (i + 1) host)))
          else ([], Some (c_str (drop i host))))"

definition lookup_split :: "string \<Rightarrow> string \<times> string option" where
  "lookup_split host =
     (let (node, service) = split_bracket host;
          (node1, service1) = (if node = [] then split_colon host else (node, service))
      in (if node1 = [] then host else node1, service1))"

text \<open>\<open>gai\<close> is \<^verbatim>\<open>getaddrinfo\<close>: \<open>None\<close> an error, else the list of addresses.\<close>

type_synonym gai = "string \<Rightarrow> string option \<Rightarrow> sockaddr option list option"

definition Address_Lookup :: "gai \<Rightarrow> Address option list \<Rightarrow> string \<Rightarrow> bool \<times> Address option list" where
  "Address_Lookup gai result host =
     (let (node, service) = lookup_split host
      in case gai (c_str node) service of
           None \<Rightarrow> (False, result)
         | Some rs \<Rightarrow> (let result1 = result @ map Address_Create rs in (result1 \<noteq> [], result1)))"

definition LookupAny :: "gai \<Rightarrow> string \<Rightarrow> Address option" where
  "LookupAny gai host = (case Address_Lookup gai [] host of (True, a # _) \<Rightarrow> a | _ \<Rightarrow> None)"

fun is_ip :: "Address \<Rightarrow> bool" where
  "is_ip (IPv4Address a) = True"
| "is_ip (IPv6Address a) = True"
| "is_ip _ = False"

fun first_ip :: "Address option list \<Rightarrow> Address option" where
  "first_ip [] = None"
| "first_ip (None # as) = first_ip as"
| "first_ip (Some a # as) = (if is_ip a then Some a else first_ip as)"

definition LookupAnyIPAddress :: "gai \<Rightarrow> string \<Rightarrow> Address option" where
  "LookupAnyIPAddress gai host = (case Address_Lookup gai [] host of (True, as) \<Rightarrow> first_ip as | _ \<Rightarrow> None)"

definition setPort :: "endian \<Rightarrow> u16 \<Rightarrow> Address \<Rightarrow> Address" where
  "setPort host v a = (case a of IPv4Address s \<Rightarrow> IPv4Address (setPort4 host v s) | IPv6Address s \<Rightarrow> IPv6Address (setPort6 host v s) | _ \<Rightarrow> a)"

definition IPAddress_Create :: "endian \<Rightarrow> gai \<Rightarrow> string \<Rightarrow> u16 \<Rightarrow> Address option res" where
  "IPAddress_Create host gai address port =
     (case gai address None of
        None \<Rightarrow> Inr None
      | Some [] \<Rightarrow> Inl NullDeref
      | Some (r # _) \<Rightarrow>
          Inr (case Address_Create r of
                 None \<Rightarrow> None
               | Some a \<Rightarrow> if is_ip a then Some (setPort host port a) else None))"

section \<open>Interfaces\<close>

text \<open>An entry of \<^verbatim>\<open>getifaddrs\<close>: the name, the address and the netmask, which may both be null.\<close>

record ifaddr =
  ifa_name :: string
  ifa_addr :: "sockaddr option"
  ifa_netmask :: "sockaddr option"

fun sa_family :: "sockaddr \<Rightarrow> u16" where
  "sa_family (SaIn _) = AF_INET"
| "sa_family (SaIn6 _) = AF_INET6"
| "sa_family (SaOther f _) = f"

definition ifa_prefix :: "sockaddr \<Rightarrow> sockaddr option \<Rightarrow> u32 res" where
  "ifa_prefix addr netmask =
     (case (addr, netmask) of
        (SaIn _, Some (SaIn m)) \<Rightarrow> Inr (of_nat (CountBytes (sin_addr m)))
      | (SaIn6 _, Some (SaIn6 m)) \<Rightarrow> Inr (of_nat (sum_list (map CountBytes (sin6_addr m))))
      | (SaOther _ _, _) \<Rightarrow> Inr (NOT 0)
      | (_, None) \<Rightarrow> Inl NullDeref
      | _ \<Rightarrow> Inl Indeterminate)"

text \<open>A \<^verbatim>\<open>multimap\<close> by name: a new pair goes behind the pairs with an equal key.\<close>

fun multimap_insert :: "string \<Rightarrow> 'v \<Rightarrow> (string \<times> 'v) list \<Rightarrow> (string \<times> 'v) list" where
  "multimap_insert k v [] = [(k, v)]"
| "multimap_insert k v ((k', v') # m) =
     (if map byte_of k < map byte_of k' then (k, v) # (k', v') # m else (k', v') # multimap_insert k v m)"

fun GetInterfaceAddresses_loop :: "u16 \<Rightarrow> ifaddr list \<Rightarrow> (string \<times> Address \<times> u32) list \<Rightarrow> (string \<times> Address \<times> u32) list res" where
  "GetInterfaceAddresses_loop family [] result = Inr result"
| "GetInterfaceAddresses_loop family (next # ifs) result =
     (case ifa_addr next of
        None \<Rightarrow> Inl NullDeref
      | Some sa \<Rightarrow>
          if family \<noteq> AF_UNSPEC \<and> family \<noteq> sa_family sa then GetInterfaceAddresses_loop family ifs result
          else case sa of
                 SaOther _ _ \<Rightarrow> GetInterfaceAddresses_loop family ifs result
               | _ \<Rightarrow>
                   bindE (ifa_prefix sa (ifa_netmask next)) (\<lambda>prefix_len.
                     case Address_Create (Some sa) of
                       None \<Rightarrow> GetInterfaceAddresses_loop family ifs result
                     | Some addr \<Rightarrow>
                         GetInterfaceAddresses_loop family ifs (multimap_insert (ifa_name next) (addr, prefix_len) result)))"

definition GetInterfaceAddresses :: "u16 \<Rightarrow> ifaddr list option \<Rightarrow> (bool \<times> (string \<times> Address \<times> u32) list) res" where
  "GetInterfaceAddresses family ifs =
     (case ifs of
        None \<Rightarrow> Inr (False, [])
      | Some l \<Rightarrow> bindE (GetInterfaceAddresses_loop family l []) (\<lambda>r. Inr (r \<noteq> [], r)))"

definition GetInterfaceAddressesOf :: "endian \<Rightarrow> string \<Rightarrow> u16 \<Rightarrow> ifaddr list option \<Rightarrow> (bool \<times> (Address \<times> u32) list) res" where
  "GetInterfaceAddressesOf host iface family ifs =
     (if iface = [] \<or> iface = ''*'' then
        Inr (True,
          (if family = AF_INET \<or> family = AF_UNSPEC then [(IPv4Address (newIPv4 host 0 0), 0)] else []) @
          (if family = AF_INET6 \<or> family = AF_UNSPEC then [(IPv6Address newIPv6, 0)] else []))
      else bindE (GetInterfaceAddresses family ifs) (\<lambda>(found, results).
             if \<not> found then Inr (False, [])
             else let r = map snd (filter (\<lambda>p. fst p = iface) results) in Inr (r \<noteq> [], r)))"

section \<open>The order of addresses\<close>

definition addr_key :: "endian \<Rightarrow> Address \<Rightarrow> nat list" where
  "addr_key host a = map unat (take (getAddrLen a) (getAddr host a))"

lemma getAddr_length: "addr_ok a \<Longrightarrow> getAddrLen a \<le> length (getAddr host a)"
  by (cases a) (auto simp: addr_ok_def getAddrLen_def getAddr_def getFamily_def sun_path_offset_def)

lemma memcmp_zero: "length xs = length ys \<Longrightarrow> memcmp xs ys = 0 \<longleftrightarrow> xs = ys"
proof (induction xs ys rule: list_induct2)
  case (Cons x xs y ys)
  then show ?case by (auto simp: word_uint_eq_iff)
qed simp

lemma memcmp_less:
  "length xs = length ys \<Longrightarrow> memcmp xs ys < 0 \<longleftrightarrow> map unat xs < map unat ys"
proof (induction xs ys rule: list_induct2)
  case (Cons x xs y ys)
  have "uint x < uint y \<longleftrightarrow> unat x < unat y" by (simp only: uint_nat of_nat_less_iff)
  then show ?case using Cons by (auto simp: word_unat_eq_iff)
qed simp

lemma lex_take_less:
  fixes xs ys :: "'a::linorder list"
  assumes "n = min (length xs) (length ys)"
  shows "xs < ys \<longleftrightarrow> take n xs < take n ys \<or> take n xs = take n ys \<and> length xs < length ys"
  using assms
proof (induction xs arbitrary: ys n)
  case Nil
  then show ?case by (cases ys) auto
next
  case step: (Cons x xs)
  show ?case
  proof (cases ys)
    case (Cons y ys')
    then show ?thesis using step.prems step.IH [of "min (length xs) (length ys')" ys'] by auto
  qed (use step.prems in simp)
qed

lemma addr_less_key:
  assumes "addr_ok a" "addr_ok b"
  shows "addr_less host a b \<longleftrightarrow> addr_key host a < addr_key host b"
proof -
  define n where "n = min (getAddrLen a) (getAddrLen b)"
  have la: "length (addr_key host a) = getAddrLen a" "length (addr_key host b) = getAddrLen b"
    using getAddr_length [OF assms(1)] getAddr_length [OF assms(2)] by (simp_all add: addr_key_def min_absorb2)
  have t: "take n (addr_key host a) = map unat (take n (getAddr host a))"
    "take n (addr_key host b) = map unat (take n (getAddr host b))"
    by (simp_all add: addr_key_def n_def take_map min_absorb1)
  have "n \<le> length (getAddr host a)" "n \<le> length (getAddr host b)"
    using getAddr_length [OF assms(1), of host] getAddr_length [OF assms(2), of host] by (simp_all add: n_def)
  then have len: "length (take n (getAddr host a)) = length (take n (getAddr host b))" by simp
  have inj: "map unat xs = map unat ys \<longleftrightarrow> xs = ys" for xs ys :: "u8 list"
    by (rule inj_map_eq_map) simp
  show ?thesis
    using memcmp_less [OF len] memcmp_zero [OF len] la t
    unfolding lex_take_less [OF refl, of "addr_key host a"] inj
    by (auto simp: addr_less_def Let_def inj simp flip: n_def)
qed

lemma addr_eq_key:
  assumes "addr_ok a" "addr_ok b"
  shows "addr_eq host a b \<longleftrightarrow> addr_key host a = addr_key host b"
proof -
  have inj: "map unat xs = map unat ys \<longleftrightarrow> xs = ys" for xs ys :: "u8 list"
    by (rule inj_map_eq_map) simp
  have l: "getAddrLen a \<le> length (getAddr host a)" "getAddrLen b \<le> length (getAddr host b)"
    using getAddr_length assms by auto
  show ?thesis
  proof (cases "getAddrLen a = getAddrLen b")
    case True
    then have len: "length (take (getAddrLen a) (getAddr host a)) = length (take (getAddrLen a) (getAddr host b))"
      using l by simp
    show ?thesis using True memcmp_zero [OF len] by (simp add: addr_eq_def addr_key_def inj)
  next
    case False
    then have "length (addr_key host a) \<noteq> length (addr_key host b)" using l by (simp add: addr_key_def min_absorb2)
    then show ?thesis using False by (auto simp: addr_eq_def)
  qed
qed

interpretation addr_cmp: comparator "addr_less host" addr_ok for host
  by unfold_locales (auto simp: addr_less_key)

text \<open>
  \<^verbatim>\<open>operator<\<close> on addresses is a strict order that agrees with \<^verbatim>\<open>operator==\<close>: of two addresses of any
  kinds exactly one of less, greater and equal holds, so addresses can be the keys of a map.
\<close>

theorem address_order:
  assumes "addr_ok a" "addr_ok b" "addr_ok c"
  shows "(addr_eq host a b \<longleftrightarrow> \<not> addr_less host a b \<and> \<not> addr_less host b a) \<and>
    \<not> (addr_less host a b \<and> addr_less host b a) \<and>
    (addr_less host a b \<and> addr_less host b c \<longrightarrow> addr_less host a c)"
proof -
  have "addr_eq host a b \<longleftrightarrow> \<not> addr_less host a b \<and> \<not> addr_less host b a"
    using assms by (simp add: addr_less_key addr_eq_key) (metis neq_iff)
  then show ?thesis
    using addr_cmp.lt_asym [OF assms(1,2), of host] addr_cmp.lt_trans [OF assms, of host] by blast
qed

theorem address_order_witness:
  "addr_ok (IPv4Address (newIPv4 LITTLE_ENDIAN 1 80)) \<and> addr_ok (UnixAddress newUnix) \<and>
   (addr_eq LITTLE_ENDIAN (IPv4Address (newIPv4 LITTLE_ENDIAN 1 80)) (UnixAddress newUnix) \<longleftrightarrow>
     \<not> addr_less LITTLE_ENDIAN (IPv4Address (newIPv4 LITTLE_ENDIAN 1 80)) (UnixAddress newUnix) \<and>
     \<not> addr_less LITTLE_ENDIAN (UnixAddress newUnix) (IPv4Address (newIPv4 LITTLE_ENDIAN 1 80)))"
proof -
  have "addr_ok (IPv4Address (newIPv4 LITTLE_ENDIAN 1 80))" "addr_ok (UnixAddress newUnix)"
    by (simp_all add: addr_ok_def newIPv4_def newUnix_def sun_path_size_def sun_path_offset_def)
  then show ?thesis using address_order [of _ "UnixAddress newUnix" "UnixAddress newUnix" LITTLE_ENDIAN] by blast
qed

section \<open>Counting the bits of a mask\<close>

fun popcount :: "nat \<Rightarrow> nat" where
  "popcount n = (if n = 0 then 0 else n mod 2 + popcount (n div 2))"

declare popcount.simps [simp del]

lemma popcount_simps [simp]: "popcount 0 = 0" "popcount (2 * n) = popcount n" "popcount (Suc (2 * n)) = Suc (popcount n)"
  by (subst popcount.simps; simp)+

lemma and_minus_one:
  "0 < m \<Longrightarrow> 2 * m AND (2 * m - 1) = 2 * (m AND (m - 1))" "Suc (2 * m) AND (2 * m) = 2 * m" for m :: nat
proof -
  assume "0 < m"
  then have "2 * m - 1 = Suc (2 * (m - 1))" by simp
  then show "2 * m AND (2 * m - 1) = 2 * (m AND (m - 1))"
    by (simp add: and_nat_rec [of "2 * m"])
next
  show "Suc (2 * m) AND (2 * m) = 2 * m" by (simp add: and_nat_rec [of "Suc (2 * m)"])
qed

lemma popcount_and: "0 < n \<Longrightarrow> popcount n = Suc (popcount (n AND (n - 1)))"
proof (induction n rule: less_induct)
  case (less n)
  show ?case
  proof (cases "even n")
    case True
    then obtain m where m: "n = 2 * m" by blast
    then show ?thesis using less.prems less.IH [of m] and_minus_one(1) [of m] by simp
  next
    case False
    then obtain m where m: "n = Suc (2 * m)" by (metis oddE Suc_eq_plus1)
    then show ?thesis using and_minus_one(2) [of m] by simp
  qed
qed

lemma CountBytes_popcount: "CountBytes v = popcount (unat v)"
proof (induction v rule: CountBytes.induct)
  case (1 v)
  show ?case
  proof (cases "v = 0")
    case False
    then have "popcount (unat v) = Suc (popcount (unat v AND (unat v - 1)))" by (intro popcount_and) (simp add: unat_gt_0)
    also have "unat v AND (unat v - 1) = unat (v AND (v - 1))" using False by (simp add: unsigned_and_eq unat_minus_one)
    finally show ?thesis using 1 False by (simp add: CountBytes.simps [of v])
  qed (simp add: CountBytes.simps)
qed

section \<open>Masks in host order\<close>

lemma le_bytes_bitop:
  "le_bytes n (a OR b) = map2 (OR) (le_bytes n a) (le_bytes n b)"
  "le_bytes n (a AND b) = map2 (AND) (le_bytes n a) (le_bytes n b)"
  "le_bytes n (a XOR b) = map2 (XOR) (le_bytes n a) (le_bytes n b)"
proof (induction n arbitrary: a b)
  case (Suc n)
  case 1 show ?case using Suc(1) [of "drop_bit 8 a" "drop_bit 8 b"] by (simp add: unsigned_or_eq)
  case 2 show ?case using Suc(2) [of "drop_bit 8 a" "drop_bit 8 b"] by (simp add: unsigned_and_eq)
  case 3 show ?case using Suc(3) [of "drop_bit 8 a" "drop_bit 8 b"] by (simp add: unsigned_xor_eq)
qed simp_all

lemma byte_bits: "bit (ucast b :: 'a::len word) n \<Longrightarrow> n < 8" for b :: u8
  by (auto simp: bit_simps dest: bit_imp_le_length)

lemma from_le_bytes_bitop:
  assumes "length xs = length ys"
  shows "(from_le_bytes (map2 (OR) xs ys) :: 'a::len word) = from_le_bytes xs OR from_le_bytes ys"
    "(from_le_bytes (map2 (AND) xs ys) :: 'a::len word) = from_le_bytes xs AND from_le_bytes ys"
    "(from_le_bytes (map2 (XOR) xs ys) :: 'a::len word) = from_le_bytes xs XOR from_le_bytes ys"
  using assms
proof (induction xs ys rule: list_induct2)
  case (Cons x xs y ys)
  let ?X = "from_le_bytes xs :: 'a word" and ?Y = "from_le_bytes ys :: 'a word"
  case 1 show ?case using Cons(2) by (simp add: unsigned_or_eq push_bit_or ac_simps)
  case 2
  have "ucast (x AND y) OR push_bit 8 (?X AND ?Y) = (ucast x OR push_bit 8 ?X) AND (ucast y OR push_bit 8 ?Y)"
    by (rule bit_word_eqI) (auto simp: bit_simps dest: bit_imp_le_length)
  then show ?case using Cons(3) by simp
  case 3
  have "ucast (x XOR y) OR push_bit 8 (?X XOR ?Y) = (ucast x OR push_bit 8 ?X) XOR (ucast y OR push_bit 8 ?Y)"
    by (rule bit_word_eqI) (auto simp: bit_simps dest: bit_imp_le_length)
  then show ?case using Cons(4) by simp
qed simp_all

lemma rev_map2: "length xs = length ys \<Longrightarrow> rev (map2 f xs ys) = map2 f (rev xs) (rev ys)"
  by (simp add: rev_map zip_rev)

lemma swap_bitop:
  "byteswapOnLittleEndian host n (a OR b) = byteswapOnLittleEndian host n a OR byteswapOnLittleEndian host n b"
  "byteswapOnLittleEndian host n (a AND b) = byteswapOnLittleEndian host n a AND byteswapOnLittleEndian host n b"
  "byteswapOnLittleEndian host n (a XOR b) = byteswapOnLittleEndian host n a XOR byteswapOnLittleEndian host n b"
  by (simp_all add: byteswapOnLittleEndian_def byteswap_def le_bytes_bitop rev_map2 from_le_bytes_bitop)

lemma swap_swap [simp]:
  fixes w :: u32 and p :: u16
  shows "byteswapOnLittleEndian host 4 (byteswapOnLittleEndian host 4 w) = w"
    "byteswapOnLittleEndian host 2 (byteswapOnLittleEndian host 2 p) = p"
  by (simp_all add: byteswapOnLittleEndian_def)

lemma swap_not: "byteswapOnLittleEndian host 4 (NOT w) = NOT (byteswapOnLittleEndian host 4 w)" for w :: u32
proof -
  have "byteswap 4 (- 1 :: u32) = - 1" by code_simp
  then have ones: "byteswapOnLittleEndian host 4 (- 1 :: u32) = - 1" by (simp add: byteswapOnLittleEndian_def)
  have "NOT w = w XOR - 1" by simp
  then show ?thesis using swap_bitop(3) [of host 4 w "- 1"] ones by simp
qed

lemma bit_mask: "n \<le> 32 \<Longrightarrow> i < 32 \<Longrightarrow> bit (2 ^ n - 1 :: u32) i \<longleftrightarrow> i < n"
  by (simp add: mask_eq_exp_minus_1 [symmetric] bit_simps)

text \<open>
  C37: the subnet operations of an IPv4 address with a prefix of 2 to 32 bits, bit by bit in host order and on
  either host: the broadcast address has the host bits set, the subnet mask has exactly the prefix bits, but
  \<^verbatim>\<open>networdAddress\<close> keeps the host bits and clears the prefix, where the network address is the opposite.
\<close>

theorem ipv4_subnets:
  assumes "2 \<le> p" "p \<le> 32"
  shows "\<exists>b n m. broadcast4 host p a = Inr (Some b) \<and> networdAddress4 host p a = Inr (Some n) \<and> subnetMask4 host p = Inr m \<and>
    (\<forall>i<32. (bit (host_addr host b) i \<longleftrightarrow> bit (host_addr host a) i \<or> i < 32 - p) \<and>
       (bit (host_addr host n) i \<longleftrightarrow> bit (host_addr host a) i \<and> i < 32 - p) \<and>
       (bit (host_addr host m) i \<longleftrightarrow> 32 - p \<le> i))"
proof -
  define w :: u32 where "w = 2 ^ (32 - p) - 1"
  have bits: "bit w i \<longleftrightarrow> i < 32 - p" if "i < 32" for i using that assms by (simp add: w_def bit_mask)
  have mask: "CreateMask32 p = Inr w" using assms by (simp add: CreateMask32_def w_def)
  let ?s = "byteswapOnLittleEndian host 4"
  show ?thesis
  proof (intro exI conjI allI impI)
    show "broadcast4 host p a = Inr (Some (a\<lparr>sin_addr := sin_addr a OR ?s w\<rparr>))"
      "networdAddress4 host p a = Inr (Some (a\<lparr>sin_addr := sin_addr a AND ?s w\<rparr>))"
      "subnetMask4 host p = Inr \<lparr>sin_port = 0, sin_addr = NOT (?s w), sin_zero = replicate 8 0\<rparr>"
      using assms mask by (simp_all add: broadcast4_def networdAddress4_def subnetMask4_def)
  qed (use bits in \<open>auto simp: host_addr_def swap_bitop swap_not bit_simps\<close>)
qed

theorem ipv4_subnets_witness:
  "\<exists>n. networdAddress4 LITTLE_ENDIAN 24 (newIPv4 LITTLE_ENDIAN 0xC0A8012A 0) = Inr (Some n) \<and>
     \<not> bit (host_addr LITTLE_ENDIAN n) 31 \<and> bit (host_addr LITTLE_ENDIAN n) 1"
proof -
  have "bit (host_addr LITTLE_ENDIAN (newIPv4 LITTLE_ENDIAN 0xC0A8012A 0)) 1" by (simp add: host_addr_def newIPv4_def)
  then show ?thesis
    using ipv4_subnets [of 24 LITTLE_ENDIAN "newIPv4 LITTLE_ENDIAN 0xC0A8012A 0"] by fastforce
qed

section \<open>Unix paths\<close>

lemma c_str_append_zero: "c_str (s @ CHR 0x00 # t) = c_str s"
  by (induction s) (auto simp: c_str_def)

text \<open>
  A Unix address gives its path back: a path that fits is kept up to its first zero byte, an abstract
  name (a leading zero byte) is shown with \<^verbatim>\<open>\0\<close> for that byte, a longer one is refused with the exception.
  The empty path alone is shown as the abstract name without characters.
\<close>

theorem unix_path_roundtrip:
  "if path \<noteq> [] \<and> hd path = CHR 0x00 then
     (if length path \<le> sun_path_size then \<exists>a. newUnixPath path = Inr a \<and> addr_ok (UnixAddress a) \<and> getPath a = [CHR 0x5C, CHR ''0''] @ tl path
      else newUnixPath path = Inl LogicError)
   else
     (if length path < sun_path_size
      then \<exists>a. newUnixPath path = Inr a \<and> addr_ok (UnixAddress a) \<and> getPath a = (if path = [] then [CHR 0x5C, CHR ''0''] else c_str path)
      else newUnixPath path = Inl LogicError)"
proof (cases path)
  case Nil
  then show ?thesis by (simp add: newUnixPath_def getPath_def addr_ok_def sun_path_size_def sun_path_offset_def Let_def)
next
  case (Cons c cs)
  show ?thesis
  proof (cases "c = CHR 0x00")
    case True
    then show ?thesis using Cons
      by (auto simp: newUnixPath_def getPath_def addr_ok_def sun_path_offset_def Let_def)
  next
    case False
    have "c_str (path @ CHR 0x00 # zs) = c_str path" for zs by (rule c_str_append_zero)
    then show ?thesis using False Cons
      by (auto simp: newUnixPath_def getPath_def addr_ok_def sun_path_offset_def Let_def)
  qed
qed

section \<open>Node and service\<close>

lemma no_bracket: "hd n \<noteq> CHR ''['' \<Longrightarrow> n \<noteq> [] \<Longrightarrow> split_bracket (n @ t) = ([], None)"
  by (cases n) (auto simp: split_bracket_def)

lemma find_first: "c \<notin> set b \<Longrightarrow> find_char (b @ c # d) c 0 = Some (length b)"
  using find_char_append [of c b "[]" d] by simp

lemma find_nothing: "c \<notin> set b \<Longrightarrow> find_char b c 0 = None"
  using find_char_absent [of c b "[]"] by simp

lemma split_colon_one:
  assumes "CHR '':'' \<notin> set n" "CHR '':'' \<notin> set s"
  shows "split_colon (n @ CHR '':'' # s) = (n, Some (c_str s))"
proof -
  have "find_char ((n @ '':'') @ s) (CHR '':'') (length (n @ '':'')) = None" using assms(2) by (rule find_char_absent)
  then show ?thesis using find_first [OF assms(1), of s] by (simp add: split_colon_def substr_def)
qed

lemma split_colon_two:
  assumes "CHR '':'' \<notin> set n" "CHR '':'' \<notin> set s"
  shows "split_colon (n @ CHR '':'' # s @ CHR '':'' # t) = ([], Some (c_str (CHR '':'' # s @ CHR '':'' # t)))"
proof -
  have "find_char ((n @ '':'') @ s @ CHR '':'' # t) (CHR '':'') (length (n @ '':'')) = Some (length (n @ '':'') + length s)"
    using assms(2) by (rule find_char_append)
  then show ?thesis using find_first [OF assms(1), of "s @ CHR '':'' # t"] by (simp add: split_colon_def substr_def)
qed

lemma split_bracket_v6:
  assumes "CHR '']'' \<notin> set v6"
  shows "split_bracket (CHR ''['' # v6 @ CHR '']'' # t) =
    (v6, if t \<noteq> [] \<and> hd t = CHR '':'' then Some (c_str (tl t)) else None)"
proof -
  have "find_char (''['' @ v6 @ CHR '']'' # t) (CHR '']'') (length ''['') = Some (length ''['' + length v6)"
    using assms by (rule find_char_append)
  then show ?thesis by (cases t) (simp_all add: split_bracket_def substr_def nth_append)
qed

text \<open>
  How a host name is split: a name with one colon is a node and a service, a bracketed IPv6 address may be
  followed by a service, a name without a colon is a node alone; but an IPv6 address without brackets keeps a
  service that is its own text from the first colon on.
\<close>

theorem lookup_split_cases:
  assumes "CHR '':'' \<notin> set n" "CHR '':'' \<notin> set s" "n \<noteq> []" "hd n \<noteq> CHR ''[''" "CHR 0x00 \<notin> set s"
    and "CHR '']'' \<notin> set v6" "v6 \<noteq> []"
  shows "lookup_split n = (n, None) \<and>
    lookup_split (n @ '':'' @ s) = (n, Some s) \<and>
    lookup_split (''['' @ v6 @ '']:'' @ s) = (v6, Some s) \<and>
    lookup_split (''['' @ v6 @ '']'') = (v6, None) \<and>
    lookup_split (n @ '':'' @ s @ '':'' @ t) = (n @ '':'' @ s @ '':'' @ t, Some (c_str ('':'' @ s @ '':'' @ t)))"
proof -
  have s: "c_str s = s" using assms(5) by (auto simp: c_str_def)
  have n: "split_bracket n = ([], None)" "split_bracket (n @ CHR '':'' # u) = ([], None)" for u
    using no_bracket [OF assms(4,3), of "[]"] no_bracket [OF assms(4,3)] by simp_all
  have "lookup_split n = (n, None)"
    using n(1) find_nothing [OF assms(1)] by (simp add: lookup_split_def split_colon_def)
  moreover have "lookup_split (n @ '':'' @ s) = (n, Some s)"
    using n(2) split_colon_one [OF assms(1,2)] assms(3) s by (simp add: lookup_split_def)
  moreover have "lookup_split (''['' @ v6 @ '']:'' @ s) = (v6, Some s)" "lookup_split (''['' @ v6 @ '']'') = (v6, None)"
    using split_bracket_v6 [OF assms(6), of "CHR '':'' # s"] split_bracket_v6 [OF assms(6), of "[]"] assms(7) s
    by (simp_all add: lookup_split_def)
  moreover have "lookup_split (n @ '':'' @ s @ '':'' @ t) = (n @ '':'' @ s @ '':'' @ t, Some (c_str ('':'' @ s @ '':'' @ t)))"
    using n(2) split_colon_two [OF assms(1,2)] by (simp add: lookup_split_def)
  ultimately show ?thesis by blast
qed

theorem lookup_split_cases_witness:
  "lookup_split (''localhost'' @ '':'' @ ''80'') = (''localhost'', Some ''80'') \<and>
   lookup_split (''fe80'' @ '':'' @ [] @ '':'' @ ''1'') = (''fe80::1'', Some ''::1'')"
  using lookup_split_cases [of "''localhost''" "''80''" "''::1''" "[]"]
    lookup_split_cases [of "''fe80''" "[]" "''::1''" "''1''"]
  by (simp add: c_str_def)

end
