(* ===== verification/Socket.thy ===== *)
theory Socket
  imports Hook Address
begin

text \<open>
  Sockets (\<^verbatim>\<open>saturn/socket.cc\<close>) over the hooks: creation, binding, connecting, accepting, closing, the
  timeouts and the cached addresses.  What the kernel answers to a call (the descriptor of \<^verbatim>\<open>socket\<close>, the
  result of \<^verbatim>\<open>bind\<close>, the address of \<^verbatim>\<open>getsockname\<close>) is an argument; \<open>en\<close> is the hook flag of the thread.
\<close>

unbundle bit_operations_syntax

section \<open>State\<close>

definition SOCK_STREAM :: int where "SOCK_STREAM = 1"
definition SOCK_DGRAM :: int where "SOCK_DGRAM = 2"

record sock =
  m_sock :: int
  m_family :: u16
  m_type :: int
  m_protocol :: int
  m_isConnected :: bool
  m_localAddress :: "Address option"
  m_remoteAddress :: "Address option"

definition newSocket :: "u16 \<Rightarrow> int \<Rightarrow> int \<Rightarrow> sock" where
  "newSocket family type protocol =
     \<lparr>m_sock = - 1, m_family = family, m_type = type, m_protocol = protocol, m_isConnected = False,
      m_localAddress = None, m_remoteAddress = None\<rparr>"

definition isValid :: "sock \<Rightarrow> bool" where
  "isValid sk \<longleftrightarrow> m_sock sk \<noteq> - 1"

definition isConnected :: "sock \<Rightarrow> bool" where
  "isConnected sk \<longleftrightarrow> m_isConnected sk"

text \<open>The options \<^verbatim>\<open>initSock\<close> sets (level, name, value); they do not concern the hooks.\<close>

definition initSock :: "sock \<Rightarrow> (int \<times> int \<times> int) list" where
  "initSock sk = (1, 2, 1) # (if m_type sk = SOCK_STREAM then [(6, 1, 1)] else [])"

text \<open>\<^verbatim>\<open>newSock\<close>: \<open>fd\<close> is the descriptor the kernel gives.\<close>

definition newSock :: "bool \<Rightarrow> int \<Rightarrow> hooksys \<times> sock \<Rightarrow> (hooksys \<times> sock) option" where
  "newSock en fd st =
     (let (s, sk) = st in map_option (\<lambda>(fd', s'). (s', sk\<lparr>m_sock := fd'\<rparr>)) (hook_socket en fd s))"

definition CreateTCP :: "Address \<Rightarrow> sock" where
  "CreateTCP address = newSocket (getFamily address) SOCK_STREAM 0"

definition new_udp :: "bool \<Rightarrow> int \<Rightarrow> u16 \<Rightarrow> hooksys \<Rightarrow> (hooksys \<times> sock) option" where
  "new_udp en fd family s =
     map_option (\<lambda>(s', sk). (s', sk\<lparr>m_isConnected := True\<rparr>)) (newSock en fd (s, newSocket family SOCK_DGRAM 0))"

definition CreateUDP :: "bool \<Rightarrow> int \<Rightarrow> Address \<Rightarrow> hooksys \<Rightarrow> (hooksys \<times> sock) option" where
  "CreateUDP en fd address s = new_udp en fd (getFamily address) s"

definition CreateTCPSocket :: sock where
  "CreateTCPSocket = newSocket AF_INET SOCK_STREAM 0"

definition CreateUDPSocket :: "bool \<Rightarrow> int \<Rightarrow> hooksys \<Rightarrow> (hooksys \<times> sock) option" where
  "CreateUDPSocket en fd s = new_udp en fd AF_INET s"

definition CreateTCPSocket6 :: sock where
  "CreateTCPSocket6 = newSocket AF_INET6 SOCK_STREAM 0"

definition CreateUDPSocket6 :: "bool \<Rightarrow> int \<Rightarrow> hooksys \<Rightarrow> (hooksys \<times> sock) option" where
  "CreateUDPSocket6 en fd s = new_udp en fd AF_INET6 s"

definition CreateUnixTCPSocket :: sock where
  "CreateUnixTCPSocket = newSocket AF_UNIX SOCK_STREAM 0"

definition CreateUnixUDPSocket :: sock where
  "CreateUnixUDPSocket = newSocket AF_UNIX SOCK_DGRAM 0"

section \<open>Timeouts\<close>

definition to_int32 :: "int \<Rightarrow> int" where
  "to_int32 v = sint (word_of_int v :: u32)"

definition timeval_of :: "int \<Rightarrow> int \<times> int" where
  "timeval_of v = (to_int32 (v sdiv 1000), to_int32 (v sdiv 1000 * 1000))"

definition getTimeoutOf :: "int \<Rightarrow> hooksys \<Rightarrow> sock \<Rightarrow> int" where
  "getTimeoutOf opt s sk = (case lookup (m_sock sk) s of Some ctx \<Rightarrow> sint (getTimeout opt ctx) | None \<Rightarrow> - 1)"

definition getSendTimeout :: "hooksys \<Rightarrow> sock \<Rightarrow> int" where
  "getSendTimeout s sk = getTimeoutOf SO_SNDTIMEO s sk"

definition getRecvTimeout :: "hooksys \<Rightarrow> sock \<Rightarrow> int" where
  "getRecvTimeout s sk = getTimeoutOf SO_RCVTIMEO s sk"

definition setSendTimeOut :: "bool \<Rightarrow> int \<Rightarrow> sock \<Rightarrow> hooksys \<Rightarrow> hooksys" where
  "setSendTimeOut en v sk s = setsockopt_timeo en (m_sock sk) SO_RCVTIMEO (timeval_of v) s"

definition setRecvTimeout :: "bool \<Rightarrow> int \<Rightarrow> sock \<Rightarrow> hooksys \<Rightarrow> hooksys" where
  "setRecvTimeout en v sk s = setsockopt_timeo en (m_sock sk) SO_RCVTIMEO (timeval_of v) s"

section \<open>Addresses\<close>

text \<open>
  The answer of \<^verbatim>\<open>getpeername\<close> or \<^verbatim>\<open>getsockname\<close>: \<open>None\<close> an error, else what the kernel writes into the fresh
  object of the socket's family, and the length it reports.
\<close>

type_synonym name_answer = "((Address \<Rightarrow> Address) \<times> nat) option"

definition unknown_of :: "u16 \<Rightarrow> Address" where
  "unknown_of family = UnknownAddress family (replicate 14 0)"

definition fresh_of :: "endian \<Rightarrow> u16 \<Rightarrow> Address" where
  "fresh_of host family =
     (if family = AF_INET then IPv4Address (newIPv4 host 0 0)
      else if family = AF_INET6 then IPv6Address newIPv6
      else if family = AF_UNIX then UnixAddress newUnix
      else unknown_of family)"

definition name_of :: "endian \<Rightarrow> u16 \<Rightarrow> name_answer \<Rightarrow> Address option" where
  "name_of host family ans =
     map_option (\<lambda>(store, addrlen).
       case store (fresh_of host family) of
         UnixAddress u \<Rightarrow> UnixAddress (if family = AF_UNIX then setAddrLen addrlen u else u)
       | a \<Rightarrow> a) ans"

definition getRemoteAddress :: "endian \<Rightarrow> name_answer \<Rightarrow> sock \<Rightarrow> Address \<times> sock" where
  "getRemoteAddress host ans sk =
     (case m_remoteAddress sk of
        Some a \<Rightarrow> (a, sk)
      | None \<Rightarrow> (case name_of host (m_family sk) ans of
                   None \<Rightarrow> (unknown_of (m_family sk), sk)
                 | Some a \<Rightarrow> (a, sk\<lparr>m_remoteAddress := Some a\<rparr>)))"

definition getLocalAddress :: "endian \<Rightarrow> name_answer \<Rightarrow> sock \<Rightarrow> Address \<times> sock" where
  "getLocalAddress host ans sk =
     (case m_localAddress sk of
        Some a \<Rightarrow> (a, sk)
      | None \<Rightarrow> (case name_of host (m_family sk) ans of
                   None \<Rightarrow> (unknown_of (m_family sk), sk)
                 | Some a \<Rightarrow> (a, sk\<lparr>m_localAddress := Some a\<rparr>)))"

definition sock_dump :: "endian \<Rightarrow> sock \<Rightarrow> string" where
  "sock_dump host sk =
     ''[Socket sock='' @ dec_int (m_sock sk) @ '' is_connected='' @ dec (if m_isConnected sk then 1 else 0) @
     '' family='' @ dec (unat (m_family sk)) @ '' type='' @ dec_int (m_type sk) @ '' protocol='' @ dec_int (m_protocol sk) @
     (case m_localAddress sk of Some a \<Rightarrow> '' local_address='' @ addr_toString host a | None \<Rightarrow> []) @
     (case m_remoteAddress sk of Some a \<Rightarrow> '' remote_address='' @ addr_toString host a | None \<Rightarrow> []) @ '']''"

section \<open>Operations\<close>

definition sock_close :: "bool \<Rightarrow> bool \<Rightarrow> hooksys \<times> sock \<Rightarrow> (bool \<times> hooksys \<times> sock) res" where
  "sock_close en ok st =
     (let (s, sk) = st in
      if \<not> m_isConnected sk \<and> m_sock sk = - 1 then Inr (True, s, sk)
      else if m_sock sk \<noteq> - 1 then
        bindE (hook_close en ok (nat (m_sock sk)) s) (\<lambda>s1. Inr (False, s1, sk\<lparr>m_isConnected := False, m_sock := - 1\<rparr>))
      else Inr (False, s, sk\<lparr>m_isConnected := False\<rparr>))"

definition sock_init :: "endian \<Rightarrow> int \<Rightarrow> name_answer \<Rightarrow> name_answer \<Rightarrow> hooksys \<Rightarrow> sock \<Rightarrow> bool \<times> sock" where
  "sock_init host fd local remote s sk =
     (case lookup fd s of
        None \<Rightarrow> (False, sk)
      | Some ctx \<Rightarrow>
          if m_isSocket ctx \<and> \<not> m_isClosed ctx then
            let sk1 = sk\<lparr>m_sock := fd, m_isConnected := True\<rparr>;
                sk2 = snd (getLocalAddress host local sk1)
            in (True, snd (getRemoteAddress host remote sk2))
          else (False, sk))"

text \<open>\<open>newsock\<close> is what the hooked \<^verbatim>\<open>accept\<close> returned, in state \<open>s\<close>.\<close>

definition sock_accept :: "endian \<Rightarrow> int \<Rightarrow> name_answer \<Rightarrow> name_answer \<Rightarrow> hooksys \<Rightarrow> sock \<Rightarrow> sock option" where
  "sock_accept host newsock local remote s sk =
     (let client = newSocket (m_family sk) (m_type sk) (m_protocol sk)
      in if newsock = - 1 then None
         else case sock_init host newsock local remote s client of (True, c) \<Rightarrow> Some c | (False, _) \<Rightarrow> None)"

definition ensureSock :: "bool \<Rightarrow> int \<Rightarrow> hooksys \<times> sock \<Rightarrow> (hooksys \<times> sock) option" where
  "ensureSock en fd st = (if isValid (snd st) then Some st else newSock en fd st)"

definition sock_bind :: "endian \<Rightarrow> bool \<Rightarrow> int \<Rightarrow> int \<Rightarrow> name_answer \<Rightarrow> Address \<Rightarrow> hooksys \<times> sock \<Rightarrow> (bool \<times> hooksys \<times> sock) option" where
  "sock_bind host en fd rc local addr st =
     map_option (\<lambda>(s, sk).
       if \<not> isValid sk then (False, s, sk)
       else if getFamily addr \<noteq> m_family sk then (False, s, sk)
       else if rc \<noteq> 0 then (False, s, sk)
       else (True, s, snd (getLocalAddress host local sk))) (ensureSock en fd st)"

text \<open>\<open>rc\<close> is the result of the hooked connect; with a timeout of -1 that is the plain hook, with 5 seconds.\<close>

definition sock_connect :: "endian \<Rightarrow> bool \<Rightarrow> bool \<Rightarrow> int \<Rightarrow> int \<Rightarrow> name_answer \<Rightarrow> Address \<Rightarrow> hooksys \<times> sock \<Rightarrow>
    (bool \<times> hooksys \<times> sock) res option" where
  "sock_connect host en ok fd rc local addr st =
     map_option (\<lambda>(s, sk).
       if \<not> isValid sk then Inr (False, s, sk)
       else if getFamily addr \<noteq> m_family sk then Inr (False, s, sk)
       else if rc \<noteq> 0 then bindE (sock_close en ok (s, sk)) (\<lambda>(_, st1). Inr (False, st1))
       else Inr (True, s, snd (getLocalAddress host local (snd (getRemoteAddress host None (sk\<lparr>m_isConnected := True\<rparr>))))))
     (ensureSock en fd (fst st, (snd st)\<lparr>m_remoteAddress := Some addr\<rparr>))"

definition connect_timeout :: "u64 \<Rightarrow> u64" where
  "connect_timeout timeout_ms = (if timeout_ms = - 1 then 5000 else timeout_ms)"

definition sock_listen :: "int \<Rightarrow> sock \<Rightarrow> bool" where
  "sock_listen rc sk \<longleftrightarrow> isValid sk \<and> rc = 0"

text \<open>
  \<^verbatim>\<open>send\<close>, \<^verbatim>\<open>sendTo\<close>, \<^verbatim>\<open>recv\<close> and \<^verbatim>\<open>recvFrom\<close>, on one buffer or on a vector of buffers: the hook each calls
  when the socket is connected; otherwise -1, and \<^verbatim>\<open>errno\<close> is left alone.
\<close>

datatype sock_op = SendBuf | SendIov | SendToBuf | SendToIov | RecvBuf | RecvIov | RecvFromBuf | RecvFromIov

definition sock_op_hook :: "sock_op \<Rightarrow> io_fun" where
  "sock_op_hook p = (case p of
       SendBuf \<Rightarrow> send_f | SendIov \<Rightarrow> sendmsg_f | SendToBuf \<Rightarrow> sendto_f | SendToIov \<Rightarrow> sendmsg_f
     | RecvBuf \<Rightarrow> recv_f | RecvIov \<Rightarrow> recvmsg_f | RecvFromBuf \<Rightarrow> recvfrom_f | RecvFromIov \<Rightarrow> recvmsg_f)"

definition sock_io :: "bool \<Rightarrow> sock_op \<Rightarrow> nat \<Rightarrow> int \<Rightarrow> sock \<Rightarrow> hooksys \<Rightarrow> io_next \<times> hooksys" where
  "sock_io en p t errno sk s =
     (if isConnected sk then hook_io en (sock_op_hook p) (m_sock sk) t s else (Return (- 1) errno, s))"

definition cancelRead :: "bool \<Rightarrow> sock \<Rightarrow> hooksys \<Rightarrow> (bool \<times> (nat, hcb) iomanager) res" where
  "cancelRead ok sk s = cancelEvent ok (nat (m_sock sk)) READ (h_iom s)"

definition cancelWrite :: "bool \<Rightarrow> sock \<Rightarrow> hooksys \<Rightarrow> (bool \<times> (nat, hcb) iomanager) res" where
  "cancelWrite ok sk s = cancelEvent ok (nat (m_sock sk)) WRITE (h_iom s)"

definition cancelAccept :: "bool \<Rightarrow> sock \<Rightarrow> hooksys \<Rightarrow> (bool \<times> (nat, hcb) iomanager) res" where
  "cancelAccept ok sk s = cancelEvent ok (nat (m_sock sk)) READ (h_iom s)"

definition sock_cancelAll :: "bool \<Rightarrow> sock \<Rightarrow> hooksys \<Rightarrow> (bool \<times> (nat, hcb) iomanager) res" where
  "sock_cancelAll ok sk s = cancelAll ok (nat (m_sock sk)) (h_iom s)"

definition sock_getError :: "bool \<times> int \<Rightarrow> int" where
  "sock_getError opt = (if \<not> fst opt then - 1 else snd opt)"

section \<open>Closing\<close>

text \<open>A socket that owns a descriptor has a context for it.\<close>

definition sock_ok :: "hooksys \<Rightarrow> sock \<Rightarrow> bool" where
  "sock_ok s sk \<longleftrightarrow> iom_inv (h_iom s) \<and> fdm_inv (h_fdm s) \<and> (m_sock sk = - 1 \<or> 0 \<le> m_sock sk)"

lemma cancelAll_succeeds:
  assumes "iom_inv m" "fd < length (m_fdContexts m)" "fc_events (m_fdContexts m ! fd) \<noteq> 0"
    "cancelAll True fd m = Inr (b, m')"
  shows b
proof -
  have "epoll m fd \<noteq> None" using iom_invD(2) [OF assms(1,2)] assms(3) by simp
  then show ?thesis using assms(2-4) by (auto simp: cancelAll_def epoll_ctl_def Let_def err_simps split: if_splits)
qed

lemma hook_close_ok:
  assumes "iom_inv (h_iom s)" "fdm_inv (h_fdm s)"
  shows "\<exists>s1. hook_close True True fd s = Inr s1 \<and> iom_inv (h_iom s1) \<and> fdm_inv (h_fdm s1) \<and> fdm_find (h_fdm s1) fd = None \<and>
    (let fcs = m_fdContexts (h_iom s)
     in fdm_find (h_fdm s) fd \<noteq> None \<and> fd < length fcs \<and> fc_events (fcs ! fd) \<noteq> 0 \<longrightarrow>
        m_fibers (iom_sch (h_iom s1)) = m_fibers (iom_sch (h_iom s)) @ fc_tasks (fc_events (fcs ! fd)) (fcs ! fd))"
proof (cases "fdm_find (h_fdm s) fd")
  case None
  then show ?thesis using assms by (simp add: hook_close_def)
next
  case (Some c)
  let ?fcs = "m_fdContexts (h_iom s)"
  obtain b m where m: "cancelAll True fd (h_iom s) = Inr (b, m)" "iom_inv m"
    "b \<longrightarrow> m_fibers (iom_sch m) = m_fibers (iom_sch (h_iom s)) @ fc_tasks (fc_events (?fcs ! fd)) (?fcs ! fd)"
    using cancelAll_ok [OF assms(1), of True fd] by auto
  have "fd < length ?fcs \<and> fc_events (?fcs ! fd) \<noteq> 0 \<longrightarrow> b" using cancelAll_succeeds [OF assms(1) _ _ m(1)] by blast
  then show ?thesis
    using m Some fdt.find_del [of fd "h_fdm s" fd] fdt.inv_del [OF assms(2), of "int fd"] by (simp add: hook_close_def Let_def)
qed

lemma sock_close_ok:
  assumes "sock_ok s sk"
  shows "\<exists>r s' sk'. sock_close True True (s, sk) = Inr (r, s', sk') \<and> sock_ok s' sk' \<and> \<not> isConnected sk' \<and> \<not> isValid sk'"
proof (cases "m_sock sk = - 1")
  case True
  then show ?thesis using assms by (auto simp: sock_close_def sock_ok_def isConnected_def isValid_def)
next
  case False
  obtain fd where fd: "m_sock sk = int fd" using assms False by (auto simp: sock_ok_def intro: nonneg_int_cases)
  then show ?thesis using hook_close_ok [of s fd] assms by (auto simp: sock_close_def sock_ok_def isConnected_def isValid_def)
qed



section \<open>The timeouts a socket sets\<close>

lemma sdiv_nonneg: "0 \<le> a \<Longrightarrow> 0 < b \<Longrightarrow> a sdiv b = a div b" for a b :: int
  by (cases "a = 0") (auto simp: signed_divide_int_def)

lemma timeval_of_small: "0 \<le> v \<Longrightarrow> v < 2 ^ 31 \<Longrightarrow> timeval_of v = (v div 1000, v div 1000 * 1000)"
proof -
  assume v: "0 \<le> v" "v < 2 ^ 31"
  have sd: "v sdiv 1000 = v div 1000" using v by (simp add: sdiv_nonneg)
  have "0 \<le> v div 1000 * 1000" "v div 1000 * 1000 < 2 ^ 31" "0 \<le> v div 1000" "v div 1000 < 2 ^ 31" using v by auto
  moreover have "to_int32 x = x" if "0 \<le> x" "x < 2 ^ 31" for x
    using that by (simp add: to_int32_def signed_take_bit_int_eq_self signed_of_int)
  ultimately show "timeval_of v = (v div 1000, v div 1000 * 1000)" by (simp add: timeval_of_def sd)
qed

text \<open>
  The timeout a socket sets is not the one asked for: the microseconds are computed from the whole
  seconds, so a timeout of \<open>v\<close> milliseconds becomes that of the whole seconds plus a thousandth of it, and a
  part of a second is lost; and \<^verbatim>\<open>setSendTimeOut\<close> sets the timeout of receiving and leaves that of sending.
\<close>

theorem socket_timeouts:
  assumes "fdm_find (h_fdm s) fd = Some c" "m_sock sk = int fd" "0 \<le> v" "v < 2 ^ 31"
  shows "getRecvTimeout (setRecvTimeout True v sk s) sk = v div 1000 * 1000 + v div 1000 \<and>
    getRecvTimeout (setSendTimeOut True v sk s) sk = v div 1000 * 1000 + v div 1000 \<and>
    getSendTimeout (setSendTimeOut True v sk s) sk = getSendTimeout s sk"
proof -
  define t where "t = v div 1000 * 1000 + v div 1000"
  have t: "0 \<le> t" "t < 2 ^ 63" using assms(3,4) by (auto simp: t_def)
  have "(v div 1000 * 1000) sdiv 1000 = v div 1000" using assms(3) by (simp add: sdiv_nonneg)
  then have tv: "setsockopt_timeo True (int fd) SO_RCVTIMEO (timeval_of v) s =
      s\<lparr>h_fdm := fdm_set fd (setTimeout SO_RCVTIMEO (word_of_int t) c) (h_fdm s)\<rparr>"
    using assms(1) timeval_of_small [OF assms(3,4)] by (simp add: setsockopt_timeo_def t_def)
  have ne: "SO_SNDTIMEO \<noteq> SO_RCVTIMEO" by (simp add: SO_RCVTIMEO_def SO_SNDTIMEO_def)
  have "sint (word_of_int t :: u64) = t" using t by (simp add: signed_take_bit_int_eq_self signed_of_int)
  then show ?thesis
    using assms(1,2) fdt.find_set [OF assms(1), of "setTimeout SO_RCVTIMEO (word_of_int t) c" fd]
    by (simp add: setRecvTimeout_def setSendTimeOut_def getRecvTimeout_def getSendTimeout_def getTimeoutOf_def tv
        setTimeout_def getTimeout_def ne flip: t_def)
qed

theorem socket_timeouts_witness:
  "\<exists>s sk. getRecvTimeout (setRecvTimeout True 1500 sk s) sk = 1001"
proof -
  obtain s :: hooksys and c where "fdm_find (h_fdm s) 5 = Some c" using demo_registered by blast
  then show ?thesis
    using socket_timeouts [of s 5 c "(newSocket AF_INET SOCK_STREAM 0)\<lparr>m_sock := 5\<rparr>" 1500] by auto
qed

end
