(* ===== verification/SocketStream.thy ===== *)
theory SocketStream
  imports Stream Socket
begin

text \<open>
  Streams over sockets (\<^verbatim>\<open>saturn/stream/socketstream.cc\<close>).  The kernel's receive and send on the socket are
  parameters: \<open>recv n k\<close> offers room for \<open>n\<close> bytes and gives the value returned, the bytes stored and the next
  state; \<open>send bs k\<close> offers bytes.  The locales \<open>kernel_recv\<close> and \<open>kernel_send\<close> state what their documentation
  promises of a stream socket; through them the streams meet the contracts of \<open>Stream\<close>.
\<close>

section \<open>State and operations\<close>

record socket_stream =
  m_socket :: "sock option"
  m_owner :: bool

definition newSocketStream :: "sock option \<Rightarrow> bool \<Rightarrow> socket_stream" where
  "newSocketStream sk owner = \<lparr>m_socket = sk, m_owner = owner\<rparr>"

definition ss_isConnected :: "socket_stream \<Rightarrow> bool" where
  "ss_isConnected st = (case m_socket st of None \<Rightarrow> False | Some sk \<Rightarrow> isConnected sk)"

text \<open>The results are \<^verbatim>\<open>ssize_t\<close>, returned as \<^verbatim>\<open>int\<close>.\<close>

definition ss_read :: "('b, 'k) reader \<Rightarrow> socket_stream \<Rightarrow> ('b, 'k) reader" where
  "ss_read recv st n k =
     (if \<not> ss_isConnected st then (- 1, [], k)
      else case recv n k of (rt, bs, k') \<Rightarrow> (to_int32 rt, bs, k'))"

definition ss_write :: "('b, 'k) writer \<Rightarrow> socket_stream \<Rightarrow> ('b, 'k) writer" where
  "ss_write send st bs k =
     (if \<not> ss_isConnected st then (- 1, k) else case send bs k of (rt, k') \<Rightarrow> (to_int32 rt, k'))"

definition ss_readBa :: "(u8, 'k) reader \<Rightarrow> socket_stream \<Rightarrow> 'k ba_reader" where
  "ss_readBa recv st n bk =
     (let (ba, k) = bk in
      if \<not> ss_isConnected st then Inr (- 1, ba, k)
      else bindE (getWriteBuffers [] n ba) (\<lambda>(_, iovs, ba1).
             let (rt, bs, k') = recv (sum_list (map iov_len iovs)) k;
                 rt' = to_int32 rt;
                 ba2 = scatter iovs (map Some bs) ba1
             in if rt' > 0 then bindE (setPosition (m_position ba2 + nat rt') ba2) (\<lambda>ba3. Inr (rt', ba3, k'))
                else Inr (rt', ba2, k')))"

definition ss_writeBa :: "(cell, 'k) writer \<Rightarrow> socket_stream \<Rightarrow> 'k ba_reader" where
  "ss_writeBa send st n bk =
     (let (ba, k) = bk in
      if \<not> ss_isConnected st then Inr (- 1, ba, k)
      else bindE (getReadBuffers [] n ba) (\<lambda>(_, iovs).
             let (rt, k') = send (gather ba iovs) k;
                 rt' = to_int32 rt
             in if rt' > 0 then bindE (setPosition (m_position ba + nat rt') ba) (\<lambda>ba1. Inr (rt', ba1, k'))
                else Inr (rt', ba, k')))"

definition ss_close :: "bool \<Rightarrow> bool \<Rightarrow> hooksys \<times> socket_stream \<Rightarrow> (hooksys \<times> socket_stream) res" where
  "ss_close en ok hs =
     (let (s, st) = hs in
      case m_socket st of
        None \<Rightarrow> Inr (s, st)
      | Some sk \<Rightarrow> bindE (sock_close en ok (s, sk)) (\<lambda>(_, s', sk'). Inr (s', st\<lparr>m_socket := Some sk'\<rparr>)))"

definition ss_destroy :: "bool \<Rightarrow> bool \<Rightarrow> hooksys \<times> socket_stream \<Rightarrow> (hooksys \<times> socket_stream) res" where
  "ss_destroy en ok hs = (if m_owner (snd hs) then ss_close en ok hs else Inr hs)"

definition ss_getRemoteAddress :: "endian \<Rightarrow> name_answer \<Rightarrow> socket_stream \<Rightarrow> Address option \<times> socket_stream" where
  "ss_getRemoteAddress host ans st =
     (case m_socket st of
        None \<Rightarrow> (None, st)
      | Some sk \<Rightarrow> (case getRemoteAddress host ans sk of (a, sk') \<Rightarrow> (Some a, st\<lparr>m_socket := Some sk'\<rparr>)))"

definition ss_getLocalAddress :: "endian \<Rightarrow> name_answer \<Rightarrow> socket_stream \<Rightarrow> Address option \<times> socket_stream" where
  "ss_getLocalAddress host ans st =
     (case m_socket st of
        None \<Rightarrow> (None, st)
      | Some sk \<Rightarrow> (case getLocalAddress host ans sk of (a, sk') \<Rightarrow> (Some a, st\<lparr>m_socket := Some sk'\<rparr>)))"

definition ss_getRemoteAddressString :: "endian \<Rightarrow> name_answer \<Rightarrow> socket_stream \<Rightarrow> string \<times> socket_stream" where
  "ss_getRemoteAddressString host ans st =
     (case ss_getRemoteAddress host ans st of
        (Some a, st') \<Rightarrow> (addr_toString host a, st') | (None, st') \<Rightarrow> ([], st'))"

definition ss_getLocalAddressString :: "endian \<Rightarrow> name_answer \<Rightarrow> socket_stream \<Rightarrow> string \<times> socket_stream" where
  "ss_getLocalAddressString host ans st =
     (case ss_getLocalAddress host ans st of
        (Some a, st') \<Rightarrow> (addr_toString host a, st') | (None, st') \<Rightarrow> ([], st'))"

section \<open>The kernel's stream sockets\<close>

text \<open>
  A positive result is the number of bytes stored, the next ones of the stream and no more than asked; zero
  (end of the stream) and -1 (an error) store nothing.  The kernel limits one call to \<open>0x7ffff000\<close> bytes, so
  that a result fits an \<^verbatim>\<open>int\<close>.
\<close>

definition fits_int :: "int \<Rightarrow> bool" where
  "fits_int r \<longleftrightarrow> - 1 \<le> r \<and> r \<le> 0x7ffff000"

locale kernel_recv =
  fixes recv :: "('b, 'k) reader" and input :: "'k \<Rightarrow> 'b list"
  assumes recv_fits: "recv n k = (rt, bs, k') \<Longrightarrow> fits_int rt"
    and recv_count: "recv n k = (rt, bs, k') \<Longrightarrow> length bs = nat rt \<and> length bs \<le> n"
    and recv_next: "recv n k = (rt, bs, k') \<Longrightarrow> input k = bs @ input k'"

locale kernel_send =
  fixes send :: "('b, 'k) writer" and sent :: "'k \<Rightarrow> 'b list"
  assumes send_fits: "send bs k = (rt, k') \<Longrightarrow> fits_int rt"
    and send_next: "send bs k = (rt, k') \<Longrightarrow> nat rt \<le> length bs \<and> sent k' = sent k @ take (nat rt) bs"

lemma to_int32_fits: "fits_int r \<Longrightarrow> to_int32 r = r"
  by (simp add: fits_int_def to_int32_def signed_of_int signed_take_bit_int_eq_self)

sublocale kernel_recv \<subseteq> src: byte_source "ss_read recv st" input for st
proof
  fix n s len bs s' assume r: "ss_read recv st n s = (len, bs, s')"
  show "length bs = nat len \<and> length bs \<le> n \<and> input s = bs @ input s'" if "0 < len"
    using r that recv_count [of n s] recv_next [of n s] to_int32_fits [OF recv_fits, of n s]
    by (auto simp: ss_read_def split: if_splits prod.splits)
  show "input s' = input s" if "len \<le> 0"
    using r that recv_count [of n s] recv_next [of n s] to_int32_fits [OF recv_fits, of n s]
    by (auto simp: ss_read_def split: if_splits prod.splits)
qed

sublocale kernel_send \<subseteq> snk: byte_sink "ss_write send st" sent for st
proof
  fix bs s len s' assume r: "ss_write send st bs s = (len, s')"
  show "nat len \<le> length bs \<and> sent s' = sent s @ take (nat len) bs" if "0 < len"
    using r that send_next [of bs s] to_int32_fits [OF send_fits, of bs s]
    by (auto simp: ss_write_def split: if_splits prod.splits)
  show "sent s' = sent s" if "len \<le> 0"
    using r that send_next [of bs s] to_int32_fits [OF send_fits, of bs s]
    by (auto simp: ss_write_def split: if_splits prod.splits)
qed

text \<open>On byte arrays the bytes are octets, which may be uninitialised when they are sent.\<close>

locale octet_recv = kernel_recv recv input
  for recv :: "(u8, 'k) reader" and input :: "'k \<Rightarrow> u8 list"

locale octet_send = kernel_send send sent
  for send :: "(cell, 'k) writer" and sent :: "'k \<Rightarrow> cell list"

lemma iovs_total: "concat (map (iov_addrs b) iovs) = [p ..< p + n] \<Longrightarrow> sum_list (map iov_len iovs) = n"
  by (drule arg_cong [of _ _ length]) (simp add: length_concat iov_addrs_def comp_def)

lemma scatter_Nil [simp]: "scatter iovs [] ba = ba"
  by (induction iovs arbitrary: ba) simp_all

lemma scatter_position [simp]: "m_position (scatter iovs bs ba) = m_position ba"
  by (induction iovs arbitrary: ba bs) simp_all

lemma wrote_Nil: "ba_inv ba1 \<Longrightarrow> contents ba1 = contents ba \<Longrightarrow> m_position ba1 = m_position ba \<Longrightarrow> m_size ba1 = m_size ba \<Longrightarrow>
    m_endian ba1 = m_endian ba \<Longrightarrow> m_baseSize ba1 = m_baseSize ba \<Longrightarrow> wrote ba [] ba1"
  by (simp add: wrote_def ba_inv_def)

sublocale octet_recv \<subseteq> bsrc: ba_source "ss_readBa recv st" input for st
proof
  fix ba n s assume inv: "ba_inv ba"
  show "\<exists>len ba' s' bs. ss_readBa recv st n (ba, s) = Inr (len, ba', s') \<and> wrote ba bs ba' \<and>
      input s = bs @ input s' \<and> length bs = nat len \<and> length bs \<le> n"
  proof (cases "ss_isConnected st")
    case False
    then show ?thesis using inv by (auto simp: ss_readBa_def intro!: wrote_Nil exI [of _ "[]"])
  next
    case True
    obtain iovs ba1 where g: "getWriteBuffers [] n ba = Inr (n, iovs, ba1)" "ba_inv ba1" "contents ba1 = contents ba"
      "m_position ba1 = m_position ba" "m_size ba1 = m_size ba" "m_endian ba1 = m_endian ba" "m_baseSize ba1 = m_baseSize ba"
      "concat (map (iov_addrs (m_baseSize ba)) iovs) = [m_position ba ..< m_position ba + n]"
      using getWriteBuffers_spec [OF inv, of "[]" n] by auto
    obtain rt bs s' where r: "recv n s = (rt, bs, s')" by (metis prod_cases3)
    note law = recv_count [OF r] recv_next [OF r] to_int32_fits [OF recv_fits [OF r]]
    obtain ba2 where ba2: "setPosition (m_position ba1 + length bs) (scatter iovs (map Some bs) ba1) = Inr ba2" "wrote ba bs ba2"
      using scatter_wrote [OF inv g(1), of bs] law(1) by auto
    show ?thesis
    proof (cases "rt > 0")
      case True
      then have "ss_readBa recv st n (ba, s) = Inr (rt, ba2, s')"
        using \<open>ss_isConnected st\<close> g(1) r iovs_total [OF g(8)] law ba2(1) by (simp add: ss_readBa_def)
      then show ?thesis using law ba2(2) by blast
    next
      case False
      then have "ss_readBa recv st n (ba, s) = Inr (rt, ba1, s')" "bs = []"
        using \<open>ss_isConnected st\<close> g(1) r iovs_total [OF g(8)] law by (simp_all add: ss_readBa_def)
      then show ?thesis using law wrote_Nil [OF g(2-7)] by fastforce
    qed
  qed
qed

sublocale octet_send \<subseteq> bsnk: ba_sink "ss_writeBa send st" sent for st
proof
  fix ba n s assume inv: "ba_inv ba"
  show "\<exists>len ba' s'. ss_writeBa send st n (ba, s) = Inr (len, ba', s') \<and> took ba (nat len) ba' \<and>
      sent s' = sent s @ slice (contents ba) (m_position ba) (nat len) \<and> nat len \<le> n"
  proof (cases "ss_isConnected st")
    case False
    then show ?thesis using inv by (simp add: ss_writeBa_def took_def slice_def)
  next
    case True
    let ?k = "min n (m_size ba - m_position ba)"
    obtain iovs where g: "getReadBuffers [] n ba = Inr (?k, iovs)"
      using getReadBuffers_spec [OF inv refl, of "[]" n] by auto
    have bytes: "gather ba iovs = slice (contents ba) (m_position ba) ?k" using gather_contents [OF inv g] by simp
    obtain rt s' where r: "send (gather ba iovs) s = (rt, s')" by fastforce
    note law = send_next [OF r] to_int32_fits [OF send_fits [OF r]]
    have le: "nat rt \<le> ?k" "sent s' = sent s @ slice (contents ba) (m_position ba) (nat rt)"
      using law(1) length_contents [OF inv] by (auto simp: bytes slice_def min_absorb2)
    show ?thesis
    proof (cases "rt > 0")
      case True
      let ?v = "m_position ba + nat rt"
      have "?v \<le> m_size ba" "?v \<le> m_capacity ba" using le(1) inv True by (auto simp: ba_inv_def)
      then obtain ba1 where ba1: "setPosition ?v ba = Inr ba1"
        "ba1 = ba\<lparr>m_position := ?v, m_size := m_size ba, m_cur := cur_at ba ?v\<rparr>"
        using setPosition_eq [OF inv, of ?v] by (simp add: max_def)
      have "took ba (nat rt) ba1"
        using setPosition_inv [OF inv ba1(1)] ba1(2) by (simp add: took_def contents_def flat_def)
      then show ?thesis using True \<open>ss_isConnected st\<close> g r law(2) ba1(1) le by (simp add: ss_writeBa_def)
    next
      case False
      then show ?thesis using \<open>ss_isConnected st\<close> g r law(2) le inv by (simp add: ss_writeBa_def took_def)
    qed
  qed
qed

section \<open>Fixed sizes over a socket\<close>

context kernel_recv
begin

lemma readFixSize_reads:
  assumes "n < 2 ^ 31" "readFixSize (ss_read recv st) n k = (r, bs, k')"
  shows "input k = bs @ input k' \<and> (r = int n \<and> length bs = n \<or> r \<le> 0 \<and> length bs < n)"
proof -
  obtain e where f: "readFix (ss_read recv st) (int n) k = (e, bs, k')" "r = (case e of Some len \<Rightarrow> len | None \<Rightarrow> int n)"
    using assms by (auto simp: readFixSize_def to_s64_small to_s32_small split: prod.splits option.splits)
  show ?thesis using src.readFix_spec [OF f(1)] f(2) by (auto split: option.splits)
qed

end

context kernel_send
begin

lemma writeFixSize_writes:
  assumes "length bs < 2 ^ 31" "writeFixSize (ss_write send st) bs k = (r, k')"
  shows "\<exists>j. sent k' = sent k @ take j bs \<and> (r = int (length bs) \<and> j = length bs \<or> r \<le> 0 \<and> j < length bs)"
proof -
  obtain e where f: "writeFix (ss_write send st) bs 0 (int (length bs)) k = (e, k')"
    "r = (case e of Some len \<Rightarrow> len | None \<Rightarrow> int (length bs))"
    using assms by (auto simp: writeFixSize_def to_s64_small to_s32_small split: prod.splits option.splits)
  show ?thesis using snk.writeFix_spec [OF f(1)] f(2) by (cases e) (auto intro: exI [of _ "length bs"])
qed

end

context octet_recv
begin

lemma baFixSize_reads:
  assumes "ba_inv ba" "n < 2 ^ 31"
  shows "\<exists>r ba' k' bs. baFixSize (ss_readBa recv st) n (ba, k) = Inr (r, ba', k') \<and> wrote ba bs ba' \<and>
    input k = bs @ input k' \<and> (r = int n \<and> length bs = n \<or> r \<le> 0 \<and> length bs < n)"
  using bsrc.baFix_reads [OF assms(1), of st "int n" k] assms(2)
  by (auto simp: baFixSize_def to_s64_small to_s32_small split: option.splits)

end

context octet_send
begin

lemma baFixSize_writes:
  assumes "ba_inv ba" "n < 2 ^ 31"
  shows "\<exists>r ba' k' j. baFixSize (ss_writeBa send st) n (ba, k) = Inr (r, ba', k') \<and> took ba j ba' \<and>
    sent k' = sent k @ slice (contents ba) (m_position ba) j \<and> (r = int n \<and> j = n \<or> r \<le> 0 \<and> j < n)"
  using bsnk.baFix_writes [OF assms(1), of st "int n" k] assms(2)
  by (auto simp: baFixSize_def to_s64_small to_s32_small split: option.splits)

end

section \<open>A connection\<close>

text \<open>
  A connection as the kernel keeps it: the bytes on their way in, the bytes sent, and for each call to come
  the most it moves, a negative number being an error.
\<close>

record 'b conn =
  c_in :: "'b list"
  c_out :: "'b list"
  c_script :: "int list"

definition conn_limit :: "'b conn \<Rightarrow> int" where
  "conn_limit k = (case c_script k of [] \<Rightarrow> 0x7ffff000 | l # _ \<Rightarrow> min l 0x7ffff000)"

definition conn_recv :: "('b, 'b conn) reader" where
  "conn_recv n k =
     (let k1 = k\<lparr>c_script := tl (c_script k)\<rparr>; m = min (nat (conn_limit k)) (min n (length (c_in k)))
      in if conn_limit k < 0 then (- 1, [], k1) else (int m, take m (c_in k), k1\<lparr>c_in := drop m (c_in k)\<rparr>))"

definition conn_send :: "('b, 'b conn) writer" where
  "conn_send bs k =
     (let k1 = k\<lparr>c_script := tl (c_script k)\<rparr>; m = min (nat (conn_limit k)) (length bs)
      in if conn_limit k < 0 then (- 1, k1) else (int m, k1\<lparr>c_out := c_out k @ take m bs\<rparr>))"

lemma conn_limit_le: "conn_limit k \<le> 0x7ffff000"
  by (auto simp: conn_limit_def split: list.splits)

lemma nat_limit_le: "int (min (nat (conn_limit k)) m) \<le> 0x7ffff000"
  using conn_limit_le [of k] by linarith

interpretation cr: kernel_recv "conn_recv :: ('b, 'b conn) reader" c_in
proof
  fix n rt bs and k k' :: "'b conn" assume r: "conn_recv n k = (rt, bs, k')"
  show "fits_int rt" using r nat_limit_le [of k] by (auto simp: conn_recv_def Let_def fits_int_def split: if_splits)
  show "length bs = nat rt \<and> length bs \<le> n" using r by (auto simp: conn_recv_def Let_def split: if_splits)
  show "c_in k = bs @ c_in k'" using r by (auto simp: conn_recv_def Let_def split: if_splits)
qed

interpretation cs: kernel_send "conn_send :: ('b, 'b conn) writer" c_out
proof
  fix bs rt and k k' :: "'b conn" assume r: "conn_send bs k = (rt, k')"
  show "fits_int rt" using r nat_limit_le [of k] by (auto simp: conn_send_def Let_def fits_int_def split: if_splits)
  show "nat rt \<le> length bs \<and> c_out k' = c_out k @ take (nat rt) bs"
    using r by (auto simp: conn_send_def Let_def split: if_splits)
qed

interpretation ocr: octet_recv "conn_recv :: (u8, u8 conn) reader" c_in
  by unfold_locales

interpretation ocs: octet_send "conn_send :: (cell, cell conn) writer" c_out
  by unfold_locales

definition demoStream :: socket_stream where
  "demoStream = newSocketStream (Some ((newSocket AF_INET SOCK_STREAM 0)\<lparr>m_sock := 5, m_isConnected := True\<rparr>)) True"

definition demoConn :: "u8 conn" where
  "demoConn = \<lparr>c_in = [1, 2, 3, 4, 5, 6], c_out = [], c_script = [2, 1, 9]\<rparr>"

section \<open>Properties\<close>

text \<open>
  C19: reading a fixed number of bytes from a socket stream, whatever pieces the kernel delivers: the bytes
  stored are the next ones of the connection, in order, and nothing of it is lost; the result is the number
  asked for exactly when all of them have arrived, and otherwise the value that ended the loop, zero or
  negative, with fewer bytes stored.
\<close>

theorem readFixSize_exact:
  assumes "kernel_recv recv input" "n < 2 ^ 31" "readFixSize (ss_read recv st) n k = (r, bs, k')"
  shows "input k = bs @ input k' \<and> (r = int n \<and> length bs = n \<or> r \<le> 0 \<and> length bs < n)"
  by (rule kernel_recv.readFixSize_reads [OF assms])

theorem readFixSize_exact_witness:
  "\<exists>r bs k'. readFixSize (ss_read conn_recv demoStream) 5 demoConn = (r, bs, k') \<and> c_in demoConn = bs @ c_in k' \<and>
     (r = 5 \<and> length bs = 5 \<or> r \<le> 0 \<and> length bs < 5)"
proof -
  obtain r bs k' where e: "readFixSize (ss_read conn_recv demoStream) 5 demoConn = (r, bs, k')" by (metis prod_cases3)
  show ?thesis using readFixSize_exact [OF cr.kernel_recv_axioms _ e] e by simp
qed

text \<open>
  Writing a buffer to a socket stream sends a prefix of it, in order and without repetition, whatever
  pieces the kernel takes; the result is the length of the buffer exactly when all of it has been sent, and
  zero or negative otherwise.
\<close>

theorem writeFixSize_exact:
  assumes "kernel_send send sent" "length bs < 2 ^ 31" "writeFixSize (ss_write send st) bs k = (r, k')"
  shows "\<exists>j. sent k' = sent k @ take j bs \<and> (r = int (length bs) \<and> j = length bs \<or> r \<le> 0 \<and> j < length bs)"
  by (rule kernel_send.writeFixSize_writes [OF assms])

theorem writeFixSize_exact_witness:
  "\<exists>r k' j. writeFixSize (ss_write conn_send demoStream) [7, 8, 9] demoConn = (r, k') \<and> c_out k' = take j [7, 8, 9] \<and>
     (r = 3 \<and> j = 3 \<or> r \<le> 0 \<and> j < 3)"
proof -
  obtain r k' where e: "writeFixSize (ss_write conn_send demoStream) [7, 8, 9] demoConn = (r, k')" by fastforce
  show ?thesis using writeFixSize_exact [OF cs.kernel_send_axioms _ e] e by (auto simp: demoConn_def)
qed

text \<open>
  C18: sending \<open>n\<close> bytes of one array through a socket stream and receiving them into another at the end of
  the connection: both calls return, whatever the pieces, and when both report \<open>n\<close> the second array is as
  after a write of the bytes the first one held at its position; the first one keeps its contents and its
  position moves past them.
\<close>

theorem ba_transfer:
  assumes "octet_send send sent" "octet_recv recv input" "ba_inv src" "ba_inv dst" "0 < n" "n < 2 ^ 31"
    "slice (contents src) (m_position src) n = map Some bs"
  shows "\<exists>r src' k'. baFixSize (ss_writeBa send st) n (src, k) = Inr (r, src', k') \<and>
    contents src' = contents src \<and>
    (\<forall>j more. map Some (input j) = drop (length (sent k)) (sent k') @ more \<and> r = int n \<longrightarrow>
       (\<exists>r' dst' j'. baFixSize (ss_readBa recv st') n (dst, j) = Inr (r', dst', j') \<and> ba_inv dst' \<and>
          m_position src' = m_position src + n \<and> (r' = int n \<longrightarrow> wrote dst bs dst' \<and> map Some (input j') = more)))"
proof -
  obtain r src' k' i where w: "baFixSize (ss_writeBa send st) n (src, k) = Inr (r, src', k')" "took src i src'"
    "sent k' = sent k @ slice (contents src) (m_position src) i" "r = int n \<and> i = n \<or> r \<le> 0 \<and> i < n"
    using octet_send.baFixSize_writes [OF assms(1,3,6)] by blast
  have "\<exists>r' dst' j'. baFixSize (ss_readBa recv st') n (dst, j) = Inr (r', dst', j') \<and> ba_inv dst' \<and>
      m_position src' = m_position src + n \<and> (r' = int n \<longrightarrow> wrote dst bs dst' \<and> map Some (input j') = more)"
    if j: "map Some (input j) = drop (length (sent k)) (sent k') @ more" "r = int n" for j more
  proof -
    have i: "i = n" using j(2) w(4) assms(5) by auto
    have in_j: "map Some (input j) = map Some bs @ more" using j(1) w(3) i assms(7) by simp
    obtain r' dst' j' cs where rd: "baFixSize (ss_readBa recv st') n (dst, j) = Inr (r', dst', j')" "wrote dst cs dst'"
      "input j = cs @ input j'" "r' = int n \<and> length cs = n \<or> r' \<le> 0 \<and> length cs < n"
      using octet_recv.baFixSize_reads [OF assms(2,4,6)] by blast
    have "length bs = n"
    proof -
      have "length (map Some bs) \<le> n" using assms(7) by (metis length_take min.cobounded2 slice_def)
      moreover have "n \<le> length (contents src) - m_position src"
        using w(2) i length_contents [OF assms(3)] by (auto simp: took_def ba_inv_def)
      ultimately show ?thesis using arg_cong [OF assms(7), of length] by (simp add: slice_def)
    qed
    then have "cs = bs \<and> map Some (input j') = more" if "r' = int n"
      using that rd(3,4) in_j assms(5) by (auto simp: append_eq_append_conv inj_map_eq_map)
    then show ?thesis using rd wroteD(1) [OF rd(2)] w(2) i by (auto simp: took_def)
  qed
  then show ?thesis using w(1,2) by (auto simp: took_def)
qed

theorem ba_transfer_witness:
  "\<exists>r src' k'. baFixSize (ss_writeBa conn_send demoStream) 4 (sampleArray, \<lparr>c_in = [], c_out = [], c_script = [1, 3]\<rparr>) =
     Inr (r, src', k') \<and> contents src' = contents sampleArray"
proof -
  have "slice (contents sampleArray) (m_position sampleArray) 4 = map Some [10, 11, 12, 13]"
    by (simp add: sampleArray_def contents_def slice_def flat_def)
  from ba_transfer [OF ocs.octet_send_axioms ocr.octet_recv_axioms sampleArray_inv sampleArray_inv _ _ this,
      of demoStream "\<lparr>c_in = [], c_out = [], c_script = [1, 3]\<rparr>" demoStream]
  show ?thesis by auto
qed

end
