(* ===== verification/Http.thy ===== *)
theory Http
  imports CStrings "HOL-Library.Sublist"
begin

text \<open>
  The HTTP messages of \<^verbatim>\<open>saturn/http/http.h\<close> and \<^verbatim>\<open>http.cc\<close>: the method and status tables and their
  conversions, the case-insensitive maps of headers, parameters and cookies, the request and response
  objects with every setter, lookup and removal, the parsing of query, form and cookie strings, and the
  printed form of a message.  The maps are lists in the order of \<^verbatim>\<open>CaseInsensitiveLess\<close>; the
  interpretation \<open>ci\<close> shows that this comparison meets the contract of \<^verbatim>\<open>std::map\<close>.
\<close>

section \<open>Methods and statuses\<close>

datatype HttpMethod =
    DELETE | GET | HEAD | POST | PUT | CONNECT | OPTIONS | TRACE | COPY | LOCK | MKCOL | MOVE | PROPFIND |
    PROPPATCH | SEARCH | UNLOCK | BIND | REBIND | UNBIND | ACL | REPORT | MKACTIVITY | CHECKOUT | MERGE |
    MSEARCH | NOTIFY | SUBSCRIBE | UNSUBSCRIBE | PATCH | PURGE | MKCALENDAR | LINK | UNLINK | SOURCE |
    INVALID_METHOD

definition HTTP_METHOD_MAP :: "(nat \<times> HttpMethod \<times> string) list" where
  "HTTP_METHOD_MAP =
    [(0, DELETE, ''DELETE''), (1, GET, ''GET''), (2, HEAD, ''HEAD''), (3, POST, ''POST''), (4, PUT, ''PUT''),
     (5, CONNECT, ''CONNECT''), (6, OPTIONS, ''OPTIONS''), (7, TRACE, ''TRACE''), (8, COPY, ''COPY''),
     (9, LOCK, ''LOCK''), (10, MKCOL, ''MKCOL''), (11, MOVE, ''MOVE''), (12, PROPFIND, ''PROPFIND''),
     (13, PROPPATCH, ''PROPPATCH''), (14, SEARCH, ''SEARCH''), (15, UNLOCK, ''UNLOCK''), (16, BIND, ''BIND''),
     (17, REBIND, ''REBIND''), (18, UNBIND, ''UNBIND''), (19, ACL, ''ACL''), (20, REPORT, ''REPORT''),
     (21, MKACTIVITY, ''MKACTIVITY''), (22, CHECKOUT, ''CHECKOUT''), (23, MERGE, ''MERGE''),
     (24, MSEARCH, ''M-SEARCH''), (25, NOTIFY, ''NOTIFY''), (26, SUBSCRIBE, ''SUBSCRIBE''),
     (27, UNSUBSCRIBE, ''UNSUBSCRIBE''), (28, PATCH, ''PATCH''), (29, PURGE, ''PURGE''),
     (30, MKCALENDAR, ''MKCALENDAR''), (31, LINK, ''LINK''), (32, UNLINK, ''UNLINK''), (33, SOURCE, ''SOURCE'')]"

text \<open>A \<^verbatim>\<open>HttpStatus\<close> is the number under the enumeration: \<^verbatim>\<open>on_response_status\<close> casts any number to it.\<close>

definition HTTP_STATUS_MAP :: "(int \<times> string) list" where
  "HTTP_STATUS_MAP =
    [(100, ''Continue''), (101, ''Switching Protocols''), (102, ''Processing''), (200, ''OK''),
     (201, ''Created''), (202, ''Accepted''), (203, ''Non-Authoritative Information''), (204, ''No Content''),
     (205, ''Reset Content''), (206, ''Partial Content''), (207, ''Multi-Status''),
     (208, ''Already Reported''), (226, ''IM Used''), (300, ''Multiple Choices''),
     (301, ''Moved Permanently''), (302, ''Found''), (303, ''See Other''), (304, ''Not Modified''),
     (305, ''Use Proxy''), (307, ''Temporary Redirect''), (308, ''Permanent Redirect''),
     (400, ''Bad Request''), (401, ''Unauthorized''), (402, ''Payment Required''), (403, ''Forbidden''),
     (404, ''Not Found''), (405, ''Method Not Allowed''), (406, ''Not Acceptable''),
     (407, ''Proxy Authentication Required''), (408, ''Request Timeout''), (409, ''Conflict''),
     (410, ''Gone''), (411, ''Length Required''), (412, ''Precondition Failed''), (413, ''Payload Too Large''),
     (414, ''URI Too Long''), (415, ''Unsupported Media Type''), (416, ''Range Not Satisfiable''),
     (417, ''Expectation Failed''), (421, ''Misdirected Request''), (422, ''Unprocessable Entity''),
     (423, ''Locked''), (424, ''Failed Dependency''), (426, ''Upgrade Required''),
     (428, ''Precondition Required''), (429, ''Too Many Requests''),
     (431, ''Request Header Fields Too Large''), (451, ''Unavailable For Legal Reasons''),
     (500, ''Internal Server Error''), (501, ''Not Implemented''), (502, ''Bad Gateway''),
     (503, ''Service Unavailable''), (504, ''Gateway Timeout''), (505, ''HTTP Version Not Supported''),
     (506, ''Variant Also Negotiates''), (507, ''Insufficient Storage''), (508, ''Loop Detected''),
     (510, ''Not Extended''), (511, ''Network Authentication Required'')]"

definition StringToHttpMethod :: "string \<Rightarrow> HttpMethod" where
  "StringToHttpMethod m =
     (case filter (\<lambda>(num, name, str). strcmp_eq str m) HTTP_METHOD_MAP of
        [] \<Rightarrow> INVALID_METHOD | (num, name, str) # _ \<Rightarrow> name)"

definition CharsToHttpMethod :: "string \<Rightarrow> HttpMethod" where
  "CharsToHttpMethod m =
     (case filter (\<lambda>(num, name, str). strncmp_eq (length str) str m) HTTP_METHOD_MAP of
        [] \<Rightarrow> INVALID_METHOD | (num, name, str) # _ \<Rightarrow> name)"

definition method_num :: "HttpMethod \<Rightarrow> nat" where
  "method_num m =
     (case filter (\<lambda>(num, name, str). name = m) HTTP_METHOD_MAP of
        [] \<Rightarrow> length HTTP_METHOD_MAP | (num, name, str) # _ \<Rightarrow> num)"

definition s_method_string :: "string list" where
  "s_method_string = map (\<lambda>(num, name, str). str) HTTP_METHOD_MAP"

definition HttpMethodToString :: "HttpMethod \<Rightarrow> string" where
  "HttpMethodToString m =
     (let idx = method_num m in if idx \<ge> length s_method_string then ''<unknown>'' else s_method_string ! idx)"

definition HttpStatusToString :: "int \<Rightarrow> string" where
  "HttpStatusToString s =
     (case filter (\<lambda>(code, msg). code = s) HTTP_STATUS_MAP of [] \<Rightarrow> ''<unknown>'' | (code, msg) # _ \<Rightarrow> msg)"

section \<open>The maps\<close>

type_synonym smap = "(string \<times> string) list"

definition CaseInsensitiveLess :: "string \<Rightarrow> string \<Rightarrow> bool" where
  "CaseInsensitiveLess lhs rhs \<longleftrightarrow> strcasecmp lhs rhs < 0"

interpretation ci: comparator CaseInsensitiveLess "\<lambda>_. True"
  by unfold_locales (auto simp: CaseInsensitiveLess_def strcasecmp_less)

definition ci_sorted :: "smap \<Rightarrow> bool" where
  "ci_sorted m \<longleftrightarrow> sorted_wrt CaseInsensitiveLess (map fst m)"

lemma ci_eqI: "\<not> CaseInsensitiveLess a b \<and> \<not> CaseInsensitiveLess b a \<longleftrightarrow> strcasecmp a b = 0"
  by (auto simp: CaseInsensitiveLess_def strcasecmp_less strcasecmp_eq)

lemma ci_find_assign:
  "ci_sorted m \<Longrightarrow> map_find CaseInsensitiveLess q (map_assign CaseInsensitiveLess k v m) =
     (if strcasecmp k q = 0 then Some v else map_find CaseInsensitiveLess q m)"
  unfolding ci_sorted_def ci_eqI [symmetric] by (rule ci.find_assign) simp_all

lemma ci_find_erase:
  "ci_sorted m \<Longrightarrow> map_find CaseInsensitiveLess q (map_erase CaseInsensitiveLess k m) =
     (if strcasecmp k q = 0 then None else map_find CaseInsensitiveLess q m)"
  unfolding ci_sorted_def ci_eqI [symmetric] by (rule ci.find_erase) simp_all

lemma ci_find_same:
  assumes "strcasecmp k q = 0"
  shows "map_find CaseInsensitiveLess q m = map_find CaseInsensitiveLess k m"
  using assms by (induction m) (auto simp: CaseInsensitiveLess_def strcasecmp_less strcasecmp_eq)

lemma ci_sorted_assign [simp]: "ci_sorted m \<Longrightarrow> ci_sorted (map_assign CaseInsensitiveLess k v m)"
  unfolding ci_sorted_def by (rule ci.assign_sorted) simp_all

lemma ci_sorted_erase [simp]: "ci_sorted m \<Longrightarrow> ci_sorted (map_erase CaseInsensitiveLess k m)"
  unfolding ci_sorted_def by (rule ci.map_erase_sorted)

lemma ci_sorted_insert [simp]: "ci_sorted m \<Longrightarrow> ci_sorted (map_insert CaseInsensitiveLess k v m)"
  by (simp add: map_insert_def split: option.splits)

lemma ci_sorted_Nil [simp]: "ci_sorted []"
  by (simp add: ci_sorted_def)

text \<open>\<^verbatim>\<open>boost::lexical_cast\<close> is the parameter \<open>lexical_cast\<close>; \<open>None\<close> is the exception it throws.\<close>

definition checkGetAs :: "(string \<Rightarrow> 'a option) \<Rightarrow> smap \<Rightarrow> string \<Rightarrow> 'a \<Rightarrow> bool \<times> 'a" where
  "checkGetAs lexical_cast m key def =
     (case map_find CaseInsensitiveLess key m of
        None \<Rightarrow> (False, def)
      | Some s \<Rightarrow> (case lexical_cast s of Some val \<Rightarrow> (True, val) | None \<Rightarrow> (False, def)))"

definition getAs :: "(string \<Rightarrow> 'a option) \<Rightarrow> smap \<Rightarrow> string \<Rightarrow> 'a \<Rightarrow> 'a" where
  "getAs lexical_cast m key def =
     (case map_find CaseInsensitiveLess key m of
        None \<Rightarrow> def
      | Some s \<Rightarrow> (case lexical_cast s of Some val \<Rightarrow> val | None \<Rightarrow> def))"

definition map_get :: "smap \<Rightarrow> string \<Rightarrow> string \<Rightarrow> string" where
  "map_get m key def = (case map_find CaseInsensitiveLess key m of None \<Rightarrow> def | Some v \<Rightarrow> v)"

text \<open>\<^verbatim>\<open>has\<close> with an output pointer: \<open>None\<close> is the null pointer, the result is what it points to after.\<close>

definition map_has :: "smap \<Rightarrow> string \<Rightarrow> string option \<Rightarrow> bool \<times> string option" where
  "map_has m key val =
     (case map_find CaseInsensitiveLess key m of
        None \<Rightarrow> (False, val)
      | Some v \<Rightarrow> (True, if val \<noteq> None then Some v else None))"

section \<open>HttpRequest\<close>

record http_request =
  rq_method :: HttpMethod
  rq_version :: u8
  rq_close :: bool
  rq_websocket :: bool
  rq_parserParamFlag :: u8
  rq_path :: string
  rq_query :: string
  rq_fragment :: string
  rq_body :: string
  rq_headers :: smap
  rq_params :: smap
  rq_cookies :: smap

definition HttpRequest :: "u8 \<Rightarrow> bool \<Rightarrow> http_request" where
  "HttpRequest version close =
     \<lparr>rq_method = GET, rq_version = version, rq_close = close, rq_websocket = False, rq_parserParamFlag = 0,
      rq_path = ''/'', rq_query = [], rq_fragment = [], rq_body = [], rq_headers = [], rq_params = [],
      rq_cookies = []\<rparr>"

definition setMethod :: "http_request \<Rightarrow> HttpMethod \<Rightarrow> http_request" where
  "setMethod r v = r\<lparr>rq_method := v\<rparr>"

definition setVersion :: "http_request \<Rightarrow> u8 \<Rightarrow> http_request" where
  "setVersion r v = r\<lparr>rq_version := v\<rparr>"

definition setPath :: "http_request \<Rightarrow> string \<Rightarrow> http_request" where
  "setPath r v = r\<lparr>rq_path := v\<rparr>"

definition setQuery :: "http_request \<Rightarrow> string \<Rightarrow> http_request" where
  "setQuery r v = r\<lparr>rq_query := v\<rparr>"

definition setFragment :: "http_request \<Rightarrow> string \<Rightarrow> http_request" where
  "setFragment r v = r\<lparr>rq_fragment := v\<rparr>"

definition setBody :: "http_request \<Rightarrow> string \<Rightarrow> http_request" where
  "setBody r v = r\<lparr>rq_body := v\<rparr>"

definition setClose :: "http_request \<Rightarrow> bool \<Rightarrow> http_request" where
  "setClose r v = r\<lparr>rq_close := v\<rparr>"

definition setWebsocket :: "http_request \<Rightarrow> bool \<Rightarrow> http_request" where
  "setWebsocket r v = r\<lparr>rq_websocket := v\<rparr>"

definition setHeaders :: "http_request \<Rightarrow> smap \<Rightarrow> http_request" where
  "setHeaders r v = r\<lparr>rq_headers := v\<rparr>"

definition setParams :: "http_request \<Rightarrow> smap \<Rightarrow> http_request" where
  "setParams r v = r\<lparr>rq_params := v\<rparr>"

definition setCookies :: "http_request \<Rightarrow> smap \<Rightarrow> http_request" where
  "setCookies r v = r\<lparr>rq_cookies := v\<rparr>"

definition getHeader :: "http_request \<Rightarrow> string \<Rightarrow> string \<Rightarrow> string" where
  "getHeader r key def = map_get (rq_headers r) key def"

definition getParam :: "http_request \<Rightarrow> string \<Rightarrow> string \<Rightarrow> string" where
  "getParam r key def = map_get (rq_params r) key def"

definition getCookie :: "http_request \<Rightarrow> string \<Rightarrow> string \<Rightarrow> string" where
  "getCookie r key def = map_get (rq_cookies r) key def"

definition setHeader :: "http_request \<Rightarrow> string \<Rightarrow> string \<Rightarrow> http_request" where
  "setHeader r key val = r\<lparr>rq_headers := map_assign CaseInsensitiveLess key val (rq_headers r)\<rparr>"

definition setParam :: "http_request \<Rightarrow> string \<Rightarrow> string \<Rightarrow> http_request" where
  "setParam r key val = r\<lparr>rq_params := map_assign CaseInsensitiveLess key val (rq_params r)\<rparr>"

definition setCookie :: "http_request \<Rightarrow> string \<Rightarrow> string \<Rightarrow> http_request" where
  "setCookie r key val = r\<lparr>rq_cookies := map_assign CaseInsensitiveLess key val (rq_cookies r)\<rparr>"

definition delHeader :: "http_request \<Rightarrow> string \<Rightarrow> http_request" where
  "delHeader r key = r\<lparr>rq_headers := map_erase CaseInsensitiveLess key (rq_headers r)\<rparr>"

definition delParam :: "http_request \<Rightarrow> string \<Rightarrow> http_request" where
  "delParam r key = r\<lparr>rq_params := map_erase CaseInsensitiveLess key (rq_params r)\<rparr>"

definition delCookie :: "http_request \<Rightarrow> string \<Rightarrow> http_request" where
  "delCookie r key = r\<lparr>rq_cookies := map_erase CaseInsensitiveLess key (rq_cookies r)\<rparr>"

definition hasHeader :: "http_request \<Rightarrow> string \<Rightarrow> string option \<Rightarrow> bool \<times> string option" where
  "hasHeader r key val = map_has (rq_headers r) key val"

definition hasParam :: "http_request \<Rightarrow> string \<Rightarrow> string option \<Rightarrow> bool \<times> string option" where
  "hasParam r key val = map_has (rq_params r) key val"

definition hasCookie :: "http_request \<Rightarrow> string \<Rightarrow> string option \<Rightarrow> bool \<times> string option" where
  "hasCookie r key val = map_has (rq_cookies r) key val"

definition CRLF :: string where
  "CRLF = [CHR 0x0D, CHR 0x0A]"

definition version_str :: "u8 \<Rightarrow> string" where
  "version_str v = dec (unat (drop_bit 4 v)) @ ''.'' @ dec (unat (v AND 0x0F))"

definition connection_line :: "bool \<Rightarrow> string" where
  "connection_line close = ''connection: '' @ (if close then ''close'' else ''keep-alive'') @ CRLF"

definition header_lines :: "string \<Rightarrow> smap \<Rightarrow> string" where
  "header_lines sep m =
     concat (map (\<lambda>(k, v). if strcasecmp k ''connection'' = 0 then [] else k @ sep @ v @ CRLF) m)"

definition body_part :: "string \<Rightarrow> string" where
  "body_part body =
     (if body \<noteq> [] then ''content-length: '' @ dec (length body) @ CRLF @ CRLF @ body else CRLF)"

definition dump_request :: "http_request \<Rightarrow> string" where
  "dump_request r =
     HttpMethodToString (rq_method r) @ '' '' @ rq_path r @
     (if rq_query r = [] then [] else ''?'') @ rq_query r @
     (if rq_fragment r = [] then [] else ''#'') @ rq_fragment r @
     '' HTTP/'' @ version_str (rq_version r) @ CRLF @
     connection_line (rq_close r) @
     header_lines '':'' (rq_headers r) @
     body_part (rq_body r)"

definition init :: "http_request \<Rightarrow> http_request" where
  "init r =
     (let conn = getHeader r ''connection'' []
      in if conn \<noteq> [] then r\<lparr>rq_close := \<not> (strcasecmp conn ''keep-alive'' = 0)\<rparr> else r)"

section \<open>Parameters, forms and cookies\<close>

function PARSE_PARAM :: "(string \<Rightarrow> string) \<Rightarrow> char \<Rightarrow> string \<Rightarrow> nat \<Rightarrow> smap \<Rightarrow> smap" where
  "PARSE_PARAM trim flag str lastp m =
     (case find_char str (CHR ''='') lastp of
        None \<Rightarrow> m
      | Some key \<Rightarrow>
          let pos = find_char str flag key;
              m' = map_insert CaseInsensitiveLess (trim (substr str lastp (Some (key - lastp))))
                     (UrlDecode (substr str (key + 1) (map_option (\<lambda>p. p - key - 1) pos)) True) m
          in case pos of None \<Rightarrow> m' | Some p \<Rightarrow> PARSE_PARAM trim flag str (p + 1) m')"
  by pat_completeness auto
termination
  by (relation "measure (\<lambda>(trim, flag, str, lastp, m). length str - lastp)")
    (auto dest!: find_char_Some find_char_Some [OF sym])

declare PARSE_PARAM.simps [simp del]

definition initQueryParam :: "http_request \<Rightarrow> http_request" where
  "initQueryParam r =
     (if rq_parserParamFlag r AND 1 \<noteq> 0 then r
      else r\<lparr>rq_params := PARSE_PARAM id (CHR ''&'') (rq_query r) 0 (rq_params r),
             rq_parserParamFlag := rq_parserParamFlag r OR 1\<rparr>)"

definition initBodyParam :: "http_request \<Rightarrow> http_request" where
  "initBodyParam r =
     (if rq_parserParamFlag r AND 2 \<noteq> 0 then r
      else let content_type = getHeader r ''content-type'' []
      in if \<not> strcasestr content_type ''application/x-www-form-urlencoded''
         then r\<lparr>rq_parserParamFlag := rq_parserParamFlag r OR 2\<rparr>
         else r\<lparr>rq_params := PARSE_PARAM id (CHR ''&'') (rq_body r) 0 (rq_params r),
                rq_parserParamFlag := rq_parserParamFlag r OR 2\<rparr>)"

definition default_delimit :: string where
  "default_delimit = [CHR '' '', CHR 0x09, CHR 0x0D, CHR 0x0A]"

definition initCookies :: "http_request \<Rightarrow> http_request" where
  "initCookies r =
     (if rq_parserParamFlag r AND 4 \<noteq> 0 then r
      else let cookie = getHeader r ''cookie'' []
      in if cookie = [] then r\<lparr>rq_parserParamFlag := rq_parserParamFlag r OR 4\<rparr>
         else r\<lparr>rq_cookies := PARSE_PARAM (\<lambda>s. Trim s default_delimit) (CHR '';'') cookie 0 (rq_cookies r),
                rq_parserParamFlag := rq_parserParamFlag r OR 4\<rparr>)"

definition initParam :: "http_request \<Rightarrow> http_request" where
  "initParam r = initCookies (initBodyParam (initQueryParam r))"

section \<open>HttpResponse\<close>

text \<open>
  The constructor does not set \<^verbatim>\<open>m_websocket\<close>: its first value is the argument \<open>junk\<close>.
  \<^verbatim>\<open>setRedirect\<close> and \<^verbatim>\<open>setCookie\<close> are declared in the header and defined nowhere; \<^verbatim>\<open>m_cookies\<close> is never used.
\<close>

record http_response =
  rs_status :: int
  rs_version :: u8
  rs_close :: bool
  rs_websocket :: bool
  rs_body :: string
  rs_reason :: string
  rs_headers :: smap

definition HttpResponse :: "bool \<Rightarrow> u8 \<Rightarrow> bool \<Rightarrow> http_response" where
  "HttpResponse junk version close =
     \<lparr>rs_status = 200, rs_version = version, rs_close = close, rs_websocket = junk, rs_body = [], rs_reason = [],
      rs_headers = []\<rparr>"

definition createResponse :: "bool \<Rightarrow> http_request \<Rightarrow> http_response" where
  "createResponse junk r = HttpResponse junk (rq_version r) (rq_close r)"

definition rsp_setStatus :: "http_response \<Rightarrow> int \<Rightarrow> http_response" where
  "rsp_setStatus r v = r\<lparr>rs_status := v\<rparr>"

definition rsp_setVersion :: "http_response \<Rightarrow> u8 \<Rightarrow> http_response" where
  "rsp_setVersion r v = r\<lparr>rs_version := v\<rparr>"

definition rsp_setBody :: "http_response \<Rightarrow> string \<Rightarrow> http_response" where
  "rsp_setBody r v = r\<lparr>rs_body := v\<rparr>"

definition rsp_setReason :: "http_response \<Rightarrow> string \<Rightarrow> http_response" where
  "rsp_setReason r v = r\<lparr>rs_reason := v\<rparr>"

definition rsp_setHeaders :: "http_response \<Rightarrow> smap \<Rightarrow> http_response" where
  "rsp_setHeaders r v = r\<lparr>rs_headers := v\<rparr>"

definition rsp_setClose :: "http_response \<Rightarrow> bool \<Rightarrow> http_response" where
  "rsp_setClose r v = r\<lparr>rs_close := v\<rparr>"

definition rsp_setWebsocket :: "http_response \<Rightarrow> bool \<Rightarrow> http_response" where
  "rsp_setWebsocket r v = r\<lparr>rs_websocket := v\<rparr>"

definition rsp_getHeader :: "http_response \<Rightarrow> string \<Rightarrow> string \<Rightarrow> string" where
  "rsp_getHeader r key def = map_get (rs_headers r) key def"

definition rsp_setHeader :: "http_response \<Rightarrow> string \<Rightarrow> string \<Rightarrow> http_response" where
  "rsp_setHeader r key val = r\<lparr>rs_headers := map_assign CaseInsensitiveLess key val (rs_headers r)\<rparr>"

definition rsp_delHeader :: "http_response \<Rightarrow> string \<Rightarrow> http_response" where
  "rsp_delHeader r key = r\<lparr>rs_headers := map_erase CaseInsensitiveLess key (rs_headers r)\<rparr>"

definition dump_response :: "http_response \<Rightarrow> string" where
  "dump_response r =
     ''HTTP/'' @ version_str (rs_version r) @ '' '' @ dec (unat (word_of_int (rs_status r) :: u32)) @ '' '' @
     (if rs_reason r = [] then HttpStatusToString (rs_status r) else rs_reason r) @ CRLF @
     header_lines '': '' (rs_headers r) @
     connection_line (rs_close r) @
     body_part (rs_body r)"

section \<open>Names of methods\<close>

lemma c_str_id: "\<forall>c\<in>set s. c \<noteq> CHR 0x00 \<Longrightarrow> c_str s = s"
  by (simp add: c_str_def)

lemma strncmp_literal:
  "\<forall>c\<in>set lit. c \<noteq> CHR 0x00 \<Longrightarrow> strncmp_eq (length lit) lit m \<longleftrightarrow> prefix lit m"
proof (induction lit arbitrary: m)
  case (Cons a lit)
  have a: "c_str (a # lit) = a # c_str lit" using Cons.prems by (simp add: c_str_def)
  show ?case
  proof (cases m)
    case Nil
    then show ?thesis using a by (simp add: c_str_def)
  next
    case (Cons b m')
    then show ?thesis using a Cons.IH [of m'] Cons.prems Cons
      by (cases "b = CHR 0x00") (auto simp: c_str_def)
  qed
qed simp

definition zero_free :: "string \<Rightarrow> bool" where
  "zero_free s = list_all (\<lambda>c. c \<noteq> CHR 0x00) s"

lemma method_names_zero_free: "list_all (\<lambda>(num, name, str). zero_free str) HTTP_METHOD_MAP"
  by (simp add: HTTP_METHOD_MAP_def zero_free_def)

lemma CharsToHttpMethod_prefix:
  "CharsToHttpMethod m =
     (case filter (\<lambda>(num, name, str). prefix str m) HTTP_METHOD_MAP of
        [] \<Rightarrow> INVALID_METHOD | (num, name, str) # _ \<Rightarrow> name)"
proof -
  have "filter (\<lambda>(num, name, str). strncmp_eq (length str) str m) HTTP_METHOD_MAP =
      filter (\<lambda>(num, name, str). prefix str m) HTTP_METHOD_MAP"
    using method_names_zero_free
    by (intro filter_cong) (auto simp: list_all_iff zero_free_def strncmp_literal)
  then show ?thesis by (simp add: CharsToHttpMethod_def)
qed

lemma HttpMethodToString_table:
  assumes "m \<noteq> INVALID_METHOD"
  shows "\<exists>num. (num, m, HttpMethodToString m) \<in> set HTTP_METHOD_MAP"
  using assms
  by (cases m) (simp_all add: HttpMethodToString_def method_num_def s_method_string_def HTTP_METHOD_MAP_def)

text \<open>No name of the table begins with another one.\<close>

lemma method_names_prefix_free:
  "list_all (\<lambda>(num, a, s). list_all (\<lambda>(num', b, t). prefix s t \<longrightarrow> a = b) HTTP_METHOD_MAP) HTTP_METHOD_MAP"
  by code_simp

lemma prefix_free:
  assumes "(num, a, s) \<in> set HTTP_METHOD_MAP" "(num', b, t) \<in> set HTTP_METHOD_MAP" "prefix s (t @ rest)"
  shows "a = b"
proof -
  have "prefix s t \<or> prefix t s" using assms(3) by (metis prefix_append prefixI prefix_same_cases)
  then show ?thesis using method_names_prefix_free assms(1,2) by (fastforce simp: list_all_iff)
qed

lemma first_match:
  assumes "x \<in> set xs" "P x" "\<forall>y\<in>set xs. P y \<longrightarrow> f y = f x"
  shows "(case filter P xs of [] \<Rightarrow> d | y # _ \<Rightarrow> f y) = f x"
proof (cases "filter P xs")
  case Nil
  then show ?thesis using assms(1,2) by (metis filter_empty_conv)
next
  case (Cons y ys)
  then have "y \<in> set (filter P xs)" by simp
  then have "f y = f x" using assms(3) by auto
  then show ?thesis using Cons by simp
qed

lemma method_listed_once: "distinct (map (\<lambda>(num, name, str). name) HTTP_METHOD_MAP)"
  by (simp add: HTTP_METHOD_MAP_def)

lemma name_unique:
  assumes "(k, m, s) \<in> set HTTP_METHOD_MAP" "(n, m, t) \<in> set HTTP_METHOD_MAP"
  shows "s = t"
proof -
  have "inj_on (\<lambda>(num, name, str). name) (set HTTP_METHOD_MAP)"
    using method_listed_once by (simp add: distinct_map)
  from inj_onD [OF this, of "(k, m, s)" "(n, m, t)"] show ?thesis using assms by simp
qed

text \<open>
  The names of the methods are read back by both readers: \<^verbatim>\<open>StringToHttpMethod\<close> accepts exactly the name
  that \<^verbatim>\<open>HttpMethodToString\<close> prints, and \<^verbatim>\<open>CharsToHttpMethod\<close>, which is given a pointer into the request
  line, finds the method whatever bytes follow the name (so \<^verbatim>\<open>GETX\<close> is read as \<^verbatim>\<open>GET\<close>).
\<close>

theorem method_names_roundtrip:
  assumes "m \<noteq> INVALID_METHOD"
  shows "(StringToHttpMethod str = m \<longleftrightarrow> c_str str = HttpMethodToString m) \<and>
    CharsToHttpMethod (HttpMethodToString m @ rest) = m"
proof -
  let ?name = "\<lambda>(num::nat, name::HttpMethod, str::string). name"
  obtain n where t: "(n, m, HttpMethodToString m) \<in> set HTTP_METHOD_MAP"
    using HttpMethodToString_table [OF assms] by blast
  have zero: "c_str s = s" if "(k, a, s) \<in> set HTTP_METHOD_MAP" for k a s
    using that method_names_zero_free by (fastforce simp: list_all_iff zero_free_def intro: c_str_id)
  have uniq: "a = b" if "(k, a, s) \<in> set HTTP_METHOD_MAP" "(k', b, s) \<in> set HTTP_METHOD_MAP" for k k' a b s
    using prefix_free [OF that, of "[]"] by simp
  have "(case filter (\<lambda>(num, name, s). prefix s (HttpMethodToString m @ rest)) HTTP_METHOD_MAP of
      [] \<Rightarrow> INVALID_METHOD | y # _ \<Rightarrow> ?name y) = ?name (n, m, HttpMethodToString m)"
    by (rule first_match [OF t]) (use prefix_free [OF _ t] in \<open>auto\<close>)
  then have "CharsToHttpMethod (HttpMethodToString m @ rest) = m"
    unfolding CharsToHttpMethod_prefix by (simp add: case_prod_beta split: list.splits)
  moreover have "StringToHttpMethod str = m \<longleftrightarrow> c_str str = HttpMethodToString m"
  proof
    assume r: "c_str str = HttpMethodToString m"
    have "(case filter (\<lambda>(num, name, s). strcmp_eq s str) HTTP_METHOD_MAP of
        [] \<Rightarrow> INVALID_METHOD | y # _ \<Rightarrow> ?name y) = ?name (n, m, HttpMethodToString m)"
      by (rule first_match [OF t]) (use r t uniq zero in \<open>auto simp: strcmp_eq_def\<close>)
    then show "StringToHttpMethod str = m"
      unfolding StringToHttpMethod_def by (simp add: case_prod_beta split: list.splits)
  next
    assume l: "StringToHttpMethod str = m"
    then obtain k s ys where ys: "filter (\<lambda>(num, name, s). strcmp_eq s str) HTTP_METHOD_MAP = (k, m, s) # ys"
      using assms unfolding StringToHttpMethod_def by (auto split: list.splits prod.splits)
    then have "(k, m, s) \<in> set (filter (\<lambda>(num, name, s). strcmp_eq s str) HTTP_METHOD_MAP)" by simp
    then have s: "(k, m, s) \<in> set HTTP_METHOD_MAP" "c_str s = c_str str" by (auto simp: strcmp_eq_def)
    then show "c_str str = HttpMethodToString m" using zero [OF s(1)] name_unique [OF s(1) t] by simp
  qed
  ultimately show ?thesis by blast
qed

theorem method_names_roundtrip_witness:
  "GET \<noteq> INVALID_METHOD \<and>
   (StringToHttpMethod ''GETX'' = GET \<longleftrightarrow> c_str ''GETX'' = HttpMethodToString GET) \<and>
   CharsToHttpMethod (HttpMethodToString GET @ ''X / HTTP/1.1'') = GET"
  using method_names_roundtrip [of GET "''GETX''" "''X / HTTP/1.1''"] by simp

section \<open>Headers\<close>

text \<open>The maps of a request are in the order of their keys; every operation keeps them so.\<close>

definition rq_inv :: "http_request \<Rightarrow> bool" where
  "rq_inv r \<longleftrightarrow> ci_sorted (rq_headers r) \<and> ci_sorted (rq_params r) \<and> ci_sorted (rq_cookies r)"

lemma PARSE_PARAM_sorted: "ci_sorted m \<Longrightarrow> ci_sorted (PARSE_PARAM trim flag str pos m)"
proof (induction trim flag str pos m rule: PARSE_PARAM.induct)
  case (1 trim flag str pos m)
  show ?case
  proof (cases "find_char str (CHR ''='') pos")
    case None
    then show ?thesis using 1(2) by (simp add: PARSE_PARAM.simps [of trim flag str pos])
  next
    case f: (Some key)
    note IH = 1(1) [OF f refl refl]
    show ?thesis
      using 1(2) f IH
      by (subst PARSE_PARAM.simps) (auto simp: Let_def split: option.splits)
  qed
qed

lemmas rq_ops = setMethod_def setVersion_def setPath_def setQuery_def setFragment_def setBody_def setClose_def
  setWebsocket_def setHeader_def setParam_def setCookie_def delHeader_def delParam_def delCookie_def init_def
  initQueryParam_def initBodyParam_def initCookies_def

lemma rq_inv_ops:
  assumes "rq_inv r"
  shows "rq_inv (setHeader r k v)" "rq_inv (setParam r k v)" "rq_inv (setCookie r k v)"
    "rq_inv (delHeader r k)" "rq_inv (delParam r k)" "rq_inv (delCookie r k)" "rq_inv (init r)"
    "rq_inv (initQueryParam r)" "rq_inv (initBodyParam r)" "rq_inv (initCookies r)"
  using assms by (simp_all add: rq_inv_def rq_ops PARSE_PARAM_sorted Let_def)

text \<open>
  The three maps of a request behave as maps whose keys are compared without case: a lookup after an
  assignment or a removal sees it exactly when \<^verbatim>\<open>strcasecmp\<close> finds the keys equal, and the maps stay in order.
\<close>

theorem headers_case_insensitive:
  assumes "rq_inv r"
  shows "rq_inv (setHeader r key val) \<and> rq_inv (delHeader r key) \<and>
    getHeader (setHeader r key val) q def = (if strcasecmp key q = 0 then val else getHeader r q def) \<and>
    getHeader (delHeader r key) q def = (if strcasecmp key q = 0 then def else getHeader r q def) \<and>
    getCookie (setHeader r key val) q def = getCookie r q def \<and>
    getParam (setParam r key val) q def = (if strcasecmp key q = 0 then val else getParam r q def) \<and>
    getCookie (delCookie r key) q def = (if strcasecmp key q = 0 then def else getCookie r q def)"
  using assms rq_inv_ops [OF assms]
  by (simp add: getHeader_def getParam_def getCookie_def map_get_def rq_inv_def rq_ops ci_find_assign ci_find_erase)

theorem headers_case_insensitive_witness:
  "rq_inv (HttpRequest 0x11 True) \<and>
   getHeader (setHeader (HttpRequest 0x11 True) ''Host'' ''a'') ''HOST'' [] = ''a''"
proof -
  have r: "rq_inv (HttpRequest 0x11 True)" by (simp add: rq_inv_def HttpRequest_def)
  have "strcasecmp ''Host'' ''HOST'' = 0" by code_simp
  then show ?thesis using r headers_case_insensitive [OF r, of "''Host''" "''a''" "''HOST''" "[]"] by simp
qed

end
