(* ===== verification/HttpQuery.thy ===== *)
theory HttpQuery
  imports Http
begin

text \<open>
  What the parsing of parameters and the printing of messages achieve: a query string of encoded pairs is
  read back pair by pair (the first value of a name wins), the parsers run once, and a printed response is a
  block of lines, an empty line and the body, the last line of the block giving the length of the body.
\<close>

section \<open>Reading back a query string\<close>

fun query_string :: "char \<Rightarrow> (string \<times> string) list \<Rightarrow> string" where
  "query_string flag [] = []"
| "query_string flag [(k, v)] = k @ ''='' @ UrlEncode v True"
| "query_string flag ((k, v) # kvs) = k @ ''='' @ UrlEncode v True @ [flag] @ query_string flag kvs"

lemma hexdigits_unreserved: "c \<in> set hexdigits \<Longrightarrow> CHAR_IS_UNRESERVED c"
  by (auto simp: hexdigits_def CHAR_IS_UNRESERVED_def uri_chars_def byte_of_def)

lemma enc_char_set: "x \<in> set (enc_char sp c) \<Longrightarrow> CHAR_IS_UNRESERVED x \<or> x = CHR ''+'' \<or> x = CHR ''%''"
proof -
  have l: "length hexdigits = 16" by (simp add: hexdigits_def)
  have "hexdigits ! (byte_of c div 16) \<in> set hexdigits" "hexdigits ! (byte_of c mod 16) \<in> set hexdigits"
    using byte_of_less [of c] l by (auto intro!: nth_mem)
  then show "x \<in> set (enc_char sp c) \<Longrightarrow> ?thesis"
    using hexdigits_unreserved by (auto simp: enc_char_def split: if_splits)
qed

lemma encoded_separators: "CHR ''&'' \<notin> set (UrlEncode v sp)" "CHR '';'' \<notin> set (UrlEncode v sp)"
proof -
  have "\<not> CHAR_IS_UNRESERVED CHR ''&''" "\<not> CHAR_IS_UNRESERVED CHR '';''"
    by (simp_all add: CHAR_IS_UNRESERVED_def uri_chars_def byte_of_def)
  then show "CHR ''&'' \<notin> set (UrlEncode v sp)" "CHR '';'' \<notin> set (UrlEncode v sp)"
    using enc_char_set by (fastforce simp: UrlEncode_eq)+
qed

lemma UrlDecode_Encode: "UrlDecode (UrlEncode v True) True = v"
  by (simp add: UrlEncode_eq UrlDecode_eq decode_encode)

abbreviation insert_pair :: "(string \<Rightarrow> string) \<Rightarrow> string \<times> string \<Rightarrow> smap \<Rightarrow> smap" where
  "insert_pair trim kv m \<equiv> map_insert CaseInsensitiveLess (trim (fst kv)) (snd kv) m"

lemma encoded_flag:
  "flag \<in> {CHR ''&'', CHR '';''} \<Longrightarrow> flag \<notin> set (CHR ''='' # UrlEncode v True)"
  using encoded_separators [of v True] by auto

lemma PARSE_PARAM_last:
  assumes "CHR ''='' \<notin> set k" "flag \<in> {CHR ''&'', CHR '';''}"
  shows "PARSE_PARAM trim flag (pre @ k @ ''='' @ UrlEncode v True) (length pre) m = insert_pair trim (k, v) m"
proof -
  let ?e = "UrlEncode v True"
  have eq: "find_char (pre @ k @ CHR ''='' # ?e) (CHR ''='') (length pre) = Some (length pre + length k)"
    using assms(1) by (rule find_char_append)
  have flag: "find_char ((pre @ k) @ CHR ''='' # ?e) flag (length (pre @ k)) = None"
    using encoded_flag [OF assms(2)] by (rule find_char_absent)
  show ?thesis
    using eq flag by (subst PARSE_PARAM.simps) (simp add: substr_def UrlDecode_Encode)
qed

lemma PARSE_PARAM_more:
  assumes "CHR ''='' \<notin> set k" "flag \<in> {CHR ''&'', CHR '';''}"
  shows "PARSE_PARAM trim flag (pre @ k @ ''='' @ UrlEncode v True @ flag # rest) (length pre) m =
    PARSE_PARAM trim flag ((pre @ k @ ''='' @ UrlEncode v True @ [flag]) @ rest)
      (length (pre @ k @ ''='' @ UrlEncode v True @ [flag])) (insert_pair trim (k, v) m)"
proof -
  let ?e = "UrlEncode v True"
  have eq: "find_char (pre @ k @ CHR ''='' # ?e @ flag # rest) (CHR ''='') (length pre) = Some (length pre + length k)"
    using assms(1) by (rule find_char_append)
  have flag: "find_char ((pre @ k) @ (CHR ''='' # ?e) @ flag # rest) flag (length (pre @ k)) =
      Some (length (pre @ k) + length (CHR ''='' # ?e))"
    using encoded_flag [OF assms(2)] by (rule find_char_append)
  show ?thesis
    using eq flag by (subst PARSE_PARAM.simps) (simp add: substr_def UrlDecode_Encode add.assoc)
qed

lemma PARSE_PARAM_query:
  assumes "flag \<in> {CHR ''&'', CHR '';''}" "\<forall>kv\<in>set kvs. CHR ''='' \<notin> set (fst kv)"
  shows "PARSE_PARAM trim flag (pre @ query_string flag kvs) (length pre) m = fold (insert_pair trim) kvs m"
  using assms
proof (induction flag kvs arbitrary: pre m rule: query_string.induct)
  case (1 flag)
  then show ?case using find_char_absent [of "CHR ''=''" "[]" pre] by (simp add: PARSE_PARAM.simps)
next
  case (2 flag k v)
  then show ?case using PARSE_PARAM_last [of k flag trim pre v m] by simp
next
  case (3 flag k v kv kvs)
  let ?pre = "pre @ k @ ''='' @ UrlEncode v True @ [flag]"
  have "PARSE_PARAM trim flag (?pre @ query_string flag (kv # kvs)) (length ?pre) (insert_pair trim (k, v) m) =
      fold (insert_pair trim) (kv # kvs) (insert_pair trim (k, v) m)"
    by (rule 3(1)) (use 3(2,3) in auto)
  then show ?case
    using PARSE_PARAM_more [of k flag trim pre v "query_string flag (kv # kvs)" m] 3(2,3) by simp
qed

text \<open>The value of a name in a list of pairs: that of the first pair with an equal name.\<close>

definition first_value :: "(string \<times> string) list \<Rightarrow> string \<Rightarrow> string option" where
  "first_value kvs q = map_option snd (List.find (\<lambda>kv. strcasecmp (fst kv) q = 0) kvs)"

lemma ci_find_insert:
  assumes "ci_sorted m"
  shows "map_find CaseInsensitiveLess q (map_insert CaseInsensitiveLess k v m) =
    (case map_find CaseInsensitiveLess q m of
       Some x \<Rightarrow> Some x | None \<Rightarrow> if strcasecmp k q = 0 then Some v else None)"
proof (cases "map_find CaseInsensitiveLess k m")
  case None
  have "map_find CaseInsensitiveLess q m = None" if "strcasecmp k q = 0"
    using that None ci_find_same [OF that, of m] by simp
  then show ?thesis using None assms by (auto simp: map_insert_def ci_find_assign split: option.splits)
next
  case (Some x)
  have "map_find CaseInsensitiveLess q m \<noteq> None" if "strcasecmp k q = 0"
    using that Some ci_find_same [OF that, of m] by simp
  then show ?thesis using Some by (auto simp: map_insert_def split: option.splits)
qed

lemma find_fold_insert:
  assumes "ci_sorted m"
  shows "map_find CaseInsensitiveLess q (fold (insert_pair id) kvs m) =
    (case map_find CaseInsensitiveLess q m of Some x \<Rightarrow> Some x | None \<Rightarrow> first_value kvs q)"
  using assms
  by (induction kvs arbitrary: m) (auto simp: first_value_def ci_find_insert split: option.splits)

text \<open>
  C31: the query string made of percent-encoded pairs is read back by \<^verbatim>\<open>initQueryParam\<close>: a parameter has the
  value of the first pair whose name is equal up to case, whatever bytes the values hold.
\<close>

theorem query_read_back:
  assumes "\<forall>kv\<in>set kvs. CHR ''='' \<notin> set (fst kv)" "rq_params r = []" "rq_parserParamFlag r AND 1 = 0"
  shows "getParam (initQueryParam (setQuery r (query_string (CHR ''&'') kvs))) q def =
    (case first_value kvs q of None \<Rightarrow> def | Some v \<Rightarrow> v)"
proof -
  have "rq_params (initQueryParam (setQuery r (query_string (CHR ''&'') kvs))) = fold (insert_pair id) kvs []"
    using PARSE_PARAM_query [of "CHR ''&''" kvs id "[]" "[]"] assms
    by (simp add: initQueryParam_def setQuery_def)
  then show ?thesis using find_fold_insert [of "[]" q kvs] by (simp add: getParam_def map_get_def)
qed

theorem query_read_back_witness:
  "getParam (initQueryParam (setQuery (HttpRequest 0x11 True)
     (query_string (CHR ''&'') [(''a'', ''1 & 2=''), (''A'', ''no'')]))) ''A'' [] = ''1 & 2=''"
proof -
  have "first_value [(''a'', ''1 & 2=''), (''A'', ''no'')] ''A'' = Some ''1 & 2=''" by code_simp
  then show ?thesis
    by (subst query_read_back) (simp_all add: HttpRequest_def)
qed

section \<open>The parsers run once\<close>

lemma flag_or:
  fixes f :: u8
  shows "(f OR 1) AND 1 \<noteq> 0" "(f OR 2) AND 2 \<noteq> 0" "(f OR 4) AND 4 \<noteq> 0"
    "(f OR 2) AND 1 = f AND 1" "(f OR 4) AND 1 = f AND 1" "(f OR 4) AND 2 = f AND 2"
    "(f OR 1) AND 2 = f AND 2" "(f OR 1) AND 4 = f AND 4" "(f OR 2) AND 4 = f AND 4"
  by (simp_all add: bit.conj_disj_distrib2)

lemma init_flags:
  "rq_parserParamFlag (initQueryParam r) AND 1 \<noteq> 0" "rq_parserParamFlag (initBodyParam r) AND 2 \<noteq> 0"
  "rq_parserParamFlag (initCookies r) AND 4 \<noteq> 0"
  "rq_parserParamFlag (initBodyParam r) AND 1 = rq_parserParamFlag r AND 1"
  "rq_parserParamFlag (initCookies r) AND 1 = rq_parserParamFlag r AND 1"
  "rq_parserParamFlag (initCookies r) AND 2 = rq_parserParamFlag r AND 2"
  by (simp_all add: initQueryParam_def initBodyParam_def initCookies_def Let_def flag_or)

text \<open>
  \<^verbatim>\<open>initParam\<close> parses the query, the form and the cookies once: calling it again
  changes nothing.
\<close>

theorem initParam_idempotent:
  "initParam (initParam r) = initParam r"
proof -
  have f: "rq_parserParamFlag (initParam r) AND 1 \<noteq> 0" "rq_parserParamFlag (initParam r) AND 2 \<noteq> 0"
    "rq_parserParamFlag (initParam r) AND 4 \<noteq> 0"
    by (simp_all add: initParam_def init_flags)
  then show ?thesis
    by (simp add: initParam_def [of "initParam r"] initQueryParam_def initBodyParam_def initCookies_def)
qed

section \<open>The printed response\<close>

abbreviation LF :: char where
  "LF \<equiv> CHR 0x0A"

definition unlines :: "string list \<Rightarrow> string" where
  "unlines ls = concat (map (\<lambda>l. l @ CRLF) ls)"

definition good_line :: "string \<Rightarrow> bool" where
  "good_line l \<longleftrightarrow> l \<noteq> [] \<and> LF \<notin> set l"

definition parse_dec :: "string \<Rightarrow> nat" where
  "parse_dec s = fold (\<lambda>c a. a * 10 + (byte_of c - 48)) s 0"

lemma dec_digits: "c \<in> set (dec n) \<Longrightarrow> 48 \<le> byte_of c \<and> byte_of c \<le> 57"
proof (induction n rule: dec.induct)
  case (1 n)
  have d: "byte_of (char_of (48 + k)) = 48 + k" if "k < 10" for k :: nat
    using that by (simp add: byte_of_def)
  show ?case using 1 d [of n] d [of "n mod 10"] by (subst (asm) (2) dec.simps) (auto split: if_splits)
qed

lemma dec_no_LF: "LF \<notin> set (dec n)"
  using dec_digits [of LF n] by (auto simp: byte_of_def)

lemma parse_dec_dec: "parse_dec (dec n) = n"
proof (induction n rule: dec.induct)
  case (1 n)
  have d: "byte_of (char_of (48 + k)) = 48 + k" if "k < 10" for k :: nat
    using that by (simp add: byte_of_def)
  show ?case using 1 d [of n] d [of "n mod 10"] by (subst dec.simps) (simp add: parse_dec_def)
qed

lemma status_texts_no_LF: "list_all (\<lambda>(code, msg). LF \<notin> set msg) HTTP_STATUS_MAP"
  by (simp add: HTTP_STATUS_MAP_def)

lemma status_text_no_LF: "LF \<notin> set (HttpStatusToString s)"
proof (cases "filter (\<lambda>(code, msg). code = s) HTTP_STATUS_MAP")
  case Nil
  then show ?thesis by (simp add: HttpStatusToString_def)
next
  case (Cons p ps)
  then have "p \<in> set (filter (\<lambda>(code, msg). code = s) HTTP_STATUS_MAP)" by simp
  then have "p \<in> set HTTP_STATUS_MAP" by simp
  then have "LF \<notin> set (snd p)" using status_texts_no_LF by (auto simp: list_all_iff)
  then show ?thesis using Cons by (cases p) (simp add: HttpStatusToString_def)
qed

lemma header_lines_unlines:
  "header_lines sep m =
     unlines (map (\<lambda>(k, v). k @ sep @ v) (filter (\<lambda>(k, v). strcasecmp k ''connection'' \<noteq> 0) m))"
  by (induction m) (auto simp: header_lines_def unlines_def)

lemma unlines_append: "unlines xs @ unlines ys = unlines (xs @ ys)" "l @ CRLF @ unlines ys = unlines (l # ys)"
  by (simp_all add: unlines_def)

definition response_lines :: "http_response \<Rightarrow> string list" where
  "response_lines r =
     [''HTTP/'' @ version_str (rs_version r) @ '' '' @ dec (unat (word_of_int (rs_status r) :: u32)) @ '' '' @
       (if rs_reason r = [] then HttpStatusToString (rs_status r) else rs_reason r)] @
     map (\<lambda>(k, v). k @ '': '' @ v) (filter (\<lambda>(k, v). strcasecmp k ''connection'' \<noteq> 0) (rs_headers r)) @
     [''connection: '' @ (if rs_close r then ''close'' else ''keep-alive'')] @
     (if rs_body r = [] then [] else [''content-length: '' @ dec (length (rs_body r))])"

lemma dump_response_lines: "dump_response r = unlines (response_lines r) @ CRLF @ rs_body r"
  by (simp add: dump_response_def response_lines_def header_lines_unlines connection_line_def body_part_def
      unlines_append [symmetric] unlines_def)

text \<open>
  A printed response can be taken apart again: when the reason and the headers hold no line feed, it is a
  block of non-empty lines, an empty line and the body, the status comes first, and the last line of the
  block gives the length of a non-empty body in decimal.
\<close>

theorem response_framing:
  assumes "LF \<notin> set (rs_reason r)" "\<forall>(k, v)\<in>set (rs_headers r). LF \<notin> set k \<and> LF \<notin> set v"
  shows "\<exists>ls. dump_response r = unlines ls @ CRLF @ rs_body r \<and> list_all good_line ls \<and>
    (rs_body r \<noteq> [] \<longrightarrow> (\<exists>n. List.last ls = ''content-length: '' @ n \<and> parse_dec n = length (rs_body r)))"
proof (intro exI conjI)
  show "dump_response r = unlines (response_lines r) @ CRLF @ rs_body r" by (rule dump_response_lines)
  show "list_all good_line (response_lines r)"
    using assms dec_no_LF status_text_no_LF
    by (auto simp: response_lines_def good_line_def list_all_iff version_str_def)
  show "rs_body r \<noteq> [] \<longrightarrow>
      (\<exists>n. List.last (response_lines r) = ''content-length: '' @ n \<and> parse_dec n = length (rs_body r))"
    by (auto simp: response_lines_def parse_dec_dec)
qed

theorem response_framing_witness:
  "\<exists>ls. dump_response (rsp_setBody (HttpResponse False 0x11 True) ''hi'') = unlines ls @ CRLF @ ''hi'' \<and>
     list_all good_line ls \<and> (\<exists>n. List.last ls = ''content-length: '' @ n \<and> parse_dec n = length ''hi'')"
  using response_framing [of "rsp_setBody (HttpResponse False 0x11 True) ''hi''"]
  by (simp add: HttpResponse_def rsp_setBody_def eval_nat_numeral)

end
