(* ===== verification/HttpParser.thy ===== *)
theory HttpParser
  imports SocketStream HttpQuery
begin

text \<open>
  The HTTP parsers (\<^verbatim>\<open>saturn/http/http_parser.cc\<close>) and the functions around the generated machines of
  \<^verbatim>\<open>external/mongrel2\<close>.  The machines themselves, the tables Ragel wrote into \<^verbatim>\<open>http11_parser.cc\<close> and
  \<^verbatim>\<open>httpclient_parser.cc\<close>, are the parameter \<open>run\<close>: given the parser and the bytes, it tells the state it ends
  in, how many bytes it took, the marks it left in the parser and the callbacks it made, in order.  A callback
  has the offset of its text in the buffer and its length.
\<close>

section \<open>The request machine\<close>

record http_parser =
  hp_cs :: nat
  hp_body_start :: nat
  hp_content_len :: int
  hp_nread :: nat
  hp_mark :: nat
  hp_field_start :: nat
  hp_field_len :: nat
  hp_query_start :: nat
  hp_xml_sent :: bool
  hp_json_sent :: bool

definition http_parser_start :: nat where "http_parser_start = 1"
definition http_parser_first_final :: nat where "http_parser_first_final = 348"
definition http_parser_error :: nat where "http_parser_error = 0"

text \<open>\<open>query_start\<close> is not initialised: \<open>junk\<close>.\<close>

definition http_parser_init :: "nat \<Rightarrow> http_parser" where
  "http_parser_init junk =
     \<lparr>hp_cs = http_parser_start, hp_body_start = 0, hp_content_len = 0, hp_nread = 0, hp_mark = 0, hp_field_start = 0,
      hp_field_len = 0, hp_query_start = junk, hp_xml_sent = False, hp_json_sent = False\<rparr>"

definition http_parser_has_error :: "http_parser \<Rightarrow> bool" where
  "http_parser_has_error parser \<longleftrightarrow> hp_cs parser = http_parser_error"

definition http_parser_is_finished :: "http_parser \<Rightarrow> bool" where
  "http_parser_is_finished parser \<longleftrightarrow> hp_cs parser \<ge> http_parser_first_final"

definition http_parser_finish :: "http_parser \<Rightarrow> int" where
  "http_parser_finish parser =
     (if http_parser_has_error parser then - 1 else if http_parser_is_finished parser then 1 else 0)"

datatype req_event =
    OnMethod nat nat | OnUri nat nat | OnFragment nat nat | OnPath nat nat | OnQuery nat nat | OnVersion nat nat
  | OnHeaderDone nat nat | OnField nat nat nat nat

type_synonym req_machine = "http_parser \<Rightarrow> string \<Rightarrow> nat \<times> nat \<times> http_parser \<times> req_event list"

text \<open>
  \<^verbatim>\<open>http_parser_execute\<close> after the machine, for an offset of 0.  \<^verbatim>\<open>nread\<close> grows from call to call; the build keeps
  the assertions.
\<close>

definition http_parser_settle :: "nat \<Rightarrow> nat \<Rightarrow> nat \<Rightarrow> http_parser \<Rightarrow> (nat \<times> http_parser) res" where
  "http_parser_settle len cs p parser =
     (if p > len then Inl AssertFail
      else
        let parser1 = (if http_parser_has_error parser then parser else parser\<lparr>hp_cs := cs\<rparr>);
            parser2 = parser1\<lparr>hp_nread := hp_nread parser1 + p\<rparr>
        in if hp_nread parser2 \<le> len \<and> hp_body_start parser2 \<le> len \<and> hp_mark parser2 < len \<and>
              hp_field_len parser2 \<le> len \<and> hp_field_start parser2 < len
           then Inr (hp_nread parser2, parser2) else Inl AssertFail)"

text \<open>The callbacks run on the state \<open>d\<close> of the caller, before the assertions.\<close>

fun callbacks :: "('ev \<Rightarrow> 'd \<Rightarrow> 'd res) \<Rightarrow> 'ev list \<Rightarrow> 'd \<Rightarrow> 'd res" where
  "callbacks cb [] d = Inr d"
| "callbacks cb (ev # evs) d = bindE (cb ev d) (callbacks cb evs)"

definition http_parser_execute :: "req_machine \<Rightarrow> (req_event \<Rightarrow> 'd \<Rightarrow> 'd res) \<Rightarrow> string \<Rightarrow> nat \<Rightarrow> http_parser \<times> 'd \<Rightarrow>
    (nat \<times> http_parser \<times> 'd) res" where
  "http_parser_execute run cb buffer len pd =
     (if len = 0 then Inr (0, pd)
      else case run (fst pd) (take len buffer) of
             (cs, p, parser, evs) \<Rightarrow>
               bindE (callbacks cb evs (snd pd)) (\<lambda>d.
                 bindE (http_parser_settle len cs p parser) (\<lambda>(n, parser'). Inr (n, parser', d))))"

section \<open>\<open>HttpRequestParser\<close>\<close>

record rq_parser =
  rp_parser :: http_parser
  rp_data :: http_request
  rp_error :: int

definition newRequestParser :: "nat \<Rightarrow> rq_parser" where
  "newRequestParser junk = \<lparr>rp_parser = http_parser_init junk, rp_data = HttpRequest 0x11 True, rp_error = 0\<rparr>"

definition rp_setError :: "int \<Rightarrow> rq_parser \<Rightarrow> rq_parser" where
  "rp_setError v rp = rp\<lparr>rp_error := v\<rparr>"

text \<open>\<^verbatim>\<open>std::string(at, length)\<close> for a pointer into the buffer.\<close>

definition text_at :: "string \<Rightarrow> nat \<Rightarrow> nat \<Rightarrow> string res" where
  "text_at buf at len = (if at + len \<le> length buf then Inr (slice buf at len) else Inl OutOfBounds)"

text \<open>The method is compared as a C string: the length is not used.\<close>

definition on_request_method :: "string \<Rightarrow> nat \<Rightarrow> nat \<Rightarrow> rq_parser \<Rightarrow> rq_parser res" where
  "on_request_method buf at len rp =
     (let m = CharsToHttpMethod (drop at buf) in
      if m = INVALID_METHOD then bindE (text_at buf at len) (\<lambda>_. Inr (rp_setError 1000 rp))
      else Inr (rp\<lparr>rp_data := setMethod (rp_data rp) m\<rparr>))"

definition on_request_fragment :: "string \<Rightarrow> nat \<Rightarrow> nat \<Rightarrow> rq_parser \<Rightarrow> rq_parser res" where
  "on_request_fragment buf at len rp = bindE (text_at buf at len) (\<lambda>v. Inr (rp\<lparr>rp_data := setFragment (rp_data rp) v\<rparr>))"

definition on_request_path :: "string \<Rightarrow> nat \<Rightarrow> nat \<Rightarrow> rq_parser \<Rightarrow> rq_parser res" where
  "on_request_path buf at len rp = bindE (text_at buf at len) (\<lambda>v. Inr (rp\<lparr>rp_data := setPath (rp_data rp) v\<rparr>))"

definition on_request_query :: "string \<Rightarrow> nat \<Rightarrow> nat \<Rightarrow> rq_parser \<Rightarrow> rq_parser res" where
  "on_request_query buf at len rp = bindE (text_at buf at len) (\<lambda>v. Inr (rp\<lparr>rp_data := setQuery (rp_data rp) v\<rparr>))"

text \<open>The versions both parsers know.\<close>

definition version_at :: "string \<Rightarrow> nat \<Rightarrow> nat \<Rightarrow> u8 option" where
  "version_at buf at len =
     (if strncmp_eq len (drop at buf) ''HTTP/1.1'' then Some 0x11
      else if strncmp_eq len (drop at buf) ''HTTP/1.0'' then Some 0x10 else None)"

definition on_request_version :: "string \<Rightarrow> nat \<Rightarrow> nat \<Rightarrow> rq_parser \<Rightarrow> rq_parser res" where
  "on_request_version buf at len rp =
     (case version_at buf at len of
        Some v \<Rightarrow> Inr (rp\<lparr>rp_data := setVersion (rp_data rp) v\<rparr>)
      | None \<Rightarrow> bindE (text_at buf at len) (\<lambda>_. Inr (rp_setError 1001 rp)))"

definition on_request_http_field :: "string \<Rightarrow> nat \<Rightarrow> nat \<Rightarrow> nat \<Rightarrow> nat \<Rightarrow> rq_parser \<Rightarrow> rq_parser res" where
  "on_request_http_field buf field flen val vlen rp =
     (if flen = 0 then Inr (rp_setError 1002 rp)
      else bindE (text_at buf field flen) (\<lambda>k. bindE (text_at buf val vlen) (\<lambda>v.
             Inr (rp\<lparr>rp_data := setHeader (rp_data rp) k v\<rparr>))))"

text \<open>The callbacks the constructor installs.\<close>

fun on_request :: "string \<Rightarrow> req_event \<Rightarrow> rq_parser \<Rightarrow> rq_parser res" where
  "on_request buf (OnMethod at len) rp = on_request_method buf at len rp"
| "on_request buf (OnUri at len) rp = Inr rp"
| "on_request buf (OnFragment at len) rp = on_request_fragment buf at len rp"
| "on_request buf (OnPath at len) rp = on_request_path buf at len rp"
| "on_request buf (OnQuery at len) rp = on_request_query buf at len rp"
| "on_request buf (OnVersion at len) rp = on_request_version buf at len rp"
| "on_request buf (OnHeaderDone at len) rp = Inr rp"
| "on_request buf (OnField field flen val vlen) rp = on_request_http_field buf field flen val vlen rp"

definition memmove :: "string \<Rightarrow> nat \<Rightarrow> nat \<Rightarrow> string" where
  "memmove data src n = overwrite data 0 (slice data src n)"

definition rp_execute :: "req_machine \<Rightarrow> string \<Rightarrow> nat \<Rightarrow> rq_parser \<Rightarrow> (nat \<times> string \<times> rq_parser) res" where
  "rp_execute run data len rp =
     bindE (http_parser_execute run (on_request data) data len (rp_parser rp, rp)) (\<lambda>(offset, parser, rp1).
       Inr (offset, memmove data offset (len - offset), rp1\<lparr>rp_parser := parser\<rparr>))"

definition rp_isFinished :: "rq_parser \<Rightarrow> int" where
  "rp_isFinished rp = http_parser_finish (rp_parser rp)"

definition rp_hasError :: "rq_parser \<Rightarrow> bool" where
  "rp_hasError rp \<longleftrightarrow> rp_error rp \<noteq> 0 \<or> http_parser_has_error (rp_parser rp)"

definition rp_getContentLength :: "(string \<Rightarrow> u64 option) \<Rightarrow> rq_parser \<Rightarrow> u64" where
  "rp_getContentLength lexical_cast rp = getAs lexical_cast (rq_headers (rp_data rp)) ''content-length'' 0"

end
