(* ===== verification/HttpParserClient.thy ===== *)
theory HttpParserClient
  imports HttpParser
begin

text \<open>
  The response parser of \<^verbatim>\<open>saturn/http/http_parser.cc\<close> and the functions around its generated machine
  (\<^verbatim>\<open>external/mongrel2/http/httpclient_parser.cc\<close>), in the manner of \<open>HttpParser\<close>.
\<close>

section \<open>The response machine\<close>

record httpclient_parser =
  hc_cs :: nat
  hc_body_start :: nat
  hc_content_len :: int
  hc_status :: int
  hc_chunked :: bool
  hc_chunks_done :: bool
  hc_close :: bool
  hc_nread :: nat
  hc_mark :: nat
  hc_field_start :: nat
  hc_field_len :: nat

definition httpclient_parser_start :: nat where "httpclient_parser_start = 1"
definition httpclient_parser_first_final :: nat where "httpclient_parser_first_final = 120"
definition httpclient_parser_error :: nat where "httpclient_parser_error = 0"

text \<open>Everything but the status.\<close>

definition httpclient_parser_init :: "httpclient_parser \<Rightarrow> httpclient_parser" where
  "httpclient_parser_init parser =
     parser\<lparr>hc_cs := httpclient_parser_start, hc_body_start := 0, hc_content_len := - 1, hc_chunked := False,
       hc_chunks_done := False, hc_mark := 0, hc_nread := 0, hc_field_len := 0, hc_field_start := 0, hc_close := False\<rparr>"

definition httpclient_parser_has_error :: "httpclient_parser \<Rightarrow> bool" where
  "httpclient_parser_has_error parser \<longleftrightarrow> hc_cs parser = httpclient_parser_error"

definition httpclient_parser_is_finished :: "httpclient_parser \<Rightarrow> bool" where
  "httpclient_parser_is_finished parser \<longleftrightarrow> hc_cs parser = httpclient_parser_first_final"

definition httpclient_parser_finish :: "httpclient_parser \<Rightarrow> int" where
  "httpclient_parser_finish parser =
     (if httpclient_parser_has_error parser then - 1 else if httpclient_parser_is_finished parser then 1 else 0)"

datatype rsp_event =
    OnReason nat nat | OnStatus nat nat | OnChunkSize nat nat | OnRspVersion nat nat | OnRspHeaderDone nat nat
  | OnLastChunk nat nat | OnRspField nat nat nat nat

type_synonym rsp_machine = "httpclient_parser \<Rightarrow> string \<Rightarrow> nat \<times> nat \<times> httpclient_parser \<times> rsp_event list"

text \<open>
  After the machine: the assertions abort, the checks give -1.  Once the end of the headers has been seen,
  \<^verbatim>\<open>nread\<close> counts one more than the machine took.
\<close>

definition httpclient_parser_settle :: "nat \<Rightarrow> nat \<Rightarrow> nat \<Rightarrow> httpclient_parser \<Rightarrow> (int \<times> httpclient_parser) res" where
  "httpclient_parser_settle len cs p parser =
     (let parser1 = parser\<lparr>hc_cs := cs, hc_nread := hc_nread parser + p\<rparr> in
      if \<not> (p \<le> len \<and> hc_nread parser1 \<le> len \<and> hc_body_start parser1 \<le> len) then Inl AssertFail
      else if \<not> (hc_mark parser1 < len \<and> hc_field_len parser1 \<le> len \<and> hc_field_start parser1 < len) then Inr (- 1, parser1)
      else let parser2 = (if hc_body_start parser1 \<noteq> 0 then parser1\<lparr>hc_nread := hc_nread parser1 + 1\<rparr> else parser1)
           in Inr (int (hc_nread parser2), parser2))"

definition httpclient_parser_execute :: "rsp_machine \<Rightarrow> (rsp_event \<Rightarrow> 'd \<Rightarrow> 'd res) \<Rightarrow> string \<Rightarrow> nat \<Rightarrow> httpclient_parser \<times> 'd \<Rightarrow>
    (int \<times> httpclient_parser \<times> 'd) res" where
  "httpclient_parser_execute run cb buffer len pd =
     (if \<not> len < length buffer then Inl OutOfBounds
      else if buffer ! len \<noteq> CHR 0x00 then Inl AssertFail
      else case run (fst pd) (take len buffer) of
             (cs, p, parser, evs) \<Rightarrow>
               bindE (callbacks cb evs (snd pd)) (\<lambda>d.
                 bindE (httpclient_parser_settle len cs p parser) (\<lambda>(n, parser'). Inr (n, parser', d))))"

section \<open>\<open>HttpResponseParser\<close>\<close>

record rs_parser =
  sp_parser :: httpclient_parser
  sp_data :: http_response
  sp_error :: int

definition newResponseParser :: "httpclient_parser \<Rightarrow> bool \<Rightarrow> rs_parser" where
  "newResponseParser memory junk =
     \<lparr>sp_parser = httpclient_parser_init memory, sp_data = HttpResponse junk 0x11 True, sp_error = 0\<rparr>"

text \<open>\<^verbatim>\<open>atoi\<close>: white space, a sign, digits; \<^verbatim>\<open>strtol\<close> saturates and the result is cut to 32 bits.\<close>

definition is_digit :: "char \<Rightarrow> bool" where
  "is_digit c \<longleftrightarrow> 48 \<le> byte_of c \<and> byte_of c \<le> 57"

definition is_space :: "char \<Rightarrow> bool" where
  "is_space c \<longleftrightarrow> byte_of c = 32 \<or> (9 \<le> byte_of c \<and> byte_of c \<le> 13)"

definition digits_val :: "string \<Rightarrow> int" where
  "digits_val s = int (foldl (\<lambda>n c. n * 10 + (byte_of c - 48)) 0 (takeWhile is_digit s))"

definition saturate_long :: "int \<Rightarrow> int" where
  "saturate_long v = max (- (2 ^ 63)) (min (2 ^ 63 - 1) v)"

definition atoi :: "string \<Rightarrow> int" where
  "atoi s =
     (let t = dropWhile is_space (c_str s)
      in to_int32 (saturate_long (case t of
           [] \<Rightarrow> 0
         | c # cs \<Rightarrow> if c = CHR ''-'' then - digits_val cs else if c = CHR ''+'' then digits_val cs else digits_val t)))"

definition on_response_reason :: "string \<Rightarrow> nat \<Rightarrow> nat \<Rightarrow> rs_parser \<Rightarrow> rs_parser res" where
  "on_response_reason buf at len sp = bindE (text_at buf at len) (\<lambda>v. Inr (sp\<lparr>sp_data := rsp_setReason (sp_data sp) v\<rparr>))"

definition on_response_status :: "string \<Rightarrow> nat \<Rightarrow> nat \<Rightarrow> rs_parser \<Rightarrow> rs_parser res" where
  "on_response_status buf at len sp = Inr (sp\<lparr>sp_data := rsp_setStatus (sp_data sp) (atoi (drop at buf))\<rparr>)"

definition on_response_version :: "string \<Rightarrow> nat \<Rightarrow> nat \<Rightarrow> rs_parser \<Rightarrow> rs_parser res" where
  "on_response_version buf at len sp =
     (case version_at buf at len of
        Some v \<Rightarrow> Inr (sp\<lparr>sp_data := rsp_setVersion (sp_data sp) v\<rparr>)
      | None \<Rightarrow> bindE (text_at buf at len) (\<lambda>_. Inr (sp\<lparr>sp_error := 1001\<rparr>)))"

definition on_response_http_field :: "string \<Rightarrow> nat \<Rightarrow> nat \<Rightarrow> nat \<Rightarrow> nat \<Rightarrow> rs_parser \<Rightarrow> rs_parser res" where
  "on_response_http_field buf field flen val vlen sp =
     (if flen = 0 then Inr sp
      else bindE (text_at buf field flen) (\<lambda>k. bindE (text_at buf val vlen) (\<lambda>v.
             Inr (sp\<lparr>sp_data := rsp_setHeader (sp_data sp) k v\<rparr>))))"

fun on_response :: "string \<Rightarrow> rsp_event \<Rightarrow> rs_parser \<Rightarrow> rs_parser res" where
  "on_response buf (OnReason at len) sp = on_response_reason buf at len sp"
| "on_response buf (OnStatus at len) sp = on_response_status buf at len sp"
| "on_response buf (OnChunkSize at len) sp = Inr sp"
| "on_response buf (OnRspVersion at len) sp = on_response_version buf at len sp"
| "on_response buf (OnRspHeaderDone at len) sp = Inr sp"
| "on_response buf (OnLastChunk at len) sp = Inr sp"
| "on_response buf (OnRspField field flen val vlen) sp = on_response_http_field buf field flen val vlen sp"

text \<open>
  \<^verbatim>\<open>execute\<close> always takes one off the number the machine's function returned: a result of 0 or -1 becomes an
  offset before the buffer.
\<close>

definition sp_execute :: "rsp_machine \<Rightarrow> string \<Rightarrow> nat \<Rightarrow> bool \<Rightarrow> rs_parser \<Rightarrow> (nat \<times> string \<times> rs_parser) res" where
  "sp_execute run data len chunk sp =
     (let parser0 = (if chunk then httpclient_parser_init (sp_parser sp) else sp_parser sp) in
      bindE (httpclient_parser_execute run (on_response data) data len (parser0, sp)) (\<lambda>(rc, parser, sp1).
        if rc \<le> 0 then Inl OutOfBounds
        else let offset = nat rc - 1
             in Inr (offset, memmove data offset (len - offset), sp1\<lparr>sp_parser := parser\<rparr>)))"

definition sp_isFinished :: "rs_parser \<Rightarrow> int" where
  "sp_isFinished sp = httpclient_parser_finish (sp_parser sp)"

definition sp_hasError :: "rs_parser \<Rightarrow> bool" where
  "sp_hasError sp \<longleftrightarrow> sp_error sp \<noteq> 0 \<or> httpclient_parser_has_error (sp_parser sp)"

definition sp_getContentLength :: "(string \<Rightarrow> u64 option) \<Rightarrow> rs_parser \<Rightarrow> u64" where
  "sp_getContentLength lexical_cast sp = getAs lexical_cast (rs_headers (sp_data sp)) ''content-length'' 0"

section \<open>Properties\<close>

text \<open>What the generated code leaves alone: it takes no more than it is given and does not touch \<^verbatim>\<open>nread\<close> or \<^verbatim>\<open>cs\<close>.\<close>

definition req_machine_ok :: "req_machine \<Rightarrow> bool" where
  "req_machine_ok run \<longleftrightarrow> (\<forall>parser s cs p parser' evs. run parser s = (cs, p, parser', evs) \<longrightarrow>
     p \<le> length s \<and> hp_nread parser' = hp_nread parser \<and> hp_cs parser' = hp_cs parser)"

definition rsp_machine_ok :: "rsp_machine \<Rightarrow> bool" where
  "rsp_machine_ok run \<longleftrightarrow> (\<forall>parser s cs p parser' evs. run parser s = (cs, p, parser', evs) \<longrightarrow>
     p \<le> length s \<and> hc_nread parser' = hc_nread parser)"

lemma memmove_left: "n \<le> length data \<Longrightarrow> k \<le> n \<Longrightarrow> take (n - k) (memmove data k (n - k)) = drop k (take n data)"
  by (simp add: memmove_def overwrite_def slice_def drop_take)

lemma length_memmove [simp]: "k \<le> n \<Longrightarrow> n \<le> length data \<Longrightarrow> length (memmove data k (n - k)) = length data"
  by (simp add: memmove_def slice_def)

lemma rp_execute_nread:
  assumes "rp_execute run data n rp = Inr (k, data', rp')" "0 < n"
  shows "hp_nread (rp_parser rp') = k" "k \<le> n"
  using assms by (auto simp: rp_execute_def http_parser_execute_def http_parser_settle_def Let_def err_simps
      split: prod.splits if_splits)

lemma rp_execute_counts:
  assumes "req_machine_ok run" "run (rp_parser rp) (take n data) = (cs, p, parser, evs)" "0 < n" "n \<le> length data"
  shows "hp_nread (rp_parser rp) + p > n \<longrightarrow> (\<exists>e. rp_execute run data n rp = Inl e)"
    "rp_execute run data n rp = Inr (k, data', rp') \<Longrightarrow>
       k = hp_nread (rp_parser rp) + p \<and> take (n - k) data' = drop k (take n data) \<and> length data' = length data"
proof -
  have ok: "p \<le> n" "hp_nread parser = hp_nread (rp_parser rp)"
    using assms unfolding req_machine_ok_def by fastforce+
  show "hp_nread (rp_parser rp) + p > n \<longrightarrow> (\<exists>e. rp_execute run data n rp = Inl e)"
    using ok assms(2,3)
    by (cases "callbacks (on_request data) evs rp")
      (auto simp: rp_execute_def http_parser_execute_def http_parser_settle_def Let_def)
  show "k = hp_nread (rp_parser rp) + p \<and> take (n - k) data' = drop k (take n data) \<and> length data' = length data"
    if "rp_execute run data n rp = Inr (k, data', rp')"
    using that ok assms(2-4) memmove_left [OF assms(4)] rp_execute_nread(2) [OF that assms(3)]
    by (auto simp: rp_execute_def http_parser_execute_def http_parser_settle_def Let_def err_simps
        split: if_splits)
qed

text \<open>
  C36: a request head in one piece and in two.  The first call of \<^verbatim>\<open>execute\<close> returns the number of bytes the
  machine took and leaves the rest at the front of the buffer.  A second call returns that number again on
  top of its own: when the sum is more than the second piece holds, the program is aborted; otherwise so many
  bytes that follow the head are lost with it.
\<close>

theorem request_head_in_pieces:
  assumes "req_machine_ok run" "run (http_parser_init junk) (take n1 d1) = (cs1, p1, parser1, evs1)" "0 < n1" "n1 \<le> length d1"
    "rp_execute run d1 n1 (newRequestParser junk) = Inr (k1, d1', rp1)"
    "run (rp_parser rp1) (take n2 d2) = (cs2, p2, parser2, evs2)" "0 < n2" "n2 \<le> length d2"
  shows "k1 = p1 \<and> take (n1 - p1) d1' = drop p1 (take n1 d1) \<and>
    (p1 + p2 > n2 \<longrightarrow> (\<exists>e. rp_execute run d2 n2 rp1 = Inl e)) \<and>
    (\<forall>k2 d2' rp2. rp_execute run d2 n2 rp1 = Inr (k2, d2', rp2) \<longrightarrow>
       k2 = p1 + p2 \<and> take (n2 - k2) d2' = drop (p1 + p2) (take n2 d2))"
proof -
  have new: "rp_parser (newRequestParser junk) = http_parser_init junk" "hp_nread (http_parser_init junk) = 0"
    by (simp_all add: newRequestParser_def http_parser_init_def)
  have k1: "k1 = p1" "take (n1 - k1) d1' = drop k1 (take n1 d1)"
    using rp_execute_counts(2) [OF assms(1) _ assms(3,4,5)] assms(2) new by auto
  have "hp_nread (rp_parser rp1) = p1" using rp_execute_nread(1) [OF assms(5,3)] k1(1) by simp
  then show ?thesis using k1 rp_execute_counts [OF assms(1,6,7,8)] by auto
qed

text \<open>A machine for the examples: it takes everything, and the head ends with the piece that ends with a line feed.\<close>

definition demoMachine :: req_machine where
  "demoMachine parser s = (if s \<noteq> [] \<and> last s = CHR 0x0A then 348 else 1, length s, parser, [])"

theorem request_head_in_pieces_witness:
  "\<exists>e. rp_execute demoMachine (''Host: a'' @ CRLF) 9 ((newRequestParser 0)\<lparr>rp_parser := (http_parser_init 0)\<lparr>hp_nread := 10\<rparr>\<rparr>) = Inl e"
proof -
  have ok: "req_machine_ok demoMachine" by (auto simp: req_machine_ok_def demoMachine_def)
  have e: "rp_execute demoMachine ''GET / HTTP'' 10 (newRequestParser 0) =
      Inr (10, ''GET / HTTP'', (newRequestParser 0)\<lparr>rp_parser := (http_parser_init 0)\<lparr>hp_nread := 10\<rparr>\<rparr>)" by code_simp
  show ?thesis
    using request_head_in_pieces [OF ok _ _ _ e, of 1 10 "http_parser_init 0" "[]" 9 "''Host: a'' @ CRLF"]
    by (simp add: demoMachine_def CRLF_def newRequestParser_def)
qed

lemma sp_execute_offset:
  assumes "rsp_machine_ok run" "hc_nread (if chunk then httpclient_parser_init (sp_parser sp) else sp_parser sp) = 0"
    "run (if chunk then httpclient_parser_init (sp_parser sp) else sp_parser sp) (take n data) = (cs, p, parser, evs)"
    "sp_execute run data n chunk sp = Inr (k, data', sp')"
  shows "sp_parser sp' = parser\<lparr>hc_cs := cs, hc_nread := p + (if hc_body_start parser \<noteq> 0 then 1 else 0)\<rparr> \<and>
    (if hc_body_start parser \<noteq> 0 then k = p \<and> take (n - k) data' = drop p (take n data)
     else Suc k = p \<and> take (n - k) data' = drop (p - 1) (take n data))"
proof -
  have n: "n < length data" using assms(4) by (auto simp: sp_execute_def httpclient_parser_execute_def Let_def split: if_splits)
  have ok: "p \<le> n" "hc_nread parser = 0" using assms(1-3) unfolding rsp_machine_ok_def by fastforce+
  define parser0 where "parser0 = (if chunk then httpclient_parser_init (sp_parser sp) else sp_parser sp)"
  obtain sp1 rc parser' where sp1: "callbacks (on_response data) evs sp = Inr sp1"
    "httpclient_parser_settle n cs p parser = Inr (rc, parser')" "\<not> rc \<le> 0" "k = nat rc - 1"
    "data' = memmove data k (n - k)" "sp' = sp1\<lparr>sp_parser := parser'\<rparr>"
    using assms(3,4) unfolding sp_execute_def httpclient_parser_execute_def Let_def parser0_def [symmetric]
    by (auto simp: err_simps split: if_splits)
  have settle: "parser' = parser\<lparr>hc_cs := cs, hc_nread := p + (if hc_body_start parser \<noteq> 0 then 1 else 0)\<rparr>" "rc = int (hc_nread parser')"
    using sp1(2,3) ok by (auto simp: httpclient_parser_settle_def Let_def split: if_splits)
  have k: "k = (if hc_body_start parser \<noteq> 0 then p else p - 1)" "hc_body_start parser = 0 \<Longrightarrow> 0 < p"
    using sp1(3,4) settle by (auto split: if_splits)
  then have "take (n - k) data' = drop k (take n data)" using sp1(5) memmove_left [of n data k] n ok(1) by auto
  then show ?thesis using settle(1) sp1(6) k by auto
qed

text \<open>
  The number \<^verbatim>\<open>HttpResponseParser::execute\<close> returns, for a parser that has read nothing yet.  When the
  machine saw the end of the head, it is the number of bytes taken, and the bytes that follow are moved to the
  front of the buffer.  When it did not, the last byte it took is kept and will be parsed a second time.
\<close>

theorem response_head_offset:
  assumes "rsp_machine_ok run" "hc_nread (if chunk then httpclient_parser_init (sp_parser sp) else sp_parser sp) = 0"
    "run (if chunk then httpclient_parser_init (sp_parser sp) else sp_parser sp) (take n data) = (cs, p, parser, evs)"
    "sp_execute run data n chunk sp = Inr (k, data', sp')"
  shows "sp_parser sp' = parser\<lparr>hc_cs := cs, hc_nread := p + (if hc_body_start parser \<noteq> 0 then 1 else 0)\<rparr> \<and>
    (if hc_body_start parser \<noteq> 0 then k = p \<and> take (n - k) data' = drop p (take n data)
     else Suc k = p \<and> take (n - k) data' = drop (p - 1) (take n data))"
  using assms by (rule sp_execute_offset)

text \<open>The end of the head is the piece that ends with a line feed.\<close>

definition demoRspMachine :: rsp_machine where
  "demoRspMachine parser s =
     (if s \<noteq> [] \<and> last s = CHR 0x0A then (120, length s, parser\<lparr>hc_body_start := length s\<rparr>, [])
      else (2, length s, parser, []))"

definition demoClient :: httpclient_parser where
  "demoClient = \<lparr>hc_cs = 0, hc_body_start = 0, hc_content_len = 0, hc_status = 0, hc_chunked = False, hc_chunks_done = False,
     hc_close = False, hc_nread = 0, hc_mark = 0, hc_field_start = 0, hc_field_len = 0\<rparr>"

theorem response_head_offset_witness:
  "\<exists>k data' sp'. sp_execute demoRspMachine ''HTTP/1.1 2'' 9 False (newResponseParser demoClient False) = Inl AssertFail \<and>
     sp_execute demoRspMachine (''HTTP/1.1'' @ [CHR 0x00]) 8 False (newResponseParser demoClient False) = Inr (k, data', sp') \<and>
     Suc k = 8 \<and> take (8 - k) data' = ''1''"
proof -
  have ok: "rsp_machine_ok demoRspMachine" by (auto simp: rsp_machine_ok_def demoRspMachine_def split: if_splits)
  have bad: "sp_execute demoRspMachine ''HTTP/1.1 2'' 9 False (newResponseParser demoClient False) = Inl AssertFail" by code_simp
  have "case_sum (\<lambda>_. False) (\<lambda>_. True) (sp_execute demoRspMachine (''HTTP/1.1'' @ [CHR 0x00]) 8 False (newResponseParser demoClient False))"
    by code_simp
  then obtain k data' sp' where e: "sp_execute demoRspMachine (''HTTP/1.1'' @ [CHR 0x00]) 8 False (newResponseParser demoClient False) = Inr (k, data', sp')"
    by (auto split: sum.splits)
  have "hc_nread (httpclient_parser_init demoClient) = 0" by (simp add: httpclient_parser_init_def)
  with response_head_offset [OF ok _ _ e] have "Suc k = 8 \<and> take (8 - k) data' = ''1''"
    by (auto simp: newResponseParser_def demoRspMachine_def httpclient_parser_init_def)
  then show ?thesis using e bad by blast
qed

end
