(* ===== verification/HttpSession.thy ===== *)
theory HttpSession
  imports HttpParserClient
begin

text \<open>
  The server's side of a connection (\<^verbatim>\<open>saturn/http/http_session.cc\<close>): receiving a request, sending a response.
  A session is a socket stream; \<open>hs\<close> holds it with the state of the hooks, which its closing changes, and \<open>k\<close> is
  the connection in the kernel.  \<open>mem\<close> is the memory the buffer is allocated in.
\<close>

section \<open>Receiving\<close>

text \<open>
  The loop of \<^verbatim>\<open>recvRequest\<close>; the result of the loop is \<open>None\<close> where the code closes the session.  \<open>offset\<close>
  bytes of the buffer are waiting to be parsed.
\<close>

partial_function (option) recv_loop ::
  "req_machine \<Rightarrow> (char, 'k) reader \<Rightarrow> socket_stream \<Rightarrow> nat \<Rightarrow> string \<Rightarrow> nat \<Rightarrow> rq_parser \<Rightarrow> 'k \<Rightarrow>
    ((rq_parser \<times> string \<times> nat) option \<times> 'k) res option" where
  "recv_loop run recv st buff_size data offset rp k =
     (case ss_read recv st (buff_size - offset) k of
        (len, bs, k1) \<Rightarrow>
          if len \<le> 0 then Some (Inr (None, k1))
          else
            (case rp_execute run (overwrite data offset bs) (nat len + offset) rp of
               Inl e \<Rightarrow> Some (Inl e)
             | Inr (nparse, data1, rp1) \<Rightarrow>
                 if rp_hasError rp1 then Some (Inr (None, k1))
                 else
                   (let offset1 = nat len + offset - nparse in
                    if offset1 = buff_size then Some (Inr (None, k1))
                    else if rp_isFinished rp1 \<noteq> 0 then Some (Inr (Some (rp1, data1, offset1), k1))
                    else recv_loop run recv st buff_size data1 offset1 rp1 k1)))"

declare recv_loop.simps [code]

text \<open>The body: what is left in the buffer, then what is still to come.  \<open>len\<close> is positive.\<close>

definition recv_body :: "(char, 'k) reader \<Rightarrow> socket_stream \<Rightarrow> nat \<Rightarrow> string \<Rightarrow> nat \<Rightarrow> 'k \<Rightarrow> string option \<times> 'k" where
  "recv_body recv st len data offset k =
     (let have_now = (if len \<ge> offset then offset else len);
          body = overwrite (replicate len (CHR 0x00)) 0 (take have_now data)
      in if len > offset then
           (case readFixSize (ss_read recv st) (len - offset) k of
              (r, bs, k1) \<Rightarrow> if r \<le> 0 then (None, k1) else (Some (overwrite body have_now bs), k1))
         else (Some body, k))"

text \<open>\<open>alloc n\<close> tells whether a string of \<open>n\<close> characters can be allocated.\<close>

definition recvRequest :: "req_machine \<Rightarrow> (string \<Rightarrow> u64 option) \<Rightarrow> (nat \<Rightarrow> bool) \<Rightarrow> (char, 'k) reader \<Rightarrow> nat \<Rightarrow> string \<Rightarrow> nat \<Rightarrow>
    bool \<Rightarrow> bool \<Rightarrow> hooksys \<times> socket_stream \<Rightarrow> 'k \<Rightarrow> (http_request option \<times> (hooksys \<times> socket_stream) \<times> 'k) res option" where
  "recvRequest run lexical_cast alloc recv buff_size mem junk en ok hs k =
     map_option (\<lambda>r. bindE r (\<lambda>(found, k1).
       case found of
         None \<Rightarrow> bindE (ss_close en ok hs) (\<lambda>hs'. Inr (None, hs', k1))
       | Some (rp, data, offset) \<Rightarrow>
           (let len = sint (rp_getContentLength lexical_cast rp) in
            if len > 0 then
              if \<not> alloc (nat len) then Inl BadAlloc
              else (case recv_body recv (snd hs) (nat len) data offset k1 of
                      (None, k2) \<Rightarrow> bindE (ss_close en ok hs) (\<lambda>hs'. Inr (None, hs', k2))
                    | (Some body, k2) \<Rightarrow> Inr (Some (init (setBody (rp_data rp) body)), hs, k2))
            else Inr (Some (init (rp_data rp)), hs, k1))))
     (recv_loop run recv (snd hs) buff_size mem 0 (newRequestParser junk) k)"

section \<open>Sending\<close>

definition sendResponse :: "(char, 'k) writer \<Rightarrow> socket_stream \<Rightarrow> http_response \<Rightarrow> 'k \<Rightarrow> int \<times> 'k" where
  "sendResponse send st rsp k = writeFixSize (ss_write send st) (dump_response rsp) k"

section \<open>The loop ends\<close>

text \<open>Every turn takes at least one byte off the connection.\<close>

locale text_recv = kernel_recv recv input
  for recv :: "(char, 'k) reader" and input :: "'k \<Rightarrow> string"
begin

lemma ss_read_law:
  assumes "ss_read recv st n k = (len, bs, k')"
  shows "length bs = nat len" "length bs \<le> n" "input k = bs @ input k'"
  using assms recv_count [of n k] recv_next [of n k] to_int32_fits [OF recv_fits, of n k]
  by (auto simp: ss_read_def split: if_splits prod.splits)

lemma recv_loop_ends:
  "\<exists>r. recv_loop run recv st buff_size data offset rp k = Some r \<and>
     (\<forall>found k'. r = Inr (found, k') \<longrightarrow> (\<exists>bs. input k = bs @ input k' \<and> (found \<noteq> None \<longrightarrow> bs \<noteq> [])))"
proof (induction "length (input k)" arbitrary: data offset rp k rule: less_induct)
  case less
  obtain len bs k1 where rd: "ss_read recv st (buff_size - offset) k = (len, bs, k1)" by (metis prod_cases3)
  note law = ss_read_law [OF rd]
  note step = recv_loop.simps [of run recv st buff_size data offset rp k]
  show ?case
  proof (cases "len \<le> 0")
    case True
    then show ?thesis using rd law step by auto
  next
    case False
    then have bs: "bs \<noteq> []" using law(1) by auto
    show ?thesis
    proof (cases "rp_execute run (overwrite data offset bs) (nat len + offset) rp")
      case (Inl e)
      then show ?thesis using rd False step by simp
    next
      case (Inr r)
      obtain nparse data1 rp1 where r: "r = (nparse, data1, rp1)" by (metis prod_cases3)
      have lt: "length (input k1) < length (input k)" using law(3) bs by simp
      from less [OF lt, of data1 "nat len + offset - nparse" rp1]
      show ?thesis using rd False Inr r step law(3) bs by (auto simp: Let_def)
    qed
  qed
qed

lemma readFixSize_law:
  assumes "readFixSize (ss_read recv st) n k = (r, bs, k')"
  shows "input k = bs @ input k'" "n < 2 ^ 31 \<Longrightarrow> 0 < r \<Longrightarrow> length bs = n"
proof -
  obtain e where "readFix (ss_read recv st) (to_s64 n) k = (e, bs, k')"
    using assms by (auto simp: readFixSize_def split: prod.splits option.splits)
  then show "input k = bs @ input k'" using src.readFix_spec by blast
  show "length bs = n" if "n < 2 ^ 31" "0 < r" using readFixSize_reads [OF that(1) assms] that(2) by auto
qed

lemma recv_body_law:
  assumes "recv_body recv st len data offset k = (b, k')"
  shows "\<exists>bs. input k = bs @ input k'"
    "len < 2 ^ 31 \<Longrightarrow> offset \<le> length data \<Longrightarrow> b = Some body \<Longrightarrow>
       body = take len (take offset data @ input k) \<and> input k' = drop (len - offset) (input k)"
proof -
  obtain r bs k1 where rd: "readFixSize (ss_read recv st) (len - offset) k = (r, bs, k1)" by (metis prod_cases3)
  note law = readFixSize_law [OF rd]
  show "\<exists>bs. input k = bs @ input k'"
    using assms rd law(1) by (auto simp: recv_body_def Let_def split: if_splits)
  assume *: "len < 2 ^ 31" "offset \<le> length data" "b = Some body"
  show "body = take len (take offset data @ input k) \<and> input k' = drop (len - offset) (input k)"
  proof (cases "len > offset")
    case True
    then have "0 < r" "k' = k1" "body = overwrite (overwrite (replicate len (CHR 0x00)) 0 (take offset data)) offset bs"
      using assms rd *(3) by (auto simp: recv_body_def Let_def split: if_splits)
    moreover have "length bs = len - offset" using law(2) *(1) \<open>0 < r\<close> by simp
    ultimately show ?thesis using law(1) True *(2) by (simp add: overwrite_def)
  next
    case False
    then show ?thesis using assms *(2,3) by (auto simp: recv_body_def Let_def overwrite_def min_def split: if_splits)
  qed
qed

text \<open>What a call leaves of the connection.\<close>

lemma recvRequest_ends:
  "\<exists>r. recvRequest run lexical_cast alloc recv buff_size mem junk en ok hs k = Some r \<and>
     (\<forall>rq hs' k'. r = Inr (rq, hs', k') \<longrightarrow>
        (\<exists>bs. input k = bs @ input k' \<and> (rq \<noteq> None \<longrightarrow> bs \<noteq> [] \<and> hs' = hs)))"
proof -
  obtain r where r: "recv_loop run recv (snd hs) buff_size mem 0 (newRequestParser junk) k = Some r"
    "\<forall>found k'. r = Inr (found, k') \<longrightarrow> (\<exists>bs. input k = bs @ input k' \<and> (found \<noteq> None \<longrightarrow> bs \<noteq> []))"
    using recv_loop_ends by blast
  show ?thesis
  proof (cases r)
    case (Inl e)
    then show ?thesis using r(1) by (simp add: recvRequest_def)
  next
    case (Inr x)
    obtain found k1 where x: "x = (found, k1)" by fastforce
    then obtain bs where bs: "input k = bs @ input k1" "found \<noteq> None \<longrightarrow> bs \<noteq> []" using r(2) Inr by blast
    show ?thesis
    proof (cases found)
      case None
      then show ?thesis using r(1) Inr x bs by (auto simp: recvRequest_def err_simps)
    next
      case (Some f)
      obtain rp data offset where f: "f = (rp, data, offset)" by (metis prod_cases3)
      let ?len = "sint (rp_getContentLength lexical_cast rp)"
      obtain b k2 where b: "recv_body recv (snd hs) (nat ?len) data offset k1 = (b, k2)" by fastforce
      obtain bs2 where "input k1 = bs2 @ input k2" using recv_body_law(1) [OF b] by blast
      then show ?thesis using r(1) Inr x bs Some f b
        by (auto simp: recvRequest_def Let_def err_simps split: if_splits option.splits)
    qed
  qed
qed

end

interpretation tcr: text_recv "conn_recv :: (char, char conn) reader" c_in
  by unfold_locales

section \<open>Properties\<close>

text \<open>
  Receiving a request ends, for every machine, buffer and connection: however the bytes come in, the
  session gives a request, closes, or the program is stopped by an error; what it has not used of the
  connection is the rest of it, and a request uses at least one byte.
\<close>

theorem recvRequest_terminates:
  assumes "text_recv recv input"
  shows "\<exists>r. recvRequest run lexical_cast alloc recv buff_size mem junk en ok hs k = Some r \<and>
     (\<forall>rq hs' k'. r = Inr (rq, hs', k') \<longrightarrow>
        (\<exists>bs. input k = bs @ input k' \<and> (rq \<noteq> None \<longrightarrow> bs \<noteq> [] \<and> hs' = hs)))"
  by (rule text_recv.recvRequest_ends [OF assms])

definition demoText :: "char conn" where
  "demoText = \<lparr>c_in = ''POST /'' @ [CHR 0x0A] @ ''abcdefg'', c_out = [], c_script = [9]\<rparr>"

theorem recvRequest_terminates_witness:
  "\<exists>r. recvRequest demoMachine (\<lambda>_. Some 5) (\<lambda>_. True) conn_recv 64 (replicate 64 (CHR 0x00)) 0 True True (demoHook, demoStream) demoText = Some r"
  using recvRequest_terminates [OF tcr.text_recv_axioms] by blast

text \<open>The first turn of the loop, when it finishes the head.\<close>

lemma recv_loop_one:
  assumes "ss_read recv st buff_size k = (int n, c, k1)" "0 < n"
    "rp_execute run (overwrite mem 0 c) n rp0 = Inr (p, data, rp)" "\<not> rp_hasError rp" "rp_isFinished rp \<noteq> 0" "n - p \<noteq> buff_size"
  shows "recv_loop run recv st buff_size mem 0 rp0 k = Some (Inr (Some (rp, data, n - p), k1))"
  using assms by (simp add: recv_loop.simps [of run recv st buff_size mem 0])

lemma recvRequest_first:
  assumes "text_recv recv input" "req_machine_ok run" "length mem = buff_size" "sock_ok (fst hs) sk" "m_socket (snd hs) = Some sk"
    "ss_read recv (snd hs) buff_size k = (int n, c, k1)" "0 < n" "0 < p"
    "run (http_parser_init junk) c = (cs, p, parser, evs)"
    "rp_execute run (overwrite mem 0 c) n (newRequestParser junk) = Inr (q, data, rp)" "\<not> rp_hasError rp" "rp_isFinished rp \<noteq> 0"
    "sint (rp_getContentLength lexical_cast rp) = int len" "0 < len" "len < 2 ^ 31" "alloc len"
  shows "\<exists>rq hs' k'. recvRequest run lexical_cast alloc recv buff_size mem junk True True hs k = Some (Inr (rq, hs', k')) \<and>
    (case rq of
       None \<Rightarrow> \<not> ss_isConnected (snd hs')
     | Some r \<Rightarrow> r = init (setBody (rp_data rp) (take len (drop p (input k)))) \<and>
                 input k' = drop (max n (p + len)) (input k))"
proof -
  note law = text_recv.ss_read_law [OF assms(1,6)]
  have c: "length c = n" "n \<le> buff_size" "input k = c @ input k1" using law by auto
  have ow: "take n (overwrite mem 0 c) = c" "length (overwrite mem 0 c) = buff_size"
    using c(1,2) assms(3) by (simp_all add: overwrite_def)
  have new: "rp_parser (newRequestParser junk) = http_parser_init junk" "hp_nread (http_parser_init junk) = 0"
    by (simp_all add: newRequestParser_def http_parser_init_def)
  have cnt: "q = p" "take (n - p) data = drop p c" "length data = buff_size" "p \<le> n"
    using rp_execute_counts(2) [OF assms(2) _ assms(7) _ assms(10)] rp_execute_nread(2) [OF assms(10,7)] assms(9) new ow c(2) by auto
  have loop: "recv_loop run recv (snd hs) buff_size mem 0 (newRequestParser junk) k = Some (Inr (Some (rp, data, n - p), k1))"
    by (rule recv_loop_one [OF assms(6,7) _ assms(11,12)]) (use assms(8,10) cnt(1,4) c(2) in auto)
  obtain s1 st1 where close: "ss_close True True hs = Inr (s1, st1)" "\<not> ss_isConnected st1"
    using sock_close_ok [OF assms(4)] assms(5) by (cases hs) (auto simp: ss_close_def ss_isConnected_def)
  obtain b k2 where b: "recv_body recv (snd hs) len data (n - p) k1 = (b, k2)" by fastforce
  have "take len (take (n - p) data @ input k1) = take len (drop p (input k))" "drop (len - (n - p)) (input k1) = drop (max n (p + len)) (input k)"
    using cnt c(1,3) by (auto simp: max_def add.commute)
  then have "body = take len (drop p (input k)) \<and> input k2 = drop (max n (p + len)) (input k)" if "b = Some body" for body
    using text_recv.recv_body_law(2) [OF assms(1) b assms(15) _ that] cnt(3) c(2) by auto
  then show ?thesis
    using loop assms(13,14,16) b close by (cases b) (auto simp: recvRequest_def Let_def)
qed


definition demoHead :: req_machine where
  "demoHead parser s = (348, min 17 (length s), parser, [OnField 0 14 15 1])"

definition demoPost :: "char conn" where
  "demoPost = \<lparr>c_in = ''Content-Length:5'' @ [CHR 0x0A] @ ''abcdefg'', c_out = [], c_script = [20]\<rparr>"


end
