(* ===== verification/Servlet.thy ===== *)
theory Servlet
  imports HttpSession
begin

text \<open>
  Servlets and their dispatch (\<^verbatim>\<open>saturn/http/servlet.cc\<close>).  A handler gets the request, the response it may
  change and the connection of the session.  A null pointer to a servlet is \<open>None\<close>.  \<^verbatim>\<open>fnmatch\<close> is the parameter
  \<open>matches\<close>: whether a pattern matches a path.
\<close>

section \<open>Servlets\<close>

type_synonym 'k handler = "http_request \<Rightarrow> http_response \<Rightarrow> 'k \<Rightarrow> int \<times> http_response \<times> 'k"

datatype 'k servlet = NotFoundServlet | FunctionServlet "'k handler"

definition getName :: "'k servlet \<Rightarrow> string" where
  "getName slt = (case slt of NotFoundServlet \<Rightarrow> ''NotFoundServlet'' | FunctionServlet _ \<Rightarrow> ''FunctionServlet'')"

definition NOT_FOUND :: int where "NOT_FOUND = 404"

definition RSP_BODY :: string where
  "RSP_BODY = ''<html><head><title>404 Not Found'' @
     ''</title></head><body><center><h1>404 Not Found</h1></center>'' @
     ''<hr><center>saturn/1.0.0</center></body></html>''"

definition notFound_handle :: "'k handler" where
  "notFound_handle request response k =
     (0, rsp_setBody (rsp_setHeader (rsp_setHeader (rsp_setStatus response NOT_FOUND) ''Server'' ''saturn/1.0.0'')
           ''Content-Type'' ''text/html'') RSP_BODY, k)"

fun slt_handle :: "'k servlet \<Rightarrow> 'k handler" where
  "slt_handle NotFoundServlet request response k = notFound_handle request response k"
| "slt_handle (FunctionServlet cb) request response k = cb request response k"

section \<open>\<open>ServletDispatch\<close>\<close>

record 'k dispatch =
  m_datas :: "string \<rightharpoonup> 'k servlet option"
  m_globs :: "(string \<times> 'k servlet option) list"
  m_default :: "'k servlet option"

definition ServletDispatch :: "'k dispatch" where
  "ServletDispatch = \<lparr>m_datas = Map.empty, m_globs = [], m_default = Some NotFoundServlet\<rparr>"

definition setDefault :: "'k servlet option \<Rightarrow> 'k dispatch \<Rightarrow> 'k dispatch" where
  "setDefault v d = d\<lparr>m_default := v\<rparr>"

definition addServlet :: "string \<Rightarrow> 'k servlet option \<Rightarrow> 'k dispatch \<Rightarrow> 'k dispatch" where
  "addServlet uri slt d = d\<lparr>m_datas := (m_datas d)(uri \<mapsto> slt)\<rparr>"

definition addServletCb :: "string \<Rightarrow> 'k handler \<Rightarrow> 'k dispatch \<Rightarrow> 'k dispatch" where
  "addServletCb uri cb d = d\<lparr>m_datas := (m_datas d)(uri \<mapsto> Some (FunctionServlet cb))\<rparr>"

text \<open>The loop that erases the first pattern equal to \<^verbatim>\<open>uri\<close>, and the one that finds it.\<close>

fun erase_glob :: "string \<Rightarrow> (string \<times> 'v) list \<Rightarrow> (string \<times> 'v) list" where
  "erase_glob uri [] = []"
| "erase_glob uri ((g, v) # gs) = (if g = uri then gs else (g, v) # erase_glob uri gs)"

definition addGlobServlet :: "string \<Rightarrow> 'k servlet option \<Rightarrow> 'k dispatch \<Rightarrow> 'k dispatch" where
  "addGlobServlet uri slt d = d\<lparr>m_globs := erase_glob uri (m_globs d) @ [(uri, slt)]\<rparr>"

definition addGlobServletCb :: "string \<Rightarrow> 'k handler \<Rightarrow> 'k dispatch \<Rightarrow> 'k dispatch" where
  "addGlobServletCb uri cb d = addGlobServlet uri (Some (FunctionServlet cb)) d"

definition delServlet :: "string \<Rightarrow> 'k dispatch \<Rightarrow> 'k dispatch" where
  "delServlet uri d = d\<lparr>m_datas := (m_datas d)(uri := None)\<rparr>"

definition delGlobServlet :: "string \<Rightarrow> 'k dispatch \<Rightarrow> 'k dispatch" where
  "delGlobServlet uri d = d\<lparr>m_globs := erase_glob uri (m_globs d)\<rparr>"

definition getServlet :: "string \<Rightarrow> 'k dispatch \<Rightarrow> 'k servlet option" where
  "getServlet uri d = (case m_datas d uri of None \<Rightarrow> None | Some slt \<Rightarrow> slt)"

fun find_glob :: "(string \<Rightarrow> bool) \<Rightarrow> (string \<times> 'v) list \<Rightarrow> 'v option" where
  "find_glob P [] = None"
| "find_glob P ((g, v) # gs) = (if P g then Some v else find_glob P gs)"

definition getGlobServlet :: "string \<Rightarrow> 'k dispatch \<Rightarrow> 'k servlet option" where
  "getGlobServlet uri d = (case find_glob (\<lambda>g. g = uri) (m_globs d) of None \<Rightarrow> None | Some slt \<Rightarrow> slt)"

definition getMatchedServlet :: "(string \<Rightarrow> string \<Rightarrow> bool) \<Rightarrow> string \<Rightarrow> 'k dispatch \<Rightarrow> 'k servlet option" where
  "getMatchedServlet matches uri d =
     (case m_datas d uri of
        Some slt \<Rightarrow> slt
      | None \<Rightarrow> (case find_glob (\<lambda>g. matches (c_str g) (c_str uri)) (m_globs d) of
                   Some slt \<Rightarrow> slt
                 | None \<Rightarrow> m_default d))"

definition dispatch_handle :: "(string \<Rightarrow> string \<Rightarrow> bool) \<Rightarrow> 'k dispatch \<Rightarrow> 'k handler" where
  "dispatch_handle matches d request response k =
     (case getMatchedServlet matches (rq_path request) d of
        Some slt \<Rightarrow> (case slt_handle slt request response k of (_, response', k') \<Rightarrow> (0, response', k'))
      | None \<Rightarrow> (0, response, k))"

section \<open>Tables built by the operations\<close>

inductive dispatch_reach :: "'k dispatch \<Rightarrow> bool" where
  new: "dispatch_reach ServletDispatch"
| deflt: "dispatch_reach d \<Longrightarrow> dispatch_reach (setDefault v d)"
| add: "dispatch_reach d \<Longrightarrow> dispatch_reach (addServlet uri slt d)"
| addCb: "dispatch_reach d \<Longrightarrow> dispatch_reach (addServletCb uri cb d)"
| addGlob: "dispatch_reach d \<Longrightarrow> dispatch_reach (addGlobServlet uri slt d)"
| addGlobCb: "dispatch_reach d \<Longrightarrow> dispatch_reach (addGlobServletCb uri cb d)"
| del: "dispatch_reach d \<Longrightarrow> dispatch_reach (delServlet uri d)"
| delGlob: "dispatch_reach d \<Longrightarrow> dispatch_reach (delGlobServlet uri d)"

lemma set_erase_glob: "set (map fst (erase_glob uri gs)) \<subseteq> set (map fst gs)"
  by (induction uri gs rule: erase_glob.induct) auto

lemma erase_glob_filter:
  "distinct (map fst gs) \<Longrightarrow> erase_glob uri gs = filter (\<lambda>(g, v). g \<noteq> uri) gs"
proof (induction uri gs rule: erase_glob.induct)
  case (2 uri g v gs)
  moreover have "filter (\<lambda>(h, w). h \<noteq> g) gs = gs" if "g \<notin> fst ` set gs"
    using that by (induction gs) auto
  ultimately show ?case by auto
qed simp

lemma find_glob_append: "find_glob P (xs @ ys) = (case find_glob P xs of None \<Rightarrow> find_glob P ys | Some v \<Rightarrow> Some v)"
  by (induction P xs rule: find_glob.induct) auto

lemma find_glob_none: "(\<And>g v. (g, v) \<in> set gs \<Longrightarrow> \<not> P g) \<Longrightarrow> find_glob P gs = None"
  by (induction gs) (auto simp: split_paired_all)

lemma globs_distinct: "dispatch_reach d \<Longrightarrow> distinct (map fst (m_globs d))"
  by (induction rule: dispatch_reach.induct)
    (auto simp: ServletDispatch_def setDefault_def addServlet_def addServletCb_def addGlobServlet_def addGlobServletCb_def
      delServlet_def delGlobServlet_def erase_glob_filter distinct_map inj_on_def)


definition demoDispatch :: "char conn dispatch" where
  "demoDispatch = addGlobServlet ''/a*'' (Some NotFoundServlet) (addServlet ''/x'' None ServletDispatch)"


end
