(* ===== verification/HttpServer.thy ===== *)
theory HttpServer
  imports Servlet
begin

text \<open>
  The HTTP server's handling of a client (\<^verbatim>\<open>saturn/http/http_server.cc\<close>): requests are received, dispatched and
  answered until the connection is to be closed.  \<open>env\<close> holds what the code takes from elsewhere: the
  generated machine, the number conversion, the memory, the kernel's receive and send.
\<close>

record 'k http_env =
  e_run :: req_machine
  e_cast :: "string \<Rightarrow> u64 option"
  e_alloc :: "nat \<Rightarrow> bool"
  e_recv :: "(char, 'k) reader"
  e_send :: "(char, 'k) writer"
  e_buff :: nat
  e_mem :: string
  e_junk :: nat
  e_junkb :: bool

record 'k http_server =
  hs_keepalive :: bool
  hs_name :: string
  hs_handle :: "'k handler"

definition server_recv :: "'k http_env \<Rightarrow> hooksys \<times> socket_stream \<Rightarrow> 'k \<Rightarrow> (http_request option \<times> (hooksys \<times> socket_stream) \<times> 'k) res option" where
  "server_recv env hs k =
     recvRequest (e_run env) (e_cast env) (e_alloc env) (e_recv env) (e_buff env) (e_mem env) (e_junk env) True True hs k"

text \<open>The answer to one request.\<close>

definition answer :: "'k http_env \<Rightarrow> 'k http_server \<Rightarrow> http_request \<Rightarrow> 'k \<Rightarrow> http_response \<times> 'k" where
  "answer env srv req k =
     (let rsp = rsp_setHeader (HttpResponse (e_junkb env) (rq_version req) (rq_close req \<or> \<not> hs_keepalive srv)) ''Server'' (hs_name srv)
      in snd (hs_handle srv req rsp k))"

partial_function (option) handle_loop ::
  "'k http_env \<Rightarrow> 'k http_server \<Rightarrow> hooksys \<times> socket_stream \<Rightarrow> 'k \<Rightarrow> ((hooksys \<times> socket_stream) \<times> 'k) res option" where
  "handle_loop env srv hs k =
     Option.bind (server_recv env hs k) (\<lambda>r.
       case r of
         Inl e \<Rightarrow> Some (Inl e)
       | Inr (req, hs1, k1) \<Rightarrow>
           (case req of
              None \<Rightarrow> Some (Inr (hs1, k1))
            | Some rq \<Rightarrow>
                (case answer env srv rq k1 of
                   (rsp, k2) \<Rightarrow>
                     (case sendResponse (e_send env) (snd hs1) rsp k2 of
                        (_, k3) \<Rightarrow>
                          if \<not> hs_keepalive srv \<or> rq_close rq then Some (Inr (hs1, k3)) else handle_loop env srv hs1 k3))))"

declare handle_loop.simps [code]

definition handleClient :: "'k http_env \<Rightarrow> 'k http_server \<Rightarrow> hooksys \<times> socket_stream \<Rightarrow> 'k \<Rightarrow>
    ((hooksys \<times> socket_stream) \<times> 'k) res option" where
  "handleClient env srv hs k =
     map_option (\<lambda>r. bindE r (\<lambda>(hs1, k1). bindE (ss_close True True hs1) (\<lambda>hs2. Inr (hs2, k1)))) (handle_loop env srv hs k)"

definition HttpServer :: "bool \<Rightarrow> (string \<Rightarrow> string \<Rightarrow> bool) \<Rightarrow> 'k dispatch \<Rightarrow> 'k http_server" where
  "HttpServer keepalive matches d = \<lparr>hs_keepalive = keepalive, hs_name = ''saturn/1.0.0'', hs_handle = dispatch_handle matches d\<rparr>"

section \<open>Sessions stay sound\<close>

definition sess_ok :: "hooksys \<times> socket_stream \<Rightarrow> bool" where
  "sess_ok hs \<longleftrightarrow> (\<exists>sk. m_socket (snd hs) = Some sk \<and> sock_ok (fst hs) sk)"

lemma ss_close_ok:
  assumes "sess_ok hs"
  shows "\<exists>hs'. ss_close True True hs = Inr hs' \<and> sess_ok hs' \<and> \<not> ss_isConnected (snd hs')"
  using assms sock_close_ok by (cases hs) (fastforce simp: sess_ok_def ss_close_def ss_isConnected_def)

lemma recvRequest_none:
  assumes "recvRequest run lexical_cast alloc recv buff_size mem junk en ok hs k = Some (Inr (None, hs', k'))"
  shows "ss_close en ok hs = Inr hs'"
proof -
  obtain found k1 where l: "recv_loop run recv (snd hs) buff_size mem 0 (newRequestParser junk) k = Some (Inr (found, k1))"
    using assms by (fastforce simp: recvRequest_def err_simps)
  show ?thesis
  proof (cases found)
    case None
    then show ?thesis using assms l by (auto simp: recvRequest_def err_simps)
  next
    case (Some f)
    obtain rp data offset where f: "f = (rp, data, offset)" by (metis prod_cases3)
    let ?len = "nat (sint (rp_getContentLength lexical_cast rp))"
    obtain b k2 where "recv_body recv (snd hs) ?len data offset k1 = (b, k2)" by fastforce
    then show ?thesis using assms l Some f
      by (cases b) (auto simp: recvRequest_def Let_def err_simps split: if_splits)
  qed
qed

section \<open>The loop ends\<close>

text \<open>
  What the server needs of its surroundings: bytes come in as the kernel promises, and neither sending nor a
  handler gives bytes back to the incoming side.
\<close>

locale server_env = text_recv "e_recv env" input for env :: "'k http_env" and input :: "'k \<Rightarrow> string" +
  fixes srv :: "'k http_server"
  assumes send_in: "e_send env bs k = (rt, k') \<Longrightarrow> input k' = input k"
    and handle_in: "hs_handle srv rq rsp k = (r, rsp', k') \<Longrightarrow> length (input k') \<le> length (input k)"
begin

lemma ss_write_in: "ss_write (e_send env) st bs k = (rt, k') \<Longrightarrow> input k' = input k"
  using send_in [of bs k] by (auto simp: ss_write_def split: if_splits prod.splits)

lemma writeFix_in: "writeFix (ss_write (e_send env) st) bs off left k = (r, k') \<Longrightarrow> input k' = input k"
proof (induction "nat left" arbitrary: left off k r k' rule: less_induct)
  case less
  obtain len k1 where w: "ss_write (e_send env) st (take (nat left) (drop off bs)) k = (len, k1)" by fastforce
  show ?case
  proof (cases "left > 0 \<and> len > 0")
    case True
    then have lt: "nat (left - len) < nat left" by auto
    have rest: "writeFix (ss_write (e_send env) st) bs (off + nat len) (left - len) k1 = (r, k')"
      using less.prems w True by (simp add: writeFix.simps [of "ss_write (e_send env) st" bs off left])
    show ?thesis using less.hyps [OF lt rest] ss_write_in [OF w] by simp
  next
    case False
    then show ?thesis using less.prems w ss_write_in [OF w]
      by (auto simp: writeFix.simps [of "ss_write (e_send env) st" bs off left] split: if_splits)
  qed
qed

lemma sendResponse_in: "sendResponse (e_send env) st rsp k = (r, k') \<Longrightarrow> input k' = input k"
  using writeFix_in by (auto simp: sendResponse_def writeFixSize_def split: prod.splits option.splits)

lemma answer_in: "answer env srv rq k = (rsp, k') \<Longrightarrow> length (input k') \<le> length (input k)"
  using handle_in by (auto simp: answer_def Let_def) (metis prod.collapse)

lemma server_recv_ends:
  assumes "sess_ok hs"
  shows "\<exists>r. server_recv env hs k = Some r \<and>
    (\<forall>rq hs' k'. r = Inr (rq, hs', k') \<longrightarrow> sess_ok hs' \<and> (rq \<noteq> None \<longrightarrow> hs' = hs \<and> length (input k') < length (input k)))"
proof -
  obtain r where r: "server_recv env hs k = Some r"
    "\<forall>rq hs' k'. r = Inr (rq, hs', k') \<longrightarrow> (\<exists>bs. input k = bs @ input k' \<and> (rq \<noteq> None \<longrightarrow> bs \<noteq> [] \<and> hs' = hs))"
    unfolding server_recv_def using recvRequest_ends by blast
  have "sess_ok hs'" if "r = Inr (rq, hs', k')" for rq hs' k'
  proof (cases rq)
    case None
    then show ?thesis using that r(1) recvRequest_none ss_close_ok [OF assms] by (fastforce simp: server_recv_def)
  next
    case (Some x)
    then show ?thesis using that r(2) assms by blast
  qed
  then show ?thesis using r by fastforce
qed

lemma handle_loop_ends:
  assumes "sess_ok hs"
  shows "\<exists>r. handle_loop env srv hs k = Some r \<and> (\<forall>hs' k'. r = Inr (hs', k') \<longrightarrow> sess_ok hs')"
  using assms
proof (induction "length (input k)" arbitrary: k rule: less_induct)
  case less
  obtain r where r: "server_recv env hs k = Some r"
    "\<forall>rq hs' k'. r = Inr (rq, hs', k') \<longrightarrow> sess_ok hs' \<and> (rq \<noteq> None \<longrightarrow> hs' = hs \<and> length (input k') < length (input k))"
    using server_recv_ends [OF less.prems] by blast
  note step = handle_loop.simps [of env srv hs k]
  show ?case
  proof (cases r)
    case (Inl e)
    then show ?thesis using r(1) step by simp
  next
    case (Inr x)
    obtain rq hs1 k1 where x: "x = (rq, hs1, k1)" by (metis prod_cases3)
    show ?thesis
    proof (cases rq)
      case None
      then show ?thesis using r Inr x step by simp
    next
      case (Some q)
      have k1: "hs1 = hs" "length (input k1) < length (input k)" using r(2) Inr x Some by blast+
      obtain rsp k2 where a: "answer env srv q k1 = (rsp, k2)" by fastforce
      obtain n k3 where w: "sendResponse (e_send env) (snd hs) rsp k2 = (n, k3)" by fastforce
      have "length (input k3) < length (input k)" using sendResponse_in [OF w] answer_in [OF a] k1(2) by simp
      from less.hyps [OF this less.prems]
      show ?thesis using r(1) Inr x Some a w k1(1) less.prems step by auto
    qed
  qed
qed

lemma handleClient_ends:
  assumes "sess_ok hs"
  shows "\<exists>r. handleClient env srv hs k = Some r \<and> (\<forall>hs' k'. r = Inr (hs', k') \<longrightarrow> \<not> ss_isConnected (snd hs'))"
proof -
  obtain r where r: "handle_loop env srv hs k = Some r" "\<forall>hs' k'. r = Inr (hs', k') \<longrightarrow> sess_ok hs'"
    using handle_loop_ends [OF assms] by blast
  then show ?thesis using ss_close_ok by (cases r) (fastforce simp: handleClient_def err_simps)+
qed

end

text \<open>The dispatch table of a server whose servlets only take from the connection.\<close>

definition takes_only :: "('k \<Rightarrow> string) \<Rightarrow> 'k handler \<Rightarrow> bool" where
  "takes_only input h \<longleftrightarrow> (\<forall>rq rsp k r rsp' k'. h rq rsp k = (r, rsp', k') \<longrightarrow> length (input k') \<le> length (input k))"

definition demoEnv :: "char conn http_env" where
  "demoEnv = \<lparr>e_run = demoMachine, e_cast = (\<lambda>_. None), e_alloc = (\<lambda>_. True), e_recv = conn_recv, e_send = conn_send,
     e_buff = 64, e_mem = replicate 64 (CHR 0x00), e_junk = 0, e_junkb = False\<rparr>"

lemma dispatch_takes_only:
  assumes "\<And>slt. getMatchedServlet matches path d = Some slt \<Longrightarrow> takes_only input (slt_handle slt)" "rq_path rq = path"
    "dispatch_handle matches d rq rsp k = (r, rsp', k')"
  shows "length (input k') \<le> length (input k)"
  using assms by (auto simp: dispatch_handle_def takes_only_def split: option.splits prod.splits)

lemma notFound_takes_only: "takes_only input (slt_handle NotFoundServlet)"
  by (simp add: takes_only_def notFound_handle_def)

lemma conn_send_in: "conn_send bs k = (rt, k') \<Longrightarrow> c_in k' = c_in k"
  by (auto simp: conn_send_def Let_def split: if_splits)

lemma ServletDispatch_handle: "dispatch_handle matches ServletDispatch rq rsp k = notFound_handle rq rsp k"
  by (simp add: dispatch_handle_def getMatchedServlet_def ServletDispatch_def notFound_handle_def)

interpretation plain: server_env demoEnv c_in "HttpServer True matches (ServletDispatch :: char conn dispatch)" for matches
proof (rule server_env.intro, goal_cases)
  case 1
  show ?case using tcr.text_recv_axioms by (simp add: demoEnv_def)
next
  case 2
  show ?case
    by unfold_locales (auto simp: demoEnv_def conn_send_in HttpServer_def ServletDispatch_handle notFound_handle_def)
qed

section \<open>Properties\<close>

text \<open>
  C8: serving a client ends, on a keep-alive connection too, for every machine, every set of servlets that
  only take from the connection and whatever the client sends; and when it ends without an error of the
  program, the session is closed.
\<close>

theorem handleClient_closes:
  assumes "text_recv (e_recv env) input" "\<And>bs k rt k'. e_send env bs k = (rt, k') \<Longrightarrow> input k' = input k"
    "\<And>rq rsp k r rsp' k'. dispatch_handle matches d rq rsp k = (r, rsp', k') \<Longrightarrow> length (input k') \<le> length (input k)"
    "sess_ok hs"
  shows "\<exists>r. handleClient env (HttpServer keepalive matches d) hs k = Some r \<and>
    (\<forall>hs' k'. r = Inr (hs', k') \<longrightarrow> \<not> ss_isConnected (snd hs'))"
proof -
  have "server_env env input (HttpServer keepalive matches d)"
    by (intro server_env.intro server_env_axioms.intro assms(1)) (auto simp: HttpServer_def dest: assms(2,3))
  then show ?thesis using assms(4) by (rule server_env.handleClient_ends)
qed

lemma demo_sess_ok: "sess_ok (demoHook, demoStream)"
  by (auto simp: sess_ok_def sock_ok_def demoStream_def newSocketStream_def demoHook_def newIOManager_inv fdm_inv_def
      newFdManager_def fdm_find_def)

theorem handleClient_closes_witness:
  "\<exists>r. handleClient demoEnv (HttpServer True (=) ServletDispatch) (demoHook, demoStream) demoText = Some r"
proof -
  have "text_recv (e_recv demoEnv) c_in" using tcr.text_recv_axioms by (simp add: demoEnv_def)
  from handleClient_closes [OF this, of "(=)" ServletDispatch, OF _ _ demo_sess_ok, of True demoText]
  show ?thesis by (auto simp: demoEnv_def conn_send_in ServletDispatch_handle notFound_handle_def)
qed


definition demoPlain :: "char conn" where
  "demoPlain = \<lparr>c_in = ''GET /'' @ [CHR 0x0A], c_out = [], c_script = []\<rparr>"

lemma demo_recv:
  "server_recv demoEnv (demoHook, demoStream) demoPlain = Some (Inr (Some (HttpRequest 0x11 True), (demoHook, demoStream), demoPlain\<lparr>c_in := []\<rparr>))"
proof -
  let ?x = "rp_execute demoMachine (overwrite (replicate 64 (CHR 0x00)) 0 (''GET /'' @ [CHR 0x0A])) 6 (newRequestParser 0)"
  have rd: "ss_read conn_recv demoStream 64 demoPlain = (int 6, ''GET /'' @ [CHR 0x0A], demoPlain\<lparr>c_in := []\<rparr>)"
    by (simp add: ss_read_def demoStream_def newSocketStream_def ss_isConnected_def isConnected_def conn_recv_def conn_limit_def
        demoPlain_def to_int32_def Let_def)
  have "case ?x of Inl _ \<Rightarrow> False | Inr (q, data, rp) \<Rightarrow> q = 6 \<and> \<not> rp_hasError rp \<and> rp_isFinished rp \<noteq> 0 \<and>
      rp_getContentLength (\<lambda>_. None) rp = 0 \<and> rp_data rp = HttpRequest 0x11 True" by code_simp
  then obtain q data rp where x: "?x = Inr (q, data, rp)" "q = 6" "\<not> rp_hasError rp" "rp_isFinished rp \<noteq> 0"
    "rp_getContentLength (\<lambda>_. None) rp = 0" "rp_data rp = HttpRequest 0x11 True"
    by (auto split: sum.splits)
  have "recv_loop demoMachine conn_recv demoStream 64 (replicate 64 (CHR 0x00)) 0 (newRequestParser 0) demoPlain =
      Some (Inr (Some (rp, data, 6 - q), demoPlain\<lparr>c_in := []\<rparr>))"
    by (rule recv_loop_one [OF rd _ x(1,3,4)]) (simp_all add: x(2))
  moreover have "init (HttpRequest 0x11 True) = HttpRequest 0x11 True" by code_simp
  ultimately show ?thesis by (simp add: server_recv_def recvRequest_def demoEnv_def x(5,6))
qed


end
