(* ===== verification/Uri.thy ===== *)
theory Uri
  imports Socket
begin

text \<open>
  URIs (\<^verbatim>\<open>saturn/uri.cc\<close>).  The generated machine that fills the fields is a parameter of \<open>Uri_Create\<close>: the state
  it ends in and the object after its actions.
\<close>

record uri =
  u_scheme :: string
  u_userinfo :: string
  u_host :: string
  u_path :: string
  u_query :: string
  u_fragment :: string
  u_port :: int

definition newUri :: uri where
  "newUri = \<lparr>u_scheme = [], u_userinfo = [], u_host = [], u_path = [], u_query = [], u_fragment = [], u_port = 0\<rparr>"

definition uri_parser_error :: nat where "uri_parser_error = 0"
definition uri_parser_first_final :: nat where "uri_parser_first_final = 451"

definition Uri_Create :: "(string \<Rightarrow> uri \<Rightarrow> nat \<times> uri) \<Rightarrow> string \<Rightarrow> uri option" where
  "Uri_Create run uristr =
     (case run uristr newUri of
        (cs, u) \<Rightarrow> if cs = uri_parser_error then None else if cs \<ge> uri_parser_first_final then Some u else None)"

definition isDefaultPort :: "uri \<Rightarrow> bool" where
  "isDefaultPort u =
     (if u_port u = 0 then True
      else if u_scheme u = ''http'' then u_port u = 80
      else if u_scheme u = ''https'' then u_port u = 443
      else False)"

definition uri_getPath :: "uri \<Rightarrow> string" where
  "uri_getPath u = (if u_path u = [] then ''/'' else u_path u)"

definition uri_getPort :: "uri \<Rightarrow> int" where
  "uri_getPort u =
     (if u_port u \<noteq> 0 then u_port u
      else if u_scheme u = ''http'' then 80
      else if u_scheme u = ''https'' then 443
      else u_port u)"

definition uri_dump :: "uri \<Rightarrow> string" where
  "uri_dump u =
     u_scheme u @ ''://'' @ u_userinfo u @ (if u_userinfo u = [] then [] else ''@'') @ u_host u @
     (if isDefaultPort u then [] else '':'' @ dec_int (u_port u)) @ uri_getPath u @
     (if u_query u = [] then [] else ''?'') @ u_query u @
     (if u_fragment u = [] then [] else ''#'') @ u_fragment u"

definition createAddress :: "endian \<Rightarrow> gai \<Rightarrow> uri \<Rightarrow> Address option" where
  "createAddress host gai u =
     map_option (setPort host (word_of_int (uri_getPort u))) (LookupAnyIPAddress gai (u_host u))"

definition addr_port :: "endian \<Rightarrow> Address \<Rightarrow> u16 option" where
  "addr_port host a =
     (case a of IPv4Address s \<Rightarrow> Some (getPort4 host s) | IPv6Address s \<Rightarrow> Some (getPort6 host s) | _ \<Rightarrow> None)"

lemma first_ip_is_ip: "first_ip as = Some a \<Longrightarrow> is_ip a"
  by (induction as rule: first_ip.induct) (auto split: if_splits)

lemma byteswap_twice: "byteswapOnLittleEndian host 2 (byteswapOnLittleEndian host 2 w) = w" for w :: u16
  by (simp add: byteswapOnLittleEndian_def)

text \<open>
  A URI's address carries the port of the URI, the one of its scheme when it names none, cut to 16 bits; and
  printing a URI leaves out the port exactly when an http or https URI would get it back by default.
\<close>

theorem uri_port_kept:
  assumes "u_scheme u = ''http'' \<and> d = 80 \<or> u_scheme u = ''https'' \<and> d = 443"
  shows "(createAddress host gai u = Some a \<longrightarrow> addr_port host a = Some (word_of_int (if u_port u = 0 then d else u_port u))) \<and>
    (isDefaultPort u \<longleftrightarrow> uri_getPort (u\<lparr>u_port := 0\<rparr>) = uri_getPort u)"
proof -
  have "addr_port host (setPort host v b) = Some v" if "is_ip b" for v b
    using that by (cases b) (auto simp: addr_port_def setPort_def setPort4_def setPort6_def getPort4_def getPort6_def byteswap_twice)
  then have "createAddress host gai u = Some a \<longrightarrow> addr_port host a = Some (word_of_int (uri_getPort u))"
    by (auto simp: createAddress_def LookupAnyIPAddress_def dest!: first_ip_is_ip split: prod.splits bool.splits if_splits)
  then show ?thesis using assms by (auto simp: uri_getPort_def isDefaultPort_def)
qed

theorem uri_port_kept_witness:
  "isDefaultPort (newUri\<lparr>u_scheme := ''http'', u_port := 80\<rparr>)"
  using uri_port_kept [of "newUri\<lparr>u_scheme := ''http'', u_port := 80\<rparr>" 80] by (simp add: uri_getPort_def)

end
