(* ===== verification/HttpConnection.thy ===== *)
theory HttpConnection
  imports HttpServer Uri
begin

text \<open>
  The client's side of a connection (\<^verbatim>\<open>saturn/http/http_connection.cc\<close>): sending a request, receiving a response
  with a content length or in chunks, and one-shot requests.  The buffer has one byte more than the size
  configured, for the zero the response machine wants at the end of its input.
\<close>

section \<open>Receiving the head of a response, or of a chunk\<close>

text \<open>The two inner loops are the same but for the flag that starts the machine anew.\<close>

partial_function (option) rsp_head ::
  "rsp_machine \<Rightarrow> (char, 'k) reader \<Rightarrow> socket_stream \<Rightarrow> nat \<Rightarrow> bool \<Rightarrow> string \<Rightarrow> nat \<Rightarrow> rs_parser \<Rightarrow> 'k \<Rightarrow>
    ((rs_parser \<times> string \<times> nat) option \<times> 'k) res option" where
  "rsp_head run recv st buff_size chunk data offset sp k =
     (case ss_read recv st (buff_size - offset) k of
        (len, bs, k1) \<Rightarrow>
          if len \<le> 0 then Some (Inr (None, k1))
          else
            (let len1 = nat len + offset;
                 data1 = (overwrite data offset bs)[len1 := CHR 0x00]
             in case sp_execute run data1 len1 chunk sp of
                  Inl e \<Rightarrow> Some (Inl e)
                | Inr (nparse, data2, sp1) \<Rightarrow>
                    if sp_hasError sp1 then Some (Inr (None, k1))
                    else
                      (let offset1 = len1 - nparse in
                       if offset1 = buff_size then Some (Inr (None, k1))
                       else if sp_isFinished sp1 \<noteq> 0 then Some (Inr (Some (sp1, data2, offset1), k1))
                       else rsp_head run recv st buff_size chunk data2 offset1 sp1 k1)))"

declare rsp_head.simps [code]

section \<open>Chunks\<close>

text \<open>The loop that reads the rest of a chunk.\<close>

function chunk_rest :: "(char, 'k) reader \<Rightarrow> socket_stream \<Rightarrow> nat \<Rightarrow> string \<Rightarrow> int \<Rightarrow> string \<Rightarrow> 'k \<Rightarrow> (string \<times> string) option \<times> 'k" where
  "chunk_rest recv st buff_size data left body k =
     (if left > 0 then
        (case ss_read recv st (nat (if left > int buff_size then int buff_size else left)) k of
           (rt, bs, k1) \<Rightarrow>
             if rt \<le> 0 then (None, k1)
             else let data1 = overwrite data 0 bs
                  in chunk_rest recv st buff_size data1 (left - rt) (body @ take (nat rt) data1) k1)
      else (Some (body, data), k))"
  by pat_completeness auto
termination by (relation "measure (\<lambda>(recv, st, buff_size, data, left, body, k). nat left)") auto

declare chunk_rest.simps [simp del]

text \<open>
  What is done with the \<open>len\<close> bytes after the head of a chunk: two of them are put aside, then the chunk is
  taken from the buffer, or from the buffer and the connection.  A negative length of \<^verbatim>\<open>append\<close> is an access
  outside the buffer.
\<close>

definition chunk_take :: "(char, 'k) reader \<Rightarrow> socket_stream \<Rightarrow> nat \<Rightarrow> int \<Rightarrow> string \<Rightarrow> nat \<Rightarrow> string \<Rightarrow> 'k \<Rightarrow>
    ((string \<times> string \<times> nat) option \<times> 'k) res" where
  "chunk_take recv st buff_size content_len data len body k =
     (let len1 = int len - 2 in
      if content_len \<le> len1 then
        (if content_len < 0 then Inl OutOfBounds
         else let n = nat content_len
              in Inr (Some (body @ take n data, memmove data n (nat len1 - n), nat len1 - n), k))
      else if len1 < 0 then Inl OutOfBounds
      else (case chunk_rest recv st buff_size data (content_len - len1) (body @ take (nat len1) data) k of
              (None, k1) \<Rightarrow> Inr (None, k1)
            | (Some (body1, data1), k1) \<Rightarrow> Inr (Some (body1, data1, 0), k1)))"

partial_function (option) chunk_loop ::
  "rsp_machine \<Rightarrow> (char, 'k) reader \<Rightarrow> socket_stream \<Rightarrow> nat \<Rightarrow> string \<Rightarrow> nat \<Rightarrow> string \<Rightarrow> rs_parser \<Rightarrow> 'k \<Rightarrow>
    ((rs_parser \<times> string) option \<times> 'k) res option" where
  "chunk_loop run recv st buff_size data len body sp k =
     Option.bind (rsp_head run recv st buff_size True data len sp k) (\<lambda>r.
       case r of
         Inl e \<Rightarrow> Some (Inl e)
       | Inr (found, k1) \<Rightarrow>
           (case found of
              None \<Rightarrow> Some (Inr (None, k1))
            | Some (sp1, data1, len1) \<Rightarrow>
                (case chunk_take recv st buff_size (hc_content_len (sp_parser sp1)) data1 len1 body k1 of
                   Inl e \<Rightarrow> Some (Inl e)
                 | Inr (taken, k2) \<Rightarrow>
                     (case taken of
                        None \<Rightarrow> Some (Inr (None, k2))
                      | Some (body1, data2, len2) \<Rightarrow>
                          if hc_chunks_done (sp_parser sp1) then Some (Inr (Some (sp1, body1), k2))
                          else chunk_loop run recv st buff_size data2 len2 body1 sp1 k2))))"

declare chunk_loop.simps [code]

section \<open>\<open>recvResponse\<close> and \<open>sendRequest\<close>\<close>

definition closing :: "hooksys \<times> socket_stream \<Rightarrow> 'k \<Rightarrow> ('r option \<times> (hooksys \<times> socket_stream) \<times> 'k) res" where
  "closing hs k = bindE (ss_close True True hs) (\<lambda>hs'. Inr (None, hs', k))"

definition response_body :: "(string \<Rightarrow> u64 option) \<Rightarrow> (nat \<Rightarrow> bool) \<Rightarrow> (char, 'k) reader \<Rightarrow> rs_parser \<Rightarrow> string \<Rightarrow> nat \<Rightarrow>
    hooksys \<times> socket_stream \<Rightarrow> 'k \<Rightarrow> (http_response option \<times> (hooksys \<times> socket_stream) \<times> 'k) res" where
  "response_body lexical_cast alloc recv sp data offset hs k =
     (let len = sint (sp_getContentLength lexical_cast sp) in
      if len > 0 then
        if \<not> alloc (nat len) then Inl BadAlloc
        else (case recv_body recv (snd hs) (nat len) data offset k of
                (None, k2) \<Rightarrow> closing hs k2
              | (Some body, k2) \<Rightarrow> Inr (Some (rsp_setBody (sp_data sp) body), hs, k2))
      else Inr (Some (sp_data sp), hs, k))"

definition recvResponse :: "rsp_machine \<Rightarrow> (string \<Rightarrow> u64 option) \<Rightarrow> (nat \<Rightarrow> bool) \<Rightarrow> (char, 'k) reader \<Rightarrow> nat \<Rightarrow> string \<Rightarrow>
    httpclient_parser \<Rightarrow> bool \<Rightarrow> hooksys \<times> socket_stream \<Rightarrow> 'k \<Rightarrow>
    (http_response option \<times> (hooksys \<times> socket_stream) \<times> 'k) res option" where
  "recvResponse run lexical_cast alloc recv buff_size mem memory junk hs k =
     Option.bind (rsp_head run recv (snd hs) buff_size False mem 0 (newResponseParser memory junk) k) (\<lambda>r.
       case r of
         Inl e \<Rightarrow> Some (Inl e)
       | Inr (found, k1) \<Rightarrow>
           (case found of
              None \<Rightarrow> Some (closing hs k1)
            | Some (sp, data, offset) \<Rightarrow>
                if hc_chunked (sp_parser sp) then
                  map_option (\<lambda>c. bindE c (\<lambda>(got, k2).
                    case got of
                      None \<Rightarrow> closing hs k2
                    | Some (sp1, body) \<Rightarrow> Inr (Some (rsp_setBody (sp_data sp1) body), hs, k2)))
                  (chunk_loop run recv (snd hs) buff_size data offset [] sp k1)
                else Some (response_body lexical_cast alloc recv sp data offset hs k1)))"

definition sendRequest :: "(char, 'k) writer \<Rightarrow> socket_stream \<Rightarrow> http_request \<Rightarrow> 'k \<Rightarrow> int \<times> 'k" where
  "sendRequest send st req k = writeFixSize (ss_write send st) (dump_request req) k"

section \<open>Receiving ends\<close>

context text_recv
begin

lemma rsp_head_ends:
  "\<exists>r. rsp_head run recv st buff_size chunk data offset sp k = Some r \<and>
     (\<forall>found k'. r = Inr (found, k') \<longrightarrow> (\<exists>bs. input k = bs @ input k' \<and> (found \<noteq> None \<longrightarrow> bs \<noteq> [])))"
proof (induction "length (input k)" arbitrary: data offset sp k rule: less_induct)
  case less
  obtain len bs k1 where rd: "ss_read recv st (buff_size - offset) k = (len, bs, k1)" by (metis prod_cases3)
  note law = ss_read_law [OF rd]
  note step = rsp_head.simps [of run recv st buff_size chunk data offset sp k]
  show ?case
  proof (cases "len \<le> 0")
    case True
    then show ?thesis using rd law step by auto
  next
    case False
    then have bs: "bs \<noteq> []" using law(1) by auto
    let ?len = "nat len + offset"
    show ?thesis
    proof (cases "sp_execute run ((overwrite data offset bs)[?len := CHR 0x00]) ?len chunk sp")
      case (Inl e)
      then show ?thesis using rd False step by (simp add: Let_def)
    next
      case (Inr r)
      obtain nparse data1 sp1 where r: "r = (nparse, data1, sp1)" by (metis prod_cases3)
      have lt: "length (input k1) < length (input k)" using law(3) bs by simp
      from less [OF lt, of data1 "?len - nparse" sp1]
      show ?thesis using rd False Inr r step law(3) bs by (auto simp: Let_def)
    qed
  qed
qed

lemma chunk_rest_law: "chunk_rest recv st buff_size data left body k = (r, k') \<Longrightarrow> \<exists>bs. input k = bs @ input k'"
proof (induction recv' \<equiv> recv st buff_size data left body k arbitrary: r k' rule: chunk_rest.induct)
  case (1 st buff_size data left body k)
  note step = chunk_rest.simps [of recv st buff_size data left body k]
  show ?case
  proof (cases "left > 0")
    case True
    obtain rt bs k1 where rd: "ss_read recv st (nat (if left > int buff_size then int buff_size else left)) k = (rt, bs, k1)"
      by (metis prod_cases3)
    note law = ss_read_law [OF rd]
    show ?thesis
    proof (cases "rt \<le> 0")
      case True
      then show ?thesis using 1(2) \<open>left > 0\<close> rd step law(3) by auto
    next
      case False
      have "chunk_rest recv st buff_size (overwrite data 0 bs) (left - rt) (body @ take (nat rt) (overwrite data 0 bs)) k1 = (r, k')"
        using 1(2) True rd step False by (simp add: Let_def)
      from 1(1) [OF True rd [symmetric] refl False refl this] law(3) show ?thesis by auto
    qed
  qed (use 1(2) step in auto)
qed

lemma chunk_take_law:
  "chunk_take recv st buff_size content_len data len body k = Inr (r, k') \<Longrightarrow> \<exists>bs. input k = bs @ input k'"
  using chunk_rest_law [of st buff_size data "content_len - (int len - 2)" "body @ take (nat (int len - 2)) data" k]
  by (auto simp: chunk_take_def Let_def split: if_splits prod.splits option.splits)

lemma chunk_loop_ends:
  "\<exists>r. chunk_loop run recv st buff_size data len body sp k = Some r \<and>
     (\<forall>found k'. r = Inr (found, k') \<longrightarrow> (\<exists>bs. input k = bs @ input k'))"
proof (induction "length (input k)" arbitrary: data len body sp k rule: less_induct)
  case less
  note step = chunk_loop.simps [of run recv st buff_size data len body sp k]
  obtain r where r: "rsp_head run recv st buff_size True data len sp k = Some r"
    "\<forall>found k'. r = Inr (found, k') \<longrightarrow> (\<exists>bs. input k = bs @ input k' \<and> (found \<noteq> None \<longrightarrow> bs \<noteq> []))"
    using rsp_head_ends by blast
  show ?case
  proof (cases r)
    case (Inl e)
    then show ?thesis using r(1) step by simp
  next
    case (Inr x)
    obtain found k1 where x: "x = (found, k1)" by fastforce
    obtain b1 where b1: "input k = b1 @ input k1" "found \<noteq> None \<longrightarrow> b1 \<noteq> []" using r(2) Inr x by blast
    show ?thesis
    proof (cases found)
      case None
      then show ?thesis using r(1) Inr x b1 step by auto
    next
      case (Some f)
      obtain sp1 data1 len1 where f: "f = (sp1, data1, len1)" by (metis prod_cases3)
      show ?thesis
      proof (cases "chunk_take recv st buff_size (hc_content_len (sp_parser sp1)) data1 len1 body k1")
        case (Inl e)
        then show ?thesis using r(1) Inr x Some f step by simp
      next
        case (Inr y)
        obtain taken k2 where y: "y = (taken, k2)" by fastforce
        obtain b2 where b2: "input k1 = b2 @ input k2" using chunk_take_law Inr y by blast
        have lt: "length (input k2) < length (input k)" using b1 b2 Some by simp
        show ?thesis
        proof (cases taken)
          case None
          then show ?thesis using r(1) \<open>r = Inr x\<close> x Some f Inr y b1 b2 step by auto
        next
          case (Some t)
          obtain body1 data2 len2 where t: "t = (body1, data2, len2)" by (metis prod_cases3)
          from less [OF lt, of data2 len2 body1 sp1] show ?thesis
            using r(1) \<open>r = Inr x\<close> x \<open>found = Some f\<close> f Inr y Some t b1 b2 step by auto
        qed
      qed
    qed
  qed
qed

lemma recvResponse_ends:
  "\<exists>r. recvResponse run lexical_cast alloc recv buff_size mem memory junk hs k = Some r"
proof -
  obtain r where r: "rsp_head run recv (snd hs) buff_size False mem 0 (newResponseParser memory junk) k = Some r"
    using rsp_head_ends by blast
  show ?thesis
  proof (cases r)
    case (Inl e)
    then show ?thesis using r by (simp add: recvResponse_def)
  next
    case (Inr x)
    then show ?thesis using r chunk_loop_ends by (cases x) (fastforce simp: recvResponse_def split: option.splits)
  qed
qed

end

section \<open>Properties of receiving\<close>

text \<open>
  C24: receiving a response ends, with a content length and in chunks, for every machine, buffer and
  connection.
\<close>

theorem recvResponse_terminates:
  assumes "text_recv recv input"
  shows "\<exists>r. recvResponse run lexical_cast alloc recv buff_size mem memory junk hs k = Some r"
  by (rule text_recv.recvResponse_ends [OF assms])

theorem recvResponse_terminates_witness:
  "\<exists>r. recvResponse demoRspMachine (\<lambda>_. None) (\<lambda>_. True) conn_recv 64 (replicate 65 (CHR 0x00)) demoClient False (demoHook, demoStream) demoText = Some r"
  by (rule recvResponse_terminates [OF tcr.text_recv_axioms])

lemma rsp_head_one:
  assumes "ss_read recv st buff_size k = (int n, c, k1)" "0 < n"
    "sp_execute run ((overwrite mem 0 c)[n := CHR 0x00]) n chunk sp0 = Inr (p, data, sp)" "\<not> sp_hasError sp" "sp_isFinished sp \<noteq> 0"
    "n - p \<noteq> buff_size"
  shows "rsp_head run recv st buff_size chunk mem 0 sp0 k = Some (Inr (Some (sp, data, n - p), k1))"
  using assms by (simp add: rsp_head.simps [of run recv st buff_size chunk mem 0] Let_def)

lemma recvResponse_first:
  assumes "text_recv recv input" "rsp_machine_ok run" "length mem = Suc buff_size" "sess_ok hs"
    "ss_read recv (snd hs) buff_size k = (int n, c, k1)" "0 < n" "0 < p"
    "run (httpclient_parser_init memory) c = (cs, p, parser, evs)" "hc_body_start parser \<noteq> 0" "\<not> hc_chunked parser"
    "sp_execute run ((overwrite mem 0 c)[n := CHR 0x00]) n False (newResponseParser memory junk) = Inr (q, data, sp)"
    "\<not> sp_hasError sp" "sp_isFinished sp \<noteq> 0"
    "sint (sp_getContentLength lexical_cast sp) = int len" "0 < len" "len < 2 ^ 31" "alloc len"
  shows "\<exists>r hs' k'. recvResponse run lexical_cast alloc recv buff_size mem memory junk hs k = Some (Inr (r, hs', k')) \<and>
    (case r of
       None \<Rightarrow> \<not> ss_isConnected (snd hs')
     | Some rsp \<Rightarrow> rsp = rsp_setBody (sp_data sp) (take len (drop p (input k))) \<and>
                   input k' = drop (max n (p + len)) (input k))"
proof -
  note law = text_recv.ss_read_law [OF assms(1,5)]
  have c: "length c = n" "n \<le> buff_size" "input k = c @ input k1" using law by auto
  let ?d = "(overwrite mem 0 c)[n := CHR 0x00]"
  have ow: "take n ?d = c" "length ?d = Suc buff_size" using c(1,2) assms(3) by (simp_all add: overwrite_def)
  have new: "sp_parser (newResponseParser memory junk) = httpclient_parser_init memory" "hc_nread (httpclient_parser_init memory) = 0"
    by (simp_all add: newResponseParser_def httpclient_parser_init_def)
  have cnt: "q = p" "take (n - p) data = drop p c" "\<not> hc_chunked (sp_parser sp)"
    using sp_execute_offset [OF assms(2) _ _ assms(11), of cs p parser evs] assms(8-10) new ow(1) by auto
  have pn: "p \<le> n" using assms(2,8) c(1) unfolding rsp_machine_ok_def by blast
  have "data = memmove ?d q (n - q)" using assms(11) by (auto simp: sp_execute_def Let_def err_simps split: if_splits)
  then have len: "p \<le> n" "length data = Suc buff_size" using pn cnt(1) ow(2) c(2) by simp_all
  have loop: "rsp_head run recv (snd hs) buff_size False mem 0 (newResponseParser memory junk) k = Some (Inr (Some (sp, data, n - p), k1))"
    using rsp_head_one [OF assms(5,6,11-13)] assms(6,7) cnt(1) len(1) c(2) by auto
  obtain hs1 where close: "ss_close True True hs = Inr hs1" "\<not> ss_isConnected (snd hs1)" using ss_close_ok [OF assms(4)] by blast
  obtain b k2 where b: "recv_body recv (snd hs) len data (n - p) k1 = (b, k2)" by fastforce
  have "take len (take (n - p) data @ input k1) = take len (drop p (input k))" "drop (len - (n - p)) (input k1) = drop (max n (p + len)) (input k)"
    using cnt c(1,3) len by (auto simp: max_def add.commute)
  then have "body = take len (drop p (input k)) \<and> input k2 = drop (max n (p + len)) (input k)" if "b = Some body" for body
    using text_recv.recv_body_law(2) [OF assms(1) b assms(16) _ that] len(2) c(2) by auto
  then show ?thesis
    using loop assms(14,15,17) b close cnt(3) by (cases b) (auto simp: recvResponse_def response_body_def closing_def Let_def)
qed


definition demoRspHead :: rsp_machine where
  "demoRspHead parser s = (120, min 17 (length s), parser\<lparr>hc_body_start := 17\<rparr>, [OnRspField 0 14 15 1])"


text \<open>
  A chunked response that has come completely with the first read is not accepted: before the first chunk
  is looked at, more bytes are read, and when none come the connection is closed and there is no response.
\<close>

theorem chunked_reads_first:
  assumes "ss_read recv (snd hs) buff_size k = (int n, c, k1)" "0 < n"
    "sp_execute run ((overwrite mem 0 c)[n := CHR 0x00]) n False (newResponseParser memory junk) = Inr (p, data, sp)"
    "\<not> sp_hasError sp" "sp_isFinished sp \<noteq> 0" "n - p \<noteq> buff_size" "hc_chunked (sp_parser sp)"
    "ss_read recv (snd hs) (buff_size - (n - p)) k1 = (r, bs, k2)" "r \<le> 0" "sess_ok hs"
  shows "\<exists>hs'. recvResponse run lexical_cast alloc recv buff_size mem memory junk hs k = Some (Inr (None, hs', k2)) \<and>
    \<not> ss_isConnected (snd hs')"
proof -
  have "rsp_head run recv (snd hs) buff_size True data (n - p) sp k1 = Some (Inr (None, k2))"
    using assms(8,9) by (simp add: rsp_head.simps [of run recv "snd hs" buff_size True])
  then have "chunk_loop run recv (snd hs) buff_size data (n - p) [] sp k1 = Some (Inr (None, k2))"
    by (simp add: chunk_loop.simps [of run recv "snd hs" buff_size data])
  then show ?thesis
    using rsp_head_one [OF assms(1-6)] assms(7) ss_close_ok [OF assms(10)] by (auto simp: recvResponse_def closing_def)
qed

definition demoChunked :: rsp_machine where
  "demoChunked parser s = (120, min 5 (length s), parser\<lparr>hc_body_start := 5, hc_chunked := True\<rparr>, [])"

theorem chunked_reads_first_witness:
  "\<exists>hs' k'. recvResponse demoChunked (\<lambda>_. None) (\<lambda>_. True) conn_recv 32 (replicate 33 (CHR 0x00)) demoClient False (demoHook, demoStream)
     \<lparr>c_in = ''HTTP'' @ CRLF @ ''0'' @ CRLF, c_out = [], c_script = []\<rparr> = Some (Inr (None, hs', k'))"
proof -
  let ?c = "''HTTP'' @ CRLF @ ''0'' @ CRLF"
  let ?k = "\<lparr>c_in = ?c, c_out = [], c_script = []\<rparr>"
  let ?k1 = "\<lparr>c_in = [], c_out = [], c_script = []\<rparr> :: char conn"
  let ?x = "sp_execute demoChunked ((overwrite (replicate 33 (CHR 0x00)) 0 ?c)[9 := CHR 0x00]) 9 False (newResponseParser demoClient False)"
  have rd: "ss_read conn_recv demoStream 32 ?k = (int 9, ?c, ?k1)"
    by (simp add: ss_read_def demoStream_def newSocketStream_def ss_isConnected_def isConnected_def conn_recv_def conn_limit_def
        to_int32_def Let_def CRLF_def)
  have rd2: "ss_read conn_recv demoStream n ?k1 = (0, [], ?k1)" for n
    by (simp add: ss_read_def demoStream_def newSocketStream_def ss_isConnected_def isConnected_def conn_recv_def conn_limit_def
        to_int32_def Let_def)
  have "case ?x of Inl _ \<Rightarrow> False | Inr (q, data, sp) \<Rightarrow>
      q = 5 \<and> \<not> sp_hasError sp \<and> sp_isFinished sp \<noteq> 0 \<and> hc_chunked (sp_parser sp)" by code_simp
  then obtain data sp where x: "?x = Inr (5, data, sp)" "\<not> sp_hasError sp" "sp_isFinished sp \<noteq> 0" "hc_chunked (sp_parser sp)"
    by (auto split: sum.splits)
  show ?thesis
    using chunked_reads_first [of conn_recv "(demoHook, demoStream)" 32 ?k 9 ?c ?k1, OF _ _ x(1-3) _ x(4) _ _ demo_sess_ok] rd rd2 by simp blast
qed

end
