(* ===== verification/TcpServer.thy ===== *)
theory TcpServer
  imports Socket
begin

text \<open>
  The TCP server (\<^verbatim>\<open>saturn/tcpserver.cc\<close>): listening sockets, the loop that accepts clients and hands them to
  the worker, stopping.  What the kernel answers is given: \<open>bind_answer\<close> for one address, the descriptor of
  \<^verbatim>\<open>accept\<close> and the names of the new socket for one client.  A task bound to a socket is the callback that
  \<open>task\<close> makes of it.  A socket no pointer holds any more is closed by its destructor.
\<close>

section \<open>State\<close>

record tcp_server =
  ts_socks :: "sock list"
  ts_recvTimeout :: u64
  ts_name :: string
  ts_isStop :: bool

definition newTcpServer :: "u64 \<Rightarrow> tcp_server" where
  "newTcpServer read_timeout = \<lparr>ts_socks = [], ts_recvTimeout = read_timeout, ts_name = ''saturn/1.0.0'', ts_isStop = True\<rparr>"

definition default_read_timeout :: u64 where
  "default_read_timeout = 60 * 1000 * 2"

record bind_answer =
  an_fd :: int
  an_bind :: int
  an_local :: name_answer
  an_listen :: int

section \<open>Binding\<close>

text \<open>The end of the last pointer to each socket.\<close>

fun close_socks :: "bool \<Rightarrow> sock list \<Rightarrow> hooksys \<Rightarrow> hooksys res" where
  "close_socks en [] s = Inr s"
| "close_socks en (sk # sks) s = bindE (sock_close en True (s, sk)) (\<lambda>(_, s1, _). close_socks en sks s1)"

text \<open>One address: the socket that listens, or \<open>None\<close> when the address fails.\<close>

definition bind_one :: "endian \<Rightarrow> bool \<Rightarrow> Address \<times> bind_answer \<Rightarrow> hooksys \<Rightarrow> (sock option \<times> hooksys) res option" where
  "bind_one host en aa s =
     map_option (\<lambda>(b, s1, sk).
       if b \<and> sock_listen (an_listen (snd aa)) sk then Inr (Some sk, s1)
       else bindE (close_socks en [sk] s1) (\<lambda>s2. Inr (None, s2)))
     (sock_bind host en (an_fd (snd aa)) (an_bind (snd aa)) (an_local (snd aa)) (fst aa) (s, CreateTCP (fst aa)))"

fun bind_loop :: "endian \<Rightarrow> bool \<Rightarrow> (Address \<times> bind_answer) list \<Rightarrow> sock list \<Rightarrow> Address list \<Rightarrow> hooksys \<Rightarrow>
    (sock list \<times> Address list \<times> hooksys) res option" where
  "bind_loop host en [] socks fails s = Some (Inr (socks, fails, s))"
| "bind_loop host en (aa # aas) socks fails s =
     Option.bind (bind_one host en aa s) (\<lambda>r.
       case r of
         Inl e \<Rightarrow> Some (Inl e)
       | Inr (Some sk, s1) \<Rightarrow> bind_loop host en aas (socks @ [sk]) fails s1
       | Inr (None, s1) \<Rightarrow> bind_loop host en aas socks (fails @ [fst aa]) s1)"

text \<open>\<open>fails\<close> is the caller's vector, to which the addresses that fail are added.\<close>

definition ts_bind :: "endian \<Rightarrow> bool \<Rightarrow> (Address \<times> bind_answer) list \<Rightarrow> Address list \<Rightarrow> tcp_server \<Rightarrow> hooksys \<Rightarrow>
    (bool \<times> Address list \<times> tcp_server \<times> hooksys) res option" where
  "ts_bind host en addrs fails srv s =
     map_option (\<lambda>r. bindE r (\<lambda>(socks, fails', s1).
       if fails' \<noteq> [] then bindE (close_socks en socks s1) (\<lambda>s2. Inr (False, fails', srv\<lparr>ts_socks := []\<rparr>, s2))
       else Inr (True, fails', srv\<lparr>ts_socks := socks\<rparr>, s1)))
     (bind_loop host en addrs (ts_socks srv) fails s)"

definition ts_bind1 :: "endian \<Rightarrow> bool \<Rightarrow> Address \<times> bind_answer \<Rightarrow> tcp_server \<Rightarrow> hooksys \<Rightarrow>
    (bool \<times> Address list \<times> tcp_server \<times> hooksys) res option" where
  "ts_bind1 host en addr srv s = ts_bind host en [addr] [] srv s"

section \<open>Accepting\<close>

definition worker_schedule :: "hcb \<Rightarrow> hooksys \<Rightarrow> hooksys" where
  "worker_schedule cb s = s\<lparr>h_iom := iom_schedule None (Some cb) (h_iom s)\<rparr>"

text \<open>One turn of \<^verbatim>\<open>startAccept\<close>; the worker is the I/O manager of the state.\<close>

definition accept_turn :: "endian \<Rightarrow> bool \<Rightarrow> (sock \<Rightarrow> hcb) \<Rightarrow> int \<Rightarrow> name_answer \<Rightarrow> name_answer \<Rightarrow> tcp_server \<Rightarrow> sock \<Rightarrow> hooksys \<Rightarrow>
    sock option \<times> hooksys" where
  "accept_turn host en task newsock local remote srv sk s =
     (case sock_accept host newsock local remote s sk of
        None \<Rightarrow> (None, s)
      | Some client \<Rightarrow>
          (Some client, worker_schedule (task client) (setRecvTimeout en (sint (ts_recvTimeout srv)) client s)))"

text \<open>The loop, on the answers of the calls to come, each with the stop flag as it is read before the call.\<close>

fun startAccept :: "endian \<Rightarrow> bool \<Rightarrow> (sock \<Rightarrow> hcb) \<Rightarrow> (bool \<times> int \<times> name_answer \<times> name_answer) list \<Rightarrow> tcp_server \<Rightarrow> sock \<Rightarrow>
    hooksys \<Rightarrow> sock list \<times> hooksys" where
  "startAccept host en task [] srv sk s = ([], s)"
| "startAccept host en task ((stop, newsock, local, remote) # turns) srv sk s =
     (if stop then ([], s)
      else
        let (client, s1) = accept_turn host en task newsock local remote srv sk s;
            (clients, s2) = startAccept host en task turns srv sk s1
        in ((case client of None \<Rightarrow> clients | Some c \<Rightarrow> c # clients), s2))"

section \<open>Starting and stopping\<close>

definition ts_start :: "(sock \<Rightarrow> hcb) \<Rightarrow> tcp_server \<Rightarrow> hooksys \<Rightarrow> bool \<times> tcp_server \<times> hooksys" where
  "ts_start task srv s =
     (if \<not> ts_isStop srv then (True, srv, s)
      else (True, srv\<lparr>ts_isStop := False\<rparr>, fold (\<lambda>sk. worker_schedule (task sk)) (ts_socks srv) s))"

definition ts_stop :: "hcb \<Rightarrow> tcp_server \<Rightarrow> hooksys \<Rightarrow> tcp_server \<times> hooksys" where
  "ts_stop task srv s = (srv\<lparr>ts_isStop := True\<rparr>, worker_schedule task s)"

text \<open>The task that \<^verbatim>\<open>stop\<close> schedules.\<close>

fun stop_socks :: "bool \<Rightarrow> sock list \<Rightarrow> hooksys \<Rightarrow> hooksys res" where
  "stop_socks en [] s = Inr s"
| "stop_socks en (sk # sks) s =
     bindE (sock_cancelAll True sk s) (\<lambda>(_, m).
       bindE (sock_close en True (s\<lparr>h_iom := m\<rparr>, sk)) (\<lambda>(_, s1, _). stop_socks en sks s1))"

definition stop_task :: "bool \<Rightarrow> tcp_server \<Rightarrow> hooksys \<Rightarrow> (tcp_server \<times> hooksys) res" where
  "stop_task en srv s = bindE (stop_socks en (ts_socks srv) s) (\<lambda>s1. Inr (srv\<lparr>ts_socks := []\<rparr>, s1))"

definition ts_destroy :: "bool \<Rightarrow> tcp_server \<Rightarrow> hooksys \<Rightarrow> (tcp_server \<times> hooksys) res" where
  "ts_destroy en srv s = bindE (close_socks en (ts_socks srv) s) (\<lambda>s1. Inr (srv\<lparr>ts_socks := []\<rparr>, s1))"

section \<open>All addresses or none\<close>

definition sys_ok :: "hooksys \<Rightarrow> bool" where
  "sys_ok s \<longleftrightarrow> iom_inv (h_iom s) \<and> fdm_inv (h_fdm s)"

definition fd_ok :: "sock \<Rightarrow> bool" where
  "fd_ok sk \<longleftrightarrow> m_sock sk = - 1 \<or> 0 \<le> m_sock sk"

lemma sock_ok_sys: "sock_ok s sk \<longleftrightarrow> sys_ok s \<and> fd_ok sk"
  by (auto simp: sock_ok_def sys_ok_def fd_ok_def)

lemma register_fd_ok:
  assumes "fdm_inv (h_fdm s)"
  shows "\<exists>s'. register_fd (int fd) s = Some s' \<and> fdm_inv (h_fdm s') \<and> h_iom s' = h_iom s"
proof (cases "fdm_find (h_fdm s) fd")
  case None
  then show ?thesis using fdm_get_new [OF assms None, of "h_os s"] by (auto simp: register_fd_def)
next
  case (Some c)
  then have "fdm_get (int fd) True (h_os s, h_fdm s) = Some (Some c, h_os s, h_fdm s)"
    by (auto simp: fdm_get_def fdm_find_def split: if_splits)
  then show ?thesis using assms by (simp add: register_fd_def)
qed

lemma sock_bind_ok:
  assumes "sys_ok s" "- 1 \<le> fd"
  shows "\<exists>b s1 sk. sock_bind host True fd rc local addr (s, CreateTCP addr) = Some (b, s1, sk) \<and> sys_ok s1 \<and> fd_ok sk \<and>
    (b \<longleftrightarrow> fd \<noteq> - 1 \<and> rc = 0) \<and> m_sock sk = fd"
proof (cases "fd = - 1")
  case True
  then show ?thesis using assms
    by (auto simp: sock_bind_def ensureSock_def isValid_def CreateTCP_def newSocket_def newSock_def hook_socket_def sys_ok_def fd_ok_def)
next
  case False
  then have "0 \<le> fd" using assms(2) by linarith
  then obtain n where n: "fd = int n" by (rule nonneg_int_cases)
  obtain s1 where "register_fd (int n) s = Some s1" "fdm_inv (h_fdm s1)" "h_iom s1 = h_iom s"
    using register_fd_ok [of s n] assms(1) by (auto simp: sys_ok_def)
  then show ?thesis using n assms(1)
    by (auto simp: sock_bind_def ensureSock_def isValid_def CreateTCP_def newSocket_def newSock_def hook_socket_def sys_ok_def fd_ok_def
        getLocalAddress_def split: option.splits)
qed

lemma close_socks_ok:
  assumes "sys_ok s" "list_all fd_ok sks"
  shows "\<exists>s'. close_socks True sks s = Inr s' \<and> sys_ok s'"
  using assms
proof (induction sks arbitrary: s)
  case (Cons sk sks)
  obtain r s1 sk1 where "sock_close True True (s, sk) = Inr (r, s1, sk1)" "sys_ok s1"
    using sock_close_ok [of s sk] Cons.prems by (auto simp: sock_ok_sys)
  then show ?case using Cons by auto
qed simp

lemma bind_one_ok:
  assumes "sys_ok s" "- 1 \<le> an_fd (snd aa)"
  shows "\<exists>o1 s'. bind_one host True aa s = Some (Inr (o1, s')) \<and> sys_ok s' \<and>
    (o1 \<noteq> None \<longleftrightarrow> an_fd (snd aa) \<noteq> - 1 \<and> an_bind (snd aa) = 0 \<and> an_listen (snd aa) = 0) \<and>
    (\<forall>sk. o1 = Some sk \<longrightarrow> isValid sk \<and> fd_ok sk \<and> m_sock sk = an_fd (snd aa))"
proof -
  obtain b s1 sk where bd: "sock_bind host True (an_fd (snd aa)) (an_bind (snd aa)) (an_local (snd aa)) (fst aa) (s, CreateTCP (fst aa)) = Some (b, s1, sk)"
    "sys_ok s1" "fd_ok sk" "b \<longleftrightarrow> an_fd (snd aa) \<noteq> - 1 \<and> an_bind (snd aa) = 0" "m_sock sk = an_fd (snd aa)"
    using sock_bind_ok [OF assms] by blast
  obtain s2 where "close_socks True [sk] s1 = Inr s2" "sys_ok s2" using close_socks_ok [of s1 "[sk]"] bd(2,3) by auto
  then show ?thesis using bd by (auto simp: bind_one_def sock_listen_def isValid_def)
qed

lemma bind_loop_ok:
  assumes "sys_ok s" "\<forall>aa\<in>set aas. - 1 \<le> an_fd (snd aa)" "list_all fd_ok socks"
  shows "\<exists>more bad s'. bind_loop host True aas socks fails s = Some (Inr (socks @ more, fails @ bad, s')) \<and> sys_ok s' \<and>
    list_all fd_ok (socks @ more) \<and> list_all isValid more \<and> length more + length bad = length aas \<and> set bad \<subseteq> fst ` set aas \<and>
    (bad = [] \<longleftrightarrow> (\<forall>aa\<in>set aas. an_fd (snd aa) \<noteq> - 1 \<and> an_bind (snd aa) = 0 \<and> an_listen (snd aa) = 0)) \<and>
    (bad = [] \<longrightarrow> map m_sock more = map (an_fd \<circ> snd) aas)"
  using assms
proof (induction aas arbitrary: s socks fails)
  case (Cons aa aas)
  have fd: "- 1 \<le> an_fd (snd aa)" using Cons.prems(2) by simp
  obtain o1 s1 where b: "bind_one host True aa s = Some (Inr (o1, s1))" "sys_ok s1"
    "o1 \<noteq> None \<longleftrightarrow> an_fd (snd aa) \<noteq> - 1 \<and> an_bind (snd aa) = 0 \<and> an_listen (snd aa) = 0"
    "\<forall>sk. o1 = Some sk \<longrightarrow> isValid sk \<and> fd_ok sk \<and> m_sock sk = an_fd (snd aa)"
    using bind_one_ok [OF Cons.prems(1) fd, of host] by blast
  show ?case
  proof (cases o1)
    case None
    obtain more bad s' where "bind_loop host True aas socks (fails @ [fst aa]) s1 = Some (Inr (socks @ more, (fails @ [fst aa]) @ bad, s'))"
      "sys_ok s'" "list_all fd_ok (socks @ more)" "list_all isValid more" "length more + length bad = length aas" "set bad \<subseteq> fst ` set aas"
      using Cons.IH [OF b(2), of socks "fails @ [fst aa]"] Cons.prems by auto
    then show ?thesis using b None
      by (intro exI [of _ more] exI [of _ "fst aa # bad"] exI [of _ s']) auto
  next
    case (Some sk)
    have "list_all fd_ok (socks @ [sk])" using b(4) Some Cons.prems(3) by simp
    then obtain more bad s' where "bind_loop host True aas (socks @ [sk]) fails s1 = Some (Inr ((socks @ [sk]) @ more, fails @ bad, s'))"
      "sys_ok s'" "list_all fd_ok ((socks @ [sk]) @ more)" "list_all isValid more" "length more + length bad = length aas" "set bad \<subseteq> fst ` set aas"
      "bad = [] \<longleftrightarrow> (\<forall>aa\<in>set aas. an_fd (snd aa) \<noteq> - 1 \<and> an_bind (snd aa) = 0 \<and> an_listen (snd aa) = 0)"
      "bad = [] \<longrightarrow> map m_sock more = map (an_fd \<circ> snd) aas"
      using Cons.IH [OF b(2), of "socks @ [sk]" fails] Cons.prems by auto
    then show ?thesis using b Some
      by (intro exI [of _ "sk # more"] exI [of _ bad] exI [of _ s']) auto
  qed
qed simp


definition demoAnswer :: bind_answer where
  "demoAnswer = \<lparr>an_fd = 7, an_bind = 0, an_local = None, an_listen = 98\<rparr>"


section \<open>Clients\<close>

lemma iom_schedule_fibers:
  "m_fibers (iom_sch (iom_schedule f (Some cb) m)) = m_fibers (iom_sch m) @ [\<lparr>ft_fiber = f, ft_cb = Some cb, ft_thread = - 1\<rparr>]"
  by (simp add: iom_schedule_def schedule_def scheduleNoLock_def Let_def)

lemma setRecvTimeout_iom [simp]: "h_iom (setRecvTimeout en v sk s) = h_iom s"
  by (simp add: setRecvTimeout_def setsockopt_timeo_def split: option.splits)

definition client_task :: "(sock \<Rightarrow> hcb) \<Rightarrow> sock \<Rightarrow> hcb ftask" where
  "client_task task c = \<lparr>ft_fiber = None, ft_cb = Some (task c), ft_thread = - 1\<rparr>"

lemma accept_turn_tasks:
  "accept_turn host en task newsock local remote srv sk s = (client, s') \<Longrightarrow>
     m_fibers (iom_sch (h_iom s')) = m_fibers (iom_sch (h_iom s)) @ map (client_task task) (case client of None \<Rightarrow> [] | Some c \<Rightarrow> [c])"
  by (auto simp: accept_turn_def worker_schedule_def iom_schedule_fibers client_task_def split: option.splits)


end
