(* ===== verification/HttpClient.thy ===== *)
theory HttpClient
  imports HttpConnection TcpServer
begin

text \<open>
  Requests of a client (\<^verbatim>\<open>saturn/http/http_connection.cc\<close>): building the request, the one-shot \<^verbatim>\<open>DoRequest\<close> and
  its variants, and their results.  \<open>cenv\<close> holds what the code takes from elsewhere, as \<open>http_env\<close> does for the
  server, with the answers of the kernel to the connection attempt and the texts of its errors.
\<close>

section \<open>Results\<close>

datatype HttpError = OK | INVALID_URL | INVALID_HOST | CONNECT_FAIL | SEND_CLOSE_BY_PEER | SEND_SOCKET_ERROR | TIMEOUT
  | CREATE_SOCKET_ERROR | POOL_GET_CONNECTION | POOL_INVALID_CONNECTION

definition error_code :: "HttpError \<Rightarrow> int" where
  "error_code e = (case e of
       OK \<Rightarrow> 0 | INVALID_URL \<Rightarrow> 1 | INVALID_HOST \<Rightarrow> 2 | CONNECT_FAIL \<Rightarrow> 3 | SEND_CLOSE_BY_PEER \<Rightarrow> 4 | SEND_SOCKET_ERROR \<Rightarrow> 5
     | TIMEOUT \<Rightarrow> 6 | CREATE_SOCKET_ERROR \<Rightarrow> 7 | POOL_GET_CONNECTION \<Rightarrow> 8 | POOL_INVALID_CONNECTION \<Rightarrow> 9)"

record http_result =
  r_result :: int
  r_response :: "http_response option"
  r_error :: string

definition HttpResult :: "HttpError \<Rightarrow> http_response option \<Rightarrow> string \<Rightarrow> http_result" where
  "HttpResult e rsp msg = \<lparr>r_result = error_code e, r_response = rsp, r_error = msg\<rparr>"

definition result_toString :: "http_result \<Rightarrow> string" where
  "result_toString r =
     ''[HttpResult result='' @ dec_int (r_result r) @ '' error='' @ r_error r @ '' response='' @
     (case r_response r of Some rsp \<Rightarrow> dump_response rsp | None \<Rightarrow> ''nullptr'') @ '']''"

section \<open>Building a request\<close>

fun put_headers :: "(string \<times> string) list \<Rightarrow> bool \<Rightarrow> http_request \<Rightarrow> bool \<times> http_request" where
  "put_headers [] has_host req = (has_host, req)"
| "put_headers ((k, v) # hs) has_host req =
     (if strcasecmp k ''connection'' = 0
      then put_headers hs has_host (if strcasecmp v ''keep-alive'' = 0 then setClose req False else req)
      else put_headers hs (if \<not> has_host \<and> strcasecmp k ''host'' = 0 then v \<noteq> [] else has_host) (setHeader req k v))"

definition client_request :: "HttpMethod \<Rightarrow> uri \<Rightarrow> (string \<times> string) list \<Rightarrow> string \<Rightarrow> http_request" where
  "client_request meth u headers body =
     (let req = setMethod (setFragment (setQuery (setPath (HttpRequest 0x11 True) (uri_getPath u)) (u_query u)) (u_fragment u)) meth;
          (has_host, req1) = put_headers headers False req;
          req2 = (if has_host then req1 else setHeader req1 ''Host'' (u_host u))
      in setBody req2 body)"

definition pool_request :: "string \<Rightarrow> string \<Rightarrow> HttpMethod \<Rightarrow> string \<Rightarrow> (string \<times> string) list \<Rightarrow> string \<Rightarrow> http_request" where
  "pool_request m_host m_vhost meth url headers body =
     (let req = setClose (setMethod (setPath (HttpRequest 0x11 True) url) meth) False;
          (has_host, req1) = put_headers headers False req;
          req2 = (if has_host then req1 else setHeader req1 ''Host'' (if m_vhost = [] then m_host else m_vhost))
      in setBody req2 body)"

definition uri_target :: "uri \<Rightarrow> string" where
  "uri_target u =
     uri_getPath u @ (if u_query u = [] then [] else ''?'') @ u_query u @ (if u_fragment u = [] then [] else ''#'') @ u_fragment u"

section \<open>One-shot requests\<close>

record net_env =
  ce_gai :: gai
  ce_fd :: int
  ce_rc :: int
  ce_local :: name_answer
  ce_errno :: string

record 'k client_env = net_env +
  ce_run :: rsp_machine
  ce_cast :: "string \<Rightarrow> u64 option"
  ce_alloc :: "nat \<Rightarrow> bool"
  ce_recv :: "(char, 'k) reader"
  ce_send :: "(char, 'k) writer"
  ce_buff :: nat
  ce_mem :: string
  ce_memory :: httpclient_parser
  ce_junk :: bool

text \<open>What the pool and the one-shot request do with a connection: send, receive, judge.\<close>

definition exchange :: "'k client_env \<Rightarrow> string \<Rightarrow> u64 \<Rightarrow> http_request \<Rightarrow> hooksys \<times> socket_stream \<Rightarrow> 'k \<Rightarrow>
    (http_result \<times> (hooksys \<times> socket_stream) \<times> 'k) res option" where
  "exchange env peer timeout_ms req hs k =
     (case sendRequest (ce_send env) (snd hs) req k of
        (rt, k1) \<Rightarrow>
          if rt = 0 then Some (Inr (HttpResult SEND_CLOSE_BY_PEER None (''send request closed by peer: '' @ peer), hs, k1))
          else if rt < 0 then Some (Inr (HttpResult SEND_SOCKET_ERROR None (''send request socket error errno='' @ ce_errno env), hs, k1))
          else map_option (\<lambda>r. bindE r (\<lambda>(rsp, hs1, k2).
                 case rsp of
                   None \<Rightarrow> Inr (HttpResult TIMEOUT None (''recv response timeout: '' @ peer @ '' timeout_ms:'' @ dec (unat timeout_ms)), hs1, k2)
                 | Some p \<Rightarrow> Inr (HttpResult OK (Some p) ''ok'', hs1, k2)))
               (recvResponse (ce_run env) (ce_cast env) (ce_alloc env) (ce_recv env) (ce_buff env) (ce_mem env) (ce_memory env) (ce_junk env) hs k1))"

text \<open>The connection, and with it the socket, is destroyed at the end of the function.\<close>

definition DoRequest :: "endian \<Rightarrow> 'k client_env \<Rightarrow> http_request \<Rightarrow> uri \<Rightarrow> u64 \<Rightarrow> hooksys \<Rightarrow> 'k \<Rightarrow> (http_result \<times> hooksys \<times> 'k) res option" where
  "DoRequest host env req u timeout_ms s k =
     (case createAddress host (ce_gai env) u of
        None \<Rightarrow> Some (Inr (HttpResult INVALID_HOST None (''invalid host: '' @ u_host u), s, k))
      | Some addr \<Rightarrow>
          Option.bind (sock_connect host True True (ce_fd env) (ce_rc env) (ce_local env) addr (s, CreateTCP addr)) (\<lambda>c.
            case c of
              Inl e \<Rightarrow> Some (Inl e)
            | Inr (b, s1, sk) \<Rightarrow>
                if \<not> b then
                  Some (bindE (sock_close True True (s1, sk)) (\<lambda>(_, s2, _).
                    Inr (HttpResult CONNECT_FAIL None (''connect fail: '' @ addr_toString host addr), s2, k)))
                else
                  map_option (\<lambda>r. bindE r (\<lambda>(res, hs1, k1). bindE (ss_destroy True True hs1) (\<lambda>hs2. Inr (res, fst hs2, k1))))
                    (exchange env (addr_toString host addr) timeout_ms req
                       (setRecvTimeout True (sint timeout_ms) sk s1, newSocketStream (Some sk) True) k)))"

definition DoRequestUri :: "endian \<Rightarrow> 'k client_env \<Rightarrow> HttpMethod \<Rightarrow> uri \<Rightarrow> u64 \<Rightarrow> (string \<times> string) list \<Rightarrow> string \<Rightarrow> hooksys \<Rightarrow> 'k \<Rightarrow>
    (http_result \<times> hooksys \<times> 'k) res option" where
  "DoRequestUri host env meth u timeout_ms headers body s k = DoRequest host env (client_request meth u headers body) u timeout_ms s k"

text \<open>The variants on a string differ in the method: \<^verbatim>\<open>DoGet\<close>, \<^verbatim>\<open>DoPost\<close>, \<^verbatim>\<open>DoRequest\<close>.\<close>

definition DoRequestUrl :: "(string \<Rightarrow> uri \<Rightarrow> nat \<times> uri) \<Rightarrow> endian \<Rightarrow> 'k client_env \<Rightarrow> HttpMethod \<Rightarrow> string \<Rightarrow> u64 \<Rightarrow> (string \<times> string) list \<Rightarrow> string \<Rightarrow>
    hooksys \<Rightarrow> 'k \<Rightarrow> (http_result \<times> hooksys \<times> 'k) res option" where
  "DoRequestUrl uri_run host env meth url timeout_ms headers body s k =
     (case Uri_Create uri_run url of
        None \<Rightarrow> Some (Inr (HttpResult INVALID_URL None (''invalid url: '' @ url), s, k))
      | Some u \<Rightarrow> DoRequestUri host env meth u timeout_ms headers body s k)"

definition DoGet :: "(string \<Rightarrow> uri \<Rightarrow> nat \<times> uri) \<Rightarrow> endian \<Rightarrow> 'k client_env \<Rightarrow> string \<Rightarrow> u64 \<Rightarrow> (string \<times> string) list \<Rightarrow> string \<Rightarrow>
    hooksys \<Rightarrow> 'k \<Rightarrow> (http_result \<times> hooksys \<times> 'k) res option" where
  "DoGet uri_run host env url timeout_ms headers body s k = DoRequestUrl uri_run host env GET url timeout_ms headers body s k"

definition DoPost :: "(string \<Rightarrow> uri \<Rightarrow> nat \<times> uri) \<Rightarrow> endian \<Rightarrow> 'k client_env \<Rightarrow> string \<Rightarrow> u64 \<Rightarrow> (string \<times> string) list \<Rightarrow> string \<Rightarrow>
    hooksys \<Rightarrow> 'k \<Rightarrow> (http_result \<times> hooksys \<times> 'k) res option" where
  "DoPost uri_run host env url timeout_ms headers body s k = DoRequestUrl uri_run host env POST url timeout_ms headers body s k"

section \<open>The headers of a request\<close>

definition asks_keepalive :: "(string \<times> string) list \<Rightarrow> bool" where
  "asks_keepalive headers \<longleftrightarrow> (\<exists>(k, v)\<in>set headers. strcasecmp k ''connection'' = 0 \<and> strcasecmp v ''keep-alive'' = 0)"

lemma strcasecmp_sym0: "strcasecmp a b = 0 \<longleftrightarrow> strcasecmp b a = 0"
  using ci_eqI [of a b] ci_eqI [of b a] by blast

lemma put_headers_spec:
  assumes "put_headers hs h req = (h', req')" "ci_sorted (rq_headers req)"
    "h \<Longrightarrow> map_find CaseInsensitiveLess ''host'' (rq_headers req) \<noteq> None"
  shows "ci_sorted (rq_headers req') \<and> (h' \<longrightarrow> map_find CaseInsensitiveLess ''host'' (rq_headers req') \<noteq> None) \<and>
    rq_close req' = (rq_close req \<and> \<not> asks_keepalive hs) \<and>
    ((\<forall>(k, v)\<in>set hs. strcasecmp k ''host'' \<noteq> 0) \<longrightarrow> h' = h)"
  using assms
proof (induction hs h req rule: put_headers.induct)
  case (2 k v hs h req)
  show ?case
  proof (cases "strcasecmp k ''connection'' = 0")
    case True
    then show ?thesis using 2(1) [OF True] 2(3-5)
      by (auto simp: setClose_def asks_keepalive_def split: if_splits)
  next
    case False
    let ?h = "if \<not> h \<and> strcasecmp k ''host'' = 0 then v \<noteq> [] else h"
    have "map_find CaseInsensitiveLess ''host'' (rq_headers (setHeader req k v)) \<noteq> None" if ?h
      using that 2(4,5) strcasecmp_sym0 [of k "''host''"] by (auto simp: setHeader_def ci_find_assign split: if_splits)
    then show ?thesis using 2(2) [OF False] 2(3,4) False
      by (auto simp: setHeader_def asks_keepalive_def)
  qed
qed (simp add: asks_keepalive_def)

text \<open>
  A request built for a URI always names a host: the one of the URI when no host header is given.  It asks
  to close the connection unless a connection header says keep-alive, in any case of letters, and carries the
  body given.
\<close>

theorem request_names_host:
  "(let req = client_request meth u headers body in
      map_find CaseInsensitiveLess ''host'' (rq_headers req) \<noteq> None \<and>
      ((\<forall>(k, v)\<in>set headers. strcasecmp k ''host'' \<noteq> 0) \<longrightarrow> getHeader req ''host'' [] = u_host u) \<and>
      (rq_close req \<longleftrightarrow> \<not> asks_keepalive headers) \<and> rq_body req = body)"
proof -
  define req where "req = setMethod (setFragment (setQuery (setPath (HttpRequest 0x11 True) (uri_getPath u)) (u_query u)) (u_fragment u)) meth"
  have req: "rq_headers req = []" "rq_close req" by (simp_all add: req_def rq_ops HttpRequest_def)
  obtain h req1 where p: "put_headers headers False req = (h, req1)" by fastforce
  note spec = put_headers_spec [OF p]
  have eq: "strcasecmp ''host'' ''Host'' = 0" "strcasecmp ''Host'' ''host'' = 0" by code_simp+
  show ?thesis
    using spec req eq p
    by (auto simp: client_request_def Let_def setBody_def setHeader_def getHeader_def map_get_def ci_find_assign simp flip: req_def split: option.splits)
qed

theorem request_names_host_witness:
  "getHeader (client_request GET (newUri\<lparr>u_host := ''example''\<rparr>) [(''Accept'', ''x'')] []) ''host'' [] = ''example''"
proof -
  have "strcasecmp ''Accept'' ''host'' \<noteq> 0" by code_simp
  then show ?thesis
    using request_names_host [of GET "newUri\<lparr>u_host := ''example''\<rparr>" "[(''Accept'', ''x'')]" "[]"] by (simp add: Let_def)
qed

section \<open>Nothing is leaked\<close>

lemma ss_close_releases:
  assumes "sys_ok (fst hs)" "m_socket (snd hs) = Some sk" "m_sock sk = int n"
  shows "\<exists>hs'. ss_close True True hs = Inr hs' \<and> sys_ok (fst hs') \<and> fdm_find (h_fdm (fst hs')) n = None \<and>
    m_owner (snd hs') = m_owner (snd hs) \<and> ss_close True True hs' = Inr hs'"
  using hook_close_ok [of "fst hs" n] assms
  by (cases hs) (auto simp: ss_close_def sock_close_def sys_ok_def Let_def)

lemma closing_hs: "closing hs k = Inr (r, hs', k') \<Longrightarrow> ss_close True True hs = Inr hs'"
  by (auto simp: closing_def err_simps)

lemma recvResponse_hs:
  assumes "recvResponse run lexical_cast alloc recv buff_size mem memory junk hs k = Some (Inr (r, hs', k'))"
  shows "hs' = hs \<or> ss_close True True hs = Inr hs'"
proof -
  obtain found k1 where h: "rsp_head run recv (snd hs) buff_size False mem 0 (newResponseParser memory junk) k = Some (Inr (found, k1))"
  proof -
    obtain x where x: "rsp_head run recv (snd hs) buff_size False mem 0 (newResponseParser memory junk) k = Some x"
      using assms by (auto simp: recvResponse_def bind_eq_Some_conv)
    then obtain y where "x = Inr y" using assms by (cases x) (auto simp: recvResponse_def)
    then show ?thesis using that x by (cases y) auto
  qed
  show ?thesis
  proof (cases found)
    case None
    then show ?thesis using assms h by (auto simp: recvResponse_def dest: closing_hs)
  next
    case (Some f)
    obtain sp data offset where f: "f = (sp, data, offset)" by (metis prod_cases3)
    obtain b k2 where b: "recv_body recv (snd hs) (nat (sint (sp_getContentLength lexical_cast sp))) data offset k1 = (b, k2)" by fastforce
    show ?thesis
    proof (cases "hc_chunked (sp_parser sp)")
      case True
      then show ?thesis using assms h Some f
        by (auto simp: recvResponse_def err_simps dest!: closing_hs split: option.splits)
    next
      case False
      then show ?thesis using assms h Some f b
        by (auto simp: recvResponse_def response_body_def Let_def dest!: closing_hs split: option.splits if_splits)
    qed
  qed
qed

lemma exchange_spec:
  assumes "text_recv (ce_recv env) input"
  shows "\<exists>r. exchange env peer timeout_ms req hs k = Some r \<and> (\<forall>res hs' k'. r = Inr (res, hs', k') \<longrightarrow>
    (hs' = hs \<or> ss_close True True hs = Inr hs') \<and> (r_result res = 0 \<longleftrightarrow> r_response res \<noteq> None))"
proof -
  obtain rt k1 where w: "sendRequest (ce_send env) (snd hs) req k = (rt, k1)" by fastforce
  obtain r where r: "recvResponse (ce_run env) (ce_cast env) (ce_alloc env) (ce_recv env) (ce_buff env) (ce_mem env) (ce_memory env) (ce_junk env) hs k1 = Some r"
    using text_recv.recvResponse_ends [OF assms] by blast
  then show ?thesis
    using w recvResponse_hs [of "ce_run env" "ce_cast env" "ce_alloc env" "ce_recv env" "ce_buff env" "ce_mem env" "ce_memory env" "ce_junk env" hs k1]
    by (auto simp: exchange_def HttpResult_def error_code_def err_simps split: option.splits)
qed

lemma setRecvTimeout_sys_ok: "sys_ok s \<Longrightarrow> sys_ok (setRecvTimeout True v sk s)"
proof (cases "lookup (m_sock sk) s")
  case (Some c)
  moreover assume ok: "sys_ok s"
  moreover obtain n where n: "m_sock sk = int n" using Some by (cases "m_sock sk" rule: int_cases) (auto simp: lookup_def fdm_get_def split: if_splits)
  ultimately have "fdm_find (h_fdm s) n = Some c" "fdc_ok n c" using fdt.inv_ok [of "h_fdm s" n c] by (auto simp: sys_ok_def)
  then show ?thesis using ok n Some fdt.inv_set [of "h_fdm s" n c]
    by (auto simp: setRecvTimeout_def setsockopt_timeo_def sys_ok_def setTimeout_def fdc_ok_def)
qed (simp add: setRecvTimeout_def setsockopt_timeo_def)

lemma sock_connect_ok:
  assumes "sys_ok s" "- 1 \<le> fd"
  shows "\<exists>b s1 sk. sock_connect host True True fd rc local addr (s, CreateTCP addr) = Some (Inr (b, s1, sk)) \<and> sys_ok s1 \<and>
    (if b then m_sock sk = fd \<and> fd \<noteq> - 1
     else m_sock sk = - 1 \<and> \<not> m_isConnected sk \<and> (\<forall>n. fd = int n \<longrightarrow> fdm_find (h_fdm s1) n = None))"
proof (cases "fd = - 1")
  case True
  then show ?thesis using assms
    by (simp add: sock_connect_def ensureSock_def isValid_def CreateTCP_def newSocket_def newSock_def hook_socket_def sys_ok_def)
      (metis (no_types, opaque_lifting))
next
  case False
  then have "0 \<le> fd" using assms(2) by linarith
  then obtain n where n: "fd = int n" by (rule nonneg_int_cases)
  obtain s1 where s1: "register_fd (int n) s = Some s1" "sys_ok s1"
    using register_fd_ok [of s n] assms(1) by (auto simp: sys_ok_def)
  define sk where "sk = (CreateTCP addr)\<lparr>m_remoteAddress := Some addr, m_sock := int n\<rparr>"
  have ens: "ensureSock True fd (s, (CreateTCP addr)\<lparr>m_remoteAddress := Some addr\<rparr>) = Some (s1, sk)"
    using s1(1) n by (simp add: ensureSock_def isValid_def CreateTCP_def newSocket_def newSock_def hook_socket_def sk_def)
  obtain s2 where "hook_close True True n s1 = Inr s2" "sys_ok s2" "fdm_find (h_fdm s2) n = None"
    using hook_close_ok [of s1 n] s1(2) by (auto simp: sys_ok_def)
  then show ?thesis using ens s1(2) n
    by (cases "rc = 0") (auto simp: sock_connect_def isValid_def sk_def CreateTCP_def newSocket_def sock_close_def
        getLocalAddress_def getRemoteAddress_def split: option.splits)
qed

text \<open>
  C30: a one-shot request ends and leaves nothing behind.  Its result is OK exactly when it carries a response;
  whether the host is unknown, the connection refused, the sending or the receiving fails or all goes well,
  the descriptor made for it has no context any more.
\<close>

theorem DoRequest_releases:
  assumes "text_recv (ce_recv env) input" "sys_ok s" "- 1 \<le> ce_fd env"
  shows "\<exists>r. DoRequest host env req u timeout_ms s k = Some r \<and> (\<forall>res s' k'. r = Inr (res, s', k') \<longrightarrow>
    sys_ok s' \<and> (r_result res = 0 \<longleftrightarrow> r_response res \<noteq> None) \<and>
    (\<forall>n. createAddress host (ce_gai env) u \<noteq> None \<and> ce_fd env = int n \<longrightarrow> fdm_find (h_fdm s') n = None))"
proof (cases "createAddress host (ce_gai env) u")
  case None
  then show ?thesis using assms(2) by (simp add: DoRequest_def HttpResult_def error_code_def)
next
  case (Some addr)
  obtain b s1 sk where c: "sock_connect host True True (ce_fd env) (ce_rc env) (ce_local env) addr (s, CreateTCP addr) = Some (Inr (b, s1, sk))"
    "sys_ok s1" "if b then m_sock sk = ce_fd env \<and> ce_fd env \<noteq> - 1
     else m_sock sk = - 1 \<and> \<not> m_isConnected sk \<and> (\<forall>n. ce_fd env = int n \<longrightarrow> fdm_find (h_fdm s1) n = None)"
    using sock_connect_ok [OF assms(2,3)] by blast
  show ?thesis
  proof (cases b)
    case False
    then show ?thesis using Some c by (simp add: DoRequest_def sock_close_def HttpResult_def error_code_def)
  next
    case True
    then obtain n where n: "ce_fd env = int n" "m_sock sk = int n"
      using c(3) assms(3) by (cases "ce_fd env" rule: int_cases) auto
    let ?hs = "(setRecvTimeout True (sint timeout_ms) sk s1, newSocketStream (Some sk) True)"
    obtain r where r: "exchange env (addr_toString host addr) timeout_ms req ?hs k = Some r"
      "\<forall>res hs' k'. r = Inr (res, hs', k') \<longrightarrow> (hs' = ?hs \<or> ss_close True True ?hs = Inr hs') \<and> (r_result res = 0 \<longleftrightarrow> r_response res \<noteq> None)"
      using exchange_spec [OF assms(1)] by blast
    obtain hs2 where hs2: "ss_close True True ?hs = Inr hs2" "sys_ok (fst hs2)" "fdm_find (h_fdm (fst hs2)) n = None"
      "m_owner (snd hs2)" "ss_close True True hs2 = Inr hs2"
      using ss_close_releases [of ?hs sk n] setRecvTimeout_sys_ok [OF c(2)] n(2) by (auto simp: newSocketStream_def)
    have "ss_destroy True True hs' = Inr hs2" if "hs' = ?hs \<or> ss_close True True ?hs = Inr hs'" for hs'
      using that hs2 by (auto simp: ss_destroy_def newSocketStream_def)
    then show ?thesis using Some c(1) True r hs2 n(1)
      by (cases r) (auto simp: DoRequest_def err_simps)
  qed
qed

definition demoCEnv :: "char conn client_env" where
  "demoCEnv = \<lparr>ce_gai = (\<lambda>_ _. Some [Some (SaIn (newIPv4 LITTLE_ENDIAN 0x7F000001 0))]), ce_fd = 7, ce_rc = 0, ce_local = None,
     ce_errno = ''104'', ce_run = demoRspMachine, ce_cast = (\<lambda>_. None), ce_alloc = (\<lambda>_. True), ce_recv = conn_recv,
     ce_send = conn_send, ce_buff = 64, ce_mem = replicate 65 (CHR 0x00), ce_memory = demoClient, ce_junk = False\<rparr>"

lemma demo_sys_ok: "sys_ok demoHook"
  by (auto simp: sys_ok_def demoHook_def newIOManager_inv fdm_inv_def newFdManager_def fdm_find_def)

theorem DoRequest_releases_witness:
  "\<exists>r. DoRequest LITTLE_ENDIAN demoCEnv (HttpRequest 0x11 True) (newUri\<lparr>u_host := ''localhost''\<rparr>) 1000 demoHook demoText = Some r"
proof -
  have recv: "text_recv (ce_recv demoCEnv) c_in" using tcr.text_recv_axioms by (simp add: demoCEnv_def)
  have fd: "- 1 \<le> ce_fd demoCEnv" by (simp add: demoCEnv_def)
  obtain r where "DoRequest LITTLE_ENDIAN demoCEnv (HttpRequest 0x11 True) (newUri\<lparr>u_host := ''localhost''\<rparr>) 1000 demoHook demoText = Some r"
    using DoRequest_releases [OF recv demo_sys_ok fd, of LITTLE_ENDIAN "HttpRequest 0x11 True" "newUri\<lparr>u_host := ''localhost''\<rparr>" 1000 demoText]
    by (elim exE conjE) (rule that)
  then show ?thesis by blast
qed

end
