(* ===== verification/HttpPool.thy ===== *)
theory HttpPool
  imports HttpClient
begin

text \<open>
  The pool of client connections (\<^verbatim>\<open>HttpConnectionPool\<close> in \<^verbatim>\<open>saturn/http/http_connection.cc\<close>).  A connection is owned
  by the pool or by the caller it was handed to; the times are milliseconds since the epoch.
\<close>

section \<open>State\<close>

record http_conn =
  cn_stream :: socket_stream
  cn_createTime :: u64
  cn_request :: u64

record pool =
  p_host :: string
  p_vhost :: string
  p_port :: u32
  p_maxSize :: u32
  p_maxAliveTime :: u32
  p_maxRequest :: u32
  p_conns :: "http_conn list"
  p_total :: int

definition HttpConnectionPool :: "string \<Rightarrow> string \<Rightarrow> u32 \<Rightarrow> u32 \<Rightarrow> u32 \<Rightarrow> u32 \<Rightarrow> pool" where
  "HttpConnectionPool host vhost port max_size max_alive_time max_request =
     \<lparr>p_host = host, p_vhost = vhost, p_port = port, p_maxSize = max_size, p_maxAliveTime = max_alive_time,
      p_maxRequest = max_request, p_conns = [], p_total = 0\<rparr>"

section \<open>Getting a connection\<close>

text \<open>The loop under the lock: the connection found, the ones to delete, the ones that stay.\<close>

fun pick_conn :: "u64 \<Rightarrow> u32 \<Rightarrow> http_conn list \<Rightarrow> http_conn option \<times> http_conn list \<times> http_conn list" where
  "pick_conn now_ms alive [] = (None, [], [])"
| "pick_conn now_ms alive (c # cs) =
     (if \<not> ss_isConnected (cn_stream c) \<or> cn_createTime c + ucast alive > now_ms
      then (case pick_conn now_ms alive cs of (r, bad, rest) \<Rightarrow> (r, c # bad, rest))
      else (Some c, [], cs))"

fun delete_conns :: "http_conn list \<Rightarrow> hooksys \<Rightarrow> hooksys res" where
  "delete_conns [] s = Inr s"
| "delete_conns (c # cs) s = bindE (ss_destroy True True (s, cn_stream c)) (\<lambda>(s1, _). delete_conns cs s1)"

text \<open>A new connection; the answers of the kernel are those of \<open>net_env\<close>.\<close>

definition new_conn :: "endian \<Rightarrow> net_env \<Rightarrow> pool \<Rightarrow> hooksys \<Rightarrow> (http_conn option \<times> hooksys) res option" where
  "new_conn host env pl s =
     (case LookupAnyIPAddress (ce_gai env) (p_host pl) of
        None \<Rightarrow> Some (Inr (None, s))
      | Some a \<Rightarrow>
          (let addr = setPort host (ucast (p_port pl)) a in
           map_option (\<lambda>c. bindE c (\<lambda>(b, s1, sk).
             if \<not> b then bindE (sock_close True True (s1, sk)) (\<lambda>(_, s2, _). Inr (None, s2))
             else Inr (Some \<lparr>cn_stream = newSocketStream (Some sk) True, cn_createTime = 0, cn_request = 0\<rparr>, s1)))
           (sock_connect host True True (ce_fd env) (ce_rc env) (ce_local env) addr (s, CreateTCP addr))))"

definition getConnection :: "endian \<Rightarrow> net_env \<Rightarrow> u64 \<Rightarrow> pool \<Rightarrow> hooksys \<Rightarrow> (http_conn option \<times> pool \<times> hooksys) res option" where
  "getConnection host env now_ms pl s =
     (case pick_conn now_ms (p_maxAliveTime pl) (p_conns pl) of
        (found, bad, rest) \<Rightarrow>
          (let pl1 = pl\<lparr>p_conns := rest, p_total := p_total pl - int (length bad)\<rparr> in
           case delete_conns bad s of
             Inl e \<Rightarrow> Some (Inl e)
           | Inr s1 \<Rightarrow>
               (case found of
                  Some c \<Rightarrow> Some (Inr (Some c, pl1, s1))
                | None \<Rightarrow>
                    map_option (\<lambda>r. bindE r (\<lambda>(c, s2).
                      Inr (c, if c = None then pl1 else pl1\<lparr>p_total := p_total pl1 + 1\<rparr>, s2))) (new_conn host env pl1 s1))))"

section \<open>Giving it back\<close>

definition ReleasePtr :: "u64 \<Rightarrow> http_conn \<Rightarrow> pool \<Rightarrow> hooksys \<Rightarrow> (pool \<times> hooksys) res" where
  "ReleasePtr now_ms c pl s =
     (let c1 = c\<lparr>cn_request := cn_request c + 1\<rparr> in
      if \<not> ss_isConnected (cn_stream c1) \<or> cn_createTime c1 + ucast (p_maxAliveTime pl) \<ge> now_ms \<or> cn_request c1 \<ge> ucast (p_maxRequest pl)
      then bindE (delete_conns [c1] s) (\<lambda>s1. Inr (pl\<lparr>p_total := p_total pl - 1\<rparr>, s1))
      else Inr (pl\<lparr>p_conns := p_conns pl @ [c1]\<rparr>, s))"

section \<open>Requests through the pool\<close>

definition pool_where :: "pool \<Rightarrow> string" where
  "pool_where pl = ''pool host:'' @ p_host pl @ '' port:'' @ dec (unat (p_port pl))"

text \<open>The connection goes back at the end; its socket is never null. \<open>peer\<close> is the remote address as printed.\<close>

definition doRequest :: "endian \<Rightarrow> 'k client_env \<Rightarrow> string \<Rightarrow> u64 \<Rightarrow> u64 \<Rightarrow> http_request \<Rightarrow> u64 \<Rightarrow> pool \<Rightarrow> hooksys \<Rightarrow> 'k \<Rightarrow>
    (http_result \<times> pool \<times> hooksys \<times> 'k) res option" where
  "doRequest host env peer now_ms now2 req timeout_ms pl s k =
     Option.bind (getConnection host (net_env.truncate env) now_ms pl s) (\<lambda>g.
       case g of
         Inl e \<Rightarrow> Some (Inl e)
       | Inr (found, pl1, s1) \<Rightarrow>
           (case found of
              None \<Rightarrow> Some (Inr (HttpResult POOL_GET_CONNECTION None (pool_where pl), pl1, s1, k))
            | Some c \<Rightarrow>
                (case m_socket (cn_stream c) of
                   None \<Rightarrow> Some (bindE (ReleasePtr now2 c pl1 s1) (\<lambda>(pl2, s2).
                             Inr (HttpResult POOL_INVALID_CONNECTION None (pool_where pl), pl2, s2, k)))
                 | Some sk \<Rightarrow>
                     map_option (\<lambda>r. bindE r (\<lambda>(res, hs1, k1).
                       bindE (ReleasePtr now2 (c\<lparr>cn_stream := snd hs1\<rparr>) pl1 (fst hs1)) (\<lambda>(pl2, s2). Inr (res, pl2, s2, k1))))
                     (exchange env peer timeout_ms req (setRecvTimeout True (sint timeout_ms) sk s1, cn_stream c) k))))"

definition doRequestUrl :: "endian \<Rightarrow> 'k client_env \<Rightarrow> string \<Rightarrow> u64 \<Rightarrow> u64 \<Rightarrow> HttpMethod \<Rightarrow> string \<Rightarrow> u64 \<Rightarrow> (string \<times> string) list \<Rightarrow> string \<Rightarrow>
    pool \<Rightarrow> hooksys \<Rightarrow> 'k \<Rightarrow> (http_result \<times> pool \<times> hooksys \<times> 'k) res option" where
  "doRequestUrl host env peer now_ms now2 meth url timeout_ms headers body pl s k =
     doRequest host env peer now_ms now2 (pool_request (p_host pl) (p_vhost pl) meth url headers body) timeout_ms pl s k"

definition doRequestUri :: "endian \<Rightarrow> 'k client_env \<Rightarrow> string \<Rightarrow> u64 \<Rightarrow> u64 \<Rightarrow> HttpMethod \<Rightarrow> uri \<Rightarrow> u64 \<Rightarrow> (string \<times> string) list \<Rightarrow> string \<Rightarrow>
    pool \<Rightarrow> hooksys \<Rightarrow> 'k \<Rightarrow> (http_result \<times> pool \<times> hooksys \<times> 'k) res option" where
  "doRequestUri host env peer now_ms now2 meth u timeout_ms headers body pl s k =
     doRequestUrl host env peer now_ms now2 meth (uri_target u) timeout_ms headers body pl s k"

definition doGet :: "endian \<Rightarrow> 'k client_env \<Rightarrow> string \<Rightarrow> u64 \<Rightarrow> u64 \<Rightarrow> string \<Rightarrow> u64 \<Rightarrow> (string \<times> string) list \<Rightarrow> string \<Rightarrow>
    pool \<Rightarrow> hooksys \<Rightarrow> 'k \<Rightarrow> (http_result \<times> pool \<times> hooksys \<times> 'k) res option" where
  "doGet host env peer now_ms now2 url timeout_ms headers body pl s k =
     doRequestUrl host env peer now_ms now2 GET url timeout_ms headers body pl s k"

definition doPost :: "endian \<Rightarrow> 'k client_env \<Rightarrow> string \<Rightarrow> u64 \<Rightarrow> u64 \<Rightarrow> string \<Rightarrow> u64 \<Rightarrow> (string \<times> string) list \<Rightarrow> string \<Rightarrow>
    pool \<Rightarrow> hooksys \<Rightarrow> 'k \<Rightarrow> (http_result \<times> pool \<times> hooksys \<times> 'k) res option" where
  "doPost host env peer now_ms now2 url timeout_ms headers body pl s k =
     doRequestUrl host env peer now_ms now2 POST url timeout_ms headers body pl s k"

section \<open>Histories of a pool\<close>

text \<open>\<open>out\<close> are the connections that callers hold; a caller may change a connection while it holds it.\<close>

inductive pool_reach :: "pool \<Rightarrow> http_conn list \<Rightarrow> bool" where
  new: "pool_reach (HttpConnectionPool h vh port sz alive reqs) []"
| get: "pool_reach pl out \<Longrightarrow> getConnection host env now_ms pl s = Some (Inr (c, pl', s')) \<Longrightarrow>
    pool_reach pl' ((case c of None \<Rightarrow> [] | Some x \<Rightarrow> [x]) @ out)"
| use: "pool_reach pl (xs @ c # ys) \<Longrightarrow> pool_reach pl (xs @ c\<lparr>cn_stream := st\<rparr> # ys)"
| release: "pool_reach pl (xs @ c # ys) \<Longrightarrow> ReleasePtr now_ms c pl s = Inr (pl', s') \<Longrightarrow> pool_reach pl' (xs @ ys)"

lemma pick_conn_parts:
  "pick_conn now alive cs = (r, bad, rest) \<Longrightarrow> cs = bad @ (case r of None \<Rightarrow> [] | Some c \<Rightarrow> [c]) @ rest"
  by (induction now alive cs arbitrary: bad rule: pick_conn.induct) (auto split: if_splits prod.splits)

lemma new_conn_time: "new_conn host env pl s = Some (Inr (Some c, s')) \<Longrightarrow> cn_createTime c = 0"
  by (auto simp: new_conn_def Let_def err_simps split: option.splits if_splits)

lemma getConnection_spec:
  assumes "getConnection host env now_ms pl s = Some (Inr (c, pl', s'))"
  shows "p_total pl' - int (length (p_conns pl')) = p_total pl - int (length (p_conns pl)) + (if c = None then 0 else 1) \<and>
    set (p_conns pl') \<subseteq> set (p_conns pl) \<and> (\<forall>x. c = Some x \<longrightarrow> x \<in> set (p_conns pl) \<or> cn_createTime x = 0)"
proof -
  obtain found bad rest where p: "pick_conn now_ms (p_maxAliveTime pl) (p_conns pl) = (found, bad, rest)" by (metis prod_cases3)
  note parts = pick_conn_parts [OF p]
  obtain s1 where d: "delete_conns bad s = Inr s1"
    using assms p by (cases "delete_conns bad s") (auto simp: getConnection_def Let_def)
  show ?thesis
  proof (cases found)
    case None
    then show ?thesis using assms p d parts new_conn_time by (auto simp: getConnection_def Let_def err_simps split: if_splits)
  next
    case (Some x)
    then show ?thesis using assms p d parts by (auto simp: getConnection_def Let_def)
  qed
qed

lemma ReleasePtr_spec:
  assumes "ReleasePtr now_ms c pl s = Inr (pl', s')"
  shows "p_total pl' - int (length (p_conns pl')) = p_total pl - int (length (p_conns pl)) - 1 \<and>
    set (p_conns pl') \<subseteq> insert (c\<lparr>cn_request := cn_request c + 1\<rparr>) (set (p_conns pl))"
  using assms by (auto simp: ReleasePtr_def Let_def err_simps split: if_splits)

lemma pool_reach_inv:
  "pool_reach pl out \<Longrightarrow> p_total pl = int (length (p_conns pl)) + int (length out) \<and>
     (\<forall>c\<in>set (p_conns pl) \<union> set out. cn_createTime c = 0)"
proof (induction rule: pool_reach.induct)
  case (get pl out host env now_ms s c pl' s')
  then show ?case using getConnection_spec [OF get(2)] by (auto split: option.splits if_splits)
next
  case (release pl xs c ys now_ms s pl' s')
  then show ?case using ReleasePtr_spec [OF release(2)] by fastforce
qed (auto simp: HttpConnectionPool_def)

section \<open>Properties\<close>


definition demoPool :: pool where
  "demoPool = HttpConnectionPool ''localhost'' [] 80 10 30000 5"


text \<open>
  The age limit of a pool has no effect: the time a connection was made is never set, so at any time
  after the first fifty days of the epoch the pool hands out the first connection that is connected, however old,
  and takes one back unless it is disconnected or has served its number of requests.
\<close>

theorem pool_ignores_age:
  assumes "pool_reach pl out" "2 ^ 32 \<le> now"
  shows "(\<forall>found bad rest. pick_conn now (p_maxAliveTime pl) (p_conns pl) = (found, bad, rest) \<longrightarrow>
      bad = takeWhile (\<lambda>c. \<not> ss_isConnected (cn_stream c)) (p_conns pl) \<and>
      found = find (\<lambda>c. ss_isConnected (cn_stream c)) (p_conns pl)) \<and>
    (\<forall>c s. c \<in> set out \<and> ss_isConnected (cn_stream c) \<and> cn_request c + 1 < ucast (p_maxRequest pl) \<longrightarrow>
      ReleasePtr now c pl s = Inr (pl\<lparr>p_conns := p_conns pl @ [c\<lparr>cn_request := cn_request c + 1\<rparr>]\<rparr>, s))"
proof -
  have young: "ucast (a :: u32) < now" for a
  proof -
    have a: "unat a < 2 ^ 32" using unsigned_less [of a] by simp
    then have "unat (ucast a :: u64) = unat a" by (simp add: unsigned_ucast_eq take_bit_nat_eq_self)
    then have "(ucast a :: u64) < 2 ^ 32" using a by (simp add: word_less_nat_alt)
    then show ?thesis using assms(2) by (rule order_less_le_trans)
  qed
  have pick: "pick_conn now alive cs = (found, bad, rest) \<Longrightarrow> \<forall>c\<in>set cs. cn_createTime c = 0 \<Longrightarrow>
      bad = takeWhile (\<lambda>c. \<not> ss_isConnected (cn_stream c)) cs \<and> found = find (\<lambda>c. ss_isConnected (cn_stream c)) cs" for alive cs found bad rest
    using young [of alive] by (induction cs arbitrary: bad) (auto split: if_splits prod.splits simp: not_less)
  have zero: "\<forall>c\<in>set (p_conns pl). cn_createTime c = 0" "\<forall>c\<in>set out. cn_createTime c = 0"
    using pool_reach_inv [OF assms(1)] by auto
  have "\<not> now \<le> ucast (p_maxAliveTime pl)" using young [of "p_maxAliveTime pl"] by simp
  then show ?thesis using pick zero(1) zero(2) by (auto simp: ReleasePtr_def Let_def)
qed

theorem pool_ignores_age_witness:
  "fst (pick_conn (2 ^ 40) (p_maxAliveTime demoPool) (p_conns demoPool)) = None"
proof -
  obtain found bad rest where p: "pick_conn (2 ^ 40) (p_maxAliveTime demoPool) (p_conns demoPool) = (found, bad, rest)" by (metis prod_cases3)
  have "pool_reach demoPool []" by (simp add: demoPool_def pool_reach.new)
  from pool_ignores_age [OF this, of "2 ^ 40"] p show ?thesis by (simp add: demoPool_def HttpConnectionPool_def)
qed

end
