(* ===== verification/Scanner.thy ===== *)
theory Scanner
  imports CStrings
begin

text \<open>
  The scanners that Ragel generated in its goto style (\<^verbatim>\<open>http11_parser.cc\<close>, \<^verbatim>\<open>httpclient_parser.cc\<close>, \<^verbatim>\<open>uri.cc\<close>), as tables.

  The block of a state (\<^verbatim>\<open>case n:\<close>) compares the character, a signed byte, with constants and jumps; the jump leads over
  the actions of a label \<^verbatim>\<open>tr\<close> to the next state.  A state of the table lists, for each label that its block jumps to, the
  characters, the next state and the actions.  The lists are searched in order, so that the characters of an arc are
  those not taken by an earlier one; a character in no list jumps to \<^verbatim>\<open>st0\<close>.  In a block marked as wide the
  comparisons are on \<^verbatim>\<open>_widec\<close>.
\<close>

section \<open>Tables\<close>

type_synonym chars = "(int \<times> int) list"
type_synonym 'a arcs = "(chars \<times> nat \<times> 'a list) list"
type_synonym 'a states = "(nat \<times> bool \<times> 'a arcs) list"

definition schar :: "char \<Rightarrow> int" where
  "schar c = (let n = byte_of c in if n < 128 then int n else int n - 256)"

definition among :: "int \<Rightarrow> chars \<Rightarrow> bool" where
  "among v cs \<longleftrightarrow> list_ex (\<lambda>(lo, hi). lo \<le> v \<and> v \<le> hi) cs"

fun arc_for :: "int \<Rightarrow> 'a arcs \<Rightarrow> (nat \<times> 'a list) option" where
  "arc_for v [] = None"
| "arc_for v ((cs, t, acts) # arcs) = (if among v cs then Some (t, acts) else arc_for v arcs)"

lemma arc_for_set: "arc_for v arcs = Some (t, acts) \<Longrightarrow> \<exists>cs. (cs, t, acts) \<in> set arcs \<and> among v cs"
  by (induction arcs rule: arc_for.induct) (auto split: if_splits)

text \<open>Sets of characters that many states share.\<close>

definition digits :: chars where "digits = [(48, 57)]"
definition xdigits :: chars where "xdigits = [(48, 57), (65, 70), (97, 102)]"
definition anys :: chars where "anys = [(- 128, 127)]"
definition tokens :: chars where
  "tokens = [(33, 33), (35, 39), (42, 43), (45, 46), (48, 57), (65, 90), (94, 122), (124, 124), (126, 126)]"

section \<open>Runs\<close>

text \<open>
  The code from \<^verbatim>\<open>if (p == pe)\<close> to \<^verbatim>\<open>_out\<close>: the state and position at the end and what the actions made of \<open>st\<close>.  An action
  marked by \<open>stop\<close> leaves the machine after its character.  A state without a block falls through the switch to the
  label \<^verbatim>\<open>_test_eof2\<close>.
\<close>

fun scan :: "'a states \<Rightarrow> (bool \<Rightarrow> char \<Rightarrow> int) \<Rightarrow> ('a \<Rightarrow> nat \<Rightarrow> 'st \<Rightarrow> 'st) \<Rightarrow> ('a \<Rightarrow> bool) \<Rightarrow> nat \<Rightarrow> nat \<Rightarrow> string \<Rightarrow> 'st \<Rightarrow> nat \<times> nat \<times> 'st" where
  "scan T vl act stop s p [] st = (s, p, st)"
| "scan T vl act stop s p (c # cs) st =
     (case map_of T s of
        None \<Rightarrow> (2, p, st)
      | Some (wide, arcs) \<Rightarrow>
          (case arc_for (vl wide c) arcs of
             None \<Rightarrow> (0, p, st)
           | Some (t, acts) \<Rightarrow>
               let st1 = fold (\<lambda>a. act a p) acts st
               in if list_ex stop acts then (t, p + 1, st1) else scan T vl act stop t (p + 1) cs st1))"

lemma scan_bounds: "scan T vl act stop s p cs st = (s', p', st') \<Longrightarrow> p \<le> p' \<and> p' \<le> p + length cs"
proof (induction cs arbitrary: s p st)
  case (Cons c cs)
  then show ?case by (fastforce simp: Let_def split: option.splits if_splits prod.splits)
qed simp

lemma scan_keeps:
  assumes "\<And>a p st. f (act a p st) = f st"
  shows "scan T vl act stop s p cs st = (s', p', st') \<Longrightarrow> f st' = f st"
proof (induction cs arbitrary: s p st)
  case (Cons c cs)
  have fold: "f (fold (\<lambda>a. act a p) acts st) = f st" for acts st p by (induction acts arbitrary: st) (simp_all add: assms)
  show ?case using Cons by (auto simp: Let_def fold split: option.splits if_splits prod.splits)
qed simp

text \<open>One step, and a stretch of characters that stay in one state without an action.\<close>

definition steps :: "'a states \<Rightarrow> (bool \<Rightarrow> char \<Rightarrow> int) \<Rightarrow> nat \<Rightarrow> char \<Rightarrow> (nat \<times> 'a list) option" where
  "steps T vl s c = (case map_of T s of None \<Rightarrow> None | Some (wide, arcs) \<Rightarrow> arc_for (vl wide c) arcs)"

lemma scan_step:
  assumes "steps T vl s c = Some (t, acts)" "\<not> list_ex stop acts"
  shows "scan T vl act stop s p (c # cs) st = scan T vl act stop t (p + 1) cs (fold (\<lambda>a. act a p) acts st)"
  using assms by (auto simp: steps_def Let_def split: option.splits)

lemma scan_stop:
  assumes "steps T vl s c = Some (t, acts)" "list_ex stop acts"
  shows "scan T vl act stop s p (c # cs) st = (t, p + 1, fold (\<lambda>a. act a p) acts st)"
  using assms by (auto simp: steps_def Let_def split: option.splits)

lemma scan_stay:
  assumes "\<And>c. c \<in> set xs \<Longrightarrow> steps T vl s c = Some (s, [])"
  shows "scan T vl act stop s p (xs @ cs) st = scan T vl act stop s (p + length xs) cs st"
  using assms by (induction xs arbitrary: p) (simp_all add: scan_step [of T vl s _ s "[]"] del: scan.simps)

text \<open>A literal: the states it leads through, and the actions at its characters.\<close>

fun trail :: "'a states \<Rightarrow> (bool \<Rightarrow> char \<Rightarrow> int) \<Rightarrow> nat \<Rightarrow> string \<Rightarrow> (nat \<times> 'a list list) option" where
  "trail T vl s [] = Some (s, [])"
| "trail T vl s (c # cs) =
     (case steps T vl s c of
        None \<Rightarrow> None
      | Some (t, acts) \<Rightarrow> map_option (\<lambda>(u, rest). (u, acts # rest)) (trail T vl t cs))"

fun play :: "('a \<Rightarrow> nat \<Rightarrow> 'st \<Rightarrow> 'st) \<Rightarrow> nat \<Rightarrow> 'a list list \<Rightarrow> 'st \<Rightarrow> 'st" where
  "play act p [] st = st"
| "play act p (acts # rest) st = play act (p + 1) rest (fold (\<lambda>a. act a p) acts st)"

lemma scan_trail:
  assumes "trail T vl s xs = Some (t, actss)" "\<not> list_ex (list_ex stop) actss"
  shows "scan T vl act stop s p (xs @ cs) st = scan T vl act stop t (p + length xs) cs (play act p actss st)"
  using assms
proof (induction xs arbitrary: s p st actss)
  case (Cons x xs)
  obtain u acts rest where u: "steps T vl s x = Some (u, acts)" "trail T vl u xs = Some (t, rest)" "actss = acts # rest"
    using Cons.prems(1) by (auto split: option.splits)
  then show ?case using Cons.IH [OF u(2)] Cons.prems(2) scan_step [OF u(1), of stop act p] by simp
qed simp

text \<open>A stretch that stays in a set of states.\<close>

lemma scan_within:
  assumes "s \<in> S" "\<And>s c. s \<in> S \<Longrightarrow> c \<in> set xs \<Longrightarrow> \<exists>t\<in>S. steps T vl s c = Some (t, [])"
  shows "\<exists>t\<in>S. \<forall>cs st. scan T vl act stop s p (xs @ cs) st = scan T vl act stop t (p + length xs) cs st"
  using assms
proof (induction xs arbitrary: s p)
  case Nil
  then show ?case by auto
next
  case (Cons x xs)
  obtain t where t: "t \<in> S" "steps T vl s x = Some (t, [])" using Cons.prems by fastforce
  obtain u where "u \<in> S" "\<forall>cs st. scan T vl act stop t (p + 1) (xs @ cs) st = scan T vl act stop u (p + 1 + length xs) cs st"
    using Cons.IH [OF t(1), of "p + 1"] Cons.prems(2) by auto
  then show ?case using scan_step [OF t(2), of stop act p] by (auto simp del: scan.simps)
qed

section \<open>What a set of characters leads to\<close>

text \<open>
  The arcs that the characters of a set can take, by arithmetic on intervals; \<open>None\<close> when one of them has no arc.
  A fact about all the characters of a set, in all the states of a list, is so checked by evaluation.
\<close>

definition cut_out :: "chars \<Rightarrow> int \<times> int \<Rightarrow> chars" where
  "cut_out cs d = concat (map (\<lambda>(lo, hi).
     if snd d < lo \<or> hi < fst d then [(lo, hi)]
     else (if lo < fst d then [(lo, fst d - 1)] else []) @ (if snd d < hi then [(snd d + 1, hi)] else [])) cs)"

definition meets :: "chars \<Rightarrow> chars \<Rightarrow> bool" where
  "meets cs ds \<longleftrightarrow> list_ex (\<lambda>(a, b). list_ex (\<lambda>(lo, hi). lo \<le> b \<and> a \<le> hi) cs) ds"

fun outcomes :: "chars \<Rightarrow> 'a arcs \<Rightarrow> (nat \<times> 'a list) option list" where
  "outcomes cs [] = (if cs = [] then [] else [None])"
| "outcomes cs ((ds, t, acts) # arcs) =
     (if meets cs ds then Some (t, acts) # outcomes (foldl cut_out cs ds) arcs else outcomes cs arcs)"

text \<open>The characters that a wide block compares by another value.\<close>

definition wides :: chars where "wides = [(94, 94), (123, 123), (125, 125)]"

type_synonym ranges = "(nat \<times> nat) list"

definition inside :: "nat \<Rightarrow> ranges \<Rightarrow> bool" where
  "inside s S \<longleftrightarrow> list_ex (\<lambda>(lo, hi). lo \<le> s \<and> s \<le> hi) S"

definition leads_from :: "ranges \<Rightarrow> chars \<Rightarrow> (nat \<Rightarrow> 'a list \<Rightarrow> bool) \<Rightarrow> nat \<times> bool \<times> 'a arcs \<Rightarrow> bool" where
  "leads_from S cs ok = (\<lambda>(s, wide, arcs). inside s S \<longrightarrow> \<not> (wide \<and> meets cs wides) \<and>
     list_all (\<lambda>x. case x of None \<Rightarrow> False | Some (t, acts) \<Rightarrow> ok t acts) (outcomes cs arcs))"

definition leads :: "'a states \<Rightarrow> nat \<Rightarrow> ranges \<Rightarrow> chars \<Rightarrow> (nat \<Rightarrow> 'a list \<Rightarrow> bool) \<Rightarrow> bool" where
  "leads T n S cs ok \<longleftrightarrow> list_all (\<lambda>(lo, hi). 0 < lo \<and> hi < n) S \<and> list_all (leads_from S cs ok) T"

text \<open>A row of states that the characters of a set climb one by one.\<close>

definition climbs :: "'a states \<Rightarrow> nat \<Rightarrow> nat \<Rightarrow> chars \<Rightarrow> bool" where
  "climbs T lo hi cs \<longleftrightarrow> list_all (\<lambda>(s, wide, arcs). lo \<le> s \<and> s < hi \<longrightarrow> \<not> wide \<and> list_all (\<lambda>x. x = Some (Suc s, [])) (outcomes cs arcs)) T"

lemma among_cut: "among v cs \<Longrightarrow> \<not> (fst d \<le> v \<and> v \<le> snd d) \<Longrightarrow> among v (cut_out cs d)"
  by (induction cs) (auto simp: among_def cut_out_def)

lemma among_cuts: "among v cs \<Longrightarrow> \<not> among v ds \<Longrightarrow> among v (foldl cut_out cs ds)"
proof (induction ds arbitrary: cs)
  case (Cons d ds)
  then have "among v (cut_out cs d)" by (intro among_cut) (auto simp: among_def)
  then show ?case using Cons by (simp add: among_def)
qed simp

lemma among_meets: "among v cs \<Longrightarrow> among v ds \<Longrightarrow> meets cs ds"
proof -
  assume "among v cs" "among v ds"
  then obtain a b lo hi where "(lo, hi) \<in> set cs" "(a, b) \<in> set ds" "lo \<le> v" "v \<le> hi" "a \<le> v" "v \<le> b"
    unfolding among_def list_ex_iff by blast
  then show ?thesis unfolding meets_def list_ex_iff by (intro bexI [of _ "(a, b)"]) (auto intro!: bexI [of _ "(lo, hi)"])
qed

lemma outcomes_arc: "among v cs \<Longrightarrow> arc_for v arcs \<in> set (outcomes cs arcs)"
proof (induction cs arcs rule: outcomes.induct)
  case (1 cs)
  then show ?case by (auto simp: among_def)
next
  case (2 cs ds t acts arcs)
  then show ?case by (cases "among v ds") (auto simp: among_meets among_cuts)
qed

text \<open>The part of a table that holds the states in question is enough.\<close>

definition part :: "'a states \<Rightarrow> ranges \<Rightarrow> 'a states" where
  "part T U = concat (map (\<lambda>b. if inside (fst b) U then [b] else []) T)"

definition within :: "ranges \<Rightarrow> ranges \<Rightarrow> bool" where
  "within S U \<longleftrightarrow> list_all (\<lambda>(lo, hi). list_ex (\<lambda>(a, b). a \<le> lo \<and> hi \<le> b) U) S"

lemma within_inside:
  assumes "within S U" "inside s S"
  shows "inside s U"
proof -
  obtain lo hi where "(lo, hi) \<in> set S" "lo \<le> s" "s \<le> hi" using assms(2) by (auto simp: inside_def list_ex_iff)
  moreover obtain a b where "(a, b) \<in> set U" "a \<le> lo" "hi \<le> b" using assms(1) calculation(1) by (fastforce simp: within_def list_all_iff list_ex_iff)
  ultimately show ?thesis unfolding inside_def list_ex_iff by (intro bexI [of _ "(a, b)"]) auto
qed

lemma leads_part:
  assumes "leads (part T U) n S cs ok" "within S U"
  shows "leads T n S cs ok"
proof -
  have "leads_from S cs ok b" if "b \<in> set T" for b
  proof (cases "inside (fst b) S")
    case True
    then have "b \<in> set (part T U)" using that within_inside [OF assms(2)] by (auto simp: part_def)
    then show ?thesis using assms(1) by (simp add: leads_def list_all_iff)
  qed (simp add: leads_from_def case_prod_beta)
  then show ?thesis using assms(1) by (simp add: leads_def list_all_iff)
qed

lemma climbs_part:
  assumes "climbs (part T U) lo hi cs" "within [(lo, hi)] U"
  shows "climbs T lo hi cs"
  unfolding climbs_def list_all_iff
proof
  fix b assume b: "b \<in> set T"
  obtain s wide arcs where sw: "b = (s, wide, arcs)" by (cases b)
  have "b \<in> set (part T U)" if "lo \<le> s" "s < hi"
    using that b within_inside [OF assms(2), of s] by (auto simp: part_def inside_def sw)
  then show "case b of (s, wide, arcs) \<Rightarrow> lo \<le> s \<and> s < hi \<longrightarrow> \<not> wide \<and> (\<forall>x\<in>set (outcomes cs arcs). x = Some (Suc s, []))"
    using bspec [OF assms(1) [unfolded climbs_def list_all_iff], of b] by (auto simp: sw)
qed

text \<open>What a block compares is the signed character, but for the wide ones.\<close>

definition compares :: "(bool \<Rightarrow> char \<Rightarrow> int) \<Rightarrow> bool" where
  "compares vl \<longleftrightarrow> (\<forall>wide c. \<not> (wide \<and> among (schar c) wides) \<longrightarrow> vl wide c = schar c)"

text \<open>The next state that is missing when the blocks are counted from \<open>k\<close>.\<close>

fun upwards :: "nat \<Rightarrow> nat list \<Rightarrow> nat" where
  "upwards k [] = k"
| "upwards k (s # ss) = upwards (if s = k then k + 1 else k) ss"

lemma upwards_has: "k \<le> s \<Longrightarrow> s < upwards k ss \<Longrightarrow> s \<in> set ss"
proof (induction ss arbitrary: k)
  case (Cons a ss)
  consider "s = a" | "s \<noteq> a" "a = k" "Suc k \<le> s" | "a \<noteq> k" using Cons.prems(1) by linarith
  then show ?case using Cons by cases (auto simp del: Suc_le_eq)
qed simp

lemma upwards_block: "k \<le> s \<Longrightarrow> s < upwards k (map fst T) \<Longrightarrow> map_of T s \<noteq> None"
  using upwards_has [of k s "map fst T"] by (simp add: map_of_eq_None_iff)

text \<open>Text of the characters of a set and of percent signs with two hexadecimal digits.\<close>

fun pct_text :: "chars \<Rightarrow> string \<Rightarrow> bool" where
  "pct_text cs [] = True"
| "pct_text cs [c] = (c \<noteq> CHR ''%'' \<and> among (schar c) cs)"
| "pct_text cs [c, d] = (c \<noteq> CHR ''%'' \<and> among (schar c) cs \<and> pct_text cs [d])"
| "pct_text cs (c # d # e # xs) =
     (if c = CHR ''%'' then among (schar d) xdigits \<and> among (schar e) xdigits \<and> pct_text cs xs
      else among (schar c) cs \<and> pct_text cs (d # e # xs))"

declare scan.simps(2) [simp del]

locale scanner_table =
  fixes T :: "'a states" and n :: nat and vl :: "bool \<Rightarrow> char \<Rightarrow> int"
  assumes blocks: "\<And>s. 0 < s \<Longrightarrow> s < n \<Longrightarrow> map_of T s \<noteq> None"
    and compares: "compares vl"
begin

lemma leadsD:
  assumes "leads T n S cs ok" "inside s S" "among (schar c) cs"
  obtains t acts where "steps T vl s c = Some (t, acts)" "ok t acts"
proof -
  have "0 < s" "s < n" using assms(1,2) by (fastforce simp: leads_def inside_def list_all_iff list_ex_iff)+
  then obtain wide arcs where arcs: "map_of T s = Some (wide, arcs)" using blocks by fastforce
  then have ok: "\<not> (wide \<and> meets cs wides)"
    "\<forall>x\<in>set (outcomes cs arcs). case x of None \<Rightarrow> False | Some (t, acts) \<Rightarrow> ok t acts"
    using assms(1,2) by (auto dest!: map_of_SomeD simp: leads_def leads_from_def list_all_iff)
  have "vl wide c = schar c" using assms(3) ok(1) among_meets compares unfolding compares_def by blast
  then show thesis using arcs ok outcomes_arc [OF assms(3), of arcs] that by (fastforce simp: steps_def split: option.splits)
qed

lemma leads_ex: "leads T n S cs ok \<Longrightarrow> inside s S \<Longrightarrow> among (schar c) cs \<Longrightarrow> \<exists>t acts. steps T vl s c = Some (t, acts) \<and> ok t acts"
  using leadsD by metis

text \<open>A character of the set, and a stretch of them without an action.\<close>

lemma scan_leads:
  assumes "leads T n S cs ok" "inside s S" "among (schar c) cs" "\<forall>t acts. ok t acts \<longrightarrow> \<not> list_ex stop acts"
  shows "\<exists>t acts. ok t acts \<and>
    (\<forall>rest st. scan T vl act stop s p (c # rest) st = scan T vl act stop t (p + 1) rest (fold (\<lambda>a. act a p) acts st))"
  using leadsD [OF assms(1-3)] assms(4) scan_step by metis

lemma scan_stretch:
  assumes "leads T n S cs (\<lambda>t acts. inside t S \<and> acts = [])" "inside s S" "list_all (\<lambda>c. among (schar c) cs) xs"
  shows "\<exists>t. inside t S \<and> (\<forall>rest st. scan T vl act stop s p (xs @ rest) st = scan T vl act stop t (p + length xs) rest st)"
proof -
  have "\<exists>t\<in>{s. inside s S}. \<forall>rest st. scan T vl act stop s p (xs @ rest) st = scan T vl act stop t (p + length xs) rest st"
  proof (rule scan_within)
    fix s c assume "s \<in> {s. inside s S}" "c \<in> set xs"
    then show "\<exists>t\<in>{s. inside s S}. steps T vl s c = Some (t, [])"
      using leadsD [OF assms(1)] assms(3) by (metis (no_types, lifting) list_all_iff mem_Collect_eq)
  qed (use assms(2) in simp)
  then show ?thesis by blast
qed

lemma scan_climb:
  assumes "climbs T lo hi cs" "0 < lo" "hi \<le> n" "list_all (\<lambda>c. among (schar c) cs) xs" "lo \<le> s" "s + length xs \<le> hi"
  shows "scan T vl act stop s p (xs @ rest) st = scan T vl act stop (s + length xs) (p + length xs) rest st"
  using assms(4-6)
proof (induction xs arbitrary: s p)
  case (Cons x xs)
  obtain wide arcs where arcs: "map_of T s = Some (wide, arcs)" using blocks [of s] Cons.prems assms(2,3) by fastforce
  then have ok: "\<not> wide" "\<forall>x\<in>set (outcomes cs arcs). x = Some (Suc s, [])"
    using assms(1) Cons.prems by (auto dest!: map_of_SomeD simp: climbs_def list_all_iff)
  have "vl wide x = schar x" using ok(1) compares by (simp add: compares_def)
  then have "steps T vl s x = Some (Suc s, [])" using arcs ok(2) outcomes_arc [of "schar x" cs arcs] Cons.prems(1) by (simp add: steps_def)
  then show ?case using Cons.IH [of "Suc s" "p + 1"] Cons.prems scan_step [of T vl s x "Suc s" "[]" stop act p] by simp
qed simp

lemma inside_same: "inside s [(k, k)] \<longleftrightarrow> s = k"
  by (auto simp: inside_def)

lemma scan_one:
  assumes "leads T n [(s, s)] cs (\<lambda>t acts. t = u \<and> acts = as)" "among (schar c) cs" "\<not> list_ex stop as"
  shows "scan T vl act stop s p (c # rest) st = scan T vl act stop u (p + 1) rest (fold (\<lambda>a. act a p) as st)"
  using scan_leads [OF assms(1) _ assms(2), of s stop act p] assms(3) by (simp add: inside_same)

lemma scan_loop:
  assumes "leads T n [(s, s)] cs (\<lambda>t acts. t = s \<and> acts = [])" "list_all (\<lambda>c. among (schar c) cs) xs"
  shows "scan T vl act stop s p (xs @ rest) st = scan T vl act stop s (p + length xs) rest st"
  using scan_stretch [of "[(s, s)]" cs s xs act stop p] assms by (simp add: inside_same)

text \<open>Text with percent-encoded characters: a loop that a percent sign leaves for two states.\<close>

lemma scan_pct:
  assumes "leads T n [(s, s)] cs (\<lambda>t acts. t = s \<and> acts = [])" "leads T n [(s, s)] [(37, 37)] (\<lambda>t acts. t = u \<and> acts = [])"
    "leads T n [(u, u)] xdigits (\<lambda>t acts. t = v \<and> acts = [])" "leads T n [(v, v)] xdigits (\<lambda>t acts. t = s \<and> acts = [])"
    "pct_text cs xs"
  shows "scan T vl act stop s p (xs @ rest) st = scan T vl act stop s (p + length xs) rest st"
proof -
  have one: "scan T vl act stop s p (c # ys) st = scan T vl act stop s (p + 1) ys st" if "among (schar c) cs" for c p ys
    using scan_one [OF assms(1) that] by simp
  have pct: "scan T vl act stop s p (CHR ''%'' # d # e # ys) st = scan T vl act stop s (p + 3) ys st"
    if "among (schar d) xdigits" "among (schar e) xdigits" for d e p ys
  proof -
    have "among (schar (CHR ''%'')) [(37, 37)]" by code_simp
    then show ?thesis by (simp add: scan_one [OF assms(2)] scan_one [OF assms(3) that(1)] scan_one [OF assms(4) that(2)] numeral_3_eq_3)
  qed
  show ?thesis using assms(5) one
  proof (induction cs xs arbitrary: p rule: pct_text.induct)
    case (2 cs c)
    then show ?case by simp
  next
    case (3 cs c d)
    then show ?case by simp
  next
    case (4 cs c d e xs)
    show ?case
    proof (cases "c = CHR ''%''")
      case True
      then show ?thesis using 4(1) [OF True, of "p + 3"] 4(3,4) pct [of d e p "xs @ rest"] by (simp add: numeral_3_eq_3)
    next
      case False
      then show ?thesis using 4(2) [OF False, of "p + 1"] 4(3,4) by simp
    qed
  qed simp
qed

end

end
