(* ===== verification/RspScanner.thy ===== *)
theory RspScanner
  imports HttpParserClient Scanner
begin

text \<open>
  The scanner of HTTP responses: the code that Ragel generated into \<^verbatim>\<open>httpclient_parser_execute\<close>
  (\<^verbatim>\<open>external/mongrel2/http/httpclient_parser.cc\<close>), its actions as a datatype and its 123 states as tables, in the order of
  the file.  It is the \<open>run\<close> of \<open>HttpParserClient\<close>.  At the end, what it makes of the responses that
  \<open>dump_response\<close> writes.
\<close>

section \<open>Actions\<close>

datatype rsp_action =
    Rmark | Rstart_field | Rwrite_field | Rstart_value | Rwrite_content_len | Rwrite_connection_close | Rwrite_value
  | Rreason_phrase | Rstatus_code | Rhttp_version | Rchunk_size | Rtrans_chunked | Rdone

text \<open>\<^verbatim>\<open>strtol\<close> to the base 16, cut to an \<^verbatim>\<open>int\<close>: white space, a sign, a prefix \<^verbatim>\<open>0x\<close> before a digit, digits.\<close>

definition hex_digit :: "char \<Rightarrow> nat option" where
  "hex_digit c =
     (let n = byte_of c
      in if 48 \<le> n \<and> n \<le> 57 then Some (n - 48)
         else if 65 \<le> n \<and> n \<le> 70 then Some (n - 55)
         else if 97 \<le> n \<and> n \<le> 102 then Some (n - 87) else None)"

fun hex_val :: "nat \<Rightarrow> string \<Rightarrow> nat" where
  "hex_val n [] = n"
| "hex_val n (c # cs) = (case hex_digit c of None \<Rightarrow> n | Some d \<Rightarrow> hex_val (n * 16 + d) cs)"

definition hex_number :: "string \<Rightarrow> nat" where
  "hex_number s =
     (case s of
        c # x # d # cs \<Rightarrow>
          if c = CHR ''0'' \<and> (x = CHR ''x'' \<or> x = CHR ''X'') \<and> hex_digit d \<noteq> None then hex_val 0 (d # cs) else hex_val 0 s
      | _ \<Rightarrow> hex_val 0 s)"

definition strtol16 :: "string \<Rightarrow> int" where
  "strtol16 s =
     (let t = dropWhile is_space (c_str s)
      in to_int32 (saturate_long (case t of
           [] \<Rightarrow> 0
         | c # cs \<Rightarrow> if c = CHR ''-'' then - int (hex_number cs) else if c = CHR ''+'' then int (hex_number cs)
                     else int (hex_number t))))"

text \<open>
  The actions, at position \<open>p\<close> of the buffer \<open>text\<close>: \<^verbatim>\<open>MARK\<close> notes the position, \<^verbatim>\<open>LEN\<close> is a difference of \<^verbatim>\<open>size_t\<close>.  All
  the callbacks are installed; they are listed in the order of the calls.
\<close>

fun rsp_act :: "string \<Rightarrow> rsp_action \<Rightarrow> nat \<Rightarrow> httpclient_parser \<times> rsp_event list \<Rightarrow> httpclient_parser \<times> rsp_event list" where
  "rsp_act text Rmark p (parser, evs) = (parser\<lparr>hc_mark := p\<rparr>, evs)"
| "rsp_act text Rstart_field p (parser, evs) = (parser\<lparr>hc_field_start := p\<rparr>, evs)"
| "rsp_act text Rwrite_field p (parser, evs) = (parser\<lparr>hc_field_len := sub64 p (hc_field_start parser)\<rparr>, evs)"
| "rsp_act text Rstart_value p (parser, evs) = (parser\<lparr>hc_mark := p\<rparr>, evs)"
| "rsp_act text Rwrite_content_len p (parser, evs) = (parser\<lparr>hc_content_len := atoi (drop (hc_mark parser) text)\<rparr>, evs)"
| "rsp_act text Rwrite_connection_close p (parser, evs) = (parser\<lparr>hc_close := True\<rparr>, evs)"
| "rsp_act text Rwrite_value p (parser, evs) =
     (parser, evs @ [OnRspField (hc_field_start parser) (hc_field_len parser) (hc_mark parser) (sub64 p (hc_mark parser))])"
| "rsp_act text Rreason_phrase p (parser, evs) = (parser, evs @ [OnReason (hc_mark parser) (sub64 p (hc_mark parser))])"
| "rsp_act text Rstatus_code p (parser, evs) =
     (parser\<lparr>hc_status := atoi (drop (hc_mark parser) text)\<rparr>, evs @ [OnStatus (hc_mark parser) (sub64 p (hc_mark parser))])"
| "rsp_act text Rhttp_version p (parser, evs) = (parser, evs @ [OnRspVersion (hc_mark parser) (sub64 p (hc_mark parser))])"
| "rsp_act text Rchunk_size p (parser, evs) =
     (let n = strtol16 (drop (hc_mark parser) text);
          parser1 = parser\<lparr>hc_chunked := True, hc_content_len := n, hc_chunks_done := n \<le> 0\<rparr>
      in (parser1,
          evs @ [(if hc_chunks_done parser1 then OnLastChunk else OnChunkSize) (hc_mark parser) (sub64 p (hc_mark parser))]))"
| "rsp_act text Rtrans_chunked p (parser, evs) = (parser\<lparr>hc_chunked := True\<rparr>, evs)"
| "rsp_act text Rdone p (parser, evs) =
     (parser\<lparr>hc_body_start := p + 1\<rparr>, evs @ [OnRspHeaderDone (p + 1) (length text - p - 1)])"

section \<open>States\<close>

definition rsp_states_1 :: "rsp_action states" where
  "rsp_states_1 =
    [(1, False, [([(72, 72)], 8, [Rmark]), (xdigits, 2, [Rmark])]),
     (2, False, [([(10, 10)], 120, [Rchunk_size, Rdone]), ([(13, 13)], 3, [Rchunk_size]), ([(59, 59)], 4, [Rchunk_size]),
          (xdigits, 2, [])]),
     (120, False, [])]"

definition rsp_states_2 :: "rsp_action states" where
  "rsp_states_2 =
    [(3, False, [([(10, 10)], 120, [Rdone])]),
     (4, False, [(tokens, 5, [Rstart_field])]),
     (5, False, [([(10, 10)], 120, [Rwrite_field, Rstart_value, Rwrite_value, Rdone]),
          ([(13, 13)], 3, [Rwrite_field, Rstart_value, Rwrite_value]), ([(59, 59)], 4, [Rwrite_field, Rstart_value, Rwrite_value]),
          ([(61, 61)], 6, [Rwrite_field, Rstart_value]), (tokens, 5, [])])]"

definition rsp_states_3 :: "rsp_action states" where
  "rsp_states_3 =
    [(6, False, [(tokens, 7, [Rstart_value])]),
     (7, False, [([(10, 10)], 120, [Rwrite_value, Rdone]), ([(13, 13)], 3, [Rwrite_value]), ([(59, 59)], 4, [Rwrite_value]),
          (tokens, 7, [])]),
     (8, False, [([(84, 84)], 9, [])]),
     (9, False, [([(84, 84)], 10, [])]),
     (10, False, [([(80, 80)], 11, [])]),
     (11, False, [([(47, 47)], 12, [])]),
     (12, False, [([(48, 57)], 13, [])]),
     (13, False, [([(46, 46)], 14, []), ([(48, 57)], 13, [])]),
     (14, False, [([(48, 57)], 15, [])]),
     (15, False, [([(32, 32)], 16, [Rhttp_version]), ([(48, 57)], 15, [])])]"

definition rsp_states_4 :: "rsp_action states" where
  "rsp_states_4 =
    [(16, False, [([(48, 57)], 17, [Rmark])]),
     (17, False, [([(32, 32)], 18, [Rstatus_code]), ([(48, 57)], 17, [])]),
     (18, False, [([(- 128, 9), (11, 127)], 19, [Rmark])]),
     (19, False, [([(10, 10)], 20, [Rreason_phrase]), ([(13, 13)], 24, [Rreason_phrase]), (anys, 19, [])]),
     (20, False, [([(10, 10)], 120, [Rdone]), ([(13, 13)], 3, []), ([(67, 67), (99, 99)], 25, [Rstart_field]),
          ([(84, 84), (116, 116)], 44, [Rstart_field]), (tokens, 21, [Rstart_field])])]"

definition rsp_states_5 :: "rsp_action states" where
  "rsp_states_5 =
    [(21, False, [([(58, 58)], 22, [Rwrite_field]), (tokens, 21, [])]),
     (22, False, [([(10, 10)], 20, [Rstart_value, Rwrite_value]), ([(13, 13)], 24, [Rstart_value, Rwrite_value]),
          ([(9, 12), (32, 32)], 22, [Rstart_value]), (anys, 23, [Rstart_value])]),
     (23, False, [([(10, 10)], 20, [Rwrite_value]), ([(13, 13)], 24, [Rwrite_value]), (anys, 23, [])]),
     (24, False, [([(10, 10)], 20, [])])]"

definition rsp_states_6 :: "rsp_action states" where
  "rsp_states_6 =
    [(25, False, [([(58, 58)], 22, [Rwrite_field]), ([(79, 79), (111, 111)], 26, []), (tokens, 21, [])]),
     (26, False, [([(58, 58)], 22, [Rwrite_field]), ([(78, 78), (110, 110)], 27, []), (tokens, 21, [])]),
     (27, False, [([(58, 58)], 22, [Rwrite_field]), ([(78, 78), (110, 110)], 28, []), ([(84, 84), (116, 116)], 101, []),
          (tokens, 21, [])]),
     (28, False, [([(58, 58)], 22, [Rwrite_field]), ([(69, 69), (101, 101)], 29, []), (tokens, 21, [])])]"

definition rsp_states_7 :: "rsp_action states" where
  "rsp_states_7 =
    [(29, False, [([(58, 58)], 22, [Rwrite_field]), ([(67, 67), (99, 99)], 30, []), (tokens, 21, [])]),
     (30, False, [([(58, 58)], 22, [Rwrite_field]), ([(84, 84), (116, 116)], 31, []), (tokens, 21, [])]),
     (31, False, [([(58, 58)], 22, [Rwrite_field]), ([(73, 73), (105, 105)], 32, []), (tokens, 21, [])]),
     (32, False, [([(58, 58)], 22, [Rwrite_field]), ([(79, 79), (111, 111)], 33, []), (tokens, 21, [])]),
     (33, False, [([(58, 58)], 22, [Rwrite_field]), ([(78, 78), (110, 110)], 34, []), (tokens, 21, [])])]"

definition rsp_states_8 :: "rsp_action states" where
  "rsp_states_8 =
    [(34, False, [([(58, 58)], 35, [Rwrite_field]), (tokens, 21, [])]),
     (35, False, [([(10, 10)], 36, [Rstart_value, Rwrite_value]), ([(13, 13)], 95, [Rstart_value, Rwrite_value]),
          ([(67, 67), (99, 99)], 96, [Rstart_value]), ([(9, 12), (32, 32)], 35, [Rstart_value]), (anys, 23, [Rstart_value])]),
     (36, False, [([(10, 10)], 122, [Rdone]), ([(13, 13)], 89, []), ([(67, 67), (99, 99)], 90, [Rstart_field]),
          ([(84, 84), (116, 116)], 44, [Rstart_field]), ([(9, 12), (32, 32)], 37, []), (tokens, 21, [Rstart_field])]),
     (37, False, [([(67, 67), (99, 99)], 38, []), ([(9, 13), (32, 32)], 37, [])]),
     (38, False, [([(76, 76), (108, 108)], 39, [])]),
     (39, False, [([(79, 79), (111, 111)], 40, [])]),
     (40, False, [([(83, 83), (115, 115)], 41, [])]),
     (41, False, [([(69, 69), (101, 101)], 42, [])])]"

definition rsp_states_9 :: "rsp_action states" where
  "rsp_states_9 =
    [(42, False, [([(10, 10)], 43, []), ([(13, 13)], 88, [])]),
     (43, False, [([(10, 10)], 120, [Rwrite_connection_close, Rdone]), ([(13, 13)], 3, [Rwrite_connection_close]),
          ([(67, 67), (99, 99)], 25, [Rwrite_connection_close, Rstart_field]),
          ([(84, 84), (116, 116)], 44, [Rwrite_connection_close, Rstart_field]), (tokens, 21, [Rwrite_connection_close, Rstart_field])]),
     (44, False, [([(58, 58)], 22, [Rwrite_field]), ([(82, 82), (114, 114)], 45, []), (tokens, 21, [])]),
     (45, False, [([(58, 58)], 22, [Rwrite_field]), ([(65, 65), (97, 97)], 46, []), (tokens, 21, [])])]"

definition rsp_states_10 :: "rsp_action states" where
  "rsp_states_10 =
    [(46, False, [([(58, 58)], 22, [Rwrite_field]), ([(78, 78), (110, 110)], 47, []), (tokens, 21, [])]),
     (47, False, [([(58, 58)], 22, [Rwrite_field]), ([(83, 83), (115, 115)], 48, []), (tokens, 21, [])]),
     (48, False, [([(58, 58)], 22, [Rwrite_field]), ([(70, 70), (102, 102)], 49, []), (tokens, 21, [])]),
     (49, False, [([(58, 58)], 22, [Rwrite_field]), ([(69, 69), (101, 101)], 50, []), (tokens, 21, [])]),
     (50, False, [([(58, 58)], 22, [Rwrite_field]), ([(82, 82), (114, 114)], 51, []), (tokens, 21, [])])]"

definition rsp_states_11 :: "rsp_action states" where
  "rsp_states_11 =
    [(51, False, [([(45, 45)], 52, []), ([(58, 58)], 22, [Rwrite_field]), (tokens, 21, [])]),
     (52, False, [([(58, 58)], 22, [Rwrite_field]), ([(69, 69), (101, 101)], 53, []), (tokens, 21, [])]),
     (53, False, [([(58, 58)], 22, [Rwrite_field]), ([(78, 78), (110, 110)], 54, []), (tokens, 21, [])]),
     (54, False, [([(58, 58)], 22, [Rwrite_field]), ([(67, 67), (99, 99)], 55, []), (tokens, 21, [])]),
     (55, False, [([(58, 58)], 22, [Rwrite_field]), ([(79, 79), (111, 111)], 56, []), (tokens, 21, [])])]"

definition rsp_states_12 :: "rsp_action states" where
  "rsp_states_12 =
    [(56, False, [([(58, 58)], 22, [Rwrite_field]), ([(68, 68), (100, 100)], 57, []), (tokens, 21, [])]),
     (57, False, [([(58, 58)], 22, [Rwrite_field]), ([(73, 73), (105, 105)], 58, []), (tokens, 21, [])]),
     (58, False, [([(58, 58)], 22, [Rwrite_field]), ([(78, 78), (110, 110)], 59, []), (tokens, 21, [])]),
     (59, False, [([(58, 58)], 22, [Rwrite_field]), ([(71, 71), (103, 103)], 60, []), (tokens, 21, [])]),
     (60, False, [([(58, 58)], 61, [Rwrite_field]), (tokens, 21, [])])]"

definition rsp_states_13 :: "rsp_action states" where
  "rsp_states_13 =
    [(61, False, [([(10, 10)], 62, [Rstart_value, Rwrite_value]), ([(13, 13)], 80, [Rstart_value, Rwrite_value]),
          ([(67, 67), (99, 99)], 81, [Rstart_value]), ([(9, 12), (32, 32)], 61, [Rstart_value]), (anys, 23, [Rstart_value])]),
     (62, False, [([(10, 10)], 121, [Rdone]), ([(13, 13)], 72, []), ([(67, 67), (99, 99)], 73, [Rstart_value, Rstart_field]),
          ([(84, 84), (116, 116)], 44, [Rstart_field]), ([(9, 12), (32, 32)], 63, []), (tokens, 21, [Rstart_field])]),
     (63, False, [([(67, 67), (99, 99)], 64, [Rstart_value]), ([(9, 13), (32, 32)], 63, [])]),
     (64, False, [([(72, 72), (104, 104)], 65, [])]),
     (65, False, [([(85, 85), (117, 117)], 66, [])]),
     (66, False, [([(78, 78), (110, 110)], 67, [])]),
     (67, False, [([(75, 75), (107, 107)], 68, [])]),
     (68, False, [([(69, 69), (101, 101)], 69, [])]),
     (69, False, [([(68, 68), (100, 100)], 70, [])])]"

definition rsp_states_14 :: "rsp_action states" where
  "rsp_states_14 =
    [(70, False, [([(10, 10)], 20, [Rwrite_value, Rtrans_chunked]), ([(13, 13)], 71, [Rwrite_value])]),
     (71, False, [([(10, 10)], 20, [Rtrans_chunked])]),
     (121, False, [([(67, 67), (99, 99)], 64, [Rstart_value]), ([(9, 13), (32, 32)], 63, [])]),
     (72, False, [([(10, 10)], 121, [Rdone]), ([(67, 67), (99, 99)], 64, [Rstart_value]), ([(9, 13), (32, 32)], 63, [])]),
     (73, False, [([(58, 58)], 22, [Rwrite_field]), ([(72, 72), (104, 104)], 74, []), ([(79, 79), (111, 111)], 26, []),
          (tokens, 21, [])]),
     (74, False, [([(58, 58)], 22, [Rwrite_field]), ([(85, 85), (117, 117)], 75, []), (tokens, 21, [])])]"

definition rsp_states_15 :: "rsp_action states" where
  "rsp_states_15 =
    [(75, False, [([(58, 58)], 22, [Rwrite_field]), ([(78, 78), (110, 110)], 76, []), (tokens, 21, [])]),
     (76, False, [([(58, 58)], 22, [Rwrite_field]), ([(75, 75), (107, 107)], 77, []), (tokens, 21, [])]),
     (77, False, [([(58, 58)], 22, [Rwrite_field]), ([(69, 69), (101, 101)], 78, []), (tokens, 21, [])]),
     (78, False, [([(58, 58)], 22, [Rwrite_field]), ([(68, 68), (100, 100)], 79, []), (tokens, 21, [])]),
     (79, False, [([(10, 10)], 20, [Rwrite_value, Rtrans_chunked]), ([(13, 13)], 71, [Rwrite_value]),
          ([(58, 58)], 22, [Rwrite_field]), (tokens, 21, [])])]"

definition rsp_states_16 :: "rsp_action states" where
  "rsp_states_16 =
    [(80, False, [([(10, 10)], 62, []), ([(67, 67), (99, 99)], 64, [Rstart_value]), ([(9, 13), (32, 32)], 63, [])]),
     (81, False, [([(10, 10)], 20, [Rwrite_value]), ([(13, 13)], 24, [Rwrite_value]), ([(72, 72), (104, 104)], 82, []), (anys, 23, [])]),
     (82, False, [([(10, 10)], 20, [Rwrite_value]), ([(13, 13)], 24, [Rwrite_value]), ([(85, 85), (117, 117)], 83, []), (anys, 23, [])]),
     (83, False, [([(10, 10)], 20, [Rwrite_value]), ([(13, 13)], 24, [Rwrite_value]), ([(78, 78), (110, 110)], 84, []), (anys, 23, [])]),
     (84, False, [([(10, 10)], 20, [Rwrite_value]), ([(13, 13)], 24, [Rwrite_value]), ([(75, 75), (107, 107)], 85, []), (anys, 23, [])]),
     (85, False, [([(10, 10)], 20, [Rwrite_value]), ([(13, 13)], 24, [Rwrite_value]), ([(69, 69), (101, 101)], 86, []), (anys, 23, [])]),
     (86, False, [([(10, 10)], 20, [Rwrite_value]), ([(13, 13)], 24, [Rwrite_value]), ([(68, 68), (100, 100)], 87, []), (anys, 23, [])]),
     (87, False, [([(10, 10)], 20, [Rwrite_value, Rtrans_chunked]), ([(13, 13)], 71, [Rwrite_value]), (anys, 23, [])]),
     (88, False, [([(10, 10)], 43, [])]),
     (122, False, [([(67, 67), (99, 99)], 38, []), ([(9, 13), (32, 32)], 37, [])])]"

definition rsp_states_17 :: "rsp_action states" where
  "rsp_states_17 =
    [(89, False, [([(10, 10)], 122, [Rdone]), ([(67, 67), (99, 99)], 38, []), ([(9, 13), (32, 32)], 37, [])]),
     (90, False, [([(58, 58)], 22, [Rwrite_field]), ([(76, 76), (108, 108)], 91, []), ([(79, 79), (111, 111)], 26, []),
          (tokens, 21, [])]),
     (91, False, [([(58, 58)], 22, [Rwrite_field]), ([(79, 79), (111, 111)], 92, []), (tokens, 21, [])]),
     (92, False, [([(58, 58)], 22, [Rwrite_field]), ([(83, 83), (115, 115)], 93, []), (tokens, 21, [])]),
     (93, False, [([(58, 58)], 22, [Rwrite_field]), ([(69, 69), (101, 101)], 94, []), (tokens, 21, [])])]"

definition rsp_states_18 :: "rsp_action states" where
  "rsp_states_18 =
    [(94, False, [([(10, 10)], 43, []), ([(13, 13)], 88, []), ([(58, 58)], 22, [Rwrite_field]), (tokens, 21, [])]),
     (95, False, [([(10, 10)], 36, []), ([(67, 67), (99, 99)], 38, []), ([(9, 13), (32, 32)], 37, [])]),
     (96, False, [([(10, 10)], 20, [Rwrite_value]), ([(13, 13)], 24, [Rwrite_value]), ([(76, 76), (108, 108)], 97, []), (anys, 23, [])]),
     (97, False, [([(10, 10)], 20, [Rwrite_value]), ([(13, 13)], 24, [Rwrite_value]), ([(79, 79), (111, 111)], 98, []), (anys, 23, [])]),
     (98, False, [([(10, 10)], 20, [Rwrite_value]), ([(13, 13)], 24, [Rwrite_value]), ([(83, 83), (115, 115)], 99, []), (anys, 23, [])]),
     (99, False, [([(10, 10)], 20, [Rwrite_value]), ([(13, 13)], 24, [Rwrite_value]), ([(69, 69), (101, 101)], 100, []), (anys, 23, [])]),
     (100, False, [([(10, 10)], 43, [Rwrite_value]), ([(13, 13)], 88, [Rwrite_value]), (anys, 23, [])]),
     (101, False, [([(58, 58)], 22, [Rwrite_field]), ([(69, 69), (101, 101)], 102, []), (tokens, 21, [])])]"

definition rsp_states_19 :: "rsp_action states" where
  "rsp_states_19 =
    [(102, False, [([(58, 58)], 22, [Rwrite_field]), ([(78, 78), (110, 110)], 103, []), (tokens, 21, [])]),
     (103, False, [([(58, 58)], 22, [Rwrite_field]), ([(84, 84), (116, 116)], 104, []), (tokens, 21, [])]),
     (104, False, [([(45, 45)], 105, []), ([(58, 58)], 22, [Rwrite_field]), (tokens, 21, [])]),
     (105, False, [([(58, 58)], 22, [Rwrite_field]), ([(76, 76), (108, 108)], 106, []), (tokens, 21, [])]),
     (106, False, [([(58, 58)], 22, [Rwrite_field]), ([(69, 69), (101, 101)], 107, []), (tokens, 21, [])])]"

definition rsp_states_20 :: "rsp_action states" where
  "rsp_states_20 =
    [(107, False, [([(58, 58)], 22, [Rwrite_field]), ([(78, 78), (110, 110)], 108, []), (tokens, 21, [])]),
     (108, False, [([(58, 58)], 22, [Rwrite_field]), ([(71, 71), (103, 103)], 109, []), (tokens, 21, [])]),
     (109, False, [([(58, 58)], 22, [Rwrite_field]), ([(84, 84), (116, 116)], 110, []), (tokens, 21, [])]),
     (110, False, [([(58, 58)], 22, [Rwrite_field]), ([(72, 72), (104, 104)], 111, []), (tokens, 21, [])]),
     (111, False, [([(58, 58)], 112, [Rwrite_field]), (tokens, 21, [])])]"

definition rsp_states_21 :: "rsp_action states" where
  "rsp_states_21 =
    [(112, False, [([(10, 10)], 113, [Rstart_value, Rwrite_value]), ([(13, 13)], 118, [Rstart_value, Rwrite_value]),
          ([(9, 12), (32, 32)], 112, [Rstart_value]), ([(48, 57)], 119, [Rstart_value]), (anys, 23, [Rstart_value])]),
     (113, False, [([(10, 10)], 123, [Rdone]), ([(13, 13)], 116, []), ([(67, 67), (99, 99)], 25, [Rstart_field]),
          ([(84, 84), (116, 116)], 44, [Rstart_field]), ([(9, 12), (32, 32)], 114, []),
          ([(48, 57)], 117, [Rstart_value, Rstart_field]), (tokens, 21, [Rstart_field])]),
     (114, False, [([(9, 13), (32, 32)], 114, []), ([(48, 57)], 115, [Rstart_value])]),
     (115, False, [([(10, 10)], 20, [Rwrite_content_len, Rwrite_value]), ([(13, 13)], 24, [Rwrite_content_len, Rwrite_value]),
          ([(48, 57)], 115, [])]),
     (123, False, [([(9, 13), (32, 32)], 114, []), ([(48, 57)], 115, [Rstart_value])]),
     (116, False, [([(10, 10)], 123, [Rdone]), ([(9, 13), (32, 32)], 114, []), ([(48, 57)], 115, [Rstart_value])])]"

definition rsp_states_22 :: "rsp_action states" where
  "rsp_states_22 =
    [(117, False, [([(10, 10)], 20, [Rwrite_content_len, Rwrite_value]), ([(13, 13)], 24, [Rwrite_content_len, Rwrite_value]),
          ([(58, 58)], 22, [Rwrite_field]), ([(48, 57)], 117, []), (tokens, 21, [])]),
     (118, False, [([(10, 10)], 113, []), ([(9, 13), (32, 32)], 114, []), ([(48, 57)], 115, [Rstart_value])]),
     (119, False, [([(10, 10)], 20, [Rwrite_content_len, Rwrite_value]), ([(13, 13)], 24, [Rwrite_content_len, Rwrite_value]),
          ([(48, 57)], 119, []), (anys, 23, [])])]"

definition rsp_table :: "rsp_action states" where
  "rsp_table = rsp_states_1 @ rsp_states_2 @ rsp_states_3 @ rsp_states_4 @ rsp_states_5 @
     rsp_states_6 @ rsp_states_7 @ rsp_states_8 @ rsp_states_9 @ rsp_states_10 @ rsp_states_11 @
     rsp_states_12 @ rsp_states_13 @ rsp_states_14 @ rsp_states_15 @ rsp_states_16 @ rsp_states_17 @
     rsp_states_18 @ rsp_states_19 @ rsp_states_20 @ rsp_states_21 @ rsp_states_22"

section \<open>The scanner\<close>

text \<open>From \<^verbatim>\<open>parser->cs\<close>, at the start of the buffer; the action \<^verbatim>\<open>done\<close> leaves the machine.\<close>

definition rsp_scan :: rsp_machine where
  "rsp_scan parser text =
     (case scan rsp_table (\<lambda>_. schar) (rsp_act text) (\<lambda>a. a = Rdone) (hc_cs parser) 0 text (parser, []) of
        (cs, p, parser', evs) \<Rightarrow> (cs, p, parser', evs))"

lemma rsp_act_keeps: "hc_nread (fst (rsp_act text a p st)) = hc_nread (fst st)"
  by (cases st; cases a) (simp_all add: Let_def)

lemma rsp_scan_ok: "rsp_machine_ok rsp_scan"
  unfolding rsp_machine_ok_def
proof (intro allI impI)
  fix parser s cs p parser' evs
  assume "rsp_scan parser s = (cs, p, parser', evs)"
  then have e: "scan rsp_table (\<lambda>_. schar) (rsp_act s) (\<lambda>a. a = Rdone) (hc_cs parser) 0 s (parser, []) = (cs, p, parser', evs)"
    by (auto simp: rsp_scan_def split: prod.splits)
  show "p \<le> length s \<and> hc_nread parser' = hc_nread parser"
    using scan_bounds [OF e] scan_keeps [OF _ e, of "\<lambda>st. hc_nread (fst st)"] rsp_act_keeps by fastforce
qed

section \<open>The lines of a head\<close>

text \<open>
  The parts of a head, as sets of states: the start of a line, within a name, after the colon, within a value, after the
  carriage return of a line, and after that of the empty line.  The second sets of the ends are those after a value that is not empty.  The names \<^verbatim>\<open>Connection\<close>, \<^verbatim>\<open>Content-Length\<close> and
  \<^verbatim>\<open>Transfer-Encoding\<close> are followed in states of their own.
\<close>

definition Lstates :: ranges where "Lstates = [(20, 20), (36, 36), (43, 43), (62, 62), (113, 113)]"
definition Nstates :: ranges where
  "Nstates = [(21, 21), (25, 34), (44, 60), (73, 79), (90, 94), (101, 111), (117, 117)]"
definition Cstates :: ranges where "Cstates = [(22, 22), (35, 35), (61, 61), (112, 112)]"
definition Vstates :: ranges where "Vstates = [(23, 23), (81, 87), (96, 100), (119, 119)]"
definition Estates :: ranges where "Estates = [(24, 24), (71, 71), (80, 80), (88, 88), (95, 95), (118, 118)]"
definition E2states :: ranges where "E2states = [(24, 24), (71, 71), (88, 88)]"
definition L2states :: ranges where "L2states = [(20, 20), (43, 43)]"
definition Dstates :: ranges where "Dstates = [(3, 3), (72, 72), (89, 89), (116, 116)]"

definition blanks :: chars where "blanks = [(9, 9), (11, 12), (32, 32)]"
definition inks :: chars where "inks = [(- 128, 8), (14, 31), (33, 127)]"
definition texts :: chars where "texts = [(- 128, 9), (11, 12), (14, 127)]"

lemmas rsp_tables = rsp_table_def rsp_states_1_def rsp_states_2_def rsp_states_3_def rsp_states_4_def rsp_states_5_def rsp_states_6_def rsp_states_7_def rsp_states_8_def rsp_states_9_def rsp_states_10_def rsp_states_11_def rsp_states_12_def rsp_states_13_def rsp_states_14_def rsp_states_15_def rsp_states_16_def rsp_states_17_def rsp_states_18_def rsp_states_19_def rsp_states_20_def rsp_states_21_def rsp_states_22_def

lemmas head_sets = Lstates_def Nstates_def Cstates_def Vstates_def Estates_def E2states_def L2states_def Dstates_def blanks_def inks_def texts_def
  tokens_def digits_def xdigits_def anys_def

lemmas leads_simps = leads_def leads_from_def inside_def meets_def cut_out_def

lemma line_name: "leads rsp_table 124 Lstates tokens (\<lambda>t acts. inside t Nstates \<and>
    acts \<in> {[Rstart_field], [Rstart_value, Rstart_field], [Rwrite_connection_close, Rstart_field]})"
  by (simp add: leads_simps head_sets rsp_tables)

lemma name_name: "leads rsp_table 124 Nstates tokens (\<lambda>t acts. inside t Nstates \<and> acts = [])"
  by (simp add: leads_simps head_sets rsp_tables)

lemma name_colon: "leads rsp_table 124 Nstates [(58, 58)] (\<lambda>t acts. inside t Cstates \<and> acts = [Rwrite_field])"
  by (simp add: leads_simps head_sets rsp_tables)

lemma line_empty: "leads rsp_table 124 L2states [(13, 13)] (\<lambda>t acts. t = 3 \<and> acts \<in> {[], [Rwrite_connection_close]})"
  by (simp add: leads_simps head_sets rsp_tables)

lemma empty_done: "steps rsp_table (\<lambda>_. schar) 3 (CHR 0x0A) = Some (120, [Rdone])"
  by (simp add: steps_def rsp_tables among_def schar_def byte_of_def)

lemma rsp_blocks: "upwards 1 (map fst rsp_table) = 120" "upwards 120 (map fst rsp_table) = 124"
  by (simp_all add: rsp_tables)

interpretation rsp: scanner_table rsp_table 124 "\<lambda>_. schar"
proof unfold_locales
  fix s :: nat assume "0 < s" "s < 124"
  then show "map_of rsp_table s \<noteq> None"
    using upwards_block [of 1 s rsp_table] upwards_block [of 120 s rsp_table] rsp_blocks by (cases "s < 120") auto
qed (simp add: compares_def)

abbreviation rsp_run :: "string \<Rightarrow> nat \<Rightarrow> nat \<Rightarrow> string \<Rightarrow> httpclient_parser \<times> rsp_event list \<Rightarrow> nat \<times> nat \<times> httpclient_parser \<times> rsp_event list" where
  "rsp_run buf \<equiv> scan rsp_table (\<lambda>_. schar) (rsp_act buf) (\<lambda>a. a = Rdone)"

lemma rsp_leads:
  assumes "leads rsp_table 124 S cs ok" "inside s S" "among (schar c) cs" "\<forall>t acts. ok t acts \<longrightarrow> Rdone \<notin> set acts"
  shows "\<exists>t acts. ok t acts \<and>
    (\<forall>rest st. rsp_run buf s p (c # rest) st = rsp_run buf t (p + 1) rest (fold (\<lambda>a. rsp_act buf a p) acts st))"
  using assms(4) by (intro rsp.scan_leads [OF assms(1-3)]) (auto simp: list_ex_iff)

text \<open>
  What the lines of a head leave alone in the parser, and where the marks may be; with \<open>keep\<close>, the mark of a chunked
  body too.
\<close>

definition rsp_frame :: "bool \<Rightarrow> httpclient_parser \<Rightarrow> nat \<Rightarrow> httpclient_parser \<Rightarrow> bool" where
  "rsp_frame keep parser n parser' \<longleftrightarrow> (keep \<longrightarrow> hc_chunked parser' = hc_chunked parser) \<and> hc_body_start parser' = hc_body_start parser \<and> hc_nread parser' = hc_nread parser \<and>
     hc_status parser' = hc_status parser \<and> hc_mark parser' < n \<and> hc_field_start parser' < n \<and> hc_field_len parser' \<le> n"

definition is_name :: "string \<Rightarrow> bool" where
  "is_name k \<longleftrightarrow> k \<noteq> [] \<and> list_all (\<lambda>c. among (schar c) tokens) k"

definition is_text :: "string \<Rightarrow> bool" where
  "is_text v \<longleftrightarrow> list_all (\<lambda>c. among (schar c) texts) v"

definition is_blank :: "char \<Rightarrow> bool" where
  "is_blank c \<longleftrightarrow> among (schar c) blanks"

lemma schar_CR_LF [simp]: "among (schar (CHR 0x0D)) [(13, 13)]" "among (schar (CHR 0x0A)) [(10, 10)]" "among (schar (CHR '':'')) [(58, 58)]"
  by code_simp+

text \<open>The name \<^verbatim>\<open>Transfer-Encoding\<close> is followed in states of its own, by its letters.\<close>

definition Tstates :: ranges where "Tstates = [(44, 60)]"

definition te_name :: string where "te_name = ''transfer-encoding''"

lemma length_te_name [simp]: "length te_name = 17"
  by (simp add: te_name_def)

definition te_char :: "nat \<Rightarrow> int \<Rightarrow> bool" where
  "te_char t v \<longleftrightarrow> (let n = int (byte_of (te_name ! (t - 44))) in v = n \<or> v = n - 32 \<and> 97 \<le> n)"

definition te_block :: "nat \<times> bool \<times> rsp_action arcs \<Rightarrow> bool" where
  "te_block = (\<lambda>(s, wide, arcs). inside s (Lstates @ Nstates) \<longrightarrow> list_all (\<lambda>(cs, t, acts). inside t Tstates \<longrightarrow>
     (inside s Lstates \<and> t = 44 \<or> inside s Tstates \<and> t = Suc s) \<and> list_all (\<lambda>(lo, hi). lo = hi \<and> te_char t lo) cs) arcs)"

lemma te_blocks: "list_all te_block rsp_table"
  by (simp add: rsp_tables te_block_def te_char_def te_name_def inside_def Lstates_def Nstates_def Tstates_def byte_of_def tokens_def anys_def xdigits_def Let_def)

lemma te_step:
  assumes "steps rsp_table (\<lambda>_. schar) s c = Some (t, acts)" "inside s (Lstates @ Nstates)" "inside t Tstates"
  shows "(inside s Lstates \<and> t = 44 \<or> inside s Tstates \<and> t = Suc s) \<and> te_char t (schar c)"
proof -
  obtain wide arcs where b: "map_of rsp_table s = Some (wide, arcs)" "arc_for (schar c) arcs = Some (t, acts)"
    using assms(1) by (auto simp: steps_def split: option.splits)
  then obtain cs where cs: "(cs, t, acts) \<in> set arcs" "among (schar c) cs" using arc_for_set by blast
  have "te_block (s, wide, arcs)" using te_blocks map_of_SomeD [OF b(1)] by (auto simp: list_all_iff)
  then show ?thesis using assms(2,3) cs by (fastforce simp: te_block_def list_all_iff among_def list_ex_iff)
qed

lemma te_lower: "44 \<le> t \<Longrightarrow> t \<le> 60 \<Longrightarrow> te_char t (schar c) \<Longrightarrow> byte_of (tolower c) = byte_of (te_name ! (t - 44))"
proof -
  assume t: "44 \<le> t" "t \<le> 60" "te_char t (schar c)"
  have "list_all (\<lambda>c. byte_of c = 45 \<or> 97 \<le> byte_of c \<and> byte_of c \<le> 122) te_name"
    by (simp add: te_name_def byte_of_def)
  moreover have "t - 44 < length te_name" using t(1,2) by simp
  ultimately have "byte_of (te_name ! (t - 44)) = 45 \<or> 97 \<le> byte_of (te_name ! (t - 44)) \<and> byte_of (te_name ! (t - 44)) \<le> 122"
    unfolding list_all_length by blast
  moreover have "byte_of (char_of (byte_of c + 32)) = byte_of c + 32" if "byte_of c \<le> 90" using that by (simp add: byte_of_def)
  moreover have "byte_of c < 256" by (simp add: byte_of_def)
  ultimately show ?thesis using t(3) by (auto simp: te_char_def schar_def tolower_def Let_def split: if_splits)
qed

definition te_read :: "string \<Rightarrow> nat \<Rightarrow> bool" where
  "te_read x t \<longleftrightarrow> (inside t Tstates \<longrightarrow> map (\<lambda>c. byte_of (tolower c)) x = map byte_of (take (t - 43) te_name))"

lemma te_read_step:
  assumes "te_read x s" "inside s Nstates" "steps rsp_table (\<lambda>_. schar) s c = Some (t, acts)"
  shows "te_read (x @ [c]) t"
  unfolding te_read_def
proof
  assume t: "inside t Tstates"
  have "\<not> inside s Lstates" using assms(2) by (auto simp: inside_def Lstates_def Nstates_def)
  then have st: "inside s Tstates" "t = Suc s" "te_char t (schar c)" using te_step [OF assms(3) _ t] assms(2) by (auto simp: inside_def)
  have "44 \<le> s" "t \<le> 60" using st t by (auto simp: inside_def Tstates_def)
  then have "t - 43 = Suc (s - 43)" "t - 44 = s - 43" "s - 43 < length te_name" using st(2) by auto
  then have "take (t - 43) te_name = take (s - 43) te_name @ [te_name ! (t - 44)]"
    using take_Suc_conv_app_nth [of "s - 43" te_name] by simp
  moreover have "byte_of (tolower c) = byte_of (te_name ! (t - 44))" using te_lower [OF _ \<open>t \<le> 60\<close> st(3)] \<open>44 \<le> s\<close> st(2) by simp
  ultimately show "map (\<lambda>c. byte_of (tolower c)) (x @ [c]) = map byte_of (take (t - 43) te_name)"
    using assms(1) st(1) by (simp add: te_read_def)
qed

lemma name_stretch:
  assumes "inside s Nstates" "te_read x s" "list_all (\<lambda>c. among (schar c) tokens) ks"
  shows "\<exists>u. inside u Nstates \<and> te_read (x @ ks) u \<and> (\<forall>rest st. rsp_run buf s p (ks @ rest) st = rsp_run buf u (p + length ks) rest st)"
  using assms
proof (induction ks arbitrary: s p x)
  case (Cons c ks)
  obtain t acts where t: "steps rsp_table (\<lambda>_. schar) s c = Some (t, acts)" "inside t Nstates" "acts = []"
    using rsp.leads_ex [OF name_name Cons.prems(1), of c] Cons.prems(3) by auto
  obtain u where "inside u Nstates" "te_read ((x @ [c]) @ ks) u"
    "\<forall>rest st. rsp_run buf t (p + 1) (ks @ rest) st = rsp_run buf u (p + 1 + length ks) rest st"
    using Cons.IH [OF t(2) te_read_step [OF Cons.prems(2,1) t(1)], where p = "p + 1"] Cons.prems(3) by auto
  then show ?case using scan_step [OF t(1), of "\<lambda>a. a = Rdone" "rsp_act buf" p] t(3) by auto
qed auto

lemma name_run:
  assumes "inside s Lstates" "is_name k"
  shows "\<exists>u parser1. inside u Nstates \<and> te_read k u \<and> parser1 \<in> {parser, parser\<lparr>hc_mark := p\<rparr>, parser\<lparr>hc_close := True\<rparr>} \<and>
    (\<forall>rest. rsp_run buf s p (k @ rest) (parser, evs) = rsp_run buf u (p + length k) rest (parser1\<lparr>hc_field_start := p\<rparr>, evs))"
proof -
  obtain c ks where k: "k = c # ks" using assms(2) by (cases k) (auto simp: is_name_def)
  have names: "among (schar c) tokens" "list_all (\<lambda>c. among (schar c) tokens) ks" using assms(2) k by (simp_all add: is_name_def)
  obtain t acts where t: "steps rsp_table (\<lambda>_. schar) s c = Some (t, acts)" "inside t Nstates"
    "acts \<in> {[Rstart_field], [Rstart_value, Rstart_field], [Rwrite_connection_close, Rstart_field]}"
    using rsp.leads_ex [OF line_name assms(1) names(1)] by auto
  have "te_read [c] t"
    using te_step [OF t(1)] te_lower [of 44 c] take_Suc_conv_app_nth [of 0 te_name] assms(1) by (auto simp: te_read_def inside_def Lstates_def Tstates_def)
  then obtain u where u: "inside u Nstates" "te_read k u"
    "\<And>rest st. rsp_run buf t (p + 1) (ks @ rest) st = rsp_run buf u (p + 1 + length ks) rest st"
    using name_stretch [OF t(2) _ names(2), of "[c]" buf "p + 1"] k by auto
  have "\<not> list_ex (\<lambda>a. a = Rdone) acts" using t(3) by auto
  note step = scan_step [OF t(1) this, of "rsp_act buf" p]
  have "\<exists>parser1\<in>{parser, parser\<lparr>hc_mark := p\<rparr>, parser\<lparr>hc_close := True\<rparr>}.
      fold (\<lambda>a. rsp_act buf a p) acts (parser, evs) = (parser1\<lparr>hc_field_start := p\<rparr>, evs)" using t(3) by auto
  then obtain parser1 where "parser1 \<in> {parser, parser\<lparr>hc_mark := p\<rparr>, parser\<lparr>hc_close := True\<rparr>}"
    "fold (\<lambda>a. rsp_act buf a p) acts (parser, evs) = (parser1\<lparr>hc_field_start := p\<rparr>, evs)" by blast
  then show ?thesis using u step k by (intro exI [of _ u] exI [of _ parser1]) auto
qed

section \<open>Heads\<close>

text \<open>Header lines: the name, blanks after the colon, the value.\<close>

type_synonym field = "string \<times> string \<times> string"

definition field_ok :: "field \<Rightarrow> bool" where
  "field_ok = (\<lambda>(k, w, v). is_name k \<and> list_all is_blank w \<and> is_text v \<and> (v = [] \<or> among (schar (hd v)) inks))"

fun field_text :: "field list \<Rightarrow> string" where
  "field_text [] = []"
| "field_text ((k, w, v) # fs) = (k @ '':'' @ w @ v @ CRLF) @ field_text fs"

fun field_events :: "nat \<Rightarrow> field list \<Rightarrow> rsp_event list" where
  "field_events p [] = []"
| "field_events p ((k, w, v) # fs) =
     OnRspField p (length k) (p + length k + 1 + length w) (length v) # field_events (p + length (k @ '':'' @ w @ v @ CRLF)) fs"

lemma rsp_frame_trans: "rsp_frame keep a m b \<Longrightarrow> rsp_frame keep b n c \<Longrightarrow> rsp_frame keep a n c"
  by (simp add: rsp_frame_def)

text \<open>
  What reading the lines of a head needs: the sets of states of their parts.  With \<open>keep\<close> no line marks a chunked
  body; \<open>good\<close> are the names that may begin a line.
\<close>

definition line_acts :: "bool \<Rightarrow> rsp_action list set" where
  "line_acts keep = (if keep then {[]} else {[], [Rtrans_chunked]})"

locale head_lines =
  fixes keep :: bool and good :: "string \<Rightarrow> bool" and L C V E E2 :: ranges
  assumes name_read: "inside s L \<Longrightarrow> is_name k \<Longrightarrow> good k \<Longrightarrow>
      \<exists>x parser1. inside x C \<and> parser1 \<in> {parser, parser\<lparr>hc_mark := p\<rparr>, parser\<lparr>hc_close := True\<rparr>} \<and>
        (\<forall>rest. rsp_run buf s p (k @ CHR '':'' # rest) (parser, evs) =
          rsp_run buf x (p + length k + 1) rest (parser1\<lparr>hc_field_start := p, hc_field_len := length k\<rparr>, evs))"
    and colon_blank: "leads rsp_table 124 C blanks (\<lambda>t acts. inside t C \<and> acts = [Rstart_value])"
    and colon_value: "leads rsp_table 124 C inks (\<lambda>t acts. inside t V \<and> acts = [Rstart_value])"
    and colon_end: "leads rsp_table 124 C [(13, 13)] (\<lambda>t acts. inside t E \<and> acts = [Rstart_value, Rwrite_value])"
    and value_value: "leads rsp_table 124 V texts (\<lambda>t acts. inside t V \<and> acts = [])"
    and value_end: "leads rsp_table 124 V [(13, 13)]
      (\<lambda>t acts. inside t E2 \<and> acts \<in> {[Rwrite_value], [Rwrite_content_len, Rwrite_value]})"
    and end_line: "leads rsp_table 124 E [(10, 10)] (\<lambda>t acts. inside t L \<and> acts \<in> line_acts keep)"
    and end_line2: "leads rsp_table 124 E2 [(10, 10)] (\<lambda>t acts. inside t L2states \<and> acts \<in> line_acts keep)"
    and L2_L: "inside s L2states \<Longrightarrow> inside s L"
    and L_20: "inside 20 L"
begin

lemma blank_stretch:
  assumes "inside s C" "list_all is_blank w"
  shows "\<exists>t m. inside t C \<and> (\<forall>rest. rsp_run buf s p (w @ rest) (parser, evs) =
    rsp_run buf t (p + length w) rest (parser\<lparr>hc_mark := m\<rparr>, evs))"
  using assms
proof (induction w arbitrary: s p parser)
  case Nil
  have "parser\<lparr>hc_mark := hc_mark parser\<rparr> = parser" by simp
  then show ?case using Nil by (intro exI [of _ s] exI [of _ "hc_mark parser"]) simp
next
  case (Cons c w)
  obtain t where t: "inside t C"
    "\<And>rest st. rsp_run buf s p (c # rest) st = rsp_run buf t (p + 1) rest (rsp_act buf Rstart_value p st)"
    using rsp_leads [OF colon_blank Cons.prems(1), of c buf p] Cons.prems(2) by (fastforce simp: is_blank_def)
  obtain u m where "inside u C" "\<forall>rest. rsp_run buf t (p + 1) (w @ rest) (parser\<lparr>hc_mark := p\<rparr>, evs) =
      rsp_run buf u (p + 1 + length w) rest (parser\<lparr>hc_mark := p, hc_mark := m\<rparr>, evs)"
    using Cons.IH [of t "p + 1" "parser\<lparr>hc_mark := p\<rparr>"] t(1) Cons.prems(2) by auto
  then show ?case using t by (intro exI [of _ u] exI [of _ m]) simp
qed

lemma line_end:
  assumes "leads rsp_table 124 S [(10, 10)] (\<lambda>t acts. inside t S' \<and> acts \<in> line_acts keep)"
    "inside s S" "rsp_frame keep parser0 n parser"
  shows "\<exists>t parser'. inside t S' \<and> rsp_frame keep parser0 n parser' \<and>
    (\<forall>rest. rsp_run buf s p (CHR 0x0A # rest) (parser, evs) = rsp_run buf t (p + 1) rest (parser', evs))"
proof -
  obtain t acts where t: "inside t S'" "acts \<in> line_acts keep" "\<And>rest st. rsp_run buf s p (CHR 0x0A # rest) st =
      rsp_run buf t (p + 1) rest (fold (\<lambda>a. rsp_act buf a p) acts st)"
    using rsp_leads [OF assms(1,2), of "CHR 0x0A" buf p] by (fastforce simp: line_acts_def split: if_splits)
  obtain parser' where "rsp_frame keep parser0 n parser'" "fold (\<lambda>a. rsp_act buf a p) acts (parser, evs) = (parser', evs)"
    using t(2) assms(3) by (fastforce simp: rsp_frame_def line_acts_def split: if_splits)
  then show ?thesis using t(1,3) by metis
qed

text \<open>A value and the end of its line; a header and its event.\<close>

lemma value_line:
  assumes "inside s C" "is_text v" "v = [] \<or> among (schar (hd v)) inks" "rsp_frame keep parser0 n (parser\<lparr>hc_mark := p\<rparr>)"
  shows "\<exists>t parser'. inside t L \<and> (v \<noteq> [] \<longrightarrow> inside t L2states) \<and> rsp_frame keep parser0 n parser' \<and>
    (\<forall>rest. rsp_run buf s p (v @ CRLF @ rest) (parser, evs) = rsp_run buf t (p + length v + 2) rest
      (parser', evs @ [OnRspField (hc_field_start parser) (hc_field_len parser) p (length v)]))"
proof (cases v)
  case Nil
  obtain t where t: "inside t E" "\<And>rest st. rsp_run buf s p (CHR 0x0D # rest) st =
      rsp_run buf t (p + 1) rest (fold (\<lambda>a. rsp_act buf a p) [Rstart_value, Rwrite_value] st)"
    using rsp_leads [OF colon_end assms(1), of "CHR 0x0D" buf p] by fastforce
  show ?thesis
    using line_end [OF end_line t(1) assms(4), of buf "p + 1" "evs @ [OnRspField (hc_field_start parser) (hc_field_len parser) p 0]"]
    by (simp add: CRLF_def t(2) Nil)
next
  case (Cons c cs)
  obtain t where t: "inside t V" "\<And>rest st. rsp_run buf s p (c # rest) st = rsp_run buf t (p + 1) rest (rsp_act buf Rstart_value p st)"
    using rsp_leads [OF colon_value assms(1), of c buf p] assms(3) Cons by fastforce
  obtain u where u: "inside u V" "\<And>rest st. rsp_run buf t (p + 1) (cs @ rest) st = rsp_run buf u (p + 1 + length cs) rest st"
    using rsp.scan_stretch [OF value_value t(1), of cs "rsp_act buf" "\<lambda>a. a = Rdone" "p + 1"] assms(2) Cons
    by (auto simp: is_text_def)
  define q where "q = p + length v"
  obtain w acts where w: "inside w E2" "acts \<in> {[Rwrite_value], [Rwrite_content_len, Rwrite_value]}"
    "\<And>rest st. rsp_run buf u q (CHR 0x0D # rest) st = rsp_run buf w (q + 1) rest (fold (\<lambda>a. rsp_act buf a q) acts st)"
    using rsp_leads [OF value_end u(1), of "CHR 0x0D" buf q] by fastforce
  let ?evs = "evs @ [OnRspField (hc_field_start parser) (hc_field_len parser) p (length v)]"
  obtain parser1 where parser1: "rsp_frame keep parser0 n parser1"
    "fold (\<lambda>a. rsp_act buf a q) acts (parser\<lparr>hc_mark := p\<rparr>, evs) = (parser1, ?evs)"
    using w(2) assms(4) by (fastforce simp: rsp_frame_def line_acts_def q_def)
  have run: "rsp_run buf s p (v @ CRLF @ rest) (parser, evs) = rsp_run buf w (q + 1) (CHR 0x0A # rest) (parser1, ?evs)" for rest
    using t(2) u(2) w(3) parser1(2) Cons by (simp add: CRLF_def q_def)
  show ?thesis using line_end [OF end_line2 w(1) parser1(1), of buf "q + 1" ?evs] L2_L by (fastforce simp: run q_def)
qed

lemma field_line:
  assumes "inside s L" "is_name k" "good k" "list_all is_blank w" "is_text v" "v = [] \<or> among (schar (hd v)) inks"
  shows "\<exists>t parser'. inside t L \<and> (v \<noteq> [] \<longrightarrow> inside t L2states) \<and> rsp_frame keep parser (p + length (k @ '':'' @ w @ v @ CRLF)) parser' \<and>
    (\<forall>rest. rsp_run buf s p (k @ '':'' @ w @ v @ CRLF @ rest) (parser, evs) =
      rsp_run buf t (p + length (k @ '':'' @ w @ v @ CRLF)) rest
        (parser', evs @ [OnRspField p (length k) (p + length k + 1 + length w) (length v)]))"
proof -
  obtain x parser1 where x: "inside x C" "parser1 \<in> {parser, parser\<lparr>hc_mark := p\<rparr>, parser\<lparr>hc_close := True\<rparr>}"
    "\<And>rest. rsp_run buf s p (k @ CHR '':'' # rest) (parser, evs) =
      rsp_run buf x (p + length k + 1) rest (parser1\<lparr>hc_field_start := p, hc_field_len := length k\<rparr>, evs)"
    using name_read [OF assms(1-3), of parser p buf evs] by blast
  define parser2 where "parser2 = parser1\<lparr>hc_field_start := p, hc_field_len := length k\<rparr>"
  obtain y m where y: "inside y C" "\<And>rest. rsp_run buf x (p + length k + 1) (w @ rest) (parser2, evs) =
      rsp_run buf y (p + length k + 1 + length w) rest (parser2\<lparr>hc_mark := m\<rparr>, evs)"
    using blank_stretch [OF x(1) assms(4)] by blast
  let ?q = "p + length k + 1 + length w"
  have "rsp_run buf s p (k @ '':'' @ w @ rest) (parser, evs) = rsp_run buf y ?q rest (parser2\<lparr>hc_mark := m\<rparr>, evs)" for rest
    using x(3) y(2) by (simp add: parser2_def)
  moreover have frame: "rsp_frame keep parser (p + length (k @ '':'' @ w @ v @ CRLF)) (parser2\<lparr>hc_mark := m, hc_mark := ?q\<rparr>)"
    using x(2) by (auto simp: rsp_frame_def parser2_def CRLF_def)
  ultimately show ?thesis using value_line [OF y(1) assms(5,6) frame, of buf evs]
    by (simp add: parser2_def CRLF_def algebra_simps)
qed

lemma fields_run:
  assumes "inside s L" "list_all field_ok fs" "list_all (good \<circ> fst) fs" "rsp_frame keep parser0 p parser"
  shows "\<exists>t parser'. inside t L \<and> (fs = [] \<longrightarrow> t = s) \<and> (fs \<noteq> [] \<and> snd (snd (last fs)) \<noteq> [] \<longrightarrow> inside t L2states) \<and>
    rsp_frame keep parser0 (p + length (field_text fs)) parser' \<and>
    (\<forall>rest. rsp_run buf s p (field_text fs @ rest) (parser, evs) =
      rsp_run buf t (p + length (field_text fs)) rest (parser', evs @ field_events p fs))"
  using assms
proof (induction fs arbitrary: s p parser evs)
  case Nil
  then show ?case by auto
next
  case (Cons f fs)
  obtain k w v where f: "f = (k, w, v)" by (cases f)
  let ?q = "p + length (k @ '':'' @ w @ v @ CRLF)" and ?ev = "OnRspField p (length k) (p + length k + 1 + length w) (length v)"
  obtain t parser1 where t: "inside t L" "v \<noteq> [] \<longrightarrow> inside t L2states" "rsp_frame keep parser ?q parser1"
    "\<And>rest. rsp_run buf s p (k @ '':'' @ w @ v @ CRLF @ rest) (parser, evs) = rsp_run buf t ?q rest (parser1, evs @ [?ev])"
    using field_line [OF Cons.prems(1), of k w v parser p buf evs] Cons.prems(2,3) f by (auto simp: field_ok_def)
  obtain u parser2 where u: "inside u L" "fs = [] \<longrightarrow> u = t" "fs \<noteq> [] \<and> snd (snd (last fs)) \<noteq> [] \<longrightarrow> inside u L2states"
    "rsp_frame keep parser0 (?q + length (field_text fs)) parser2"
    "\<And>rest. rsp_run buf t ?q (field_text fs @ rest) (parser1, evs @ [?ev]) =
       rsp_run buf u (?q + length (field_text fs)) rest (parser2, (evs @ [?ev]) @ field_events ?q fs)"
    using Cons.IH [OF t(1) _ _ rsp_frame_trans [OF Cons.prems(4) t(3)], of "evs @ [?ev]"] Cons.prems(2,3) by auto
  have "rsp_run buf s p (field_text (f # fs) @ rest) (parser, evs) =
      rsp_run buf u (p + length (field_text (f # fs))) rest (parser2, evs @ field_events p (f # fs))" for rest
    using t(4) [of "field_text fs @ rest"] u(5) [of rest] by (simp add: f add.assoc)
  moreover have "rsp_frame keep parser0 (p + length (field_text (f # fs))) parser2" using u(4) by (simp add: f add.assoc)
  ultimately show ?case using t(2) u(1-3) by (intro exI [of _ u] exI [of _ parser2]) (auto simp: f)
qed

end

definition plain_name :: "string \<Rightarrow> bool" where
  "plain_name k \<longleftrightarrow> strcasecmp k te_name \<noteq> 0"

lemma plain_read:
  assumes "is_name k" "plain_name k" "te_read k u"
  shows "u \<noteq> 60"
proof
  assume "u = 60"
  then have "map (\<lambda>c. byte_of (tolower c)) k = map byte_of te_name" using assms(3) by (simp add: te_read_def inside_def Tstates_def)
  moreover have "c_str k = k"
  proof -
    have "\<not> among (schar (CHR 0x00)) tokens" by code_simp
    then have "CHR 0x00 \<notin> set k" using assms(1) by (auto simp: is_name_def list_all_iff)
    then show ?thesis by (auto simp: c_str_def takeWhile_eq_all_conv)
  qed
  moreover have "case_key te_name = map byte_of te_name" by (simp add: te_name_def case_key_def c_str_def tolower_def byte_of_def)
  ultimately show False using assms(2) by (simp add: plain_name_def strcasecmp_eq case_key_def)
qed

text \<open>All lines, and those whose names are not \<^verbatim>\<open>Transfer-Encoding\<close>, which leave out the states behind that name.\<close>

definition Lplain :: ranges where "Lplain = [(20, 20), (36, 36), (43, 43), (113, 113)]"
definition Cplain :: ranges where "Cplain = [(22, 22), (35, 35), (112, 112)]"
definition Vplain :: ranges where "Vplain = [(23, 23), (96, 100), (119, 119)]"
definition Eplain :: ranges where "Eplain = [(24, 24), (88, 88), (95, 95), (118, 118)]"
definition E2plain :: ranges where "E2plain = [(24, 24), (88, 88)]"
definition Nplain :: ranges where
  "Nplain = [(21, 21), (25, 34), (44, 59), (73, 79), (90, 94), (101, 111), (117, 117)]"

lemmas plain_sets = Lplain_def Cplain_def Vplain_def Eplain_def E2plain_def Nplain_def

lemma name_colon_plain: "leads rsp_table 124 Nplain [(58, 58)] (\<lambda>t acts. inside t Cplain \<and> acts = [Rwrite_field])"
  by (simp add: leads_simps head_sets plain_sets rsp_tables)

lemma colon_run:
  assumes "inside u S" "leads rsp_table 124 S [(58, 58)] (\<lambda>t acts. inside t C \<and> acts = [Rwrite_field])"
  shows "\<exists>x. inside x C \<and> (\<forall>rest parser evs. rsp_run buf u q (CHR '':'' # rest) (parser, evs) =
    rsp_run buf x (q + 1) rest (parser\<lparr>hc_field_len := sub64 q (hc_field_start parser)\<rparr>, evs))"
  using rsp_leads [OF assms(2,1), of "CHR '':''" buf q] by fastforce

lemma name_colon_run:
  assumes "inside s Lstates" "is_name k" "\<And>u. te_read k u \<Longrightarrow> inside u Nstates \<Longrightarrow> inside u S"
    "leads rsp_table 124 S [(58, 58)] (\<lambda>t acts. inside t C \<and> acts = [Rwrite_field])"
  shows "\<exists>x parser1. inside x C \<and> parser1 \<in> {parser, parser\<lparr>hc_mark := p\<rparr>, parser\<lparr>hc_close := True\<rparr>} \<and>
    (\<forall>rest. rsp_run buf s p (k @ CHR '':'' # rest) (parser, evs) =
      rsp_run buf x (p + length k + 1) rest (parser1\<lparr>hc_field_start := p, hc_field_len := length k\<rparr>, evs))"
proof -
  obtain u parser1 where u: "inside u Nstates" "te_read k u" "parser1 \<in> {parser, parser\<lparr>hc_mark := p\<rparr>, parser\<lparr>hc_close := True\<rparr>}"
    "\<And>rest. rsp_run buf s p (k @ rest) (parser, evs) = rsp_run buf u (p + length k) rest (parser1\<lparr>hc_field_start := p\<rparr>, evs)"
    using name_run [OF assms(1,2), of parser p buf evs] by blast
  obtain x where "inside x C" "\<And>rest parser evs. rsp_run buf u (p + length k) (CHR '':'' # rest) (parser, evs) =
      rsp_run buf x (p + length k + 1) rest (parser\<lparr>hc_field_len := sub64 (p + length k) (hc_field_start parser)\<rparr>, evs)"
    using colon_run [OF assms(3) [OF u(2,1)] assms(4), of buf "p + length k"] by blast
  then show ?thesis using u(3,4) by (intro exI [of _ x] exI [of _ parser1]) simp
qed

interpretation lines: head_lines False "\<lambda>_. True" Lstates Cstates Vstates Estates E2states
proof (unfold_locales, goal_cases)
  case (1 s k parser p buf evs)
  then show ?case using name_colon_run [OF _ _ _ name_colon] by blast
qed (simp_all add: leads_simps head_sets rsp_tables line_acts_def, auto)

interpretation plain: head_lines True plain_name Lplain Cplain Vplain Eplain E2plain
proof (unfold_locales, goal_cases)
  case (1 s k parser p buf evs)
  have "inside s Lstates" using 1(1) by (auto simp: inside_def Lplain_def Lstates_def)
  moreover have "inside u Nplain" if "te_read k u" "inside u Nstates" for u
    using plain_read [OF 1(2,3) that(1)] that(2) by (auto simp: inside_def Nplain_def Nstates_def)
  ultimately show ?case using name_colon_run [OF _ 1(2) _ name_colon_plain] by blast
qed (simp_all add: leads_simps head_sets plain_sets rsp_tables line_acts_def, auto)

lemma fields_run_any:
  assumes "list_all field_ok fs" "rsp_frame (list_all (plain_name \<circ> fst) fs) parser0 p parser"
  shows "\<exists>t parser'. (fs \<noteq> [] \<and> snd (snd (last fs)) \<noteq> [] \<longrightarrow> inside t L2states) \<and>
    rsp_frame (list_all (plain_name \<circ> fst) fs) parser0 (p + length (field_text fs)) parser' \<and>
    (\<forall>rest. rsp_run buf 20 p (field_text fs @ rest) (parser, evs) =
      rsp_run buf t (p + length (field_text fs)) rest (parser', evs @ field_events p fs))"
proof (cases "list_all (plain_name \<circ> fst) fs")
  case True
  then show ?thesis using plain.fields_run [OF plain.L_20 assms(1) True, of parser0 p parser buf evs] assms(2) by auto
next
  case False
  then show ?thesis using lines.fields_run [OF lines.L_20 assms(1), of parser0 p parser buf evs] assms(2)
    by (auto simp: list_all_iff rsp_frame_def)
qed

text \<open>The status line.\<close>

lemma status_leads:
  "trail rsp_table (\<lambda>_. schar) 1 ''HTTP/1.'' = Some (14, [[Rmark], [], [], [], [], [], []])"
  "leads rsp_table 124 [(14, 14)] digits (\<lambda>t acts. t = 15 \<and> acts = [])"
  "leads rsp_table 124 [(15, 15)] [(32, 32)] (\<lambda>t acts. t = 16 \<and> acts = [Rhttp_version])"
  "leads rsp_table 124 [(16, 16)] digits (\<lambda>t acts. t = 17 \<and> acts = [Rmark])"
  "leads rsp_table 124 [(17, 17)] digits (\<lambda>t acts. t = 17 \<and> acts = [])"
  "leads rsp_table 124 [(17, 17)] [(32, 32)] (\<lambda>t acts. t = 18 \<and> acts = [Rstatus_code])"
  "leads rsp_table 124 [(18, 18)] texts (\<lambda>t acts. t = 19 \<and> acts = [Rmark])"
  "leads rsp_table 124 [(19, 19)] texts (\<lambda>t acts. t = 19 \<and> acts = [])"
  "leads rsp_table 124 [(19, 19)] [(13, 13)] (\<lambda>t acts. t = 24 \<and> acts = [Rreason_phrase])"
  "leads rsp_table 124 [(24, 24)] [(10, 10)] (\<lambda>t acts. t = 20 \<and> acts = [])"
  by code_simp (simp_all add: leads_simps head_sets rsp_tables)

lemma rsp_one:
  assumes "leads rsp_table 124 [(s, s)] cs (\<lambda>t acts. t = u \<and> acts = as)" "among (schar c) cs" "Rdone \<notin> set as"
  shows "rsp_run buf s p (c # rest) st = rsp_run buf u (p + 1) rest (fold (\<lambda>a. rsp_act buf a p) as st)"
  using assms(3) by (intro rsp.scan_one [OF assms(1,2)]) (auto simp: list_ex_iff)

lemma schar_space [simp]: "among (schar (CHR '' '')) [(32, 32)]"
  by code_simp

lemma status_line:
  assumes "among (schar x) digits" "d \<noteq> []" "list_all (\<lambda>c. among (schar c) digits) d" "reason \<noteq> []" "is_text reason"
  shows "rsp_run buf 1 0 (''HTTP/1.'' @ [x] @ '' '' @ d @ '' '' @ reason @ CRLF @ rest) (parser, []) =
    rsp_run buf 20 (12 + length d + length reason) rest
      (parser\<lparr>hc_status := atoi (drop 9 buf), hc_mark := 10 + length d\<rparr>,
       [OnRspVersion 0 8, OnStatus 9 (length d), OnReason (10 + length d) (length reason)])"
proof -
  obtain e ds where d: "d = e # ds" using assms(2) by (cases d) auto
  obtain f rs where r: "reason = f # rs" using assms(4) by (cases reason) auto
  have all: "among (schar e) digits" "list_all (\<lambda>c. among (schar c) digits) ds" "among (schar f) texts"
    "list_all (\<lambda>c. among (schar c) texts) rs" using assms(3,5) d r by (auto simp: is_text_def)
  let ?rest = "e # ds @ CHR '' '' # f # rs @ CRLF @ rest"
  have "rsp_run buf 1 0 (''HTTP/1.'' @ x # CHR '' '' # ?rest) (parser, []) = rsp_run buf 14 7 (x # CHR '' '' # ?rest) (parser\<lparr>hc_mark := 0\<rparr>, [])"
    using scan_trail [OF status_leads(1), of "\<lambda>a. a = Rdone" "rsp_act buf" 0 "x # CHR '' '' # ?rest" "(parser, [])"]
    by (simp add: eval_nat_numeral)
  also have "\<dots> = rsp_run buf 16 9 ?rest (parser\<lparr>hc_mark := 0\<rparr>, [OnRspVersion 0 8])"
    by (simp add: rsp_one [OF status_leads(2) assms(1)] rsp_one [OF status_leads(3)])
  also have "\<dots> = rsp_run buf 18 (11 + length ds) (f # rs @ CRLF @ rest)
      (parser\<lparr>hc_mark := 9, hc_status := atoi (drop 9 buf)\<rparr>, [OnRspVersion 0 8, OnStatus 9 (length d)])"
    by (simp add: rsp_one [OF status_leads(4) all(1)] rsp.scan_loop [OF status_leads(5) all(2)] rsp_one [OF status_leads(6)] d)
  also have "\<dots> = rsp_run buf 20 (12 + length d + length reason) rest
      (parser\<lparr>hc_status := atoi (drop 9 buf), hc_mark := 10 + length d\<rparr>,
       [OnRspVersion 0 8, OnStatus 9 (length d), OnReason (10 + length d) (length reason)])"
    by (simp add: rsp_one [OF status_leads(7) all(3)] rsp.scan_loop [OF status_leads(8) all(4)] rsp_one [OF status_leads(9)]
        rsp_one [OF status_leads(10)] d r CRLF_def)
  finally show ?thesis by (simp add: d r)
qed

text \<open>A whole head, and what follows it.\<close>

lemma head_run:
  assumes "among (schar x) digits" "d \<noteq> []" "list_all (\<lambda>c. among (schar c) digits) d" "reason \<noteq> []" "is_text reason"
    "list_all field_ok fs" "fs \<noteq> []" "snd (snd (last fs)) \<noteq> []"
    "n = 12 + length d + length reason"
  shows "\<exists>parser'. rsp_frame (list_all (plain_name \<circ> fst) fs) parser (n + length (field_text fs)) (parser'\<lparr>hc_status := hc_status parser\<rparr>) \<and>
    rsp_run buf 1 0 (''HTTP/1.'' @ [x] @ '' '' @ d @ '' '' @ reason @ CRLF @ field_text fs @ CRLF @ rest)
      (parser\<lparr>hc_field_start := 0, hc_field_len := 0\<rparr>, []) =
    (120, n + length (field_text fs) + 2, parser'\<lparr>hc_body_start := n + length (field_text fs) + 2\<rparr>,
     [OnRspVersion 0 8, OnStatus 9 (length d), OnReason (10 + length d) (length reason)] @ field_events n fs @
     [OnRspHeaderDone (n + length (field_text fs) + 2) (length buf - (n + length (field_text fs)) - 2)])"
proof -
  let ?parser = "parser\<lparr>hc_field_start := 0, hc_field_len := 0, hc_status := atoi (drop 9 buf), hc_mark := 10 + length d\<rparr>"
  let ?evs = "[OnRspVersion 0 8, OnStatus 9 (length d), OnReason (10 + length d) (length reason)]"
  let ?q = "n + length (field_text fs)" and ?keep = "list_all (plain_name \<circ> fst) fs"
  have "rsp_frame ?keep (parser\<lparr>hc_status := atoi (drop 9 buf)\<rparr>) n ?parser" using assms(9) by (simp add: rsp_frame_def)
  then obtain t parser1 where t: "inside t L2states" "rsp_frame ?keep (parser\<lparr>hc_status := atoi (drop 9 buf)\<rparr>) ?q parser1"
    "\<And>rest. rsp_run buf 20 n (field_text fs @ rest) (?parser, ?evs) = rsp_run buf t ?q rest (parser1, ?evs @ field_events n fs)"
    using fields_run_any [OF assms(6), of _ n ?parser buf ?evs] assms(7,8) by blast
  obtain acts where acts: "acts \<in> {[], [Rwrite_connection_close]}" "\<And>rest st. rsp_run buf t ?q (CHR 0x0D # rest) st =
      rsp_run buf 3 (?q + 1) rest (fold (\<lambda>a. rsp_act buf a ?q) acts st)"
    using rsp_leads [OF line_empty t(1), of "CHR 0x0D" buf ?q] by fastforce
  obtain parser2 where parser2: "rsp_frame ?keep (parser\<lparr>hc_status := atoi (drop 9 buf)\<rparr>) ?q parser2"
    "fold (\<lambda>a. rsp_act buf a ?q) acts (parser1, ?evs @ field_events n fs) = (parser2, ?evs @ field_events n fs)"
    using acts(1) t(2) by (fastforce simp: rsp_frame_def)
  have "rsp_run buf 1 0 (''HTTP/1.'' @ [x] @ '' '' @ d @ '' '' @ reason @ CRLF @ field_text fs @ CRLF @ rest)
      (parser\<lparr>hc_field_start := 0, hc_field_len := 0\<rparr>, []) = rsp_run buf 3 (?q + 1) (CHR 0x0A # rest) (parser2, ?evs @ field_events n fs)"
    using status_line [OF assms(1-5), of buf "field_text fs @ CRLF @ rest" "parser\<lparr>hc_field_start := 0, hc_field_len := 0\<rparr>"]
      t(3) [of "CRLF @ rest"] acts(2) parser2(2) assms(9) by (simp add: CRLF_def)
  also have "\<dots> = (120, ?q + 1 + 1, fold (\<lambda>a. rsp_act buf a (?q + 1)) [Rdone] (parser2, ?evs @ field_events n fs))"
    by (rule scan_stop [OF empty_done]) simp
  finally show ?thesis using parser2(1) by (intro exI [of _ parser2]) (simp add: rsp_frame_def)
qed

section \<open>What is read is what was written\<close>

lemma callbacks_append: "callbacks cb (xs @ ys) d = bindE (callbacks cb xs d) (callbacks cb ys)"
proof (induction xs arbitrary: d)
  case (Cons x xs)
  then show ?case by (cases "cb x d") simp_all
qed simp

lemma text_at_mid: "at = length a \<Longrightarrow> len = length b \<Longrightarrow> text_at (a @ b @ c) at len = Inr b"
  by (simp add: text_at_def slice_def)

definition set_fields :: "field list \<Rightarrow> http_response \<Rightarrow> http_response" where
  "set_fields fs r = foldl (\<lambda>r (k, w, v). rsp_setHeader r k v) r fs"

lemma field_callbacks:
  assumes "list_all field_ok fs" "data = pre @ field_text fs @ post" "p = length pre"
  shows "callbacks (on_response data) (field_events p fs) sp = Inr (sp\<lparr>sp_data := set_fields fs (sp_data sp)\<rparr>)"
  using assms
proof (induction fs arbitrary: p pre sp)
  case (Cons f fs)
  obtain k w v where f: "f = (k, w, v)" by (cases f)
  have k: "text_at data p (length k) = Inr k" using Cons.prems(2,3) by (simp add: f text_at_mid)
  have v: "text_at data (p + length k + 1 + length w) (length v) = Inr v"
    using text_at_mid [of _ "pre @ k @ '':'' @ w" _ v "CRLF @ field_text fs @ post"] Cons.prems(2,3) by (simp add: f add.assoc)
  have "k \<noteq> []" using Cons.prems(1) by (simp add: f field_ok_def is_name_def)
  then have "on_response data (OnRspField p (length k) (p + length k + 1 + length w) (length v)) sp =
      Inr (sp\<lparr>sp_data := rsp_setHeader (sp_data sp) k v\<rparr>)" using k v by (simp add: on_response_http_field_def)
  then show ?case
    using Cons.IH [of "pre @ k @ '':'' @ w @ v @ CRLF" "p + length (k @ '':'' @ w @ v @ CRLF)"] Cons.prems
    by (simp add: f set_fields_def)
qed (simp add: set_fields_def)

lemma atoi_dec:
  assumes "n < 2 ^ 31" "\<not> is_digit e" "e \<noteq> CHR 0x00"
  shows "atoi (dec n @ e # rest) = int n"
proof -
  have d: "48 \<le> byte_of c \<and> byte_of c \<le> 57" if "c \<in> set (dec n)" for c using that by (rule dec_digits)
  have digit: "is_digit c" "\<not> is_space c" "c \<noteq> CHR 0x00" "c \<noteq> CHR ''-''" "c \<noteq> CHR ''+''" if "c \<in> set (dec n)" for c
    using d [OF that] by (auto simp: is_digit_def is_space_def byte_of_def)
  obtain c cs where c: "dec n = c # cs" by (cases "dec n") (auto simp: dec.simps [of n] split: if_splits)
  have "c_str (dec n @ e # rest) = dec n @ e # c_str rest"
    using digit(3) assms(3) by (simp add: c_str_def)
  moreover have "takeWhile is_digit (dec n @ e # c_str rest) = dec n"
    using digit(1) assms(2) by (simp add: takeWhile_append2)
  moreover have "foldl (\<lambda>n c. n * 10 + (byte_of c - 48)) 0 (dec n) = n"
    using parse_dec_dec [of n] by (simp add: parse_dec_def foldl_conv_fold)
  ultimately show ?thesis
    using digit [of c] c assms(1) by (simp add: atoi_def digits_val_def Let_def saturate_long_def to_int32_def
        signed_of_nat signed_take_bit_int_eq_self)
qed

text \<open>The header lines of \<open>dump_response\<close>.\<close>

definition dump_fields :: "http_response \<Rightarrow> field list" where
  "dump_fields r =
     map (\<lambda>(k, v). (k, CHR '' '' # takeWhile is_blank v, dropWhile is_blank v))
       (filter (\<lambda>(k, v). strcasecmp k ''connection'' \<noteq> 0) (rs_headers r)) @
     [(''connection'', '' '', if rs_close r then ''close'' else ''keep-alive'')] @
     (if rs_body r = [] then [] else [(''content-length'', '' '', dec (length (rs_body r)))])"

definition dump_reason :: "http_response \<Rightarrow> string" where
  "dump_reason r = (if rs_reason r = [] then HttpStatusToString (rs_status r) else rs_reason r)"

lemma field_text_append: "field_text (fs @ gs) = field_text fs @ field_text gs"
  by (induction fs rule: field_text.induct) simp_all

lemma field_text_headers:
  "field_text (map (\<lambda>(k, v). (k, CHR '' '' # takeWhile is_blank v, dropWhile is_blank v))
     (filter (\<lambda>(k, v). strcasecmp k ''connection'' \<noteq> 0) m)) = header_lines '': '' m"
  by (induction m) (auto simp: header_lines_def)

lemma dump_text:
  assumes "rs_version r = 0x10 \<and> x = CHR ''0'' \<or> rs_version r = 0x11 \<and> x = CHR ''1''" "0 \<le> rs_status r" "rs_status r < 2 ^ 31"
  shows "dump_response r = ''HTTP/1.'' @ [x] @ '' '' @ dec (nat (rs_status r)) @ '' '' @ dump_reason r @ CRLF @
    field_text (dump_fields r) @ CRLF @ rs_body r"
proof -
  have v: "version_str (rs_version r) = ''1.'' @ [x]" using assms(1) by (elim disjE) (simp_all, code_simp+)
  have "unat (word_of_int (rs_status r) :: u32) = nat (rs_status r)"
    using assms(2,3) by (simp add: unsigned_of_int take_bit_int_eq_self)
  then show ?thesis
    by (simp add: dump_response_def v dump_fields_def dump_reason_def field_text_append field_text_headers connection_line_def
        body_part_def)
qed

text \<open>Lines that the parser reads as they were written.\<close>

definition response_ok :: "http_response \<Rightarrow> bool" where
  "response_ok r \<longleftrightarrow> rs_version r \<in> {0x10, 0x11} \<and> 0 \<le> rs_status r \<and> rs_status r < 2 ^ 31 \<and> is_text (rs_reason r) \<and>
     list_all (\<lambda>(k, v). is_name k \<and> is_text v) (rs_headers r)"

lemma digit_char: "48 \<le> byte_of c \<Longrightarrow> byte_of c \<le> 57 \<Longrightarrow> among (schar c) digits \<and> among (schar c) texts \<and> among (schar c) inks"
  by (simp add: among_def head_sets schar_def Let_def)

lemma dec_chars: "list_all (\<lambda>c. among (schar c) digits) (dec n)" "is_text (dec n)" "dec n \<noteq> []" "among (schar (hd (dec n))) inks"
proof -
  show ne: "dec n \<noteq> []" by (simp add: dec.simps [of n])
  show "list_all (\<lambda>c. among (schar c) digits) (dec n)" "is_text (dec n)" "among (schar (hd (dec n))) inks"
    using dec_digits digit_char hd_in_set [OF ne] by (auto simp: list_all_iff is_text_def)
qed

lemma text_ink: "among (schar c) texts \<Longrightarrow> \<not> is_blank c \<Longrightarrow> among (schar c) inks"
  by (auto simp: is_blank_def among_def head_sets)

lemma dump_fields_ok:
  assumes "response_ok r"
  shows "list_all field_ok (dump_fields r)" "dump_fields r \<noteq> []" "snd (snd (last (dump_fields r))) \<noteq> []"
proof -
  have name: "is_name ''connection''" "is_name ''content-length''" "is_text ''close''" "is_text ''keep-alive''"
    "list_all is_blank '' ''" "among (schar (CHR ''c'')) inks" "among (schar (CHR ''k'')) inks" by code_simp+
  have hd: "dropWhile is_blank v = [] \<or> among (schar (hd (dropWhile is_blank v))) inks" if "is_text v" for v
  proof (cases "dropWhile is_blank v")
    case (Cons c cs)
    then have "c \<in> set v" "\<not> is_blank c" by (metis list.set_intros(1) set_dropWhileD, metis dropWhile_eq_Cons_conv)
    then show ?thesis using Cons that text_ink by (simp add: is_text_def list_all_iff)
  qed simp
  have "field_ok (k, CHR '' '' # takeWhile is_blank v, dropWhile is_blank v)" if "is_name k" "is_text v" for k v
    using that name(5) hd [OF that(2)] by (auto simp: field_ok_def is_text_def list_all_iff dest: set_takeWhileD set_dropWhileD)
  moreover have "list_all (\<lambda>(k, v). is_name k \<and> is_text v) (rs_headers r)" using assms by (simp add: response_ok_def)
  ultimately have "list_all field_ok (map (\<lambda>(k, v). (k, CHR '' '' # takeWhile is_blank v, dropWhile is_blank v))
      (filter (\<lambda>(k, v). strcasecmp k ''connection'' \<noteq> 0) (rs_headers r)))" by (fastforce simp: list_all_iff)
  moreover have "field_ok (''connection'', '' '', if rs_close r then ''close'' else ''keep-alive'')"
    "field_ok (''content-length'', '' '', dec (length (rs_body r)))" using name dec_chars by (simp_all add: field_ok_def)
  ultimately show "list_all field_ok (dump_fields r)" by (simp add: dump_fields_def)
  show "dump_fields r \<noteq> []" "snd (snd (last (dump_fields r))) \<noteq> []" using dec_chars(3) by (auto simp: dump_fields_def)
qed

definition dump_head :: "http_response \<Rightarrow> string" where
  "dump_head r = take (length (dump_response r) - length (rs_body r)) (dump_response r)"

definition read_response :: "bool \<Rightarrow> http_response \<Rightarrow> http_response" where
  "read_response junk r =
     set_fields (dump_fields r) ((HttpResponse junk (rs_version r) True)\<lparr>rs_status := rs_status r, rs_reason := dump_reason r\<rparr>)"

lemma is_text_iff: "is_text v \<longleftrightarrow> CHR 0x0D \<notin> set v \<and> CHR 0x0A \<notin> set v"
proof -
  have "among (schar c) texts \<longleftrightarrow> byte_of c \<noteq> byte_of (CHR 0x0D) \<and> byte_of c \<noteq> byte_of (CHR 0x0A)" for c
    using byte_of_less [of c] by (auto simp: among_def texts_def schar_def Let_def byte_of_def [of "CHR 0x0D"] byte_of_def [of "CHR 0x0A"])
  then show ?thesis by (auto simp: is_text_def list_all_iff byte_of_inj)
qed

lemma reason_texts: "list_all (\<lambda>(code, msg). msg \<noteq> [] \<and> is_text msg) HTTP_STATUS_MAP" "is_text ''<unknown>''"
  by (simp_all add: is_text_iff HTTP_STATUS_MAP_def)

lemma take_front: "xs = ys @ zs \<Longrightarrow> take (length xs - length zs) xs = ys"
  by simp

lemma dump_reason_ok: "response_ok r \<Longrightarrow> dump_reason r \<noteq> [] \<and> is_text (dump_reason r)"
proof -
  have "HttpStatusToString s \<noteq> [] \<and> is_text (HttpStatusToString s)" for s
  proof (cases "filter (\<lambda>(code, msg). code = s) HTTP_STATUS_MAP")
    case (Cons p ps)
    then have "p \<in> set HTTP_STATUS_MAP" by (metis filter_is_subset list.set_intros(1) subsetD)
    then show ?thesis using Cons reason_texts(1) by (auto simp: HttpStatusToString_def list_all_iff)
  qed (use reason_texts(2) in \<open>simp add: HttpStatusToString_def\<close>)
  then show "response_ok r \<Longrightarrow> dump_reason r \<noteq> [] \<and> is_text (dump_reason r)" by (simp add: dump_reason_def response_ok_def)
qed

lemma version_event:
  assumes "data = ''HTTP/1.'' @ x # rest"
  shows "x = CHR ''0'' \<Longrightarrow> version_at data 0 8 = Some 0x10" "x = CHR ''1'' \<Longrightarrow> version_at data 0 8 = Some 0x11"
  by (simp_all add: assms version_at_def eval_nat_numeral c_str_def)

text \<open>The callbacks of a head.\<close>

lemma head_callbacks:
  assumes "response_ok r" "n = 12 + length (dec (nat (rs_status r))) + length (dump_reason r)" "data = dump_head r @ rest"
    "sp_data sp = HttpResponse junk 0x11 True"
  shows "callbacks (on_response data) ([OnRspVersion 0 8, OnStatus 9 (length (dec (nat (rs_status r)))),
      OnReason (10 + length (dec (nat (rs_status r)))) (length (dump_reason r))] @ field_events n (dump_fields r) @ [OnRspHeaderDone a b]) sp =
    Inr (sp\<lparr>sp_data := read_response junk r\<rparr>)"
proof -
  let ?d = "dec (nat (rs_status r))"
  obtain x where x: "rs_version r = 0x10 \<and> x = CHR ''0'' \<or> rs_version r = 0x11 \<and> x = CHR ''1''"
    using assms(1) by (auto simp: response_ok_def)
  have st: "0 \<le> rs_status r" "rs_status r < 2 ^ 31" using assms(1) by (simp_all add: response_ok_def)
  have data: "data = ''HTTP/1.'' @ x # '' '' @ ?d @ '' '' @ dump_reason r @ CRLF @ field_text (dump_fields r) @ CRLF @ rest"
    using assms(3) take_front [OF dump_text [OF x st, folded append_assoc]] by (simp add: dump_head_def)
  have ver: "version_at data 0 8 = Some (rs_version r)" using version_event [OF data] x by auto
  have "drop 9 data = ?d @ CHR '' '' # dump_reason r @ CRLF @ field_text (dump_fields r) @ CRLF @ rest"
    by (simp add: data eval_nat_numeral)
  then have status: "atoi (drop 9 data) = rs_status r" using atoi_dec [of "nat (rs_status r)" "CHR '' ''"] st by (simp add: is_digit_def byte_of_def)
  have reason: "text_at data (10 + length ?d) (length (dump_reason r)) = Inr (dump_reason r)"
    using text_at_mid [of "10 + length ?d" "''HTTP/1.'' @ x # '' '' @ ?d @ '' ''" _ "dump_reason r"] by (simp add: data)
  have "callbacks (on_response data) (field_events n (dump_fields r)) sp' = Inr (sp'\<lparr>sp_data := set_fields (dump_fields r) (sp_data sp')\<rparr>)" for sp'
    by (rule field_callbacks [OF dump_fields_ok(1) [OF assms(1)], of _ "''HTTP/1.'' @ x # '' '' @ ?d @ '' '' @ dump_reason r @ CRLF" "CRLF @ rest"])
      (simp_all add: data assms(2) CRLF_def)
  then show ?thesis
    by (simp add: callbacks_append on_response_version_def on_response_status_def on_response_reason_def ver status reason
        assms(4) read_response_def HttpResponse_def rsp_setVersion_def rsp_setStatus_def rsp_setReason_def)
qed

lemma head_execute:
  assumes "response_ok r" "data = dump_head r @ extra @ CHR 0x00 # tail" "n = length (dump_head r) + length extra"
  shows "\<exists>parser' marks evs. rsp_scan (httpclient_parser_init memory) (dump_head r @ extra) = (120, length (dump_head r), marks, evs) \<and>
    hc_body_start marks \<noteq> 0 \<and> (list_all (plain_name \<circ> fst) (dump_fields r) \<longrightarrow> \<not> hc_chunked marks) \<and>
    sp_execute rsp_scan data n False (newResponseParser memory junk) =
      Inr (length (dump_head r), memmove data (length (dump_head r)) (length extra),
           \<lparr>sp_parser = parser', sp_data = read_response junk r, sp_error = 0\<rparr>) \<and>
    hc_cs parser' = 120 \<and> hc_chunked parser' = hc_chunked marks"
proof -
  let ?d = "dec (nat (rs_status r))"
  define m where "m = 12 + length ?d + length (dump_reason r)"
  obtain x where x: "rs_version r = 0x10 \<and> x = CHR ''0'' \<or> rs_version r = 0x11 \<and> x = CHR ''1''"
    using assms(1) by (auto simp: response_ok_def)
  have st: "0 \<le> rs_status r" "rs_status r < 2 ^ 31" using assms(1) by (simp_all add: response_ok_def)
  have head: "dump_head r = ''HTTP/1.'' @ [x] @ '' '' @ ?d @ '' '' @ dump_reason r @ CRLF @ field_text (dump_fields r) @ CRLF"
    using take_front [OF dump_text [OF x st, folded append_assoc]] by (simp add: dump_head_def)
  let ?q = "m + length (field_text (dump_fields r))"
  have len: "length (dump_head r) = ?q + 2" by (simp add: head m_def CRLF_def)
  have "among (schar x) digits" using x digit_char [of x] by (auto simp: byte_of_def)
  note run = head_run [OF this dec_chars(3,1) dump_reason_ok [OF assms(1), THEN conjunct1] dump_reason_ok [OF assms(1), THEN conjunct2]
      dump_fields_ok [OF assms(1)] m_def, of "httpclient_parser_init memory" "dump_head r @ extra" extra]
  let ?evs = "[OnRspVersion 0 8, OnStatus 9 (length ?d), OnReason (10 + length ?d) (length (dump_reason r))] @
    field_events m (dump_fields r) @ [OnRspHeaderDone (?q + 2) (length (dump_head r @ extra) - ?q - 2)]"
  have init: "(httpclient_parser_init memory)\<lparr>hc_field_start := 0, hc_field_len := 0\<rparr> = httpclient_parser_init memory"
    "hc_cs (httpclient_parser_init memory) = 1" "hc_status (httpclient_parser_init memory) = hc_status memory"
    by (cases memory; simp add: httpclient_parser_init_def httpclient_parser_start_def)+
  have whole: "''HTTP/1.'' @ [x] @ '' '' @ ?d @ '' '' @ dump_reason r @ CRLF @ field_text (dump_fields r) @ CRLF @ extra = dump_head r @ extra"
    by (simp add: head)
  obtain parser' where parser': "rsp_frame (list_all (plain_name \<circ> fst) (dump_fields r)) (httpclient_parser_init memory) ?q (parser'\<lparr>hc_status := hc_status memory\<rparr>)"
    "rsp_scan (httpclient_parser_init memory) (dump_head r @ extra) = (120, ?q + 2, parser'\<lparr>hc_body_start := ?q + 2\<rparr>, ?evs)"
    using run unfolding init whole rsp_scan_def by (auto simp: init)
  have frame: "hc_nread parser' = 0" "hc_mark parser' < ?q" "hc_field_start parser' < ?q" "hc_field_len parser' \<le> ?q"
    "list_all (plain_name \<circ> fst) (dump_fields r) \<longrightarrow> \<not> hc_chunked parser'"
    using parser'(1) by (simp_all add: rsp_frame_def httpclient_parser_init_def)
  have settle: "httpclient_parser_settle n 120 (?q + 2) (parser'\<lparr>hc_body_start := ?q + 2\<rparr>) =
      Inr (int (?q + 3), parser'\<lparr>hc_body_start := ?q + 2, hc_cs := 120, hc_nread := ?q + 3\<rparr>)"
    using frame assms(3) len by (simp add: httpclient_parser_settle_def Let_def)
  have data: "take n data = dump_head r @ extra" "n < length data" "data ! n = CHR 0x00"
    using assms(2,3) by (simp_all add: nth_append)
  have cb: "callbacks (on_response data) ?evs (newResponseParser memory junk) =
      Inr ((newResponseParser memory junk)\<lparr>sp_data := read_response junk r\<rparr>)"
    by (rule head_callbacks [OF assms(1) m_def assms(2)]) (simp add: newResponseParser_def)
  have "sp_execute rsp_scan data n False (newResponseParser memory junk) =
      Inr (?q + 2, memmove data (?q + 2) (n - (?q + 2)), ((newResponseParser memory junk)\<lparr>sp_data := read_response junk r\<rparr>)
        \<lparr>sp_parser := parser'\<lparr>hc_body_start := ?q + 2, hc_cs := 120, hc_nread := ?q + 3\<rparr>\<rparr>)"
    unfolding sp_execute_def httpclient_parser_execute_def using data parser'(2) cb settle
    by (simp add: newResponseParser_def Let_def nat_add_distrib)
  then show ?thesis using len assms(3) parser'(2) frame(5) by (simp add: newResponseParser_def)
qed

lemma dump_head_split:
  assumes "response_ok r"
  shows "dump_response r = dump_head r @ rs_body r"
proof -
  obtain x where "rs_version r = 0x10 \<and> x = CHR ''0'' \<or> rs_version r = 0x11 \<and> x = CHR ''1''"
    using assms by (auto simp: response_ok_def)
  then obtain hd where "dump_response r = hd @ rs_body r"
    using dump_text [of r x] assms that unfolding append_assoc [symmetric] by (simp only: response_ok_def)
  then show ?thesis by (simp add: dump_head_def)
qed

text \<open>The headers that are found afterwards.\<close>

lemma set_fields_other: "rs_headers (set_fields fs r) = foldl (\<lambda>m (k, w, v). map_assign CaseInsensitiveLess k v m) (rs_headers r) fs"
  "rs_version (set_fields fs r) = rs_version r" "rs_status (set_fields fs r) = rs_status r" "rs_reason (set_fields fs r) = rs_reason r"
  "rs_body (set_fields fs r) = rs_body r"
proof -
  have "set_fields fs r = r\<lparr>rs_headers := foldl (\<lambda>m (k, w, v). map_assign CaseInsensitiveLess k v m) (rs_headers r) fs\<rparr>"
    by (induction fs arbitrary: r) (auto simp: set_fields_def rsp_setHeader_def)
  then show "rs_headers (set_fields fs r) = foldl (\<lambda>m (k, w, v). map_assign CaseInsensitiveLess k v m) (rs_headers r) fs"
    "rs_version (set_fields fs r) = rs_version r" "rs_status (set_fields fs r) = rs_status r" "rs_reason (set_fields fs r) = rs_reason r"
    "rs_body (set_fields fs r) = rs_body r"
    by simp_all
qed

lemma assigns_find:
  assumes "ci_sorted m0"
  shows "ci_sorted (foldl (\<lambda>m (k, w, v). map_assign CaseInsensitiveLess k v m) m0 fs) \<and>
    map_find CaseInsensitiveLess q (foldl (\<lambda>m (k, w, v). map_assign CaseInsensitiveLess k v m) m0 fs) =
      (case filter (\<lambda>(k, w, v). strcasecmp k q = 0) (rev fs) of [] \<Rightarrow> map_find CaseInsensitiveLess q m0 | (k, w, v) # _ \<Rightarrow> Some v)"
  using assms by (induction fs rule: rev_induct) (auto simp: ci_find_assign)

lemma find_filter:
  "ci_sorted m \<Longrightarrow> \<exists>k. filter (\<lambda>(k, v). strcasecmp k q = 0) m = (case map_find CaseInsensitiveLess q m of None \<Rightarrow> [] | Some v \<Rightarrow> [(k, v)])"
proof (induction m)
  case (Cons a m)
  obtain k v where a: "a = (k, v)" by (cases a)
  have later: "CaseInsensitiveLess k k'" if "(k', v') \<in> set m" for k' v' using Cons.prems that a by (auto simp: ci_sorted_def)
  consider "CaseInsensitiveLess k q" | "\<not> CaseInsensitiveLess k q" "CaseInsensitiveLess q k" | "strcasecmp k q = 0"
    using ci_eqI [of k q] by blast
  then show ?case
  proof cases
    case 1
    then have "strcasecmp k q \<noteq> 0" by (simp add: CaseInsensitiveLess_def)
    then show ?thesis using Cons a 1 by (simp add: ci_sorted_def)
  next
    case 2
    then have "strcasecmp k q \<noteq> 0" "filter (\<lambda>(k, v). strcasecmp k q = 0) m = []"
      using later by (fastforce simp: filter_empty_conv CaseInsensitiveLess_def strcasecmp_less strcasecmp_eq)+
    then show ?thesis using a 2 by simp
  next
    case 3
    then have "filter (\<lambda>(k, v). strcasecmp k q = 0) m = []" "\<not> CaseInsensitiveLess k q" "\<not> CaseInsensitiveLess q k"
      using later ci_eqI [of k q] by (fastforce simp: filter_empty_conv CaseInsensitiveLess_def strcasecmp_less strcasecmp_eq)+
    then show ?thesis using a 3 by simp
  qed
qed simp

lemma dump_fields_plain:
  assumes "ci_sorted (rs_headers r)" "map_find CaseInsensitiveLess ''transfer-encoding'' (rs_headers r) = None"
  shows "list_all (plain_name \<circ> fst) (dump_fields r)"
proof -
  have "plain_name ''connection''" "plain_name ''content-length''" unfolding plain_name_def te_name_def by code_simp+
  moreover have "filter (\<lambda>(k, v). strcasecmp k te_name = 0) (rs_headers r) = []"
    using find_filter [OF assms(1), of te_name] assms(2) by (simp add: te_name_def)
  then have "list_all (\<lambda>(k, v). plain_name k) (rs_headers r)" by (auto simp: filter_empty_conv plain_name_def list_all_iff)
  ultimately show ?thesis by (auto simp: dump_fields_def list_all_iff)
qed

lemma dump_fields_find:
  assumes "ci_sorted (rs_headers r)" "strcasecmp q ''connection'' \<noteq> 0" "rs_body r = [] \<or> strcasecmp q ''content-length'' \<noteq> 0"
  shows "map_find CaseInsensitiveLess q (rs_headers (read_response junk r)) = map_option (dropWhile is_blank) (map_find CaseInsensitiveLess q (rs_headers r))"
proof -
  have "filter (\<lambda>(k, v). strcasecmp k q = 0) (filter (\<lambda>(k, v). strcasecmp k ''connection'' \<noteq> 0) (rs_headers r)) =
      filter (\<lambda>(k, v). strcasecmp k q = 0) (rs_headers r)"
    using assms(2) by (auto simp: strcasecmp_eq intro!: filter_cong)
  moreover have "strcasecmp ''connection'' q \<noteq> 0" "rs_body r = [] \<or> strcasecmp ''content-length'' q \<noteq> 0"
    using assms(2,3) by (auto simp: strcasecmp_eq)
  ultimately have "filter (\<lambda>(k, w, v). strcasecmp k q = 0) (rev (dump_fields r)) =
      rev (map (\<lambda>(k, v). (k, CHR '' '' # takeWhile is_blank v, dropWhile is_blank v)) (filter (\<lambda>(k, v). strcasecmp k q = 0) (rs_headers r)))"
    by (auto simp: dump_fields_def rev_map [symmetric] filter_map o_def case_prod_unfold rev_filter [symmetric])
  moreover obtain k where "filter (\<lambda>(k, v). strcasecmp k q = 0) (rs_headers r) =
      (case map_find CaseInsensitiveLess q (rs_headers r) of None \<Rightarrow> [] | Some v \<Rightarrow> [(k, v)])" using find_filter [OF assms(1)] by blast
  ultimately show ?thesis using assigns_find [of "[]" "dump_fields r" q]
    by (simp add: read_response_def set_fields_other HttpResponse_def split: option.splits)
qed

lemma dump_fields_own:
  "map_find CaseInsensitiveLess ''connection'' (rs_headers (read_response junk r)) = Some (if rs_close r then ''close'' else ''keep-alive'')"
  "rs_body r \<noteq> [] \<Longrightarrow> map_find CaseInsensitiveLess ''content-length'' (rs_headers (read_response junk r)) = Some (dec (length (rs_body r)))"
proof -
  have eq: "strcasecmp ''connection'' ''connection'' = 0" "strcasecmp ''content-length'' ''content-length'' = 0"
    "strcasecmp ''content-length'' ''connection'' \<noteq> 0" by code_simp+
  then show "map_find CaseInsensitiveLess ''connection'' (rs_headers (read_response junk r)) = Some (if rs_close r then ''close'' else ''keep-alive'')"
    "rs_body r \<noteq> [] \<Longrightarrow> map_find CaseInsensitiveLess ''content-length'' (rs_headers (read_response junk r)) = Some (dec (length (rs_body r)))"
    using assigns_find [of "[]" "dump_fields r"]
    by (simp_all add: read_response_def set_fields_other HttpResponse_def dump_fields_def del: rev_map)
qed

text \<open>
  A response of version 1.0 or 1.1 that the server writes with \<^verbatim>\<open>operator<<\<close>, received in one piece, is read back by
  \<^verbatim>\<open>HttpResponseParser::execute\<close> with the scanner: the parser is finished without an error, takes the head and leaves the
  body at the front of the buffer.  Version, status, reason and every header are those of the response, blanks in front
  of a value apart; connection and, for a body, content-length are those the writer added.
\<close>

theorem response_roundtrip:
  assumes "response_ok r" "ci_sorted (rs_headers r)"
  shows "\<exists>data' sp. sp_execute rsp_scan (dump_response r @ CHR 0x00 # tail) (length (dump_response r)) False (newResponseParser memory junk) =
      Inr (length (dump_response r) - length (rs_body r), data', sp) \<and>
    take (length (rs_body r)) data' = rs_body r \<and> sp_isFinished sp = 1 \<and> \<not> sp_hasError sp \<and>
    rs_version (sp_data sp) = rs_version r \<and> rs_status (sp_data sp) = rs_status r \<and> rs_reason (sp_data sp) = dump_reason r \<and>
    (\<forall>q. strcasecmp q ''connection'' \<noteq> 0 \<and> (rs_body r = [] \<or> strcasecmp q ''content-length'' \<noteq> 0) \<longrightarrow>
       map_find CaseInsensitiveLess q (rs_headers (sp_data sp)) = map_option (dropWhile is_blank) (map_find CaseInsensitiveLess q (rs_headers r))) \<and>
    rsp_getHeader (sp_data sp) ''connection'' [] = (if rs_close r then ''close'' else ''keep-alive'') \<and>
    (rs_body r \<noteq> [] \<longrightarrow> rsp_getHeader (sp_data sp) ''content-length'' [] = dec (length (rs_body r)))"
proof -
  have split: "dump_response r = dump_head r @ rs_body r" by (rule dump_head_split [OF assms(1)])
  let ?data = "dump_response r @ CHR 0x00 # tail" and ?n = "length (dump_head r)"
  obtain parser' where e: "sp_execute rsp_scan ?data (length (dump_response r)) False (newResponseParser memory junk) =
      Inr (?n, memmove ?data ?n (length (rs_body r)), \<lparr>sp_parser = parser', sp_data = read_response junk r, sp_error = 0\<rparr>)" "hc_cs parser' = 120"
    using head_execute [OF assms(1), of ?data "rs_body r" tail "length (dump_response r)" memory junk] split by auto
  have "take (length (rs_body r)) (memmove ?data ?n (length (rs_body r))) = rs_body r"
    using memmove_left [of "length (dump_response r)" ?data ?n] by (simp add: split)
  moreover have "rs_version (read_response junk r) = rs_version r" "rs_status (read_response junk r) = rs_status r"
    "rs_reason (read_response junk r) = dump_reason r" by (simp_all add: read_response_def set_fields_other HttpResponse_def)
  moreover have "httpclient_parser_finish parser' = 1" "\<not> httpclient_parser_has_error parser'"
    using e(2) by (simp_all add: httpclient_parser_finish_def httpclient_parser_has_error_def httpclient_parser_is_finished_def
        httpclient_parser_error_def httpclient_parser_first_final_def)
  ultimately show ?thesis
    using e(1) dump_fields_find [OF assms(2)] dump_fields_own split
    by (auto simp: sp_isFinished_def sp_hasError_def rsp_getHeader_def map_get_def)
qed

definition demoRsp :: http_response where
  "demoRsp = (HttpResponse False 0x11 True)\<lparr>rs_status := 404, rs_headers := [(''Content-Type'', ''text/html''), (''Server'', ''saturn'')], rs_body := ''gone''\<rparr>"

theorem response_roundtrip_witness:
  "\<exists>k data' sp. sp_execute rsp_scan (dump_response demoRsp @ [CHR 0x00]) (length (dump_response demoRsp)) False (newResponseParser demoClient False) =
     Inr (k, data', sp) \<and> take 4 data' = ''gone'' \<and> rs_status (sp_data sp) = 404 \<and> rsp_getHeader (sp_data sp) ''server'' [] = ''saturn''"
proof -
  have ok: "response_ok demoRsp" "ci_sorted (rs_headers demoRsp)" by code_simp+
  have "strcasecmp ''server'' ''connection'' \<noteq> 0" "strcasecmp ''server'' ''content-length'' \<noteq> 0" by code_simp+
  moreover have "map_find CaseInsensitiveLess ''server'' (rs_headers demoRsp) = Some ''saturn''" "dropWhile is_blank ''saturn'' = ''saturn''" by code_simp+
  moreover have b: "rs_body demoRsp = ''gone''" "rs_status demoRsp = 404" "length ''gone'' = 4" by (simp_all add: demoRsp_def)
  moreover obtain data' sp where "sp_execute rsp_scan (dump_response demoRsp @ CHR 0x00 # []) (length (dump_response demoRsp)) False (newResponseParser demoClient False) =
      Inr (length (dump_response demoRsp) - length (rs_body demoRsp), data', sp)" "take (length (rs_body demoRsp)) data' = rs_body demoRsp"
    "rs_status (sp_data sp) = rs_status demoRsp" "strcasecmp ''server'' ''connection'' \<noteq> 0 \<and> (rs_body demoRsp = [] \<or> strcasecmp ''server'' ''content-length'' \<noteq> 0) \<longrightarrow>
       map_find CaseInsensitiveLess ''server'' (rs_headers (sp_data sp)) = map_option (dropWhile is_blank) (map_find CaseInsensitiveLess ''server'' (rs_headers demoRsp))"
    using response_roundtrip [OF ok, of "[]" demoClient False] by metis
  ultimately show ?thesis by (intro exI [of _ "length (dump_response demoRsp) - length (rs_body demoRsp)"] exI [of _ data'] exI [of _ sp])
      (simp add: rsp_getHeader_def map_get_def numeral_eq_Suc)
qed

end
