(* ===== verification/ReqScanner.thy ===== *)
theory ReqScanner
  imports RspScanner
begin

text \<open>
  The scanner of HTTP requests: the code that Ragel generated into \<^verbatim>\<open>http_parser_execute\<close>
  (\<^verbatim>\<open>external/mongrel2/http/http11_parser.cc\<close>), its actions as a datatype and its 349 states as tables, in the order of the
  file.  It is the \<open>run\<close> of \<open>HttpParser\<close>.  At the end, what it makes of the requests that \<open>dump_request\<close> writes.

  Some blocks compare \<^verbatim>\<open>_widec\<close>, the character with an offset that depends on \<^verbatim>\<open>parser->uri_relaxed\<close> for three characters;
  no code of the program sets that field, so that its value is the parameter \<open>relaxed\<close>.
\<close>

section \<open>Text with percent signs\<close>

text \<open>The first character may have a block and actions of its own.\<close>

context scanner_table
begin

lemma pct_tail: "pct_text cs (c # ys) \<Longrightarrow> c \<noteq> CHR ''%'' \<Longrightarrow> pct_text cs ys"
  by (cases "(cs, c # ys)" rule: pct_text.cases) auto

lemma scan_pct_in:
  assumes "leads T n [(s, s)] cs (\<lambda>t acts. t = s \<and> acts = [])" "leads T n [(s, s)] [(37, 37)] (\<lambda>t acts. t = u \<and> acts = [])"
    "leads T n [(u, u)] xdigits (\<lambda>t acts. t = v \<and> acts = [])" "leads T n [(v, v)] xdigits (\<lambda>t acts. t = s \<and> acts = [])"
    "leads T n [(s0, s0)] cs0 (\<lambda>t acts. t = s \<and> acts = as)" "leads T n [(s0, s0)] [(37, 37)] (\<lambda>t acts. t = u \<and> acts = as)"
    "pct_text cs xs" "xs \<noteq> []" "hd xs = CHR ''%'' \<or> among (schar (hd xs)) cs0" "\<not> list_ex stop as"
  shows "scan T vl act stop s0 p (xs @ rest) st = scan T vl act stop s (p + length xs) rest (fold (\<lambda>a. act a p) as st)"
proof -
  obtain c ys where xs: "xs = c # ys" using assms(8) by (cases xs) auto
  show ?thesis
  proof (cases "c = CHR ''%''")
    case True
    then obtain d e zs where ys: "ys = d # e # zs" "among (schar d) xdigits" "among (schar e) xdigits" "pct_text cs zs"
      using assms(7) xs by (cases "(cs, xs)" rule: pct_text.cases) auto
    have "among (schar (CHR ''%'')) [(37, 37)]" by code_simp
    then show ?thesis
      by (simp add: xs ys(1) True scan_pct [OF assms(1-4) ys(4)] scan_one [OF assms(6) _ assms(10)] scan_one [OF assms(3) ys(2)] scan_one [OF assms(4) ys(3)])
  next
    case False
    then have ys: "pct_text cs ys" "among (schar c) cs0"
      using pct_tail [of cs c ys] assms(7,9) unfolding xs by (blast, simp)
    show ?thesis by (simp add: xs scan_pct [OF assms(1-4) ys(1)] scan_one [OF assms(5) ys(2) assms(10)])
  qed
qed

end

section \<open>Actions\<close>

datatype req_action =
    Qmark | Qstart_field | Qwrite_field | Qstart_value | Qwrite_value | Qrequest_method | Qrequest_uri | Qfragment
  | Qstart_query | Qquery_string | Qhttp_version | Qrequest_path | Qdone | Qxml | Qjson

fun req_act :: "string \<Rightarrow> req_action \<Rightarrow> nat \<Rightarrow> http_parser \<times> req_event list \<Rightarrow> http_parser \<times> req_event list" where
  "req_act text Qmark p (parser, evs) = (parser\<lparr>hp_mark := p\<rparr>, evs)"
| "req_act text Qstart_field p (parser, evs) = (parser\<lparr>hp_field_start := p\<rparr>, evs)"
| "req_act text Qwrite_field p (parser, evs) = (parser\<lparr>hp_field_len := sub64 p (hp_field_start parser)\<rparr>, evs)"
| "req_act text Qstart_value p (parser, evs) = (parser\<lparr>hp_mark := p\<rparr>, evs)"
| "req_act text Qwrite_value p (parser, evs) =
     (parser, evs @ [OnField (hp_field_start parser) (hp_field_len parser) (hp_mark parser) (sub64 p (hp_mark parser))])"
| "req_act text Qrequest_method p (parser, evs) = (parser, evs @ [OnMethod (hp_mark parser) (sub64 p (hp_mark parser))])"
| "req_act text Qrequest_uri p (parser, evs) = (parser, evs @ [OnUri (hp_mark parser) (sub64 p (hp_mark parser))])"
| "req_act text Qfragment p (parser, evs) = (parser, evs @ [OnFragment (hp_mark parser) (sub64 p (hp_mark parser))])"
| "req_act text Qstart_query p (parser, evs) = (parser\<lparr>hp_query_start := p\<rparr>, evs)"
| "req_act text Qquery_string p (parser, evs) = (parser, evs @ [OnQuery (hp_query_start parser) (sub64 p (hp_query_start parser))])"
| "req_act text Qhttp_version p (parser, evs) = (parser, evs @ [OnVersion (hp_mark parser) (sub64 p (hp_mark parser))])"
| "req_act text Qrequest_path p (parser, evs) = (parser, evs @ [OnPath (hp_mark parser) (sub64 p (hp_mark parser))])"
| "req_act text Qdone p (parser, evs) =
     (if hp_xml_sent parser \<or> hp_json_sent parser
      then (parser\<lparr>hp_body_start := hp_mark parser, hp_content_len := to_int32 (int (sub64 p (hp_mark parser)) + 1)\<rparr>, evs)
      else (parser\<lparr>hp_body_start := p + 1\<rparr>, evs @ [OnHeaderDone (p + 1) (length text - p - 1)]))"
| "req_act text Qxml p (parser, evs) = (parser\<lparr>hp_xml_sent := True\<rparr>, evs)"
| "req_act text Qjson p (parser, evs) = (parser\<lparr>hp_json_sent := True\<rparr>, evs)"

text \<open>The code of the condition: 256 is added when it is evaluated and again when it holds.\<close>

definition widec :: "bool \<Rightarrow> bool \<Rightarrow> char \<Rightarrow> int" where
  "widec relaxed wide c =
     (let v = schar c in if wide \<and> among v wides then v + 256 + (if relaxed then 256 else 0) else v)"

section \<open>States\<close>

definition segment_chars :: chars where
  "segment_chars = [(33, 33), (36, 59), (61, 61), (65, 90), (95, 95), (97, 122), (126, 126), (606, 606), (635, 635), (637, 637)]"
definition path_chars :: chars where
  "path_chars = [(33, 33), (36, 59), (61, 61), (64, 90), (95, 95), (97, 122), (126, 126), (606, 606), (635, 635), (637, 637)]"
definition query_chars :: chars where
  "query_chars = [(33, 33), (36, 59), (61, 61), (63, 90), (95, 95), (97, 122), (126, 126), (606, 606), (635, 635), (637, 637)]"

definition req_states_1 :: "req_action states" where
  "req_states_1 =
    [(1, False, [([(60, 60)], 194, [Qmark]), ([(64, 64)], 198, [Qmark]), ([(48, 57), (65, 90)], 2, [Qmark])]),
     (2, False, [([(32, 32)], 3, [Qrequest_method]), ([(48, 57), (65, 90)], 175, [])]),
     (3, True, [([(32, 32)], 4, [Qmark, Qrequest_path, Qrequest_uri]), ([(35, 35)], 20, [Qmark, Qrequest_path, Qrequest_uri]),
          ([(37, 37)], 24, [Qmark]), ([(47, 47)], 33, [Qmark]), ([(63, 63)], 29, [Qmark, Qrequest_path]),
          ([(33, 33), (36, 57), (59, 59), (61, 61), (64, 64), (95, 95), (126, 126), (606, 606), (635, 635), (637, 637)], 19, [Qmark]),
          ([(65, 90), (97, 122)], 173, [Qmark])])]"

definition req_states_2 :: "req_action states" where
  "req_states_2 =
    [(4, False, [([(72, 72)], 5, [Qmark])]),
     (5, False, [([(84, 84)], 6, [])]),
     (6, False, [([(84, 84)], 7, [])]),
     (7, False, [([(80, 80)], 8, [])]),
     (8, False, [([(47, 47)], 9, [])]),
     (9, False, [([(49, 49)], 10, [])]),
     (10, False, [([(46, 46)], 11, [])]),
     (11, False, [([(48, 49)], 12, [])]),
     (12, False, [([(10, 10)], 13, [Qhttp_version]), ([(13, 13)], 17, [Qhttp_version])])]"

definition req_states_3 :: "req_action states" where
  "req_states_3 =
    [(13, False, [([(10, 10)], 348, [Qstart_field, Qdone]), ([(13, 13)], 18, [Qstart_field]),
          ([(1, 8), (11, 31), (33, 33), (35, 39), (42, 43), (45, 46), (48, 57), (65, 90), (94, 122), (124, 124), (126, 126)], 14, [Qstart_field])]),
     (14, False, [([(58, 58)], 15, [Qwrite_field]),
          ([(1, 8), (10, 31), (33, 33), (35, 39), (42, 43), (45, 46), (48, 57), (65, 90), (94, 122), (124, 124), (126, 126)], 14, [])]),
     (15, False, [([(10, 10)], 13, [Qstart_value, Qwrite_value]), ([(13, 13)], 17, [Qstart_value, Qwrite_value]),
          ([(9, 9), (32, 32)], 15, [Qstart_value]), ([(- 128, - 1), (1, 126)], 16, [Qstart_value])]),
     (16, False, [([(10, 10)], 13, [Qwrite_value]), ([(13, 13)], 17, [Qwrite_value]), ([(- 128, - 1), (1, 126)], 16, [])])]"

definition req_states_4 :: "req_action states" where
  "req_states_4 =
    [(17, False, [([(10, 10)], 13, [])]),
     (348, False, [([(58, 58)], 15, [Qwrite_field]),
          ([(1, 8), (10, 31), (33, 33), (35, 39), (42, 43), (45, 46), (48, 57), (65, 90), (94, 122), (124, 124), (126, 126)], 14, [])]),
     (18, False, [([(10, 10)], 348, [Qdone]), ([(58, 58)], 15, [Qwrite_field]),
          ([(1, 8), (11, 31), (33, 33), (35, 39), (42, 43), (45, 46), (48, 57), (65, 90), (94, 122), (124, 124), (126, 126)], 14, [])])]"

definition req_states_5 :: "req_action states" where
  "req_states_5 =
    [(19, True, [([(32, 32)], 4, [Qrequest_path, Qrequest_uri]), ([(35, 35)], 20, [Qrequest_path, Qrequest_uri]),
          ([(37, 37)], 24, []), ([(47, 47)], 26, []), ([(63, 63)], 29, [Qrequest_path]),
          ([(33, 33), (36, 57), (59, 59), (61, 61), (64, 90), (95, 95), (97, 122), (126, 126), (606, 606), (635, 635), (637, 637)], 19, [])])]"

definition req_states_6 :: "req_action states" where
  "req_states_6 =
    [(20, True, [([(32, 32)], 4, [Qmark, Qfragment]), ([(37, 37)], 22, [Qmark]), (query_chars, 21, [Qmark])]),
     (21, True, [([(32, 32)], 4, [Qfragment]), ([(37, 37)], 22, []), (query_chars, 21, [])])]"

definition req_states_7 :: "req_action states" where
  "req_states_7 =
    [(22, False, [(xdigits, 23, [])]),
     (23, False, [(xdigits, 21, [])]),
     (24, False, [(xdigits, 25, [])]),
     (25, False, [(xdigits, 19, [])]),
     (26, True, [([(32, 32)], 4, [Qrequest_path, Qrequest_uri]), ([(35, 35)], 20, [Qrequest_path, Qrequest_uri]),
          ([(37, 37)], 27, []), ([(63, 63)], 29, [Qrequest_path]), (path_chars, 26, [])]),
     (27, False, [(xdigits, 28, [])]),
     (28, False, [(xdigits, 26, [])])]"

definition req_states_8 :: "req_action states" where
  "req_states_8 =
    [(29, True, [([(32, 32)], 4, [Qstart_query, Qquery_string, Qrequest_uri]),
          ([(35, 35)], 20, [Qstart_query, Qquery_string, Qrequest_uri]), ([(37, 37)], 31, [Qstart_query]),
          (query_chars, 30, [Qstart_query])]),
     (30, True, [([(32, 32)], 4, [Qquery_string, Qrequest_uri]), ([(35, 35)], 20, [Qquery_string, Qrequest_uri]),
          ([(37, 37)], 31, []), (query_chars, 30, [])]),
     (31, False, [(xdigits, 32, [])]),
     (32, False, [(xdigits, 30, [])])]"

definition req_states_9 :: "req_action states" where
  "req_states_9 =
    [(33, True, [([(32, 32)], 4, [Qrequest_path, Qrequest_uri]), ([(35, 35)], 20, [Qrequest_path, Qrequest_uri]),
          ([(37, 37)], 27, []), ([(47, 47)], 34, []), ([(63, 63)], 29, [Qrequest_path]), (path_chars, 26, [])]),
     (34, True, [([(32, 32)], 4, [Qrequest_path, Qrequest_uri]), ([(35, 35)], 20, [Qrequest_path, Qrequest_uri]),
          ([(37, 37)], 36, []), ([(47, 47)], 26, []), ([(58, 58)], 38, []), ([(63, 63)], 29, [Qrequest_path]), ([(64, 64)], 42, []),
          ([(91, 91)], 47, []), (segment_chars, 35, [])])]"

definition req_states_10 :: "req_action states" where
  "req_states_10 =
    [(35, True, [([(32, 32)], 4, [Qrequest_path, Qrequest_uri]), ([(35, 35)], 20, [Qrequest_path, Qrequest_uri]),
          ([(37, 37)], 36, []), ([(47, 47)], 26, []), ([(58, 58)], 38, []), ([(63, 63)], 29, [Qrequest_path]), ([(64, 64)], 42, []),
          (segment_chars, 35, [])]),
     (36, False, [(xdigits, 37, [])]),
     (37, False, [(xdigits, 35, [])]),
     (38, True, [([(32, 32)], 4, [Qrequest_path, Qrequest_uri]), ([(35, 35)], 20, [Qrequest_path, Qrequest_uri]),
          ([(37, 37)], 40, []), ([(47, 47)], 26, []), ([(63, 63)], 29, [Qrequest_path]), ([(64, 64)], 42, []), ([(48, 57)], 38, []),
          (segment_chars, 39, [])])]"

definition req_states_11 :: "req_action states" where
  "req_states_11 =
    [(39, True, [([(37, 37)], 40, []), ([(64, 64)], 42, []),
          ([(33, 33), (36, 46), (48, 59), (61, 61), (65, 90), (95, 95), (97, 122), (126, 126), (606, 606), (635, 635), (637, 637)], 39, [])]),
     (40, False, [(xdigits, 41, [])]),
     (41, False, [(xdigits, 39, [])]),
     (42, True, [([(32, 32)], 4, [Qrequest_path, Qrequest_uri]), ([(35, 35)], 20, [Qrequest_path, Qrequest_uri]),
          ([(37, 37)], 44, []), ([(47, 47)], 26, []), ([(58, 58)], 46, []), ([(63, 63)], 29, [Qrequest_path]), ([(91, 91)], 47, []),
          (segment_chars, 43, [])])]"

definition req_states_12 :: "req_action states" where
  "req_states_12 =
    [(43, True, [([(32, 32)], 4, [Qrequest_path, Qrequest_uri]), ([(35, 35)], 20, [Qrequest_path, Qrequest_uri]),
          ([(37, 37)], 44, []), ([(47, 47)], 26, []), ([(58, 58)], 46, []), ([(63, 63)], 29, [Qrequest_path]), (segment_chars, 43, [])]),
     (44, False, [(xdigits, 45, [])]),
     (45, False, [(xdigits, 43, [])]),
     (46, False, [([(32, 32)], 4, [Qrequest_path, Qrequest_uri]), ([(35, 35)], 20, [Qrequest_path, Qrequest_uri]),
          ([(47, 47)], 26, []), ([(63, 63)], 29, [Qrequest_path]), ([(48, 57)], 46, [])]),
     (47, False, [([(6, 6)], 48, []), ([(58, 58)], 167, []), ([(118, 118)], 169, []), (xdigits, 91, [])]),
     (48, False, [(xdigits, 49, [])]),
     (49, False, [([(58, 58)], 53, []), (xdigits, 50, [])]),
     (50, False, [([(58, 58)], 53, []), (xdigits, 51, [])])]"

definition req_states_13 :: "req_action states" where
  "req_states_13 =
    [(51, False, [([(58, 58)], 53, []), (xdigits, 52, [])]),
     (52, False, [([(58, 58)], 53, [])]),
     (53, False, [([(49, 49)], 84, []), ([(50, 50)], 87, []), (digits, 54, []), (xdigits, 90, [])]),
     (54, False, [([(46, 46)], 55, []), ([(58, 58)], 80, []), (xdigits, 77, [])]),
     (55, False, [([(49, 49)], 72, []), ([(50, 50)], 74, []), (digits, 56, [])]),
     (56, False, [([(46, 46)], 57, [])]),
     (57, False, [([(49, 49)], 67, []), ([(50, 50)], 69, []), (digits, 58, [])]),
     (58, False, [([(46, 46)], 59, [])]),
     (59, False, [([(49, 49)], 62, []), ([(50, 50)], 64, []), (digits, 60, [])]),
     (60, False, [([(93, 93)], 61, [])]),
     (61, False, [([(32, 32)], 4, [Qrequest_path, Qrequest_uri]), ([(35, 35)], 20, [Qrequest_path, Qrequest_uri]),
          ([(47, 47)], 26, []), ([(58, 58)], 46, []), ([(63, 63)], 29, [Qrequest_path])]),
     (62, False, [([(93, 93)], 61, []), ([(48, 57)], 63, [])]),
     (63, False, [([(93, 93)], 61, []), ([(48, 57)], 60, [])]),
     (64, False, [([(48, 48)], 65, []), ([(53, 53)], 66, []), ([(93, 93)], 61, [])])]"

definition req_states_14 :: "req_action states" where
  "req_states_14 =
    [(65, False, [([(48, 57)], 60, [])]),
     (66, False, [([(48, 48)], 60, [])]),
     (67, False, [([(46, 46)], 59, []), ([(48, 57)], 68, [])]),
     (68, False, [([(46, 46)], 59, []), ([(48, 57)], 58, [])]),
     (69, False, [([(46, 46)], 59, []), ([(48, 48)], 70, []), ([(53, 53)], 71, [])]),
     (70, False, [([(48, 57)], 58, [])]),
     (71, False, [([(48, 48)], 58, [])]),
     (72, False, [([(46, 46)], 57, []), ([(48, 57)], 73, [])]),
     (73, False, [([(46, 46)], 57, []), ([(48, 57)], 56, [])]),
     (74, False, [([(46, 46)], 57, []), ([(48, 48)], 75, []), ([(53, 53)], 76, [])]),
     (75, False, [([(48, 57)], 56, [])]),
     (76, False, [([(48, 48)], 56, [])]),
     (77, False, [([(58, 58)], 80, []), (xdigits, 78, [])]),
     (78, False, [([(58, 58)], 80, []), (xdigits, 79, [])]),
     (79, False, [([(58, 58)], 80, [])]),
     (80, False, [(xdigits, 81, [])])]"

definition req_states_15 :: "req_action states" where
  "req_states_15 =
    [(81, False, [([(93, 93)], 61, []), (xdigits, 82, [])]),
     (82, False, [([(93, 93)], 61, []), (xdigits, 83, [])]),
     (83, False, [([(93, 93)], 61, []), (xdigits, 60, [])]),
     (84, False, [([(46, 46)], 55, []), ([(58, 58)], 80, []), ([(48, 57)], 85, []), (xdigits, 77, [])]),
     (85, False, [([(46, 46)], 55, []), ([(58, 58)], 80, []), ([(48, 57)], 86, []), (xdigits, 78, [])]),
     (86, False, [([(46, 46)], 55, []), ([(58, 58)], 80, []), (xdigits, 79, [])]),
     (87, False, [([(46, 46)], 55, []), ([(48, 48)], 88, []), ([(53, 53)], 89, []), ([(58, 58)], 80, []), (xdigits, 77, [])]),
     (88, False, [([(58, 58)], 80, []), ([(48, 57)], 86, []), (xdigits, 78, [])]),
     (89, False, [([(48, 48)], 86, []), ([(58, 58)], 80, []), (xdigits, 78, [])])]"

definition req_states_16 :: "req_action states" where
  "req_states_16 =
    [(90, False, [([(58, 58)], 80, []), (xdigits, 77, [])]),
     (91, False, [([(58, 58)], 95, []), (xdigits, 92, [])]),
     (92, False, [([(58, 58)], 95, []), (xdigits, 93, [])]),
     (93, False, [([(58, 58)], 95, []), (xdigits, 94, [])]),
     (94, False, [([(58, 58)], 95, [])]),
     (95, False, [([(58, 58)], 166, []), (xdigits, 96, [])]),
     (96, False, [([(58, 58)], 100, []), (xdigits, 97, [])]),
     (97, False, [([(58, 58)], 100, []), (xdigits, 98, [])]),
     (98, False, [([(58, 58)], 100, []), (xdigits, 99, [])]),
     (99, False, [([(58, 58)], 100, [])]),
     (100, False, [([(58, 58)], 165, []), (xdigits, 101, [])])]"

definition req_states_17 :: "req_action states" where
  "req_states_17 =
    [(101, False, [([(58, 58)], 105, []), (xdigits, 102, [])]),
     (102, False, [([(58, 58)], 105, []), (xdigits, 103, [])]),
     (103, False, [([(58, 58)], 105, []), (xdigits, 104, [])]),
     (104, False, [([(58, 58)], 105, [])]),
     (105, False, [([(58, 58)], 164, []), (xdigits, 106, [])]),
     (106, False, [([(58, 58)], 110, []), (xdigits, 107, [])]),
     (107, False, [([(58, 58)], 110, []), (xdigits, 108, [])]),
     (108, False, [([(58, 58)], 110, []), (xdigits, 109, [])]),
     (109, False, [([(58, 58)], 110, [])]),
     (110, False, [([(58, 58)], 163, []), (xdigits, 111, [])]),
     (111, False, [([(58, 58)], 115, []), (xdigits, 112, [])])]"

definition req_states_18 :: "req_action states" where
  "req_states_18 =
    [(112, False, [([(58, 58)], 115, []), (xdigits, 113, [])]),
     (113, False, [([(58, 58)], 115, []), (xdigits, 114, [])]),
     (114, False, [([(58, 58)], 115, [])]),
     (115, False, [([(58, 58)], 151, []), (xdigits, 116, [])]),
     (116, False, [([(58, 58)], 120, []), (xdigits, 117, [])]),
     (117, False, [([(58, 58)], 120, []), (xdigits, 118, [])]),
     (118, False, [([(58, 58)], 120, []), (xdigits, 119, [])]),
     (119, False, [([(58, 58)], 120, [])]),
     (120, False, [([(58, 58)], 150, []), (xdigits, 121, [])]),
     (121, False, [([(58, 58)], 125, []), (xdigits, 122, [])]),
     (122, False, [([(58, 58)], 125, []), (xdigits, 123, [])])]"

definition req_states_19 :: "req_action states" where
  "req_states_19 =
    [(123, False, [([(58, 58)], 125, []), (xdigits, 124, [])]),
     (124, False, [([(58, 58)], 125, [])]),
     (125, False, [([(58, 58)], 126, []), (xdigits, 121, [])]),
     (126, False, [([(49, 49)], 143, []), ([(50, 50)], 146, []), ([(93, 93)], 61, []), ([(2, 3)], 48, []), (digits, 127, []),
          (xdigits, 149, [])]),
     (127, False, [([(46, 46)], 55, []), ([(58, 58)], 131, []), ([(93, 93)], 61, []), (xdigits, 128, [])]),
     (128, False, [([(58, 58)], 131, []), ([(93, 93)], 61, []), (xdigits, 129, [])]),
     (129, False, [([(58, 58)], 131, []), ([(93, 93)], 61, []), (xdigits, 130, [])]),
     (130, False, [([(58, 58)], 131, []), ([(93, 93)], 61, [])]),
     (131, False, [([(49, 49)], 136, []), ([(50, 50)], 139, []), (digits, 132, []), (xdigits, 142, [])])]"

definition req_states_20 :: "req_action states" where
  "req_states_20 =
    [(132, False, [([(46, 46)], 55, []), ([(58, 58)], 80, []), ([(93, 93)], 61, []), (xdigits, 133, [])]),
     (133, False, [([(58, 58)], 80, []), ([(93, 93)], 61, []), (xdigits, 134, [])]),
     (134, False, [([(58, 58)], 80, []), ([(93, 93)], 61, []), (xdigits, 135, [])]),
     (135, False, [([(58, 58)], 80, []), ([(93, 93)], 61, [])]),
     (136, False, [([(46, 46)], 55, []), ([(58, 58)], 80, []), ([(93, 93)], 61, []), ([(48, 57)], 137, []), (xdigits, 133, [])]),
     (137, False, [([(46, 46)], 55, []), ([(58, 58)], 80, []), ([(93, 93)], 61, []), ([(48, 57)], 138, []), (xdigits, 134, [])]),
     (138, False, [([(46, 46)], 55, []), ([(58, 58)], 80, []), ([(93, 93)], 61, []), (xdigits, 135, [])]),
     (139, False, [([(46, 46)], 55, []), ([(48, 48)], 140, []), ([(53, 53)], 141, []), ([(58, 58)], 80, []), ([(93, 93)], 61, []),
          (xdigits, 133, [])])]"

definition req_states_21 :: "req_action states" where
  "req_states_21 =
    [(140, False, [([(58, 58)], 80, []), ([(93, 93)], 61, []), ([(48, 57)], 138, []), (xdigits, 134, [])]),
     (141, False, [([(48, 48)], 138, []), ([(58, 58)], 80, []), ([(93, 93)], 61, []), (xdigits, 134, [])]),
     (142, False, [([(58, 58)], 80, []), ([(93, 93)], 61, []), (xdigits, 133, [])]),
     (143, False, [([(46, 46)], 55, []), ([(58, 58)], 131, []), ([(93, 93)], 61, []), ([(48, 57)], 144, []), (xdigits, 128, [])]),
     (144, False, [([(46, 46)], 55, []), ([(58, 58)], 131, []), ([(93, 93)], 61, []), ([(48, 57)], 145, []), (xdigits, 129, [])]),
     (145, False, [([(46, 46)], 55, []), ([(58, 58)], 131, []), ([(93, 93)], 61, []), (xdigits, 130, [])]),
     (146, False, [([(46, 46)], 55, []), ([(48, 48)], 147, []), ([(53, 53)], 148, []), ([(58, 58)], 131, []), ([(93, 93)], 61, []),
          (xdigits, 128, [])]),
     (147, False, [([(58, 58)], 131, []), ([(93, 93)], 61, []), ([(48, 57)], 145, []), (xdigits, 129, [])])]"

definition req_states_22 :: "req_action states" where
  "req_states_22 =
    [(148, False, [([(48, 48)], 145, []), ([(58, 58)], 131, []), ([(93, 93)], 61, []), (xdigits, 129, [])]),
     (149, False, [([(58, 58)], 131, []), ([(93, 93)], 61, []), (xdigits, 128, [])]),
     (150, False, [([(49, 49)], 143, []), ([(50, 50)], 146, []), ([(2, 3)], 48, []), (digits, 127, []), (xdigits, 149, [])]),
     (151, False, [([(49, 49)], 156, []), ([(50, 50)], 159, []), ([(2, 3)], 48, []), (digits, 152, []), (xdigits, 162, [])]),
     (152, False, [([(46, 46)], 55, []), ([(58, 58)], 131, []), (xdigits, 153, [])]),
     (153, False, [([(58, 58)], 131, []), (xdigits, 154, [])]),
     (154, False, [([(58, 58)], 131, []), (xdigits, 155, [])]),
     (155, False, [([(58, 58)], 131, [])]),
     (156, False, [([(46, 46)], 55, []), ([(58, 58)], 131, []), ([(48, 57)], 157, []), (xdigits, 153, [])])]"

definition req_states_23 :: "req_action states" where
  "req_states_23 =
    [(157, False, [([(46, 46)], 55, []), ([(58, 58)], 131, []), ([(48, 57)], 158, []), (xdigits, 154, [])]),
     (158, False, [([(46, 46)], 55, []), ([(58, 58)], 131, []), (xdigits, 155, [])]),
     (159, False, [([(46, 46)], 55, []), ([(48, 48)], 160, []), ([(53, 53)], 161, []), ([(58, 58)], 131, []), (xdigits, 153, [])]),
     (160, False, [([(58, 58)], 131, []), ([(48, 57)], 158, []), (xdigits, 154, [])]),
     (161, False, [([(48, 48)], 158, []), ([(58, 58)], 131, []), (xdigits, 154, [])]),
     (162, False, [([(58, 58)], 131, []), (xdigits, 153, [])]),
     (163, False, [([(2, 3)], 48, []), (xdigits, 49, [])]),
     (164, False, [([(2, 3)], 48, [])]),
     (165, False, [([(3, 3)], 48, [])]),
     (166, False, [([(4, 4)], 48, [])]),
     (167, False, [([(58, 58)], 168, [])])]"

definition req_states_24 :: "req_action states" where
  "req_states_24 =
    [(168, False, [([(49, 49)], 143, []), ([(50, 50)], 146, []), ([(93, 93)], 61, []), ([(2, 5)], 48, []), (digits, 127, []),
          (xdigits, 149, [])]),
     (169, False, [(xdigits, 170, [])]),
     (170, False, [([(46, 46)], 171, []), (xdigits, 170, [])]),
     (171, True, [([(33, 33), (36, 36), (38, 46), (48, 59), (61, 61), (65, 90), (95, 95), (97, 122), (126, 126), (606, 606), (635, 635), (637, 637)], 172, [])]),
     (172, True, [([(93, 93)], 61, []),
          ([(33, 33), (36, 36), (38, 46), (48, 59), (61, 61), (65, 90), (95, 95), (97, 122), (126, 126), (606, 606), (635, 635), (637, 637)], 172, [])])]"

definition req_states_25 :: "req_action states" where
  "req_states_25 =
    [(173, True, [([(32, 32)], 4, [Qrequest_path, Qrequest_uri]), ([(35, 35)], 20, [Qrequest_path, Qrequest_uri]),
          ([(37, 37)], 24, []), ([(47, 47)], 26, []), ([(58, 58)], 174, []), ([(63, 63)], 29, [Qrequest_path]),
          ([(33, 33), (36, 42), (44, 44), (59, 59), (61, 61), (64, 64), (95, 95), (126, 126), (606, 606), (635, 635), (637, 637)], 19, []),
          (segment_chars, 173, [])]),
     (174, True, [([(32, 32)], 4, [Qmark, Qrequest_path, Qrequest_uri]), ([(35, 35)], 20, [Qmark, Qrequest_path, Qrequest_uri]),
          ([(37, 37)], 27, [Qmark]), ([(47, 47)], 33, [Qmark]), ([(63, 63)], 29, [Qmark, Qrequest_path]), (path_chars, 26, [Qmark])]),
     (175, False, [([(32, 32)], 3, [Qrequest_method]), ([(48, 57), (65, 90)], 176, [])]),
     (176, False, [([(32, 32)], 3, [Qrequest_method]), ([(48, 57), (65, 90)], 177, [])]),
     (177, False, [([(32, 32)], 3, [Qrequest_method]), ([(48, 57), (65, 90)], 178, [])])]"

definition req_states_26 :: "req_action states" where
  "req_states_26 =
    [(178, False, [([(32, 32)], 3, [Qrequest_method]), ([(48, 57), (65, 90)], 179, [])]),
     (179, False, [([(32, 32)], 3, [Qrequest_method]), ([(48, 57), (65, 90)], 180, [])]),
     (180, False, [([(32, 32)], 3, [Qrequest_method]), ([(48, 57), (65, 90)], 181, [])]),
     (181, False, [([(32, 32)], 3, [Qrequest_method]), ([(48, 57), (65, 90)], 182, [])]),
     (182, False, [([(32, 32)], 3, [Qrequest_method]), ([(48, 57), (65, 90)], 183, [])]),
     (183, False, [([(32, 32)], 3, [Qrequest_method]), ([(48, 57), (65, 90)], 184, [])]),
     (184, False, [([(32, 32)], 3, [Qrequest_method]), ([(48, 57), (65, 90)], 185, [])]),
     (185, False, [([(32, 32)], 3, [Qrequest_method]), ([(48, 57), (65, 90)], 186, [])]),
     (186, False, [([(32, 32)], 3, [Qrequest_method]), ([(48, 57), (65, 90)], 187, [])]),
     (187, False, [([(32, 32)], 3, [Qrequest_method]), ([(48, 57), (65, 90)], 188, [])]),
     (188, False, [([(32, 32)], 3, [Qrequest_method]), ([(48, 57), (65, 90)], 189, [])]),
     (189, False, [([(32, 32)], 3, [Qrequest_method]), ([(48, 57), (65, 90)], 190, [])])]"

definition req_states_27 :: "req_action states" where
  "req_states_27 =
    [(190, False, [([(32, 32)], 3, [Qrequest_method]), ([(48, 57), (65, 90)], 191, [])]),
     (191, False, [([(32, 32)], 3, [Qrequest_method]), ([(48, 57), (65, 90)], 192, [])]),
     (192, False, [([(32, 32)], 3, [Qrequest_method]), ([(48, 57), (65, 90)], 193, [])]),
     (193, False, [([(32, 32)], 3, [Qrequest_method])]),
     (194, False, [([(45, 46), (48, 57), (65, 90), (97, 122)], 195, [])]),
     (195, False, [([(9, 13), (32, 32), (47, 47), (62, 62)], 196, [Qrequest_path]), ([(45, 57), (65, 90), (97, 122)], 195, [])]),
     (196, False, [([(62, 62)], 197, []), (anys, 196, [])]),
     (197, False, [([(0, 0)], 349, [Qxml, Qdone]), ([(62, 62)], 197, []), (anys, 196, [])])]"

definition req_states_28 :: "req_action states" where
  "req_states_28 =
    [(349, False, []),
     (198, True, [([(32, 32)], 199, [Qrequest_path]), ([(37, 37)], 203, []), ([(47, 47)], 208, []),
          ([(33, 33), (36, 57), (59, 59), (61, 61), (64, 90), (95, 95), (97, 122), (126, 126), (606, 606), (635, 635), (637, 637)], 202, [])]),
     (199, False, [([(123, 123)], 200, [Qmark])]),
     (200, False, [([(125, 125)], 201, []), (anys, 200, [])]),
     (201, False, [([(0, 0)], 349, [Qjson, Qdone]), ([(125, 125)], 201, []), (anys, 200, [])])]"

definition req_states_29 :: "req_action states" where
  "req_states_29 =
    [(202, True, [([(32, 32)], 199, [Qrequest_path]), ([(37, 37)], 203, []), ([(47, 47)], 205, []),
          ([(33, 33), (36, 57), (59, 59), (61, 61), (64, 90), (95, 95), (97, 122), (126, 126), (606, 606), (635, 635), (637, 637)], 202, [])]),
     (203, False, [(xdigits, 204, [])]),
     (204, False, [(xdigits, 202, [])]),
     (205, True, [([(32, 32)], 199, [Qrequest_path]), ([(37, 37)], 206, []), (path_chars, 205, [])]),
     (206, False, [(xdigits, 207, [])]),
     (207, False, [(xdigits, 205, [])])]"

definition req_states_30 :: "req_action states" where
  "req_states_30 =
    [(208, True, [([(32, 32)], 199, [Qrequest_path]), ([(37, 37)], 206, []), ([(47, 47)], 209, []), (path_chars, 205, [])]),
     (209, True, [([(32, 32)], 199, [Qrequest_path]), ([(37, 37)], 211, []), ([(47, 47)], 205, []), ([(58, 58)], 213, []),
          ([(64, 64)], 217, []), ([(91, 91)], 222, []), (segment_chars, 210, [])]),
     (210, True, [([(32, 32)], 199, [Qrequest_path]), ([(37, 37)], 211, []), ([(47, 47)], 205, []), ([(58, 58)], 213, []),
          ([(64, 64)], 217, []), (segment_chars, 210, [])])]"

definition req_states_31 :: "req_action states" where
  "req_states_31 =
    [(211, False, [(xdigits, 212, [])]),
     (212, False, [(xdigits, 210, [])]),
     (213, True, [([(32, 32)], 199, [Qrequest_path]), ([(37, 37)], 215, []), ([(47, 47)], 205, []), ([(64, 64)], 217, []),
          ([(48, 57)], 213, []), (segment_chars, 214, [])]),
     (214, True, [([(37, 37)], 215, []), ([(64, 64)], 217, []),
          ([(33, 33), (36, 46), (48, 59), (61, 61), (65, 90), (95, 95), (97, 122), (126, 126), (606, 606), (635, 635), (637, 637)], 214, [])]),
     (215, False, [(xdigits, 216, [])])]"

definition req_states_32 :: "req_action states" where
  "req_states_32 =
    [(216, False, [(xdigits, 214, [])]),
     (217, True, [([(32, 32)], 199, [Qrequest_path]), ([(37, 37)], 219, []), ([(47, 47)], 205, []), ([(58, 58)], 221, []),
          ([(91, 91)], 222, []), (segment_chars, 218, [])]),
     (218, True, [([(32, 32)], 199, [Qrequest_path]), ([(37, 37)], 219, []), ([(47, 47)], 205, []), ([(58, 58)], 221, []),
          (segment_chars, 218, [])]),
     (219, False, [(xdigits, 220, [])]),
     (220, False, [(xdigits, 218, [])]),
     (221, False, [([(32, 32)], 199, [Qrequest_path]), ([(47, 47)], 205, []), ([(48, 57)], 221, [])])]"

definition req_states_33 :: "req_action states" where
  "req_states_33 =
    [(222, False, [([(6, 6)], 223, []), ([(58, 58)], 342, []), ([(118, 118)], 344, []), (xdigits, 266, [])]),
     (223, False, [(xdigits, 224, [])]),
     (224, False, [([(58, 58)], 228, []), (xdigits, 225, [])]),
     (225, False, [([(58, 58)], 228, []), (xdigits, 226, [])]),
     (226, False, [([(58, 58)], 228, []), (xdigits, 227, [])]),
     (227, False, [([(58, 58)], 228, [])]),
     (228, False, [([(49, 49)], 259, []), ([(50, 50)], 262, []), (digits, 229, []), (xdigits, 265, [])]),
     (229, False, [([(46, 46)], 230, []), ([(58, 58)], 255, []), (xdigits, 252, [])]),
     (230, False, [([(49, 49)], 247, []), ([(50, 50)], 249, []), (digits, 231, [])]),
     (231, False, [([(46, 46)], 232, [])]),
     (232, False, [([(49, 49)], 242, []), ([(50, 50)], 244, []), (digits, 233, [])])]"

definition req_states_34 :: "req_action states" where
  "req_states_34 =
    [(233, False, [([(46, 46)], 234, [])]),
     (234, False, [([(49, 49)], 237, []), ([(50, 50)], 239, []), (digits, 235, [])]),
     (235, False, [([(93, 93)], 236, [])]),
     (236, False, [([(32, 32)], 199, [Qrequest_path]), ([(47, 47)], 205, []), ([(58, 58)], 221, [])]),
     (237, False, [([(93, 93)], 236, []), ([(48, 57)], 238, [])]),
     (238, False, [([(93, 93)], 236, []), ([(48, 57)], 235, [])]),
     (239, False, [([(48, 48)], 240, []), ([(53, 53)], 241, []), ([(93, 93)], 236, [])]),
     (240, False, [([(48, 57)], 235, [])]),
     (241, False, [([(48, 48)], 235, [])]),
     (242, False, [([(46, 46)], 234, []), ([(48, 57)], 243, [])]),
     (243, False, [([(46, 46)], 234, []), ([(48, 57)], 233, [])]),
     (244, False, [([(46, 46)], 234, []), ([(48, 48)], 245, []), ([(53, 53)], 246, [])]),
     (245, False, [([(48, 57)], 233, [])]),
     (246, False, [([(48, 48)], 233, [])]),
     (247, False, [([(46, 46)], 232, []), ([(48, 57)], 248, [])]),
     (248, False, [([(46, 46)], 232, []), ([(48, 57)], 231, [])]),
     (249, False, [([(46, 46)], 232, []), ([(48, 48)], 250, []), ([(53, 53)], 251, [])])]"

definition req_states_35 :: "req_action states" where
  "req_states_35 =
    [(250, False, [([(48, 57)], 231, [])]),
     (251, False, [([(48, 48)], 231, [])]),
     (252, False, [([(58, 58)], 255, []), (xdigits, 253, [])]),
     (253, False, [([(58, 58)], 255, []), (xdigits, 254, [])]),
     (254, False, [([(58, 58)], 255, [])]),
     (255, False, [(xdigits, 256, [])]),
     (256, False, [([(93, 93)], 236, []), (xdigits, 257, [])]),
     (257, False, [([(93, 93)], 236, []), (xdigits, 258, [])]),
     (258, False, [([(93, 93)], 236, []), (xdigits, 235, [])]),
     (259, False, [([(46, 46)], 230, []), ([(58, 58)], 255, []), ([(48, 57)], 260, []), (xdigits, 252, [])]),
     (260, False, [([(46, 46)], 230, []), ([(58, 58)], 255, []), ([(48, 57)], 261, []), (xdigits, 253, [])])]"

definition req_states_36 :: "req_action states" where
  "req_states_36 =
    [(261, False, [([(46, 46)], 230, []), ([(58, 58)], 255, []), (xdigits, 254, [])]),
     (262, False, [([(46, 46)], 230, []), ([(48, 48)], 263, []), ([(53, 53)], 264, []), ([(58, 58)], 255, []), (xdigits, 252, [])]),
     (263, False, [([(58, 58)], 255, []), ([(48, 57)], 261, []), (xdigits, 253, [])]),
     (264, False, [([(48, 48)], 261, []), ([(58, 58)], 255, []), (xdigits, 253, [])]),
     (265, False, [([(58, 58)], 255, []), (xdigits, 252, [])]),
     (266, False, [([(58, 58)], 270, []), (xdigits, 267, [])]),
     (267, False, [([(58, 58)], 270, []), (xdigits, 268, [])]),
     (268, False, [([(58, 58)], 270, []), (xdigits, 269, [])]),
     (269, False, [([(58, 58)], 270, [])]),
     (270, False, [([(58, 58)], 341, []), (xdigits, 271, [])])]"

definition req_states_37 :: "req_action states" where
  "req_states_37 =
    [(271, False, [([(58, 58)], 275, []), (xdigits, 272, [])]),
     (272, False, [([(58, 58)], 275, []), (xdigits, 273, [])]),
     (273, False, [([(58, 58)], 275, []), (xdigits, 274, [])]),
     (274, False, [([(58, 58)], 275, [])]),
     (275, False, [([(58, 58)], 340, []), (xdigits, 276, [])]),
     (276, False, [([(58, 58)], 280, []), (xdigits, 277, [])]),
     (277, False, [([(58, 58)], 280, []), (xdigits, 278, [])]),
     (278, False, [([(58, 58)], 280, []), (xdigits, 279, [])]),
     (279, False, [([(58, 58)], 280, [])]),
     (280, False, [([(58, 58)], 339, []), (xdigits, 281, [])]),
     (281, False, [([(58, 58)], 285, []), (xdigits, 282, [])])]"

definition req_states_38 :: "req_action states" where
  "req_states_38 =
    [(282, False, [([(58, 58)], 285, []), (xdigits, 283, [])]),
     (283, False, [([(58, 58)], 285, []), (xdigits, 284, [])]),
     (284, False, [([(58, 58)], 285, [])]),
     (285, False, [([(58, 58)], 338, []), (xdigits, 286, [])]),
     (286, False, [([(58, 58)], 290, []), (xdigits, 287, [])]),
     (287, False, [([(58, 58)], 290, []), (xdigits, 288, [])]),
     (288, False, [([(58, 58)], 290, []), (xdigits, 289, [])]),
     (289, False, [([(58, 58)], 290, [])]),
     (290, False, [([(58, 58)], 326, []), (xdigits, 291, [])]),
     (291, False, [([(58, 58)], 295, []), (xdigits, 292, [])]),
     (292, False, [([(58, 58)], 295, []), (xdigits, 293, [])])]"

definition req_states_39 :: "req_action states" where
  "req_states_39 =
    [(293, False, [([(58, 58)], 295, []), (xdigits, 294, [])]),
     (294, False, [([(58, 58)], 295, [])]),
     (295, False, [([(58, 58)], 325, []), (xdigits, 296, [])]),
     (296, False, [([(58, 58)], 300, []), (xdigits, 297, [])]),
     (297, False, [([(58, 58)], 300, []), (xdigits, 298, [])]),
     (298, False, [([(58, 58)], 300, []), (xdigits, 299, [])]),
     (299, False, [([(58, 58)], 300, [])]),
     (300, False, [([(58, 58)], 301, []), (xdigits, 296, [])]),
     (301, False, [([(49, 49)], 318, []), ([(50, 50)], 321, []), ([(93, 93)], 236, []), ([(2, 3)], 223, []), (digits, 302, []),
          (xdigits, 324, [])]),
     (302, False, [([(46, 46)], 230, []), ([(58, 58)], 306, []), ([(93, 93)], 236, []), (xdigits, 303, [])])]"

definition req_states_40 :: "req_action states" where
  "req_states_40 =
    [(303, False, [([(58, 58)], 306, []), ([(93, 93)], 236, []), (xdigits, 304, [])]),
     (304, False, [([(58, 58)], 306, []), ([(93, 93)], 236, []), (xdigits, 305, [])]),
     (305, False, [([(58, 58)], 306, []), ([(93, 93)], 236, [])]),
     (306, False, [([(49, 49)], 311, []), ([(50, 50)], 314, []), (digits, 307, []), (xdigits, 317, [])]),
     (307, False, [([(46, 46)], 230, []), ([(58, 58)], 255, []), ([(93, 93)], 236, []), (xdigits, 308, [])]),
     (308, False, [([(58, 58)], 255, []), ([(93, 93)], 236, []), (xdigits, 309, [])]),
     (309, False, [([(58, 58)], 255, []), ([(93, 93)], 236, []), (xdigits, 310, [])]),
     (310, False, [([(58, 58)], 255, []), ([(93, 93)], 236, [])]),
     (311, False, [([(46, 46)], 230, []), ([(58, 58)], 255, []), ([(93, 93)], 236, []), ([(48, 57)], 312, []), (xdigits, 308, [])])]"

definition req_states_41 :: "req_action states" where
  "req_states_41 =
    [(312, False, [([(46, 46)], 230, []), ([(58, 58)], 255, []), ([(93, 93)], 236, []), ([(48, 57)], 313, []), (xdigits, 309, [])]),
     (313, False, [([(46, 46)], 230, []), ([(58, 58)], 255, []), ([(93, 93)], 236, []), (xdigits, 310, [])]),
     (314, False, [([(46, 46)], 230, []), ([(48, 48)], 315, []), ([(53, 53)], 316, []), ([(58, 58)], 255, []), ([(93, 93)], 236, []),
          (xdigits, 308, [])]),
     (315, False, [([(58, 58)], 255, []), ([(93, 93)], 236, []), ([(48, 57)], 313, []), (xdigits, 309, [])]),
     (316, False, [([(48, 48)], 313, []), ([(58, 58)], 255, []), ([(93, 93)], 236, []), (xdigits, 309, [])]),
     (317, False, [([(58, 58)], 255, []), ([(93, 93)], 236, []), (xdigits, 308, [])]),
     (318, False, [([(46, 46)], 230, []), ([(58, 58)], 306, []), ([(93, 93)], 236, []), ([(48, 57)], 319, []), (xdigits, 303, [])]),
     (319, False, [([(46, 46)], 230, []), ([(58, 58)], 306, []), ([(93, 93)], 236, []), ([(48, 57)], 320, []), (xdigits, 304, [])])]"

definition req_states_42 :: "req_action states" where
  "req_states_42 =
    [(320, False, [([(46, 46)], 230, []), ([(58, 58)], 306, []), ([(93, 93)], 236, []), (xdigits, 305, [])]),
     (321, False, [([(46, 46)], 230, []), ([(48, 48)], 322, []), ([(53, 53)], 323, []), ([(58, 58)], 306, []), ([(93, 93)], 236, []),
          (xdigits, 303, [])]),
     (322, False, [([(58, 58)], 306, []), ([(93, 93)], 236, []), ([(48, 57)], 320, []), (xdigits, 304, [])]),
     (323, False, [([(48, 48)], 320, []), ([(58, 58)], 306, []), ([(93, 93)], 236, []), (xdigits, 304, [])]),
     (324, False, [([(58, 58)], 306, []), ([(93, 93)], 236, []), (xdigits, 303, [])]),
     (325, False, [([(49, 49)], 318, []), ([(50, 50)], 321, []), ([(2, 3)], 223, []), (digits, 302, []), (xdigits, 324, [])]),
     (326, False, [([(49, 49)], 331, []), ([(50, 50)], 334, []), ([(2, 3)], 223, []), (digits, 327, []), (xdigits, 337, [])]),
     (327, False, [([(46, 46)], 230, []), ([(58, 58)], 306, []), (xdigits, 328, [])])]"

definition req_states_43 :: "req_action states" where
  "req_states_43 =
    [(328, False, [([(58, 58)], 306, []), (xdigits, 329, [])]),
     (329, False, [([(58, 58)], 306, []), (xdigits, 330, [])]),
     (330, False, [([(58, 58)], 306, [])]),
     (331, False, [([(46, 46)], 230, []), ([(58, 58)], 306, []), ([(48, 57)], 332, []), (xdigits, 328, [])]),
     (332, False, [([(46, 46)], 230, []), ([(58, 58)], 306, []), ([(48, 57)], 333, []), (xdigits, 329, [])]),
     (333, False, [([(46, 46)], 230, []), ([(58, 58)], 306, []), (xdigits, 330, [])]),
     (334, False, [([(46, 46)], 230, []), ([(48, 48)], 335, []), ([(53, 53)], 336, []), ([(58, 58)], 306, []), (xdigits, 328, [])]),
     (335, False, [([(58, 58)], 306, []), ([(48, 57)], 333, []), (xdigits, 329, [])]),
     (336, False, [([(48, 48)], 333, []), ([(58, 58)], 306, []), (xdigits, 329, [])])]"

definition req_states_44 :: "req_action states" where
  "req_states_44 =
    [(337, False, [([(58, 58)], 306, []), (xdigits, 328, [])]),
     (338, False, [([(2, 3)], 223, []), (xdigits, 224, [])]),
     (339, False, [([(2, 3)], 223, [])]),
     (340, False, [([(3, 3)], 223, [])]),
     (341, False, [([(4, 4)], 223, [])]),
     (342, False, [([(58, 58)], 343, [])]),
     (343, False, [([(49, 49)], 318, []), ([(50, 50)], 321, []), ([(93, 93)], 236, []), ([(2, 5)], 223, []), (digits, 302, []),
          (xdigits, 324, [])]),
     (344, False, [(xdigits, 345, [])]),
     (345, False, [([(46, 46)], 346, []), (xdigits, 345, [])])]"

definition req_states_45 :: "req_action states" where
  "req_states_45 =
    [(346, True, [([(33, 33), (36, 36), (38, 46), (48, 59), (61, 61), (65, 90), (95, 95), (97, 122), (126, 126), (606, 606), (635, 635), (637, 637)], 347, [])]),
     (347, True, [([(93, 93)], 236, []),
          ([(33, 33), (36, 36), (38, 46), (48, 59), (61, 61), (65, 90), (95, 95), (97, 122), (126, 126), (606, 606), (635, 635), (637, 637)], 347, [])])]"

definition req_table :: "req_action states" where
  "req_table = req_states_1 @ req_states_2 @ req_states_3 @ req_states_4 @ req_states_5 @
     req_states_6 @ req_states_7 @ req_states_8 @ req_states_9 @ req_states_10 @ req_states_11 @
     req_states_12 @ req_states_13 @ req_states_14 @ req_states_15 @ req_states_16 @ req_states_17 @
     req_states_18 @ req_states_19 @ req_states_20 @ req_states_21 @ req_states_22 @ req_states_23 @
     req_states_24 @ req_states_25 @ req_states_26 @ req_states_27 @ req_states_28 @ req_states_29 @
     req_states_30 @ req_states_31 @ req_states_32 @ req_states_33 @ req_states_34 @ req_states_35 @
     req_states_36 @ req_states_37 @ req_states_38 @ req_states_39 @ req_states_40 @ req_states_41 @
     req_states_42 @ req_states_43 @ req_states_44 @ req_states_45"

section \<open>The scanner\<close>

definition req_scan :: "bool \<Rightarrow> req_machine" where
  "req_scan relaxed parser text =
     (case scan req_table (widec relaxed) (req_act text) (\<lambda>a. a = Qdone) (hp_cs parser) 0 text (parser, []) of
        (cs, p, parser', evs) \<Rightarrow> (cs, p, parser', evs))"

lemma req_act_keeps: "hp_nread (fst (req_act text a p st)) = hp_nread (fst st)" "hp_cs (fst (req_act text a p st)) = hp_cs (fst st)"
  by (cases st; cases a; simp)+

lemma req_scan_ok: "req_machine_ok (req_scan relaxed)"
  unfolding req_machine_ok_def
proof (intro allI impI)
  fix parser s cs p parser' evs
  assume "req_scan relaxed parser s = (cs, p, parser', evs)"
  then have e: "scan req_table (widec relaxed) (req_act s) (\<lambda>a. a = Qdone) (hp_cs parser) 0 s (parser, []) = (cs, p, parser', evs)"
    by (auto simp: req_scan_def split: prod.splits)
  show "p \<le> length s \<and> hp_nread parser' = hp_nread parser \<and> hp_cs parser' = hp_cs parser"
    using scan_bounds [OF e] scan_keeps [OF _ e, of "\<lambda>st. hp_nread (fst st)"] scan_keeps [OF _ e, of "\<lambda>st. hp_cs (fst st)"] req_act_keeps
    by fastforce
qed

lemmas req_tables = req_table_def req_states_1_def req_states_2_def req_states_3_def req_states_4_def req_states_5_def req_states_6_def
  req_states_7_def req_states_8_def req_states_9_def req_states_10_def req_states_11_def req_states_12_def
  req_states_13_def req_states_14_def req_states_15_def req_states_16_def req_states_17_def req_states_18_def
  req_states_19_def req_states_20_def req_states_21_def req_states_22_def req_states_23_def req_states_24_def
  req_states_25_def req_states_26_def req_states_27_def req_states_28_def req_states_29_def req_states_30_def
  req_states_31_def req_states_32_def req_states_33_def req_states_34_def req_states_35_def req_states_36_def
  req_states_37_def req_states_38_def req_states_39_def req_states_40_def req_states_41_def req_states_42_def
  req_states_43_def req_states_44_def req_states_45_def

lemma req_blocks: "upwards 1 (map fst req_table) = 348" "upwards 348 (map fst req_table) = 350"
  by (simp_all add: req_tables)

interpretation req: scanner_table req_table 350 "widec relaxed" for relaxed
proof unfold_locales
  fix s :: nat assume "0 < s" "s < 350"
  then show "map_of req_table s \<noteq> None"
    using upwards_block [of 1 s req_table] upwards_block [of 348 s req_table] req_blocks by (cases "s < 348") auto
qed (auto simp: compares_def widec_def Let_def)

section \<open>The parts of a head\<close>

text \<open>
  Characters of a path, of a query or fragment, without the percent sign; blanks after the colon of a header, and the
  characters of its value.
\<close>

definition uppers :: chars where "uppers = [(48, 57), (65, 90)]"
definition pathc :: chars where "pathc = [(33, 33), (36, 36), (38, 59), (61, 61), (64, 90), (95, 95), (97, 122), (126, 126)]"
definition path1 :: chars where "path1 = [(33, 33), (36, 36), (38, 46), (48, 59), (61, 61), (64, 90), (95, 95), (97, 122), (126, 126)]"
definition queryc :: chars where "queryc = [(33, 33), (36, 36), (38, 59), (61, 61), (63, 90), (95, 95), (97, 122), (126, 126)]"
definition qblanks :: chars where "qblanks = [(9, 9), (32, 32)]"
definition qinks :: chars where "qinks = [(- 128, - 1), (1, 8), (11, 12), (14, 31), (33, 126)]"
definition qtexts :: chars where "qtexts = [(- 128, - 1), (1, 9), (11, 12), (14, 126)]"

lemmas req_sets = uppers_def pathc_def path1_def queryc_def qblanks_def qinks_def qtexts_def tokens_def xdigits_def digits_def anys_def
  segment_chars_def path_chars_def query_chars_def wides_def

text \<open>The states that these parts lead through.\<close>

definition req_used :: ranges where "req_used = [(1, 33), (175, 193)]"

definition req_sub :: "req_action states" where "req_sub = part req_table req_used"

lemmas req_part = req_sub_def [simplified part_def req_tables req_used_def inside_def, simplified]

lemmas req_on_part = leads_part [of req_table req_used, folded req_sub_def] climbs_part [of req_table req_used, folded req_sub_def]

lemmas req_simps = leads_simps climbs_def req_sets req_part within_def req_used_def

lemma method_leads:
  "leads req_table 350 [(1, 1)] uppers (\<lambda>t acts. t = 2 \<and> acts = [Qmark])"
  "leads req_table 350 [(2, 2)] uppers (\<lambda>t acts. t = 175 \<and> acts = [])"
  "climbs req_table 175 193 uppers"
  "leads req_table 350 [(2, 2), (175, 193)] [(32, 32)] (\<lambda>t acts. t = 3 \<and> acts = [Qrequest_method])"
  by - (rule req_on_part, simp add: req_simps, simp add: req_simps)+

lemma target_leads:
  "leads req_table 350 [(3, 3)] [(47, 47)] (\<lambda>t acts. t = 33 \<and> acts = [Qmark])"
  "leads req_table 350 [(33, 33)] path1 (\<lambda>t acts. t = 26 \<and> acts = [])"
  "leads req_table 350 [(33, 33)] [(37, 37)] (\<lambda>t acts. t = 27 \<and> acts = [])"
  "leads req_table 350 [(26, 26)] pathc (\<lambda>t acts. t = 26 \<and> acts = [])"
  "leads req_table 350 [(26, 26)] [(37, 37)] (\<lambda>t acts. t = 27 \<and> acts = [])"
  "leads req_table 350 [(27, 27)] xdigits (\<lambda>t acts. t = 28 \<and> acts = [])"
  "leads req_table 350 [(28, 28)] xdigits (\<lambda>t acts. t = 26 \<and> acts = [])"
  "leads req_table 350 [(26, 26), (33, 33)] [(32, 32)] (\<lambda>t acts. t = 4 \<and> acts = [Qrequest_path, Qrequest_uri])"
  "leads req_table 350 [(26, 26), (33, 33)] [(63, 63)] (\<lambda>t acts. t = 29 \<and> acts = [Qrequest_path])"
  "leads req_table 350 [(26, 26), (33, 33)] [(35, 35)] (\<lambda>t acts. t = 20 \<and> acts = [Qrequest_path, Qrequest_uri])"
  by - (rule req_on_part, simp add: req_simps, simp add: req_simps)+

lemma query_leads:
  "leads req_table 350 [(29, 29)] queryc (\<lambda>t acts. t = 30 \<and> acts = [Qstart_query])"
  "leads req_table 350 [(29, 29)] [(37, 37)] (\<lambda>t acts. t = 31 \<and> acts = [Qstart_query])"
  "leads req_table 350 [(30, 30)] queryc (\<lambda>t acts. t = 30 \<and> acts = [])"
  "leads req_table 350 [(30, 30)] [(37, 37)] (\<lambda>t acts. t = 31 \<and> acts = [])"
  "leads req_table 350 [(31, 31)] xdigits (\<lambda>t acts. t = 32 \<and> acts = [])"
  "leads req_table 350 [(32, 32)] xdigits (\<lambda>t acts. t = 30 \<and> acts = [])"
  "leads req_table 350 [(30, 30)] [(32, 32)] (\<lambda>t acts. t = 4 \<and> acts = [Qquery_string, Qrequest_uri])"
  "leads req_table 350 [(30, 30)] [(35, 35)] (\<lambda>t acts. t = 20 \<and> acts = [Qquery_string, Qrequest_uri])"
  by - (rule req_on_part, simp add: req_simps, simp add: req_simps)+

lemma fragment_leads:
  "leads req_table 350 [(20, 20)] queryc (\<lambda>t acts. t = 21 \<and> acts = [Qmark])"
  "leads req_table 350 [(20, 20)] [(37, 37)] (\<lambda>t acts. t = 22 \<and> acts = [Qmark])"
  "leads req_table 350 [(21, 21)] queryc (\<lambda>t acts. t = 21 \<and> acts = [])"
  "leads req_table 350 [(21, 21)] [(37, 37)] (\<lambda>t acts. t = 22 \<and> acts = [])"
  "leads req_table 350 [(22, 22)] xdigits (\<lambda>t acts. t = 23 \<and> acts = [])"
  "leads req_table 350 [(23, 23)] xdigits (\<lambda>t acts. t = 21 \<and> acts = [])"
  "leads req_table 350 [(21, 21)] [(32, 32)] (\<lambda>t acts. t = 4 \<and> acts = [Qfragment])"
  by - (rule req_on_part, simp add: req_simps, simp add: req_simps)+

lemma field_leads:
  "leads req_table 350 [(13, 13)] tokens (\<lambda>t acts. t = 14 \<and> acts = [Qstart_field])"
  "leads req_table 350 [(14, 14)] tokens (\<lambda>t acts. t = 14 \<and> acts = [])"
  "leads req_table 350 [(14, 14)] [(58, 58)] (\<lambda>t acts. t = 15 \<and> acts = [Qwrite_field])"
  "leads req_table 350 [(15, 15)] qblanks (\<lambda>t acts. t = 15 \<and> acts = [Qstart_value])"
  "leads req_table 350 [(15, 15)] qinks (\<lambda>t acts. t = 16 \<and> acts = [Qstart_value])"
  "leads req_table 350 [(15, 15)] [(13, 13)] (\<lambda>t acts. t = 17 \<and> acts = [Qstart_value, Qwrite_value])"
  "leads req_table 350 [(16, 16)] qtexts (\<lambda>t acts. t = 16 \<and> acts = [])"
  "leads req_table 350 [(16, 16)] [(13, 13)] (\<lambda>t acts. t = 17 \<and> acts = [Qwrite_value])"
  "leads req_table 350 [(17, 17)] [(10, 10)] (\<lambda>t acts. t = 13 \<and> acts = [])"
  "leads req_table 350 [(13, 13)] [(13, 13)] (\<lambda>t acts. t = 18 \<and> acts = [Qstart_field])"
  "leads req_table 350 [(18, 18)] [(10, 10)] (\<lambda>t acts. t = 348 \<and> acts = [Qdone])"
  by - (rule req_on_part, simp add: req_simps, simp add: req_simps)+

lemma version_leads:
  "leads req_table 350 [(4, 4)] [(72, 72)] (\<lambda>t acts. t = 5 \<and> acts = [Qmark])"
  "leads req_table 350 [(5, 5)] [(84, 84)] (\<lambda>t acts. t = 6 \<and> acts = [])"
  "leads req_table 350 [(6, 6)] [(84, 84)] (\<lambda>t acts. t = 7 \<and> acts = [])"
  "leads req_table 350 [(7, 7)] [(80, 80)] (\<lambda>t acts. t = 8 \<and> acts = [])"
  "leads req_table 350 [(8, 8)] [(47, 47)] (\<lambda>t acts. t = 9 \<and> acts = [])"
  "leads req_table 350 [(9, 9)] [(49, 49)] (\<lambda>t acts. t = 10 \<and> acts = [])"
  "leads req_table 350 [(10, 10)] [(46, 46)] (\<lambda>t acts. t = 11 \<and> acts = [])"
  "leads req_table 350 [(11, 11)] [(48, 49)] (\<lambda>t acts. t = 12 \<and> acts = [])"
  "leads req_table 350 [(12, 12)] [(13, 13)] (\<lambda>t acts. t = 17 \<and> acts = [Qhttp_version])"
  by - (rule req_on_part, simp add: req_simps, simp add: req_simps)+

abbreviation req_run :: "bool \<Rightarrow> string \<Rightarrow> nat \<Rightarrow> nat \<Rightarrow> string \<Rightarrow> http_parser \<times> req_event list \<Rightarrow> nat \<times> nat \<times> http_parser \<times> req_event list" where
  "req_run relaxed buf \<equiv> scan req_table (widec relaxed) (req_act buf) (\<lambda>a. a = Qdone)"

lemma req_one:
  assumes "leads req_table 350 [(s, s)] cs (\<lambda>t acts. t = u \<and> acts = as)" "among (schar c) cs" "Qdone \<notin> set as"
  shows "req_run relaxed buf s p (c # rest) st = req_run relaxed buf u (p + 1) rest (fold (\<lambda>a. req_act buf a p) as st)"
  using assms(3) by (intro req.scan_one [OF assms(1,2)]) (auto simp: list_ex_iff)

lemma req_oneof:
  assumes "leads req_table 350 S cs (\<lambda>t acts. t = u \<and> acts = as)" "inside s S" "among (schar c) cs" "Qdone \<notin> set as"
  shows "req_run relaxed buf s p (c # rest) st = req_run relaxed buf u (p + 1) rest (fold (\<lambda>a. req_act buf a p) as st)"
  using req.scan_leads [OF assms(1-3), of "\<lambda>a. a = Qdone" relaxed "req_act buf" p] assms(4) by (cases st) (auto simp: list_ex_iff)

lemma schars [simp]: "among (schar (CHR ''/'')) [(47, 47)]" "among (schar (CHR ''?'')) [(63, 63)]" "among (schar (CHR ''#'')) [(35, 35)]"
  by code_simp+

text \<open>The method.\<close>

lemma method_run:
  assumes "m \<noteq> []" "length m \<le> 20" "list_all (\<lambda>c. among (schar c) uppers) m"
  shows "req_run relaxed buf 1 0 (m @ CHR '' '' # rest) (parser, []) =
    req_run relaxed buf 3 (length m + 1) rest (parser\<lparr>hp_mark := 0\<rparr>, [OnMethod 0 (length m)])"
proof -
  obtain c ms where m: "m = c # ms" using assms(1) by (cases m) auto
  have c: "among (schar c) uppers" using assms(3) m by simp
  obtain s where s: "inside s [(2, 2), (175, 193)]"
    "req_run relaxed buf 2 1 (ms @ CHR '' '' # rest) st = req_run relaxed buf s (length m) (CHR '' '' # rest) st" for st
  proof (cases ms)
    case Nil
    then show thesis using that [of 2] m by (simp add: inside_def)
  next
    case (Cons d ds)
    have d: "among (schar d) uppers" "list_all (\<lambda>c. among (schar c) uppers) ds" "175 + length ds \<le> 193" using assms(2,3) m Cons by simp_all
    show thesis
    proof (rule that)
      show "inside (175 + length ds) [(2, 2), (175, 193)]" using d(3) by (simp add: inside_def)
      show "req_run relaxed buf 2 1 (ms @ CHR '' '' # rest) st = req_run relaxed buf (175 + length ds) (length m) (CHR '' '' # rest) st" for st
      proof -
        have "req_run relaxed buf 2 1 (ms @ CHR '' '' # rest) st = req_run relaxed buf 175 2 (ds @ CHR '' '' # rest) st"
          using req_one [OF method_leads(2) d(1), of relaxed buf 1 "ds @ CHR '' '' # rest" st] by (simp add: Cons numeral_2_eq_2 [symmetric])
        also have "\<dots> = req_run relaxed buf (175 + length ds) (2 + length ds) (CHR '' '' # rest) st"
          by (rule req.scan_climb [OF method_leads(3) _ _ d(2) _ d(3)]) simp_all
        finally show ?thesis by (simp add: Cons m)
      qed
    qed
  qed
  have "req_run relaxed buf 1 0 (m @ CHR '' '' # rest) (parser, []) = req_run relaxed buf 2 1 (ms @ CHR '' '' # rest) (parser\<lparr>hp_mark := 0\<rparr>, [])"
    using req_one [OF method_leads(1) c, of relaxed buf 0 "ms @ CHR '' '' # rest" "(parser, [])"] by (simp add: m)
  then show ?thesis using s(2) by (simp add: req_oneof [OF method_leads(4) s(1)])
qed

text \<open>The target: a path that does not start with two slashes, a query and a fragment that may be absent.\<close>

definition path_ok :: "string \<Rightarrow> bool" where
  "path_ok path \<longleftrightarrow> (case path of [] \<Rightarrow> False | c # xs \<Rightarrow> c = CHR ''/'' \<and> pct_text pathc xs \<and> (xs = [] \<or> hd xs \<noteq> CHR ''/''))"

definition opt_part :: "char \<Rightarrow> string \<Rightarrow> string" where
  "opt_part c s = (if s = [] then [] else c # s)"

lemma path1_pathc: "among (schar c) pathc \<Longrightarrow> c \<noteq> CHR ''/'' \<Longrightarrow> among (schar c) path1"
proof -
  assume a: "among (schar c) pathc" "c \<noteq> CHR ''/''"
  have "schar c \<noteq> 47"
  proof
    assume "schar c = 47"
    then have "byte_of c = byte_of (CHR ''/'')" using byte_of_less [of c] by (auto simp: schar_def Let_def byte_of_def [of "CHR ''/''"] split: if_splits)
    then show False using a(2) by (simp add: byte_of_inj)
  qed
  then show ?thesis using a(1) by (auto simp: among_def req_sets)
qed

lemma pct_hd: "pct_text cs xs \<Longrightarrow> xs \<noteq> [] \<Longrightarrow> hd xs = CHR ''%'' \<or> among (schar (hd xs)) cs"
  by (cases "(cs, xs)" rule: pct_text.cases) (auto split: if_splits)

lemma path_run:
  assumes "path_ok path"
  shows "\<exists>s. inside s [(26, 26), (33, 33)] \<and>
    (\<forall>rest. req_run relaxed buf 3 p (path @ rest) (parser, evs) = req_run relaxed buf s (p + length path) rest (parser\<lparr>hp_mark := p\<rparr>, evs))"
proof -
  obtain xs where path: "path = CHR ''/'' # xs" "pct_text pathc xs" "xs = [] \<or> hd xs \<noteq> CHR ''/''"
    using assms by (auto simp: path_ok_def split: list.splits)
  have first: "req_run relaxed buf 3 p (path @ rest) (parser, evs) = req_run relaxed buf 33 (p + 1) (xs @ rest) (parser\<lparr>hp_mark := p\<rparr>, evs)" for rest
    by (simp add: path(1) req_one [OF target_leads(1)])
  show ?thesis
  proof (cases "xs = []")
    case True
    then show ?thesis using first path(1) by (intro exI [of _ 33]) (simp add: inside_def)
  next
    case False
    then have hd: "hd xs = CHR ''%'' \<or> among (schar (hd xs)) path1" using path(2,3) pct_hd path1_pathc by blast
    have "req_run relaxed buf 33 (p + 1) (xs @ rest) st = req_run relaxed buf 26 (p + 1 + length xs) rest st" for rest st
      by (simp add: req.scan_pct_in [OF target_leads(4,5,6,7,2,3) path(2) False hd])
    then show ?thesis using first path(1) by (intro exI [of _ 26]) (simp add: inside_def)
  qed
qed

lemma query_run:
  assumes "pct_text queryc q" "q \<noteq> []"
  shows "req_run relaxed buf 29 p (q @ rest) (parser, evs) = req_run relaxed buf 30 (p + length q) rest (parser\<lparr>hp_query_start := p\<rparr>, evs)"
  by (simp add: req.scan_pct_in [OF query_leads(3-6,1,2) assms pct_hd [OF assms]])

lemma fragment_run:
  assumes "pct_text queryc f" "f \<noteq> []"
  shows "req_run relaxed buf 20 p (f @ CHR '' '' # rest) (parser, evs) =
    req_run relaxed buf 4 (p + length f + 1) rest (parser\<lparr>hp_mark := p\<rparr>, evs @ [OnFragment p (length f)])"
  using req.scan_pct_in [OF fragment_leads(3-6,1,2) assms pct_hd [OF assms], of "\<lambda>a. a = Qdone" relaxed "req_act buf" p "CHR '' '' # rest" "(parser, evs)"]
  by (simp add: req_one [OF fragment_leads(7)])

definition target_events :: "nat \<Rightarrow> string \<Rightarrow> string \<Rightarrow> string \<Rightarrow> req_event list" where
  "target_events p path q f =
     [OnPath p (length path)] @ (if q = [] then [] else [OnQuery (p + length path + 1) (length q)]) @
     [OnUri p (length (path @ opt_part (CHR ''?'') q))] @
     (if f = [] then [] else [OnFragment (p + length (path @ opt_part (CHR ''?'') q) + 1) (length f)])"

lemma hp_swap: "parser\<lparr>hp_mark := a, hp_query_start := b\<rparr> = parser\<lparr>hp_query_start := b, hp_mark := a\<rparr>"
  by (cases parser) simp

lemma target_run:
  assumes "path_ok path" "pct_text queryc q" "pct_text queryc f"
  shows "\<exists>qs mark. mark \<in> {p, p + length (path @ opt_part (CHR ''?'') q) + 1} \<and> (f = [] \<longrightarrow> mark = p) \<and>
    (\<forall>rest. req_run relaxed buf 3 p (path @ opt_part (CHR ''?'') q @ opt_part (CHR ''#'') f @ CHR '' '' # rest) (parser, evs) =
      req_run relaxed buf 4 (p + length (path @ opt_part (CHR ''?'') q @ opt_part (CHR ''#'') f) + 1) rest
        (parser\<lparr>hp_query_start := qs, hp_mark := mark\<rparr>, evs @ target_events p path q f))"
proof -
  obtain s where s: "inside s [(26, 26), (33, 33)]" "\<And>rest. req_run relaxed buf 3 p (path @ rest) (parser, evs) =
      req_run relaxed buf s (p + length path) rest (parser\<lparr>hp_mark := p\<rparr>, evs)"
    using path_run [OF assms(1)] by blast
  let ?qs = "if q = [] then hp_query_start parser else p + length path + 1"
  let ?m = "p + length (path @ opt_part (CHR ''?'') q) + 1"
  have end_q: "req_run relaxed buf s (p + length path) (opt_part (CHR ''?'') q @ c # rest) (parser\<lparr>hp_mark := p\<rparr>, evs) =
      req_run relaxed buf (if c = CHR '' '' then 4 else 20) ?m rest (parser\<lparr>hp_mark := p, hp_query_start := ?qs\<rparr>, evs @ target_events p path q [])"
    if "c \<in> {CHR '' '', CHR ''#''}" for c rest
  proof (cases "q = []")
    case True
    then show ?thesis using that s(1)
      by (auto simp: opt_part_def target_events_def req_oneof [OF target_leads(8)] req_oneof [OF target_leads(10)])
  next
    case False
    then show ?thesis using that s(1)
      by (auto simp: opt_part_def target_events_def req_oneof [OF target_leads(9)] query_run [OF assms(2)] req_one [OF query_leads(7)]
          req_one [OF query_leads(8)] add.assoc)
  qed
  show ?thesis
  proof (cases "f = []")
    case True
    then show ?thesis using s(2) end_q [of "CHR '' ''"] by - (rule exI [of _ ?qs], rule exI [of _ p], simp add: opt_part_def hp_swap)
  next
    case False
    have "target_events p path q f = target_events p path q [] @ [OnFragment ?m (length f)]" using False by (simp add: target_events_def)
    then show ?thesis using s(2) end_q [of "CHR ''#''"] False
      by - (rule exI [of _ ?qs], rule exI [of _ ?m], simp add: opt_part_def fragment_run [OF assms(3) False] add.assoc)
  qed
qed

text \<open>The version and the end of the request line.\<close>

lemma version_chars [simp]: "among (schar (CHR ''H'')) [(72, 72)]" "among (schar (CHR ''T'')) [(84, 84)]" "among (schar (CHR ''P'')) [(80, 80)]"
  "among (schar (CHR ''1'')) [(49, 49)]" "among (schar (CHR ''.'')) [(46, 46)]"
  by code_simp+

lemma req_version:
  assumes "among (schar x) [(48, 49)]"
  shows "req_run relaxed buf 4 p (''HTTP/1.'' @ x # CRLF @ rest) (parser, evs) =
    req_run relaxed buf 13 (p + 10) rest (parser\<lparr>hp_mark := p\<rparr>, evs @ [OnVersion p 8])"
  by (simp add: CRLF_def req_one [OF version_leads(1)] req_one [OF version_leads(2)] req_one [OF version_leads(3)] req_one [OF version_leads(4)]
      req_one [OF version_leads(5)] req_one [OF version_leads(6)] req_one [OF version_leads(7)] req_one [OF version_leads(8) assms]
      req_one [OF version_leads(9)] req_one [OF field_leads(9)])
    (simp add: numeral_eq_Suc)

text \<open>A header line.\<close>

definition qfield_ok :: "field \<Rightarrow> bool" where
  "qfield_ok = (\<lambda>(k, w, v). is_name k \<and> list_all (\<lambda>c. among (schar c) qblanks) w \<and> list_all (\<lambda>c. among (schar c) qtexts) v \<and>
     (v = [] \<or> among (schar (hd v)) qinks))"

lemma qblank_run:
  "list_all (\<lambda>c. among (schar c) qblanks) w \<Longrightarrow> \<exists>m. \<forall>rest. req_run relaxed buf 15 p (w @ rest) (parser, evs) =
    req_run relaxed buf 15 (p + length w) rest (parser\<lparr>hp_mark := m\<rparr>, evs)"
proof (induction w arbitrary: p parser)
  case Nil
  have "parser\<lparr>hp_mark := hp_mark parser\<rparr> = parser" by simp
  then show ?case by (intro exI [of _ "hp_mark parser"]) simp
next
  case (Cons c w)
  then obtain m where "\<forall>rest. req_run relaxed buf 15 (p + 1) (w @ rest) (parser\<lparr>hp_mark := p\<rparr>, evs) =
    req_run relaxed buf 15 (p + 1 + length w) rest (parser\<lparr>hp_mark := p, hp_mark := m\<rparr>, evs)" by fastforce
  then show ?case using Cons.prems by (intro exI [of _ m]) (simp add: req_one [OF field_leads(4)])
qed

lemma qvalue_run:
  assumes "list_all (\<lambda>c. among (schar c) qtexts) v" "v = [] \<or> among (schar (hd v)) qinks"
  shows "req_run relaxed buf 15 p (v @ CRLF @ rest) (parser, evs) = req_run relaxed buf 13 (p + length v + 2) rest
    (parser\<lparr>hp_mark := p\<rparr>, evs @ [OnField (hp_field_start parser) (hp_field_len parser) p (length v)])"
proof (cases v)
  case Nil
  then show ?thesis by (simp add: CRLF_def req_one [OF field_leads(6)] req_one [OF field_leads(9)])
next
  case (Cons c cs)
  then have c: "among (schar c) qinks" "list_all (\<lambda>c. among (schar c) qtexts) cs" using assms by simp_all
  show ?thesis
    by (simp add: Cons CRLF_def req_one [OF field_leads(5) c(1)] req.scan_loop [OF field_leads(7) c(2)] req_one [OF field_leads(8)]
        req_one [OF field_leads(9)])
qed

lemma qfield_run:
  assumes "qfield_ok (k, w, v)"
  shows "req_run relaxed buf 13 p (k @ '':'' @ w @ v @ CRLF @ rest) (parser, evs) =
    req_run relaxed buf 13 (p + length (k @ '':'' @ w @ v @ CRLF)) rest
      (parser\<lparr>hp_field_start := p, hp_field_len := length k, hp_mark := p + length k + 1 + length w\<rparr>,
       evs @ [OnField p (length k) (p + length k + 1 + length w) (length v)])"
proof -
  obtain c ks where k: "k = c # ks" using assms by (cases k) (auto simp: qfield_ok_def is_name_def)
  have ok: "among (schar c) tokens" "list_all (\<lambda>c. among (schar c) tokens) ks" "list_all (\<lambda>c. among (schar c) qblanks) w"
    "list_all (\<lambda>c. among (schar c) qtexts) v" "v = [] \<or> among (schar (hd v)) qinks"
    using assms k by (simp_all add: qfield_ok_def is_name_def)
  let ?parser = "parser\<lparr>hp_field_start := p, hp_field_len := length k\<rparr>"
  have "req_run relaxed buf 13 p (k @ '':'' @ w @ v @ CRLF @ rest) (parser, evs) =
      req_run relaxed buf 15 (p + length k + 1) (w @ v @ CRLF @ rest) (?parser, evs)"
    by (simp add: k req_one [OF field_leads(1) ok(1)] req.scan_loop [OF field_leads(2) ok(2)] req_one [OF field_leads(3)])
  moreover obtain m where "\<forall>rest. req_run relaxed buf 15 (p + length k + 1) (w @ rest) (?parser, evs) =
      req_run relaxed buf 15 (p + length k + 1 + length w) rest (?parser\<lparr>hp_mark := m\<rparr>, evs)" using qblank_run [OF ok(3)] by blast
  ultimately show ?thesis
    by (simp add: qvalue_run [OF ok(4,5)] CRLF_def [THEN arg_cong, of length] add.assoc)
qed

section \<open>Heads\<close>

fun qfield_events :: "nat \<Rightarrow> field list \<Rightarrow> req_event list" where
  "qfield_events p [] = []"
| "qfield_events p ((k, w, v) # fs) =
     OnField p (length k) (p + length k + 1 + length w) (length v) # qfield_events (p + length (k @ '':'' @ w @ v @ CRLF)) fs"

definition req_frame :: "http_parser \<Rightarrow> nat \<Rightarrow> http_parser \<Rightarrow> bool" where
  "req_frame parser n parser' \<longleftrightarrow> hp_nread parser' = hp_nread parser \<and> hp_cs parser' = hp_cs parser \<and>
     hp_xml_sent parser' = hp_xml_sent parser \<and> hp_json_sent parser' = hp_json_sent parser \<and>
     hp_mark parser' < n \<and> hp_field_start parser' < n \<and> hp_field_len parser' \<le> n"

lemma qfields_run:
  assumes "list_all qfield_ok fs" "req_frame parser0 p parser"
  shows "\<exists>parser'. req_frame parser0 (p + length (field_text fs)) parser' \<and>
    (\<forall>rest. req_run relaxed buf 13 p (field_text fs @ rest) (parser, evs) =
      req_run relaxed buf 13 (p + length (field_text fs)) rest (parser', evs @ qfield_events p fs))"
  using assms
proof (induction fs arbitrary: p parser evs)
  case (Cons f fs)
  obtain k w v where f: "f = (k, w, v)" by (cases f)
  let ?q = "p + length (k @ '':'' @ w @ v @ CRLF)" and ?ev = "OnField p (length k) (p + length k + 1 + length w) (length v)"
  let ?parser = "parser\<lparr>hp_field_start := p, hp_field_len := length k, hp_mark := p + length k + 1 + length w\<rparr>"
  have "req_frame parser0 ?q ?parser" using Cons.prems(2) by (simp add: req_frame_def CRLF_def)
  then obtain parser' where ih: "req_frame parser0 (?q + length (field_text fs)) parser'"
    "\<And>rest. req_run relaxed buf 13 ?q (field_text fs @ rest) (?parser, evs @ [?ev]) =
       req_run relaxed buf 13 (?q + length (field_text fs)) rest (parser', (evs @ [?ev]) @ qfield_events ?q fs)"
    using Cons.IH [of ?q ?parser "evs @ [?ev]"] Cons.prems(1) by auto
  have "req_run relaxed buf 13 p (field_text (f # fs) @ rest) (parser, evs) =
      req_run relaxed buf 13 (p + length (field_text (f # fs))) rest (parser', evs @ qfield_events p (f # fs))" for rest
    using qfield_run [of k w v relaxed buf p "field_text fs @ rest" parser evs] ih(2) [of rest] Cons.prems(1) by (simp add: f add.assoc)
  moreover have "req_frame parser0 (p + length (field_text (f # fs))) parser'" using ih(1) by (simp add: f add.assoc)
  ultimately show ?case by blast
qed auto

lemma req_done: "steps req_table (widec relaxed) 18 (CHR 0x0A) = Some (348, [Qdone])"
  using req.leadsD [OF field_leads(11), of 18 "CHR 0x0A"] by (auto simp: inside_def)

text \<open>A whole head, and what follows it.\<close>

lemma req_head_run:
  assumes "m \<noteq> []" "length m \<le> 20" "list_all (\<lambda>c. among (schar c) uppers) m" "path_ok path" "pct_text queryc q" "pct_text queryc f"
    "among (schar x) [(48, 49)]" "list_all qfield_ok fs" "hp_xml_sent parser = False" "hp_json_sent parser = False"
    "hp_field_start parser = 0" "hp_field_len parser = 0"
    "t = path @ opt_part (CHR ''?'') q @ opt_part (CHR ''#'') f" "a = length m + length t + 2" "n = a + 10" "e = n + length (field_text fs)"
  shows "\<exists>parser'. req_frame parser (e + 1) parser' \<and>
    req_run relaxed buf 1 0 (m @ '' '' @ t @ '' HTTP/1.'' @ [x] @ CRLF @ field_text fs @ CRLF @ rest) (parser, []) =
    (348, e + 2, parser'\<lparr>hp_body_start := e + 2\<rparr>,
     OnMethod 0 (length m) # target_events (length m + 1) path q f @ [OnVersion a 8] @ qfield_events n fs @
     [OnHeaderDone (e + 2) (length buf - e - 2)])"
proof -
  let ?rest = "field_text fs @ CRLF @ rest"
  obtain qs mark where target: "\<And>rest. req_run relaxed buf 3 (length m + 1) (t @ CHR '' '' # rest) (parser\<lparr>hp_mark := 0\<rparr>, [OnMethod 0 (length m)]) =
      req_run relaxed buf 4 a rest (parser\<lparr>hp_mark := 0, hp_query_start := qs, hp_mark := mark\<rparr>,
        OnMethod 0 (length m) # target_events (length m + 1) path q f)"
    using target_run [OF assms(4-6), of "length m + 1" relaxed buf "parser\<lparr>hp_mark := 0\<rparr>" "[OnMethod 0 (length m)]"] assms(13,14)
    by (auto simp: add.assoc)
  let ?parser = "parser\<lparr>hp_query_start := qs, hp_mark := a\<rparr>"
  let ?evs = "OnMethod 0 (length m) # target_events (length m + 1) path q f @ [OnVersion a 8]"
  have "req_run relaxed buf 1 0 (m @ '' '' @ t @ '' HTTP/1.'' @ [x] @ CRLF @ ?rest) (parser, []) = req_run relaxed buf 13 n ?rest (?parser, ?evs)"
    using method_run [OF assms(1-3), of relaxed buf "t @ CHR '' '' # ''HTTP/1.'' @ x # CRLF @ ?rest" parser]
      target [of "''HTTP/1.'' @ x # CRLF @ ?rest"] req_version [OF assms(7), of relaxed buf a ?rest] assms(15)
    by (simp add: hp_swap)
  moreover obtain parser' where parser': "req_frame parser e parser'"
    "\<And>rest. req_run relaxed buf 13 n (field_text fs @ rest) (?parser, ?evs) = req_run relaxed buf 13 e rest (parser', ?evs @ qfield_events n fs)"
    using qfields_run [OF assms(8), of parser n ?parser relaxed buf ?evs] assms(11,12,15,16) by (auto simp: req_frame_def)
  moreover have "req_run relaxed buf 13 e (CRLF @ rest) (parser', evs) =
      (348, e + 2, fold (\<lambda>a. req_act buf a (e + 1)) [Qdone] (parser'\<lparr>hp_field_start := e\<rparr>, evs))" for evs
    using scan_stop [OF req_done, of "\<lambda>a. a = Qdone" relaxed "req_act buf" "e + 1" rest]
    by (simp add: CRLF_def req_one [OF field_leads(10)])
  ultimately show ?thesis
    using parser'(1) assms(9,10) by (intro exI [of _ "parser'\<lparr>hp_field_start := e\<rparr>"]) (auto simp: req_frame_def)
qed

section \<open>What is read is what was written\<close>

definition set_qfields :: "field list \<Rightarrow> http_request \<Rightarrow> http_request" where
  "set_qfields fs r = r\<lparr>rq_headers := foldl (\<lambda>m (k, w, v). map_assign CaseInsensitiveLess k v m) (rq_headers r) fs\<rparr>"

lemma qfield_callbacks:
  assumes "list_all qfield_ok fs" "data = pre @ field_text fs @ post" "p = length pre"
  shows "callbacks (on_request data) (qfield_events p fs) rp = Inr (rp\<lparr>rp_data := set_qfields fs (rp_data rp)\<rparr>)"
  using assms
proof (induction fs arbitrary: p pre rp)
  case (Cons f fs)
  obtain k w v where f: "f = (k, w, v)" by (cases f)
  have k: "text_at data p (length k) = Inr k" using Cons.prems(2,3) by (simp add: f text_at_mid)
  have v: "text_at data (p + length k + 1 + length w) (length v) = Inr v"
    using text_at_mid [of _ "pre @ k @ '':'' @ w" _ v "CRLF @ field_text fs @ post"] Cons.prems(2,3) by (simp add: f add.assoc)
  have "k \<noteq> []" using Cons.prems(1) by (simp add: f qfield_ok_def is_name_def)
  then have "on_request data (OnField p (length k) (p + length k + 1 + length w) (length v)) rp =
      Inr (rp\<lparr>rp_data := setHeader (rp_data rp) k v\<rparr>)" using k v by (simp add: on_request_http_field_def)
  then show ?case
    using Cons.IH [of "pre @ k @ '':'' @ w @ v @ CRLF" "p + length (k @ '':'' @ w @ v @ CRLF)"] Cons.prems
    by (simp add: f set_qfields_def setHeader_def)
qed (simp add: set_qfields_def)

definition dump_target :: "http_request \<Rightarrow> string" where
  "dump_target r = rq_path r @ opt_part (CHR ''?'') (rq_query r) @ opt_part (CHR ''#'') (rq_fragment r)"

definition is_qblank :: "char \<Rightarrow> bool" where
  "is_qblank c \<longleftrightarrow> among (schar c) qblanks"

definition is_qtext :: "string \<Rightarrow> bool" where
  "is_qtext v \<longleftrightarrow> list_all (\<lambda>c. among (schar c) qtexts) v"

definition dump_qfields :: "http_request \<Rightarrow> field list" where
  "dump_qfields r =
     [(''connection'', '' '', if rq_close r then ''close'' else ''keep-alive'')] @
     map (\<lambda>(k, v). (k, takeWhile is_qblank v, dropWhile is_qblank v)) (filter (\<lambda>(k, v). strcasecmp k ''connection'' \<noteq> 0) (rq_headers r)) @
     (if rq_body r = [] then [] else [(''content-length'', '' '', dec (length (rq_body r)))])"

lemma field_text_qheaders:
  "field_text (map (\<lambda>(k, v). (k, takeWhile is_qblank v, dropWhile is_qblank v)) (filter (\<lambda>(k, v). strcasecmp k ''connection'' \<noteq> 0) m)) =
     header_lines '':'' m"
  by (induction m) (auto simp: header_lines_def)

lemma dump_request_text:
  assumes "rq_version r = 0x10 \<and> x = CHR ''0'' \<or> rq_version r = 0x11 \<and> x = CHR ''1''"
  shows "dump_request r = HttpMethodToString (rq_method r) @ '' '' @ dump_target r @ '' HTTP/1.'' @ [x] @ CRLF @
    field_text (dump_qfields r) @ CRLF @ rq_body r"
proof -
  have "version_str (rq_version r) = ''1.'' @ [x]" using assms by (elim disjE) (simp_all, code_simp+)
  then show ?thesis
    by (simp add: dump_request_def dump_target_def opt_part_def dump_qfields_def field_text_append field_text_qheaders connection_line_def body_part_def)
qed

text \<open>Requests whose parts the grammar knows; it has no name with a hyphen, so that \<^verbatim>\<open>M-SEARCH\<close> is left out.\<close>

definition request_ok :: "http_request \<Rightarrow> bool" where
  "request_ok r \<longleftrightarrow> rq_method r \<notin> {INVALID_METHOD, MSEARCH} \<and> rq_version r \<in> {0x10, 0x11} \<and> path_ok (rq_path r) \<and>
     pct_text queryc (rq_query r) \<and> pct_text queryc (rq_fragment r) \<and>
     list_all (\<lambda>(k, v). is_name k \<and> is_qtext v) (rq_headers r)"

lemma method_texts: "list_all (\<lambda>(num, name, str). name \<noteq> MSEARCH \<longrightarrow> str \<noteq> [] \<and> length str \<le> 20 \<and> list_all (\<lambda>c. among (schar c) uppers) str) HTTP_METHOD_MAP"
  by (simp add: HTTP_METHOD_MAP_def among_def uppers_def schar_def byte_of_def)

lemma method_text:
  assumes "m \<notin> {INVALID_METHOD, MSEARCH}"
  shows "HttpMethodToString m \<noteq> [] \<and> length (HttpMethodToString m) \<le> 20 \<and> list_all (\<lambda>c. among (schar c) uppers) (HttpMethodToString m)"
  using HttpMethodToString_table [of m] method_texts assms by (fastforce simp: list_all_iff)

lemma chars_method: "m \<noteq> INVALID_METHOD \<Longrightarrow> CharsToHttpMethod (HttpMethodToString m @ rest) = m"
proof -
  assume "m \<noteq> INVALID_METHOD"
  then obtain n where t: "(n, m, HttpMethodToString m) \<in> set HTTP_METHOD_MAP" using HttpMethodToString_table by blast
  have "(case filter (\<lambda>(num, name, s). prefix s (HttpMethodToString m @ rest)) HTTP_METHOD_MAP of
      [] \<Rightarrow> INVALID_METHOD | y # _ \<Rightarrow> fst (snd y)) = fst (snd (n, m, HttpMethodToString m))"
    by (rule first_match [OF t]) (use prefix_free [OF _ t] in \<open>auto\<close>)
  then show ?thesis unfolding CharsToHttpMethod_prefix by (auto simp: case_prod_beta split: list.splits)
qed

lemma dump_qfields_ok:
  assumes "request_ok r"
  shows "list_all qfield_ok (dump_qfields r)"
proof -
  have name: "is_name ''connection''" "is_name ''content-length''" "is_qtext ''close''" "is_qtext ''keep-alive''"
    "list_all is_qblank '' ''" "among (schar (CHR ''c'')) qinks" "among (schar (CHR ''k'')) qinks" by code_simp+
  have digit: "among (schar c) qtexts \<and> among (schar c) qinks" if "c \<in> set (dec n)" for c n
    using dec_digits [OF that] by (simp add: among_def req_sets schar_def Let_def)
  have ink: "among (schar c) qinks" if "among (schar c) qtexts" "\<not> is_qblank c" for c
    using that by (auto simp: is_qblank_def among_def req_sets)
  have hd: "dropWhile is_qblank v = [] \<or> among (schar (hd (dropWhile is_qblank v))) qinks" if "is_qtext v" for v
  proof (cases "dropWhile is_qblank v")
    case (Cons c cs)
    then have "c \<in> set v" "\<not> is_qblank c" by (metis list.set_intros(1) set_dropWhileD, metis dropWhile_eq_Cons_conv)
    then show ?thesis using Cons that ink by (simp add: is_qtext_def list_all_iff)
  qed simp
  have "qfield_ok (k, takeWhile is_qblank v, dropWhile is_qblank v)" if "is_name k" "is_qtext v" for k v
    using that hd [OF that(2)] by (auto simp: qfield_ok_def is_qtext_def is_qblank_def list_all_iff dest: set_takeWhileD set_dropWhileD)
  moreover have "list_all (\<lambda>(k, v). is_name k \<and> is_qtext v) (rq_headers r)" using assms by (simp add: request_ok_def)
  ultimately have "list_all qfield_ok (map (\<lambda>(k, v). (k, takeWhile is_qblank v, dropWhile is_qblank v))
      (filter (\<lambda>(k, v). strcasecmp k ''connection'' \<noteq> 0) (rq_headers r)))" by (fastforce simp: list_all_iff)
  moreover have "qfield_ok (''connection'', '' '', if rq_close r then ''close'' else ''keep-alive'')"
    using name by (simp add: qfield_ok_def is_qtext_def is_qblank_def)
  moreover have "qfield_ok (''content-length'', '' '', dec n)" for n
    using name digit [of _ n] dec_chars(3) [of n] hd_in_set [of "dec n"] by (auto simp: qfield_ok_def list_all_iff is_qblank_def)
  ultimately show ?thesis by (simp add: dump_qfields_def)
qed

definition request_head :: "http_request \<Rightarrow> string" where
  "request_head r = take (length (dump_request r) - length (rq_body r)) (dump_request r)"

definition read_request :: "http_request \<Rightarrow> http_request" where
  "read_request r =
     set_qfields (dump_qfields r) ((HttpRequest (rq_version r) True)\<lparr>rq_method := rq_method r, rq_path := rq_path r, rq_query := rq_query r,
       rq_fragment := rq_fragment r\<rparr>)"

lemma request_head_text:
  assumes "request_ok r"
  obtains x where "rq_version r = 0x10 \<and> x = CHR ''0'' \<or> rq_version r = 0x11 \<and> x = CHR ''1''"
    "request_head r = HttpMethodToString (rq_method r) @ '' '' @ dump_target r @ '' HTTP/1.'' @ [x] @ CRLF @ field_text (dump_qfields r) @ CRLF"
    "dump_request r = request_head r @ rq_body r"
proof -
  obtain x where x: "rq_version r = 0x10 \<and> x = CHR ''0'' \<or> rq_version r = 0x11 \<and> x = CHR ''1''"
    using assms by (auto simp: request_ok_def)
  have "request_head r = HttpMethodToString (rq_method r) @ '' '' @ dump_target r @ '' HTTP/1.'' @ [x] @ CRLF @ field_text (dump_qfields r) @ CRLF"
    using take_front [OF dump_request_text [OF x, folded append_assoc]] by (simp add: request_head_def)
  then show thesis using that [OF x] dump_request_text [OF x] by simp
qed

text \<open>The callbacks of the request line.\<close>

lemma target_callbacks:
  assumes "data = pre @ path @ opt_part (CHR ''?'') q @ opt_part (CHR ''#'') f @ post" "p = length pre"
    "rq_query (rp_data rp) = []" "rq_fragment (rp_data rp) = []"
  shows "callbacks (on_request data) (target_events p path q f) rp =
    Inr (rp\<lparr>rp_data := (rp_data rp)\<lparr>rq_path := path, rq_query := q, rq_fragment := f\<rparr>\<rparr>)"
proof -
  have path: "text_at data p (length path) = Inr path" using assms(1,2) by (simp add: text_at_mid)
  have query: "text_at data (p + length path + 1) (length q) = Inr q" if "q \<noteq> []"
    using text_at_mid [of _ "pre @ path @ ''?''" _ q "opt_part (CHR ''#'') f @ post"] assms(1,2) that by (simp add: opt_part_def)
  have fragment: "text_at data (p + length (path @ opt_part (CHR ''?'') q) + 1) (length f) = Inr f" if "f \<noteq> []"
    using text_at_mid [of _ "pre @ path @ opt_part (CHR ''?'') q @ ''#''" _ f post] assms(1,2) that by (simp add: opt_part_def [of "CHR ''#''"])
  have upd: "d\<lparr>rq_path := path, rq_query := q, rq_fragment := f\<rparr> = d\<lparr>rq_path := path\<rparr>"
    if "q = []" "f = []" "rq_query d = []" "rq_fragment d = []" for d :: http_request using that by (cases d) simp
  have upd1: "d\<lparr>rq_path := path, rq_query := q, rq_fragment := f\<rparr> = d\<lparr>rq_path := path, rq_query := q\<rparr>"
    if "f = []" "rq_fragment d = []" for d :: http_request using that by (cases d) simp
  have upd2: "d\<lparr>rq_path := path, rq_query := q, rq_fragment := f\<rparr> = d\<lparr>rq_path := path, rq_fragment := f\<rparr>"
    if "q = []" "rq_query d = []" for d :: http_request using that by (cases d) simp
  show ?thesis
    using path query fragment upd [of "rp_data rp"] upd1 [of "rp_data rp"] upd2 [of "rp_data rp"] assms(3,4)
    by (cases "q = []"; cases "f = []")
      (simp_all add: target_events_def on_request_path_def on_request_query_def on_request_fragment_def setPath_def setQuery_def setFragment_def)
qed

lemma version_event_at:
  assumes "data = pre @ ''HTTP/1.'' @ x # rest" "p = length pre"
  shows "x = CHR ''0'' \<Longrightarrow> version_at data p 8 = Some 0x10" "x = CHR ''1'' \<Longrightarrow> version_at data p 8 = Some 0x11"
proof -
  have "version_at data p 8 = version_at (drop p data) 0 8" by (simp add: version_at_def)
  then show "x = CHR ''0'' \<Longrightarrow> version_at data p 8 = Some 0x10" "x = CHR ''1'' \<Longrightarrow> version_at data p 8 = Some 0x11"
    using version_event [of "drop p data" x rest] assms by simp_all
qed

lemma request_callbacks:
  assumes "request_ok r" "m = HttpMethodToString (rq_method r)" "a = length m + length (dump_target r) + 2" "data = request_head r @ rest"
    "rp_data rp = HttpRequest 0x11 True"
  shows "callbacks (on_request data) (OnMethod 0 (length m) # target_events (length m + 1) (rq_path r) (rq_query r) (rq_fragment r) @ [OnVersion a 8] @
      qfield_events (a + 10) (dump_qfields r) @ [OnHeaderDone b c]) rp = Inr (rp\<lparr>rp_data := read_request r\<rparr>)"
proof -
  obtain x where x: "rq_version r = 0x10 \<and> x = CHR ''0'' \<or> rq_version r = 0x11 \<and> x = CHR ''1''"
    "request_head r = m @ '' '' @ dump_target r @ '' HTTP/1.'' @ [x] @ CRLF @ field_text (dump_qfields r) @ CRLF"
    by (rule request_head_text [OF assms(1)]) (simp add: assms(2))
  have meth: "CharsToHttpMethod data = rq_method r" "rq_method r \<noteq> INVALID_METHOD"
    using assms(1,2,4) x(2) chars_method [of "rq_method r"] by (simp_all add: request_ok_def)
  have target: "data = (m @ '' '') @ rq_path r @ opt_part (CHR ''?'') (rq_query r) @ opt_part (CHR ''#'') (rq_fragment r) @
      '' HTTP/1.'' @ [x] @ CRLF @ field_text (dump_qfields r) @ CRLF @ rest"
    using assms(4) x(2) by (simp add: dump_target_def)
  have data: "data = (m @ '' '' @ dump_target r @ '' '') @ ''HTTP/1.'' @ x # CRLF @ field_text (dump_qfields r) @ CRLF @ rest"
    using assms(4) x(2) by simp
  have ver: "version_at data a 8 = Some (rq_version r)" using version_event_at [OF data, of a] assms(3) x(1) by auto
  have fields: "callbacks (on_request data) (qfield_events (a + 10) (dump_qfields r)) rp' =
      Inr (rp'\<lparr>rp_data := set_qfields (dump_qfields r) (rp_data rp')\<rparr>)" for rp'
    by (rule qfield_callbacks [OF dump_qfields_ok [OF assms(1)], of _ "m @ '' '' @ dump_target r @ '' HTTP/1.'' @ x # CRLF" "CRLF @ rest"])
      (simp_all add: data assms(3) CRLF_def)
  note line = target_callbacks [OF target, of "Suc (length m)"]
  show ?thesis
    by (simp add: callbacks_append on_request_method_def meth line on_request_version_def ver fields assms(5) Let_def
        HttpRequest_def setMethod_def setVersion_def read_request_def)
qed

lemma request_execute:
  assumes "request_ok r" "data = request_head r @ extra @ tail" "n = length (request_head r)"
  shows "\<exists>parser' marks evs. req_scan relaxed (http_parser_init junk) (take (n + length extra) data) = (348, n, marks, evs) \<and>
    rp_execute (req_scan relaxed) data (n + length extra) (newRequestParser junk) =
      Inr (n, memmove data n (length extra), \<lparr>rp_parser = parser', rp_data = read_request r, rp_error = 0\<rparr>) \<and>
    hp_cs parser' = 348"
proof -
  define m where "m = HttpMethodToString (rq_method r)"
  define a where "a = length m + length (dump_target r) + 2"
  define e where "e = a + 10 + length (field_text (dump_qfields r))"
  obtain x where x: "rq_version r = 0x10 \<and> x = CHR ''0'' \<or> rq_version r = 0x11 \<and> x = CHR ''1''"
    "request_head r = m @ '' '' @ dump_target r @ '' HTTP/1.'' @ [x] @ CRLF @ field_text (dump_qfields r) @ CRLF"
    by (rule request_head_text [OF assms(1)]) (simp add: m_def)
  have ok: "rq_method r \<notin> {INVALID_METHOD, MSEARCH}" "path_ok (rq_path r)" "pct_text queryc (rq_query r)" "pct_text queryc (rq_fragment r)"
    using assms(1) by (simp_all add: request_ok_def)
  have n: "n = e + 2" by (simp add: assms(3) x(2) e_def a_def CRLF_def)
  have digit: "among (schar x) [(48, 49)]" using x(1) by (auto simp: among_def schar_def byte_of_def)
  have init: "hp_xml_sent (http_parser_init junk) = False" "hp_json_sent (http_parser_init junk) = False" "hp_field_start (http_parser_init junk) = 0"
    "hp_field_len (http_parser_init junk) = 0" "hp_cs (http_parser_init junk) = 1" "hp_nread (http_parser_init junk) = 0"
    by (simp_all add: http_parser_init_def http_parser_start_def)
  have front: "take (n + length extra) data = request_head r @ extra" using assms(2,3) by simp
  have rest: "min (length data) (n + length extra) - Suc (Suc e) = length extra" using assms(2,3) n by simp
  let ?evs = "OnMethod 0 (length m) # target_events (length m + 1) (rq_path r) (rq_query r) (rq_fragment r) @ [OnVersion a 8] @
    qfield_events (a + 10) (dump_qfields r) @ [OnHeaderDone (e + 2) (length extra)]"
  have "m @ '' '' @ dump_target r @ '' HTTP/1.'' @ [x] @ CRLF @ field_text (dump_qfields r) @ CRLF @ extra =
      take (n + length extra) data"
    by (simp add: front x(2))
  then obtain parser' where parser': "req_frame (http_parser_init junk) (e + 1) parser'"
    "req_scan relaxed (http_parser_init junk) (take (n + length extra) data) = (348, e + 2, parser'\<lparr>hp_body_start := e + 2\<rparr>, ?evs)"
    using req_head_run [OF _ _ _ ok(2-4) digit dump_qfields_ok [OF assms(1)] init(1-4) dump_target_def a_def refl e_def, of relaxed "take (n + length extra) data" extra]
      method_text [OF ok(1)] rest by (auto simp: req_scan_def init m_def)
  have settle: "http_parser_settle (n + length extra) 348 (e + 2) (parser'\<lparr>hp_body_start := e + 2\<rparr>) =
      Inr (e + 2, parser'\<lparr>hp_body_start := e + 2, hp_cs := 348, hp_nread := e + 2\<rparr>)"
    using parser'(1) n by (simp add: http_parser_settle_def req_frame_def init http_parser_has_error_def http_parser_error_def Let_def)
  have cb: "callbacks (on_request data) ?evs (newRequestParser junk) = Inr ((newRequestParser junk)\<lparr>rp_data := read_request r\<rparr>)"
    by (rule request_callbacks [OF assms(1) m_def a_def assms(2)]) (simp add: newRequestParser_def)
  have "rp_execute (req_scan relaxed) data (n + length extra) (newRequestParser junk) =
      Inr (e + 2, memmove data (e + 2) (n + length extra - (e + 2)), ((newRequestParser junk)\<lparr>rp_data := read_request r\<rparr>)
        \<lparr>rp_parser := parser'\<lparr>hp_body_start := e + 2, hp_cs := 348, hp_nread := e + 2\<rparr>\<rparr>)"
    unfolding rp_execute_def http_parser_execute_def using parser'(2) cb settle n by (simp add: newRequestParser_def)
  then show ?thesis using n parser'(2) by (simp add: newRequestParser_def)
qed

lemma qfields_find:
  assumes "ci_sorted (rq_headers r)" "strcasecmp q ''connection'' \<noteq> 0" "rq_body r = [] \<or> strcasecmp q ''content-length'' \<noteq> 0"
  shows "map_find CaseInsensitiveLess q (rq_headers (read_request r)) = map_option (dropWhile is_qblank) (map_find CaseInsensitiveLess q (rq_headers r))"
proof -
  have "filter (\<lambda>(k, v). strcasecmp k q = 0) (filter (\<lambda>(k, v). strcasecmp k ''connection'' \<noteq> 0) (rq_headers r)) =
      filter (\<lambda>(k, v). strcasecmp k q = 0) (rq_headers r)"
    using assms(2) by (auto simp: strcasecmp_eq intro!: filter_cong)
  moreover have "strcasecmp ''connection'' q \<noteq> 0" "rq_body r = [] \<or> strcasecmp ''content-length'' q \<noteq> 0"
    using assms(2,3) by (auto simp: strcasecmp_eq)
  ultimately have "filter (\<lambda>(k, w, v). strcasecmp k q = 0) (rev (dump_qfields r)) =
      rev (map (\<lambda>(k, v). (k, takeWhile is_qblank v, dropWhile is_qblank v)) (filter (\<lambda>(k, v). strcasecmp k q = 0) (rq_headers r)))"
    by (auto simp: dump_qfields_def rev_map [symmetric] filter_map o_def case_prod_unfold rev_filter [symmetric])
  moreover obtain k where "filter (\<lambda>(k, v). strcasecmp k q = 0) (rq_headers r) =
      (case map_find CaseInsensitiveLess q (rq_headers r) of None \<Rightarrow> [] | Some v \<Rightarrow> [(k, v)])" using find_filter [OF assms(1)] by blast
  ultimately show ?thesis using assigns_find [of "[]" "dump_qfields r" q]
    by (simp add: read_request_def set_qfields_def HttpRequest_def split: option.splits)
qed

lemma qfields_own:
  "map_find CaseInsensitiveLess ''connection'' (rq_headers (read_request r)) = Some (if rq_close r then ''close'' else ''keep-alive'')"
  "rq_body r \<noteq> [] \<Longrightarrow> map_find CaseInsensitiveLess ''content-length'' (rq_headers (read_request r)) = Some (dec (length (rq_body r)))"
proof -
  have eq: "strcasecmp ''connection'' ''connection'' = 0" "strcasecmp ''content-length'' ''content-length'' = 0"
    "strcasecmp ''content-length'' ''connection'' \<noteq> 0" by code_simp+
  have none: "filter (\<lambda>(k, w, v). strcasecmp k ''connection'' = 0) (rev (map (\<lambda>(k, v). (k, takeWhile is_qblank v, dropWhile is_qblank v))
      (filter (\<lambda>(k, v). strcasecmp k ''connection'' \<noteq> 0) m))) = []" for m :: smap
    by (auto simp: filter_empty_conv)
  show "map_find CaseInsensitiveLess ''connection'' (rq_headers (read_request r)) = Some (if rq_close r then ''close'' else ''keep-alive'')"
    using assigns_find [of "[]" "dump_qfields r" "''connection''"] eq none [of "rq_headers r"]
    by (simp add: read_request_def set_qfields_def HttpRequest_def dump_qfields_def)
  show "rq_body r \<noteq> [] \<Longrightarrow> map_find CaseInsensitiveLess ''content-length'' (rq_headers (read_request r)) = Some (dec (length (rq_body r)))"
    using assigns_find [of "[]" "dump_qfields r" "''content-length''"] eq by (simp add: read_request_def set_qfields_def HttpRequest_def dump_qfields_def)
qed

text \<open>The name with a hyphen stops the scanner at its second character.\<close>

lemma msearch_rejected:
  assumes "rq_method r = MSEARCH"
  shows "\<exists>parser' evs. req_scan relaxed (http_parser_init junk) (dump_request r) = (0, 1, parser', evs)"
proof -
  obtain rest where d: "dump_request r = CHR ''M'' # CHR ''-'' # rest"
    using assms by (simp add: dump_request_def HttpMethodToString_def method_num_def s_method_string_def HTTP_METHOD_MAP_def)
  have 1: "steps req_table (widec relaxed) 1 (CHR ''M'') = Some (2, [Qmark])"
    using req.leadsD [OF method_leads(1), of 1 "CHR ''M''"] by (auto simp: inside_def among_def uppers_def schar_def byte_of_def)
  have 2: "steps req_table (widec relaxed) 2 (CHR ''-'') = None"
    by (simp add: steps_def req_table_def req_states_1_def widec_def among_def wides_def schar_def byte_of_def Let_def)
  have "scan req_table (widec relaxed) (req_act buf) (\<lambda>a. a = Qdone) 2 p (CHR ''-'' # rest) st = (0, p, st)" for buf p st
    using 2 upwards_block [of 1 2 req_table] req_blocks by (auto simp: scan.simps(2) steps_def split: option.splits)
  then show ?thesis
    using scan_step [OF 1, of "\<lambda>a. a = Qdone" "req_act (dump_request r)" 0 "CHR ''-'' # rest" "(http_parser_init junk, [])"]
    by (simp add: req_scan_def d http_parser_init_def http_parser_start_def)
qed

text \<open>
  A request of version 1.0 or 1.1 that a client writes with \<^verbatim>\<open>operator<<\<close>, received in one piece, is read back by
  \<^verbatim>\<open>HttpRequestParser::execute\<close> with the scanner, whatever the memory that \<^verbatim>\<open>http_parser_init\<close> leaves alone holds: the parser is
  finished without an error, takes the head and leaves the body at the front of the buffer.  Method, path, query,
  fragment, version and every header are those of the request, blanks in front of a value apart; connection and, for a
  body, content-length are those the writer added.
\<close>

theorem request_roundtrip:
  assumes "request_ok r" "ci_sorted (rq_headers r)"
  shows "\<exists>data' rp. rp_execute (req_scan relaxed) (dump_request r) (length (dump_request r)) (newRequestParser junk) =
      Inr (length (dump_request r) - length (rq_body r), data', rp) \<and>
    take (length (rq_body r)) data' = rq_body r \<and> rp_isFinished rp = 1 \<and> \<not> rp_hasError rp \<and>
    rq_method (rp_data rp) = rq_method r \<and> rq_path (rp_data rp) = rq_path r \<and> rq_query (rp_data rp) = rq_query r \<and>
    rq_fragment (rp_data rp) = rq_fragment r \<and> rq_version (rp_data rp) = rq_version r \<and>
    (\<forall>q. strcasecmp q ''connection'' \<noteq> 0 \<and> (rq_body r = [] \<or> strcasecmp q ''content-length'' \<noteq> 0) \<longrightarrow>
       map_find CaseInsensitiveLess q (rq_headers (rp_data rp)) = map_option (dropWhile is_qblank) (map_find CaseInsensitiveLess q (rq_headers r))) \<and>
    getHeader (rp_data rp) ''connection'' [] = (if rq_close r then ''close'' else ''keep-alive'') \<and>
    (rq_body r \<noteq> [] \<longrightarrow> getHeader (rp_data rp) ''content-length'' [] = dec (length (rq_body r)))"
proof -
  have split: "dump_request r = request_head r @ rq_body r" by (rule request_head_text [OF assms(1)])
  let ?data = "dump_request r" and ?n = "length (request_head r)"
  obtain parser' where e: "rp_execute (req_scan relaxed) ?data (length ?data) (newRequestParser junk) =
      Inr (?n, memmove ?data ?n (length (rq_body r)), \<lparr>rp_parser = parser', rp_data = read_request r, rp_error = 0\<rparr>)" "hp_cs parser' = 348"
    using request_execute [OF assms(1) _ refl, of ?data "rq_body r" "[]" relaxed junk] split by auto
  have "take (length (rq_body r)) (memmove ?data ?n (length (rq_body r))) = rq_body r"
    using memmove_left [of "length ?data" ?data ?n] by (simp add: split)
  moreover have "rq_method (read_request r) = rq_method r" "rq_path (read_request r) = rq_path r" "rq_query (read_request r) = rq_query r"
    "rq_fragment (read_request r) = rq_fragment r" "rq_version (read_request r) = rq_version r"
    by (simp_all add: read_request_def set_qfields_def HttpRequest_def)
  moreover have "http_parser_finish parser' = 1" "\<not> http_parser_has_error parser'"
    using e(2) by (simp_all add: http_parser_finish_def http_parser_has_error_def http_parser_is_finished_def http_parser_error_def
        http_parser_first_final_def)
  ultimately show ?thesis
    using e(1) qfields_find [OF assms(2)] qfields_own [of r] split
    by (auto simp: rp_isFinished_def rp_hasError_def getHeader_def map_get_def)
qed

definition demoReq :: http_request where
  "demoReq = (HttpRequest 0x11 False)\<lparr>rq_method := POST, rq_path := ''/a%20b'', rq_query := ''x=1'', rq_headers := [(''Host'', ''h'')], rq_body := ''hi''\<rparr>"

theorem request_roundtrip_witness:
  "\<exists>k data' rp. rp_execute (req_scan False) (dump_request demoReq) (length (dump_request demoReq)) (newRequestParser 0) = Inr (k, data', rp) \<and>
     rq_method (rp_data rp) = POST \<and> rq_path (rp_data rp) = ''/a%20b'' \<and> rq_query (rp_data rp) = ''x=1'' \<and> getHeader (rp_data rp) ''host'' [] = ''h''"
proof -
  have ok: "request_ok demoReq" "ci_sorted (rq_headers demoReq)" by code_simp+
  have "strcasecmp ''host'' ''connection'' \<noteq> 0" "strcasecmp ''host'' ''content-length'' \<noteq> 0" by code_simp+
  moreover have "map_find CaseInsensitiveLess ''host'' (rq_headers demoReq) = Some ''h''" "dropWhile is_qblank ''h'' = ''h''" by code_simp+
  moreover have "rq_method demoReq = POST" "rq_path demoReq = ''/a%20b''" "rq_query demoReq = ''x=1''" by (simp_all add: demoReq_def)
  moreover obtain data' rp where "rp_execute (req_scan False) (dump_request demoReq) (length (dump_request demoReq)) (newRequestParser 0) =
      Inr (length (dump_request demoReq) - length (rq_body demoReq), data', rp)" "rq_method (rp_data rp) = rq_method demoReq"
    "rq_path (rp_data rp) = rq_path demoReq" "rq_query (rp_data rp) = rq_query demoReq"
    "strcasecmp ''host'' ''connection'' \<noteq> 0 \<and> (rq_body demoReq = [] \<or> strcasecmp ''host'' ''content-length'' \<noteq> 0) \<longrightarrow>
       map_find CaseInsensitiveLess ''host'' (rq_headers (rp_data rp)) = map_option (dropWhile is_qblank) (map_find CaseInsensitiveLess ''host'' (rq_headers demoReq))"
    using request_roundtrip [OF ok, of False 0] by metis
  ultimately show ?thesis
    by (intro exI [of _ "length (dump_request demoReq) - length (rq_body demoReq)"] exI [of _ data'] exI [of _ rp])
      (simp add: getHeader_def map_get_def)
qed

end
