(* ===== verification/HttpExchange.thy ===== *)
theory HttpExchange
  imports ReqScanner HttpConnection
begin

text \<open>
  A request on its way from a client's \<^verbatim>\<open>operator<<\<close> to the server's \<^verbatim>\<open>HttpSession::recvRequest\<close>, and a response on its way
  back to the client's \<^verbatim>\<open>HttpConnection::recvResponse\<close>: the printers, the connection, the generated scanners, the parsers'
  callbacks and the loops that receive, together.
\<close>

section \<open>Requests\<close>

text \<open>A read that brings a whole head.\<close>

lemma read_with_head:
  assumes "length c = n" "head @ rest = c @ later" "length head \<le> n"
  shows "c = head @ drop (length head) c" "n = length head + length (drop (length head) c)"
proof -
  have "head = take (length head) c" using append_eq_conv_conj [of head rest "c @ later"] assms by simp
  then show "c = head @ drop (length head) c" by (metis append_take_drop_id)
qed (use assms in simp)

text \<open>What a head in the buffer makes of a fresh parser, whatever follows it there.\<close>

lemma head_parsed:
  assumes "request_ok r" "data = request_head r @ extra @ tail"
  obtains rp data' marks evs where
    "req_scan relaxed (http_parser_init junk) (take (length (request_head r) + length extra) data) = (348, length (request_head r), marks, evs)"
    "rp_execute (req_scan relaxed) data (length (request_head r) + length extra) (newRequestParser junk) = Inr (length (request_head r), data', rp)"
    "rp_data rp = read_request r" "\<not> rp_hasError rp" "rp_isFinished rp \<noteq> 0"
proof -
  obtain parser' marks evs where e: "req_scan relaxed (http_parser_init junk) (take (length (request_head r) + length extra) data) = (348, length (request_head r), marks, evs)"
    "rp_execute (req_scan relaxed) data (length (request_head r) + length extra) (newRequestParser junk) =
      Inr (length (request_head r), memmove data (length (request_head r)) (length extra), \<lparr>rp_parser = parser', rp_data = read_request r, rp_error = 0\<rparr>)"
    "hp_cs parser' = 348"
    using request_execute [OF assms refl, of relaxed junk] by blast
  show thesis
    by (rule that [OF e(1,2)])
      (simp_all add: rp_hasError_def rp_isFinished_def http_parser_finish_def http_parser_has_error_def http_parser_is_finished_def
        http_parser_error_def http_parser_first_final_def e(3))
qed

lemma request_head_nonempty: "request_ok r \<Longrightarrow> request_head r \<noteq> []"
  by (elim request_head_text) (simp add: CRLF_def)

text \<open>The length of the body that the head announces.\<close>

lemma announced_length:
  assumes "ci_sorted (rq_headers r)" "rp_data rp = read_request r" "length (rq_body r) < 2 ^ 63"
    "rq_body r \<noteq> [] \<Longrightarrow> lexical_cast (dec (length (rq_body r))) = Some (word_of_nat (length (rq_body r)))"
    "rq_body r = [] \<Longrightarrow> map_find CaseInsensitiveLess ''content-length'' (rq_headers r) = None"
  shows "sint (rp_getContentLength lexical_cast rp :: u64) = int (length (rq_body r))"
proof -
  have "strcasecmp ''content-length'' ''connection'' \<noteq> 0" by code_simp
  then show ?thesis
    using assms(2-5) qfields_own(2) [of r] qfields_find [OF assms(1), of "''content-length''"]
    by (cases "rq_body r = []") (simp_all add: rp_getContentLength_def getAs_def signed_of_nat signed_take_bit_int_eq_self)
qed

lemma read_request_fields [simp]:
  "rq_method (read_request r) = rq_method r" "rq_path (read_request r) = rq_path r" "rq_query (read_request r) = rq_query r"
  "rq_fragment (read_request r) = rq_fragment r" "rq_version (read_request r) = rq_version r" "rq_body (read_request r) = []"
  by (simp_all add: read_request_def set_qfields_def HttpRequest_def)

text \<open>\<^verbatim>\<open>init\<close> reads the connection header that the writer added.\<close>

lemma init_read:
  "init (setBody (read_request r) b) = (read_request r)\<lparr>rq_body := b, rq_close := rq_close r\<rparr>"
  "init (read_request r) = (read_request r)\<lparr>rq_close := rq_close r\<rparr>"
proof -
  have "strcasecmp ''close'' ''keep-alive'' \<noteq> 0" "strcasecmp ''keep-alive'' ''keep-alive'' = 0" by code_simp+
  then show "init (setBody (read_request r) b) = (read_request r)\<lparr>rq_body := b, rq_close := rq_close r\<rparr>"
    "init (read_request r) = (read_request r)\<lparr>rq_close := rq_close r\<rparr>"
    using qfields_own(1) [of r] by (simp_all add: init_def setBody_def getHeader_def map_get_def)
qed

text \<open>What the server has of a request: everything but the headers that the writer replaces, and blanks in front of values.\<close>

definition same_request :: "http_request \<Rightarrow> http_request \<Rightarrow> bool" where
  "same_request r q \<longleftrightarrow>
     rq_method q = rq_method r \<and> rq_version q = rq_version r \<and> rq_path q = rq_path r \<and> rq_query q = rq_query r \<and>
     rq_fragment q = rq_fragment r \<and> rq_body q = rq_body r \<and> rq_close q = rq_close r \<and>
     (\<forall>key. strcasecmp key ''connection'' \<noteq> 0 \<and> strcasecmp key ''content-length'' \<noteq> 0 \<longrightarrow>
        map_find CaseInsensitiveLess key (rq_headers q) = map_option (dropWhile is_qblank) (map_find CaseInsensitiveLess key (rq_headers r)))"

lemma same_read:
  assumes "ci_sorted (rq_headers r)"
  shows "same_request r ((read_request r)\<lparr>rq_body := rq_body r, rq_close := rq_close r\<rparr>)"
    "rq_body r = [] \<Longrightarrow> same_request r ((read_request r)\<lparr>rq_close := rq_close r\<rparr>)"
  using qfields_find [OF assms] by (simp_all add: same_request_def)


text \<open>A request whose first read brings the head and one byte of the body, with the next request behind it.\<close>

definition demoPipe :: "char conn" where
  "demoPipe = \<lparr>c_in = dump_request demoReq @ ''GET'', c_out = [], c_script = [int (length (dump_request demoReq)) - 1]\<rparr>"


section \<open>Responses\<close>

lemma dump_head_nonempty: "response_ok r \<Longrightarrow> dump_head r \<noteq> []"
proof -
  assume "response_ok r"
  then obtain x where "rs_version r = 0x10 \<and> x = CHR ''0'' \<or> rs_version r = 0x11 \<and> x = CHR ''1''" "0 \<le> rs_status r" "rs_status r < 2 ^ 31"
    by (auto simp: response_ok_def)
  from take_front [OF dump_text [OF this, folded append_assoc]] show ?thesis by (auto simp: dump_head_def CRLF_def)
qed

lemma response_parsed:
  assumes "response_ok r" "data = dump_head r @ extra @ CHR 0x00 # tail"
  obtains sp data' marks evs where
    "rsp_scan (httpclient_parser_init memory) (dump_head r @ extra) = (120, length (dump_head r), marks, evs)" "hc_body_start marks \<noteq> 0"
    "list_all (plain_name \<circ> fst) (dump_fields r) \<Longrightarrow> \<not> hc_chunked marks"
    "sp_execute rsp_scan data (length (dump_head r) + length extra) False (newResponseParser memory junk) = Inr (length (dump_head r), data', sp)"
    "sp_data sp = read_response junk r" "\<not> sp_hasError sp" "sp_isFinished sp \<noteq> 0" "hc_chunked (sp_parser sp) = hc_chunked marks"
proof -
  obtain parser' marks evs where e: "rsp_scan (httpclient_parser_init memory) (dump_head r @ extra) = (120, length (dump_head r), marks, evs)"
    "hc_body_start marks \<noteq> 0" "list_all (plain_name \<circ> fst) (dump_fields r) \<longrightarrow> \<not> hc_chunked marks"
    "sp_execute rsp_scan data (length (dump_head r) + length extra) False (newResponseParser memory junk) =
      Inr (length (dump_head r), memmove data (length (dump_head r)) (length extra), \<lparr>sp_parser = parser', sp_data = read_response junk r, sp_error = 0\<rparr>)"
    "hc_cs parser' = 120" "hc_chunked parser' = hc_chunked marks"
    using head_execute [OF assms refl, of memory junk] by blast
  show thesis
    by (rule that [OF e(1,2) mp [OF e(3)] e(4)])
      (simp_all add: sp_hasError_def sp_isFinished_def httpclient_parser_finish_def httpclient_parser_has_error_def
        httpclient_parser_is_finished_def httpclient_parser_error_def httpclient_parser_first_final_def e(5,6))
qed

lemma response_length:
  assumes "ci_sorted (rs_headers r)" "sp_data sp = read_response junk r" "length (rs_body r) < 2 ^ 63"
    "rs_body r \<noteq> [] \<Longrightarrow> lexical_cast (dec (length (rs_body r))) = Some (word_of_nat (length (rs_body r)))"
    "rs_body r = [] \<Longrightarrow> map_find CaseInsensitiveLess ''content-length'' (rs_headers r) = None"
  shows "sint (sp_getContentLength lexical_cast sp :: u64) = int (length (rs_body r))"
proof -
  have "strcasecmp ''content-length'' ''connection'' \<noteq> 0" by code_simp
  then show ?thesis
    using assms(2-5) dump_fields_own(2) [of r] dump_fields_find [OF assms(1), of "''content-length''"]
    by (cases "rs_body r = []") (simp_all add: sp_getContentLength_def getAs_def signed_of_nat signed_take_bit_int_eq_self)
qed

definition same_response :: "http_response \<Rightarrow> http_response \<Rightarrow> bool" where
  "same_response r q \<longleftrightarrow>
     rs_version q = rs_version r \<and> rs_status q = rs_status r \<and> rs_reason q = dump_reason r \<and> rs_body q = rs_body r \<and>
     rsp_getHeader q ''connection'' [] = (if rs_close r then ''close'' else ''keep-alive'') \<and>
     (\<forall>key. strcasecmp key ''connection'' \<noteq> 0 \<and> strcasecmp key ''content-length'' \<noteq> 0 \<longrightarrow>
        map_find CaseInsensitiveLess key (rs_headers q) = map_option (dropWhile is_blank) (map_find CaseInsensitiveLess key (rs_headers r)))"

lemma same_read_response:
  assumes "ci_sorted (rs_headers r)"
  shows "same_response r (rsp_setBody (read_response junk r) (rs_body r))"
    "rs_body r = [] \<Longrightarrow> same_response r (read_response junk r)"
proof -
  have "rs_version (read_response junk r) = rs_version r" "rs_status (read_response junk r) = rs_status r"
    "rs_reason (read_response junk r) = dump_reason r" "rs_body (read_response junk r) = []"
    by (simp_all add: read_response_def set_fields_other HttpResponse_def)
  then show "same_response r (rsp_setBody (read_response junk r) (rs_body r))" "rs_body r = [] \<Longrightarrow> same_response r (read_response junk r)"
    using dump_fields_find [OF assms, of _ junk] dump_fields_own(1) [of junk r]
    by (simp_all add: same_response_def rsp_setBody_def rsp_getHeader_def map_get_def)
qed


definition demoReply :: "char conn" where
  "demoReply = \<lparr>c_in = dump_response demoRsp @ ''HTTP'', c_out = [], c_script = [int (length (dump_response demoRsp)) - 1]\<rparr>"


end
