(* ===== verification/UriTable.thy ===== *)
theory UriTable
  imports ReqScanner Uri
begin

text \<open>
  The scanner of URIs: the code that Ragel generated into \<^verbatim>\<open>Uri::Create\<close> (\<^verbatim>\<open>saturn/uri.cc\<close>), its actions as a datatype, its
  560 states as tables, in the order of the file, and the actions at the end of the text.  It is the \<open>run\<close> of \<open>Uri\<close>.  At the
  end, the sets of states that the parts of a URI lead through.
\<close>

section \<open>Actions\<close>

datatype uri_action =
    Umarku | Umarkh | Usave_scheme | Usave_port | Usave_userinfo | Usave_host | Usave_path | Usave_query | Usave_fragment

text \<open>
  The object, the pointer \<^verbatim>\<open>mark\<close> (\<open>None\<close> for \<^verbatim>\<open>NULL\<close>), and the error once one was raised: \<^verbatim>\<open>std::string\<close> throws
  \<^verbatim>\<open>std::logic_error\<close> for a null pointer with a length, \<^verbatim>\<open>atoi\<close> reads through it.
\<close>

type_synonym uri_state = "uri \<times> nat option \<times> cpp_error option"

definition save :: "string \<Rightarrow> nat \<Rightarrow> (string \<Rightarrow> uri \<Rightarrow> uri) \<Rightarrow> uri \<Rightarrow> nat option \<Rightarrow> uri_state" where
  "save text p put u mark =
     (case mark of None \<Rightarrow> (u, None, Some LogicError) | Some k \<Rightarrow> (put (slice text k (p - k)) u, None, None))"

fun uri_do :: "string \<Rightarrow> uri_action \<Rightarrow> nat \<Rightarrow> uri \<Rightarrow> nat option \<Rightarrow> uri_state" where
  "uri_do text Umarku p u mark = (u, Some p, None)"
| "uri_do text Umarkh p u mark = (u, Some p, None)"
| "uri_do text Usave_scheme p u mark = save text p (\<lambda>v u. u\<lparr>u_scheme := v\<rparr>) u mark"
| "uri_do text Usave_port p u mark =
     (if mark = Some p then (u, None, None)
      else case mark of None \<Rightarrow> (u, None, Some OutOfBounds) | Some k \<Rightarrow> (u\<lparr>u_port := atoi (drop k text)\<rparr>, None, None))"
| "uri_do text Usave_userinfo p u mark =
     (case mark of None \<Rightarrow> (u, None, None) | Some k \<Rightarrow> (u\<lparr>u_userinfo := slice text k (p - k)\<rparr>, None, None))"
| "uri_do text Usave_host p u mark =
     (case mark of None \<Rightarrow> (u, mark, None) | Some k \<Rightarrow> (u\<lparr>u_host := slice text k (p - k)\<rparr>, mark, None))"
| "uri_do text Usave_path p u mark = save text p (\<lambda>v u. u\<lparr>u_path := v\<rparr>) u mark"
| "uri_do text Usave_query p u mark = save text p (\<lambda>v u. u\<lparr>u_query := v\<rparr>) u mark"
| "uri_do text Usave_fragment p u mark = save text p (\<lambda>v u. u\<lparr>u_fragment := v\<rparr>) u mark"

definition uri_act :: "string \<Rightarrow> uri_action \<Rightarrow> nat \<Rightarrow> uri_state \<Rightarrow> uri_state" where
  "uri_act text a p st = (case st of (u, mark, err) \<Rightarrow> if err = None then uri_do text a p u mark else st)"

section \<open>States\<close>

definition reg_chars :: chars where
  "reg_chars = [(33, 33), (36, 59), (61, 61), (65, 90), (95, 95), (97, 122), (126, 126)]"
definition upath_chars :: chars where
  "upath_chars = [(- 128, - 1), (33, 33), (36, 59), (61, 61), (64, 90), (95, 95), (97, 122), (126, 126)]"
definition uquery_chars :: chars where
  "uquery_chars = [(- 128, - 1), (33, 33), (36, 59), (61, 61), (63, 90), (95, 95), (97, 122), (126, 126)]"

definition uri_states_1 :: "uri_action states" where
  "uri_states_1 =
    [(451, False, [([(35, 35)], 453, []), ([(37, 37)], 3, []), ([(47, 47)], 458, []), ([(63, 63)], 456, []),
          ([(65, 90), (97, 122)], 508, [Umarku]),
          ([(- 128, - 1), (33, 33), (36, 57), (59, 59), (61, 61), (64, 64), (95, 95), (126, 126)], 452, [])]),
     (452, False, [([(35, 35)], 453, []), ([(37, 37)], 3, []), ([(47, 47)], 455, []), ([(63, 63)], 456, []),
          ([(- 128, - 1), (33, 33), (36, 57), (59, 59), (61, 61), (64, 90), (95, 95), (97, 122), (126, 126)], 452, [])])]"

definition uri_states_2 :: "uri_action states" where
  "uri_states_2 =
    [(453, False, [([(37, 37)], 1, [Umarku]), (uquery_chars, 454, [Umarku])])]"

definition uri_states_3 :: "uri_action states" where
  "uri_states_3 =
    [(454, False, [([(37, 37)], 1, []), (uquery_chars, 454, [])]),
     (1, False, [(xdigits, 2, [])]),
     (2, False, [(xdigits, 454, [])]),
     (3, False, [(xdigits, 4, [])]),
     (4, False, [(xdigits, 452, [])]),
     (455, False, [([(35, 35)], 453, []), ([(37, 37)], 5, []), ([(63, 63)], 456, []), (upath_chars, 455, [])])]"

definition uri_states_4 :: "uri_action states" where
  "uri_states_4 =
    [(5, False, [(xdigits, 6, [])]),
     (6, False, [(xdigits, 455, [])])]"

definition uri_states_5 :: "uri_action states" where
  "uri_states_5 =
    [(456, False, [([(35, 35)], 453, [Umarku, Usave_query]), ([(37, 37)], 7, [Umarku]), (uquery_chars, 457, [Umarku])])]"

definition uri_states_6 :: "uri_action states" where
  "uri_states_6 =
    [(457, False, [([(35, 35)], 453, [Usave_query]), ([(37, 37)], 7, []), (uquery_chars, 457, [])]),
     (7, False, [(xdigits, 8, [])]),
     (8, False, [(xdigits, 457, [])]),
     (458, False, [([(35, 35)], 453, []), ([(37, 37)], 5, []), ([(47, 47)], 459, []), ([(63, 63)], 456, []), (upath_chars, 455, [])]),
     (459, False, [([(2, 2)], 9, [Umarkh]), ([(35, 35)], 453, [Umarkh, Usave_host]), ([(37, 37)], 31, [Umarkh]),
          ([(47, 47)], 455, [Umarkh, Usave_host]), ([(48, 48)], 490, [Umarkh]), ([(49, 49)], 504, [Umarkh]),
          ([(50, 50)], 506, [Umarkh]), ([(58, 58)], 468, [Umarkh, Usave_host]), ([(63, 63)], 456, [Umarkh, Usave_host]),
          ([(64, 64)], 469, [Umarkh, Usave_userinfo]), ([(91, 91)], 38, [Umarkh]), ([(51, 57)], 505, [Umarkh]),
          (reg_chars, 467, [Umarkh])]),
     (9, False, [([(48, 52)], 10, [])]),
     (10, False, [([(48, 57)], 11, [])]),
     (11, False, [([(46, 46)], 12, [])])]"

definition uri_states_7 :: "uri_action states" where
  "uri_states_7 =
    [(12, False, [([(2, 2)], 13, []), ([(48, 48)], 15, []), ([(49, 49)], 27, []), ([(50, 50)], 29, []), ([(51, 57)], 28, [])]),
     (13, False, [([(48, 52)], 14, [])]),
     (14, False, [([(48, 57)], 15, [])]),
     (15, False, [([(46, 46)], 16, [])]),
     (16, False, [([(2, 2)], 17, []), ([(48, 48)], 19, []), ([(49, 49)], 23, []), ([(50, 50)], 25, []), ([(51, 57)], 24, [])]),
     (17, False, [([(48, 52)], 18, [])]),
     (18, False, [([(48, 57)], 19, [])]),
     (19, False, [([(46, 46)], 20, [])]),
     (20, False, [([(2, 2)], 21, []), ([(48, 48)], 460, []), ([(49, 49)], 463, []), ([(50, 50)], 465, []), ([(51, 57)], 464, [])]),
     (21, False, [([(48, 52)], 22, [])]),
     (22, False, [([(48, 57)], 460, [])]),
     (460, False, [([(35, 35)], 453, [Usave_host]), ([(47, 47)], 455, [Usave_host]), ([(58, 58)], 461, [Usave_host]),
          ([(63, 63)], 456, [Usave_host])]),
     (461, False, [([(35, 35)], 453, [Umarkh, Usave_port]), ([(47, 47)], 455, [Umarkh, Usave_port]),
          ([(63, 63)], 456, [Umarkh, Usave_port]), ([(48, 57)], 462, [Umarkh])])]"

definition uri_states_8 :: "uri_action states" where
  "uri_states_8 =
    [(462, False, [([(35, 35)], 453, [Usave_port]), ([(47, 47)], 455, [Usave_port]), ([(63, 63)], 456, [Usave_port]),
          ([(48, 57)], 462, [])]),
     (463, False, [([(35, 35)], 453, [Usave_host]), ([(47, 47)], 455, [Usave_host]), ([(58, 58)], 461, [Usave_host]),
          ([(63, 63)], 456, [Usave_host]), ([(48, 57)], 464, [])]),
     (464, False, [([(35, 35)], 453, [Usave_host]), ([(47, 47)], 455, [Usave_host]), ([(58, 58)], 461, [Usave_host]),
          ([(63, 63)], 456, [Usave_host]), ([(48, 57)], 460, [])]),
     (465, False, [([(35, 35)], 453, [Usave_host]), ([(47, 47)], 455, [Usave_host]), ([(53, 53)], 466, []),
          ([(58, 58)], 461, [Usave_host]), ([(63, 63)], 456, [Usave_host]), (digits, 460, [])]),
     (466, False, [([(35, 35)], 453, [Usave_host]), ([(47, 47)], 455, [Usave_host]), ([(58, 58)], 461, [Usave_host]),
          ([(63, 63)], 456, [Usave_host]), ([(48, 53)], 460, [])]),
     (23, False, [([(46, 46)], 20, []), ([(48, 57)], 24, [])]),
     (24, False, [([(46, 46)], 20, []), ([(48, 57)], 19, [])]),
     (25, False, [([(46, 46)], 20, []), ([(53, 53)], 26, []), (digits, 19, [])]),
     (26, False, [([(46, 46)], 20, []), ([(48, 53)], 19, [])]),
     (27, False, [([(46, 46)], 16, []), ([(48, 57)], 28, [])]),
     (28, False, [([(46, 46)], 16, []), ([(48, 57)], 15, [])]),
     (29, False, [([(46, 46)], 16, []), ([(53, 53)], 30, []), (digits, 15, [])]),
     (30, False, [([(46, 46)], 16, []), ([(48, 53)], 15, [])])]"

definition uri_states_9 :: "uri_action states" where
  "uri_states_9 =
    [(467, False, [([(35, 35)], 453, [Usave_host]), ([(37, 37)], 31, []), ([(47, 47)], 455, [Usave_host]),
          ([(58, 58)], 468, [Usave_host]), ([(63, 63)], 456, [Usave_host]), ([(64, 64)], 469, [Usave_userinfo]), (reg_chars, 467, [])]),
     (31, False, [(xdigits, 32, [])]),
     (32, False, [(xdigits, 467, [])]),
     (468, False, [([(35, 35)], 453, [Umarkh, Usave_port]), ([(37, 37)], 34, []), ([(47, 47)], 455, [Umarkh, Usave_port]),
          ([(63, 63)], 456, [Umarkh, Usave_port]), ([(64, 64)], 469, [Usave_userinfo]), ([(48, 57)], 489, [Umarkh]),
          (reg_chars, 33, [])]),
     (33, False, [([(37, 37)], 34, []), ([(64, 64)], 469, [Usave_userinfo]),
          ([(33, 33), (36, 46), (48, 59), (61, 61), (65, 90), (95, 95), (97, 122), (126, 126)], 33, [])]),
     (34, False, [(xdigits, 35, [])])]"

definition uri_states_10 :: "uri_action states" where
  "uri_states_10 =
    [(35, False, [(xdigits, 33, [])]),
     (469, False, [([(2, 2)], 9, [Umarkh]), ([(35, 35)], 453, [Umarkh, Usave_host]), ([(37, 37)], 36, [Umarkh]),
          ([(47, 47)], 455, [Umarkh, Usave_host]), ([(48, 48)], 471, [Umarkh]), ([(49, 49)], 485, [Umarkh]),
          ([(50, 50)], 487, [Umarkh]), ([(58, 58)], 461, [Umarkh, Usave_host]), ([(63, 63)], 456, [Umarkh, Usave_host]),
          ([(91, 91)], 38, [Umarkh]), ([(51, 57)], 486, [Umarkh]), (reg_chars, 470, [Umarkh])]),
     (470, False, [([(35, 35)], 453, [Usave_host]), ([(37, 37)], 36, []), ([(47, 47)], 455, [Usave_host]),
          ([(58, 58)], 461, [Usave_host]), ([(63, 63)], 456, [Usave_host]), (reg_chars, 470, [])]),
     (36, False, [(xdigits, 37, [])]),
     (37, False, [(xdigits, 470, [])])]"

definition uri_states_11 :: "uri_action states" where
  "uri_states_11 =
    [(471, False, [([(35, 35)], 453, [Usave_host]), ([(37, 37)], 36, []), ([(46, 46)], 472, []), ([(47, 47)], 455, [Usave_host]),
          ([(58, 58)], 461, [Usave_host]), ([(63, 63)], 456, [Usave_host]), (reg_chars, 470, [])]),
     (472, False, [([(2, 2)], 13, []), ([(35, 35)], 453, [Usave_host]), ([(37, 37)], 36, []), ([(47, 47)], 455, [Usave_host]),
          ([(48, 48)], 473, []), ([(49, 49)], 481, []), ([(50, 50)], 483, []), ([(58, 58)], 461, [Usave_host]),
          ([(63, 63)], 456, [Usave_host]), ([(51, 57)], 482, []), (reg_chars, 470, [])]),
     (473, False, [([(35, 35)], 453, [Usave_host]), ([(37, 37)], 36, []), ([(46, 46)], 474, []), ([(47, 47)], 455, [Usave_host]),
          ([(58, 58)], 461, [Usave_host]), ([(63, 63)], 456, [Usave_host]), (reg_chars, 470, [])]),
     (474, False, [([(2, 2)], 17, []), ([(35, 35)], 453, [Usave_host]), ([(37, 37)], 36, []), ([(47, 47)], 455, [Usave_host]),
          ([(48, 48)], 475, []), ([(49, 49)], 477, []), ([(50, 50)], 479, []), ([(58, 58)], 461, [Usave_host]),
          ([(63, 63)], 456, [Usave_host]), ([(51, 57)], 478, []), (reg_chars, 470, [])]),
     (475, False, [([(35, 35)], 453, [Usave_host]), ([(37, 37)], 36, []), ([(46, 46)], 476, []), ([(47, 47)], 455, [Usave_host]),
          ([(58, 58)], 461, [Usave_host]), ([(63, 63)], 456, [Usave_host]), (reg_chars, 470, [])])]"

definition uri_states_12 :: "uri_action states" where
  "uri_states_12 =
    [(476, False, [([(2, 2)], 21, []), ([(35, 35)], 453, [Usave_host]), ([(37, 37)], 36, []), ([(47, 47)], 455, [Usave_host]),
          ([(58, 58)], 461, [Usave_host]), ([(63, 63)], 456, [Usave_host]), (reg_chars, 470, [])]),
     (477, False, [([(35, 35)], 453, [Usave_host]), ([(37, 37)], 36, []), ([(46, 46)], 476, []), ([(47, 47)], 455, [Usave_host]),
          ([(58, 58)], 461, [Usave_host]), ([(63, 63)], 456, [Usave_host]), ([(48, 57)], 478, []), (reg_chars, 470, [])]),
     (478, False, [([(35, 35)], 453, [Usave_host]), ([(37, 37)], 36, []), ([(46, 46)], 476, []), ([(47, 47)], 455, [Usave_host]),
          ([(58, 58)], 461, [Usave_host]), ([(63, 63)], 456, [Usave_host]), ([(48, 57)], 475, []), (reg_chars, 470, [])]),
     (479, False, [([(35, 35)], 453, [Usave_host]), ([(37, 37)], 36, []), ([(46, 46)], 476, []), ([(47, 47)], 455, [Usave_host]),
          ([(53, 53)], 480, []), ([(58, 58)], 461, [Usave_host]), ([(63, 63)], 456, [Usave_host]), (digits, 475, []),
          (reg_chars, 470, [])]),
     (480, False, [([(35, 35)], 453, [Usave_host]), ([(37, 37)], 36, []), ([(46, 46)], 476, []), ([(47, 47)], 455, [Usave_host]),
          ([(58, 58)], 461, [Usave_host]), ([(63, 63)], 456, [Usave_host]), ([(48, 53)], 475, []), (reg_chars, 470, [])])]"

definition uri_states_13 :: "uri_action states" where
  "uri_states_13 =
    [(481, False, [([(35, 35)], 453, [Usave_host]), ([(37, 37)], 36, []), ([(46, 46)], 474, []), ([(47, 47)], 455, [Usave_host]),
          ([(58, 58)], 461, [Usave_host]), ([(63, 63)], 456, [Usave_host]), ([(48, 57)], 482, []), (reg_chars, 470, [])]),
     (482, False, [([(35, 35)], 453, [Usave_host]), ([(37, 37)], 36, []), ([(46, 46)], 474, []), ([(47, 47)], 455, [Usave_host]),
          ([(58, 58)], 461, [Usave_host]), ([(63, 63)], 456, [Usave_host]), ([(48, 57)], 473, []), (reg_chars, 470, [])]),
     (483, False, [([(35, 35)], 453, [Usave_host]), ([(37, 37)], 36, []), ([(46, 46)], 474, []), ([(47, 47)], 455, [Usave_host]),
          ([(53, 53)], 484, []), ([(58, 58)], 461, [Usave_host]), ([(63, 63)], 456, [Usave_host]), (digits, 473, []),
          (reg_chars, 470, [])]),
     (484, False, [([(35, 35)], 453, [Usave_host]), ([(37, 37)], 36, []), ([(46, 46)], 474, []), ([(47, 47)], 455, [Usave_host]),
          ([(58, 58)], 461, [Usave_host]), ([(63, 63)], 456, [Usave_host]), ([(48, 53)], 473, []), (reg_chars, 470, [])])]"

definition uri_states_14 :: "uri_action states" where
  "uri_states_14 =
    [(485, False, [([(35, 35)], 453, [Usave_host]), ([(37, 37)], 36, []), ([(46, 46)], 472, []), ([(47, 47)], 455, [Usave_host]),
          ([(58, 58)], 461, [Usave_host]), ([(63, 63)], 456, [Usave_host]), ([(48, 57)], 486, []), (reg_chars, 470, [])]),
     (486, False, [([(35, 35)], 453, [Usave_host]), ([(37, 37)], 36, []), ([(46, 46)], 472, []), ([(47, 47)], 455, [Usave_host]),
          ([(58, 58)], 461, [Usave_host]), ([(63, 63)], 456, [Usave_host]), ([(48, 57)], 471, []), (reg_chars, 470, [])]),
     (487, False, [([(35, 35)], 453, [Usave_host]), ([(37, 37)], 36, []), ([(46, 46)], 472, []), ([(47, 47)], 455, [Usave_host]),
          ([(53, 53)], 488, []), ([(58, 58)], 461, [Usave_host]), ([(63, 63)], 456, [Usave_host]), (digits, 471, []),
          (reg_chars, 470, [])]),
     (488, False, [([(35, 35)], 453, [Usave_host]), ([(37, 37)], 36, []), ([(46, 46)], 472, []), ([(47, 47)], 455, [Usave_host]),
          ([(58, 58)], 461, [Usave_host]), ([(63, 63)], 456, [Usave_host]), ([(48, 53)], 471, []), (reg_chars, 470, [])])]"

definition uri_states_15 :: "uri_action states" where
  "uri_states_15 =
    [(38, False, [([(58, 58)], 146, []), ([(118, 118)], 225, []), (xdigits, 39, [])]),
     (39, False, [([(58, 58)], 43, []), (xdigits, 40, [])]),
     (40, False, [([(58, 58)], 43, []), (xdigits, 41, [])]),
     (41, False, [([(58, 58)], 43, []), (xdigits, 42, [])]),
     (42, False, [([(58, 58)], 43, [])]),
     (43, False, [([(58, 58)], 141, []), (xdigits, 44, [])]),
     (44, False, [([(58, 58)], 48, []), (xdigits, 45, [])]),
     (45, False, [([(58, 58)], 48, []), (xdigits, 46, [])]),
     (46, False, [([(58, 58)], 48, []), (xdigits, 47, [])]),
     (47, False, [([(58, 58)], 48, [])])]"

definition uri_states_16 :: "uri_action states" where
  "uri_states_16 =
    [(48, False, [([(58, 58)], 136, []), (xdigits, 49, [])]),
     (49, False, [([(58, 58)], 53, []), (xdigits, 50, [])]),
     (50, False, [([(58, 58)], 53, []), (xdigits, 51, [])]),
     (51, False, [([(58, 58)], 53, []), (xdigits, 52, [])]),
     (52, False, [([(58, 58)], 53, [])]),
     (53, False, [([(58, 58)], 131, []), (xdigits, 54, [])]),
     (54, False, [([(58, 58)], 58, []), (xdigits, 55, [])]),
     (55, False, [([(58, 58)], 58, []), (xdigits, 56, [])]),
     (56, False, [([(58, 58)], 58, []), (xdigits, 57, [])]),
     (57, False, [([(58, 58)], 58, [])]),
     (58, False, [([(58, 58)], 126, []), (xdigits, 59, [])])]"

definition uri_states_17 :: "uri_action states" where
  "uri_states_17 =
    [(59, False, [([(58, 58)], 63, []), (xdigits, 60, [])]),
     (60, False, [([(58, 58)], 63, []), (xdigits, 61, [])]),
     (61, False, [([(58, 58)], 63, []), (xdigits, 62, [])]),
     (62, False, [([(58, 58)], 63, [])]),
     (63, False, [([(58, 58)], 113, []), (xdigits, 64, [])]),
     (64, False, [([(58, 58)], 68, []), (xdigits, 65, [])]),
     (65, False, [([(58, 58)], 68, []), (xdigits, 66, [])]),
     (66, False, [([(58, 58)], 68, []), (xdigits, 67, [])]),
     (67, False, [([(58, 58)], 68, [])]),
     (68, False, [([(2, 2)], 69, []), ([(48, 48)], 96, []), ([(49, 49)], 104, []), ([(50, 50)], 107, []), ([(58, 58)], 111, []),
          ([(51, 57)], 110, []), (xdigits, 112, [])]),
     (69, False, [([(48, 52)], 70, [])])]"

definition uri_states_18 :: "uri_action states" where
  "uri_states_18 =
    [(70, False, [([(48, 57)], 71, [])]),
     (71, False, [([(46, 46)], 72, [])]),
     (72, False, [([(2, 2)], 73, []), ([(48, 48)], 75, []), ([(49, 49)], 92, []), ([(50, 50)], 94, []), ([(51, 57)], 93, [])]),
     (73, False, [([(48, 52)], 74, [])]),
     (74, False, [([(48, 57)], 75, [])]),
     (75, False, [([(46, 46)], 76, [])]),
     (76, False, [([(2, 2)], 77, []), ([(48, 48)], 79, []), ([(49, 49)], 88, []), ([(50, 50)], 90, []), ([(51, 57)], 89, [])]),
     (77, False, [([(48, 52)], 78, [])]),
     (78, False, [([(48, 57)], 79, [])]),
     (79, False, [([(46, 46)], 80, [])]),
     (80, False, [([(2, 2)], 81, []), ([(48, 48)], 83, []), ([(49, 49)], 84, []), ([(50, 50)], 86, []), ([(51, 57)], 85, [])]),
     (81, False, [([(48, 52)], 82, [])]),
     (82, False, [([(48, 57)], 83, [])]),
     (83, False, [([(93, 93)], 460, [])]),
     (84, False, [([(93, 93)], 460, []), ([(48, 57)], 85, [])]),
     (85, False, [([(93, 93)], 460, []), ([(48, 57)], 83, [])]),
     (86, False, [([(53, 53)], 87, []), ([(93, 93)], 460, []), (digits, 83, [])])]"

definition uri_states_19 :: "uri_action states" where
  "uri_states_19 =
    [(87, False, [([(93, 93)], 460, []), ([(48, 53)], 83, [])]),
     (88, False, [([(46, 46)], 80, []), ([(48, 57)], 89, [])]),
     (89, False, [([(46, 46)], 80, []), ([(48, 57)], 79, [])]),
     (90, False, [([(46, 46)], 80, []), ([(53, 53)], 91, []), (digits, 79, [])]),
     (91, False, [([(46, 46)], 80, []), ([(48, 53)], 79, [])]),
     (92, False, [([(46, 46)], 76, []), ([(48, 57)], 93, [])]),
     (93, False, [([(46, 46)], 76, []), ([(48, 57)], 75, [])]),
     (94, False, [([(46, 46)], 76, []), ([(53, 53)], 95, []), (digits, 75, [])]),
     (95, False, [([(46, 46)], 76, []), ([(48, 53)], 75, [])]),
     (96, False, [([(46, 46)], 72, []), ([(58, 58)], 100, []), (xdigits, 97, [])]),
     (97, False, [([(58, 58)], 100, []), (xdigits, 98, [])]),
     (98, False, [([(58, 58)], 100, []), (xdigits, 99, [])]),
     (99, False, [([(58, 58)], 100, [])])]"

definition uri_states_20 :: "uri_action states" where
  "uri_states_20 =
    [(100, False, [([(58, 58)], 83, []), (xdigits, 101, [])]),
     (101, False, [([(93, 93)], 460, []), (xdigits, 102, [])]),
     (102, False, [([(93, 93)], 460, []), (xdigits, 103, [])]),
     (103, False, [([(93, 93)], 460, []), (xdigits, 83, [])]),
     (104, False, [([(46, 46)], 72, []), ([(58, 58)], 100, []), ([(48, 57)], 105, []), (xdigits, 97, [])]),
     (105, False, [([(46, 46)], 72, []), ([(58, 58)], 100, []), ([(48, 57)], 106, []), (xdigits, 98, [])]),
     (106, False, [([(46, 46)], 72, []), ([(58, 58)], 100, []), (xdigits, 99, [])]),
     (107, False, [([(46, 46)], 72, []), ([(53, 53)], 109, []), ([(58, 58)], 100, []), (digits, 108, []), (xdigits, 97, [])]),
     (108, False, [([(46, 46)], 72, []), ([(58, 58)], 100, []), (xdigits, 98, [])])]"

definition uri_states_21 :: "uri_action states" where
  "uri_states_21 =
    [(109, False, [([(46, 46)], 72, []), ([(58, 58)], 100, []), ([(48, 53)], 106, []), (xdigits, 98, [])]),
     (110, False, [([(46, 46)], 72, []), ([(58, 58)], 100, []), ([(48, 57)], 108, []), (xdigits, 97, [])]),
     (111, False, [(xdigits, 101, [])]),
     (112, False, [([(58, 58)], 100, []), (xdigits, 97, [])]),
     (113, False, [([(2, 2)], 69, []), ([(48, 48)], 114, []), ([(49, 49)], 118, []), ([(50, 50)], 121, []), ([(51, 57)], 124, []),
          (xdigits, 125, [])]),
     (114, False, [([(46, 46)], 72, []), ([(58, 58)], 111, []), (xdigits, 115, [])]),
     (115, False, [([(58, 58)], 111, []), (xdigits, 116, [])]),
     (116, False, [([(58, 58)], 111, []), (xdigits, 117, [])]),
     (117, False, [([(58, 58)], 111, [])])]"

definition uri_states_22 :: "uri_action states" where
  "uri_states_22 =
    [(118, False, [([(46, 46)], 72, []), ([(58, 58)], 111, []), ([(48, 57)], 119, []), (xdigits, 115, [])]),
     (119, False, [([(46, 46)], 72, []), ([(58, 58)], 111, []), ([(48, 57)], 120, []), (xdigits, 116, [])]),
     (120, False, [([(46, 46)], 72, []), ([(58, 58)], 111, []), (xdigits, 117, [])]),
     (121, False, [([(46, 46)], 72, []), ([(53, 53)], 123, []), ([(58, 58)], 111, []), (digits, 122, []), (xdigits, 115, [])]),
     (122, False, [([(46, 46)], 72, []), ([(58, 58)], 111, []), (xdigits, 116, [])]),
     (123, False, [([(46, 46)], 72, []), ([(58, 58)], 111, []), ([(48, 53)], 120, []), (xdigits, 116, [])]),
     (124, False, [([(46, 46)], 72, []), ([(58, 58)], 111, []), ([(48, 57)], 122, []), (xdigits, 115, [])]),
     (125, False, [([(58, 58)], 111, []), (xdigits, 115, [])])]"

definition uri_states_23 :: "uri_action states" where
  "uri_states_23 =
    [(126, False, [(xdigits, 127, [])]),
     (127, False, [([(58, 58)], 113, []), (xdigits, 128, [])]),
     (128, False, [([(58, 58)], 113, []), (xdigits, 129, [])]),
     (129, False, [([(58, 58)], 113, []), (xdigits, 130, [])]),
     (130, False, [([(58, 58)], 113, [])]),
     (131, False, [(xdigits, 132, [])]),
     (132, False, [([(58, 58)], 126, []), (xdigits, 133, [])]),
     (133, False, [([(58, 58)], 126, []), (xdigits, 134, [])]),
     (134, False, [([(58, 58)], 126, []), (xdigits, 135, [])]),
     (135, False, [([(58, 58)], 126, [])]),
     (136, False, [(xdigits, 137, [])])]"

definition uri_states_24 :: "uri_action states" where
  "uri_states_24 =
    [(137, False, [([(58, 58)], 131, []), (xdigits, 138, [])]),
     (138, False, [([(58, 58)], 131, []), (xdigits, 139, [])]),
     (139, False, [([(58, 58)], 131, []), (xdigits, 140, [])]),
     (140, False, [([(58, 58)], 131, [])]),
     (141, False, [(xdigits, 142, [])]),
     (142, False, [([(58, 58)], 136, []), (xdigits, 143, [])]),
     (143, False, [([(58, 58)], 136, []), (xdigits, 144, [])]),
     (144, False, [([(58, 58)], 136, []), (xdigits, 145, [])]),
     (145, False, [([(58, 58)], 136, [])]),
     (146, False, [([(58, 58)], 147, [])]),
     (147, False, [([(2, 2)], 69, []), ([(48, 48)], 148, []), ([(49, 49)], 217, []), ([(50, 50)], 220, []), ([(93, 93)], 460, []),
          ([(51, 57)], 223, []), (xdigits, 224, [])])]"

definition uri_states_25 :: "uri_action states" where
  "uri_states_25 =
    [(148, False, [([(46, 46)], 72, []), ([(58, 58)], 152, []), ([(93, 93)], 460, []), (xdigits, 149, [])]),
     (149, False, [([(58, 58)], 152, []), ([(93, 93)], 460, []), (xdigits, 150, [])]),
     (150, False, [([(58, 58)], 152, []), ([(93, 93)], 460, []), (xdigits, 151, [])]),
     (151, False, [([(58, 58)], 152, []), ([(93, 93)], 460, [])]),
     (152, False, [([(2, 2)], 69, []), ([(48, 48)], 153, []), ([(49, 49)], 209, []), ([(50, 50)], 212, []), ([(51, 57)], 215, []),
          (xdigits, 216, [])]),
     (153, False, [([(46, 46)], 72, []), ([(58, 58)], 157, []), ([(93, 93)], 460, []), (xdigits, 154, [])]),
     (154, False, [([(58, 58)], 157, []), ([(93, 93)], 460, []), (xdigits, 155, [])]),
     (155, False, [([(58, 58)], 157, []), ([(93, 93)], 460, []), (xdigits, 156, [])]),
     (156, False, [([(58, 58)], 157, []), ([(93, 93)], 460, [])])]"

definition uri_states_26 :: "uri_action states" where
  "uri_states_26 =
    [(157, False, [([(2, 2)], 69, []), ([(48, 48)], 158, []), ([(49, 49)], 201, []), ([(50, 50)], 204, []), ([(51, 57)], 207, []),
          (xdigits, 208, [])]),
     (158, False, [([(46, 46)], 72, []), ([(58, 58)], 162, []), ([(93, 93)], 460, []), (xdigits, 159, [])]),
     (159, False, [([(58, 58)], 162, []), ([(93, 93)], 460, []), (xdigits, 160, [])]),
     (160, False, [([(58, 58)], 162, []), ([(93, 93)], 460, []), (xdigits, 161, [])]),
     (161, False, [([(58, 58)], 162, []), ([(93, 93)], 460, [])]),
     (162, False, [([(2, 2)], 69, []), ([(48, 48)], 163, []), ([(49, 49)], 193, []), ([(50, 50)], 196, []), ([(51, 57)], 199, []),
          (xdigits, 200, [])]),
     (163, False, [([(46, 46)], 72, []), ([(58, 58)], 167, []), ([(93, 93)], 460, []), (xdigits, 164, [])]),
     (164, False, [([(58, 58)], 167, []), ([(93, 93)], 460, []), (xdigits, 165, [])])]"

definition uri_states_27 :: "uri_action states" where
  "uri_states_27 =
    [(165, False, [([(58, 58)], 167, []), ([(93, 93)], 460, []), (xdigits, 166, [])]),
     (166, False, [([(58, 58)], 167, []), ([(93, 93)], 460, [])]),
     (167, False, [([(2, 2)], 69, []), ([(48, 48)], 168, []), ([(49, 49)], 185, []), ([(50, 50)], 188, []), ([(51, 57)], 191, []),
          (xdigits, 192, [])]),
     (168, False, [([(46, 46)], 72, []), ([(58, 58)], 172, []), ([(93, 93)], 460, []), (xdigits, 169, [])]),
     (169, False, [([(58, 58)], 172, []), ([(93, 93)], 460, []), (xdigits, 170, [])]),
     (170, False, [([(58, 58)], 172, []), ([(93, 93)], 460, []), (xdigits, 171, [])]),
     (171, False, [([(58, 58)], 172, []), ([(93, 93)], 460, [])]),
     (172, False, [([(2, 2)], 69, []), ([(48, 48)], 173, []), ([(49, 49)], 177, []), ([(50, 50)], 180, []), ([(51, 57)], 183, []),
          (xdigits, 184, [])]),
     (173, False, [([(46, 46)], 72, []), ([(58, 58)], 111, []), ([(93, 93)], 460, []), (xdigits, 174, [])])]"

definition uri_states_28 :: "uri_action states" where
  "uri_states_28 =
    [(174, False, [([(58, 58)], 111, []), ([(93, 93)], 460, []), (xdigits, 175, [])]),
     (175, False, [([(58, 58)], 111, []), ([(93, 93)], 460, []), (xdigits, 176, [])]),
     (176, False, [([(58, 58)], 111, []), ([(93, 93)], 460, [])]),
     (177, False, [([(46, 46)], 72, []), ([(58, 58)], 111, []), ([(93, 93)], 460, []), ([(48, 57)], 178, []), (xdigits, 174, [])]),
     (178, False, [([(46, 46)], 72, []), ([(58, 58)], 111, []), ([(93, 93)], 460, []), ([(48, 57)], 179, []), (xdigits, 175, [])]),
     (179, False, [([(46, 46)], 72, []), ([(58, 58)], 111, []), ([(93, 93)], 460, []), (xdigits, 176, [])]),
     (180, False, [([(46, 46)], 72, []), ([(53, 53)], 182, []), ([(58, 58)], 111, []), ([(93, 93)], 460, []), (digits, 181, []),
          (xdigits, 174, [])]),
     (181, False, [([(46, 46)], 72, []), ([(58, 58)], 111, []), ([(93, 93)], 460, []), (xdigits, 175, [])])]"

definition uri_states_29 :: "uri_action states" where
  "uri_states_29 =
    [(182, False, [([(46, 46)], 72, []), ([(58, 58)], 111, []), ([(93, 93)], 460, []), ([(48, 53)], 179, []), (xdigits, 175, [])]),
     (183, False, [([(46, 46)], 72, []), ([(58, 58)], 111, []), ([(93, 93)], 460, []), ([(48, 57)], 181, []), (xdigits, 174, [])]),
     (184, False, [([(58, 58)], 111, []), ([(93, 93)], 460, []), (xdigits, 174, [])]),
     (185, False, [([(46, 46)], 72, []), ([(58, 58)], 172, []), ([(93, 93)], 460, []), ([(48, 57)], 186, []), (xdigits, 169, [])]),
     (186, False, [([(46, 46)], 72, []), ([(58, 58)], 172, []), ([(93, 93)], 460, []), ([(48, 57)], 187, []), (xdigits, 170, [])]),
     (187, False, [([(46, 46)], 72, []), ([(58, 58)], 172, []), ([(93, 93)], 460, []), (xdigits, 171, [])]),
     (188, False, [([(46, 46)], 72, []), ([(53, 53)], 190, []), ([(58, 58)], 172, []), ([(93, 93)], 460, []), (digits, 189, []),
          (xdigits, 169, [])]),
     (189, False, [([(46, 46)], 72, []), ([(58, 58)], 172, []), ([(93, 93)], 460, []), (xdigits, 170, [])])]"

definition uri_states_30 :: "uri_action states" where
  "uri_states_30 =
    [(190, False, [([(46, 46)], 72, []), ([(58, 58)], 172, []), ([(93, 93)], 460, []), ([(48, 53)], 187, []), (xdigits, 170, [])]),
     (191, False, [([(46, 46)], 72, []), ([(58, 58)], 172, []), ([(93, 93)], 460, []), ([(48, 57)], 189, []), (xdigits, 169, [])]),
     (192, False, [([(58, 58)], 172, []), ([(93, 93)], 460, []), (xdigits, 169, [])]),
     (193, False, [([(46, 46)], 72, []), ([(58, 58)], 167, []), ([(93, 93)], 460, []), ([(48, 57)], 194, []), (xdigits, 164, [])]),
     (194, False, [([(46, 46)], 72, []), ([(58, 58)], 167, []), ([(93, 93)], 460, []), ([(48, 57)], 195, []), (xdigits, 165, [])]),
     (195, False, [([(46, 46)], 72, []), ([(58, 58)], 167, []), ([(93, 93)], 460, []), (xdigits, 166, [])]),
     (196, False, [([(46, 46)], 72, []), ([(53, 53)], 198, []), ([(58, 58)], 167, []), ([(93, 93)], 460, []), (digits, 197, []),
          (xdigits, 164, [])]),
     (197, False, [([(46, 46)], 72, []), ([(58, 58)], 167, []), ([(93, 93)], 460, []), (xdigits, 165, [])])]"

definition uri_states_31 :: "uri_action states" where
  "uri_states_31 =
    [(198, False, [([(46, 46)], 72, []), ([(58, 58)], 167, []), ([(93, 93)], 460, []), ([(48, 53)], 195, []), (xdigits, 165, [])]),
     (199, False, [([(46, 46)], 72, []), ([(58, 58)], 167, []), ([(93, 93)], 460, []), ([(48, 57)], 197, []), (xdigits, 164, [])]),
     (200, False, [([(58, 58)], 167, []), ([(93, 93)], 460, []), (xdigits, 164, [])]),
     (201, False, [([(46, 46)], 72, []), ([(58, 58)], 162, []), ([(93, 93)], 460, []), ([(48, 57)], 202, []), (xdigits, 159, [])]),
     (202, False, [([(46, 46)], 72, []), ([(58, 58)], 162, []), ([(93, 93)], 460, []), ([(48, 57)], 203, []), (xdigits, 160, [])]),
     (203, False, [([(46, 46)], 72, []), ([(58, 58)], 162, []), ([(93, 93)], 460, []), (xdigits, 161, [])]),
     (204, False, [([(46, 46)], 72, []), ([(53, 53)], 206, []), ([(58, 58)], 162, []), ([(93, 93)], 460, []), (digits, 205, []),
          (xdigits, 159, [])]),
     (205, False, [([(46, 46)], 72, []), ([(58, 58)], 162, []), ([(93, 93)], 460, []), (xdigits, 160, [])])]"

definition uri_states_32 :: "uri_action states" where
  "uri_states_32 =
    [(206, False, [([(46, 46)], 72, []), ([(58, 58)], 162, []), ([(93, 93)], 460, []), ([(48, 53)], 203, []), (xdigits, 160, [])]),
     (207, False, [([(46, 46)], 72, []), ([(58, 58)], 162, []), ([(93, 93)], 460, []), ([(48, 57)], 205, []), (xdigits, 159, [])]),
     (208, False, [([(58, 58)], 162, []), ([(93, 93)], 460, []), (xdigits, 159, [])]),
     (209, False, [([(46, 46)], 72, []), ([(58, 58)], 157, []), ([(93, 93)], 460, []), ([(48, 57)], 210, []), (xdigits, 154, [])]),
     (210, False, [([(46, 46)], 72, []), ([(58, 58)], 157, []), ([(93, 93)], 460, []), ([(48, 57)], 211, []), (xdigits, 155, [])]),
     (211, False, [([(46, 46)], 72, []), ([(58, 58)], 157, []), ([(93, 93)], 460, []), (xdigits, 156, [])]),
     (212, False, [([(46, 46)], 72, []), ([(53, 53)], 214, []), ([(58, 58)], 157, []), ([(93, 93)], 460, []), (digits, 213, []),
          (xdigits, 154, [])]),
     (213, False, [([(46, 46)], 72, []), ([(58, 58)], 157, []), ([(93, 93)], 460, []), (xdigits, 155, [])])]"

definition uri_states_33 :: "uri_action states" where
  "uri_states_33 =
    [(214, False, [([(46, 46)], 72, []), ([(58, 58)], 157, []), ([(93, 93)], 460, []), ([(48, 53)], 211, []), (xdigits, 155, [])]),
     (215, False, [([(46, 46)], 72, []), ([(58, 58)], 157, []), ([(93, 93)], 460, []), ([(48, 57)], 213, []), (xdigits, 154, [])]),
     (216, False, [([(58, 58)], 157, []), ([(93, 93)], 460, []), (xdigits, 154, [])]),
     (217, False, [([(46, 46)], 72, []), ([(58, 58)], 152, []), ([(93, 93)], 460, []), ([(48, 57)], 218, []), (xdigits, 149, [])]),
     (218, False, [([(46, 46)], 72, []), ([(58, 58)], 152, []), ([(93, 93)], 460, []), ([(48, 57)], 219, []), (xdigits, 150, [])]),
     (219, False, [([(46, 46)], 72, []), ([(58, 58)], 152, []), ([(93, 93)], 460, []), (xdigits, 151, [])]),
     (220, False, [([(46, 46)], 72, []), ([(53, 53)], 222, []), ([(58, 58)], 152, []), ([(93, 93)], 460, []), (digits, 221, []),
          (xdigits, 149, [])]),
     (221, False, [([(46, 46)], 72, []), ([(58, 58)], 152, []), ([(93, 93)], 460, []), (xdigits, 150, [])])]"

definition uri_states_34 :: "uri_action states" where
  "uri_states_34 =
    [(222, False, [([(46, 46)], 72, []), ([(58, 58)], 152, []), ([(93, 93)], 460, []), ([(48, 53)], 219, []), (xdigits, 150, [])]),
     (223, False, [([(46, 46)], 72, []), ([(58, 58)], 152, []), ([(93, 93)], 460, []), ([(48, 57)], 221, []), (xdigits, 149, [])]),
     (224, False, [([(58, 58)], 152, []), ([(93, 93)], 460, []), (xdigits, 149, [])]),
     (225, False, [(xdigits, 226, [])]),
     (226, False, [([(46, 46)], 227, []), (xdigits, 226, [])]),
     (227, False, [([(33, 33), (36, 36), (38, 46), (48, 59), (61, 61), (65, 90), (95, 95), (97, 122), (126, 126)], 228, [])]),
     (228, False, [([(93, 93)], 460, []),
          ([(33, 33), (36, 36), (38, 46), (48, 59), (61, 61), (65, 90), (95, 95), (97, 122), (126, 126)], 228, [])])]"

definition uri_states_35 :: "uri_action states" where
  "uri_states_35 =
    [(489, False, [([(35, 35)], 453, [Usave_port]), ([(37, 37)], 34, []), ([(47, 47)], 455, [Usave_port]),
          ([(63, 63)], 456, [Usave_port]), ([(64, 64)], 469, [Usave_userinfo]), ([(48, 57)], 489, []), (reg_chars, 33, [])]),
     (490, False, [([(35, 35)], 453, [Usave_host]), ([(37, 37)], 31, []), ([(46, 46)], 491, []), ([(47, 47)], 455, [Usave_host]),
          ([(58, 58)], 468, [Usave_host]), ([(63, 63)], 456, [Usave_host]), ([(64, 64)], 469, [Usave_userinfo]), (reg_chars, 467, [])]),
     (491, False, [([(2, 2)], 13, []), ([(35, 35)], 453, [Usave_host]), ([(37, 37)], 31, []), ([(47, 47)], 455, [Usave_host]),
          ([(48, 48)], 492, []), ([(49, 49)], 500, []), ([(50, 50)], 502, []), ([(58, 58)], 468, [Usave_host]),
          ([(63, 63)], 456, [Usave_host]), ([(64, 64)], 469, [Usave_userinfo]), ([(51, 57)], 501, []), (reg_chars, 467, [])]),
     (492, False, [([(35, 35)], 453, [Usave_host]), ([(37, 37)], 31, []), ([(46, 46)], 493, []), ([(47, 47)], 455, [Usave_host]),
          ([(58, 58)], 468, [Usave_host]), ([(63, 63)], 456, [Usave_host]), ([(64, 64)], 469, [Usave_userinfo]), (reg_chars, 467, [])])]"

definition uri_states_36 :: "uri_action states" where
  "uri_states_36 =
    [(493, False, [([(2, 2)], 17, []), ([(35, 35)], 453, [Usave_host]), ([(37, 37)], 31, []), ([(47, 47)], 455, [Usave_host]),
          ([(48, 48)], 494, []), ([(49, 49)], 496, []), ([(50, 50)], 498, []), ([(58, 58)], 468, [Usave_host]),
          ([(63, 63)], 456, [Usave_host]), ([(64, 64)], 469, [Usave_userinfo]), ([(51, 57)], 497, []), (reg_chars, 467, [])]),
     (494, False, [([(35, 35)], 453, [Usave_host]), ([(37, 37)], 31, []), ([(46, 46)], 495, []), ([(47, 47)], 455, [Usave_host]),
          ([(58, 58)], 468, [Usave_host]), ([(63, 63)], 456, [Usave_host]), ([(64, 64)], 469, [Usave_userinfo]), (reg_chars, 467, [])]),
     (495, False, [([(2, 2)], 21, []), ([(35, 35)], 453, [Usave_host]), ([(37, 37)], 31, []), ([(47, 47)], 455, [Usave_host]),
          ([(58, 58)], 468, [Usave_host]), ([(63, 63)], 456, [Usave_host]), ([(64, 64)], 469, [Usave_userinfo]), (reg_chars, 467, [])]),
     (496, False, [([(35, 35)], 453, [Usave_host]), ([(37, 37)], 31, []), ([(46, 46)], 495, []), ([(47, 47)], 455, [Usave_host]),
          ([(58, 58)], 468, [Usave_host]), ([(63, 63)], 456, [Usave_host]), ([(64, 64)], 469, [Usave_userinfo]),
          ([(48, 57)], 497, []), (reg_chars, 467, [])]),
     (497, False, [([(35, 35)], 453, [Usave_host]), ([(37, 37)], 31, []), ([(46, 46)], 495, []), ([(47, 47)], 455, [Usave_host]),
          ([(58, 58)], 468, [Usave_host]), ([(63, 63)], 456, [Usave_host]), ([(64, 64)], 469, [Usave_userinfo]),
          ([(48, 57)], 494, []), (reg_chars, 467, [])])]"

definition uri_states_37 :: "uri_action states" where
  "uri_states_37 =
    [(498, False, [([(35, 35)], 453, [Usave_host]), ([(37, 37)], 31, []), ([(46, 46)], 495, []), ([(47, 47)], 455, [Usave_host]),
          ([(53, 53)], 499, []), ([(58, 58)], 468, [Usave_host]), ([(63, 63)], 456, [Usave_host]),
          ([(64, 64)], 469, [Usave_userinfo]), (digits, 494, []), (reg_chars, 467, [])]),
     (499, False, [([(35, 35)], 453, [Usave_host]), ([(37, 37)], 31, []), ([(46, 46)], 495, []), ([(47, 47)], 455, [Usave_host]),
          ([(58, 58)], 468, [Usave_host]), ([(63, 63)], 456, [Usave_host]), ([(64, 64)], 469, [Usave_userinfo]),
          ([(48, 53)], 494, []), (reg_chars, 467, [])]),
     (500, False, [([(35, 35)], 453, [Usave_host]), ([(37, 37)], 31, []), ([(46, 46)], 493, []), ([(47, 47)], 455, [Usave_host]),
          ([(58, 58)], 468, [Usave_host]), ([(63, 63)], 456, [Usave_host]), ([(64, 64)], 469, [Usave_userinfo]),
          ([(48, 57)], 501, []), (reg_chars, 467, [])]),
     (501, False, [([(35, 35)], 453, [Usave_host]), ([(37, 37)], 31, []), ([(46, 46)], 493, []), ([(47, 47)], 455, [Usave_host]),
          ([(58, 58)], 468, [Usave_host]), ([(63, 63)], 456, [Usave_host]), ([(64, 64)], 469, [Usave_userinfo]),
          ([(48, 57)], 492, []), (reg_chars, 467, [])])]"

definition uri_states_38 :: "uri_action states" where
  "uri_states_38 =
    [(502, False, [([(35, 35)], 453, [Usave_host]), ([(37, 37)], 31, []), ([(46, 46)], 493, []), ([(47, 47)], 455, [Usave_host]),
          ([(53, 53)], 503, []), ([(58, 58)], 468, [Usave_host]), ([(63, 63)], 456, [Usave_host]),
          ([(64, 64)], 469, [Usave_userinfo]), (digits, 492, []), (reg_chars, 467, [])]),
     (503, False, [([(35, 35)], 453, [Usave_host]), ([(37, 37)], 31, []), ([(46, 46)], 493, []), ([(47, 47)], 455, [Usave_host]),
          ([(58, 58)], 468, [Usave_host]), ([(63, 63)], 456, [Usave_host]), ([(64, 64)], 469, [Usave_userinfo]),
          ([(48, 53)], 492, []), (reg_chars, 467, [])]),
     (504, False, [([(35, 35)], 453, [Usave_host]), ([(37, 37)], 31, []), ([(46, 46)], 491, []), ([(47, 47)], 455, [Usave_host]),
          ([(58, 58)], 468, [Usave_host]), ([(63, 63)], 456, [Usave_host]), ([(64, 64)], 469, [Usave_userinfo]),
          ([(48, 57)], 505, []), (reg_chars, 467, [])]),
     (505, False, [([(35, 35)], 453, [Usave_host]), ([(37, 37)], 31, []), ([(46, 46)], 491, []), ([(47, 47)], 455, [Usave_host]),
          ([(58, 58)], 468, [Usave_host]), ([(63, 63)], 456, [Usave_host]), ([(64, 64)], 469, [Usave_userinfo]),
          ([(48, 57)], 490, []), (reg_chars, 467, [])])]"

definition uri_states_39 :: "uri_action states" where
  "uri_states_39 =
    [(506, False, [([(35, 35)], 453, [Usave_host]), ([(37, 37)], 31, []), ([(46, 46)], 491, []), ([(47, 47)], 455, [Usave_host]),
          ([(53, 53)], 507, []), ([(58, 58)], 468, [Usave_host]), ([(63, 63)], 456, [Usave_host]),
          ([(64, 64)], 469, [Usave_userinfo]), (digits, 490, []), (reg_chars, 467, [])]),
     (507, False, [([(35, 35)], 453, [Usave_host]), ([(37, 37)], 31, []), ([(46, 46)], 491, []), ([(47, 47)], 455, [Usave_host]),
          ([(58, 58)], 468, [Usave_host]), ([(63, 63)], 456, [Usave_host]), ([(64, 64)], 469, [Usave_userinfo]),
          ([(48, 53)], 490, []), (reg_chars, 467, [])]),
     (508, False, [([(35, 35)], 453, []), ([(37, 37)], 3, []), ([(47, 47)], 455, []), ([(58, 58)], 509, [Usave_scheme]),
          ([(63, 63)], 456, []), ([(43, 43), (45, 57), (65, 90), (97, 122)], 508, []), (upath_chars, 452, [])]),
     (509, False, [([(35, 35)], 453, []), ([(37, 37)], 5, []), ([(47, 47)], 510, []), ([(63, 63)], 456, []), (upath_chars, 455, [])])]"

definition uri_states_40 :: "uri_action states" where
  "uri_states_40 =
    [(510, False, [([(35, 35)], 453, []), ([(37, 37)], 5, []), ([(47, 47)], 511, []), ([(63, 63)], 456, []), (upath_chars, 455, [])]),
     (511, False, [([(2, 2)], 229, [Umarkh]), ([(35, 35)], 453, [Umarkh, Usave_host, Usave_path]), ([(37, 37)], 253, [Umarkh]),
          ([(47, 47)], 513, [Umarkh, Usave_host]), ([(48, 48)], 543, [Umarkh]), ([(49, 49)], 557, [Umarkh]),
          ([(50, 50)], 559, [Umarkh]), ([(58, 58)], 521, [Umarkh, Usave_host]), ([(63, 63)], 456, [Umarkh, Usave_host, Usave_path]),
          ([(64, 64)], 522, [Umarkh, Usave_userinfo]), ([(91, 91)], 260, [Umarkh]), ([(51, 57)], 558, [Umarkh]),
          (reg_chars, 520, [Umarkh])]),
     (229, False, [([(48, 52)], 230, [])]),
     (230, False, [([(48, 57)], 231, [])]),
     (231, False, [([(46, 46)], 232, [])]),
     (232, False, [([(2, 2)], 233, []), ([(48, 48)], 235, []), ([(49, 49)], 249, []), ([(50, 50)], 251, []), ([(51, 57)], 250, [])]),
     (233, False, [([(48, 52)], 234, [])]),
     (234, False, [([(48, 57)], 235, [])]),
     (235, False, [([(46, 46)], 236, [])]),
     (236, False, [([(2, 2)], 237, []), ([(48, 48)], 239, []), ([(49, 49)], 245, []), ([(50, 50)], 247, []), ([(51, 57)], 246, [])]),
     (237, False, [([(48, 52)], 238, [])]),
     (238, False, [([(48, 57)], 239, [])])]"

definition uri_states_41 :: "uri_action states" where
  "uri_states_41 =
    [(239, False, [([(46, 46)], 240, [])]),
     (240, False, [([(2, 2)], 241, []), ([(48, 48)], 512, []), ([(49, 49)], 516, []), ([(50, 50)], 518, []), ([(51, 57)], 517, [])]),
     (241, False, [([(48, 52)], 242, [])]),
     (242, False, [([(48, 57)], 512, [])]),
     (512, False, [([(35, 35)], 453, [Usave_host, Umarkh, Usave_path]), ([(47, 47)], 513, [Usave_host, Umarkh]),
          ([(58, 58)], 514, [Usave_host]), ([(63, 63)], 456, [Usave_host, Umarkh, Usave_path])]),
     (513, False, [([(35, 35)], 453, [Usave_path]), ([(37, 37)], 243, []), ([(63, 63)], 456, [Usave_path]), (upath_chars, 513, [])]),
     (243, False, [(xdigits, 244, [])]),
     (244, False, [(xdigits, 513, [])])]"

definition uri_states_42 :: "uri_action states" where
  "uri_states_42 =
    [(514, False, [([(35, 35)], 453, [Umarkh, Usave_port, Usave_path]), ([(47, 47)], 513, [Umarkh, Usave_port]),
          ([(63, 63)], 456, [Umarkh, Usave_port, Usave_path]), ([(48, 57)], 515, [Umarkh])]),
     (515, False, [([(35, 35)], 453, [Usave_port, Umarkh, Usave_path]), ([(47, 47)], 513, [Usave_port, Umarkh]),
          ([(63, 63)], 456, [Usave_port, Umarkh, Usave_path]), ([(48, 57)], 515, [])]),
     (516, False, [([(35, 35)], 453, [Usave_host, Umarkh, Usave_path]), ([(47, 47)], 513, [Usave_host, Umarkh]),
          ([(58, 58)], 514, [Usave_host]), ([(63, 63)], 456, [Usave_host, Umarkh, Usave_path]), ([(48, 57)], 517, [])]),
     (517, False, [([(35, 35)], 453, [Usave_host, Umarkh, Usave_path]), ([(47, 47)], 513, [Usave_host, Umarkh]),
          ([(58, 58)], 514, [Usave_host]), ([(63, 63)], 456, [Usave_host, Umarkh, Usave_path]), ([(48, 57)], 512, [])]),
     (518, False, [([(35, 35)], 453, [Usave_host, Umarkh, Usave_path]), ([(47, 47)], 513, [Usave_host, Umarkh]),
          ([(53, 53)], 519, []), ([(58, 58)], 514, [Usave_host]), ([(63, 63)], 456, [Usave_host, Umarkh, Usave_path]),
          (digits, 512, [])]),
     (519, False, [([(35, 35)], 453, [Usave_host, Umarkh, Usave_path]), ([(47, 47)], 513, [Usave_host, Umarkh]),
          ([(58, 58)], 514, [Usave_host]), ([(63, 63)], 456, [Usave_host, Umarkh, Usave_path]), ([(48, 53)], 512, [])]),
     (245, False, [([(46, 46)], 240, []), ([(48, 57)], 246, [])]),
     (246, False, [([(46, 46)], 240, []), ([(48, 57)], 239, [])]),
     (247, False, [([(46, 46)], 240, []), ([(53, 53)], 248, []), (digits, 239, [])]),
     (248, False, [([(46, 46)], 240, []), ([(48, 53)], 239, [])]),
     (249, False, [([(46, 46)], 236, []), ([(48, 57)], 250, [])])]"

definition uri_states_43 :: "uri_action states" where
  "uri_states_43 =
    [(250, False, [([(46, 46)], 236, []), ([(48, 57)], 235, [])]),
     (251, False, [([(46, 46)], 236, []), ([(53, 53)], 252, []), (digits, 235, [])]),
     (252, False, [([(46, 46)], 236, []), ([(48, 53)], 235, [])]),
     (520, False, [([(35, 35)], 453, [Usave_host, Umarkh, Usave_path]), ([(37, 37)], 253, []),
          ([(47, 47)], 513, [Usave_host, Umarkh]), ([(58, 58)], 521, [Usave_host]),
          ([(63, 63)], 456, [Usave_host, Umarkh, Usave_path]), ([(64, 64)], 522, [Usave_userinfo]), (reg_chars, 520, [])]),
     (253, False, [(xdigits, 254, [])]),
     (254, False, [(xdigits, 520, [])]),
     (521, False, [([(35, 35)], 453, [Umarkh, Usave_port, Usave_path]), ([(37, 37)], 256, []),
          ([(47, 47)], 513, [Umarkh, Usave_port]), ([(63, 63)], 456, [Umarkh, Usave_port, Usave_path]),
          ([(64, 64)], 522, [Usave_userinfo]), ([(48, 57)], 542, [Umarkh]), (reg_chars, 255, [])])]"

definition uri_states_44 :: "uri_action states" where
  "uri_states_44 =
    [(255, False, [([(37, 37)], 256, []), ([(64, 64)], 522, [Usave_userinfo]),
          ([(33, 33), (36, 46), (48, 59), (61, 61), (65, 90), (95, 95), (97, 122), (126, 126)], 255, [])]),
     (256, False, [(xdigits, 257, [])]),
     (257, False, [(xdigits, 255, [])]),
     (522, False, [([(2, 2)], 229, [Umarkh]), ([(35, 35)], 453, [Umarkh, Usave_host, Usave_path]), ([(37, 37)], 258, [Umarkh]),
          ([(47, 47)], 513, [Umarkh, Usave_host]), ([(48, 48)], 524, [Umarkh]), ([(49, 49)], 538, [Umarkh]),
          ([(50, 50)], 540, [Umarkh]), ([(58, 58)], 514, [Umarkh, Usave_host]), ([(63, 63)], 456, [Umarkh, Usave_host, Usave_path]),
          ([(91, 91)], 260, [Umarkh]), ([(51, 57)], 539, [Umarkh]), (reg_chars, 523, [Umarkh])]),
     (523, False, [([(35, 35)], 453, [Usave_host, Umarkh, Usave_path]), ([(37, 37)], 258, []),
          ([(47, 47)], 513, [Usave_host, Umarkh]), ([(58, 58)], 514, [Usave_host]),
          ([(63, 63)], 456, [Usave_host, Umarkh, Usave_path]), (reg_chars, 523, [])])]"

definition uri_states_45 :: "uri_action states" where
  "uri_states_45 =
    [(258, False, [(xdigits, 259, [])]),
     (259, False, [(xdigits, 523, [])]),
     (524, False, [([(35, 35)], 453, [Usave_host, Umarkh, Usave_path]), ([(37, 37)], 258, []), ([(46, 46)], 525, []),
          ([(47, 47)], 513, [Usave_host, Umarkh]), ([(58, 58)], 514, [Usave_host]),
          ([(63, 63)], 456, [Usave_host, Umarkh, Usave_path]), (reg_chars, 523, [])]),
     (525, False, [([(2, 2)], 233, []), ([(35, 35)], 453, [Usave_host, Umarkh, Usave_path]), ([(37, 37)], 258, []),
          ([(47, 47)], 513, [Usave_host, Umarkh]), ([(48, 48)], 526, []), ([(49, 49)], 534, []), ([(50, 50)], 536, []),
          ([(58, 58)], 514, [Usave_host]), ([(63, 63)], 456, [Usave_host, Umarkh, Usave_path]), ([(51, 57)], 535, []),
          (reg_chars, 523, [])]),
     (526, False, [([(35, 35)], 453, [Usave_host, Umarkh, Usave_path]), ([(37, 37)], 258, []), ([(46, 46)], 527, []),
          ([(47, 47)], 513, [Usave_host, Umarkh]), ([(58, 58)], 514, [Usave_host]),
          ([(63, 63)], 456, [Usave_host, Umarkh, Usave_path]), (reg_chars, 523, [])]),
     (527, False, [([(2, 2)], 237, []), ([(35, 35)], 453, [Usave_host, Umarkh, Usave_path]), ([(37, 37)], 258, []),
          ([(47, 47)], 513, [Usave_host, Umarkh]), ([(48, 48)], 528, []), ([(49, 49)], 530, []), ([(50, 50)], 532, []),
          ([(58, 58)], 514, [Usave_host]), ([(63, 63)], 456, [Usave_host, Umarkh, Usave_path]), ([(51, 57)], 531, []),
          (reg_chars, 523, [])])]"

definition uri_states_46 :: "uri_action states" where
  "uri_states_46 =
    [(528, False, [([(35, 35)], 453, [Usave_host, Umarkh, Usave_path]), ([(37, 37)], 258, []), ([(46, 46)], 529, []),
          ([(47, 47)], 513, [Usave_host, Umarkh]), ([(58, 58)], 514, [Usave_host]),
          ([(63, 63)], 456, [Usave_host, Umarkh, Usave_path]), (reg_chars, 523, [])]),
     (529, False, [([(2, 2)], 241, []), ([(35, 35)], 453, [Usave_host, Umarkh, Usave_path]), ([(37, 37)], 258, []),
          ([(47, 47)], 513, [Usave_host, Umarkh]), ([(58, 58)], 514, [Usave_host]),
          ([(63, 63)], 456, [Usave_host, Umarkh, Usave_path]), (reg_chars, 523, [])]),
     (530, False, [([(35, 35)], 453, [Usave_host, Umarkh, Usave_path]), ([(37, 37)], 258, []), ([(46, 46)], 529, []),
          ([(47, 47)], 513, [Usave_host, Umarkh]), ([(58, 58)], 514, [Usave_host]),
          ([(63, 63)], 456, [Usave_host, Umarkh, Usave_path]), ([(48, 57)], 531, []), (reg_chars, 523, [])]),
     (531, False, [([(35, 35)], 453, [Usave_host, Umarkh, Usave_path]), ([(37, 37)], 258, []), ([(46, 46)], 529, []),
          ([(47, 47)], 513, [Usave_host, Umarkh]), ([(58, 58)], 514, [Usave_host]),
          ([(63, 63)], 456, [Usave_host, Umarkh, Usave_path]), ([(48, 57)], 528, []), (reg_chars, 523, [])]),
     (532, False, [([(35, 35)], 453, [Usave_host, Umarkh, Usave_path]), ([(37, 37)], 258, []), ([(46, 46)], 529, []),
          ([(47, 47)], 513, [Usave_host, Umarkh]), ([(53, 53)], 533, []), ([(58, 58)], 514, [Usave_host]),
          ([(63, 63)], 456, [Usave_host, Umarkh, Usave_path]), (digits, 528, []), (reg_chars, 523, [])])]"

definition uri_states_47 :: "uri_action states" where
  "uri_states_47 =
    [(533, False, [([(35, 35)], 453, [Usave_host, Umarkh, Usave_path]), ([(37, 37)], 258, []), ([(46, 46)], 529, []),
          ([(47, 47)], 513, [Usave_host, Umarkh]), ([(58, 58)], 514, [Usave_host]),
          ([(63, 63)], 456, [Usave_host, Umarkh, Usave_path]), ([(48, 53)], 528, []), (reg_chars, 523, [])]),
     (534, False, [([(35, 35)], 453, [Usave_host, Umarkh, Usave_path]), ([(37, 37)], 258, []), ([(46, 46)], 527, []),
          ([(47, 47)], 513, [Usave_host, Umarkh]), ([(58, 58)], 514, [Usave_host]),
          ([(63, 63)], 456, [Usave_host, Umarkh, Usave_path]), ([(48, 57)], 535, []), (reg_chars, 523, [])]),
     (535, False, [([(35, 35)], 453, [Usave_host, Umarkh, Usave_path]), ([(37, 37)], 258, []), ([(46, 46)], 527, []),
          ([(47, 47)], 513, [Usave_host, Umarkh]), ([(58, 58)], 514, [Usave_host]),
          ([(63, 63)], 456, [Usave_host, Umarkh, Usave_path]), ([(48, 57)], 526, []), (reg_chars, 523, [])]),
     (536, False, [([(35, 35)], 453, [Usave_host, Umarkh, Usave_path]), ([(37, 37)], 258, []), ([(46, 46)], 527, []),
          ([(47, 47)], 513, [Usave_host, Umarkh]), ([(53, 53)], 537, []), ([(58, 58)], 514, [Usave_host]),
          ([(63, 63)], 456, [Usave_host, Umarkh, Usave_path]), (digits, 526, []), (reg_chars, 523, [])]),
     (537, False, [([(35, 35)], 453, [Usave_host, Umarkh, Usave_path]), ([(37, 37)], 258, []), ([(46, 46)], 527, []),
          ([(47, 47)], 513, [Usave_host, Umarkh]), ([(58, 58)], 514, [Usave_host]),
          ([(63, 63)], 456, [Usave_host, Umarkh, Usave_path]), ([(48, 53)], 526, []), (reg_chars, 523, [])])]"

definition uri_states_48 :: "uri_action states" where
  "uri_states_48 =
    [(538, False, [([(35, 35)], 453, [Usave_host, Umarkh, Usave_path]), ([(37, 37)], 258, []), ([(46, 46)], 525, []),
          ([(47, 47)], 513, [Usave_host, Umarkh]), ([(58, 58)], 514, [Usave_host]),
          ([(63, 63)], 456, [Usave_host, Umarkh, Usave_path]), ([(48, 57)], 539, []), (reg_chars, 523, [])]),
     (539, False, [([(35, 35)], 453, [Usave_host, Umarkh, Usave_path]), ([(37, 37)], 258, []), ([(46, 46)], 525, []),
          ([(47, 47)], 513, [Usave_host, Umarkh]), ([(58, 58)], 514, [Usave_host]),
          ([(63, 63)], 456, [Usave_host, Umarkh, Usave_path]), ([(48, 57)], 524, []), (reg_chars, 523, [])]),
     (540, False, [([(35, 35)], 453, [Usave_host, Umarkh, Usave_path]), ([(37, 37)], 258, []), ([(46, 46)], 525, []),
          ([(47, 47)], 513, [Usave_host, Umarkh]), ([(53, 53)], 541, []), ([(58, 58)], 514, [Usave_host]),
          ([(63, 63)], 456, [Usave_host, Umarkh, Usave_path]), (digits, 524, []), (reg_chars, 523, [])]),
     (541, False, [([(35, 35)], 453, [Usave_host, Umarkh, Usave_path]), ([(37, 37)], 258, []), ([(46, 46)], 525, []),
          ([(47, 47)], 513, [Usave_host, Umarkh]), ([(58, 58)], 514, [Usave_host]),
          ([(63, 63)], 456, [Usave_host, Umarkh, Usave_path]), ([(48, 53)], 524, []), (reg_chars, 523, [])])]"

definition uri_states_49 :: "uri_action states" where
  "uri_states_49 =
    [(260, False, [([(58, 58)], 368, []), ([(118, 118)], 447, []), (xdigits, 261, [])]),
     (261, False, [([(58, 58)], 265, []), (xdigits, 262, [])]),
     (262, False, [([(58, 58)], 265, []), (xdigits, 263, [])]),
     (263, False, [([(58, 58)], 265, []), (xdigits, 264, [])]),
     (264, False, [([(58, 58)], 265, [])]),
     (265, False, [([(58, 58)], 363, []), (xdigits, 266, [])]),
     (266, False, [([(58, 58)], 270, []), (xdigits, 267, [])]),
     (267, False, [([(58, 58)], 270, []), (xdigits, 268, [])]),
     (268, False, [([(58, 58)], 270, []), (xdigits, 269, [])]),
     (269, False, [([(58, 58)], 270, [])])]"

definition uri_states_50 :: "uri_action states" where
  "uri_states_50 =
    [(270, False, [([(58, 58)], 358, []), (xdigits, 271, [])]),
     (271, False, [([(58, 58)], 275, []), (xdigits, 272, [])]),
     (272, False, [([(58, 58)], 275, []), (xdigits, 273, [])]),
     (273, False, [([(58, 58)], 275, []), (xdigits, 274, [])]),
     (274, False, [([(58, 58)], 275, [])]),
     (275, False, [([(58, 58)], 353, []), (xdigits, 276, [])]),
     (276, False, [([(58, 58)], 280, []), (xdigits, 277, [])]),
     (277, False, [([(58, 58)], 280, []), (xdigits, 278, [])]),
     (278, False, [([(58, 58)], 280, []), (xdigits, 279, [])]),
     (279, False, [([(58, 58)], 280, [])]),
     (280, False, [([(58, 58)], 348, []), (xdigits, 281, [])])]"

definition uri_states_51 :: "uri_action states" where
  "uri_states_51 =
    [(281, False, [([(58, 58)], 285, []), (xdigits, 282, [])]),
     (282, False, [([(58, 58)], 285, []), (xdigits, 283, [])]),
     (283, False, [([(58, 58)], 285, []), (xdigits, 284, [])]),
     (284, False, [([(58, 58)], 285, [])]),
     (285, False, [([(58, 58)], 335, []), (xdigits, 286, [])]),
     (286, False, [([(58, 58)], 290, []), (xdigits, 287, [])]),
     (287, False, [([(58, 58)], 290, []), (xdigits, 288, [])]),
     (288, False, [([(58, 58)], 290, []), (xdigits, 289, [])]),
     (289, False, [([(58, 58)], 290, [])]),
     (290, False, [([(2, 2)], 291, []), ([(48, 48)], 318, []), ([(49, 49)], 326, []), ([(50, 50)], 329, []), ([(58, 58)], 333, []),
          ([(51, 57)], 332, []), (xdigits, 334, [])]),
     (291, False, [([(48, 52)], 292, [])])]"

definition uri_states_52 :: "uri_action states" where
  "uri_states_52 =
    [(292, False, [([(48, 57)], 293, [])]),
     (293, False, [([(46, 46)], 294, [])]),
     (294, False, [([(2, 2)], 295, []), ([(48, 48)], 297, []), ([(49, 49)], 314, []), ([(50, 50)], 316, []), ([(51, 57)], 315, [])]),
     (295, False, [([(48, 52)], 296, [])]),
     (296, False, [([(48, 57)], 297, [])]),
     (297, False, [([(46, 46)], 298, [])]),
     (298, False, [([(2, 2)], 299, []), ([(48, 48)], 301, []), ([(49, 49)], 310, []), ([(50, 50)], 312, []), ([(51, 57)], 311, [])]),
     (299, False, [([(48, 52)], 300, [])]),
     (300, False, [([(48, 57)], 301, [])]),
     (301, False, [([(46, 46)], 302, [])]),
     (302, False, [([(2, 2)], 303, []), ([(48, 48)], 305, []), ([(49, 49)], 306, []), ([(50, 50)], 308, []), ([(51, 57)], 307, [])]),
     (303, False, [([(48, 52)], 304, [])]),
     (304, False, [([(48, 57)], 305, [])]),
     (305, False, [([(93, 93)], 512, [])]),
     (306, False, [([(93, 93)], 512, []), ([(48, 57)], 307, [])]),
     (307, False, [([(93, 93)], 512, []), ([(48, 57)], 305, [])]),
     (308, False, [([(53, 53)], 309, []), ([(93, 93)], 512, []), (digits, 305, [])])]"

definition uri_states_53 :: "uri_action states" where
  "uri_states_53 =
    [(309, False, [([(93, 93)], 512, []), ([(48, 53)], 305, [])]),
     (310, False, [([(46, 46)], 302, []), ([(48, 57)], 311, [])]),
     (311, False, [([(46, 46)], 302, []), ([(48, 57)], 301, [])]),
     (312, False, [([(46, 46)], 302, []), ([(53, 53)], 313, []), (digits, 301, [])]),
     (313, False, [([(46, 46)], 302, []), ([(48, 53)], 301, [])]),
     (314, False, [([(46, 46)], 298, []), ([(48, 57)], 315, [])]),
     (315, False, [([(46, 46)], 298, []), ([(48, 57)], 297, [])]),
     (316, False, [([(46, 46)], 298, []), ([(53, 53)], 317, []), (digits, 297, [])]),
     (317, False, [([(46, 46)], 298, []), ([(48, 53)], 297, [])]),
     (318, False, [([(46, 46)], 294, []), ([(58, 58)], 322, []), (xdigits, 319, [])]),
     (319, False, [([(58, 58)], 322, []), (xdigits, 320, [])]),
     (320, False, [([(58, 58)], 322, []), (xdigits, 321, [])]),
     (321, False, [([(58, 58)], 322, [])])]"

definition uri_states_54 :: "uri_action states" where
  "uri_states_54 =
    [(322, False, [([(58, 58)], 305, []), (xdigits, 323, [])]),
     (323, False, [([(93, 93)], 512, []), (xdigits, 324, [])]),
     (324, False, [([(93, 93)], 512, []), (xdigits, 325, [])]),
     (325, False, [([(93, 93)], 512, []), (xdigits, 305, [])]),
     (326, False, [([(46, 46)], 294, []), ([(58, 58)], 322, []), ([(48, 57)], 327, []), (xdigits, 319, [])]),
     (327, False, [([(46, 46)], 294, []), ([(58, 58)], 322, []), ([(48, 57)], 328, []), (xdigits, 320, [])]),
     (328, False, [([(46, 46)], 294, []), ([(58, 58)], 322, []), (xdigits, 321, [])]),
     (329, False, [([(46, 46)], 294, []), ([(53, 53)], 331, []), ([(58, 58)], 322, []), (digits, 330, []), (xdigits, 319, [])]),
     (330, False, [([(46, 46)], 294, []), ([(58, 58)], 322, []), (xdigits, 320, [])])]"

definition uri_states_55 :: "uri_action states" where
  "uri_states_55 =
    [(331, False, [([(46, 46)], 294, []), ([(58, 58)], 322, []), ([(48, 53)], 328, []), (xdigits, 320, [])]),
     (332, False, [([(46, 46)], 294, []), ([(58, 58)], 322, []), ([(48, 57)], 330, []), (xdigits, 319, [])]),
     (333, False, [(xdigits, 323, [])]),
     (334, False, [([(58, 58)], 322, []), (xdigits, 319, [])]),
     (335, False, [([(2, 2)], 291, []), ([(48, 48)], 336, []), ([(49, 49)], 340, []), ([(50, 50)], 343, []), ([(51, 57)], 346, []),
          (xdigits, 347, [])]),
     (336, False, [([(46, 46)], 294, []), ([(58, 58)], 333, []), (xdigits, 337, [])]),
     (337, False, [([(58, 58)], 333, []), (xdigits, 338, [])]),
     (338, False, [([(58, 58)], 333, []), (xdigits, 339, [])]),
     (339, False, [([(58, 58)], 333, [])])]"

definition uri_states_56 :: "uri_action states" where
  "uri_states_56 =
    [(340, False, [([(46, 46)], 294, []), ([(58, 58)], 333, []), ([(48, 57)], 341, []), (xdigits, 337, [])]),
     (341, False, [([(46, 46)], 294, []), ([(58, 58)], 333, []), ([(48, 57)], 342, []), (xdigits, 338, [])]),
     (342, False, [([(46, 46)], 294, []), ([(58, 58)], 333, []), (xdigits, 339, [])]),
     (343, False, [([(46, 46)], 294, []), ([(53, 53)], 345, []), ([(58, 58)], 333, []), (digits, 344, []), (xdigits, 337, [])]),
     (344, False, [([(46, 46)], 294, []), ([(58, 58)], 333, []), (xdigits, 338, [])]),
     (345, False, [([(46, 46)], 294, []), ([(58, 58)], 333, []), ([(48, 53)], 342, []), (xdigits, 338, [])]),
     (346, False, [([(46, 46)], 294, []), ([(58, 58)], 333, []), ([(48, 57)], 344, []), (xdigits, 337, [])]),
     (347, False, [([(58, 58)], 333, []), (xdigits, 337, [])])]"

definition uri_states_57 :: "uri_action states" where
  "uri_states_57 =
    [(348, False, [(xdigits, 349, [])]),
     (349, False, [([(58, 58)], 335, []), (xdigits, 350, [])]),
     (350, False, [([(58, 58)], 335, []), (xdigits, 351, [])]),
     (351, False, [([(58, 58)], 335, []), (xdigits, 352, [])]),
     (352, False, [([(58, 58)], 335, [])]),
     (353, False, [(xdigits, 354, [])]),
     (354, False, [([(58, 58)], 348, []), (xdigits, 355, [])]),
     (355, False, [([(58, 58)], 348, []), (xdigits, 356, [])]),
     (356, False, [([(58, 58)], 348, []), (xdigits, 357, [])]),
     (357, False, [([(58, 58)], 348, [])]),
     (358, False, [(xdigits, 359, [])])]"

definition uri_states_58 :: "uri_action states" where
  "uri_states_58 =
    [(359, False, [([(58, 58)], 353, []), (xdigits, 360, [])]),
     (360, False, [([(58, 58)], 353, []), (xdigits, 361, [])]),
     (361, False, [([(58, 58)], 353, []), (xdigits, 362, [])]),
     (362, False, [([(58, 58)], 353, [])]),
     (363, False, [(xdigits, 364, [])]),
     (364, False, [([(58, 58)], 358, []), (xdigits, 365, [])]),
     (365, False, [([(58, 58)], 358, []), (xdigits, 366, [])]),
     (366, False, [([(58, 58)], 358, []), (xdigits, 367, [])]),
     (367, False, [([(58, 58)], 358, [])]),
     (368, False, [([(58, 58)], 369, [])]),
     (369, False, [([(2, 2)], 291, []), ([(48, 48)], 370, []), ([(49, 49)], 439, []), ([(50, 50)], 442, []), ([(93, 93)], 512, []),
          ([(51, 57)], 445, []), (xdigits, 446, [])])]"

definition uri_states_59 :: "uri_action states" where
  "uri_states_59 =
    [(370, False, [([(46, 46)], 294, []), ([(58, 58)], 374, []), ([(93, 93)], 512, []), (xdigits, 371, [])]),
     (371, False, [([(58, 58)], 374, []), ([(93, 93)], 512, []), (xdigits, 372, [])]),
     (372, False, [([(58, 58)], 374, []), ([(93, 93)], 512, []), (xdigits, 373, [])]),
     (373, False, [([(58, 58)], 374, []), ([(93, 93)], 512, [])]),
     (374, False, [([(2, 2)], 291, []), ([(48, 48)], 375, []), ([(49, 49)], 431, []), ([(50, 50)], 434, []), ([(51, 57)], 437, []),
          (xdigits, 438, [])]),
     (375, False, [([(46, 46)], 294, []), ([(58, 58)], 379, []), ([(93, 93)], 512, []), (xdigits, 376, [])]),
     (376, False, [([(58, 58)], 379, []), ([(93, 93)], 512, []), (xdigits, 377, [])]),
     (377, False, [([(58, 58)], 379, []), ([(93, 93)], 512, []), (xdigits, 378, [])]),
     (378, False, [([(58, 58)], 379, []), ([(93, 93)], 512, [])])]"

definition uri_states_60 :: "uri_action states" where
  "uri_states_60 =
    [(379, False, [([(2, 2)], 291, []), ([(48, 48)], 380, []), ([(49, 49)], 423, []), ([(50, 50)], 426, []), ([(51, 57)], 429, []),
          (xdigits, 430, [])]),
     (380, False, [([(46, 46)], 294, []), ([(58, 58)], 384, []), ([(93, 93)], 512, []), (xdigits, 381, [])]),
     (381, False, [([(58, 58)], 384, []), ([(93, 93)], 512, []), (xdigits, 382, [])]),
     (382, False, [([(58, 58)], 384, []), ([(93, 93)], 512, []), (xdigits, 383, [])]),
     (383, False, [([(58, 58)], 384, []), ([(93, 93)], 512, [])]),
     (384, False, [([(2, 2)], 291, []), ([(48, 48)], 385, []), ([(49, 49)], 415, []), ([(50, 50)], 418, []), ([(51, 57)], 421, []),
          (xdigits, 422, [])]),
     (385, False, [([(46, 46)], 294, []), ([(58, 58)], 389, []), ([(93, 93)], 512, []), (xdigits, 386, [])]),
     (386, False, [([(58, 58)], 389, []), ([(93, 93)], 512, []), (xdigits, 387, [])])]"

definition uri_states_61 :: "uri_action states" where
  "uri_states_61 =
    [(387, False, [([(58, 58)], 389, []), ([(93, 93)], 512, []), (xdigits, 388, [])]),
     (388, False, [([(58, 58)], 389, []), ([(93, 93)], 512, [])]),
     (389, False, [([(2, 2)], 291, []), ([(48, 48)], 390, []), ([(49, 49)], 407, []), ([(50, 50)], 410, []), ([(51, 57)], 413, []),
          (xdigits, 414, [])]),
     (390, False, [([(46, 46)], 294, []), ([(58, 58)], 394, []), ([(93, 93)], 512, []), (xdigits, 391, [])]),
     (391, False, [([(58, 58)], 394, []), ([(93, 93)], 512, []), (xdigits, 392, [])]),
     (392, False, [([(58, 58)], 394, []), ([(93, 93)], 512, []), (xdigits, 393, [])]),
     (393, False, [([(58, 58)], 394, []), ([(93, 93)], 512, [])]),
     (394, False, [([(2, 2)], 291, []), ([(48, 48)], 395, []), ([(49, 49)], 399, []), ([(50, 50)], 402, []), ([(51, 57)], 405, []),
          (xdigits, 406, [])]),
     (395, False, [([(46, 46)], 294, []), ([(58, 58)], 333, []), ([(93, 93)], 512, []), (xdigits, 396, [])])]"

definition uri_states_62 :: "uri_action states" where
  "uri_states_62 =
    [(396, False, [([(58, 58)], 333, []), ([(93, 93)], 512, []), (xdigits, 397, [])]),
     (397, False, [([(58, 58)], 333, []), ([(93, 93)], 512, []), (xdigits, 398, [])]),
     (398, False, [([(58, 58)], 333, []), ([(93, 93)], 512, [])]),
     (399, False, [([(46, 46)], 294, []), ([(58, 58)], 333, []), ([(93, 93)], 512, []), ([(48, 57)], 400, []), (xdigits, 396, [])]),
     (400, False, [([(46, 46)], 294, []), ([(58, 58)], 333, []), ([(93, 93)], 512, []), ([(48, 57)], 401, []), (xdigits, 397, [])]),
     (401, False, [([(46, 46)], 294, []), ([(58, 58)], 333, []), ([(93, 93)], 512, []), (xdigits, 398, [])]),
     (402, False, [([(46, 46)], 294, []), ([(53, 53)], 404, []), ([(58, 58)], 333, []), ([(93, 93)], 512, []), (digits, 403, []),
          (xdigits, 396, [])]),
     (403, False, [([(46, 46)], 294, []), ([(58, 58)], 333, []), ([(93, 93)], 512, []), (xdigits, 397, [])])]"

definition uri_states_63 :: "uri_action states" where
  "uri_states_63 =
    [(404, False, [([(46, 46)], 294, []), ([(58, 58)], 333, []), ([(93, 93)], 512, []), ([(48, 53)], 401, []), (xdigits, 397, [])]),
     (405, False, [([(46, 46)], 294, []), ([(58, 58)], 333, []), ([(93, 93)], 512, []), ([(48, 57)], 403, []), (xdigits, 396, [])]),
     (406, False, [([(58, 58)], 333, []), ([(93, 93)], 512, []), (xdigits, 396, [])]),
     (407, False, [([(46, 46)], 294, []), ([(58, 58)], 394, []), ([(93, 93)], 512, []), ([(48, 57)], 408, []), (xdigits, 391, [])]),
     (408, False, [([(46, 46)], 294, []), ([(58, 58)], 394, []), ([(93, 93)], 512, []), ([(48, 57)], 409, []), (xdigits, 392, [])]),
     (409, False, [([(46, 46)], 294, []), ([(58, 58)], 394, []), ([(93, 93)], 512, []), (xdigits, 393, [])]),
     (410, False, [([(46, 46)], 294, []), ([(53, 53)], 412, []), ([(58, 58)], 394, []), ([(93, 93)], 512, []), (digits, 411, []),
          (xdigits, 391, [])]),
     (411, False, [([(46, 46)], 294, []), ([(58, 58)], 394, []), ([(93, 93)], 512, []), (xdigits, 392, [])])]"

definition uri_states_64 :: "uri_action states" where
  "uri_states_64 =
    [(412, False, [([(46, 46)], 294, []), ([(58, 58)], 394, []), ([(93, 93)], 512, []), ([(48, 53)], 409, []), (xdigits, 392, [])]),
     (413, False, [([(46, 46)], 294, []), ([(58, 58)], 394, []), ([(93, 93)], 512, []), ([(48, 57)], 411, []), (xdigits, 391, [])]),
     (414, False, [([(58, 58)], 394, []), ([(93, 93)], 512, []), (xdigits, 391, [])]),
     (415, False, [([(46, 46)], 294, []), ([(58, 58)], 389, []), ([(93, 93)], 512, []), ([(48, 57)], 416, []), (xdigits, 386, [])]),
     (416, False, [([(46, 46)], 294, []), ([(58, 58)], 389, []), ([(93, 93)], 512, []), ([(48, 57)], 417, []), (xdigits, 387, [])]),
     (417, False, [([(46, 46)], 294, []), ([(58, 58)], 389, []), ([(93, 93)], 512, []), (xdigits, 388, [])]),
     (418, False, [([(46, 46)], 294, []), ([(53, 53)], 420, []), ([(58, 58)], 389, []), ([(93, 93)], 512, []), (digits, 419, []),
          (xdigits, 386, [])]),
     (419, False, [([(46, 46)], 294, []), ([(58, 58)], 389, []), ([(93, 93)], 512, []), (xdigits, 387, [])])]"

definition uri_states_65 :: "uri_action states" where
  "uri_states_65 =
    [(420, False, [([(46, 46)], 294, []), ([(58, 58)], 389, []), ([(93, 93)], 512, []), ([(48, 53)], 417, []), (xdigits, 387, [])]),
     (421, False, [([(46, 46)], 294, []), ([(58, 58)], 389, []), ([(93, 93)], 512, []), ([(48, 57)], 419, []), (xdigits, 386, [])]),
     (422, False, [([(58, 58)], 389, []), ([(93, 93)], 512, []), (xdigits, 386, [])]),
     (423, False, [([(46, 46)], 294, []), ([(58, 58)], 384, []), ([(93, 93)], 512, []), ([(48, 57)], 424, []), (xdigits, 381, [])]),
     (424, False, [([(46, 46)], 294, []), ([(58, 58)], 384, []), ([(93, 93)], 512, []), ([(48, 57)], 425, []), (xdigits, 382, [])]),
     (425, False, [([(46, 46)], 294, []), ([(58, 58)], 384, []), ([(93, 93)], 512, []), (xdigits, 383, [])]),
     (426, False, [([(46, 46)], 294, []), ([(53, 53)], 428, []), ([(58, 58)], 384, []), ([(93, 93)], 512, []), (digits, 427, []),
          (xdigits, 381, [])]),
     (427, False, [([(46, 46)], 294, []), ([(58, 58)], 384, []), ([(93, 93)], 512, []), (xdigits, 382, [])])]"

definition uri_states_66 :: "uri_action states" where
  "uri_states_66 =
    [(428, False, [([(46, 46)], 294, []), ([(58, 58)], 384, []), ([(93, 93)], 512, []), ([(48, 53)], 425, []), (xdigits, 382, [])]),
     (429, False, [([(46, 46)], 294, []), ([(58, 58)], 384, []), ([(93, 93)], 512, []), ([(48, 57)], 427, []), (xdigits, 381, [])]),
     (430, False, [([(58, 58)], 384, []), ([(93, 93)], 512, []), (xdigits, 381, [])]),
     (431, False, [([(46, 46)], 294, []), ([(58, 58)], 379, []), ([(93, 93)], 512, []), ([(48, 57)], 432, []), (xdigits, 376, [])]),
     (432, False, [([(46, 46)], 294, []), ([(58, 58)], 379, []), ([(93, 93)], 512, []), ([(48, 57)], 433, []), (xdigits, 377, [])]),
     (433, False, [([(46, 46)], 294, []), ([(58, 58)], 379, []), ([(93, 93)], 512, []), (xdigits, 378, [])]),
     (434, False, [([(46, 46)], 294, []), ([(53, 53)], 436, []), ([(58, 58)], 379, []), ([(93, 93)], 512, []), (digits, 435, []),
          (xdigits, 376, [])]),
     (435, False, [([(46, 46)], 294, []), ([(58, 58)], 379, []), ([(93, 93)], 512, []), (xdigits, 377, [])])]"

definition uri_states_67 :: "uri_action states" where
  "uri_states_67 =
    [(436, False, [([(46, 46)], 294, []), ([(58, 58)], 379, []), ([(93, 93)], 512, []), ([(48, 53)], 433, []), (xdigits, 377, [])]),
     (437, False, [([(46, 46)], 294, []), ([(58, 58)], 379, []), ([(93, 93)], 512, []), ([(48, 57)], 435, []), (xdigits, 376, [])]),
     (438, False, [([(58, 58)], 379, []), ([(93, 93)], 512, []), (xdigits, 376, [])]),
     (439, False, [([(46, 46)], 294, []), ([(58, 58)], 374, []), ([(93, 93)], 512, []), ([(48, 57)], 440, []), (xdigits, 371, [])]),
     (440, False, [([(46, 46)], 294, []), ([(58, 58)], 374, []), ([(93, 93)], 512, []), ([(48, 57)], 441, []), (xdigits, 372, [])]),
     (441, False, [([(46, 46)], 294, []), ([(58, 58)], 374, []), ([(93, 93)], 512, []), (xdigits, 373, [])]),
     (442, False, [([(46, 46)], 294, []), ([(53, 53)], 444, []), ([(58, 58)], 374, []), ([(93, 93)], 512, []), (digits, 443, []),
          (xdigits, 371, [])]),
     (443, False, [([(46, 46)], 294, []), ([(58, 58)], 374, []), ([(93, 93)], 512, []), (xdigits, 372, [])])]"

definition uri_states_68 :: "uri_action states" where
  "uri_states_68 =
    [(444, False, [([(46, 46)], 294, []), ([(58, 58)], 374, []), ([(93, 93)], 512, []), ([(48, 53)], 441, []), (xdigits, 372, [])]),
     (445, False, [([(46, 46)], 294, []), ([(58, 58)], 374, []), ([(93, 93)], 512, []), ([(48, 57)], 443, []), (xdigits, 371, [])]),
     (446, False, [([(58, 58)], 374, []), ([(93, 93)], 512, []), (xdigits, 371, [])]),
     (447, False, [(xdigits, 448, [])]),
     (448, False, [([(46, 46)], 449, []), (xdigits, 448, [])]),
     (449, False, [([(33, 33), (36, 36), (38, 46), (48, 59), (61, 61), (65, 90), (95, 95), (97, 122), (126, 126)], 450, [])]),
     (450, False, [([(93, 93)], 512, []),
          ([(33, 33), (36, 36), (38, 46), (48, 59), (61, 61), (65, 90), (95, 95), (97, 122), (126, 126)], 450, [])])]"

definition uri_states_69 :: "uri_action states" where
  "uri_states_69 =
    [(542, False, [([(35, 35)], 453, [Usave_port, Umarkh, Usave_path]), ([(37, 37)], 256, []),
          ([(47, 47)], 513, [Usave_port, Umarkh]), ([(63, 63)], 456, [Usave_port, Umarkh, Usave_path]),
          ([(64, 64)], 522, [Usave_userinfo]), ([(48, 57)], 542, []), (reg_chars, 255, [])]),
     (543, False, [([(35, 35)], 453, [Usave_host, Umarkh, Usave_path]), ([(37, 37)], 253, []), ([(46, 46)], 544, []),
          ([(47, 47)], 513, [Usave_host, Umarkh]), ([(58, 58)], 521, [Usave_host]),
          ([(63, 63)], 456, [Usave_host, Umarkh, Usave_path]), ([(64, 64)], 522, [Usave_userinfo]), (reg_chars, 520, [])]),
     (544, False, [([(2, 2)], 233, []), ([(35, 35)], 453, [Usave_host, Umarkh, Usave_path]), ([(37, 37)], 253, []),
          ([(47, 47)], 513, [Usave_host, Umarkh]), ([(48, 48)], 545, []), ([(49, 49)], 553, []), ([(50, 50)], 555, []),
          ([(58, 58)], 521, [Usave_host]), ([(63, 63)], 456, [Usave_host, Umarkh, Usave_path]), ([(64, 64)], 522, [Usave_userinfo]),
          ([(51, 57)], 554, []), (reg_chars, 520, [])]),
     (545, False, [([(35, 35)], 453, [Usave_host, Umarkh, Usave_path]), ([(37, 37)], 253, []), ([(46, 46)], 546, []),
          ([(47, 47)], 513, [Usave_host, Umarkh]), ([(58, 58)], 521, [Usave_host]),
          ([(63, 63)], 456, [Usave_host, Umarkh, Usave_path]), ([(64, 64)], 522, [Usave_userinfo]), (reg_chars, 520, [])])]"

definition uri_states_70 :: "uri_action states" where
  "uri_states_70 =
    [(546, False, [([(2, 2)], 237, []), ([(35, 35)], 453, [Usave_host, Umarkh, Usave_path]), ([(37, 37)], 253, []),
          ([(47, 47)], 513, [Usave_host, Umarkh]), ([(48, 48)], 547, []), ([(49, 49)], 549, []), ([(50, 50)], 551, []),
          ([(58, 58)], 521, [Usave_host]), ([(63, 63)], 456, [Usave_host, Umarkh, Usave_path]), ([(64, 64)], 522, [Usave_userinfo]),
          ([(51, 57)], 550, []), (reg_chars, 520, [])]),
     (547, False, [([(35, 35)], 453, [Usave_host, Umarkh, Usave_path]), ([(37, 37)], 253, []), ([(46, 46)], 548, []),
          ([(47, 47)], 513, [Usave_host, Umarkh]), ([(58, 58)], 521, [Usave_host]),
          ([(63, 63)], 456, [Usave_host, Umarkh, Usave_path]), ([(64, 64)], 522, [Usave_userinfo]), (reg_chars, 520, [])]),
     (548, False, [([(2, 2)], 241, []), ([(35, 35)], 453, [Usave_host, Umarkh, Usave_path]), ([(37, 37)], 253, []),
          ([(47, 47)], 513, [Usave_host, Umarkh]), ([(58, 58)], 521, [Usave_host]),
          ([(63, 63)], 456, [Usave_host, Umarkh, Usave_path]), ([(64, 64)], 522, [Usave_userinfo]), (reg_chars, 520, [])]),
     (549, False, [([(35, 35)], 453, [Usave_host, Umarkh, Usave_path]), ([(37, 37)], 253, []), ([(46, 46)], 548, []),
          ([(47, 47)], 513, [Usave_host, Umarkh]), ([(58, 58)], 521, [Usave_host]),
          ([(63, 63)], 456, [Usave_host, Umarkh, Usave_path]), ([(64, 64)], 522, [Usave_userinfo]), ([(48, 57)], 550, []),
          (reg_chars, 520, [])]),
     (550, False, [([(35, 35)], 453, [Usave_host, Umarkh, Usave_path]), ([(37, 37)], 253, []), ([(46, 46)], 548, []),
          ([(47, 47)], 513, [Usave_host, Umarkh]), ([(58, 58)], 521, [Usave_host]),
          ([(63, 63)], 456, [Usave_host, Umarkh, Usave_path]), ([(64, 64)], 522, [Usave_userinfo]), ([(48, 57)], 547, []),
          (reg_chars, 520, [])])]"

definition uri_states_71 :: "uri_action states" where
  "uri_states_71 =
    [(551, False, [([(35, 35)], 453, [Usave_host, Umarkh, Usave_path]), ([(37, 37)], 253, []), ([(46, 46)], 548, []),
          ([(47, 47)], 513, [Usave_host, Umarkh]), ([(53, 53)], 552, []), ([(58, 58)], 521, [Usave_host]),
          ([(63, 63)], 456, [Usave_host, Umarkh, Usave_path]), ([(64, 64)], 522, [Usave_userinfo]), (digits, 547, []),
          (reg_chars, 520, [])]),
     (552, False, [([(35, 35)], 453, [Usave_host, Umarkh, Usave_path]), ([(37, 37)], 253, []), ([(46, 46)], 548, []),
          ([(47, 47)], 513, [Usave_host, Umarkh]), ([(58, 58)], 521, [Usave_host]),
          ([(63, 63)], 456, [Usave_host, Umarkh, Usave_path]), ([(64, 64)], 522, [Usave_userinfo]), ([(48, 53)], 547, []),
          (reg_chars, 520, [])]),
     (553, False, [([(35, 35)], 453, [Usave_host, Umarkh, Usave_path]), ([(37, 37)], 253, []), ([(46, 46)], 546, []),
          ([(47, 47)], 513, [Usave_host, Umarkh]), ([(58, 58)], 521, [Usave_host]),
          ([(63, 63)], 456, [Usave_host, Umarkh, Usave_path]), ([(64, 64)], 522, [Usave_userinfo]), ([(48, 57)], 554, []),
          (reg_chars, 520, [])]),
     (554, False, [([(35, 35)], 453, [Usave_host, Umarkh, Usave_path]), ([(37, 37)], 253, []), ([(46, 46)], 546, []),
          ([(47, 47)], 513, [Usave_host, Umarkh]), ([(58, 58)], 521, [Usave_host]),
          ([(63, 63)], 456, [Usave_host, Umarkh, Usave_path]), ([(64, 64)], 522, [Usave_userinfo]), ([(48, 57)], 545, []),
          (reg_chars, 520, [])])]"

definition uri_states_72 :: "uri_action states" where
  "uri_states_72 =
    [(555, False, [([(35, 35)], 453, [Usave_host, Umarkh, Usave_path]), ([(37, 37)], 253, []), ([(46, 46)], 546, []),
          ([(47, 47)], 513, [Usave_host, Umarkh]), ([(53, 53)], 556, []), ([(58, 58)], 521, [Usave_host]),
          ([(63, 63)], 456, [Usave_host, Umarkh, Usave_path]), ([(64, 64)], 522, [Usave_userinfo]), (digits, 545, []),
          (reg_chars, 520, [])]),
     (556, False, [([(35, 35)], 453, [Usave_host, Umarkh, Usave_path]), ([(37, 37)], 253, []), ([(46, 46)], 546, []),
          ([(47, 47)], 513, [Usave_host, Umarkh]), ([(58, 58)], 521, [Usave_host]),
          ([(63, 63)], 456, [Usave_host, Umarkh, Usave_path]), ([(64, 64)], 522, [Usave_userinfo]), ([(48, 53)], 545, []),
          (reg_chars, 520, [])]),
     (557, False, [([(35, 35)], 453, [Usave_host, Umarkh, Usave_path]), ([(37, 37)], 253, []), ([(46, 46)], 544, []),
          ([(47, 47)], 513, [Usave_host, Umarkh]), ([(58, 58)], 521, [Usave_host]),
          ([(63, 63)], 456, [Usave_host, Umarkh, Usave_path]), ([(64, 64)], 522, [Usave_userinfo]), ([(48, 57)], 558, []),
          (reg_chars, 520, [])]),
     (558, False, [([(35, 35)], 453, [Usave_host, Umarkh, Usave_path]), ([(37, 37)], 253, []), ([(46, 46)], 544, []),
          ([(47, 47)], 513, [Usave_host, Umarkh]), ([(58, 58)], 521, [Usave_host]),
          ([(63, 63)], 456, [Usave_host, Umarkh, Usave_path]), ([(64, 64)], 522, [Usave_userinfo]), ([(48, 57)], 543, []),
          (reg_chars, 520, [])])]"

definition uri_states_73 :: "uri_action states" where
  "uri_states_73 =
    [(559, False, [([(35, 35)], 453, [Usave_host, Umarkh, Usave_path]), ([(37, 37)], 253, []), ([(46, 46)], 544, []),
          ([(47, 47)], 513, [Usave_host, Umarkh]), ([(53, 53)], 560, []), ([(58, 58)], 521, [Usave_host]),
          ([(63, 63)], 456, [Usave_host, Umarkh, Usave_path]), ([(64, 64)], 522, [Usave_userinfo]), (digits, 543, []),
          (reg_chars, 520, [])]),
     (560, False, [([(35, 35)], 453, [Usave_host, Umarkh, Usave_path]), ([(37, 37)], 253, []), ([(46, 46)], 544, []),
          ([(47, 47)], 513, [Usave_host, Umarkh]), ([(58, 58)], 521, [Usave_host]),
          ([(63, 63)], 456, [Usave_host, Umarkh, Usave_path]), ([(64, 64)], 522, [Usave_userinfo]), ([(48, 53)], 543, []),
          (reg_chars, 520, [])])]"

definition uri_table :: "uri_action states" where
  "uri_table = uri_states_1 @ uri_states_2 @ uri_states_3 @ uri_states_4 @ uri_states_5 @
     uri_states_6 @ uri_states_7 @ uri_states_8 @ uri_states_9 @ uri_states_10 @ uri_states_11 @
     uri_states_12 @ uri_states_13 @ uri_states_14 @ uri_states_15 @ uri_states_16 @ uri_states_17 @
     uri_states_18 @ uri_states_19 @ uri_states_20 @ uri_states_21 @ uri_states_22 @ uri_states_23 @
     uri_states_24 @ uri_states_25 @ uri_states_26 @ uri_states_27 @ uri_states_28 @ uri_states_29 @
     uri_states_30 @ uri_states_31 @ uri_states_32 @ uri_states_33 @ uri_states_34 @ uri_states_35 @
     uri_states_36 @ uri_states_37 @ uri_states_38 @ uri_states_39 @ uri_states_40 @ uri_states_41 @
     uri_states_42 @ uri_states_43 @ uri_states_44 @ uri_states_45 @ uri_states_46 @ uri_states_47 @
     uri_states_48 @ uri_states_49 @ uri_states_50 @ uri_states_51 @ uri_states_52 @ uri_states_53 @
     uri_states_54 @ uri_states_55 @ uri_states_56 @ uri_states_57 @ uri_states_58 @ uri_states_59 @
     uri_states_60 @ uri_states_61 @ uri_states_62 @ uri_states_63 @ uri_states_64 @ uri_states_65 @
     uri_states_66 @ uri_states_67 @ uri_states_68 @ uri_states_69 @ uri_states_70 @ uri_states_71 @
     uri_states_72 @ uri_states_73"

text \<open>The actions at the end of the text, by state.\<close>

definition uri_eof :: "(ranges \<times> uri_action list) list" where
  "uri_eof =
     [([(462, 462), (489, 489)], [Usave_port]),
      ([(460, 460), (463, 467), (470, 488), (490, 507)], [Usave_host]),
      ([(513, 513)], [Usave_path]), ([(457, 457)], [Usave_query]), ([(454, 454)], [Usave_fragment]),
      ([(456, 456)], [Umarku, Usave_query]), ([(453, 453)], [Umarku, Usave_fragment]),
      ([(461, 461), (468, 468)], [Umarkh, Usave_port]), ([(459, 459), (469, 469)], [Umarkh, Usave_host]),
      ([(514, 514), (521, 521)], [Umarkh, Usave_port, Usave_path]), ([(511, 511), (522, 522)], [Umarkh, Usave_host, Usave_path]),
      ([(515, 515), (542, 542)], [Usave_port, Umarkh, Usave_path]),
      ([(512, 512), (516, 520), (523, 541), (543, 560)], [Usave_host, Umarkh, Usave_path])]"

definition eof_acts :: "nat \<Rightarrow> uri_action list" where
  "eof_acts s = (case filter (\<lambda>(S, acts). inside s S) uri_eof of [] \<Rightarrow> [] | (S, acts) # _ \<Rightarrow> acts)"

section \<open>The scanner\<close>

definition uri_parser_start :: nat where "uri_parser_start = 451"

definition uri_run :: "string \<Rightarrow> uri \<Rightarrow> nat \<times> uri_state" where
  "uri_run text u =
     (case scan uri_table (\<lambda>_. schar) (uri_act text) (\<lambda>_. False) uri_parser_start 0 text (u, None, None) of
        (cs, p, st) \<Rightarrow> (cs, if p = length text then fold (\<lambda>a. uri_act text a p) (eof_acts cs) st else st))"

definition uri_scan :: "string \<Rightarrow> uri \<Rightarrow> nat \<times> uri" where
  "uri_scan text u = (case uri_run text u of (cs, u', mark, err) \<Rightarrow> (cs, u'))"

text \<open>\<^verbatim>\<open>Uri::Create\<close> with the error the scanner may raise.\<close>

definition Uri_create :: "string \<Rightarrow> uri option res" where
  "Uri_create text =
     (case snd (snd (snd (uri_run text newUri))) of Some e \<Rightarrow> Inl e | None \<Rightarrow> Inr (Uri_Create uri_scan text))"

lemmas uri_tables = uri_table_def uri_states_1_def uri_states_2_def uri_states_3_def uri_states_4_def uri_states_5_def uri_states_6_def
  uri_states_7_def uri_states_8_def uri_states_9_def uri_states_10_def uri_states_11_def uri_states_12_def
  uri_states_13_def uri_states_14_def uri_states_15_def uri_states_16_def uri_states_17_def uri_states_18_def
  uri_states_19_def uri_states_20_def uri_states_21_def uri_states_22_def uri_states_23_def uri_states_24_def
  uri_states_25_def uri_states_26_def uri_states_27_def uri_states_28_def uri_states_29_def uri_states_30_def
  uri_states_31_def uri_states_32_def uri_states_33_def uri_states_34_def uri_states_35_def uri_states_36_def
  uri_states_37_def uri_states_38_def uri_states_39_def uri_states_40_def uri_states_41_def uri_states_42_def
  uri_states_43_def uri_states_44_def uri_states_45_def uri_states_46_def uri_states_47_def uri_states_48_def
  uri_states_49_def uri_states_50_def uri_states_51_def uri_states_52_def uri_states_53_def uri_states_54_def
  uri_states_55_def uri_states_56_def uri_states_57_def uri_states_58_def uri_states_59_def uri_states_60_def
  uri_states_61_def uri_states_62_def uri_states_63_def uri_states_64_def uri_states_65_def uri_states_66_def
  uri_states_67_def uri_states_68_def uri_states_69_def uri_states_70_def uri_states_71_def uri_states_72_def
  uri_states_73_def

lemma uri_blocks: "upwards 1 (map fst uri_table) = 451" "upwards 451 (map fst uri_table) = 561"
  by (simp_all add: uri_tables)

interpretation uri: scanner_table uri_table 561 "\<lambda>_. schar"
proof unfold_locales
  fix s :: nat assume "0 < s" "s < 561"
  then show "map_of uri_table s \<noteq> None"
    using upwards_block [of 1 s uri_table] upwards_block [of 451 s uri_table] uri_blocks by (cases "s < 451") auto
qed (simp add: compares_def)

section \<open>The parts of a URI\<close>

text \<open>Characters of a scheme, of a host or user, of a path and of a query or fragment, without the percent sign.\<close>

definition alphas :: chars where "alphas = [(65, 90), (97, 122)]"
definition schemec :: chars where "schemec = [(43, 43), (45, 46), (48, 57), (65, 90), (97, 122)]"
definition hostc :: chars where
  "hostc = [(33, 33), (36, 36), (38, 46), (48, 57), (59, 59), (61, 61), (65, 90), (95, 95), (97, 122), (126, 126)]"
definition upathc :: chars where
  "upathc = [(- 128, - 1), (33, 33), (36, 36), (38, 59), (61, 61), (64, 90), (95, 95), (97, 122), (126, 126)]"
definition uqueryc :: chars where
  "uqueryc = [(- 128, - 1), (33, 33), (36, 36), (38, 59), (61, 61), (63, 90), (95, 95), (97, 122), (126, 126)]"

text \<open>Within a user or host, within a host after a user, after the colon and within a port.\<close>

definition Hstates :: ranges where "Hstates = [(520, 520), (543, 560)]"
definition Gstates :: ranges where "Gstates = [(523, 541)]"
definition Ostates :: ranges where "Ostates = [(514, 514), (521, 521)]"
definition Pstates :: ranges where "Pstates = [(515, 515), (542, 542)]"

lemmas uri_sets = alphas_def schemec_def hostc_def upathc_def uqueryc_def Hstates_def Gstates_def Ostates_def Pstates_def
  tokens_def xdigits_def digits_def anys_def reg_chars_def upath_chars_def uquery_chars_def wides_def

text \<open>The states that these parts lead through.\<close>

definition uri_used :: ranges where "uri_used = [(1, 8), (243, 244), (451, 457), (508, 560)]"

definition uri_sub :: "uri_action states" where "uri_sub = part uri_table uri_used"

lemmas uri_part = uri_sub_def [simplified part_def uri_tables uri_used_def inside_def, simplified]

lemmas uri_on_part = leads_part [of uri_table uri_used, folded uri_sub_def] climbs_part [of uri_table uri_used, folded uri_sub_def]

lemmas uri_simps = leads_simps climbs_def uri_sets uri_part within_def uri_used_def

lemma scheme_leads:
  "leads uri_table 561 [(451, 451)] alphas (\<lambda>t acts. t = 508 \<and> acts = [Umarku])"
  "leads uri_table 561 [(508, 508)] schemec (\<lambda>t acts. t = 508 \<and> acts = [])"
  "leads uri_table 561 [(508, 508)] [(58, 58)] (\<lambda>t acts. t = 509 \<and> acts = [Usave_scheme])"
  "leads uri_table 561 [(509, 509)] [(47, 47)] (\<lambda>t acts. t = 510 \<and> acts = [])"
  "leads uri_table 561 [(510, 510)] [(47, 47)] (\<lambda>t acts. t = 511 \<and> acts = [])"
  by - (rule uri_on_part, simp add: uri_simps, simp add: uri_simps)+

lemma host_leads:
  "leads uri_table 561 [(511, 511)] hostc (\<lambda>t acts. inside t Hstates \<and> acts = [Umarkh])"
  "leads uri_table 561 Hstates hostc (\<lambda>t acts. inside t Hstates \<and> acts = [])"
  "leads uri_table 561 Hstates [(64, 64)] (\<lambda>t acts. t = 522 \<and> acts = [Usave_userinfo])"
  "leads uri_table 561 [(522, 522)] hostc (\<lambda>t acts. inside t Gstates \<and> acts = [Umarkh])"
  "leads uri_table 561 Gstates hostc (\<lambda>t acts. inside t Gstates \<and> acts = [])"
  "leads uri_table 561 (Hstates @ Gstates) [(58, 58)] (\<lambda>t acts. inside t Ostates \<and> acts = [Usave_host])"
  "leads uri_table 561 (Hstates @ Gstates) [(47, 47)] (\<lambda>t acts. t = 513 \<and> acts = [Usave_host, Umarkh])"
  by - (rule uri_on_part, simp add: uri_simps, simp add: uri_simps)+

lemma port_leads:
  "leads uri_table 561 Ostates digits (\<lambda>t acts. inside t Pstates \<and> acts = [Umarkh])"
  "leads uri_table 561 Pstates digits (\<lambda>t acts. inside t Pstates \<and> acts = [])"
  "leads uri_table 561 Pstates [(47, 47)] (\<lambda>t acts. t = 513 \<and> acts = [Usave_port, Umarkh])"
  "leads uri_table 561 Ostates [(47, 47)] (\<lambda>t acts. t = 513 \<and> acts = [Umarkh, Usave_port])"
  by - (rule uri_on_part, simp add: uri_simps, simp add: uri_simps)+

lemma upath_leads:
  "leads uri_table 561 [(513, 513)] upathc (\<lambda>t acts. t = 513 \<and> acts = [])"
  "leads uri_table 561 [(513, 513)] [(37, 37)] (\<lambda>t acts. t = 243 \<and> acts = [])"
  "leads uri_table 561 [(243, 243)] xdigits (\<lambda>t acts. t = 244 \<and> acts = [])"
  "leads uri_table 561 [(244, 244)] xdigits (\<lambda>t acts. t = 513 \<and> acts = [])"
  "leads uri_table 561 [(513, 513)] [(63, 63)] (\<lambda>t acts. t = 456 \<and> acts = [Usave_path])"
  "leads uri_table 561 [(513, 513)] [(35, 35)] (\<lambda>t acts. t = 453 \<and> acts = [Usave_path])"
  by - (rule uri_on_part, simp add: uri_simps, simp add: uri_simps)+

lemma uquery_leads:
  "leads uri_table 561 [(456, 456)] uqueryc (\<lambda>t acts. t = 457 \<and> acts = [Umarku])"
  "leads uri_table 561 [(456, 456)] [(37, 37)] (\<lambda>t acts. t = 7 \<and> acts = [Umarku])"
  "leads uri_table 561 [(457, 457)] uqueryc (\<lambda>t acts. t = 457 \<and> acts = [])"
  "leads uri_table 561 [(457, 457)] [(37, 37)] (\<lambda>t acts. t = 7 \<and> acts = [])"
  "leads uri_table 561 [(7, 7)] xdigits (\<lambda>t acts. t = 8 \<and> acts = [])"
  "leads uri_table 561 [(8, 8)] xdigits (\<lambda>t acts. t = 457 \<and> acts = [])"
  "leads uri_table 561 [(457, 457)] [(35, 35)] (\<lambda>t acts. t = 453 \<and> acts = [Usave_query])"
  by - (rule uri_on_part, simp add: uri_simps, simp add: uri_simps)+

lemma ufragment_leads:
  "leads uri_table 561 [(453, 453)] uqueryc (\<lambda>t acts. t = 454 \<and> acts = [Umarku])"
  "leads uri_table 561 [(453, 453)] [(37, 37)] (\<lambda>t acts. t = 1 \<and> acts = [Umarku])"
  "leads uri_table 561 [(454, 454)] uqueryc (\<lambda>t acts. t = 454 \<and> acts = [])"
  "leads uri_table 561 [(454, 454)] [(37, 37)] (\<lambda>t acts. t = 1 \<and> acts = [])"
  "leads uri_table 561 [(1, 1)] xdigits (\<lambda>t acts. t = 2 \<and> acts = [])"
  "leads uri_table 561 [(2, 2)] xdigits (\<lambda>t acts. t = 454 \<and> acts = [])"
  by - (rule uri_on_part, simp add: uri_simps, simp add: uri_simps)+

end
