(* ===== verification/UriScanner.thy ===== *)
theory UriScanner
  imports UriTable
begin

text \<open>
  What the scanner of URIs (\<open>UriTable\<close>) makes of the URIs that \<open>uri_dump\<close> writes, and of those with an empty port.
\<close>

section \<open>Runs\<close>

abbreviation uri_go :: "string \<Rightarrow> nat \<Rightarrow> nat \<Rightarrow> string \<Rightarrow> uri_state \<Rightarrow> nat \<times> nat \<times> uri_state" where
  "uri_go buf \<equiv> scan uri_table (\<lambda>_. schar) (uri_act buf) (\<lambda>_. False)"

lemma uri_act_ok [simp]: "uri_act buf a p (u, mark, None) = uri_do buf a p u mark" "uri_act buf a p (u, mark, Some e) = (u, mark, Some e)"
  by (simp_all add: uri_act_def)

lemma uri_one:
  assumes "leads uri_table 561 [(s, s)] cs (\<lambda>t acts. t = w \<and> acts = as)" "among (schar c) cs"
  shows "uri_go buf s p (c # rest) st = uri_go buf w (p + 1) rest (fold (\<lambda>a. uri_act buf a p) as st)"
  by (intro uri.scan_one [OF assms]) (simp add: list_ex_iff)

lemma uri_oneof:
  assumes "leads uri_table 561 S cs (\<lambda>t acts. t = w \<and> acts = as)" "inside s S" "among (schar c) cs"
  shows "uri_go buf s p (c # rest) st = uri_go buf w (p + 1) rest (fold (\<lambda>a. uri_act buf a p) as st)"
  using uri.scan_leads [OF assms, of "\<lambda>_. False" "uri_act buf" p] by (cases st) (auto simp: list_ex_iff)

lemma uri_onein:
  assumes "leads uri_table 561 S cs (\<lambda>t acts. inside t S' \<and> acts = as)" "inside s S" "among (schar c) cs"
  shows "\<exists>t. inside t S' \<and> (\<forall>rest st. uri_go buf s p (c # rest) st = uri_go buf t (p + 1) rest (fold (\<lambda>a. uri_act buf a p) as st))"
  using uri.scan_leads [OF assms, of "\<lambda>_. False" "uri_act buf" p] by (auto simp: list_ex_iff)

text \<open>A character with actions into a set of states, and a stretch within it.\<close>

lemma uri_word:
  assumes "leads uri_table 561 S0 cs (\<lambda>t acts. inside t S \<and> acts = as)" "leads uri_table 561 S cs (\<lambda>t acts. inside t S \<and> acts = [])"
    "inside s S0" "xs \<noteq> []" "list_all (\<lambda>c. among (schar c) cs) xs"
  shows "\<exists>t. inside t S \<and> (\<forall>rest st. uri_go buf s p (xs @ rest) st = uri_go buf t (p + length xs) rest (fold (\<lambda>a. uri_act buf a p) as st))"
proof -
  obtain c ys where xs: "xs = c # ys" using assms(4) by (cases xs) auto
  obtain t where t: "inside t S" "\<And>rest st. uri_go buf s p (c # rest) st = uri_go buf t (p + 1) rest (fold (\<lambda>a. uri_act buf a p) as st)"
    using uri_onein [OF assms(1,3), of c buf p] assms(5) xs by auto
  obtain v where "inside v S" "\<And>rest st. uri_go buf t (p + 1) (ys @ rest) st = uri_go buf v (p + 1 + length ys) rest st"
    using uri.scan_stretch [OF assms(2) t(1), of ys "uri_act buf" "\<lambda>_. False" "p + 1"] assms(5) xs by auto
  then show ?thesis using t(2) xs by auto
qed

definition scheme_ok :: "string \<Rightarrow> bool" where
  "scheme_ok s \<longleftrightarrow> (case s of [] \<Rightarrow> False | c # cs \<Rightarrow> among (schar c) alphas \<and> list_all (\<lambda>c. among (schar c) schemec) cs)"

lemma scheme_run:
  assumes "scheme_ok s"
  shows "uri_go buf 451 0 (s @ ''://'' @ rest) (u, None, None) = uri_go buf 511 (length s + 3) rest (u\<lparr>u_scheme := slice buf 0 (length s)\<rparr>, None, None)"
proof -
  obtain c cs where s: "s = c # cs" "among (schar c) alphas" "list_all (\<lambda>c. among (schar c) schemec) cs"
    using assms by (auto simp: scheme_ok_def split: list.splits)
  show ?thesis
    by (simp add: s(1) uri_one [OF scheme_leads(1) s(2)] uri.scan_loop [OF scheme_leads(2) s(3)] uri_one [OF scheme_leads(3)]
        uri_one [OF scheme_leads(4)] uri_one [OF scheme_leads(5)] save_def numeral_3_eq_3)
qed

definition hosty :: "string \<Rightarrow> bool" where
  "hosty s \<longleftrightarrow> list_all (\<lambda>c. among (schar c) hostc) s"

definition user_part :: "string \<Rightarrow> string" where
  "user_part s = (if s = [] then [] else s @ ''@'')"

lemma schar_at [simp]: "among (schar (CHR ''@'')) [(64, 64)]"
  by code_simp

lemma inside_append [simp]: "inside s (A @ B) \<longleftrightarrow> inside s A \<or> inside s B"
  by (auto simp: inside_def)

lemma host_run:
  assumes "hosty ui" "hosty h" "h \<noteq> []"
  shows "\<exists>t. inside t (Hstates @ Gstates) \<and> (\<forall>rest. uri_go buf 511 p (user_part ui @ h @ rest) (u, None, None) =
    uri_go buf t (p + length (user_part ui @ h)) rest
      (u\<lparr>u_userinfo := if ui = [] then u_userinfo u else slice buf p (length ui)\<rparr>, Some (p + length (user_part ui)), None))"
proof (cases "ui = []")
  case True
  have "inside 511 [(511, 511)]" by (simp add: inside_def)
  then show ?thesis
    using uri_word [OF host_leads(1,2) _ assms(3), of 511 buf p] assms(2) True by (auto simp: hosty_def user_part_def)
next
  case False
  have in1: "inside 511 [(511, 511)]" "inside 522 [(522, 522)]" by (simp_all add: inside_def)
  obtain t where t: "inside t Hstates" "\<And>rest st. uri_go buf 511 p (ui @ rest) st = uri_go buf t (p + length ui) rest (uri_act buf Umarkh p st)"
    using uri_word [OF host_leads(1,2) in1(1) False, of buf p] assms(1) by (auto simp: hosty_def)
  let ?q = "p + length ui + 1"
  obtain v where v: "inside v Gstates" "\<And>rest st. uri_go buf 522 ?q (h @ rest) st = uri_go buf v (?q + length h) rest (uri_act buf Umarkh ?q st)"
    using uri_word [OF host_leads(4,5) in1(2) assms(3), of buf ?q] assms(2) by (auto simp: hosty_def)
  have "uri_go buf 511 p (user_part ui @ h @ rest) (u, None, None) =
      uri_go buf v (?q + length h) rest (u\<lparr>u_userinfo := slice buf p (length ui)\<rparr>, Some ?q, None)" for rest
    using False t(2) v(2) by (simp add: user_part_def uri_oneof [OF host_leads(3) t(1)])
  then show ?thesis using v(1) False by (intro exI [of _ v]) (simp add: user_part_def add.assoc)
qed

text \<open>The end of the host: a port or none, and the slash of the path.\<close>

lemma port_run:
  assumes "inside s (Hstates @ Gstates)" "k \<le> p" "list_all (\<lambda>c. among (schar c) digits) d"
  shows "uri_go buf s p (opt_part (CHR '':'') d @ CHR ''/'' # rest) (u, Some k, None) = uri_go buf 513 (p + length (opt_part (CHR '':'') d) + 1) rest
    (u\<lparr>u_host := slice buf k (p - k), u_port := if d = [] then u_port u else atoi (drop (p + 1) buf)\<rparr>, Some (p + length (opt_part (CHR '':'') d)), None)"
proof (cases "d = []")
  case True
  then show ?thesis by (simp add: opt_part_def uri_oneof [OF host_leads(7) assms(1)])
next
  case False
  obtain t where t: "inside t Ostates" "\<And>rest st. uri_go buf s p (CHR '':'' # rest) st = uri_go buf t (p + 1) rest (uri_act buf Usave_host p st)"
    using uri_onein [OF host_leads(6) assms(1), of "CHR '':''" buf p] by auto
  obtain v where v: "inside v Pstates" "\<And>rest st. uri_go buf t (p + 1) (d @ rest) st = uri_go buf v (p + 1 + length d) rest (uri_act buf Umarkh (p + 1) st)"
    using uri_word [OF port_leads(1,2) t(1) False assms(3), of buf "p + 1"] by auto
  show ?thesis using False t(2) v(2) by (simp add: opt_part_def uri_oneof [OF port_leads(3) v(1)])
qed

lemma empty_port_run:
  assumes "inside s (Hstates @ Gstates)" "k \<le> p"
  shows "uri_go buf s p ('':/'' @ rest) (u, Some k, None) = uri_go buf 513 (p + 2) rest (u\<lparr>u_host := slice buf k (p - k)\<rparr>, None, None)"
proof -
  obtain t where t: "inside t Ostates" "\<And>rest st. uri_go buf s p (CHR '':'' # rest) st = uri_go buf t (p + 1) rest (uri_act buf Usave_host p st)"
    using uri_onein [OF host_leads(6) assms(1), of "CHR '':''" buf p] by auto
  show ?thesis using t(2) by (simp add: uri_oneof [OF port_leads(4) t(1)])
qed

text \<open>From the path to the end of the text, the actions there included.\<close>

definition uri_end :: "string \<Rightarrow> nat \<times> nat \<times> uri_state \<Rightarrow> nat \<times> uri_state" where
  "uri_end buf = (\<lambda>(cs, p, st). (cs, if p = length buf then fold (\<lambda>a. uri_act buf a p) (eof_acts cs) st else st))"

lemma eof_simps: "eof_acts 513 = [Usave_path]" "eof_acts 457 = [Usave_query]" "eof_acts 454 = [Usave_fragment]"
  by (simp_all add: eof_acts_def uri_eof_def inside_def)

lemma query_go:
  assumes "pct_text uqueryc q" "q \<noteq> []"
  shows "uri_go buf 456 p (q @ rest) st = uri_go buf 457 (p + length q) rest (uri_act buf Umarku p st)"
  by (simp add: uri.scan_pct_in [OF uquery_leads(3-6,1,2) assms pct_hd [OF assms]] list_ex_iff)

lemma fragment_go:
  assumes "pct_text uqueryc f" "f \<noteq> []"
  shows "uri_go buf 453 p (f @ rest) st = uri_go buf 454 (p + length f) rest (uri_act buf Umarku p st)"
  by (simp add: uri.scan_pct_in [OF ufragment_leads(3-6,1,2) assms pct_hd [OF assms]] list_ex_iff)

lemma tail_run:
  assumes "pct_text uqueryc q" "pct_text uqueryc f" "p + length (opt_part (CHR ''?'') q @ opt_part (CHR ''#'') f) = length buf" "k \<le> p"
    "u_query u = []" "u_fragment u = []"
  shows "\<exists>cs. 451 \<le> cs \<and> uri_end buf (uri_go buf 513 p (opt_part (CHR ''?'') q @ opt_part (CHR ''#'') f) (u, Some k, None)) =
    (cs, u\<lparr>u_path := slice buf k (p - k), u_query := slice buf (p + 1) (length q), u_fragment := slice buf (p + length (opt_part (CHR ''?'') q) + 1) (length f)\<rparr>, None, None)"
proof -
  have same: "u\<lparr>u_path := x, u_query := [], u_fragment := y\<rparr> = u\<lparr>u_path := x, u_fragment := y\<rparr>" "u\<lparr>u_path := x, u_fragment := []\<rparr> = u\<lparr>u_path := x\<rparr>"
    "u\<lparr>u_path := x, u_query := z, u_fragment := []\<rparr> = u\<lparr>u_path := x, u_query := z\<rparr>" for x y z
    using assms(5,6) by (cases u; simp)+
  show ?thesis
  proof (cases "q = []")
    case True
    show ?thesis
    proof (cases "f = []")
      case f: True
      show ?thesis using True f assms(3) by (intro exI [of _ 513]) (simp add: opt_part_def uri_end_def eof_simps save_def slice_def same)
    next
      case False
      show ?thesis using True False assms(3) fragment_go [OF assms(2) False, of buf "p + 1" "[]"]
        by (intro exI [of _ 454]) (simp add: opt_part_def uri_end_def uri_one [OF upath_leads(6)] save_def eof_simps slice_def same)
    qed
  next
    case q: False
    show ?thesis
    proof (cases "f = []")
      case True
      show ?thesis using q True assms(3) query_go [OF assms(1) q, of buf "p + 1" "[]"]
        by (intro exI [of _ 457]) (simp add: opt_part_def uri_end_def uri_one [OF upath_leads(5)] save_def eof_simps slice_def same)
    next
      case False
      show ?thesis using q False assms(3) fragment_go [OF assms(2) False, of buf _ "[]"]
        by (intro exI [of _ 454]) (simp add: opt_part_def uri_end_def uri_one [OF upath_leads(5)] uri_one [OF uquery_leads(7)]
            query_go [OF assms(1) q] save_def eof_simps slice_def)
    qed
  qed
qed

lemma tail_null:
  assumes "pct_text uqueryc q" "pct_text uqueryc f" "p + length (opt_part (CHR ''?'') q @ opt_part (CHR ''#'') f) = length buf"
  shows "snd (snd (snd (uri_end buf (uri_go buf 513 p (opt_part (CHR ''?'') q @ opt_part (CHR ''#'') f) (u, None, None))))) = Some LogicError"
proof (cases "q = []")
  case q: True
  show ?thesis
  proof (cases "f = []")
    case True
    then show ?thesis using q assms(3) by (simp add: opt_part_def uri_end_def eof_simps save_def)
  next
    case False
    then show ?thesis using q fragment_go [OF assms(2) False, of buf "p + 1" "[]"]
      by (simp add: opt_part_def uri_end_def uri_one [OF upath_leads(6)] save_def eof_simps)
  qed
next
  case q: False
  show ?thesis
  proof (cases "f = []")
    case True
    then show ?thesis using q query_go [OF assms(1) q, of buf "p + 1" "[]"]
      by (simp add: opt_part_def uri_end_def uri_one [OF upath_leads(5)] save_def eof_simps)
  next
    case False
    then show ?thesis using q fragment_go [OF assms(2) False, of buf _ "[]"]
      by (simp add: opt_part_def uri_end_def uri_one [OF upath_leads(5)] uri_one [OF uquery_leads(7)] query_go [OF assms(1) q] save_def eof_simps)
  qed
qed

section \<open>Whole URIs\<close>

text \<open>The parts that are read as they are written: a host of one or more characters, a path that is empty or begins with a slash.\<close>

definition uri_ok :: "uri \<Rightarrow> bool" where
  "uri_ok u \<longleftrightarrow> scheme_ok (u_scheme u) \<and> hosty (u_userinfo u) \<and> hosty (u_host u) \<and> u_host u \<noteq> [] \<and> 0 \<le> u_port u \<and> u_port u < 2 ^ 31 \<and>
     (case u_path u of [] \<Rightarrow> True | c # xs \<Rightarrow> c = CHR ''/'' \<and> pct_text upathc xs) \<and> pct_text uqueryc (u_query u) \<and> pct_text uqueryc (u_fragment u)"

definition port_text :: "uri \<Rightarrow> string" where
  "port_text u = (if isDefaultPort u then [] else dec (nat (u_port u)))"

lemma uri_ok_path:
  assumes "uri_ok u"
  obtains xs where "uri_getPath u = CHR ''/'' # xs" "pct_text upathc xs"
  using assms by (auto simp: uri_ok_def uri_getPath_def split: list.splits)

lemma uri_dump_parts:
  assumes "uri_ok u"
  shows "uri_dump u = u_scheme u @ ''://'' @ user_part (u_userinfo u) @ u_host u @ opt_part (CHR '':'') (port_text u) @ uri_getPath u @
    opt_part (CHR ''?'') (u_query u) @ opt_part (CHR ''#'') (u_fragment u)"
  using assms dec_chars(3) [of "nat (u_port u)"]
  by (auto simp: uri_dump_def user_part_def opt_part_def port_text_def uri_ok_def dec_int_def)

lemma slice_mid: "slice (a @ b @ c) (length a) (length b) = b"
  by (simp add: slice_def)

lemma uri_run_end: "uri_run buf u = uri_end buf (uri_go buf 451 0 buf (u, None, None))"
  by (simp add: uri_run_def uri_end_def uri_parser_start_def split: prod.splits)

text \<open>From the scheme to the slash of the path.\<close>

lemma front_run:
  assumes "scheme_ok prot" "hosty ui" "hosty h" "h \<noteq> []" "buf = prot @ ''://'' @ user_part ui @ h @ rest"
  shows "\<exists>t. inside t (Hstates @ Gstates) \<and> uri_go buf 451 0 buf (newUri, None, None) =
    uri_go buf t (length (prot @ ''://'' @ user_part ui @ h)) rest
      (newUri\<lparr>u_scheme := prot, u_userinfo := ui\<rparr>, Some (length (prot @ ''://'' @ user_part ui)), None)"
proof -
  let ?u = "newUri\<lparr>u_scheme := prot\<rparr>" and ?p = "length prot + 3"
  obtain t where t: "inside t (Hstates @ Gstates)" "uri_go buf 511 ?p (user_part ui @ h @ rest) (?u, None, None) =
      uri_go buf t (?p + length (user_part ui @ h)) rest
        (?u\<lparr>u_userinfo := if ui = [] then u_userinfo ?u else slice buf ?p (length ui)\<rparr>, Some (?p + length (user_part ui)), None)"
    using host_run [OF assms(2-4), of buf ?p ?u] by blast
  have "slice buf 0 (length prot) = prot" using assms(5) by (simp add: slice_def)
  then have "uri_go buf 451 0 buf (newUri, None, None) = uri_go buf 511 ?p (user_part ui @ h @ rest) (?u, None, None)"
    using scheme_run [OF assms(1), of buf "user_part ui @ h @ rest" newUri] assms(5) by simp
  moreover have "slice buf ?p (length ui) = ui" if "ui \<noteq> []"
    using slice_mid [of "prot @ ''://''" ui "''@'' @ h @ rest"] assms(5) that by (simp add: user_part_def numeral_3_eq_3)
  moreover have "u_userinfo ?u = []" by (simp add: newUri_def)
  ultimately show ?thesis using t by (intro exI [of _ t]) (simp add: numeral_3_eq_3 add.assoc)
qed

lemma path_go:
  assumes "pct_text upathc xs"
  shows "uri_go buf 513 p (xs @ rest) st = uri_go buf 513 (p + length xs) rest st"
  by (rule uri.scan_pct [OF upath_leads(1-4) assms])

lemma uri_run_dump:
  assumes "uri_ok u"
  shows "\<exists>cs. 451 \<le> cs \<and> uri_run (uri_dump u) newUri =
    (cs, u\<lparr>u_path := uri_getPath u, u_port := if isDefaultPort u then 0 else u_port u\<rparr>, None, None)"
proof -
  let ?buf = "uri_dump u" and ?d = "port_text u" and ?q = "opt_part (CHR ''?'') (u_query u)" and ?f = "opt_part (CHR ''#'') (u_fragment u)"
  have ok: "scheme_ok (u_scheme u)" "hosty (u_userinfo u)" "hosty (u_host u)" "u_host u \<noteq> []" "0 \<le> u_port u" "u_port u < 2 ^ 31"
    "pct_text uqueryc (u_query u)" "pct_text uqueryc (u_fragment u)" using assms by (simp_all add: uri_ok_def)
  obtain xs where xs: "uri_getPath u = CHR ''/'' # xs" "pct_text upathc xs" using uri_ok_path [OF assms] .
  define A where "A = u_scheme u @ ''://'' @ user_part (u_userinfo u)"
  define B where "B = A @ u_host u"
  define C where "C = B @ opt_part (CHR '':'') ?d"
  define D where "D = C @ CHR ''/'' # xs"
  have buf: "?buf = D @ ?q @ ?f" by (simp add: uri_dump_parts [OF assms] xs(1) A_def B_def C_def D_def)
  have d: "list_all (\<lambda>c. among (schar c) digits) ?d" using dec_chars(1) by (simp add: port_text_def)
  let ?u1 = "newUri\<lparr>u_scheme := u_scheme u, u_userinfo := u_userinfo u\<rparr>"
  obtain t where t: "inside t (Hstates @ Gstates)" "uri_go ?buf 451 0 ?buf (newUri, None, None) =
      uri_go ?buf t (length B) (opt_part (CHR '':'') ?d @ CHR ''/'' # xs @ ?q @ ?f) (?u1, Some (length A), None)"
    using front_run [OF ok(1-4), of ?buf "opt_part (CHR '':'') ?d @ CHR ''/'' # xs @ ?q @ ?f"] uri_dump_parts [OF assms] xs(1)
    by (auto simp: A_def B_def)
  let ?port = "if ?d = [] then u_port ?u1 else atoi (drop (length B + 1) ?buf)"
  let ?u2 = "?u1\<lparr>u_host := slice ?buf (length A) (length B - length A), u_port := ?port\<rparr>"
  have "uri_go ?buf 451 0 ?buf (newUri, None, None) = uri_go ?buf 513 (length D) (?q @ ?f) (?u2, Some (length C), None)"
    using t(2) port_run [OF t(1), of "length A" "length B" ?d ?buf "xs @ ?q @ ?f" ?u1] d path_go [OF xs(2)]
    by (simp add: B_def C_def D_def add.assoc)
  moreover have host: "slice ?buf (length A) (length B - length A) = u_host u"
    using slice_mid [of A "u_host u"] buf by (simp add: B_def C_def D_def)
  moreover have "?port = (if isDefaultPort u then 0 else u_port u)"
  proof (cases "isDefaultPort u")
    case False
    have "drop (length B + 1) ?buf = dec (nat (u_port u)) @ CHR ''/'' # xs @ ?q @ ?f"
      using buf False dec_chars(3) by (simp add: C_def D_def opt_part_def port_text_def)
    then show ?thesis using atoi_dec [of "nat (u_port u)" "CHR ''/''"] ok(5,6) False dec_chars(3)
      by (simp add: port_text_def is_digit_def byte_of_def)
  qed (simp add: port_text_def newUri_def)
  moreover obtain cs where "451 \<le> cs" "uri_end ?buf (uri_go ?buf 513 (length D) (?q @ ?f) (?u2, Some (length C), None)) =
      (cs, ?u2\<lparr>u_path := slice ?buf (length C) (length D - length C), u_query := slice ?buf (length D + 1) (length (u_query u)),
        u_fragment := slice ?buf (length D + length ?q + 1) (length (u_fragment u))\<rparr>, None, None)"
    using tail_run [OF ok(7,8), of "length D" ?buf "length C" ?u2] buf by (auto simp: D_def newUri_def)
  moreover have "slice ?buf (length C) (length D - length C) = uri_getPath u"
    using slice_mid [of C "CHR ''/'' # xs" "?q @ ?f"] buf xs(1) by (simp add: D_def)
  moreover have "slice ?buf (length D + 1) (length (u_query u)) = u_query u"
    using slice_mid [of "D @ ''?''" "u_query u" ?f] buf by (cases "u_query u = []") (simp_all add: opt_part_def slice_def)
  moreover have "slice ?buf (length D + length ?q + 1) (length (u_fragment u)) = u_fragment u"
    using slice_mid [of "D @ ?q @ ''#''" "u_fragment u" "[]"] buf
    by (cases "u_fragment u = []") (simp_all add: opt_part_def [of "CHR ''#''"] slice_def)
  ultimately show ?thesis by (cases u) (auto simp: uri_run_end newUri_def)
qed

text \<open>
  C11: a URI that was printed is read back.  The scanner raises no error and accepts the text; the object it fills has the
  scheme, user, host, query and fragment of the one printed, its path with the default for an empty one, and its port
  unless it is the default of the scheme, which was not printed.
\<close>

theorem uri_roundtrip:
  assumes "uri_ok u"
  shows "Uri_create (uri_dump u) =
    Inr (Some (u\<lparr>u_path := uri_getPath u, u_port := if isDefaultPort u then 0 else u_port u\<rparr>))"
proof -
  obtain cs where "451 \<le> cs" "uri_run (uri_dump u) newUri =
      (cs, u\<lparr>u_path := uri_getPath u, u_port := if isDefaultPort u then 0 else u_port u\<rparr>, None, None)"
    using uri_run_dump [OF assms] by blast
  then show ?thesis
    by (simp add: Uri_create_def Uri_Create_def uri_scan_def uri_parser_error_def uri_parser_first_final_def)
qed

definition demoUri :: uri where
  "demoUri = newUri\<lparr>u_scheme := ''http'', u_userinfo := ''me'', u_host := ''127.0.0.1'', u_port := 81, u_query := ''q=%41''\<rparr>"

theorem uri_roundtrip_witness:
  "Uri_create ''http://me@127.0.0.1:81/?q=%41'' = Inr (Some (demoUri\<lparr>u_path := ''/''\<rparr>))"
proof -
  have ok: "uri_ok demoUri" by code_simp
  have "uri_dump demoUri = ''http://me@127.0.0.1:81/?q=%41''" by code_simp
  moreover have "demoUri\<lparr>u_path := uri_getPath demoUri, u_port := if isDefaultPort demoUri then 0 else u_port demoUri\<rparr> = demoUri\<lparr>u_path := ''/''\<rparr>"
    by (simp add: demoUri_def newUri_def uri_getPath_def isDefaultPort_def)
  ultimately show ?thesis using uri_roundtrip [OF ok] by simp
qed

text \<open>
  C12: an empty port.  The action at the end of the port leaves \<^verbatim>\<open>mark\<close> null, and the path is then made of a null
  pointer: every URI with a host, a colon and no digits before its path throws \<^verbatim>\<open>std::logic_error\<close>.
\<close>

theorem empty_port_throws:
  assumes "scheme_ok prot" "hosty ui" "hosty h" "h \<noteq> []" "pct_text upathc xs" "pct_text uqueryc q" "pct_text uqueryc f"
  shows "Uri_create (prot @ ''://'' @ user_part ui @ h @ '':/'' @ xs @ opt_part (CHR ''?'') q @ opt_part (CHR ''#'') f) = Inl LogicError"
proof -
  let ?t = "opt_part (CHR ''?'') q @ opt_part (CHR ''#'') f"
  define buf where "buf = prot @ ''://'' @ user_part ui @ h @ '':/'' @ xs @ ?t"
  define A where "A = length (prot @ ''://'' @ user_part ui)"
  have B: "length (prot @ ''://'' @ user_part ui @ h) = A + length h" by (simp add: A_def)
  let ?u = "newUri\<lparr>u_scheme := prot, u_userinfo := ui\<rparr>"
  obtain t where t: "inside t (Hstates @ Gstates)" "uri_go buf 451 0 buf (newUri, None, None) = uri_go buf t (A + length h) ('':/'' @ xs @ ?t) (?u, Some A, None)"
    using front_run [OF assms(1-4) buf_def] unfolding B A_def [symmetric] by blast
  then have "uri_go buf 451 0 buf (newUri, None, None) =
      uri_go buf 513 (A + length h + 2 + length xs) ?t (?u\<lparr>u_host := slice buf A (A + length h - A)\<rparr>, None, None)"
    using empty_port_run [OF t(1), of A "A + length h" buf "xs @ ?t" ?u] path_go [OF assms(5), of buf "A + length h + 2" ?t] by simp
  moreover have "A + length h + 2 + length xs + length ?t = length buf" by (simp add: buf_def A_def)
  ultimately have "snd (snd (snd (uri_run buf newUri))) = Some LogicError"
    using tail_null [OF assms(6,7)] by (simp add: uri_run_end)
  then show ?thesis by (simp add: Uri_create_def buf_def)
qed

theorem empty_port_throws_witness: "Uri_create ''http://h:/a'' = Inl LogicError"
proof -
  have "scheme_ok ''http''" "hosty []" "hosty ''h''" "pct_text upathc ''a''" "pct_text uqueryc []" by code_simp+
  then show ?thesis using empty_port_throws [of "''http''" "[]" "''h''" "''a''" "[]" "[]"] by (simp add: user_part_def opt_part_def)
qed

end
