(* ===== verification/ScannerStates.thy ===== *)
theory ScannerStates
  imports ReqScanner UriScanner
begin

text \<open>
  The states of the three generated scanners: every jump leads to a state that has a block, so that the switch never
  falls through to \<^verbatim>\<open>_test_eof2\<close>, and the actions that break off lead to final states.
\<close>

section \<open>Tables whose jumps stay inside\<close>

definition jumps_ok :: "nat \<Rightarrow> nat \<Rightarrow> ('a \<Rightarrow> bool) \<Rightarrow> 'a states \<Rightarrow> bool" where
  "jumps_ok n final stop T \<longleftrightarrow>
     list_all (\<lambda>(s, wide, arcs). list_all (\<lambda>(cs, t, acts). 0 < t \<and> t < n \<and> (list_ex stop acts \<longrightarrow> final \<le> t)) arcs) T"

lemma jumps_step:
  assumes "jumps_ok n final stop T" "steps T vl s c = Some (t, acts)"
  shows "0 < t \<and> t < n \<and> (list_ex stop acts \<longrightarrow> final \<le> t)"
proof -
  obtain wide arcs where "map_of T s = Some (wide, arcs)" "arc_for (vl wide c) arcs = Some (t, acts)"
    using assms(2) by (auto simp: steps_def split: option.splits)
  then show ?thesis using assms(1) arc_for_set [of "vl wide c" arcs t acts] map_of_SomeD [of T s]
    by (fastforce simp: jumps_ok_def list_all_iff)
qed

context scanner_table
begin

text \<open>A run ends in the error state before a character, at the end of the text in a state, or in a final state.\<close>

lemma scan_states:
  assumes "jumps_ok n final stop T"
  shows "0 < s \<Longrightarrow> s < n \<Longrightarrow> scan T vl act stop s p cs st = (s', p', st') \<Longrightarrow>
    s' = 0 \<and> p' < p + length cs \<or> 0 < s' \<and> s' < n \<and> (p' = p + length cs \<or> final \<le> s')"
proof (induction cs arbitrary: s p st)
  case (Cons c cs)
  show ?case
  proof (cases "steps T vl s c")
    case None
    then show ?thesis using Cons.prems blocks [of s] by (auto simp: scan.simps(2) steps_def split: option.splits)
  next
    case (Some ta)
    obtain t acts where ta: "steps T vl s c = Some (t, acts)" using Some by (cases ta) auto
    note t = jumps_step [OF assms ta]
    show ?thesis
    proof (cases "list_ex stop acts")
      case True
      then show ?thesis using Cons.prems(3) scan_stop [OF ta True, of act p cs st] t by auto
    next
      case False
      have "scan T vl act stop t (p + 1) cs (fold (\<lambda>a. act a p) acts st) = (s', p', st')"
        using Cons.prems(3) scan_step [OF ta False, of act p cs st] by simp
      then show ?thesis using Cons.IH [of t "p + 1"] t by auto
    qed
  qed
qed simp

end

section \<open>The three scanners\<close>

lemma rsp_jumps: "jumps_ok 124 120 (\<lambda>a. a = Rdone) rsp_table"
  by (simp add: rsp_tables jumps_ok_def)

lemma req_jumps: "jumps_ok 350 348 (\<lambda>a. a = Qdone) req_table"
  by (simp add: req_tables jumps_ok_def)

lemma uri_jumps: "jumps_ok 561 561 (\<lambda>_. False) uri_table"
  by (simp add: uri_tables jumps_ok_def)

text \<open>
  C23: the states of the scanners are well-typed.  From any state but the error state, a scanner reads to the end of the
  text and is in one of its states, or stops earlier in a final state, at the end of a head, or in the error state at
  a character it does not allow; the scanner of URIs never stops early but in the error state.
\<close>

theorem scanner_states:
  assumes "0 < hc_cs c" "hc_cs c < 124" "rsp_scan c buf = (cs, p, c', evs)"
    "0 < hp_cs q" "hp_cs q < 350" "req_scan relaxed q buf = (qs, pq, q', evs')"
    "scan uri_table (\<lambda>_. schar) (uri_act buf) (\<lambda>_. False) uri_parser_start 0 buf (u, None, None) = (us, pu, st)"
  shows "(cs = httpclient_parser_error \<and> p < length buf \<or> 0 < cs \<and> cs < 124 \<and> (p = length buf \<or> httpclient_parser_first_final \<le> cs)) \<and>
    (qs = http_parser_error \<and> pq < length buf \<or> 0 < qs \<and> qs < 350 \<and> (pq = length buf \<or> http_parser_first_final \<le> qs)) \<and>
    (us = uri_parser_error \<and> pu < length buf \<or> 0 < us \<and> us < 561 \<and> pu = length buf)"
proof -
  have "cs = 0 \<and> p < length buf \<or> 0 < cs \<and> cs < 124 \<and> (p = length buf \<or> 120 \<le> cs)"
    using assms(3) rsp.scan_states [OF rsp_jumps assms(1,2), of "rsp_act buf" 0 buf "(c, [])"]
    by (auto simp: rsp_scan_def split: prod.splits)
  moreover have "qs = 0 \<and> pq < length buf \<or> 0 < qs \<and> qs < 350 \<and> (pq = length buf \<or> 348 \<le> qs)"
    using assms(6) req.scan_states [OF req_jumps assms(4,5), of relaxed "req_act buf" 0 buf "(q, [])"]
    by (auto simp: req_scan_def split: prod.splits)
  moreover have "us = 0 \<and> pu < length buf \<or> 0 < us \<and> us < 561 \<and> pu = length buf"
    using uri.scan_states [OF uri_jumps _ _ assms(7)] by (auto simp: uri_parser_start_def)
  ultimately show ?thesis
    by (simp add: httpclient_parser_error_def httpclient_parser_first_final_def http_parser_error_def http_parser_first_final_def uri_parser_error_def)
qed


theorem scanner_states_witness:
  "\<exists>c q. case (rsp_scan c ''H'', req_scan True q ''H'') of ((cs, p, _), (qs, pq, _)) \<Rightarrow>
     cs < 124 \<and> (cs = 0 \<longrightarrow> p = 0) \<and> qs < 350 \<and> (qs = 0 \<longrightarrow> pq = 0)"
proof -
  obtain c :: httpclient_parser where c: "hc_cs c = 1" by (meson httpclient_parser.select_convs(1))
  obtain q :: http_parser where q: "hp_cs q = 1" by (meson http_parser.select_convs(1))
  obtain cs p c' evs where r: "rsp_scan c ''H'' = (cs, p, c', evs)" by (metis prod.collapse)
  obtain qs pq q' evs' where t: "req_scan True q ''H'' = (qs, pq, q', evs')" by (metis prod.collapse)
  obtain us pu st where u: "scan uri_table (\<lambda>_. schar) (uri_act ''H'') (\<lambda>_. False) uri_parser_start 0 ''H'' (newUri, None, None) = (us, pu, st)"
    by (metis prod.collapse)
  show ?thesis
    using scanner_states [OF _ _ r _ _ t u] c q r t
    by (intro exI [of _ c] exI [of _ q]) (auto simp: httpclient_parser_error_def http_parser_error_def)
qed

end
