(* ===== verification/Config.thy ===== *)
theory Config
  imports CStrings StdContainers
begin

text \<open>
  Configuration variables and their registry (\<^verbatim>\<open>saturn/config.h\<close>, \<^verbatim>\<open>saturn/config.cc\<close>).

  A variable has a type tag \<open>'t\<close>, which a dynamic cast compares, and a value in \<open>'v\<close>, which holds the values of all
  types in use.  Its listeners are functions of the old and the new value, both by reference, and of the state \<open>'w\<close> of
  the program they change; a listener that throws says so in its result.  Listeners do not change the registry.
  The casts between text and values and the text the YAML library prints for a node are arguments.
\<close>

section \<open>Variables\<close>

text \<open>The errors that \<^verbatim>\<open>catch (std::exception&)\<close> catches; the others stop the program.\<close>

definition caught :: "cpp_error \<Rightarrow> bool" where
  "caught e \<longleftrightarrow> e = OutOfRange \<or> e = LogicError \<or> e = BadAlloc"

type_synonym ('v, 'w) change_cb = "'v \<Rightarrow> 'v \<Rightarrow> 'w \<Rightarrow> 'v \<times> 'v \<times> 'w \<times> cpp_error option"

record ('t, 'v, 'w) config_var =
  cv_name :: string
  cv_description :: string
  cv_type :: 't
  cv_value :: 'v
  cb_maps :: "(u64 \<times> ('v, 'w) change_cb) list"

definition ConfigVar :: "'t \<Rightarrow> string \<Rightarrow> 'v \<Rightarrow> string \<Rightarrow> ('t, 'v, 'w) config_var" where
  "ConfigVar t name default_value description =
     \<lparr>cv_name = name, cv_description = description, cv_type = t, cv_value = default_value, cb_maps = []\<rparr>"

text \<open>The loop over the listeners, which a throw ends.\<close>

fun run_cbs :: "('v, 'w) change_cb list \<Rightarrow> ('v, 'w) change_cb" where
  "run_cbs [] m v w = (m, v, w, None)"
| "run_cbs (cb # cbs) m v w =
     (case cb m v w of
        (m1, v1, w1, None) \<Rightarrow> run_cbs cbs m1 v1 w1
      | (m1, v1, w1, Some e) \<Rightarrow> (m1, v1, w1, Some e))"

definition setValue :: "'v \<Rightarrow> ('t, 'v, 'w) config_var \<Rightarrow> 'w \<Rightarrow> ('t, 'v, 'w) config_var \<times> 'w \<times> cpp_error option" where
  "setValue v var w =
     (case run_cbs (map snd (cb_maps var)) (cv_value var) v w of
        (m, v', w', None) \<Rightarrow> (var\<lparr>cv_value := v'\<rparr>, w', None)
      | (m, v', w', Some e) \<Rightarrow> (var\<lparr>cv_value := m\<rparr>, w', Some e))"

definition cv_toString :: "('v \<Rightarrow> string res) \<Rightarrow> ('t, 'v, 'w) config_var \<Rightarrow> string res" where
  "cv_toString to_str var =
     (case to_str (cv_value var) of
        Inr s \<Rightarrow> Inr s
      | Inl e \<Rightarrow> if caught e then Inr [] else Inl e)"

definition fromString :: "(string \<Rightarrow> 'v res) \<Rightarrow> string \<Rightarrow> ('t, 'v, 'w) config_var \<Rightarrow> 'w \<Rightarrow>
    (bool \<times> ('t, 'v, 'w) config_var \<times> 'w) res" where
  "fromString from_str str var w =
     (case from_str str of
        Inl e \<Rightarrow> if caught e then Inr (False, var, w) else Inl e
      | Inr v \<Rightarrow>
          (case setValue v var w of
             (var', w', None) \<Rightarrow> Inr (True, var', w')
           | (var', w', Some e) \<Rightarrow> if caught e then Inr (False, var', w') else Inl e))"

text \<open>\<open>s_fun_id\<close> is the static counter of the variables of one type.\<close>

definition addListener :: "('v, 'w) change_cb \<Rightarrow> u64 \<Rightarrow> ('t, 'v, 'w) config_var \<Rightarrow> u64 \<times> u64 \<times> ('t, 'v, 'w) config_var" where
  "addListener cb s_fun_id var = (s_fun_id, s_fun_id + 1, var\<lparr>cb_maps := map_insert (<) s_fun_id cb (cb_maps var)\<rparr>)"

definition delListener :: "u64 \<Rightarrow> ('t, 'v, 'w) config_var \<Rightarrow> ('t, 'v, 'w) config_var" where
  "delListener hash_v var = var\<lparr>cb_maps := map_erase (<) hash_v (cb_maps var)\<rparr>"

definition clearListener :: "('t, 'v, 'w) config_var \<Rightarrow> ('t, 'v, 'w) config_var" where
  "clearListener var = var\<lparr>cb_maps := []\<rparr>"

section \<open>The registry\<close>

text \<open>Variables are shared objects: the registry maps names to their places in a store.\<close>

record ('t, 'v, 'w) config =
  cf_vars :: "string \<rightharpoonup> nat"
  cf_store :: "('t, 'v, 'w) config_var list"

definition newConfig :: "('t, 'v, 'w) config" where
  "newConfig = \<lparr>cf_vars = Map.empty, cf_store = []\<rparr>"

definition lookUp :: "string \<Rightarrow> ('t, 'v, 'w) config \<Rightarrow> nat option" where
  "lookUp name cf = cf_vars cf (c_str name)"

definition lookUpAs :: "'t \<Rightarrow> string \<Rightarrow> ('t, 'v, 'w) config \<Rightarrow> nat option" where
  "lookUpAs t name cf =
     (case lookUp name cf of
        None \<Rightarrow> None
      | Some a \<Rightarrow> if cv_type (cf_store cf ! a) = t then Some a else None)"

definition add :: "'t \<Rightarrow> string \<Rightarrow> 'v \<Rightarrow> string \<Rightarrow> ('t, 'v, 'w) config \<Rightarrow> nat \<times> ('t, 'v, 'w) config" where
  "add t name default_value description cf =
     (case lookUpAs t name cf of
        Some a \<Rightarrow> (a, cf)
      | None \<Rightarrow>
          let a = length (cf_store cf)
          in (a, cf\<lparr>cf_store := cf_store cf @ [ConfigVar t name default_value description],
                   cf_vars := (if cf_vars cf name = None then (cf_vars cf)(name \<mapsto> a) else cf_vars cf)\<rparr>))"

section \<open>Loading a document\<close>

datatype yaml = YNull | YScalar string | YSequence "yaml list" | YMap "(yaml \<times> yaml) list"

text \<open>\<^verbatim>\<open>Node::Scalar\<close> is empty for a node that is not a scalar.\<close>

fun Scalar :: "yaml \<Rightarrow> string" where
  "Scalar (YScalar s) = s"
| "Scalar _ = []"

fun IsScalar :: "yaml \<Rightarrow> bool" where
  "IsScalar (YScalar s) = True"
| "IsScalar _ = False"

fun iterateNodes :: "string \<Rightarrow> yaml \<Rightarrow> (string \<times> yaml) list"
  and iterateMap :: "string \<Rightarrow> (yaml \<times> yaml) list \<Rightarrow> (string \<times> yaml) list" where
  "iterateNodes prefix root =
     (c_str prefix, root) # (case root of YMap kvs \<Rightarrow> iterateMap prefix kvs | _ \<Rightarrow> [])"
| "iterateMap prefix [] = []"
| "iterateMap prefix ((k, v) # kvs) =
     iterateNodes (if prefix = [] then Scalar k else prefix @ ''.'' @ Scalar k) v @ iterateMap prefix kvs"

definition node_text :: "(yaml \<Rightarrow> string) \<Rightarrow> yaml \<Rightarrow> string" where
  "node_text emit n = (if IsScalar n then Scalar n else emit n)"

fun load_nodes :: "('t \<Rightarrow> string \<Rightarrow> 'v res) \<Rightarrow> (yaml \<Rightarrow> string) \<Rightarrow> (string \<times> yaml) list \<Rightarrow> ('t, 'v, 'w) config \<Rightarrow> 'w \<Rightarrow>
    (('t, 'v, 'w) config \<times> 'w) res" where
  "load_nodes from_str emit [] cf w = Inr (cf, w)"
| "load_nodes from_str emit ((path, n) # ns) cf w =
     (if path = [] then load_nodes from_str emit ns cf w
      else case lookUp path cf of
        None \<Rightarrow> load_nodes from_str emit ns cf w
      | Some a \<Rightarrow>
          let var = cf_store cf ! a
          in bindE (fromString (from_str (cv_type var)) (node_text emit n) var w) (\<lambda>(_, var', w').
               load_nodes from_str emit ns (cf\<lparr>cf_store := (cf_store cf)[a := var']\<rparr>) w'))"

definition loadFromYaml :: "('t \<Rightarrow> string \<Rightarrow> 'v res) \<Rightarrow> (yaml \<Rightarrow> string) \<Rightarrow> yaml \<Rightarrow> ('t, 'v, 'w) config \<Rightarrow> 'w \<Rightarrow>
    (('t, 'v, 'w) config \<times> 'w) res" where
  "loadFromYaml from_str emit root cf w = load_nodes from_str emit (iterateNodes [] root) cf w"

section \<open>What loading does\<close>

text \<open>
  Listeners that neither throw nor change the two values, and a registry whose names lead to different
  variables.
\<close>

definition calm :: "('v, 'w) change_cb \<Rightarrow> bool" where
  "calm cb \<longleftrightarrow> (\<forall>m v w. \<exists>w'. cb m v w = (m, v, w', None))"

definition config_ok :: "('t, 'v, 'w) config \<Rightarrow> bool" where
  "config_ok cf \<longleftrightarrow> (\<forall>name a. cf_vars cf name = Some a \<longrightarrow> a < length (cf_store cf)) \<and> inj_on (cf_vars cf) (dom (cf_vars cf))"

definition quiet :: "('t, 'v, 'w) config \<Rightarrow> bool" where
  "quiet cf \<longleftrightarrow> list_all (\<lambda>var. list_all (\<lambda>(i, cb). calm cb) (cb_maps var)) (cf_store cf)"

lemma newConfig_ok: "config_ok newConfig"
  by (simp add: config_ok_def newConfig_def)

lemma add_ok:
  assumes "config_ok cf"
  shows "config_ok (snd (add t name v d cf))"
proof -
  have "inj_on ((cf_vars cf)(name \<mapsto> length (cf_store cf))) (insert name (dom (cf_vars cf)))" if "cf_vars cf name = None"
    using assms that by (auto simp: config_ok_def inj_on_def) (metis order_less_irrefl)+
  then show ?thesis using assms by (fastforce simp: add_def Let_def config_ok_def split: option.splits)
qed

lemma run_cbs_calm: "list_all calm cbs \<Longrightarrow> \<exists>w'. run_cbs cbs m v w = (m, v, w', None)"
proof (induction cbs arbitrary: w)
  case (Cons cb cbs)
  then obtain w1 where "cb m v w = (m, v, w1, None)" by (auto simp: calm_def) blast
  then show ?case using Cons by simp
qed simp

text \<open>The value a text leaves: a text that cannot be cast leaves the old one.\<close>

definition text_value :: "(string \<Rightarrow> 'v res) \<Rightarrow> string \<Rightarrow> 'v \<Rightarrow> 'v" where
  "text_value from_str str old = (case from_str str of Inr v \<Rightarrow> v | Inl _ \<Rightarrow> old)"

lemma fromString_calm:
  assumes "list_all (\<lambda>(i, cb). calm cb) (cb_maps var)" "\<forall>e. from_str str = Inl e \<longrightarrow> caught e"
  shows "\<exists>w'. fromString from_str str var w = Inr (\<not> isl (from_str str), var\<lparr>cv_value := text_value from_str str (cv_value var)\<rparr>, w')"
proof (cases "from_str str")
  case (Inr v)
  have "list_all calm (map snd (cb_maps var))" using assms(1) by (auto simp: list_all_iff)
  then obtain w' where "run_cbs (map snd (cb_maps var)) (cv_value var) v w = (cv_value var, v, w', None)"
    using run_cbs_calm [of "map snd (cb_maps var)" "cv_value var" v w] by auto
  then show ?thesis using Inr by (simp add: fromString_def setValue_def text_value_def)
qed (use assms(2) in \<open>simp add: fromString_def text_value_def\<close>)

definition texts_at :: "(yaml \<Rightarrow> string) \<Rightarrow> string \<Rightarrow> (string \<times> yaml) list \<Rightarrow> string list" where
  "texts_at emit name ns = map (\<lambda>(p, n). node_text emit n) (filter (\<lambda>(p, n). p = name \<and> p \<noteq> []) ns)"

lemma iterate_c_str:
  "(p, n) \<in> set (iterateNodes prefix root) \<Longrightarrow> c_str p = p"
  "(p, n) \<in> set (iterateMap prefix kvs) \<Longrightarrow> c_str p = p"
proof (induction prefix root and prefix kvs rule: iterateNodes_iterateMap.induct)
  case (1 prefix root)
  then show ?case by (cases root) (auto simp: c_str_def dest: set_takeWhileD)
next
  case (3 prefix k v kvs)
  then show ?case by (simp only: iterateMap.simps(2) set_append) blast
qed simp

lemma load_nodes_values:
  assumes "\<forall>(p, n)\<in>set ns. c_str p = p" "config_ok cf" "quiet cf" "\<forall>t s e. from_str t s = Inl e \<longrightarrow> caught e"
  shows "\<exists>store w'. load_nodes from_str emit ns cf w = Inr (cf\<lparr>cf_store := store\<rparr>, w') \<and> length store = length (cf_store cf) \<and>
    (\<forall>name a. cf_vars cf name = Some a \<longrightarrow>
       store ! a = (cf_store cf ! a)\<lparr>cv_value :=
         fold (text_value (from_str (cv_type (cf_store cf ! a)))) (texts_at emit name ns) (cv_value (cf_store cf ! a))\<rparr>) \<and>
    (\<forall>a. a \<notin> ran (cf_vars cf) \<longrightarrow> store ! a = cf_store cf ! a)"
  using assms(1-3)
proof (induction ns arbitrary: cf w)
  case Nil
  then show ?case by (intro exI [of _ "cf_store cf"]) (auto simp: texts_at_def)
next
  case (Cons pn ns)
  obtain p n where pn: "pn = (p, n)" by (cases pn)
  show ?case
  proof (cases "p = [] \<or> lookUp p cf = None")
    case True
    then have "load_nodes from_str emit (pn # ns) cf w = load_nodes from_str emit ns cf w" using pn by auto
    moreover have "texts_at emit name (pn # ns) = texts_at emit name ns" if "cf_vars cf name = Some a" for name a
      using True that Cons.prems(1) pn by (auto simp: texts_at_def lookUp_def)
    ultimately show ?thesis using Cons by (auto simp: pn)
  next
    case False
    then obtain a where a: "cf_vars cf p = Some a" "p \<noteq> []" "lookUp p cf = Some a"
      using Cons.prems(1) pn by (auto simp: lookUp_def)
    let ?var = "cf_store cf ! a"
    have len: "a < length (cf_store cf)" using a(1) Cons.prems(2) by (simp add: config_ok_def)
    then have "list_all (\<lambda>(i, cb). calm cb) (cb_maps ?var)" using Cons.prems(3) by (auto simp: quiet_def list_all_length)
    then obtain b w1 where f: "fromString (from_str (cv_type ?var)) (node_text emit n) ?var w =
        Inr (b, ?var\<lparr>cv_value := text_value (from_str (cv_type ?var)) (node_text emit n) (cv_value ?var)\<rparr>, w1)"
      using fromString_calm [of ?var "from_str (cv_type ?var)" "node_text emit n" w] assms(4) by blast
    let ?cf = "cf\<lparr>cf_store := (cf_store cf)[a := ?var\<lparr>cv_value := text_value (from_str (cv_type ?var)) (node_text emit n) (cv_value ?var)\<rparr>]\<rparr>"
    have "config_ok ?cf" using Cons.prems(2) by (simp add: config_ok_def)
    moreover have "quiet ?cf" using Cons.prems(3) len by (auto simp: quiet_def list_all_length nth_list_update)
    ultimately obtain store w' where l: "load_nodes from_str emit ns ?cf w1 = Inr (?cf\<lparr>cf_store := store\<rparr>, w')" "length store = length (cf_store ?cf)"
      "\<And>name a. cf_vars ?cf name = Some a \<Longrightarrow>
       store ! a = (cf_store ?cf ! a)\<lparr>cv_value :=
         fold (text_value (from_str (cv_type (cf_store ?cf ! a)))) (texts_at emit name ns) (cv_value (cf_store ?cf ! a))\<rparr>"
      "\<And>a. a \<notin> ran (cf_vars ?cf) \<Longrightarrow> store ! a = cf_store ?cf ! a"
      using Cons.IH [of ?cf w1] Cons.prems(1) by auto
    have inj: "name = p" if "cf_vars cf name = Some a" for name
      using that a(1) Cons.prems(2) inj_onD [of "cf_vars cf" "dom (cf_vars cf)" name p] by (auto simp: config_ok_def)
    have "load_nodes from_str emit (pn # ns) cf w = Inr (cf\<lparr>cf_store := store\<rparr>, w')"
      using l(1) f a pn by (simp add: Let_def)
    moreover have "store ! b = (cf_store cf ! b)\<lparr>cv_value :=
         fold (text_value (from_str (cv_type (cf_store cf ! b)))) (texts_at emit name (pn # ns)) (cv_value (cf_store cf ! b))\<rparr>"
      if "cf_vars cf name = Some b" for name b
      using l(3) [of name b] that inj [of name] a len pn by (cases "b = a") (auto simp: texts_at_def)
    moreover have "store ! b = cf_store cf ! b" if "b \<notin> ran (cf_vars cf)" for b
      using l(4) [of b] that a(1) by (cases "b = a") (auto simp: ran_def)
    ultimately show ?thesis using l(2) by auto
  qed
qed

text \<open>
  C40: loading a YAML document sets every registered variable to the value of the last text at its dotted path that
  can be cast to its type, and leaves it as it was when there is none; no other variable is touched, and
  nothing is registered or forgotten.
\<close>

theorem load_sets_paths:
  assumes "config_ok cf" "quiet cf" "\<forall>t s e. from_str t s = Inl e \<longrightarrow> caught e"
  shows "\<exists>cf' w'. loadFromYaml from_str emit root cf w = Inr (cf', w') \<and> cf_vars cf' = cf_vars cf \<and>
    (\<forall>name a. cf_vars cf name = Some a \<longrightarrow>
       cv_value (cf_store cf' ! a) =
         fold (text_value (from_str (cv_type (cf_store cf ! a)))) (texts_at emit name (iterateNodes [] root)) (cv_value (cf_store cf ! a))) \<and>
    (\<forall>a. a \<notin> ran (cf_vars cf) \<longrightarrow> cf_store cf' ! a = cf_store cf ! a)"
proof -
  have "\<forall>(p, n)\<in>set (iterateNodes [] root). c_str p = p" using iterate_c_str by blast
  from load_nodes_values [OF this assms, of emit w] show ?thesis by (auto simp: loadFromYaml_def)
qed

datatype demo_val = Num nat | Name string

definition demoFrom :: "bool \<Rightarrow> string \<Rightarrow> demo_val res" where
  "demoFrom t s = (if t then Inr (Name s) else if s = ''8'' then Inr (Num 8) else Inl LogicError)"

definition demoConfig :: "(bool, demo_val, unit) config" where
  "demoConfig = snd (add True ''a.b'' (Name ''x'') [] (snd (add False ''n'' (Num 1) [] newConfig)))"

definition demoDoc :: yaml where
  "demoDoc = YMap [(YScalar ''a'', YMap [(YScalar ''b'', YScalar ''y'')]), (YScalar ''n'', YScalar ''8''), (YScalar ''n'', YScalar ''many'')]"

lemma demoConfig_ok: "config_ok demoConfig" "quiet demoConfig"
  unfolding demoConfig_def
  by (intro add_ok newConfig_ok) (simp add: add_def newConfig_def quiet_def lookUpAs_def lookUp_def c_str_def ConfigVar_def Let_def)

theorem load_sets_paths_witness:
  "\<exists>cf'. loadFromYaml demoFrom (\<lambda>n. []) demoDoc demoConfig () = Inr (cf', ()) \<and>
     cv_value (cf_store cf' ! 0) = Num 8 \<and> cv_value (cf_store cf' ! 1) = Name ''y''"
proof -
  have vars: "cf_vars demoConfig ''n'' = Some 0" "cf_vars demoConfig ''a.b'' = Some 1"
    "map cv_type (cf_store demoConfig) = [False, True]" "map cv_value (cf_store demoConfig) = [Num 1, Name ''x'']"
    by (simp_all add: demoConfig_def add_def newConfig_def lookUpAs_def lookUp_def c_str_def ConfigVar_def Let_def)
  then have store: "cv_type (cf_store demoConfig ! 0) = False" "cv_type (cf_store demoConfig ! 1) = True"
    "cv_value (cf_store demoConfig ! 0) = Num 1" "cv_value (cf_store demoConfig ! 1) = Name ''x''"
    by (auto simp: map_eq_Cons_conv)
  have texts: "texts_at (\<lambda>n. []) ''n'' (iterateNodes [] demoDoc) = [''8'', ''many'']" "texts_at (\<lambda>n. []) ''a.b'' (iterateNodes [] demoDoc) = [''y'']"
    by (simp_all add: texts_at_def demoDoc_def c_str_def node_text_def)
  have ex: "\<forall>t s e. demoFrom t s = Inl e \<longrightarrow> caught e" by (auto simp: demoFrom_def caught_def split: if_splits)
  obtain cf' where cf: "loadFromYaml demoFrom (\<lambda>n. []) demoDoc demoConfig () = Inr (cf', ())"
    "\<And>name a. cf_vars demoConfig name = Some a \<Longrightarrow> cv_value (cf_store cf' ! a) =
       fold (text_value (demoFrom (cv_type (cf_store demoConfig ! a)))) (texts_at (\<lambda>n. []) name (iterateNodes [] demoDoc)) (cv_value (cf_store demoConfig ! a))"
    using load_sets_paths [OF demoConfig_ok ex, of "\<lambda>n. []" demoDoc "()"] by auto
  show ?thesis using cf(1) cf(2) [OF vars(1)] cf(2) [OF vars(2)] store texts
    by (simp add: text_value_def demoFrom_def)
qed

section \<open>The sizes of the HTTP parsers\<close>

text \<open>
  \<^verbatim>\<open>http_parser.cc\<close> keeps a copy of four variables, which listeners update: the sizes of the buffers and the largest
  bodies.  The state the listeners change is that of the four copies, with the rest of the program left out.
\<close>

datatype http_var = Request_buffer_size | Request_max_body_size | Response_buffer_size | Response_max_body_size

type_synonym http_sizes = "http_var \<Rightarrow> u64"

definition http_default :: http_sizes where
  "http_default x = (case x of
     Request_buffer_size \<Rightarrow> 4 * 1024 | Request_max_body_size \<Rightarrow> 64 * 1024 * 1024
   | Response_buffer_size \<Rightarrow> 4 * 1024 | Response_max_body_size \<Rightarrow> 64 * 1024 * 1024)"

definition http_name :: "http_var \<Rightarrow> string" where
  "http_name x = (case x of
     Request_buffer_size \<Rightarrow> ''http.request.buffer_size'' | Request_max_body_size \<Rightarrow> ''http.request.max_body_size''
   | Response_buffer_size \<Rightarrow> ''http.response.buffer_size'' | Response_max_body_size \<Rightarrow> ''http.response.max_body_size'')"

definition http_description :: "http_var \<Rightarrow> string" where
  "http_description x = (case x of
     Request_buffer_size \<Rightarrow> ''http request buffer size'' | Request_max_body_size \<Rightarrow> ''http request max body size''
   | Response_buffer_size \<Rightarrow> ''http response buffer size'' | Response_max_body_size \<Rightarrow> ''http response max body size'')"

definition size_listener :: "http_var \<Rightarrow> (u64, http_sizes) change_cb" where
  "size_listener x ov nv w = (ov, nv, w(x := nv), None)"

text \<open>The start: the four variables, each with the listener that got the id \<open>first + i\<close>, and the copies of their values.\<close>

definition RequestSizeIniter :: "u64 \<Rightarrow> (http_var \<Rightarrow> (unit, u64, http_sizes) config_var) \<Rightarrow> (http_var \<Rightarrow> (unit, u64, http_sizes) config_var) \<times> http_sizes" where
  "RequestSizeIniter first vars =
     ((\<lambda>x. let i = (case x of Request_buffer_size \<Rightarrow> 0 | Request_max_body_size \<Rightarrow> 1 | Response_buffer_size \<Rightarrow> 2 | Response_max_body_size \<Rightarrow> 3)
           in snd (snd (addListener (size_listener x) (first + i) (vars x)))),
      \<lambda>x. cv_value (vars x))"

definition http_vars :: "http_var \<Rightarrow> (unit, u64, http_sizes) config_var" where
  "http_vars x = ConfigVar () (http_name x) (http_default x) (http_description x)"

inductive sizes_reach :: "(http_var \<Rightarrow> (unit, u64, http_sizes) config_var) \<Rightarrow> http_sizes \<Rightarrow> bool" where
  start: "RequestSizeIniter first http_vars = (vars, w) \<Longrightarrow> sizes_reach vars w"
| set_value: "sizes_reach vars w \<Longrightarrow> setValue v (vars x) w = (var, w', e) \<Longrightarrow> sizes_reach (vars(x := var)) w'"
| from_string: "sizes_reach vars w \<Longrightarrow> fromString from_str s (vars x) w = Inr (b, var, w') \<Longrightarrow> sizes_reach (vars(x := var)) w'"

lemma size_set:
  "map snd (cb_maps var) = [size_listener x] \<Longrightarrow> setValue v var w = (var\<lparr>cv_value := v\<rparr>, w(x := v), None)"
  by (simp add: setValue_def size_listener_def)

lemma sizes_inv:
  "sizes_reach vars w \<Longrightarrow> w = cv_value \<circ> vars \<and> (\<forall>x. map snd (cb_maps (vars x)) = [size_listener x])"
proof (induction rule: sizes_reach.induct)
  case (start first vars w)
  then show ?case
    by (auto simp: RequestSizeIniter_def http_vars_def ConfigVar_def addListener_def map_insert_def Let_def)
next
  case (set_value vars w v x var w' e)
  then show ?case by (auto simp: size_set)
next
  case (from_string vars w from_str s x b var w')
  then show ?case
    by (auto simp: fromString_def size_set split: sum.splits if_splits)
qed

text \<open>
  The sizes the HTTP parsers work with are at all times the values of the configuration variables, however these
  are set, directly or from text.
\<close>

theorem http_sizes_follow:
  assumes "sizes_reach vars w"
  shows "w x = cv_value (vars x)"
  using sizes_inv [OF assms] by simp

theorem http_sizes_follow_witness:
  "(let vars = fst (RequestSizeIniter 0 http_vars); (var, w, e) = setValue 100 (vars Response_buffer_size) (snd (RequestSizeIniter 0 http_vars))
    in w Response_buffer_size = 100 \<and> w Request_buffer_size = cv_value (vars Request_buffer_size))"
proof -
  let ?vars = "fst (RequestSizeIniter 0 http_vars)"
  obtain var w e where s: "setValue 100 (?vars Response_buffer_size) (snd (RequestSizeIniter 0 http_vars)) = (var, w, e)"
    by (cases "setValue 100 (?vars Response_buffer_size) (snd (RequestSizeIniter 0 http_vars))")
  have r: "sizes_reach (?vars(Response_buffer_size := var)) w"
    using s by (intro sizes_reach.set_value [of ?vars "snd (RequestSizeIniter 0 http_vars)"] sizes_reach.start [of 0]) simp_all
  have "cv_value var = 100" using s
    by (simp add: setValue_def RequestSizeIniter_def addListener_def http_vars_def ConfigVar_def map_insert_def size_listener_def) auto
  then show ?thesis using http_sizes_follow [OF r, of Response_buffer_size] http_sizes_follow [OF r, of Request_buffer_size] s
    by simp
qed

end
