(* ===== verification/Log.thy ===== *)
theory Log
  imports Config
begin

text \<open>
  The log system (\<^verbatim>\<open>saturn/log.h\<close>, \<^verbatim>\<open>saturn/log.cc\<close>, the log macros of \<^verbatim>\<open>macro.h\<close> and the casts of levels
  and log configurations in \<^verbatim>\<open>util.h\<close>).

  Loggers and appenders are shared objects in two stores; the manager maps names to loggers, a null pointer being \<open>None\<close>.
  The level of a new logger is not initialised: \<open>junk a\<close> is what the memory of the object \<open>a\<close> holds.  \<open>put_time t fmt\<close>
  is the text of the library's \<^verbatim>\<open>gmtime\<close> and \<^verbatim>\<open>put_time\<close>.  Output is text appended to the standard output and to
  files.
\<close>

section \<open>Events and levels\<close>

record log_event =
  ev_file :: string
  ev_line :: u32
  ev_elapse :: u32
  ev_threadId :: int
  ev_fiberId :: u32
  ev_time :: u64
  ev_ss :: string

datatype LogLevel = UNKNOWN | DEBUG | INFO | WARN | ERROR | FATAL

definition level_num :: "LogLevel \<Rightarrow> int" where
  "level_num l = (case l of UNKNOWN \<Rightarrow> 0 | DEBUG \<Rightarrow> 1 | INFO \<Rightarrow> 2 | WARN \<Rightarrow> 3 | ERROR \<Rightarrow> 4 | FATAL \<Rightarrow> 5)"

definition level_str :: "string list" where
  "level_str = [''UNKNOWN'', ''DEBUG'', ''INFO'', ''WARN'', ''ERROR'', ''FATAL'']"

definition level_toString :: "LogLevel \<Rightarrow> string" where
  "level_toString l = level_str ! nat (level_num l)"

definition level_fromString :: "string \<Rightarrow> LogLevel" where
  "level_fromString var =
     (if var = ''DEBUG'' then DEBUG
      else if var = ''INFO'' then INFO
      else if var = ''WARN'' then WARN
      else if var = ''ERROR'' then ERROR
      else if var = ''FATAL'' then FATAL
      else UNKNOWN)"

lemma level_cast: "level_fromString (level_toString l) = l"
  by (cases l) (simp_all add: level_fromString_def level_toString_def level_str_def level_num_def)

section \<open>Format patterns\<close>

datatype pattern =
    PlainP string
  | LoggerP
  | TimeP string
  | LevelP
  | MessageP
  | FileP
  | LineP
  | ThreadP
  | FiberP
  | ElapseP

datatype time_type = ISO8601 | UNIX | UNIX_MILLIS | SELF_DEFINED

definition TimeFormatPattern :: "string \<Rightarrow> time_type" where
  "TimeFormatPattern pat =
     (if pat = ''UNIX'' then UNIX
      else if pat = ''UNIX_MILLIS'' then UNIX_MILLIS
      else if pat = ''ISO8601'' then ISO8601
      else if pat = [] then UNIX
      else SELF_DEFINED)"

text \<open>\<^verbatim>\<open>std::setw\<close> with the text to the left or, by default, to the right; a path is printed quoted.\<close>

definition setw_left :: "nat \<Rightarrow> string \<Rightarrow> string" where
  "setw_left n s = s @ replicate (n - length s) CHR '' ''"

definition setw :: "nat \<Rightarrow> string \<Rightarrow> string" where
  "setw n s = replicate (n - length s) CHR '' '' @ s"

definition quoted :: "string \<Rightarrow> string" where
  "quoted s = [CHR 0x22] @ concat (map (\<lambda>c. if c = CHR 0x22 \<or> c = CHR 0x5C then [CHR 0x5C, c] else [c]) s) @ [CHR 0x22]"

definition time_str :: "(u64 \<Rightarrow> string \<Rightarrow> string) \<Rightarrow> string \<Rightarrow> log_event \<Rightarrow> string" where
  "time_str put_time pat ev =
     (case TimeFormatPattern pat of
        UNIX \<Rightarrow> setw 25 (dec (unat (ev_time ev)))
      | UNIX_MILLIS \<Rightarrow> setw 25 (dec_int (sint (ev_time ev * 1000)))
      | ISO8601 \<Rightarrow> setw 25 (put_time (ev_time ev) ''%Y-%m-%dT%H:%M:%SZ'')
      | SELF_DEFINED \<Rightarrow> setw 25 (put_time (ev_time ev) (c_str pat)))"

definition pat_str :: "(u64 \<Rightarrow> string \<Rightarrow> string) \<Rightarrow> string \<Rightarrow> LogLevel \<Rightarrow> log_event \<Rightarrow> pattern \<Rightarrow> string" where
  "pat_str put_time logger_name level ev p =
     (case p of
        PlainP s \<Rightarrow> s
      | LoggerP \<Rightarrow> setw_left 8 logger_name
      | TimeP pat \<Rightarrow> time_str put_time pat ev
      | LevelP \<Rightarrow> setw_left 6 (level_toString level)
      | MessageP \<Rightarrow> ev_ss ev
      | FileP \<Rightarrow> setw_left 50 (quoted (ev_file ev))
      | LineP \<Rightarrow> setw_left 4 (dec (unat (ev_line ev)))
      | ThreadP \<Rightarrow> setw_left 5 (dec_int (ev_threadId ev))
      | FiberP \<Rightarrow> setw_left 5 (dec (unat (ev_fiberId ev)))
      | ElapseP \<Rightarrow> setw_left 5 (dec (unat (ev_elapse ev))))"

section \<open>Parsing a format\<close>

record log_formatter =
  fm_format :: string
  fm_patterns :: "pattern list"
  fm_error :: bool

definition starts_with :: "string \<Rightarrow> string \<Rightarrow> bool" where
  "starts_with sv pre \<longleftrightarrow> take (length pre) sv = pre"

text \<open>
  The \<^verbatim>\<open>%d\<close> branch and the chain of specifiers, on the text after the percent sign: the pattern and how far \<open>i\<close> moves,
  or \<open>None\<close> for the jump to \<^verbatim>\<open>plain_str\<close>.
\<close>

definition time_spec :: "string \<Rightarrow> pattern \<times> nat" where
  "time_spec sv =
     (if 1 < length sv \<and> sv ! 1 = CHR ''{'' \<and> CHR ''}'' \<in> set (drop 2 sv)
      then let pat = takeWhile (\<lambda>c. c \<noteq> CHR ''}'') (drop 2 sv) in (TimeP pat, length pat + 3)
      else (TimeP [], 1))"

definition spec :: "string \<Rightarrow> (pattern \<times> nat) option" where
  "spec sv =
     (if starts_with sv ''p'' \<or> starts_with sv ''level'' then Some (LevelP, if starts_with sv ''p'' then 1 else 5)
      else if starts_with sv ''m'' \<or> starts_with sv ''msg'' \<or> starts_with sv ''message''
        then Some (MessageP, if starts_with sv ''message'' then 7 else if starts_with sv ''msg'' then 3 else 1)
      else if starts_with sv ''F'' \<or> starts_with sv ''file'' then Some (FileP, if starts_with sv ''F'' then 1 else 4)
      else if starts_with sv ''L'' \<or> starts_with sv ''line'' then Some (LineP, if starts_with sv ''L'' then 1 else 4)
      else if starts_with sv ''t'' \<or> starts_with sv ''thread'' then Some (ThreadP, if starts_with sv ''thread'' then 6 else 1)
      else if starts_with sv ''f'' \<or> starts_with sv ''fiber'' then Some (FiberP, if starts_with sv ''fiber'' then 5 else 1)
      else if starts_with sv ''e'' \<or> starts_with sv ''elapse'' then Some (ElapseP, if starts_with sv ''elapse'' then 6 else 1)
      else if starts_with sv ''c'' \<or> starts_with sv ''logger'' then Some (LoggerP, if starts_with sv ''c'' then 1 else 6)
      else if starts_with sv ''d'' then Some (time_spec sv)
      else None)"

text \<open>
  The loop, on the text from \<open>i\<close> on.  The scan for the end of plain text has no bound: when no percent sign follows,
  it leaves the text.
\<close>

function parse_loop :: "string \<Rightarrow> pattern list res" where
  "parse_loop [] = Inr []"
| "parse_loop (c # sv) =
     (let plain = (if CHR ''%'' \<in> set sv
        then bindE (parse_loop (dropWhile (\<lambda>x. x \<noteq> CHR ''%'') sv)) (\<lambda>ps. Inr (PlainP (c # takeWhile (\<lambda>x. x \<noteq> CHR ''%'') sv) # ps))
        else Inl OutOfBounds)
      in if c = CHR ''%'' then
           if sv \<noteq> [] then
             (case spec sv of
                Some (p, k) \<Rightarrow> bindE (parse_loop (drop k sv)) (\<lambda>ps. Inr (p # ps))
              | None \<Rightarrow> plain)
           else Inr [PlainP [c]]
         else plain)"
  by pat_completeness auto
termination
  by (relation "measure length") (auto simp: less_Suc_eq_le length_dropWhile_le)

declare parse_loop.simps(2) [simp del]

definition LogFormatter :: "string \<Rightarrow> log_formatter res" where
  "LogFormatter fmt =
     (if fmt = [] then Inr \<lparr>fm_format = fmt, fm_patterns = [], fm_error = True\<rparr>
      else bindE (parse_loop fmt) (\<lambda>ps. Inr \<lparr>fm_format = fmt, fm_patterns = ps, fm_error = False\<rparr>))"

definition log_format :: "(u64 \<Rightarrow> string \<Rightarrow> string) \<Rightarrow> log_formatter \<Rightarrow> string \<Rightarrow> LogLevel \<Rightarrow> log_event \<Rightarrow> string" where
  "log_format put_time f logger_name level ev = concat (map (pat_str put_time logger_name level ev) (fm_patterns f)) @ [CHR 0x0A]"

section \<open>Formats are read back\<close>

text \<open>A spelling for every pattern, with the long form where a letter alone could run into the text that follows.\<close>

fun print_pat :: "pattern \<Rightarrow> string" where
  "print_pat (PlainP s) = s"
| "print_pat LoggerP = ''%c''"
| "print_pat (TimeP p) = ''%d{'' @ p @ ''}''"
| "print_pat LevelP = ''%p''"
| "print_pat MessageP = ''%message''"
| "print_pat FileP = ''%F''"
| "print_pat LineP = ''%L''"
| "print_pat ThreadP = ''%thread''"
| "print_pat FiberP = ''%fiber''"
| "print_pat ElapseP = ''%elapse''"

fun plain :: "pattern \<Rightarrow> bool" where
  "plain (PlainP s) = True"
| "plain _ = False"

text \<open>Lists of patterns in which plain text is not empty, has no percent sign and is followed by a specifier.\<close>

fun printable :: "pattern list \<Rightarrow> bool" where
  "printable [] = True"
| "printable (PlainP s # ps) \<longleftrightarrow> s \<noteq> [] \<and> CHR ''%'' \<notin> set s \<and> ps \<noteq> [] \<and> \<not> plain (hd ps) \<and> printable ps"
| "printable (TimeP p # ps) \<longleftrightarrow> CHR ''}'' \<notin> set p \<and> printable ps"
| "printable (_ # ps) \<longleftrightarrow> printable ps"

lemma takeWhile_until: "x \<notin> set xs \<Longrightarrow> takeWhile (\<lambda>c. c \<noteq> x) (xs @ x # ys) = xs"
  by (subst takeWhile_append2) auto

lemma dropWhile_until: "x \<notin> set xs \<Longrightarrow> dropWhile (\<lambda>c. c \<noteq> x) (xs @ x # ys) = x # ys"
  by (subst dropWhile_append2) auto

lemma spec_percent: "\<not> plain p \<Longrightarrow> \<exists>t. print_pat p = CHR ''%'' # t \<and> t \<noteq> []"
  by (cases p) auto

lemma spec_reads:
  assumes "\<not> plain p" "printable [p]"
  shows "spec (tl (print_pat p) @ rest) = Some (p, length (tl (print_pat p)))"
proof (cases p)
  case (TimeP pat)
  then have "CHR ''}'' \<notin> set pat" using assms by simp
  then show ?thesis using TimeP takeWhile_until [of "CHR ''}''" pat rest]
    by (simp add: spec_def starts_with_def time_spec_def Let_def)
qed (use assms in \<open>simp_all add: spec_def starts_with_def\<close>)

lemma parse_spec:
  assumes "\<not> plain p" "printable [p]"
  shows "parse_loop (print_pat p @ rest) = bindE (parse_loop rest) (\<lambda>ps. Inr (p # ps))"
proof -
  obtain t where "print_pat p = CHR ''%'' # t" "t \<noteq> []" using spec_percent [OF assms(1)] by blast
  then show ?thesis using spec_reads [OF assms, of rest] by (simp add: parse_loop.simps(2))
qed

lemma parse_plain:
  assumes "s \<noteq> []" "CHR ''%'' \<notin> set s"
  shows "parse_loop (s @ CHR ''%'' # rest) = bindE (parse_loop (CHR ''%'' # rest)) (\<lambda>ps. Inr (PlainP s # ps))"
    and "parse_loop s = Inl OutOfBounds"
proof -
  obtain c cs where "s = c # cs" "c \<noteq> CHR ''%''" "CHR ''%'' \<notin> set cs" using assms by (cases s) auto
  then show "parse_loop (s @ CHR ''%'' # rest) = bindE (parse_loop (CHR ''%'' # rest)) (\<lambda>ps. Inr (PlainP s # ps))" "parse_loop s = Inl OutOfBounds"
    by (simp_all add: parse_loop.simps(2) [of c] takeWhile_until dropWhile_until)
qed

lemma parse_printed:
  "printable ps \<Longrightarrow> parse_loop (concat (map print_pat ps) @ rest) = bindE (parse_loop rest) (\<lambda>qs. Inr (ps @ qs))"
proof (induction ps)
  case Nil
  show ?case by (cases "parse_loop rest") auto
next
  case (Cons p ps)
  show ?case
  proof (cases "plain p")
    case False
    then have "printable [p]" "printable ps" using Cons.prems by (cases p; simp)+
    then show ?thesis using parse_spec [OF False, of "concat (map print_pat ps) @ rest"] Cons.IH by (simp add: bindE_assoc)
  next
    case True
    then obtain s q qs where p: "p = PlainP s" "ps = q # qs" "s \<noteq> []" "CHR ''%'' \<notin> set s" "\<not> plain q" "printable ps"
      using Cons.prems by (cases p; cases ps) auto
    obtain t where t: "print_pat q = CHR ''%'' # t" using spec_percent [OF p(5)] by blast
    have "parse_loop (concat (map print_pat (p # ps)) @ rest) =
        bindE (parse_loop (concat (map print_pat ps) @ rest)) (\<lambda>ps. Inr (PlainP s # ps))"
      using parse_plain(1) [OF p(3,4), of "t @ concat (map print_pat qs) @ rest"] p(1,2) t by simp
    then show ?thesis using Cons.IH [OF p(6)] p(1) by (simp add: bindE_assoc)
  qed
qed

text \<open>
  A format made of specifiers, with plain text only in front of one, is read back pattern by pattern; followed
  by more plain text, the same format makes the parser read past its end.
\<close>

theorem format_roundtrip:
  assumes "printable ps" "ps \<noteq> []" "s \<noteq> []" "CHR ''%'' \<notin> set s"
  shows "LogFormatter (concat (map print_pat ps)) = Inr \<lparr>fm_format = concat (map print_pat ps), fm_patterns = ps, fm_error = False\<rparr> \<and>
    LogFormatter (concat (map print_pat ps) @ s) = Inl OutOfBounds"
proof -
  have "concat (map print_pat ps) \<noteq> []" using assms(1,2) by (cases ps; cases "hd ps") auto
  then show ?thesis using parse_printed [OF assms(1), of "[]"] parse_printed [OF assms(1), of s] parse_plain(2) [OF assms(3,4)] assms(3)
    by (simp add: LogFormatter_def)
qed

definition demoFormat :: "pattern list" where
  "demoFormat = [LevelP, PlainP '' '', FileP, PlainP '' thread['', ThreadP, PlainP ''] '', TimeP ''ISO8601'', PlainP '' '', MessageP]"

theorem format_roundtrip_witness:
  "fm_patterns (projr (LogFormatter ''%p %F thread[%thread] %d{ISO8601} %message'')) = demoFormat \<and>
   LogFormatter ''%p %F thread[%thread] %d{ISO8601} %message.'' = Inl OutOfBounds"
  using format_roundtrip [of demoFormat "''.''"] by (simp add: demoFormat_def)

end
