(* ===== verification/Logger.thy ===== *)
theory Logger
  imports Log
begin

text \<open>
  Appenders, loggers and their manager (\<^verbatim>\<open>saturn/log.h\<close>, \<^verbatim>\<open>saturn/log.cc\<close>), the log macros (\<^verbatim>\<open>macro.h\<close>), the
  casts of log configurations (\<^verbatim>\<open>util.h\<close>) and the listener that rebuilds the loggers when the configuration changes.
\<close>

section \<open>State\<close>

text \<open>
  An appender writes to the standard output or to a file; a stream that could not be opened loses what is written.
  Levels are the numbers of the enumeration, as the level of a new logger can be any number.
\<close>

record appender =
  ap_file :: "string option"
  ap_level :: int
  ap_formatter :: "log_formatter option"
  ap_open :: bool

record logger =
  lg_name :: string
  lg_level :: int
  lg_formatter :: "log_formatter option"
  lg_appenders :: "nat list"

record log_sys =
  ls_loggers :: "string \<rightharpoonup> nat option"
  ls_store :: "logger list"
  ls_aps :: "appender list"
  ls_stdout :: string
  ls_files :: "string \<Rightarrow> string"

definition newLogger :: "int \<Rightarrow> string \<Rightarrow> logger" where
  "newLogger junk name = \<lparr>lg_name = name, lg_level = junk, lg_formatter = None, lg_appenders = []\<rparr>"

definition StdoutLogAppender :: "LogLevel \<Rightarrow> log_formatter option \<Rightarrow> appender" where
  "StdoutLogAppender level formatter = \<lparr>ap_file = None, ap_level = level_num level, ap_formatter = formatter, ap_open = True\<rparr>"

definition FileLogAppender :: "(string \<Rightarrow> bool) \<Rightarrow> LogLevel \<Rightarrow> log_formatter option \<Rightarrow> string \<Rightarrow> appender" where
  "FileLogAppender opens level formatter filepath =
     \<lparr>ap_file = Some filepath, ap_level = level_num level, ap_formatter = formatter, ap_open = opens filepath\<rparr>"

definition reopen :: "(string \<Rightarrow> bool) \<Rightarrow> appender \<Rightarrow> bool \<times> appender" where
  "reopen opens ap = (let ok = (case ap_file ap of None \<Rightarrow> ap_open ap | Some path \<Rightarrow> opens path) in (ok, ap\<lparr>ap_open := ok\<rparr>))"

definition lgr :: "nat \<Rightarrow> log_sys \<Rightarrow> logger" where
  "lgr l s = ls_store s ! l"

definition set_lgr :: "nat \<Rightarrow> (logger \<Rightarrow> logger) \<Rightarrow> log_sys \<Rightarrow> log_sys" where
  "set_lgr l f s = s\<lparr>ls_store := (ls_store s)[l := f (ls_store s ! l)]\<rparr>"

definition setLevel :: "LogLevel \<Rightarrow> nat \<Rightarrow> log_sys \<Rightarrow> log_sys" where
  "setLevel level l = set_lgr l (\<lambda>g. g\<lparr>lg_level := level_num level\<rparr>)"

definition setFormatter :: "log_formatter option \<Rightarrow> nat \<Rightarrow> log_sys \<Rightarrow> log_sys" where
  "setFormatter f l = set_lgr l (\<lambda>g. g\<lparr>lg_formatter := f\<rparr>)"

definition addAppender :: "nat \<Rightarrow> nat \<Rightarrow> log_sys \<Rightarrow> log_sys" where
  "addAppender a l = set_lgr l (\<lambda>g. g\<lparr>lg_appenders := lg_appenders g @ [a]\<rparr>)"

definition delAppender :: "nat \<Rightarrow> nat \<Rightarrow> log_sys \<Rightarrow> log_sys" where
  "delAppender a l = set_lgr l (\<lambda>g. g\<lparr>lg_appenders := remove1 a (lg_appenders g)\<rparr>)"

definition clearAppenders :: "nat \<Rightarrow> log_sys \<Rightarrow> log_sys" where
  "clearAppenders l = set_lgr l (\<lambda>g. g\<lparr>lg_appenders := []\<rparr>)"

definition setFormatterOf :: "log_formatter option \<Rightarrow> nat \<Rightarrow> log_sys \<Rightarrow> log_sys" where
  "setFormatterOf f a s = s\<lparr>ls_aps := (ls_aps s)[a := (ls_aps s ! a)\<lparr>ap_formatter := f\<rparr>]\<rparr>"

section \<open>The manager\<close>

text \<open>\<^verbatim>\<open>make_shared\<close> of a logger and of an appender.\<close>

definition make_logger :: "(nat \<Rightarrow> int) \<Rightarrow> string \<Rightarrow> log_sys \<Rightarrow> nat \<times> log_sys" where
  "make_logger junk name s = (length (ls_store s), s\<lparr>ls_store := ls_store s @ [newLogger (junk (length (ls_store s))) name]\<rparr>)"

definition make_appender :: "appender \<Rightarrow> log_sys \<Rightarrow> nat \<times> log_sys" where
  "make_appender ap s = (length (ls_aps s), s\<lparr>ls_aps := ls_aps s @ [ap]\<rparr>)"

text \<open>
  The map is searched with the name up to its first zero byte but filled with the whole name; the last subscript makes
  an entry with a null pointer when the two differ.
\<close>

definition getLogger :: "(nat \<Rightarrow> int) \<Rightarrow> string \<Rightarrow> log_sys \<Rightarrow> nat option \<times> log_sys" where
  "getLogger junk name s =
     (case ls_loggers s (c_str name) of
        Some l \<Rightarrow> (l, s)
      | None \<Rightarrow>
          let (l, s1) = make_logger junk name s;
              m1 = (if ls_loggers s1 name = None then (ls_loggers s1)(name \<mapsto> Some l) else ls_loggers s1)
          in case m1 (c_str name) of
               Some l' \<Rightarrow> (l', s1\<lparr>ls_loggers := m1\<rparr>)
             | None \<Rightarrow> (None, s1\<lparr>ls_loggers := m1(c_str name \<mapsto> None)\<rparr>))"

definition delLogger :: "string \<Rightarrow> log_sys \<Rightarrow> log_sys" where
  "delLogger name s = s\<lparr>ls_loggers := (ls_loggers s)(name := None)\<rparr>"

definition root_format :: string where
  "root_format = ''%p %F %L thread[%t] fiber:%f %e %c %d{ISO8601} %m''"

definition LoggerManager :: "(nat \<Rightarrow> int) \<Rightarrow> log_sys \<Rightarrow> log_sys res" where
  "LoggerManager junk s =
     bindE (LogFormatter root_format) (\<lambda>f.
       let (l, s1) = make_logger junk ''root'' s;
           (a, s2) = make_appender (StdoutLogAppender INFO (Some f)) s1
       in Inr ((addAppender a l s2)\<lparr>ls_loggers := (ls_loggers s2)(''root'' \<mapsto> Some l)\<rparr>))"

section \<open>Logging\<close>

definition ap_write :: "nat \<Rightarrow> string \<Rightarrow> log_sys \<Rightarrow> log_sys" where
  "ap_write a text s =
     (case ap_file (ls_aps s ! a) of
        None \<Rightarrow> s\<lparr>ls_stdout := ls_stdout s @ text\<rparr>
      | Some path \<Rightarrow> if ap_open (ls_aps s ! a) then s\<lparr>ls_files := (ls_files s)(path := ls_files s path @ text)\<rparr> else s)"

text \<open>\<^verbatim>\<open>StdoutLogAppender::log\<close> and \<^verbatim>\<open>FileLogAppender::log\<close>, which differ in where they write.\<close>

definition appender_log :: "(nat \<Rightarrow> int) \<Rightarrow> (u64 \<Rightarrow> string \<Rightarrow> string) \<Rightarrow> string \<Rightarrow> LogLevel \<Rightarrow> log_event \<Rightarrow> nat \<Rightarrow> log_sys \<Rightarrow> log_sys res" where
  "appender_log junk put_time logger_name level ev a s =
     (if level_num level \<ge> ap_level (ls_aps s ! a) then
        (case ap_formatter (ls_aps s ! a) of
           Some f \<Rightarrow> Inr (ap_write a (log_format put_time f logger_name level ev) s)
         | None \<Rightarrow>
             (case getLogger junk logger_name s of
                (None, s1) \<Rightarrow> Inl NullDeref
              | (Some l, s1) \<Rightarrow>
                  (case lg_formatter (lgr l s1) of
                     Some f \<Rightarrow> Inr (ap_write a (log_format put_time f logger_name level ev) s1)
                   | None \<Rightarrow> Inl LogicError)))
      else Inr s)"

fun run_appenders :: "(nat \<Rightarrow> int) \<Rightarrow> (u64 \<Rightarrow> string \<Rightarrow> string) \<Rightarrow> string \<Rightarrow> LogLevel \<Rightarrow> log_event \<Rightarrow> nat list \<Rightarrow> log_sys \<Rightarrow> log_sys res" where
  "run_appenders junk put_time name level ev [] s = Inr s"
| "run_appenders junk put_time name level ev (a # aps) s =
     bindE (appender_log junk put_time name level ev a s) (run_appenders junk put_time name level ev aps)"

text \<open>
  \<^verbatim>\<open>Logger::log\<close> holds the mutex of the logger; \<open>again\<close> is the call it makes on the root logger.  The root logger without
  appenders calls itself and locks its mutex twice.
\<close>

definition log_with :: "(nat \<Rightarrow> int) \<Rightarrow> (u64 \<Rightarrow> string \<Rightarrow> string) \<Rightarrow> LogLevel \<Rightarrow> log_event \<Rightarrow> (nat \<Rightarrow> log_sys \<Rightarrow> log_sys res) \<Rightarrow> nat \<Rightarrow> log_sys \<Rightarrow> log_sys res" where
  "log_with junk put_time level ev again l s =
     (if level_num level \<ge> lg_level (lgr l s) then
        if lg_appenders (lgr l s) \<noteq> [] then run_appenders junk put_time (lg_name (lgr l s)) level ev (lg_appenders (lgr l s)) s
        else (case getLogger junk ''root'' s of
                (None, s1) \<Rightarrow> Inl NullDeref
              | (Some r, s1) \<Rightarrow> again r s1)
      else Inr s)"

definition logger_log :: "(nat \<Rightarrow> int) \<Rightarrow> (u64 \<Rightarrow> string \<Rightarrow> string) \<Rightarrow> LogLevel \<Rightarrow> log_event \<Rightarrow> nat \<Rightarrow> log_sys \<Rightarrow> log_sys res" where
  "logger_log junk put_time level ev l =
     log_with junk put_time level ev (\<lambda>r s.
       if r = l then Inl Deadlock
       else log_with junk put_time level ev (\<lambda>r' s'. Inl Deadlock) r s) l"

definition log_debug where "log_debug junk put_time ev = logger_log junk put_time DEBUG ev"
definition log_info where "log_info junk put_time ev = logger_log junk put_time INFO ev"
definition log_warn where "log_warn junk put_time ev = logger_log junk put_time WARN ev"
definition log_error where "log_error junk put_time ev = logger_log junk put_time ERROR ev"
definition log_fatal where "log_fatal junk put_time ev = logger_log junk put_time FATAL ev"

text \<open>
  A log statement: the event is logged by the destructor of the wrapper, which no exception may leave.
\<close>

definition LogEventWrapper_end :: "(nat \<Rightarrow> int) \<Rightarrow> (u64 \<Rightarrow> string \<Rightarrow> string) \<Rightarrow> LogLevel \<Rightarrow> nat \<Rightarrow> log_event \<Rightarrow> log_sys \<Rightarrow> log_sys res" where
  "LogEventWrapper_end junk put_time level l ev s =
     (case logger_log junk put_time level ev l s of
        Inl e \<Rightarrow> Inl (if caught e then Terminate else e)
      | Inr s' \<Rightarrow> Inr s')"

definition SATURN_LOG_LEVEL :: "(nat \<Rightarrow> int) \<Rightarrow> (u64 \<Rightarrow> string \<Rightarrow> string) \<Rightarrow> nat \<Rightarrow> LogLevel \<Rightarrow> log_event \<Rightarrow> string \<Rightarrow> log_sys \<Rightarrow> log_sys res" where
  "SATURN_LOG_LEVEL junk put_time l level ev content s =
     (if lg_level (lgr l s) \<le> level_num level
      then LogEventWrapper_end junk put_time level l (ev\<lparr>ev_ss := ev_ss ev @ content\<rparr>) s
      else Inr s)"

section \<open>Configuration\<close>

record LogAppenderConfig =
  la_type :: int
  la_level :: LogLevel
  la_formatter :: string
  la_file :: string

record LogConfig =
  lc_name :: string
  lc_level :: LogLevel
  lc_formatter :: string
  lc_appenders :: "LogAppenderConfig list"

definition valid_formatter :: "string \<Rightarrow> log_formatter option res" where
  "valid_formatter fmt = bindE (LogFormatter fmt) (\<lambda>f. Inr (if fm_error f then None else Some f))"

fun config_appenders :: "(string \<Rightarrow> bool) \<Rightarrow> LogAppenderConfig list \<Rightarrow> nat \<Rightarrow> log_sys \<Rightarrow> log_sys res" where
  "config_appenders opens [] l s = Inr s"
| "config_appenders opens (ap # aps) l s =
     bindE (valid_formatter (la_formatter ap)) (\<lambda>f.
       if la_type ap = 1 then
         let (a, s1) = make_appender (StdoutLogAppender (la_level ap) f) s
         in config_appenders opens aps l (addAppender a l s1)
       else if la_type ap = 2 then
         let (a, s1) = make_appender (FileLogAppender opens (la_level ap) f (la_file ap)) s
         in config_appenders opens aps l (addAppender a l s1)
       else config_appenders opens aps l s)"

definition config_logger :: "(nat \<Rightarrow> int) \<Rightarrow> (string \<Rightarrow> bool) \<Rightarrow> LogConfig \<Rightarrow> log_sys \<Rightarrow> log_sys res" where
  "config_logger junk opens val s =
     (case getLogger junk (lc_name val) s of
        (None, s1) \<Rightarrow> Inl NullDeref
      | (Some l, s1) \<Rightarrow>
          bindE (valid_formatter (lc_formatter val)) (\<lambda>f.
            config_appenders opens (lc_appenders val) l (clearAppenders l (setFormatter f l (setLevel (lc_level val) l s1)))))"

fun config_loggers :: "(nat \<Rightarrow> int) \<Rightarrow> (string \<Rightarrow> bool) \<Rightarrow> LogConfig list \<Rightarrow> log_sys \<Rightarrow> log_sys res" where
  "config_loggers junk opens [] s = Inr s"
| "config_loggers junk opens (val # vals) s = bindE (config_logger junk opens val s) (config_loggers junk opens vals)"

definition drop_logger :: "(nat \<Rightarrow> int) \<Rightarrow> LogConfig \<Rightarrow> log_sys \<Rightarrow> log_sys res" where
  "drop_logger junk val s =
     (case getLogger junk (lc_name val) s of
        (None, s1) \<Rightarrow> Inl NullDeref
      | (Some l, s1) \<Rightarrow> Inr (delLogger (lc_name val) (clearAppenders l s1)))"

fun drop_loggers :: "(nat \<Rightarrow> int) \<Rightarrow> string list \<Rightarrow> LogConfig list \<Rightarrow> log_sys \<Rightarrow> log_sys res" where
  "drop_loggers junk kept [] s = Inr s"
| "drop_loggers junk kept (val # vals) s =
     bindE (if lc_name val \<in> set kept then Inr s else drop_logger junk val s) (drop_loggers junk kept vals)"

text \<open>The listener; a set of configurations is ordered, and compared, by name.\<close>

definition LogIniter :: "(nat \<Rightarrow> int) \<Rightarrow> (string \<Rightarrow> bool) \<Rightarrow> LogConfig list \<Rightarrow> LogConfig list \<Rightarrow> log_sys \<Rightarrow> log_sys res" where
  "LogIniter junk opens old_value new_value s =
     bindE (config_loggers junk opens new_value s) (drop_loggers junk (map lc_name new_value) old_value)"

section \<open>Configurations as YAML\<close>

text \<open>
  What the casts use of the YAML library: the subscript by a key, \<open>None\<close> being a node that is not defined, the text
  of a node, and the elements of a sequence.
\<close>

record yaml_api =
  y_load :: "string \<Rightarrow> yaml res"
  y_emit :: "yaml \<Rightarrow> string"
  y_at :: "yaml \<Rightarrow> string \<Rightarrow> yaml option res"
  y_as :: "yaml \<Rightarrow> string res"
  y_elems :: "yaml \<Rightarrow> yaml list"

definition y_text :: "yaml_api \<Rightarrow> yaml \<Rightarrow> string \<Rightarrow> string option res" where
  "y_text y n key = bindE (y_at y n key) (\<lambda>c. case c of None \<Rightarrow> Inr None | Some v \<Rightarrow> bindE (y_as y v) (\<lambda>t. Inr (Some t)))"

definition need :: "string option res \<Rightarrow> string res" where
  "need r = bindE r (\<lambda>t. case t of None \<Rightarrow> Inl LogicError | Some v \<Rightarrow> Inr v)"

definition level_or_unknown :: "string option \<Rightarrow> LogLevel" where
  "level_or_unknown t = (case t of None \<Rightarrow> UNKNOWN | Some v \<Rightarrow> level_fromString v)"

definition text_or_empty :: "string option \<Rightarrow> string" where
  "text_or_empty t = (case t of None \<Rightarrow> [] | Some v \<Rightarrow> v)"

definition appender_fromNode :: "yaml_api \<Rightarrow> yaml \<Rightarrow> LogAppenderConfig res" where
  "appender_fromNode y ap =
     bindE (need (y_text y ap ''type'')) (\<lambda>type.
     bindE (if type = ''StdoutLogAppender'' then Inr (1, [])
            else if type = ''FileLogAppender'' then bindE (need (y_text y ap ''file'')) (\<lambda>file. Inr (2, file))
            else Inl LogicError) (\<lambda>(type, file).
     bindE (y_text y ap ''level'') (\<lambda>level.
     bindE (y_text y ap ''formatter'') (\<lambda>formatter.
       Inr \<lparr>la_type = type, la_level = level_or_unknown level, la_formatter = text_or_empty formatter, la_file = file\<rparr>))))"

fun appenders_fromNodes :: "yaml_api \<Rightarrow> yaml list \<Rightarrow> LogAppenderConfig list res" where
  "appenders_fromNodes y [] = Inr []"
| "appenders_fromNodes y (n # ns) = bindE (appender_fromNode y n) (\<lambda>a. bindE (appenders_fromNodes y ns) (\<lambda>as. Inr (a # as)))"

definition config_fromNode :: "yaml_api \<Rightarrow> yaml \<Rightarrow> LogConfig res" where
  "config_fromNode y n =
     bindE (need (y_text y n ''name'')) (\<lambda>name.
     bindE (y_text y n ''level'') (\<lambda>level.
     bindE (y_text y n ''formatter'') (\<lambda>formatter.
     bindE (y_at y n ''appenders'') (\<lambda>aps.
     bindE (case aps of None \<Rightarrow> Inr [] | Some v \<Rightarrow> appenders_fromNodes y (y_elems y v)) (\<lambda>appenders.
       Inr \<lparr>lc_name = name, lc_level = level_or_unknown level, lc_formatter = text_or_empty formatter, lc_appenders = appenders\<rparr>)))))"

definition config_fromString :: "yaml_api \<Rightarrow> string \<Rightarrow> LogConfig res" where
  "config_fromString y var = bindE (y_load y var) (config_fromNode y)"

definition appender_toNode :: "LogAppenderConfig \<Rightarrow> yaml" where
  "appender_toNode ap = YMap
     ((if la_type ap = 1 then [(YScalar ''type'', YScalar ''StdoutLogAppender'')]
       else if la_type ap = 2 then [(YScalar ''type'', YScalar ''FileLogAppender''), (YScalar ''file'', YScalar (la_file ap))]
       else []) @
      [(YScalar ''level'', YScalar (level_toString (la_level ap))), (YScalar ''formatter'', YScalar (la_formatter ap))])"

definition config_toNode :: "LogConfig \<Rightarrow> yaml" where
  "config_toNode var = YMap
     ([(YScalar ''name'', YScalar (lc_name var)), (YScalar ''level'', YScalar (level_toString (lc_level var))),
       (YScalar ''formatter'', YScalar (lc_formatter var))] @
      (if lc_appenders var = [] then [] else [(YScalar ''appenders'', YSequence (map appender_toNode (lc_appenders var)))]))"

definition config_toString :: "yaml_api \<Rightarrow> LogConfig \<Rightarrow> string" where
  "config_toString y var = y_emit y (config_toNode var)"

text \<open>The documented behaviour of the library on maps, scalars and sequences, and on text it has printed itself.\<close>

locale yaml_lib =
  fixes y :: yaml_api
  assumes at_map: "y_at y (YMap kvs) key = Inr (map_of (map (\<lambda>(k, v). (Scalar k, v)) kvs) key)"
    and as_scalar: "y_as y (YScalar s) = Inr s"
    and elems_seq: "y_elems y (YSequence ns) = ns"
begin

lemma appender_node:
  assumes "la_type ap = 1 \<and> la_file ap = [] \<or> la_type ap = 2"
  shows "appender_fromNode y (appender_toNode ap) = Inr ap"
  using assms
  by (auto simp: appender_fromNode_def appender_toNode_def y_text_def at_map as_scalar need_def level_or_unknown_def text_or_empty_def level_cast)

lemma appender_nodes:
  "list_all (\<lambda>ap. la_type ap = 1 \<and> la_file ap = [] \<or> la_type ap = 2) aps \<Longrightarrow> appenders_fromNodes y (map appender_toNode aps) = Inr aps"
  by (induction aps) (auto simp: appender_node)

lemma config_node:
  assumes "list_all (\<lambda>ap. la_type ap = 1 \<and> la_file ap = [] \<or> la_type ap = 2) (lc_appenders c)"
  shows "config_fromNode y (config_toNode c) = Inr c"
  using assms
  by (simp add: config_fromNode_def config_toNode_def y_text_def at_map as_scalar elems_seq need_def level_or_unknown_def text_or_empty_def
      level_cast appender_nodes)

end

definition tree_api :: "(string \<Rightarrow> yaml res) \<Rightarrow> (yaml \<Rightarrow> string) \<Rightarrow> yaml_api" where
  "tree_api load emit =
     \<lparr>y_load = load, y_emit = emit,
      y_at = (\<lambda>n key. case n of YMap kvs \<Rightarrow> Inr (map_of (map (\<lambda>(k, v). (Scalar k, v)) kvs) key) | YNull \<Rightarrow> Inr None | _ \<Rightarrow> Inl LogicError),
      y_as = (\<lambda>n. case n of YScalar s \<Rightarrow> Inr s | YNull \<Rightarrow> Inr ''null'' | _ \<Rightarrow> Inl LogicError),
      y_elems = (\<lambda>n. case n of YSequence ns \<Rightarrow> ns | _ \<Rightarrow> [])\<rparr>"

interpretation tree: yaml_lib "tree_api load emit"
  by unfold_locales (simp_all add: tree_api_def)

text \<open>
  A log configuration with appenders of the two kinds is read back from the YAML text it is printed as, when the
  library reads that text back.
\<close>

theorem log_config_roundtrip:
  assumes "yaml_lib y" "y_load y (y_emit y (config_toNode c)) = Inr (config_toNode c)"
    "list_all (\<lambda>ap. la_type ap = 1 \<and> la_file ap = [] \<or> la_type ap = 2) (lc_appenders c)"
  shows "config_fromString y (config_toString y c) = Inr c"
  using yaml_lib.config_node [OF assms(1,3)] assms(2) by (simp add: config_fromString_def config_toString_def)

definition demoLogConfig :: LogConfig where
  "demoLogConfig = \<lparr>lc_name = ''system'', lc_level = INFO, lc_formatter = ''%p %m'',
     lc_appenders = [\<lparr>la_type = 2, la_level = DEBUG, la_formatter = [], la_file = ''log.txt''\<rparr>]\<rparr>"

theorem log_config_roundtrip_witness:
  "config_fromString (tree_api (\<lambda>s. Inr (config_toNode demoLogConfig)) (\<lambda>n. [])) [] = Inr demoLogConfig"
  using log_config_roundtrip [OF tree.yaml_lib_axioms, of "\<lambda>s. Inr (config_toNode demoLogConfig)" "\<lambda>n. []" demoLogConfig]
  by (simp add: config_toString_def tree_api_def) (simp add: demoLogConfig_def)

section \<open>Where a line goes\<close>

text \<open>The formatter an appender uses: its own, else that of the logger registered under the name.\<close>

definition formatter_for :: "string \<Rightarrow> log_sys \<Rightarrow> nat \<Rightarrow> log_formatter option" where
  "formatter_for name s a =
     (case ap_formatter (ls_aps s ! a) of
        Some f \<Rightarrow> Some f
      | None \<Rightarrow> (case ls_loggers s (c_str name) of Some (Some l) \<Rightarrow> lg_formatter (lgr l s) | _ \<Rightarrow> None))"

definition line :: "(u64 \<Rightarrow> string \<Rightarrow> string) \<Rightarrow> string \<Rightarrow> LogLevel \<Rightarrow> log_event \<Rightarrow> log_sys \<Rightarrow> nat \<Rightarrow> string" where
  "line put_time name level ev s a = log_format put_time (the (formatter_for name s a)) name level ev"

text \<open>The output after each appender that listens to the level has written its line.\<close>

definition delivered :: "(u64 \<Rightarrow> string \<Rightarrow> string) \<Rightarrow> string \<Rightarrow> LogLevel \<Rightarrow> log_event \<Rightarrow> nat list \<Rightarrow> log_sys \<Rightarrow> log_sys" where
  "delivered put_time name level ev aps s =
     (let hear = (\<lambda>a. ap_level (ls_aps s ! a) \<le> level_num level);
          lines = (\<lambda>P. concat (map (line put_time name level ev s) (filter (\<lambda>a. hear a \<and> P (ls_aps s ! a)) aps)))
      in s\<lparr>ls_stdout := ls_stdout s @ lines (\<lambda>ap. ap_file ap = None),
           ls_files := (\<lambda>path. ls_files s path @ lines (\<lambda>ap. ap_file ap = Some path \<and> ap_open ap))\<rparr>)"

lemma line_out [simp]:
  "formatter_for name (s\<lparr>ls_stdout := so, ls_files := fs\<rparr>) = formatter_for name s"
  "line put_time name level ev (s\<lparr>ls_stdout := so, ls_files := fs\<rparr>) = line put_time name level ev s"
  by (auto simp: fun_eq_iff formatter_for_def line_def lgr_def split: option.splits)

lemma appender_log_line:
  assumes "ap_level (ls_aps s ! a) \<le> level_num level \<Longrightarrow> formatter_for name s a \<noteq> None"
  shows "appender_log junk put_time name level ev a s = Inr (delivered put_time name level ev [a] s)"
  using assms
  by (cases "ap_file (ls_aps s ! a)")
    (auto simp: appender_log_def delivered_def line_def formatter_for_def ap_write_def getLogger_def fun_eq_iff split: option.splits)

lemma delivered_Cons:
  "delivered put_time name level ev aps (delivered put_time name level ev [a] s) = delivered put_time name level ev (a # aps) s"
  by (auto simp: delivered_def Let_def fun_eq_iff)

lemma delivered_fields [simp]:
  "ls_aps (delivered put_time name level ev aps s) = ls_aps s"
  "ls_loggers (delivered put_time name level ev aps s) = ls_loggers s"
  "formatter_for nm (delivered put_time name level ev aps s) = formatter_for nm s"
  by (simp_all add: delivered_def Let_def)

text \<open>Every appender that listens has a formatter; or one has not.\<close>

definition can_format :: "string \<Rightarrow> LogLevel \<Rightarrow> log_sys \<Rightarrow> nat \<Rightarrow> bool" where
  "can_format name level s a \<longleftrightarrow> level_num level < ap_level (ls_aps s ! a) \<or> formatter_for name s a \<noteq> None"

lemma run_appenders_lines:
  assumes "ls_loggers s (c_str name) = Some (Some g)"
  shows "run_appenders junk put_time name level ev aps s =
    (if list_all (can_format name level s) aps then Inr (delivered put_time name level ev aps s) else Inl LogicError)"
  using assms
proof (induction aps arbitrary: s)
  case Nil
  then show ?case by (simp add: delivered_def)
next
  case (Cons a aps)
  show ?case
  proof (cases "can_format name level s a")
    case True
    then have "appender_log junk put_time name level ev a s = Inr (delivered put_time name level ev [a] s)"
      by (intro appender_log_line) (auto simp: can_format_def)
    moreover have "can_format name level (delivered put_time name level ev [a] s) = can_format name level s"
      by (simp add: fun_eq_iff can_format_def)
    ultimately show ?thesis using Cons True by (simp add: delivered_Cons)
  next
    case False
    then show ?thesis using Cons.prems
      by (auto simp: can_format_def appender_log_def formatter_for_def getLogger_def split: option.splits)
  qed
qed

lemma getLogger_there: "ls_loggers s (c_str name) = Some l \<Longrightarrow> getLogger junk name s = (l, s)"
  by (simp add: getLogger_def)

lemma logger_log_target:
  assumes "ls_loggers s ''root'' = Some (Some r)" "target = (if lg_appenders (lgr l s) = [] then r else l)"
    "lg_level (lgr l s) \<le> level_num level" "lg_level (lgr target s) \<le> level_num level"
  shows "logger_log junk put_time level ev l s =
    (if lg_appenders (lgr target s) = [] then Inl Deadlock
     else run_appenders junk put_time (lg_name (lgr target s)) level ev (lg_appenders (lgr target s)) s)"
  using assms getLogger_there [of s "''root''" "Some r" junk]
  by (auto simp: logger_log_def log_with_def c_str_def)


definition demoLog :: log_sys where
  "demoLog = projr (LoggerManager (\<lambda>a. 0) \<lparr>ls_loggers = Map.empty, ls_store = [], ls_aps = [], ls_stdout = [], ls_files = (\<lambda>p. [])\<rparr>)"

definition demoEvent :: log_event where
  "demoEvent = \<lparr>ev_file = ''a.cc'', ev_line = 7, ev_elapse = 0, ev_threadId = 1, ev_fiberId = 0, ev_time = 0, ev_ss = []\<rparr>"

lemma root_formatter:
  "LogFormatter root_format = Inr \<lparr>fm_format = root_format,
     fm_patterns = [LevelP, PlainP '' '', FileP, PlainP '' '', LineP, PlainP '' thread['', ThreadP, PlainP ''] fiber:'', FiberP, PlainP '' '',
       ElapseP, PlainP '' '', LoggerP, PlainP '' '', TimeP ''ISO8601'', PlainP '' '', MessageP], fm_error = False\<rparr>"
  by code_simp

lemma demoLog_eq:
  "demoLog = \<lparr>ls_loggers = [''root'' \<mapsto> Some 0], ls_store = [(newLogger 0 ''root'')\<lparr>lg_appenders := [0]\<rparr>],
     ls_aps = [StdoutLogAppender INFO (Some (projr (LogFormatter root_format)))], ls_stdout = [], ls_files = (\<lambda>p. [])\<rparr>"
  by (simp add: demoLog_def LoggerManager_def root_formatter make_logger_def make_appender_def addAppender_def set_lgr_def newLogger_def)


section \<open>A new configuration\<close>

definition logs_ok :: "log_sys \<Rightarrow> bool" where
  "logs_ok s \<longleftrightarrow>
     (\<forall>name l. ls_loggers s name = Some l \<longrightarrow> (\<exists>i. l = Some i \<and> i < length (ls_store s))) \<and>
     (\<forall>n1 n2 i. ls_loggers s n1 = Some (Some i) \<and> ls_loggers s n2 = Some (Some i) \<longrightarrow> n1 = n2) \<and>
     (\<forall>g\<in>set (ls_store s). \<forall>a\<in>set (lg_appenders g). a < length (ls_aps s))"

definition formats_ok :: "LogConfig \<Rightarrow> bool" where
  "formats_ok val \<longleftrightarrow> \<not> isl (LogFormatter (lc_formatter val)) \<and> list_all (\<lambda>ap. \<not> isl (LogFormatter (la_formatter ap))) (lc_appenders val)"

text \<open>The appenders a configuration asks for; one of an unknown type is left out.\<close>

definition appender_of :: "(string \<Rightarrow> bool) \<Rightarrow> LogAppenderConfig \<Rightarrow> appender list" where
  "appender_of opens ap =
     (let f = projr (valid_formatter (la_formatter ap))
      in if la_type ap = 1 then [StdoutLogAppender (la_level ap) f]
         else if la_type ap = 2 then [FileLogAppender opens (la_level ap) f (la_file ap)] else [])"

definition configured :: "(string \<Rightarrow> bool) \<Rightarrow> LogConfig \<Rightarrow> log_sys \<Rightarrow> bool" where
  "configured opens val s \<longleftrightarrow>
     (\<exists>i. ls_loggers s (lc_name val) = Some (Some i) \<and> lg_level (lgr i s) = level_num (lc_level val) \<and>
        valid_formatter (lc_formatter val) = Inr (lg_formatter (lgr i s)) \<and>
        map ((!) (ls_aps s)) (lg_appenders (lgr i s)) = concat (map (appender_of opens) (lc_appenders val)))"

text \<open>What a change to one name leaves of the others.\<close>

definition keeps :: "string \<Rightarrow> log_sys \<Rightarrow> log_sys \<Rightarrow> bool" where
  "keeps name s s' \<longleftrightarrow>
     (\<forall>n. n \<noteq> name \<longrightarrow> ls_loggers s' n = ls_loggers s n \<and> (\<forall>i. ls_loggers s n = Some (Some i) \<longrightarrow> lgr i s' = lgr i s)) \<and>
     (\<exists>more. ls_aps s' = ls_aps s @ more)"

lemma keeps_trans: "keeps name s s1 \<Longrightarrow> keeps name s1 s2 \<Longrightarrow> keeps name s s2"
  by (fastforce simp: keeps_def)

lemma logs_okD:
  assumes "logs_ok s" "ls_loggers s name = Some (Some i)"
  shows "i < length (ls_store s)" "\<forall>a\<in>set (lg_appenders (lgr i s)). a < length (ls_aps s)"
proof -
  show "i < length (ls_store s)" using assms by (auto simp: logs_ok_def)
  then show "\<forall>a\<in>set (lg_appenders (lgr i s)). a < length (ls_aps s)" using assms by (auto simp: logs_ok_def lgr_def)
qed

lemma configured_keeps:
  assumes "configured opens val s" "keeps name s s'" "logs_ok s" "lc_name val \<noteq> name"
  shows "configured opens val s'"
proof -
  obtain i where i: "ls_loggers s (lc_name val) = Some (Some i)" "lg_level (lgr i s) = level_num (lc_level val)"
    "valid_formatter (lc_formatter val) = Inr (lg_formatter (lgr i s))"
    "map ((!) (ls_aps s)) (lg_appenders (lgr i s)) = concat (map (appender_of opens) (lc_appenders val))"
    using assms(1) by (auto simp: configured_def)
  obtain more where k: "ls_loggers s' (lc_name val) = Some (Some i)" "lgr i s' = lgr i s" "ls_aps s' = ls_aps s @ more"
    using assms(2,4) i(1) by (auto simp: keeps_def)
  have "map ((!) (ls_aps s')) (lg_appenders (lgr i s)) = map ((!) (ls_aps s)) (lg_appenders (lgr i s))"
    using logs_okD(2) [OF assms(3) i(1)] k(3) by (auto simp: nth_append)
  then show ?thesis using i k by (auto simp: configured_def)
qed

lemma getLogger_ok:
  assumes "logs_ok s" "c_str name = name"
  shows "\<exists>i s1. getLogger junk name s = (Some i, s1) \<and> logs_ok s1 \<and> ls_loggers s1 name = Some (Some i) \<and> keeps name s s1 \<and>
    (\<forall>n. n \<noteq> name \<longrightarrow> ls_loggers s1 n = ls_loggers s n)"
proof (cases "ls_loggers s name")
  case None
  have "ls_loggers s n \<noteq> Some (Some (length (ls_store s)))" for n using assms(1) by (auto simp: logs_ok_def)
  then show ?thesis using assms None
    by (auto simp: getLogger_def make_logger_def newLogger_def logs_ok_def keeps_def lgr_def nth_append less_Suc_eq) blast
next
  case (Some l)
  then obtain i where "l = Some i" using assms(1) by (auto simp: logs_ok_def)
  then show ?thesis using Some assms by (auto simp: getLogger_def keeps_def)
qed

lemma set_lgr_ok:
  assumes "logs_ok s" "ls_loggers s name = Some (Some i)" "\<forall>a\<in>set (lg_appenders (f (lgr i s))). a < length (ls_aps s)"
  shows "logs_ok (set_lgr i f s)" "keeps name s (set_lgr i f s)" "lgr i (set_lgr i f s) = f (lgr i s)"
    "ls_loggers (set_lgr i f s) = ls_loggers s" "ls_aps (set_lgr i f s) = ls_aps s"
proof -
  show "lgr i (set_lgr i f s) = f (lgr i s)" using logs_okD(1) [OF assms(1,2)] by (simp add: set_lgr_def lgr_def)
  show "logs_ok (set_lgr i f s)" using assms
    by (auto simp: logs_ok_def set_lgr_def lgr_def dest: set_update_subset_insert [THEN subsetD])
  show "keeps name s (set_lgr i f s)" using assms(1,2)
    by (auto simp: keeps_def set_lgr_def lgr_def logs_ok_def) (metis nth_list_update_neq)
qed (simp_all add: set_lgr_def)

lemma valid_formatter_ok: "\<not> isl (LogFormatter fmt) \<Longrightarrow> valid_formatter fmt = Inr (projr (valid_formatter fmt))"
  by (cases "LogFormatter fmt") (auto simp: valid_formatter_def)

lemma add_made:
  assumes "logs_ok s" "ls_loggers s name = Some (Some i)"
    "s' = addAppender (fst (make_appender ap s)) i (snd (make_appender ap s))"
  shows "logs_ok s'" "ls_loggers s' = ls_loggers s" "keeps name s s'"
    "lgr i s' = (lgr i s)\<lparr>lg_appenders := lg_appenders (lgr i s) @ [length (ls_aps s)]\<rparr>" "ls_aps s' = ls_aps s @ [ap]"
proof -
  let ?s1 = "snd (make_appender ap s)"
  have s1: "logs_ok ?s1" "ls_loggers ?s1 name = Some (Some i)" "lgr i ?s1 = lgr i s" "ls_aps ?s1 = ls_aps s @ [ap]" "keeps name s ?s1"
    using assms(1,2) by (auto simp: make_appender_def logs_ok_def lgr_def keeps_def less_Suc_eq)
  have "\<forall>a\<in>set (lg_appenders ((lgr i ?s1)\<lparr>lg_appenders := lg_appenders (lgr i ?s1) @ [length (ls_aps s)]\<rparr>)). a < length (ls_aps ?s1)"
    using logs_okD(2) [OF s1(1,2)] s1(4) by auto
  from set_lgr_ok [where f = "\<lambda>g. g\<lparr>lg_appenders := lg_appenders g @ [length (ls_aps s)]\<rparr>", OF s1(1,2) this]
  show "logs_ok s'" "ls_loggers s' = ls_loggers s" "keeps name s s'"
    "lgr i s' = (lgr i s)\<lparr>lg_appenders := lg_appenders (lgr i s) @ [length (ls_aps s)]\<rparr>" "ls_aps s' = ls_aps s @ [ap]"
    using s1(3-5) keeps_trans by (auto simp: assms(3) addAppender_def make_appender_def)
qed

lemma config_appenders_ok:
  assumes "logs_ok s" "ls_loggers s name = Some (Some i)" "list_all (\<lambda>ap. \<not> isl (LogFormatter (la_formatter ap))) aps"
  shows "\<exists>s'. config_appenders opens aps i s = Inr s' \<and> logs_ok s' \<and> ls_loggers s' = ls_loggers s \<and> keeps name s s' \<and>
    lg_level (lgr i s') = lg_level (lgr i s) \<and> lg_formatter (lgr i s') = lg_formatter (lgr i s) \<and>
    map ((!) (ls_aps s')) (lg_appenders (lgr i s')) =
      map ((!) (ls_aps s)) (lg_appenders (lgr i s)) @ concat (map (appender_of opens) aps)"
  using assms
proof (induction aps arbitrary: s)
  case Nil
  then show ?case by (auto simp: keeps_def)
next
  case (Cons ap aps)
  have f: "valid_formatter (la_formatter ap) = Inr (projr (valid_formatter (la_formatter ap)))"
    using valid_formatter_ok Cons.prems(3) by simp
  show ?case
  proof (cases "appender_of opens ap")
    case Nil
    then have "config_appenders opens (ap # aps) i s = config_appenders opens aps i s"
      using f by (cases "valid_formatter (la_formatter ap)") (auto simp: appender_of_def Let_def split: if_splits)
    then show ?thesis using Cons.IH [OF Cons.prems(1,2)] Cons.prems(3) Nil by simp
  next
    case (Cons a none)
    let ?s = "addAppender (fst (make_appender a s)) i (snd (make_appender a s))"
    note m = add_made [OF Cons.prems(1,2) refl, of a]
    have "none = []" using Cons by (auto simp: appender_of_def Let_def split: if_splits)
    moreover have "config_appenders opens (ap # aps) i s = config_appenders opens aps i ?s"
      using Cons by (subst config_appenders.simps, subst f) (auto simp: appender_of_def Let_def split: if_splits prod.splits)
    moreover have "map ((!) (ls_aps ?s)) (lg_appenders (lgr i s)) = map ((!) (ls_aps s)) (lg_appenders (lgr i s))"
      using logs_okD(2) [OF Cons.prems(1,2)] m(5) by (auto simp: nth_append)
    ultimately show ?thesis using Cons.IH [of ?s] Cons.prems m Cons keeps_trans [OF m(3)] by auto
  qed
qed

lemma config_logger_ok:
  assumes "logs_ok s" "c_str (lc_name val) = lc_name val" "formats_ok val"
  shows "\<exists>s'. config_logger junk opens val s = Inr s' \<and> logs_ok s' \<and> configured opens val s' \<and> keeps (lc_name val) s s'"
proof -
  let ?n = "lc_name val"
  obtain f where fm: "valid_formatter (lc_formatter val) = Inr f" using assms(3) valid_formatter_ok by (auto simp: formats_ok_def)
  obtain i s1 where g: "getLogger junk ?n s = (Some i, s1)" "logs_ok s1" "ls_loggers s1 ?n = Some (Some i)" "keeps ?n s s1"
    using getLogger_ok [OF assms(1,2)] by blast
  let ?h = "\<lambda>g. g\<lparr>lg_level := level_num (lc_level val), lg_formatter := f, lg_appenders := []\<rparr>"
  let ?s2 = "set_lgr i ?h s1"
  have s2: "clearAppenders i (setFormatter f i (setLevel (lc_level val) i s1)) = ?s2"
    using logs_okD(1) [OF g(2,3)] by (simp add: clearAppenders_def setFormatter_def setLevel_def set_lgr_def)
  have "\<forall>a\<in>set (lg_appenders (?h (lgr i s1))). a < length (ls_aps s1)" by simp
  note m = set_lgr_ok [where f = ?h, OF g(2,3) this]
  have "ls_loggers ?s2 ?n = Some (Some i)" using m(4) g(3) by simp
  then obtain s' where "config_appenders opens (lc_appenders val) i ?s2 = Inr s'" "logs_ok s'" "ls_loggers s' = ls_loggers ?s2" "keeps ?n ?s2 s'"
    "lg_level (lgr i s') = lg_level (lgr i ?s2)" "lg_formatter (lgr i s') = lg_formatter (lgr i ?s2)"
    "map ((!) (ls_aps s')) (lg_appenders (lgr i s')) = map ((!) (ls_aps ?s2)) (lg_appenders (lgr i ?s2)) @ concat (map (appender_of opens) (lc_appenders val))"
    using config_appenders_ok [OF m(1), of ?n i "lc_appenders val" opens] assms(3) by (auto simp: formats_ok_def)
  then show ?thesis using g fm m s2 keeps_trans [OF keeps_trans [OF g(4) m(2)]]
    by (auto simp: config_logger_def configured_def)
qed

lemma config_loggers_ok:
  assumes "logs_ok s" "distinct (map lc_name vals)" "\<forall>val\<in>set vals. c_str (lc_name val) = lc_name val \<and> formats_ok val"
  shows "\<exists>s'. config_loggers junk opens vals s = Inr s' \<and> logs_ok s' \<and> list_all (\<lambda>val. configured opens val s') vals \<and>
    (\<forall>val. lc_name val \<notin> lc_name ` set vals \<and> configured opens val s \<longrightarrow> configured opens val s')"
  using assms
proof (induction vals arbitrary: s)
  case (Cons val vals)
  obtain s1 where s1: "config_logger junk opens val s = Inr s1" "logs_ok s1" "configured opens val s1" "keeps (lc_name val) s s1"
    using config_logger_ok [of s val junk opens] Cons.prems by auto
  obtain s' where "config_loggers junk opens vals s1 = Inr s'" "logs_ok s'" "list_all (\<lambda>val. configured opens val s') vals"
    "\<forall>val. lc_name val \<notin> lc_name ` set vals \<and> configured opens val s1 \<longrightarrow> configured opens val s'"
    using Cons.IH [OF s1(2)] Cons.prems by auto
  then show ?case using s1 Cons.prems configured_keeps [OF _ s1(4) Cons.prems(1)] by auto
qed simp

lemma drop_logger_ok:
  assumes "logs_ok s" "c_str (lc_name val) = lc_name val"
  shows "\<exists>s'. drop_logger junk val s = Inr s' \<and> logs_ok s' \<and> ls_loggers s' (lc_name val) = None \<and> keeps (lc_name val) s s'"
proof -
  let ?n = "lc_name val"
  obtain i s1 where g: "getLogger junk ?n s = (Some i, s1)" "logs_ok s1" "ls_loggers s1 ?n = Some (Some i)" "keeps ?n s s1"
    using getLogger_ok [OF assms] by blast
  have "\<forall>a\<in>set (lg_appenders ((lgr i s1)\<lparr>lg_appenders := []\<rparr>)). a < length (ls_aps s1)" by simp
  note m = set_lgr_ok [where f = "\<lambda>g. g\<lparr>lg_appenders := []\<rparr>", OF g(2,3) this]
  have "logs_ok (delLogger ?n (clearAppenders i s1))" "keeps ?n (clearAppenders i s1) (delLogger ?n (clearAppenders i s1))"
    using m(1) by (auto simp: clearAppenders_def delLogger_def logs_ok_def keeps_def lgr_def)
  then show ?thesis using g keeps_trans [OF keeps_trans [OF g(4) m(2)]]
    by (auto simp: drop_logger_def clearAppenders_def delLogger_def)
qed

lemma drop_loggers_ok:
  assumes "logs_ok s" "\<forall>val\<in>set vals. c_str (lc_name val) = lc_name val"
  shows "\<exists>s'. drop_loggers junk kept vals s = Inr s' \<and> logs_ok s' \<and>
    (\<forall>val\<in>set vals. lc_name val \<notin> set kept \<longrightarrow> ls_loggers s' (lc_name val) = None) \<and>
    (\<forall>n. n \<notin> set kept \<and> ls_loggers s n = None \<longrightarrow> ls_loggers s' n = None) \<and>
    (\<forall>val. lc_name val \<in> set kept \<and> configured opens val s \<longrightarrow> configured opens val s')"
  using assms
proof (induction vals arbitrary: s)
  case (Cons val vals)
  show ?case
  proof (cases "lc_name val \<in> set kept")
    case True
    then show ?thesis using Cons by auto
  next
    case False
    obtain s1 where s1: "drop_logger junk val s = Inr s1" "logs_ok s1" "ls_loggers s1 (lc_name val) = None" "keeps (lc_name val) s s1"
      using drop_logger_ok [of s val] Cons.prems by auto
    obtain s' where s': "drop_loggers junk kept vals s1 = Inr s'" "logs_ok s'"
      "\<forall>val\<in>set vals. lc_name val \<notin> set kept \<longrightarrow> ls_loggers s' (lc_name val) = None"
      "\<forall>n. n \<notin> set kept \<and> ls_loggers s1 n = None \<longrightarrow> ls_loggers s' n = None"
      "\<forall>val. lc_name val \<in> set kept \<and> configured opens val s1 \<longrightarrow> configured opens val s'"
      using Cons.IH [OF s1(2)] Cons.prems by auto
    have "ls_loggers s1 n = None" if "ls_loggers s n = None" for n
      using that s1(3,4) by (cases "n = lc_name val") (auto simp: keeps_def)
    moreover have "configured opens v s1" if "lc_name v \<in> set kept" "configured opens v s" for v
      using configured_keeps [OF that(2) s1(4) Cons.prems(1)] that(1) False by metis
    ultimately show ?thesis using False s1 s' by auto
  qed
qed simp

text \<open>
  C39: a new log configuration takes effect.  When every format in it can be parsed, each logger it names is
  registered with the level, formatter and appenders asked for, in their order and without those it had before, and each
  logger that only the old configuration named is no longer registered.
\<close>

theorem log_config_takes_effect:
  assumes "logs_ok s" "distinct (map lc_name new_value)"
    "\<forall>val\<in>set new_value. c_str (lc_name val) = lc_name val \<and> formats_ok val" "\<forall>val\<in>set old_value. c_str (lc_name val) = lc_name val"
  shows "\<exists>s'. LogIniter junk opens old_value new_value s = Inr s' \<and> logs_ok s' \<and>
    (\<forall>val\<in>set new_value. configured opens val s') \<and>
    (\<forall>val\<in>set old_value. lc_name val \<notin> lc_name ` set new_value \<longrightarrow> ls_loggers s' (lc_name val) = None)"
proof -
  obtain s1 where s1: "config_loggers junk opens new_value s = Inr s1" "logs_ok s1" "list_all (\<lambda>val. configured opens val s1) new_value"
    using config_loggers_ok [OF assms(1-3)] by blast
  show ?thesis using drop_loggers_ok [OF s1(2) assms(4), of junk "map lc_name new_value" opens] s1
    by (auto simp: LogIniter_def list_all_iff)
qed

theorem log_config_takes_effect_witness:
  "\<exists>s' i. LogIniter (\<lambda>a. 0) (\<lambda>p. True) [demoLogConfig\<lparr>lc_name := ''root''\<rparr>] [demoLogConfig] demoLog = Inr s' \<and>
     ls_loggers s' ''system'' = Some (Some i) \<and> ls_loggers s' ''root'' = None"
proof -
  have "logs_ok demoLog" by (simp add: demoLog_eq logs_ok_def newLogger_def)
  moreover have "formats_ok demoLogConfig" by code_simp
  ultimately show ?thesis
    using log_config_takes_effect [of demoLog "[demoLogConfig]" "[demoLogConfig\<lparr>lc_name := ''root''\<rparr>]" "\<lambda>a. 0" "\<lambda>p. True"]
    by (auto simp: configured_def demoLogConfig_def c_str_def)
qed

end
