(* ===== verification/Casts.thy ===== *)
theory Casts
  imports Logger "HOL-Library.Char_ord"
begin

text \<open>
  The casts between text and the containers of the standard library (\<^verbatim>\<open>cast\<close> in \<^verbatim>\<open>saturn/util.h\<close>), which configuration
  variables use: a container is printed as a YAML sequence or map, and every element is itself printed, and parsed,
  as a YAML document.  The casts of the elements are arguments, so that containers nest.  \<^verbatim>\<open>std::set\<close> and \<^verbatim>\<open>std::map\<close> are
  sorted lists, \<^verbatim>\<open>std::unordered_set\<close> and \<^verbatim>\<open>std::unordered_map\<close> sets and maps, printed in any order.
\<close>

section \<open>Reading\<close>

text \<open>
  Besides what a log configuration uses (\<open>yaml_api\<close>): the pairs an iterator of a node visits, each with the text
  of its key.
\<close>

record yaml_maps = yaml_api +
  y_pairs :: "yaml \<Rightarrow> (string \<times> yaml) list res"

text \<open>The loops of the casts; \<open>put\<close> is the \<^verbatim>\<open>emplace\<close> of the container.\<close>

fun cast_elems :: "yaml_maps \<Rightarrow> ('a \<Rightarrow> 'c \<Rightarrow> 'c) \<Rightarrow> (string \<Rightarrow> 'a res) \<Rightarrow> yaml list \<Rightarrow> 'c \<Rightarrow> 'c res" where
  "cast_elems y put from_str [] c = Inr c"
| "cast_elems y put from_str (n # ns) c =
     bindE (from_str (y_emit y n)) (\<lambda>x. cast_elems y put from_str ns (put x c))"

fun cast_pairs :: "yaml_maps \<Rightarrow> (string \<Rightarrow> 'a \<Rightarrow> 'c \<Rightarrow> 'c) \<Rightarrow> (string \<Rightarrow> 'a res) \<Rightarrow> (string \<times> yaml) list \<Rightarrow> 'c \<Rightarrow> 'c res" where
  "cast_pairs y put from_str [] c = Inr c"
| "cast_pairs y put from_str ((k, n) # ps) c =
     bindE (from_str (y_emit y n)) (\<lambda>x. cast_pairs y put from_str ps (put k x c))"

definition elems_fromString :: "yaml_maps \<Rightarrow> ('a \<Rightarrow> 'c \<Rightarrow> 'c) \<Rightarrow> 'c \<Rightarrow> (string \<Rightarrow> 'a res) \<Rightarrow> string \<Rightarrow> 'c res" where
  "elems_fromString y put c from_str var =
     bindE (y_load y var) (\<lambda>n. cast_elems y put from_str (y_elems y n) c)"

definition pairs_fromString :: "yaml_maps \<Rightarrow> (string \<Rightarrow> 'a \<Rightarrow> 'c \<Rightarrow> 'c) \<Rightarrow> 'c \<Rightarrow> (string \<Rightarrow> 'a res) \<Rightarrow> string \<Rightarrow> 'c res" where
  "pairs_fromString y put c from_str var =
     bindE (y_load y var) (\<lambda>n. bindE (y_pairs y n) (\<lambda>ps. cast_pairs y put from_str ps c))"

text \<open>The containers.  \<^verbatim>\<open>emplace\<close> keeps the first of two equal elements or keys.\<close>

definition emplace_back :: "'a \<Rightarrow> 'a list \<Rightarrow> 'a list" where "emplace_back x xs = xs @ [x]"

definition emplace_unordered :: "string \<Rightarrow> 'a \<Rightarrow> (string \<rightharpoonup> 'a) \<Rightarrow> (string \<rightharpoonup> 'a)" where
  "emplace_unordered k v m = (case m k of None \<Rightarrow> m(k \<mapsto> v) | Some _ \<Rightarrow> m)"

definition list_fromString :: "yaml_maps \<Rightarrow> (string \<Rightarrow> 'a res) \<Rightarrow> string \<Rightarrow> 'a list res" where
  "list_fromString y = elems_fromString y emplace_back []"

definition set_fromString :: "yaml_maps \<Rightarrow> ('a \<Rightarrow> 'a \<Rightarrow> bool) \<Rightarrow> (string \<Rightarrow> 'a res) \<Rightarrow> string \<Rightarrow> 'a list res" where
  "set_fromString y lt = elems_fromString y (set_insert lt) []"

definition unordered_set_fromString :: "yaml_maps \<Rightarrow> (string \<Rightarrow> 'a res) \<Rightarrow> string \<Rightarrow> 'a set res" where
  "unordered_set_fromString y = elems_fromString y insert {}"

definition map_fromString :: "yaml_maps \<Rightarrow> (string \<Rightarrow> 'a res) \<Rightarrow> string \<Rightarrow> (string \<times> 'a) list res" where
  "map_fromString y = pairs_fromString y (map_insert (<)) []"

definition unordered_map_fromString :: "yaml_maps \<Rightarrow> (string \<Rightarrow> 'a res) \<Rightarrow> string \<Rightarrow> (string \<rightharpoonup> 'a) res" where
  "unordered_map_fromString y = pairs_fromString y emplace_unordered Map.empty"

section \<open>Printing\<close>

text \<open>\<^verbatim>\<open>push_back\<close> and the assignment to a subscript turn an empty node into a sequence, or a map.\<close>

fun push_back :: "yaml \<Rightarrow> yaml \<Rightarrow> yaml res" where
  "push_back YNull m = Inr (YSequence [m])"
| "push_back (YSequence ns) m = Inr (YSequence (ns @ [m]))"
| "push_back _ m = Inl LogicError"

fun put_key :: "string \<Rightarrow> yaml \<Rightarrow> (yaml \<times> yaml) list \<Rightarrow> (yaml \<times> yaml) list" where
  "put_key k m [] = [(YScalar k, m)]"
| "put_key k m ((k', m') # kvs) = (if k' = YScalar k then (k', m) # kvs else (k', m') # put_key k m kvs)"

fun put_at :: "yaml \<Rightarrow> string \<Rightarrow> yaml \<Rightarrow> yaml res" where
  "put_at YNull k m = Inr (YMap [(YScalar k, m)])"
| "put_at (YMap kvs) k m = Inr (YMap (put_key k m kvs))"
| "put_at _ k m = Inl LogicError"

fun push_elems :: "yaml_maps \<Rightarrow> ('a \<Rightarrow> string res) \<Rightarrow> 'a list \<Rightarrow> yaml \<Rightarrow> yaml res" where
  "push_elems y to_str [] n = Inr n"
| "push_elems y to_str (x # xs) n =
     bindE (to_str x) (\<lambda>t. bindE (y_load y t) (\<lambda>m. bindE (push_back n m) (push_elems y to_str xs)))"

fun push_pairs :: "yaml_maps \<Rightarrow> ('a \<Rightarrow> string res) \<Rightarrow> (string \<times> 'a) list \<Rightarrow> yaml \<Rightarrow> yaml res" where
  "push_pairs y to_str [] n = Inr n"
| "push_pairs y to_str ((k, x) # ps) n =
     bindE (to_str x) (\<lambda>t. bindE (y_load y t) (\<lambda>m. bindE (put_at n k m) (push_pairs y to_str ps)))"

text \<open>The list is the order in which the loop visits the container.\<close>

definition elems_toString :: "yaml_maps \<Rightarrow> ('a \<Rightarrow> string res) \<Rightarrow> 'a list \<Rightarrow> string res" where
  "elems_toString y to_str xs = bindE (push_elems y to_str xs YNull) (\<lambda>n. Inr (y_emit y n))"

definition pairs_toString :: "yaml_maps \<Rightarrow> ('a \<Rightarrow> string res) \<Rightarrow> (string \<times> 'a) list \<Rightarrow> string res" where
  "pairs_toString y to_str ps = bindE (push_pairs y to_str ps YNull) (\<lambda>n. Inr (y_emit y n))"

section \<open>The contract of the library\<close>

text \<open>The documented behaviour of empty nodes and of iterators over maps.\<close>

locale yaml_containers = yaml_lib "yaml_api.truncate y" for y :: yaml_maps +
  assumes elems_null: "y_elems y YNull = []"
    and pairs_null: "y_pairs y YNull = Inr []"
    and pairs_map: "y_pairs y (YMap kvs) = Inr (map (\<lambda>(k, v). (Scalar k, v)) kvs)"

text \<open>An element whose text is parsed to a node from which the element is read again.\<close>

definition elem_back :: "yaml_maps \<Rightarrow> ('a \<Rightarrow> string res) \<Rightarrow> (string \<Rightarrow> 'a res) \<Rightarrow> 'a \<Rightarrow> yaml \<Rightarrow> bool" where
  "elem_back y to_str from_str x n \<longleftrightarrow>
     bindE (to_str x) (y_load y) = Inr n \<and> from_str (y_emit y n) = Inr x"

definition prints :: "yaml_maps \<Rightarrow> yaml \<Rightarrow> bool" where
  "prints y n \<longleftrightarrow> y_load y (y_emit y n) = Inr n"

definition seq_node :: "yaml list \<Rightarrow> yaml" where
  "seq_node ns = (if ns = [] then YNull else YSequence ns)"

definition map_node :: "(string \<times> yaml) list \<Rightarrow> yaml" where
  "map_node ps = (if ps = [] then YNull else YMap (map (\<lambda>(k, n). (YScalar k, n)) ps))"

lemma push_elems_seq:
  "list_all2 (elem_back y to_str from_str) xs ns \<Longrightarrow> push_elems y to_str xs (YSequence ms) = Inr (YSequence (ms @ ns))"
  by (induction xs ns arbitrary: ms rule: list_all2_induct) (auto simp: elem_back_def err_simps)

lemma elems_toString_back:
  assumes "list_all2 (elem_back y to_str from_str) xs ns"
  shows "elems_toString y to_str xs = Inr (y_emit y (seq_node ns))"
proof (cases xs)
  case (Cons x xs')
  then obtain n ns' where ns: "ns = n # ns'" "elem_back y to_str from_str x n" "list_all2 (elem_back y to_str from_str) xs' ns'"
    using assms by (auto simp: list_all2_Cons1)
  then have "push_elems y to_str xs YNull = Inr (seq_node ns)"
    using push_elems_seq [OF ns(3), of "[n]"] Cons by (auto simp: elem_back_def err_simps seq_node_def)
  then show ?thesis by (simp add: elems_toString_def)
qed (use assms in \<open>simp add: elems_toString_def seq_node_def\<close>)

lemma cast_elems_back:
  "list_all2 (elem_back y to_str from_str) xs ns \<Longrightarrow> cast_elems y put from_str ns c = Inr (fold put xs c)"
  by (induction xs ns arbitrary: c rule: list_all2_induct) (auto simp: elem_back_def)

lemma put_key_new:
  "k \<notin> fst ` set ps \<Longrightarrow> put_key k m (map (\<lambda>(k, n). (YScalar k, n)) ps) = map (\<lambda>(k, n). (YScalar k, n)) (ps @ [(k, m)])"
  by (induction ps) auto

lemma push_pairs_map:
  assumes "list_all2 (elem_back y to_str from_str) xs ns" "length ks = length xs" "distinct (map fst ms @ ks)"
  shows "push_pairs y to_str (zip ks xs) (YMap (map (\<lambda>(k, n). (YScalar k, n)) ms)) =
     Inr (YMap (map (\<lambda>(k, n). (YScalar k, n)) (ms @ zip ks ns)))"
  using assms
proof (induction xs ns arbitrary: ms ks rule: list_all2_induct)
  case (Cons x xs n ns)
  obtain k ks' where ks: "ks = k # ks'" using Cons.prems(1) by (cases ks) auto
  have "k \<notin> fst ` set ms" using Cons.prems(2) ks by force
  moreover have "push_pairs y to_str (zip ks' xs) (YMap (map (\<lambda>(k, n). (YScalar k, n)) (ms @ [(k, n)]))) =
     Inr (YMap (map (\<lambda>(k, n). (YScalar k, n)) ((ms @ [(k, n)]) @ zip ks' ns)))"
    using Cons.prems ks by (intro Cons.IH) auto
  ultimately show ?case
    using Cons.hyps(1) ks by (auto simp: elem_back_def err_simps put_key_new simp del: map_append)
qed simp

lemma pairs_toString_back:
  assumes "list_all2 (elem_back y to_str from_str) xs ns" "length ks = length xs" "distinct ks"
  shows "pairs_toString y to_str (zip ks xs) = Inr (y_emit y (map_node (zip ks ns)))"
proof (cases xs)
  case (Cons x xs')
  then obtain n ns' where ns: "ns = n # ns'" "elem_back y to_str from_str x n" "list_all2 (elem_back y to_str from_str) xs' ns'"
    using assms by (auto simp: list_all2_Cons1)
  obtain k ks' where ks: "ks = k # ks'" using assms(2) Cons by (cases ks) auto
  have "push_pairs y to_str (zip ks xs) YNull = Inr (map_node (zip ks ns))"
    using push_pairs_map [OF ns(3), of ks' "[(k, n)]"] ns Cons assms(2,3) ks by (auto simp: elem_back_def err_simps map_node_def)
  then show ?thesis by (simp add: pairs_toString_def)
qed (use assms in \<open>simp add: pairs_toString_def map_node_def\<close>)

lemma cast_pairs_back:
  "list_all2 (elem_back y to_str from_str) xs ns \<Longrightarrow> length ks = length xs \<Longrightarrow>
   cast_pairs y put from_str (zip ks ns) c = Inr (fold (\<lambda>(k, x). put k x) (zip ks xs) c)"
proof (induction xs ns arbitrary: c ks rule: list_all2_induct)
  case (Cons x xs n ns)
  then show ?case by (cases ks) (auto simp: elem_back_def)
qed simp

text \<open>What the containers hold after the insertions.\<close>

lemma fold_emplace_back: "fold emplace_back xs ys = ys @ xs"
  by (induction xs arbitrary: ys) (auto simp: emplace_back_def)

lemma set_insert_last: "\<forall>y\<in>set xs. lt y x \<Longrightarrow> set_insert lt x xs = xs @ [x]"
  by (induction xs) auto

lemma fold_set_insert: "sorted_wrt lt (ys @ xs) \<Longrightarrow> fold (set_insert lt) xs ys = ys @ xs"
proof (induction xs arbitrary: ys)
  case (Cons x xs)
  then show ?case using Cons.IH [of "ys @ [x]"] by (auto simp: set_insert_last sorted_wrt_append)
qed simp

lemma map_insert_last: "\<forall>p\<in>set m. lt (fst p) k \<Longrightarrow> map_insert lt k v m = m @ [(k, v)]"
proof -
  assume "\<forall>p\<in>set m. lt (fst p) k"
  then have "map_find lt k m = None \<and> map_assign lt k v m = m @ [(k, v)]" by (induction m) auto
  then show ?thesis by (simp add: map_insert_def)
qed

lemma fold_map_insert:
  "sorted_wrt lt (map fst (m @ ps)) \<Longrightarrow> fold (\<lambda>(k, v). map_insert lt k v) ps m = m @ ps"
proof (induction ps arbitrary: m)
  case (Cons p ps)
  then show ?case using Cons.IH [of "m @ [p]"] by (cases p) (auto simp: map_insert_last sorted_wrt_append)
qed simp

lemma fold_emplace_unordered:
  "distinct (map fst ps) \<Longrightarrow> dom m \<inter> fst ` set ps = {} \<Longrightarrow>
   fold (\<lambda>(k, v). emplace_unordered k v) ps m = (\<lambda>k. case map_of ps k of None \<Rightarrow> m k | Some v \<Rightarrow> Some v)"
proof (induction ps arbitrary: m)
  case (Cons p ps)
  obtain k v where p: "p = (k, v)" by (cases p)
  have "m k = None" using Cons.prems(2) p by auto
  moreover have "map_of ps k = None" using Cons.prems(1) p by (simp add: map_of_eq_None_iff)
  moreover have "fold (\<lambda>(k, v). emplace_unordered k v) ps (m(k \<mapsto> v)) = (\<lambda>l. case map_of ps l of None \<Rightarrow> (m(k \<mapsto> v)) l | Some v \<Rightarrow> Some v)"
  proof (rule Cons.IH)
    show "dom (m(k \<mapsto> v)) \<inter> fst ` set ps = {}" using Cons.prems p by (simp add: insert_Collect)
  qed (use Cons.prems p in simp)
  ultimately show ?case using p by (auto simp: emplace_unordered_def [of k v m] fun_eq_iff split: option.splits)
qed simp

lemma fold_emplace_all: "distinct (map fst ps) \<Longrightarrow> fold (\<lambda>(k, v). emplace_unordered k v) ps Map.empty = map_of ps"
  using fold_emplace_unordered [of ps Map.empty] by (simp add: fun_eq_iff split: option.splits)

context yaml_containers
begin

lemma elems_node: "y_elems y (seq_node ns) = ns"
  using elems_seq elems_null by (simp add: seq_node_def yaml_api.defs)

lemma pairs_node: "y_pairs y (map_node ps) = Inr ps"
  by (auto simp: map_node_def pairs_null pairs_map comp_def case_prod_unfold)

lemma elems_back:
  assumes "list_all2 (elem_back y to_str from_str) xs ns" "prints y (seq_node ns)"
  shows "bindE (elems_toString y to_str xs) (elems_fromString y put c from_str) = Inr (fold put xs c)"
  using assms by (simp add: elems_toString_back elems_fromString_def prints_def elems_node cast_elems_back)

lemma pairs_back:
  assumes "list_all2 (elem_back y to_str from_str) xs ns" "length ks = length xs" "distinct ks" "prints y (map_node (zip ks ns))"
  shows "bindE (pairs_toString y to_str (zip ks xs)) (pairs_fromString y put c from_str) = Inr (fold (\<lambda>(k, x). put k x) (zip ks xs) c)"
  using assms by (simp add: pairs_toString_back pairs_fromString_def prints_def pairs_node cast_pairs_back)

text \<open>A list is an element again, so that lists of lists are covered.\<close>

lemma list_elem_back:
  assumes "list_all2 (elem_back y to_str from_str) xs ns" "prints y (seq_node ns)"
  shows "elem_back y (elems_toString y to_str) (list_fromString y from_str) xs (seq_node ns)"
  using elems_back [OF assms, of emplace_back "[]"] assms
  by (simp add: elem_back_def elems_toString_back prints_def list_fromString_def fold_emplace_back)

end


section \<open>Round trips\<close>

definition tree_maps :: "(string \<Rightarrow> yaml res) \<Rightarrow> (yaml \<Rightarrow> string) \<Rightarrow> yaml_maps" where
  "tree_maps load emit = yaml_api.extend (tree_api load emit)
    (yaml_maps.fields (\<lambda>n. case n of YMap kvs \<Rightarrow> Inr (map (\<lambda>(k, v). (Scalar k, v)) kvs) | YNull \<Rightarrow> Inr [] | _ \<Rightarrow> Inl LogicError))"

lemmas tree_maps_simps = tree_maps_def tree_api_def yaml_api.defs yaml_maps.defs

interpretation trees: yaml_containers "tree_maps load emit"
  by unfold_locales (simp_all add: tree_maps_simps)

text \<open>
  A container printed as text is read back, when the library reads back the text it prints for the sequence and every
  element is read back by itself: a vector or list in its order, a sorted set and an unordered set with their elements.
\<close>

theorem containers_roundtrip:
  assumes "yaml_containers y" "list_all2 (elem_back y to_str from_str) xs ns" "prints y (seq_node ns)"
  shows "bindE (elems_toString y to_str xs) (list_fromString y from_str) = Inr xs \<and>
    (sorted_wrt lt xs \<longrightarrow> bindE (elems_toString y to_str xs) (set_fromString y lt from_str) = Inr xs) \<and>
    bindE (elems_toString y to_str xs) (unordered_set_fromString y from_str) = Inr (set xs)"
  by (simp add: yaml_containers.elems_back [OF assms] list_fromString_def set_fromString_def unordered_set_fromString_def fold_emplace_back fold_set_insert union_set_fold [symmetric])

definition bool_toString :: "bool \<Rightarrow> string res" where
  "bool_toString b = Inr (if b then ''1'' else ''0'')"

definition bool_fromString :: "string \<Rightarrow> bool res" where
  "bool_fromString s = (if s = ''1'' then Inr True else if s = ''0'' then Inr False else Inl LogicError)"

text \<open>A library that knows the documents of two flags.\<close>

fun flags_emit :: "yaml \<Rightarrow> string" where
  "flags_emit (YScalar s) = s"
| "flags_emit (YSequence ns) = ''- 0; - 1''"
| "flags_emit (YMap kvs) = ''a: 0; b: 1''"
| "flags_emit YNull = ''~''"

definition flags_load :: "string \<Rightarrow> yaml res" where
  "flags_load s =
     Inr (if s = ''- 0; - 1'' then YSequence [YScalar ''0'', YScalar ''1'']
          else if s = ''a: 0; b: 1'' then YMap [(YScalar ''a'', YScalar ''0''), (YScalar ''b'', YScalar ''1'')]
          else if s = ''~'' then YNull else YScalar s)"

abbreviation flags_yaml :: yaml_maps where "flags_yaml \<equiv> tree_maps flags_load flags_emit"

lemma flags_back: "list_all2 (elem_back flags_yaml bool_toString bool_fromString) [False, True] [YScalar ''0'', YScalar ''1'']"
  by (simp add: elem_back_def bool_toString_def bool_fromString_def tree_maps_simps flags_load_def)

theorem containers_roundtrip_witness:
  "bindE (elems_toString flags_yaml bool_toString [False, True]) (list_fromString flags_yaml bool_fromString) = Inr [False, True]"
proof -
  have "prints flags_yaml (seq_node [YScalar ''0'', YScalar ''1''])" by (simp add: prints_def seq_node_def tree_maps_simps flags_load_def)
  from containers_roundtrip [OF trees.yaml_containers_axioms flags_back this] show ?thesis by simp
qed

text \<open>The same of maps, from keys that are strings.\<close>

theorem maps_roundtrip:
  assumes "yaml_containers y" "list_all2 (elem_back y to_str from_str) xs ns" "length ks = length xs" "distinct ks"
    "prints y (map_node (zip ks ns))"
  shows "(sorted_wrt (<) ks \<longrightarrow> bindE (pairs_toString y to_str (zip ks xs)) (map_fromString y from_str) = Inr (zip ks xs)) \<and>
    bindE (pairs_toString y to_str (zip ks xs)) (unordered_map_fromString y from_str) = Inr (map_of (zip ks xs))"
  using assms(3,4)
  by (auto simp: yaml_containers.pairs_back [OF assms] map_fromString_def unordered_map_fromString_def fold_map_insert fold_emplace_all)

theorem maps_roundtrip_witness:
  "bindE (pairs_toString flags_yaml bool_toString [(''a'', False), (''b'', True)]) (map_fromString flags_yaml bool_fromString) =
   Inr [(''a'', False), (''b'', True)]"
proof -
  have "prints flags_yaml (map_node (zip [''a'', ''b''] [YScalar ''0'', YScalar ''1'']))"
    by (simp add: prints_def map_node_def tree_maps_simps flags_load_def)
  moreover have "sorted_wrt (<) [''a'', ''b'']" by code_simp
  ultimately show ?thesis
    using maps_roundtrip [OF trees.yaml_containers_axioms flags_back, of "[''a'', ''b'']"] by simp
qed

text \<open>The variable of the log: a set of configurations, ordered by name.\<close>

definition lc_less :: "LogConfig \<Rightarrow> LogConfig \<Rightarrow> bool" where
  "lc_less a b \<longleftrightarrow> lc_name a < lc_name b"

definition log_toString :: "yaml_maps \<Rightarrow> LogConfig list \<Rightarrow> string res" where
  "log_toString y = elems_toString y (\<lambda>c. Inr (config_toString (yaml_api.truncate y) c))"

definition log_fromString :: "yaml_maps \<Rightarrow> string \<Rightarrow> LogConfig list res" where
  "log_fromString y = set_fromString y lc_less (config_fromString (yaml_api.truncate y))"

definition log_config_ok :: "yaml_maps \<Rightarrow> LogConfig \<Rightarrow> bool" where
  "log_config_ok y c \<longleftrightarrow> prints y (config_toNode c) \<and>
     list_all (\<lambda>ap. la_type ap = 1 \<and> la_file ap = [] \<or> la_type ap = 2) (lc_appenders c)"

lemma log_elem_back:
  assumes "yaml_containers y" "log_config_ok y c"
  shows "elem_back y (\<lambda>c. Inr (config_toString (yaml_api.truncate y) c)) (config_fromString (yaml_api.truncate y)) c (config_toNode c)"
  using assms(2) yaml_lib.config_node [OF yaml_containers.axioms(1) [OF assms(1)], of c]
  by (simp add: elem_back_def log_config_ok_def prints_def config_toString_def config_fromString_def yaml_api.defs)

text \<open>
  C34: the configuration variable of the logs, printed, is set by its text to the configurations printed: every variable of
  its type that reads the text takes them as its value and calls its listeners with them.
\<close>

theorem log_variable_roundtrip:
  assumes "yaml_containers y" "sorted_wrt lc_less (cv_value var)" "list_all (log_config_ok y) (cv_value var)"
    "prints y (seq_node (map config_toNode (cv_value var)))"
  shows "\<exists>t. cv_toString (log_toString y) var = Inr t \<and>
    (\<forall>var' w. fromString (log_fromString y) t var' w = fromString (\<lambda>_. Inr (cv_value var)) t var' w)"
proof -
  have eb: "list_all2 (elem_back y (\<lambda>c. Inr (config_toString (yaml_api.truncate y) c)) (config_fromString (yaml_api.truncate y)))
      (cv_value var) (map config_toNode (cv_value var))"
    using log_elem_back [OF assms(1)] assms(3) by (simp add: list.rel_map list.rel_refl_strong list_all_iff)
  have "log_fromString y (y_emit y (seq_node (map config_toNode (cv_value var)))) = Inr (cv_value var)"
    using yaml_containers.elems_back [OF assms(1) eb assms(4), of "set_insert lc_less" "[]"] assms(2)
    by (simp add: elems_toString_back [OF eb] log_fromString_def set_fromString_def fold_set_insert)
  then show ?thesis by (simp add: cv_toString_def log_toString_def elems_toString_back [OF eb] fromString_def)
qed


definition demoYaml :: yaml_maps where
  "demoYaml = tree_maps
     (\<lambda>s. Inr (if s = ''set'' then YSequence [config_toNode demoLogConfig] else config_toNode demoLogConfig))
     (\<lambda>n. case n of YSequence ns \<Rightarrow> ''set'' | _ \<Rightarrow> ''one'')"

definition demoLogVar :: "(unit, LogConfig list, unit) config_var" where
  "demoLogVar = ConfigVar () ''log'' [demoLogConfig] []"

theorem log_variable_roundtrip_witness:
  "\<exists>t. cv_toString (log_toString demoYaml) demoLogVar = Inr t \<and>
    (\<forall>(var' :: (unit, _, unit) config_var) w. fromString (log_fromString demoYaml) t var' w = fromString (\<lambda>_. Inr (cv_value demoLogVar)) t var' w)"
proof (rule log_variable_roundtrip)
  have "list_all (\<lambda>ap. la_type ap = 1 \<and> la_file ap = [] \<or> la_type ap = 2) (lc_appenders demoLogConfig)"
    by (simp add: demoLogConfig_def)
  then show "list_all (log_config_ok demoYaml) (cv_value demoLogVar)"
    by (simp add: demoLogVar_def ConfigVar_def log_config_ok_def demoYaml_def prints_def tree_maps_simps config_toNode_def)
  show "yaml_containers demoYaml" unfolding demoYaml_def by (rule trees.yaml_containers_axioms)
qed (simp_all add: demoLogVar_def ConfigVar_def demoYaml_def prints_def seq_node_def tree_maps_simps)

end
