(* ===== verification/Utilities.thy ===== *)
theory Utilities
  imports Scheduler CStrings
begin

text \<open>
  The remaining functions of \<^verbatim>\<open>saturn/util.cc\<close> and what a scheduler prints of itself.  The answers of \<^verbatim>\<open>backtrace_symbols\<close>,
  \<^verbatim>\<open>vasprintf\<close>, \<^verbatim>\<open>setlocale\<close>, \<^verbatim>\<open>wcstombs\<close> and \<^verbatim>\<open>mbstowcs\<close> are arguments.
\<close>

section \<open>Backtraces\<close>

text \<open>
  \<open>symbols\<close> are the names the system gives for at most \<^verbatim>\<open>size\<close> frames, \<open>None\<close> if it has no memory.  The bound of the
  loop is compared without sign, so that a negative \<^verbatim>\<open>skip\<close> skips everything.
\<close>

definition saturn_backtrace :: "(int \<Rightarrow> string list option) \<Rightarrow> int \<Rightarrow> int \<Rightarrow> string list" where
  "saturn_backtrace symbols n skip =
     (case symbols n of None \<Rightarrow> [] | Some names \<Rightarrow> if skip < 0 then [] else drop (nat skip) names)"

definition backtraceStr :: "(int \<Rightarrow> string list option) \<Rightarrow> int \<Rightarrow> int \<Rightarrow> string \<Rightarrow> string" where
  "backtraceStr symbols n skip pre =
     concat (map (\<lambda>s. pre @ s @ [CHR 0x0A]) (saturn_backtrace symbols n skip))"

section \<open>Formatted text\<close>

text \<open>\<^verbatim>\<open>printed\<close> is what \<^verbatim>\<open>vasprintf\<close> allocates, \<open>None\<close> when it fails.\<close>

definition Formatv :: "string option \<Rightarrow> string" where
  "Formatv printed = (case printed of None \<Rightarrow> [] | Some s \<Rightarrow> c_str s)"

section \<open>Wide strings\<close>

text \<open>
  The locale of the program is a state.  \<open>env\<close> is the locale of the environment, \<open>None\<close> if the system has none of its
  name: a string is then constructed from a null pointer.  \<open>setlocale\<close> answers with the locale it has just set, so
  that the second call sets the same again.  A text that cannot be converted gives the size \<^verbatim>\<open>(size_t)-1\<close>, a buffer
  of no bytes, and a read past its end.
\<close>

definition setlocale_env :: "string option \<Rightarrow> string \<Rightarrow> string option \<times> string" where
  "setlocale_env env loc = (case env of None \<Rightarrow> (None, loc) | Some e \<Rightarrow> (Some e, e))"

definition convert :: "(string \<Rightarrow> 'a list \<Rightarrow> 'b list option) \<Rightarrow> 'a \<Rightarrow> string option \<Rightarrow> 'a list \<Rightarrow> string \<Rightarrow> 'b list res \<times> string" where
  "convert conv zero env src loc =
     (case setlocale_env env loc of
        (None, loc1) \<Rightarrow> (Inl LogicError, loc1)
      | (Some str_locale, loc1) \<Rightarrow>
          (case conv loc1 (takeWhile (\<lambda>c. c \<noteq> zero) src) of
             None \<Rightarrow> (Inl OutOfBounds, loc1)
           | Some dest \<Rightarrow> (Inr dest, str_locale)))"

definition WStringToString :: "(string \<Rightarrow> u32 list \<Rightarrow> string option) \<Rightarrow> string option \<Rightarrow> u32 list \<Rightarrow> string \<Rightarrow> string res \<times> string" where
  "WStringToString wcstombs env ws loc = convert wcstombs 0 env ws loc"

definition StringToWString :: "(string \<Rightarrow> string \<Rightarrow> u32 list option) \<Rightarrow> string option \<Rightarrow> string \<Rightarrow> string \<Rightarrow> u32 list res \<times> string" where
  "StringToWString mbstowcs env s loc = convert mbstowcs (CHR 0x00) env s loc"

text \<open>Whatever the locale was before, that of the environment stays.\<close>

lemma convert_locale: "snd (convert conv zero (Some e) src loc) = e"
  by (simp add: convert_def setlocale_env_def split: option.splits)

lemma convert_eq:
  assumes "zero \<notin> set src"
  shows "convert conv zero (Some e) src loc = (case conv e src of None \<Rightarrow> (Inl OutOfBounds, e) | Some dest \<Rightarrow> (Inr dest, e))"
proof -
  have "takeWhile (\<lambda>c. c \<noteq> zero) src = src" using assms by (induction src) auto
  then have "conv e (takeWhile (\<lambda>c. c \<noteq> zero) src) = conv e src" by (rule arg_cong)
  then show ?thesis by (simp add: convert_def setlocale_env_def)
qed

text \<open>
  A text without null characters that the C library converts both ways comes back from the wide string made of it; a
  text it cannot convert is read past the buffer; and the locale of the program is not put back.
\<close>

lemma wide_roundtrip:
  assumes "CHR 0x00 \<notin> set s" "mbstowcs e s = Some ws" "0 \<notin> set ws" "wcstombs e ws = Some s"
  shows "StringToWString mbstowcs (Some e) s loc = (Inr ws, e) \<and> WStringToString wcstombs (Some e) ws loc = (Inr s, e)"
  using assms by (simp add: StringToWString_def WStringToString_def convert_eq)

lemma wide_invalid:
  assumes "CHR 0x00 \<notin> set s" "mbstowcs e s = None"
  shows "StringToWString mbstowcs (Some e) s loc = (Inl OutOfBounds, e)"
  using assms by (simp add: StringToWString_def convert_eq)

section \<open>What a scheduler prints\<close>

definition sched_dump :: "'cb sched \<Rightarrow> string" where
  "sched_dump s =
     ''[Scheduler name='' @ m_name s @ '' size='' @ dec (unat (m_threadCount s)) @
     '' active_count='' @ dec (unat (m_activeThreadCount s)) @ '' idle_count='' @ dec (unat (m_idleThreadCount s)) @
     '' stopping='' @ (if m_stopping s then ''1'' else ''0'') @ '' ]'' @ [CHR 0x0A] @ ''    '' @
     concat (map (\<lambda>i. (if i = 0 then [] else '', '') @ dec_int (m_threadIds s ! i)) [0..<length (m_threadIds s)])"

end
