(* ===== verification/Thread.thy ===== *)
theory Thread
  imports Prelude
begin

text \<open>
  Threads and semaphores (\<^verbatim>\<open>saturn/thread.cc\<close>, \<^verbatim>\<open>saturn/thread.h\<close>, \<^verbatim>\<open>saturn/sem.cc\<close>): the constructor that starts a
  thread and waits until it has set itself up, the function the thread runs, joining, names.  Results of the pthread
  and semaphore calls are arguments; a callback is a value of \<open>'c\<close>, and running one is recorded.
\<close>

section \<open>Semaphores\<close>

text \<open>A semaphore is its counter; \<open>None\<close> is a wait that blocks.\<close>

definition Semaphore :: "int \<Rightarrow> nat \<Rightarrow> nat res" where
  "Semaphore rc v = (if rc \<noteq> 0 then Inl LogicError else Inr v)"

definition sem_wait :: "int \<Rightarrow> nat \<Rightarrow> nat res option" where
  "sem_wait rc m_sem = (if rc \<noteq> 0 then Some (Inl LogicError) else if m_sem = 0 then None else Some (Inr (m_sem - 1)))"

definition sem_notify :: "int \<Rightarrow> nat \<Rightarrow> nat res" where
  "sem_notify rc m_sem = (if rc \<noteq> 0 then Inl LogicError else Inr (Suc m_sem))"

section \<open>Threads\<close>

record 'c thread =
  th_id :: int
  th_name :: string
  th_cb :: "'c option"
  th_thread :: bool
  th_sem :: nat

text \<open>The thread-local variables of one thread.\<close>

record tls =
  t_thread :: bool
  t_thread_name :: string

definition tls_init :: tls where
  "tls_init = \<lparr>t_thread = False, t_thread_name = ''UNKNOWN''\<rparr>"

text \<open>
  The constructor up to the wait: \<open>rc\<close> is the result of \<^verbatim>\<open>pthread_create\<close> and \<open>junk\<close> the value of the id before it is set.
\<close>

definition newThread :: "int \<Rightarrow> int \<Rightarrow> 'c \<Rightarrow> string \<Rightarrow> 'c thread res" where
  "newThread junk rc cb name =
     (if rc \<noteq> 0 then Inl LogicError
      else Inr \<lparr>th_id = junk, th_name = (if name = [] then ''UNKNOWN'' else name), th_cb = Some cb, th_thread = True, th_sem = 0\<rparr>)"

text \<open>\<^verbatim>\<open>Thread::run\<close> up to the notification: the callback it swaps out, and the name the system gets.\<close>

definition run_setup :: "int \<Rightarrow> 'c thread \<Rightarrow> 'c option \<times> string \<times> tls \<times> 'c thread" where
  "run_setup tid th =
     (th_cb th, take 15 (th_name th), \<lparr>t_thread = True, t_thread_name = th_name th\<rparr>, th\<lparr>th_id := tid, th_cb := None\<rparr>)"

definition join :: "int \<Rightarrow> 'c thread \<Rightarrow> 'c thread res" where
  "join rc th = (if th_thread th then if rc \<noteq> 0 then Inl LogicError else Inr (th\<lparr>th_thread := False\<rparr>) else Inr th)"

definition detaches :: "'c thread \<Rightarrow> bool" where
  "detaches th = th_thread th"

text \<open>
  \<^verbatim>\<open>Thread::SetName\<close> is static: the call through \<^verbatim>\<open>t_thread\<close> is a call of the same function on the same thread.
\<close>

partial_function (option) SetName :: "string \<Rightarrow> tls \<Rightarrow> tls option" where
  "SetName name t =
     (if name = [] then Some t
      else let t1 = t\<lparr>t_thread_name := name\<rparr> in if t_thread t1 then SetName name t1 else Some t1)"

section \<open>Starting a thread\<close>

text \<open>Where the thread that creates stands and where the created one stands, the callbacks run, the object.\<close>

datatype creator = Waiting | Returned
datatype runner = Start | Ready | Call | End

record 'c launch =
  l_creator :: creator
  l_runner :: runner
  l_obj :: "'c thread"
  l_tls :: tls
  l_cb :: "'c option"
  l_ran :: "'c list"

inductive launch_step :: "int \<Rightarrow> 'c launch \<Rightarrow> 'c launch \<Rightarrow> bool" where
  set_up: "l_runner s = Start \<Longrightarrow> run_setup tid (l_obj s) = (cb, nm, t, obj) \<Longrightarrow>
    launch_step tid s (s\<lparr>l_runner := Ready, l_obj := obj, l_tls := t, l_cb := cb\<rparr>)"
| notify: "l_runner s = Ready \<Longrightarrow> sem_notify 0 (th_sem (l_obj s)) = Inr v \<Longrightarrow>
    launch_step tid s (s\<lparr>l_runner := Call, l_obj := (l_obj s)\<lparr>th_sem := v\<rparr>\<rparr>)"
| call: "l_runner s = Call \<Longrightarrow> l_cb s = Some cb \<Longrightarrow> launch_step tid s (s\<lparr>l_runner := End, l_ran := l_ran s @ [cb]\<rparr>)"
| wait: "l_creator s = Waiting \<Longrightarrow> sem_wait 0 (th_sem (l_obj s)) = Some (Inr v) \<Longrightarrow>
    launch_step tid s (s\<lparr>l_creator := Returned, l_obj := (l_obj s)\<lparr>th_sem := v\<rparr>\<rparr>)"

inductive_cases launch_stepE: "launch_step tid s s'"

definition launched :: "'c thread \<Rightarrow> 'c launch" where
  "launched th = \<lparr>l_creator = Waiting, l_runner = Start, l_obj = th, l_tls = tls_init, l_cb = None, l_ran = []\<rparr>"

definition launch_inv :: "int \<Rightarrow> 'c \<Rightarrow> string \<Rightarrow> 'c launch \<Rightarrow> bool" where
  "launch_inv tid cb name s \<longleftrightarrow>
     th_name (l_obj s) = name \<and> th_thread (l_obj s) \<and>
     (if l_runner s = Start then th_cb (l_obj s) = Some cb
      else l_cb s = Some cb \<and> th_cb (l_obj s) = None \<and> th_id (l_obj s) = tid \<and> l_tls s = \<lparr>t_thread = True, t_thread_name = name\<rparr>) \<and>
     l_ran s = (if l_runner s = End then [cb] else []) \<and>
     (case l_creator s of
        Waiting \<Rightarrow> th_sem (l_obj s) = (if l_runner s = Start \<or> l_runner s = Ready then 0 else 1)
      | Returned \<Rightarrow> th_sem (l_obj s) = 0 \<and> l_runner s \<noteq> Start \<and> l_runner s \<noteq> Ready)"

lemma launch_inv_step: "launch_step tid s s' \<Longrightarrow> launch_inv tid cb name s \<Longrightarrow> launch_inv tid cb name s'"
  by (erule launch_stepE)
    (auto simp: launch_inv_def run_setup_def sem_notify_def sem_wait_def split: creator.splits if_splits)

lemma launch_inv_reach:
  "(launch_step tid)\<^sup>*\<^sup>* s s' \<Longrightarrow> launch_inv tid cb name s \<Longrightarrow> launch_inv tid cb name s'"
  by (induction rule: rtranclp_induct) (auto intro: launch_inv_step)

lemma launch_progress:
  assumes "launch_inv tid cb name s" "\<not> (l_creator s = Returned \<and> l_runner s = End)"
  shows "\<exists>s'. launch_step tid s s'"
proof (cases "l_runner s")
  case Start
  then show ?thesis by (cases "run_setup tid (l_obj s)") (blast intro: launch_step.set_up)
next
  case Ready
  then show ?thesis by (metis launch_step.notify sem_notify_def)
next
  case Call
  then show ?thesis using assms(1) by (auto simp: launch_inv_def intro: launch_step.call)
next
  case End
  then have "l_creator s = Waiting" "th_sem (l_obj s) = 1" using assms by (auto simp: launch_inv_def split: creator.splits)
  then show ?thesis by (intro exI) (rule launch_step.wait [of s 0], simp_all add: sem_wait_def)
qed

text \<open>
  Starting a thread.  Whatever the order of the two threads, the constructor returns only when the new thread has
  set its name and id and taken the callback out of the object; the callback given is run at most once and no other is,
  and the two never block each other: unless both have finished, one of them can go on.
\<close>

theorem thread_handshake:
  assumes "newThread junk 0 cb name = Inr th" "(launch_step tid)\<^sup>*\<^sup>* (launched th) s"
  shows "(l_creator s = Returned \<longrightarrow>
      th_id (l_obj s) = tid \<and> th_cb (l_obj s) = None \<and> t_thread_name (l_tls s) = (if name = [] then ''UNKNOWN'' else name)) \<and>
    (l_ran s = [] \<or> l_ran s = [cb]) \<and>
    ((\<exists>s'. launch_step tid s s') \<or> l_creator s = Returned \<and> l_ran s = [cb])"
proof -
  have "launch_inv tid cb (if name = [] then ''UNKNOWN'' else name) (launched th)"
    using assms(1) by (auto simp: newThread_def launched_def launch_inv_def)
  then have i: "launch_inv tid cb (if name = [] then ''UNKNOWN'' else name) s" using launch_inv_reach [OF assms(2)] by blast
  moreover have "(\<exists>s'. launch_step tid s s') \<or> l_creator s = Returned \<and> l_runner s = End" using launch_progress [OF i] by blast
  ultimately show ?thesis by (auto simp: launch_inv_def)
qed

theorem thread_handshake_witness:
  "\<exists>s. (launch_step 7)\<^sup>*\<^sup>* (launched (projr (newThread 0 0 True ''io''))) s \<and> l_ran s = [] \<and> (\<exists>s'. launch_step 7 s s')"
proof -
  let ?s = "launched (projr (newThread 0 0 True ''io''))"
  have "newThread 0 0 True ''io'' = Inr (projr (newThread 0 0 True ''io''))" by (simp add: newThread_def)
  from thread_handshake [OF this rtranclp.rtrancl_refl, of 7] show ?thesis
    by (intro exI [of _ ?s]) (auto simp: launched_def)
qed

section \<open>Names\<close>

lemma SetName_returns: "SetName name t = Some t' \<Longrightarrow> name = [] \<or> \<not> t_thread t"
  by (rule SetName.raw_induct [where P = "\<lambda>name t t'. name = [] \<or> \<not> t_thread t"]) (fastforce simp: Let_def split: if_splits)+

text \<open>
  Setting the name of a thread.  On a thread the library did not start it sets the name, an empty name changing
  nothing; on a thread the library started it does not return.
\<close>

theorem SetName_every_branch:
  "SetName name t =
     (if name = [] then Some t else if t_thread t then None else Some (t\<lparr>t_thread_name := name\<rparr>))"
proof (cases "name \<noteq> [] \<and> t_thread t")
  case True
  then show ?thesis using SetName_returns [of name t] by (cases "SetName name t") auto
next
  case False
  then show ?thesis by (subst SetName.simps) auto
qed

end
