(* ===== verification/Spec2Isabelle.thy ===== *)
theory Spec2Isabelle
  imports HttpPool HttpExchange ScannerStates Casts Utilities Thread
begin

text \<open>
  A model of the saturn library (\<^verbatim>\<open>src/saturn\<close>), a C++ framework for network servers: stackful fibers on a pool of
  threads, an epoll loop with timers, blocking system calls turned into fiber switches, buffers, sockets and streams,
  and an HTTP server and client on top.

  \<^bold>\<open>Conventions.\<close>  \<open>Prelude\<close> has the result type: a function that can fail returns \<open>cpp_error + 'a\<close>, with a constructor
  for each exception, failed assertion and kind of undefined behaviour the sources can reach.  Machine integers are
  words of their width where they can wrap; bytes are \<open>8 word\<close>, text is \<open>string\<close>.  Objects with shared ownership
  live in stores and are named by their addresses.  Loops are recursive functions with termination proofs; a loop
  that need not end (receiving, serving, \<^verbatim>\<open>SetName\<close>) is a partial function into \<open>option\<close>, \<open>None\<close> meaning that it does not
  return, and the theorems say when it does.  No definition uses fuel.  What lies outside \<^verbatim>\<open>src/\<close> is an argument:
  answers of the kernel, \<^verbatim>\<open>getaddrinfo\<close>, \<^verbatim>\<open>fnmatch\<close>, \<^verbatim>\<open>lexical_cast\<close>, the YAML library, the clock, the contents of memory not
  initialised.  Contracts the sources rely on are locales (\<open>kernel_recv\<close>, \<open>kernel_send\<close>, \<open>byte_source\<close>, \<open>comparator\<close>,
  \<open>yaml_lib\<close>, ...), each interpreted on a model of its provider.

  \<^bold>\<open>Buffers.\<close>  \<open>Bytes\<close>: byte order, zigzag and base-128 codes (\<^verbatim>\<open>util.h\<close>, \<^verbatim>\<open>bytearray.cc\<close>).  \<open>ByteArray\<close>, \<open>ByteArrayCodec\<close>,
  \<open>ByteArrayIo\<close>: the chain of nodes, the typed readers and writers, I/O vectors and files (\<^verbatim>\<open>bytearray.cc\<close>).  Writing refines
  overwriting a flat buffer, typed values round-trip where the reads are exact, and storing through I/O vectors is a write.

  \<^bold>\<open>Concurrency.\<close>  \<open>Thread\<close>: threads and semaphores.  \<open>Fiber\<close>, \<open>Scheduler\<close>: fibers and worker threads (\<^verbatim>\<open>fiber.cc\<close>,
  \<^verbatim>\<open>scheduler.cc\<close>), the worker loop cut into its atomic steps; in every interleaving no step fails and a fiber runs on one
  thread.  \<open>StdContainers\<close>, \<open>TimerManager\<close>: ordered containers and timers (\<^verbatim>\<open>timer.cc\<close>), with all interleavings of the locked
  sections.  \<open>IOManager\<close>: the epoll loop (\<^verbatim>\<open>iomanager.cc\<close>); the count of pending events is exact.

  \<^bold>\<open>System calls.\<close>  \<open>FdManager\<close>: contexts of descriptors (\<^verbatim>\<open>fdmanager.cc\<close>).  \<open>Hook\<close>: the hooked calls (\<^verbatim>\<open>hook.cc\<close>), cut where the
  fiber gives control away; a call that times out is resumed once and returns \<^verbatim>\<open>ETIMEDOUT\<close>.

  \<^bold>\<open>Network.\<close>  \<open>Address\<close> (\<^verbatim>\<open>address.cc\<close>), \<open>Socket\<close> (\<^verbatim>\<open>socket.cc\<close>), \<open>Stream\<close> and \<open>SocketStream\<close> (\<^verbatim>\<open>stream.cc\<close>,
  \<^verbatim>\<open>stream/socketstream.cc\<close>), \<open>TcpServer\<close> (\<^verbatim>\<open>tcpserver.cc\<close>), \<open>Uri\<close> (\<^verbatim>\<open>uri.cc\<close>).  Order and subnets of addresses, closing,
  transfer of bytes whatever the pieces, binding all addresses or none, the accept loop.

  \<^bold>\<open>Scanners.\<close>  \<open>Scanner\<close>: the machine of the code Ragel generates in its goto style, run on a table, and the checks by
  evaluation of what a set of characters leads to.  \<open>ReqScanner\<close>, \<open>RspScanner\<close>, \<open>UriTable\<close>: the states and actions of
  \<^verbatim>\<open>http11_parser.cc\<close>, \<^verbatim>\<open>httpclient_parser.cc\<close> and \<^verbatim>\<open>uri.cc\<close>, one table entry for each \<^verbatim>\<open>case\<close> of the code.  They are the arguments
  \<open>run\<close> of the parsers and of \<open>Uri_Create\<close>.  What a client or server prints is read back as it was, \<open>UriScanner\<close> has the same of
  URIs and of an empty port, which throws; \<open>ScannerStates\<close>: no jump leaves the table.

  \<^bold>\<open>HTTP.\<close>  \<open>CStrings\<close>, \<open>StringUtil\<close> (\<^verbatim>\<open>util.cc\<close>), \<open>Http\<close>, \<open>HttpQuery\<close> (\<^verbatim>\<open>http/http.cc\<close>): strings, requests, responses, parameters.
  \<open>HttpParser\<close>, \<open>HttpParserClient\<close> (\<^verbatim>\<open>http/http_parser.cc\<close> and the frames of the Mongrel2 scanners).  \<open>HttpSession\<close>, \<open>Servlet\<close>,
  \<open>HttpServer\<close>: receiving requests, routing, serving.  \<open>HttpConnection\<close>, \<open>HttpClient\<close>, \<open>HttpPool\<close> (\<^verbatim>\<open>http/http_connection.cc\<close>):
  receiving responses, one-shot requests, the connection pool.  Receiving and serving end for every peer; bodies are
  exactly the bytes announced; a pool counts its connections.  \<open>HttpExchange\<close> puts printers, connections, scanners and loops
  together: a request that is sent is the request received, and so is a response.

  \<^bold>\<open>Configuration and logs.\<close>  \<open>Config\<close> (\<^verbatim>\<open>config.h\<close>, \<^verbatim>\<open>config.cc\<close>): variables with listeners, their registry, loading a YAML document.
  \<open>Log\<close>, \<open>Logger\<close> (\<^verbatim>\<open>log.h\<close>, \<^verbatim>\<open>log.cc\<close>): formats, appenders, loggers, their configuration.  \<open>Casts\<close> (\<^verbatim>\<open>util.h\<close>): containers as YAML text.
  \<open>Utilities\<close> (\<^verbatim>\<open>util.cc\<close>): backtraces, wide strings.

  \<^bold>\<open>Not modelled.\<close>  The vendored Mongrel2 string library (\<^verbatim>\<open>bstr\<close>) and its debug macros, third-party code that nothing in
  saturn calls.  Functions that only call the system or the standard library: thread ids, clocks, the text of a time,
  which is the argument \<open>put_time\<close> of the log.  The config and status servlets, whose source files are empty.  Data races
  on the fields the sources read without a lock are not modelled except where an interleaving is part of a step relation.
\<close>

end
